(* ===== verification/Prelude.thy ===== *)
theory Prelude
  imports Main "HOL-Library.Word" "HOL-Library.Monad_Syntax"
begin

text \<open>
  Shared vocabulary of the development: the machine types of the C code (LP64, little
  endian, as \<^verbatim>\<open>e_acsl_bits.h\<close> demands), the byte-addressed memory with its
  little-endian loads and stores, the outcome type of code that may abort, and the generic
  facts on words that the components use.
\<close>

unbundle bit_operations_syntax

section \<open>Machine types\<close>

type_synonym u8 = "8 word"
type_synonym u32 = "32 word"
type_synonym u64 = "64 word"

text \<open>Memory as the C code sees it through \<^verbatim>\<open>unsigned char *\<close>.\<close>

type_synonym mem = "u64 \<Rightarrow> u8"

text \<open>
  The outcome of code that calls \<^verbatim>\<open>vabort\<close> or \<^verbatim>\<open>vassert\<close>: \<open>Inl msg\<close> is an abort
  with that message, \<open>Inr v\<close> a normal return.
\<close>

type_synonym 'a outcome = "string + 'a"

named_theorems unat_simps \<open>reading words as natural numbers\<close>
named_theorems mem_simps \<open>what a load sees after a store\<close>

section \<open>Words\<close>

lemma unat_lt_64 [simp]: "unat (x :: u64) < 2 ^ 64"
  using unsigned_less [of x, where ?'a = nat] by simp

lemma unat_le_max64 [simp]: "unat (x :: u64) \<le> 18446744073709551615"
  using unat_lt_64 [of x] by simp

lemma unat_of_nat_64 [unat_simps]: "n < 2 ^ 64 \<Longrightarrow> unat (of_nat n :: u64) = n"
  by (simp add: unat_of_nat take_bit_nat_eq_self)

lemma unat_add_64 [unat_simps]:
  "unat x + unat y < 2 ^ 64 \<Longrightarrow> unat (x + y :: u64) = unat x + unat y"
  by (simp add: unat_word_ariths)

lemma unat_sub_64 [unat_simps]: "y \<le> x \<Longrightarrow> unat (x - y :: u64) = unat x - unat y"
  by (simp add: unat_sub_if' word_le_nat_alt)

lemma unat_mult_64 [unat_simps]:
  "unat x * unat y < 2 ^ 64 \<Longrightarrow> unat (x * y :: u64) = unat x * unat y"
  by (simp add: unat_word_ariths)

lemma unat_minus_1_64: "unat (- 1 :: u64) = 2 ^ 64 - 1"
  by (simp add: unsigned_minus_1_eq_mask mask_eq_exp_minus_1)

lemma unat_not_64: "unat (NOT x :: u64) = 2 ^ 64 - 1 - unat x"
proof -
  have "NOT x = - 1 - x" by (simp add: not_eq_complement)
  moreover have "x \<le> - 1" by simp
  ultimately show ?thesis by (simp only: unat_sub_64 unat_minus_1_64)
qed

lemma of_nat_eq_64 [simp]:
  "i < 2 ^ 64 \<Longrightarrow> j < 2 ^ 64 \<Longrightarrow> (of_nat i = (of_nat j :: u64)) = (i = j)"
  by (metis unat_of_nat_64)

lemma offset_eq_64: "(a + of_nat i = (x :: u64)) = (of_nat i = x - a)"
  by (auto simp: algebra_simps)

lemma unat_diff_of_nat_less:
  assumes "u < 2 ^ 64" and "v + k \<le> 2 ^ 64" and "0 < k"
  shows "unat (of_nat u - of_nat v :: u64) < k \<longleftrightarrow> v \<le> u \<and> u < v + k"
proof -
  have "v < 2 ^ 64" using assms(2,3) by simp
  then show ?thesis
    using assms by (auto simp: unat_sub_if' unat_of_nat_64)
qed

lemma div_block_iff: "8 * i \<le> u \<and> u < 8 * i + 8 \<longleftrightarrow> u div 8 = (i :: nat)"
proof
  assume "8 * i \<le> u \<and> u < 8 * i + 8"
  then show "u div 8 = i" by linarith
next
  assume "u div 8 = i"
  then show "8 * i \<le> u \<and> u < 8 * i + 8" by linarith
qed

lemma div_div_64: "n div 8 div 8 = n div (64 :: nat)"
  by linarith

lemma mod_64_split: "8 * (n div 8 - 8 * (n div 64)) + n mod 8 = n mod (64 :: nat)"
proof -
  have "n mod 64 = 8 * (n div 8 mod 8) + n mod 8"
    using mod_mult2_eq [of n 8 8] by simp
  also have "n div 8 mod 8 = n div 8 - 8 * (n div 64)"
    unfolding div_div_64 [symmetric] by (rule minus_mult_div_eq_mod [symmetric])
  finally show ?thesis by simp
qed

lemma word8_eqI:
  fixes x y :: u8
  assumes "\<And>n. n < 8 \<Longrightarrow> bit x n = bit y n"
  shows "x = y"
  by (rule bit_word_eqI) (simp add: assms)

section \<open>Little-endian memory\<close>

text \<open>
  \<open>load_le k m a\<close> reads \<open>k\<close> bytes at \<open>a\<close>, \<open>store_le k m a v\<close> writes the \<open>k\<close>
  low bytes of \<open>v\<close>; \<open>k = 8\<close> is an access through \<^verbatim>\<open>uint64_t *\<close>, \<open>k = 4\<close> one
  through \<^verbatim>\<open>uint32_t *\<close>.
\<close>

fun load_le :: "nat \<Rightarrow> mem \<Rightarrow> u64 \<Rightarrow> u64" where
  "load_le 0 m a = 0"
| "load_le (Suc k) m a = ucast (m a) OR push_bit 8 (load_le k m (a + 1))"

fun store_le :: "nat \<Rightarrow> mem \<Rightarrow> u64 \<Rightarrow> u64 \<Rightarrow> mem" where
  "store_le 0 m a v = m"
| "store_le (Suc k) m a v = store_le k (m(a := ucast v)) (a + 1) (drop_bit 8 v)"

abbreviation load64 :: "mem \<Rightarrow> u64 \<Rightarrow> u64" where
  "load64 \<equiv> load_le 8"

abbreviation store64 :: "mem \<Rightarrow> u64 \<Rightarrow> u64 \<Rightarrow> mem" where
  "store64 \<equiv> store_le 8"

text \<open>\<^verbatim>\<open>memset\<close>, \<^verbatim>\<open>memcpy\<close> on non-overlapping areas, as the C library documents them.\<close>

fun fill_bytes :: "mem \<Rightarrow> u64 \<Rightarrow> u8 \<Rightarrow> nat \<Rightarrow> mem" where
  "fill_bytes m a v 0 = m"
| "fill_bytes m a v (Suc n) = (fill_bytes m a v n)(a + of_nat n := v)"

definition copy_bytes :: "mem \<Rightarrow> u64 \<Rightarrow> u64 \<Rightarrow> nat \<Rightarrow> mem" where
  "copy_bytes m d s n = (\<lambda>x. if unat (x - d) < n then m (s + (x - d)) else m x)"

lemma bit_load_le [simp]:
  "bit (load_le k m a) n \<longleftrightarrow>
     n < 64 \<and> n < 8 * k \<and> bit (m (a + of_nat (n div 8))) (n mod 8)"
proof (induction k arbitrary: a n)
  case 0
  then show ?case by simp
next
  case (Suc k)
  show ?case
  proof (cases "n < 8")
    case True
    then show ?thesis by (auto simp: bit_or_iff bit_ucast_iff bit_push_bit_iff)
  next
    case False
    then obtain j where j: "n = 8 + j" by (metis le_add_diff_inverse not_less)
    have "bit (ucast (m a) :: u64) n = False"
      using False by (auto simp: bit_ucast_iff dest: bit_imp_le_length)
    then show ?thesis
      using Suc.IH [of "a + 1" j]
      by (auto simp: j bit_or_iff bit_push_bit_iff add.assoc div_add_self1)
  qed
qed

lemma store_le_at:
  assumes "k \<le> 8"
  shows "store_le k m a v x =
    (if unat (x - a) < k then ucast (drop_bit (8 * unat (x - a)) v) else m x)"
  using assms
proof (induction k arbitrary: m a v)
  case 0
  then show ?case by simp
next
  case (Suc k)
  show ?case
  proof (cases "x = a")
    case True
    have "unat (x - (a + 1)) = 2 ^ 64 - 1"
      by (simp add: True unsigned_minus_1_eq_mask mask_eq_exp_minus_1)
    then have "\<not> unat (x - (a + 1)) < k" using Suc.prems by simp
    then show ?thesis using Suc by (simp add: True)
  next
    case False
    then have nz: "x - a \<noteq> 0" by simp
    have eq: "x - (a + 1) = (x - a) - 1" by simp
    have u: "unat (x - (a + 1)) = unat (x - a) - 1"
      unfolding eq using nz by (rule unat_minus_one)
    have pos: "0 < unat (x - a)" using nz by (simp add: unat_gt_0)
    have e8: "8 * (unat (x - a) - Suc 0) + 8 = 8 * unat (x - a)"
      using pos by simp
    show ?thesis
      using Suc False pos by (auto simp: u drop_bit_drop_bit e8)
  qed
qed

lemma fill_bytes_at:
  "n < 2 ^ 64 \<Longrightarrow> fill_bytes m a v n x = (if unat (x - a) < n then v else m x)"
proof (induction n)
  case 0
  then show ?case by simp
next
  case (Suc n)
  have "(x = a + of_nat n) = (unat (x - a) = n)"
    using Suc.prems by (auto simp: unat_of_nat_64 algebra_simps)
  then show ?case using Suc by auto
qed

lemma load_le_store_le_same [mem_simps]:
  assumes "k \<le> 8"
  shows "load_le k (store_le k m a v) a = take_bit (8 * k) v"
proof (rule bit_word_eqI)
  fix n assume n: "n < LENGTH(64)"
  show "bit (load_le k (store_le k m a v) a) n = bit (take_bit (8 * k) v) n"
  proof (cases "n < 8 * k")
    case True
    have d: "unat (of_nat (n div 8) :: u64) = n div 8"
      using n by (intro unat_of_nat_64) simp
    have lt: "n div 8 < k" using True by linarith
    have at: "store_le k m a v (a + of_nat (n div 8)) = ucast (drop_bit (8 * (n div 8)) v)"
      using assms lt by (simp add: store_le_at d)
    show ?thesis
      using n True by (simp add: at bit_take_bit_iff bit_ucast_iff bit_drop_bit_eq)
  next
    case False
    then show ?thesis by (simp add: bit_take_bit_iff)
  qed
qed

lemma load_le_cong:
  assumes "\<And>i. i < k \<Longrightarrow> m (a + of_nat i) = m' (a + of_nat i)"
  shows "load_le k m a = load_le k m' a"
proof (rule bit_word_eqI)
  fix n
  show "bit (load_le k m a) n = bit (load_le k m' a) n"
    using assms [of "n div 8"] by auto
qed

end
