(* ===== verification/Bittree_Mask.thy ===== *)
theory Bittree_Mask
  imports Prelude
begin

text \<open>
  The prefix masks of \<^verbatim>\<open>share/e-acsl/bittree_model/e_acsl_bittree.h\<close> (\<open>WORDBITS = 64\<close>):
  the tables \<^verbatim>\<open>Tmasks\<close>, \<^verbatim>\<open>Teq\<close>, \<^verbatim>\<open>Tneq\<close> and the dichotomic search \<^verbatim>\<open>mask\<close> for
  the mask of the longest common prefix of two addresses. The search is a loop over table
  entries, so it is a partial function whose value \<open>None\<close> means that the loop does not
  end; \<open>mask_bt_eq\<close> shows that it always ends, with the mask of length \<open>cpl a b\<close>.
\<close>

section \<open>Tables and search\<close>

definition Tmasks :: "u64 list" where
  "Tmasks = [
0x0,0x8000000000000000,0xc000000000000000,0xe000000000000000,0xf000000000000000,
0xf800000000000000,0xfc00000000000000,0xfe00000000000000,0xff00000000000000,
0xff80000000000000,0xffc0000000000000,0xffe0000000000000,0xfff0000000000000,
0xfff8000000000000,0xfffc000000000000,0xfffe000000000000,0xffff000000000000,
0xffff800000000000,0xffffc00000000000,0xffffe00000000000,0xfffff00000000000,
0xfffff80000000000,0xfffffc0000000000,0xfffffe0000000000,0xffffff0000000000,
0xffffff8000000000,0xffffffc000000000,0xffffffe000000000,0xfffffff000000000,
0xfffffff800000000,0xfffffffc00000000,0xfffffffe00000000,0xffffffff00000000,
0xffffffff80000000,0xffffffffc0000000,0xffffffffe0000000,0xfffffffff0000000,
0xfffffffff8000000,0xfffffffffc000000,0xfffffffffe000000,0xffffffffff000000,
0xffffffffff800000,0xffffffffffc00000,0xffffffffffe00000,0xfffffffffff00000,
0xfffffffffff80000,0xfffffffffffc0000,0xfffffffffffe0000,0xffffffffffff0000,
0xffffffffffff8000,0xffffffffffffc000,0xffffffffffffe000,0xfffffffffffff000,
0xfffffffffffff800,0xfffffffffffffc00,0xfffffffffffffe00,0xffffffffffffff00,
0xffffffffffffff80,0xffffffffffffffc0,0xffffffffffffffe0,0xfffffffffffffff0,
0xfffffffffffffff8,0xfffffffffffffffc,0xfffffffffffffffe,0xffffffffffffffff]"

definition Teq :: "int list" where
  "Teq =
  [ 0,-1,3,-3,6,-5,7,-7,12,-9,11,-11,14,-13,15,-15,24,-17,19,-19,22,-21,23,-23,
    28,-25,27,-27,30,-29,31,-31,48,-33,35,-35,38,-37,39,-39,44,-41,43,-43,46,
    -45,47,-47,56,-49,51,-51,54,-53,55,-55,60,-57,59,-59,62,-61,63,64,-64 ]"

definition Tneq :: "int list" where
  "Tneq =
  [ 0,0,1,-2,2,-4,5,-6,4,-8,9,-10,10,-12,13,-14,8,-16,17,-18,18,-20,21,-22,20,
    -24,25,-26,26,-28,29,-30,16,-32,33,-34,34,-36,37,-38,36,-40,41,-42,42,-44,
    45,-46,40,-48,49,-50,50,-52,53,-54,52,-56,57,-58,58,-60,61,-62,-63 ]"

partial_function (option) mask_loop :: "u64 \<Rightarrow> int \<Rightarrow> int option" where
  "mask_loop nxor i =
     (if 0 < i then
        (if Tmasks ! nat i \<le> nxor then mask_loop nxor (Teq ! nat i)
         else mask_loop nxor (Tneq ! nat i))
      else Some i)"

definition mask_bt :: "u64 \<Rightarrow> u64 \<Rightarrow> u64 option" where
  "mask_bt a b =
     do { i \<leftarrow> mask_loop (NOT (a XOR b)) (64 div 2); Some (Tmasks ! nat (- i)) }"

section \<open>Prefixes\<close>

text \<open>\<open>pre k x\<close> is the number formed by the \<open>k\<close> most significant bits of \<open>x\<close>.\<close>

definition pre :: "nat \<Rightarrow> u64 \<Rightarrow> nat" where
  "pre k x = unat x div 2 ^ (64 - k)"

text \<open>\<open>cpl a b\<close> is the length of the longest common prefix of \<open>a\<close> and \<open>b\<close>.\<close>

definition cpl :: "u64 \<Rightarrow> u64 \<Rightarrow> nat" where
  "cpl a b = Max (set (filter (\<lambda>k. pre k a = pre k b) [0..<65]))"

abbreviation Tm :: "nat \<Rightarrow> u64" where
  "Tm k \<equiv> NOT (Bit_Operations.mask (64 - k))"

lemma pre_0 [simp]: "pre 0 x = 0"
  using unat_lt_64 [of x] by (simp add: pre_def)

lemma pre_64 [simp]: "pre 64 x = unat x"
  by (simp add: pre_def)

lemma pre_mono: "x \<le> y \<Longrightarrow> pre k x \<le> pre k y"
  by (simp add: pre_def div_le_mono word_le_nat_alt)

lemma pre_shorter:
  assumes "j \<le> k" and "k \<le> 64"
  shows "pre j x = pre k x div 2 ^ (k - j)"
proof -
  have "64 - j = (64 - k) + (k - j)" using assms by simp
  then show ?thesis by (simp add: pre_def power_add div_mult2_eq)
qed

lemma pre_eq_shorter: "pre k x = pre k y \<Longrightarrow> j \<le> k \<Longrightarrow> k \<le> 64 \<Longrightarrow> pre j x = pre j y"
  by (simp add: pre_shorter [of j k])

lemma pre_le_shorter: "pre k x \<le> pre k y \<Longrightarrow> j \<le> k \<Longrightarrow> k \<le> 64 \<Longrightarrow> pre j x \<le> pre j y"
  by (simp add: pre_shorter [of j k] div_le_mono)

lemma pre_Suc_div: "k < 64 \<Longrightarrow> pre (Suc k) x div 2 = pre k x"
  using pre_shorter [of k "Suc k" x] by simp

lemma pre_Suc_cases: "k < 64 \<Longrightarrow> pre (Suc k) x = 2 * pre k x \<or> pre (Suc k) x = 2 * pre k x + 1"
  using pre_Suc_div [of k x] by linarith

lemma pre_less_imp_less: "pre k x < pre k y \<Longrightarrow> x < y"
  using pre_mono [of y x k] by (meson not_less)

lemma unat_drop_pre: "unat (drop_bit (64 - k) x :: u64) = pre k x"
  unfolding pre_def unat_drop_bit_eq by (simp add: drop_bit_eq_div)

lemma drop_bit_eq_iff_pre: "(drop_bit (64 - k) x = drop_bit (64 - k) (y :: u64)) = (pre k x = pre k y)"
  by (simp only: word_unat_eq_iff unat_drop_pre)

lemma unat_and_Tm: "unat (x AND Tm k) = pre k x * 2 ^ (64 - k)"
proof -
  have "x AND Tm k = push_bit (64 - k) (drop_bit (64 - k) x)"
    by (rule bit_word_eqI)
      (auto simp: bit_and_iff bit_not_iff bit_mask_iff bit_push_bit_iff bit_drop_bit_eq)
  moreover have "unat x div 2 ^ (64 - k) * 2 ^ (64 - k) \<le> unat x" by simp
  then have "pre k x * 2 ^ (64 - k) < 2 ^ 64"
    unfolding pre_def using unat_lt_64 [of x] by (rule le_less_trans)
  ultimately show ?thesis
    by (simp only: unsigned_push_bit_eq unat_drop_pre)
      (simp add: push_bit_eq_mult take_bit_nat_eq_self)
qed

lemma and_Tm_eq_iff: "(x AND Tm k = y AND Tm k) = (pre k x = pre k y)"
  by (simp only: word_unat_eq_iff unat_and_Tm) simp

lemma and_Tm_le_iff: "(x AND Tm k \<le> y AND Tm k) = (pre k x \<le> pre k y)"
  by (simp only: word_le_nat_alt unat_and_Tm) simp

lemma pre_and_Tm: "j \<le> k \<Longrightarrow> k \<le> 64 \<Longrightarrow> pre j (x AND Tm k) = pre j x"
proof -
  assume jk: "j \<le> k" "k \<le> 64"
  have "pre k (x AND Tm k) = pre k x"
    by (simp only: pre_def [of k "x AND Tm k"] unat_and_Tm) simp
  then show ?thesis using jk by (rule pre_eq_shorter)
qed

lemma pre_and: "pre k x = pre k y \<Longrightarrow> pre k (x AND y) = pre k x"
  by (simp only: drop_bit_and drop_bit_eq_iff_pre [symmetric]) simp

lemma unat_Tm:
  assumes "k \<le> 64"
  shows "unat (Tm k) = 2 ^ 64 - 2 ^ (64 - k)"
proof -
  have "(Bit_Operations.mask (64 - k) :: u64) = of_nat (2 ^ (64 - k) - 1)"
    by (simp add: mask_eq_exp_minus_1 of_nat_diff)
  moreover have "(2 :: nat) ^ (64 - k) \<le> 2 ^ 64" by (rule power_increasing) simp_all
  then have "(2 :: nat) ^ (64 - k) - 1 < 2 ^ 64" by simp
  ultimately have "unat (Bit_Operations.mask (64 - k) :: u64) = 2 ^ (64 - k) - 1"
    by (simp only: unat_of_nat_64)
  then show ?thesis by (simp add: unat_not_64)
qed

lemma Tm_less_iff:
  assumes "i \<le> 64" and "j \<le> 64"
  shows "Tm i < Tm j \<longleftrightarrow> i < j"
proof -
  have le: "(2 :: nat) ^ (64 - k) \<le> 2 ^ 64" for k
    by (rule power_increasing) simp_all
  have "Tm i < Tm j \<longleftrightarrow> (2 :: nat) ^ (64 - j) < 2 ^ (64 - i)"
    unfolding word_less_nat_alt unat_Tm [OF assms(1)] unat_Tm [OF assms(2)]
    using le [of i] le [of j] by linarith
  then show ?thesis using assms by auto
qed

lemma Tm_inject: "i \<le> 64 \<Longrightarrow> j \<le> 64 \<Longrightarrow> Tm i = Tm j \<longleftrightarrow> i = j"
  using Tm_less_iff [of i j] Tm_less_iff [of j i] by (metis less_irrefl linorder_neqE_nat)

section \<open>The longest common prefix\<close>

lemma cpl_set: "set (filter (\<lambda>k. pre k a = pre k b) [0..<65]) \<noteq> {}"
proof -
  have "0 \<in> set (filter (\<lambda>k. pre k a = pre k b) [0..<65])" by simp
  then show ?thesis by (metis emptyE)
qed

lemma cpl_le: "cpl a b \<le> 64"
  unfolding cpl_def by (rule Max.boundedI [OF _ cpl_set]) auto

lemma pre_eq_iff_cpl:
  assumes "k \<le> 64"
  shows "pre k a = pre k b \<longleftrightarrow> k \<le> cpl a b"
proof
  assume "pre k a = pre k b"
  then show "k \<le> cpl a b"
    unfolding cpl_def using assms by (intro Max_ge) auto
next
  assume le: "k \<le> cpl a b"
  have "cpl a b \<in> set (filter (\<lambda>k. pre k a = pre k b) [0..<65])"
    unfolding cpl_def by (rule Max_in [OF _ cpl_set]) simp
  then show "pre k a = pre k b" using le cpl_le by (auto intro: pre_eq_shorter)
qed

lemma cpl_commute: "cpl a b = cpl b a"
  by (simp add: cpl_def eq_commute)

lemma cpl_eq_64: "cpl a b = 64 \<longleftrightarrow> a = b"
  using pre_eq_iff_cpl [of 64 a b] cpl_le [of a b] by (auto simp: word_unat_eq_iff)

lemma not_xor_ge_Tm:
  assumes "k \<le> 64"
  shows "Tm k \<le> NOT (a XOR b) \<longleftrightarrow> pre k a = pre k b"
proof -
  have le: "(2 :: nat) ^ (64 - k) \<le> 2 ^ 64" "(0 :: nat) < 2 ^ (64 - k)"
    by (rule power_increasing) simp_all
  have "Tm k \<le> NOT (a XOR b) \<longleftrightarrow> unat (a XOR b) < 2 ^ (64 - k)"
    unfolding word_le_nat_alt unat_not_64 [of "a XOR b"] unat_Tm [OF assms]
    using le unat_lt_64 [of "a XOR b"] by linarith
  also have "\<dots> \<longleftrightarrow> pre k (a XOR b) = 0"
    by (simp add: pre_def div_eq_0_iff)
  also have "\<dots> \<longleftrightarrow> drop_bit (64 - k) (a XOR b) = 0"
    by (simp only: unat_drop_pre [symmetric] unat_eq_zero)
  also have "\<dots> \<longleftrightarrow> drop_bit (64 - k) a = drop_bit (64 - k) b"
    unfolding drop_bit_xor by (simp add: bit_eq_iff bit_xor_iff)
  finally show ?thesis by (simp only: drop_bit_eq_iff_pre)
qed

lemma Tmasks_nth: "k \<le> 64 \<Longrightarrow> Tmasks ! k = Tm k"
proof -
  assume "k \<le> 64"
  moreover have "list_all (\<lambda>k. Tmasks ! k = Tm k) [0..<65]"
    by code_simp
  ultimately show ?thesis by (simp add: list_all_iff)
qed

text \<open>The search against an oracle that knows the answer \<open>n\<close>.\<close>

fun probe :: "nat \<Rightarrow> nat \<Rightarrow> int \<Rightarrow> int option" where
  "probe 0 n i = None"
| "probe (Suc f) n i =
     (if 0 < i then
        (if i \<le> 64 then probe f n (if nat i \<le> n then Teq ! nat i else Tneq ! nat i) else None)
      else Some i)"

lemma mask_loop_probe:
  assumes "\<And>k. k \<le> 64 \<Longrightarrow> (Tmasks ! k \<le> nxor) = (k \<le> n)"
  shows "probe f n i = Some r \<Longrightarrow> mask_loop nxor i = Some r"
proof (induction f arbitrary: i)
  case (Suc f)
  then show ?case
    using assms [of "nat i"] by (subst mask_loop.simps) (auto split: if_splits)
qed simp

lemma probe_all: "n \<le> 64 \<Longrightarrow> probe 8 n 32 = Some (- int n)"
proof -
  assume "n \<le> 64"
  moreover have "list_all (\<lambda>n. probe 8 n 32 = Some (- int n)) [0..<65]"
    by code_simp
  ultimately show ?thesis by (simp add: list_all_iff)
qed

lemma mask_bt_eq: "mask_bt a b = Some (Tm (cpl a b))"
proof -
  have "(Tmasks ! k \<le> NOT (a XOR b)) = (k \<le> cpl a b)" if "k \<le> 64" for k
    using that by (simp only: Tmasks_nth not_xor_ge_Tm pre_eq_iff_cpl)
  then have "mask_loop (NOT (a XOR b)) 32 = Some (- int (cpl a b))"
    using probe_all [OF cpl_le] by (rule mask_loop_probe)
  then show ?thesis by (simp add: mask_bt_def Tmasks_nth cpl_le)
qed

section \<open>Properties\<close>

text \<open>
  C6: the contract of \<^verbatim>\<open>mask\<close>: on any two addresses the table-driven search ends, and its
  result is the table mask of a common prefix of the two, the longest one.
\<close>

theorem mask_contract:
  "\<exists>k\<le>64. mask_bt a b = Some (Tmasks ! k) \<and> a AND Tmasks ! k = b AND Tmasks ! k \<and>
     (\<forall>j\<le>64. a AND Tmasks ! j = b AND Tmasks ! j \<longrightarrow> j \<le> k)"
proof (intro exI [of _ "cpl a b"] conjI allI impI)
  show "cpl a b \<le> 64" by (rule cpl_le)
  show "mask_bt a b = Some (Tmasks ! cpl a b)" by (simp only: mask_bt_eq Tmasks_nth cpl_le)
  show "a AND Tmasks ! cpl a b = b AND Tmasks ! cpl a b"
    by (simp only: Tmasks_nth cpl_le and_Tm_eq_iff pre_eq_iff_cpl order_refl)
  show "j \<le> cpl a b" if "j \<le> 64" "a AND Tmasks ! j = b AND Tmasks ! j" for j
    using that by (simp only: Tmasks_nth and_Tm_eq_iff pre_eq_iff_cpl)
qed

theorem mask_contract_witness:
  "\<exists>k. 56 \<le> k \<and> k \<le> 64 \<and> mask_bt 0x12F0 0x1200 = Some (Tmasks ! k)"
proof -
  have "(0x12F0 :: u64) AND Tmasks ! 56 = 0x1200 AND Tmasks ! 56" by code_simp
  moreover obtain k where "k \<le> 64" "mask_bt 0x12F0 0x1200 = Some (Tmasks ! k)"
    "\<forall>j\<le>64. 0x12F0 AND Tmasks ! j = 0x1200 AND Tmasks ! j \<longrightarrow> j \<le> k"
    using mask_contract [of "0x12F0" "0x1200"] by blast
  ultimately show ?thesis by (intro exI [of _ k]) simp
qed

end
