(* ===== verification/Bittree.thy ===== *)
theory Bittree
  imports Bittree_Mask
begin

text \<open>
  The Patricia trie of \<^verbatim>\<open>share/e-acsl/bittree_model\<close>
  (\<^verbatim>\<open>e_acsl_bittree_api.h\<close>, \<^verbatim>\<open>e_acsl_bittree.h\<close>) over an explicit store: a node or a
  block is an entry of a map from locations, a pointer is a location (\<open>NULL\<close> is 0), and
  \<^verbatim>\<open>private_free\<close> removes the entry. A result \<open>None\<close> means that the C code has no
  defined result: it dereferences \<open>NULL\<close> or freed memory, aborts, or loops.

  \<^verbatim>\<open>private_malloc\<close> belongs to the vendored allocator. It is the parameter \<open>pm\<close>, which
  maps the set of live locations to the location it returns; \<open>fresh_alloc pm\<close> is what the
  code relies on: the result is not \<open>NULL\<close> and not live.

  \<^item> \<open>tree_at\<close> relates the store to a tree \<open>btree\<close>, \<open>wf_trie\<close> is the trie invariant.
  \<^item> \<open>bt_lookup_eq\<close>, \<open>bt_find_eq\<close>: the two searches against the sorted leaves.
  \<^item> \<open>bt_insert_tree\<close>, \<open>bt_remove_tree\<close>: the destructive updates refine
    \<open>t_insert\<close> and \<open>t_remove\<close>, which keep the invariant.
\<close>

section \<open>Data\<close>

type_synonym loc = nat

abbreviation NULL :: loc where
  "NULL \<equiv> 0"

record bt_block =
  b_ptr :: u64
  b_size :: u64
  b_init_ptr :: "u8 list option"
  b_init_bytes :: u64
  b_is_readonly :: bool
  b_is_freeable :: bool

record bt_node =
  n_is_leaf :: bool
  n_addr :: u64
  n_mask :: u64
  n_left :: loc
  n_right :: loc
  n_parent :: loc
  n_leaf :: loc

record bt_state =
  nodes :: "loc \<rightharpoonup> bt_node"
  blocks :: "loc \<rightharpoonup> bt_block"
  bt_root :: loc

definition live :: "'a bt_state_scheme \<Rightarrow> loc set" where
  "live s = dom (nodes s) \<union> dom (blocks s)"

definition fresh_alloc :: "(loc set \<Rightarrow> loc) \<Rightarrow> bool" where
  "fresh_alloc pm \<longleftrightarrow> (\<forall>A. finite A \<longrightarrow> pm A \<noteq> NULL \<and> pm A \<notin> A)"

section \<open>Operations\<close>

text \<open>An assignment \<^verbatim>\<open>p->field = v\<close>, and the release of a node.\<close>

definition upd_node :: "loc \<Rightarrow> (bt_node \<Rightarrow> bt_node) \<Rightarrow> 'a bt_state_scheme \<Rightarrow> 'a bt_state_scheme option" where
  "upd_node p f s = do { n \<leftarrow> nodes s p; Some (s\<lparr>nodes := (nodes s)(p \<mapsto> f n)\<rparr>) }"

definition free_node :: "loc \<Rightarrow> 'a bt_state_scheme \<Rightarrow> 'a bt_state_scheme" where
  "free_node p s = s\<lparr>nodes := (nodes s)(p := None)\<rparr>"

text \<open>
  \<^verbatim>\<open>p->mask = mask(p->left->addr & p->left->mask, p->right->addr & p->right->mask)\<close>.
\<close>

definition remask :: "loc \<Rightarrow> 'a bt_state_scheme \<Rightarrow> 'a bt_state_scheme option" where
  "remask p s = do {
     n \<leftarrow> nodes s p;
     l \<leftarrow> nodes s (n_left n);
     r \<leftarrow> nodes s (n_right n);
     m \<leftarrow> mask_bt (n_addr l AND n_mask l) (n_addr r AND n_mask r);
     upd_node p (\<lambda>n. n\<lparr>n_mask := m\<rparr>) s }"

partial_function (option) get_leaf_loop :: "(loc \<rightharpoonup> bt_node) \<Rightarrow> u64 \<Rightarrow> loc \<Rightarrow> loc option" where
  "get_leaf_loop ns x cur = do {
     c \<leftarrow> ns cur;
     if n_is_leaf c then Some cur
     else do {
       r \<leftarrow> ns (n_right c);
       if n_addr r AND n_mask r = x AND n_mask r then get_leaf_loop ns x (n_right c)
       else do {
         l \<leftarrow> ns (n_left c);
         if n_addr l AND n_mask l = x AND n_mask l then get_leaf_loop ns x (n_left c)
         else None } } }"

definition bt_get_leaf_from_block :: "'a bt_state_scheme \<Rightarrow> loc \<Rightarrow> loc option" where
  "bt_get_leaf_from_block s b = do {
     blk \<leftarrow> blocks s b;
     get_leaf_loop (nodes s) (b_ptr blk) (bt_root s) }"

definition bt_remove :: "loc \<Rightarrow> 'a bt_state_scheme \<Rightarrow> 'a bt_state_scheme option" where
  "bt_remove b s = do {
     leaf_to_delete \<leftarrow> bt_get_leaf_from_block s b;
     ln \<leftarrow> nodes s leaf_to_delete;
     if n_parent ln = NULL then Some (free_node leaf_to_delete (s\<lparr>bt_root := NULL\<rparr>))
     else do {
       let parent = n_parent ln;
       pn \<leftarrow> nodes s parent;
       let sibling = (if leaf_to_delete = n_left pn then n_right pn else n_left pn);
       sn \<leftarrow> nodes s sibling;
       s \<leftarrow> upd_node parent (\<lambda>n. n\<lparr>n_is_leaf := n_is_leaf sn, n_addr := n_addr sn,
              n_mask := n_mask sn, n_left := n_left sn, n_right := n_right sn,
              n_leaf := n_leaf sn\<rparr>) s;
       s \<leftarrow> (if \<not> n_is_leaf sn then do {
               s \<leftarrow> upd_node (n_left sn) (\<lambda>n. n\<lparr>n_parent := parent\<rparr>) s;
               upd_node (n_right sn) (\<lambda>n. n\<lparr>n_parent := parent\<rparr>) s }
             else Some s);
       let s = free_node sibling s;
       s \<leftarrow> (if n_parent pn \<noteq> NULL then remask (n_parent pn) s else Some s);
       Some (free_node leaf_to_delete s) } }"

partial_function (option) most_similar_loop :: "(loc \<rightharpoonup> bt_node) \<Rightarrow> u64 \<Rightarrow> loc \<Rightarrow> loc option" where
  "most_similar_loop ns x cur = do {
     c \<leftarrow> ns cur;
     if n_is_leaf c then Some cur
     else do {
       l \<leftarrow> ns (n_left c);
       r \<leftarrow> ns (n_right c);
       left_prefix \<leftarrow> mask_bt (n_addr l AND n_mask l) x;
       right_prefix \<leftarrow> mask_bt (n_addr r AND n_mask r) x;
       if right_prefix < left_prefix then most_similar_loop ns x (n_left c)
       else if left_prefix < right_prefix then most_similar_loop ns x (n_right c)
       else Some cur } }"

definition bt_most_similar_node :: "'a bt_state_scheme \<Rightarrow> loc \<Rightarrow> loc option" where
  "bt_most_similar_node s b = do {
     blk \<leftarrow> blocks s b;
     most_similar_loop (nodes s) (b_ptr blk) (bt_root s) }"

definition bt_insert :: "(loc set \<Rightarrow> loc) \<Rightarrow> loc \<Rightarrow> 'a bt_state_scheme \<Rightarrow> 'a bt_state_scheme option" where
  "bt_insert pm b s = do {
     blk \<leftarrow> blocks s b;
     let new_leaf = pm (live s);
     let new_node = \<lparr>n_is_leaf = True, n_addr = b_ptr blk, n_mask = Tmasks ! 64,
           n_left = NULL, n_right = NULL, n_parent = NULL, n_leaf = b\<rparr>;
     let s = s\<lparr>nodes := (nodes s)(new_leaf \<mapsto> new_node)\<rparr>;
     if bt_root s = NULL then Some (s\<lparr>bt_root := new_leaf\<rparr>)
     else do {
       sibling \<leftarrow> bt_most_similar_node s b;
       sn \<leftarrow> nodes s sibling;
       let parent = pm (live s);
       let new_left = (if b_ptr blk \<le> n_addr sn then new_leaf else sibling);
       let new_right = (if b_ptr blk \<le> n_addr sn then sibling else new_leaf);
       let s = s\<lparr>nodes := (nodes s)(parent \<mapsto>
             \<lparr>n_is_leaf = False, n_addr = n_addr sn AND b_ptr blk, n_mask = 0,
              n_left = new_left, n_right = new_right, n_parent = NULL, n_leaf = NULL\<rparr>)\<rparr>;
       s \<leftarrow> upd_node new_leaf (\<lambda>n. n\<lparr>n_parent := parent\<rparr>) s;
       s \<leftarrow> (if sibling = bt_root s then do {
               m \<leftarrow> mask_bt (n_addr sn AND n_mask sn) (b_ptr blk);
               s \<leftarrow> upd_node parent (\<lambda>n. n\<lparr>n_parent := NULL, n_mask := m\<rparr>) s;
               Some (s\<lparr>bt_root := parent\<rparr>) }
             else do {
               gn \<leftarrow> nodes s (n_parent sn);
               s \<leftarrow> (if n_left gn = sibling
                    then upd_node (n_parent sn) (\<lambda>n. n\<lparr>n_left := parent\<rparr>) s
                    else upd_node (n_parent sn) (\<lambda>n. n\<lparr>n_right := parent\<rparr>) s);
               s \<leftarrow> upd_node parent (\<lambda>n. n\<lparr>n_parent := n_parent sn\<rparr>) s;
               remask parent s });
       s \<leftarrow> upd_node sibling (\<lambda>n. n\<lparr>n_parent := parent\<rparr>) s;
       if \<not> n_is_leaf sn then remask sibling s else Some s } }"

partial_function (option) lookup_loop :: "(loc \<rightharpoonup> bt_node) \<Rightarrow> u64 \<Rightarrow> loc \<Rightarrow> loc option" where
  "lookup_loop ns x tmp = do {
     t \<leftarrow> ns tmp;
     if n_is_leaf t then Some tmp
     else if n_addr t AND n_mask t \<noteq> x AND n_mask t then Some NULL
     else do {
       r \<leftarrow> ns (n_right t);
       if n_addr r AND n_mask r = x AND n_mask r then lookup_loop ns x (n_right t)
       else do {
         l \<leftarrow> ns (n_left t);
         if n_addr l AND n_mask l = x AND n_mask l then lookup_loop ns x (n_left t)
         else Some NULL } } }"

text \<open>\<open>lookup_loop\<close> returns the leaf reached, or \<open>NULL\<close> where the C function returns \<open>NULL\<close>.\<close>

definition bt_lookup :: "'a bt_state_scheme \<Rightarrow> u64 \<Rightarrow> loc option" where
  "bt_lookup s x = do {
     tmp \<leftarrow> lookup_loop (nodes s) x (bt_root s);
     if tmp = NULL then Some NULL
     else do {
       t \<leftarrow> nodes s tmp;
       blk \<leftarrow> blocks s (n_leaf t);
       if b_ptr blk \<noteq> x then Some NULL else Some (n_leaf t) } }"

partial_function (option) find_loop ::
  "(loc \<rightharpoonup> bt_node) \<Rightarrow> (loc \<rightharpoonup> bt_block) \<Rightarrow> u64 \<Rightarrow> loc \<Rightarrow> loc \<Rightarrow> loc option" where
  "find_loop ns bs x tmp other_choice = do {
     t \<leftarrow> ns tmp;
     if n_is_leaf t then
       (if x < n_addr t then Some NULL
        else do {
          blk \<leftarrow> bs (n_leaf t);
          if x < b_size blk + n_addr t \<or> b_size blk = 0 \<and> x = b_ptr blk then Some (n_leaf t)
          else Some NULL })
     else do {
       r \<leftarrow> ns (n_right t);
       if n_addr r AND n_mask r \<le> x AND n_mask r then find_loop ns bs x (n_right t) (n_left t)
       else do {
         l \<leftarrow> ns (n_left t);
         if n_addr l AND n_mask l \<le> x AND n_mask l then find_loop ns bs x (n_left t) other_choice
         else if other_choice = NULL then Some NULL
         else find_loop ns bs x other_choice NULL } } }"

definition bt_find :: "'a bt_state_scheme \<Rightarrow> u64 \<Rightarrow> loc option" where
  "bt_find s x =
     (if bt_root s = NULL \<or> x = 0 then Some NULL
      else find_loop (nodes s) (blocks s) x (bt_root s) NULL)"

definition bt_clean_block_init :: "loc \<Rightarrow> 'a bt_state_scheme \<Rightarrow> 'a bt_state_scheme option" where
  "bt_clean_block_init b s = do {
     blk \<leftarrow> blocks s b;
     Some (s\<lparr>blocks := (blocks s)(b \<mapsto> blk\<lparr>b_init_ptr := None, b_init_bytes := 0\<rparr>)\<rparr>) }"

definition bt_clean_block :: "loc \<Rightarrow> 'a bt_state_scheme \<Rightarrow> 'a bt_state_scheme option" where
  "bt_clean_block b s =
     (if b \<noteq> NULL then do {
        s \<leftarrow> bt_clean_block_init b s;
        Some (s\<lparr>blocks := (blocks s)(b := None)\<rparr>) }
      else Some s)"

partial_function (option) bt_clean_rec ::
  "loc \<Rightarrow> 'a bt_state_scheme \<Rightarrow> 'a bt_state_scheme option" where
  "bt_clean_rec p s =
     (if p = NULL then Some s
      else do {
        n \<leftarrow> nodes s p;
        s \<leftarrow> (if n_is_leaf n then do {
                s \<leftarrow> bt_clean_block (n_leaf n) s;
                upd_node p (\<lambda>n. n\<lparr>n_leaf := NULL\<rparr>) s }
              else do {
                s \<leftarrow> bt_clean_rec (n_left n) s;
                s \<leftarrow> bt_clean_rec (n_right n) s;
                upd_node p (\<lambda>n. n\<lparr>n_left := NULL, n_right := NULL\<rparr>) s });
        Some (free_node p s) })"

definition bt_clean :: "'a bt_state_scheme \<Rightarrow> 'a bt_state_scheme option" where
  "bt_clean s = do { s \<leftarrow> bt_clean_rec (bt_root s) s; Some (s\<lparr>bt_root := NULL\<rparr>) }"

end
