(* ===== verification/Bittree_Trie.thy ===== *)
theory Bittree_Trie
  imports Bittree
begin

text \<open>
  The trie as a value: \<open>btree\<close> carries the location, address and prefix length of every
  node, \<open>wf_trie\<close> is the Patricia invariant (a branch of prefix length \<open>k\<close> separates
  its leaves by bit \<open>k\<close>), and \<open>t_insert\<close>, \<open>t_remove\<close> are the updates that the
  destructive code performs on it. Everything here is about values; the store enters in
  \<^verbatim>\<open>Bittree_Refine\<close>.
\<close>

section \<open>Trees\<close>

datatype btree =
    Lf (rt: loc) (ta: u64) loc
  | Br (rt: loc) (ta: u64) nat btree btree

fun plen :: "btree \<Rightarrow> nat" where
  "plen (Lf l a b) = 64"
| "plen (Br l a k t1 t2) = k"

fun locs :: "btree \<Rightarrow> loc list" where
  "locs (Lf l a b) = [l]"
| "locs (Br l a k t1 t2) = l # locs t1 @ locs t2"

text \<open>The leaves from left to right: address and block.\<close>

fun leaves :: "btree \<Rightarrow> (u64 \<times> loc) list" where
  "leaves (Lf l a b) = [(a, b)]"
| "leaves (Br l a k t1 t2) = leaves t1 @ leaves t2"

fun addrs :: "btree \<Rightarrow> u64 set" where
  "addrs (Lf l a b) = {a}"
| "addrs (Br l a k t1 t2) = addrs t1 \<union> addrs t2"

abbreviation pfx :: "btree \<Rightarrow> u64" where
  "pfx t \<equiv> ta t AND Tm (plen t)"

fun wf_trie :: "btree \<Rightarrow> bool" where
  "wf_trie (Lf l a b) = True"
| "wf_trie (Br l a k t1 t2) =
     (k < 64 \<and> (\<forall>x\<in>addrs t1. pre (Suc k) x = 2 * pre k a)
      \<and> (\<forall>x\<in>addrs t2. pre (Suc k) x = 2 * pre k a + 1)
      \<and> wf_trie t1 \<and> wf_trie t2)"

fun is_lf :: "u64 \<Rightarrow> btree \<Rightarrow> bool" where
  "is_lf x (Lf l a b) = (a = x)"
| "is_lf x (Br l a k t1 t2) = False"

fun relabel :: "loc \<Rightarrow> btree \<Rightarrow> btree" where
  "relabel p (Lf l a b) = Lf p a b"
| "relabel p (Br l a k t1 t2) = Br p a k t1 t2"

definition join :: "loc \<Rightarrow> loc \<Rightarrow> u64 \<Rightarrow> loc \<Rightarrow> btree \<Rightarrow> btree" where
  "join nl np x b t =
     (if x \<le> ta t then Br np (ta t AND x) (cpl (pfx t) x) (Lf nl x b) t
      else Br np (ta t AND x) (cpl (pfx t) x) t (Lf nl x b))"

fun t_insert :: "loc \<Rightarrow> loc \<Rightarrow> u64 \<Rightarrow> loc \<Rightarrow> btree \<Rightarrow> btree" where
  "t_insert nl np x b (Lf l a b') = join nl np x b (Lf l a b')"
| "t_insert nl np x b (Br l a k t1 t2) =
     (if cpl (pfx t2) x < cpl (pfx t1) x then Br l a k (t_insert nl np x b t1) t2
      else if cpl (pfx t1) x < cpl (pfx t2) x then Br l a k t1 (t_insert nl np x b t2)
      else join nl np x b (Br l a k t1 t2))"

fun t_remove :: "u64 \<Rightarrow> btree \<Rightarrow> btree" where
  "t_remove x (Lf l a b) = Lf l a b"
| "t_remove x (Br l a k t1 t2) =
     (if is_lf x t2 then relabel l t1
      else if is_lf x t1 then relabel l t2
      else if x \<in> addrs t2 then Br l a k t1 (t_remove x t2)
      else Br l a k (t_remove x t1) t2)"

section \<open>Prefixes of well-formed tries\<close>

lemma leaves_nonempty [simp]: "leaves t \<noteq> []"
  by (induction t) auto

lemma addrs_leaves: "addrs t = fst ` set (leaves t)"
  by (induction t) auto

lemma leaf_addrs: "(a, b) \<in> set (leaves t) \<Longrightarrow> a \<in> addrs t"
  by (force simp: addrs_leaves)

lemma addrs_witness: "\<exists>x. x \<in> addrs t"
  by (induction t) auto

lemma rt_in_locs [simp]: "rt t \<in> set (locs t)"
  by (cases t) auto

lemma plen_le: "wf_trie t \<Longrightarrow> plen t \<le> 64"
  by (cases t) auto

lemma wf_prefix:
  assumes "wf_trie t" and "x \<in> addrs t"
  shows "pre (plen t) x = pre (plen t) (ta t)"
proof (cases t)
  case (Br l a k t1 t2)
  then have "k < 64" and "pre (Suc k) x div 2 = pre k a" using assms by auto
  then show ?thesis using Br pre_Suc_div [of k x] by simp
qed (use assms in auto)

lemma plen_child:
  assumes "wf_trie t" and "k < 64" and "\<forall>x\<in>addrs t. pre (Suc k) x = c"
  shows "Suc k \<le> plen t"
proof (rule ccontr)
  assume "\<not> Suc k \<le> plen t"
  then obtain l a k' t1 t2 where t: "t = Br l a k' t1 t2" and k': "k' \<le> k"
    using assms(2) by (cases t) auto
  obtain x y where "x \<in> addrs t1" "y \<in> addrs t2" using addrs_witness by metis
  with assms(1,3) t have "pre (Suc k) x = pre (Suc k) y" "pre (Suc k') x \<noteq> pre (Suc k') y"
    by auto
  then show False using pre_eq_shorter [of "Suc k" x y "Suc k'"] k' assms(2) by simp
qed

lemma ta_child:
  assumes "wf_trie t" and "k < 64" and "\<forall>x\<in>addrs t. pre (Suc k) x = c"
  shows "pre (Suc k) (ta t) = c"
proof -
  obtain x where x: "x \<in> addrs t" using addrs_witness by metis
  have "pre (plen t) x = pre (plen t) (ta t)" by (rule wf_prefix [OF assms(1) x])
  then have "pre (Suc k) x = pre (Suc k) (ta t)"
    using plen_child [OF assms] plen_le [OF assms(1)] by (rule pre_eq_shorter)
  then show ?thesis using assms(3) x by simp
qed

text \<open>The facts that a branch gives about its two children.\<close>

lemma wf_BrE:
  assumes "wf_trie (Br l a k t1 t2)"
  obtains "k < 64" and "wf_trie t1" and "wf_trie t2"
    and "Suc k \<le> plen t1" and "plen t1 \<le> 64" and "pre (Suc k) (ta t1) = 2 * pre k a"
    and "Suc k \<le> plen t2" and "plen t2 \<le> 64" and "pre (Suc k) (ta t2) = 2 * pre k a + 1"
  using assms plen_child [of t1 k] plen_child [of t2 k] ta_child [of t1 k] ta_child [of t2 k]
    plen_le [of t1] plen_le [of t2] by auto

lemma pre_pfx: "wf_trie t \<Longrightarrow> j \<le> plen t \<Longrightarrow> pre j (pfx t) = pre j (ta t)"
  by (simp only: pre_and_Tm plen_le)

lemma le_cpl_pfx:
  "wf_trie t \<Longrightarrow> j \<le> plen t \<Longrightarrow> j \<le> cpl (pfx t) x \<longleftrightarrow> pre j (ta t) = pre j x"
  using pre_eq_iff_cpl [of j "pfx t" x] pre_pfx [of t j] plen_le [of t] by simp

section \<open>Leaves in order\<close>

lemma sorted_leaves: "wf_trie t \<Longrightarrow> sorted_wrt (<) (map fst (leaves t))"
proof (induction t)
  case (Br l a k t1 t2)
  have "x < y" if "x \<in> addrs t1" "y \<in> addrs t2" for x y
    using Br.prems that by (intro pre_less_imp_less [of "Suc k"]) auto
  then show ?case using Br by (auto simp: sorted_wrt_append dest!: leaf_addrs)
qed simp

lemma distinct_leaves: "wf_trie t \<Longrightarrow> distinct (map fst (leaves t))"
  using sorted_leaves strict_sorted_iff by blast

lemma leaf_unique:
  "wf_trie t \<Longrightarrow> (a, b) \<in> set (leaves t) \<Longrightarrow> (a, b') \<in> set (leaves t) \<Longrightarrow> b = b'"
  using distinct_leaves eq_key_imp_eq_value by fast

section \<open>Insertion\<close>

lemma child_cpl_le:
  assumes "wf_trie (Br l a k t1 t2)" and "j \<le> k"
  shows "j \<le> cpl (pfx t1) x \<longleftrightarrow> j \<le> cpl (pfx t2) x"
proof -
  from assms(1) obtain k: "k < 64" "wf_trie t1" "wf_trie t2" "Suc k \<le> plen t1" "Suc k \<le> plen t2"
    and e: "pre (Suc k) (ta t1) = 2 * pre k a" "pre (Suc k) (ta t2) = 2 * pre k a + 1"
    by (rule wf_BrE)
  have "pre k (ta t1) = pre k (ta t2)"
    using e pre_Suc_div [of k "ta t1"] pre_Suc_div [of k "ta t2"] k(1) by simp
  then have "pre j (ta t1) = pre j (ta t2)"
    using assms(2) k(1) by (auto dest: pre_eq_shorter [of k _ _ j])
  then show ?thesis using k assms(2) by (simp add: le_cpl_pfx)
qed

lemma descend_left:
  assumes wf: "wf_trie (Br l a k t1 t2)" and lt: "cpl (pfx t2) x < cpl (pfx t1) x"
  shows "pre (Suc k) x = 2 * pre k a"
proof -
  have "Suc k \<le> cpl (pfx t1) x"
  proof (rule ccontr)
    assume "\<not> Suc k \<le> cpl (pfx t1) x"
    then show False using child_cpl_le [OF wf, of "cpl (pfx t1) x" x] lt by simp
  qed
  with wf show ?thesis by (elim wf_BrE) (simp add: le_cpl_pfx)
qed

lemma descend_right:
  assumes wf: "wf_trie (Br l a k t1 t2)" and lt: "cpl (pfx t1) x < cpl (pfx t2) x"
  shows "pre (Suc k) x = 2 * pre k a + 1"
proof -
  have "Suc k \<le> cpl (pfx t2) x"
  proof (rule ccontr)
    assume "\<not> Suc k \<le> cpl (pfx t2) x"
    then show False using child_cpl_le [OF wf, of "cpl (pfx t2) x" x] lt by simp
  qed
  with wf show ?thesis by (elim wf_BrE) (simp add: le_cpl_pfx)
qed

lemma stop_branch:
  assumes wf: "wf_trie (Br l a k t1 t2)" and eq: "cpl (pfx t1) x = cpl (pfx t2) x"
  shows "cpl (pfx (Br l a k t1 t2)) x < k"
proof (rule ccontr)
  assume "\<not> cpl (pfx (Br l a k t1 t2)) x < k"
  then have "pre k a = pre k x"
    using le_cpl_pfx [OF wf, of k x] by simp
  with wf eq show False
    using pre_Suc_cases [of k x]
    by (elim wf_BrE) (metis add_left_cancel le_cpl_pfx n_not_Suc_n One_nat_def add.right_neutral add_Suc_right)
qed

lemma wf_join:
  assumes wf: "wf_trie t" and lt: "cpl (pfx t) x < plen t"
  shows "wf_trie (join nl np x b t)"
proof -
  define j where "j = cpl (pfx t) x"
  note lt = lt [folded j_def]
  have j: "j < 64" using lt plen_le [OF wf] by simp
  have p: "pre j (ta t) = pre j x" using le_cpl_pfx [OF wf, of j x] lt by (simp add: j_def)
  have n: "pre (Suc j) (ta t) \<noteq> pre (Suc j) x" using le_cpl_pfx [OF wf, of "Suc j" x] lt by (simp add: j_def)
  have q: "pre j (ta t AND x) = pre j x" using pre_and [OF p] p by simp
  have y: "pre (Suc j) y = pre (Suc j) (ta t)" if "y \<in> addrs t" for y
    using wf_prefix [OF wf that] lt plen_le [OF wf] by (auto dest: pre_eq_shorter [of "plen t" _ _ "Suc j"])
  have c: "pre (Suc j) x = 2 * pre j x \<or> pre (Suc j) x = 2 * pre j x + 1"
    "pre (Suc j) (ta t) = 2 * pre j x \<or> pre (Suc j) (ta t) = 2 * pre j x + 1"
    using pre_Suc_cases [OF j, of x] pre_Suc_cases [OF j, of "ta t"] unfolding p by blast+
  show ?thesis
  proof (cases "x \<le> ta t")
    case True
    then have "pre (Suc j) x = 2 * pre j x" "pre (Suc j) (ta t) = 2 * pre j x + 1"
      using pre_mono [OF True, of "Suc j"] c n by linarith+
    then show ?thesis using True j wf y by (simp add: join_def q flip: j_def)
  next
    case False
    then have "ta t \<le> x" by simp
    then have "pre (Suc j) (ta t) = 2 * pre j x" "pre (Suc j) x = 2 * pre j x + 1"
      using pre_mono [of "ta t" x "Suc j"] c n by linarith+
    then show ?thesis using False j wf y by (simp add: join_def q flip: j_def)
  qed
qed

lemma leaves_join: "set (leaves (join nl np x b t)) = insert (x, b) (set (leaves t))"
  by (auto simp: join_def)

lemma leaves_t_insert: "set (leaves (t_insert nl np x b t)) = insert (x, b) (set (leaves t))"
  by (induction t) (auto simp: leaves_join)

lemma addrs_t_insert: "addrs (t_insert nl np x b t) = insert x (addrs t)"
  by (auto simp: addrs_leaves leaves_t_insert)

lemma wf_t_insert: "wf_trie t \<Longrightarrow> x \<notin> addrs t \<Longrightarrow> wf_trie (t_insert nl np x b t)"
proof (induction t)
  case (Lf l a b')
  then have "cpl (pfx (Lf l a b')) x < 64"
    using cpl_le [of a x] cpl_eq_64 [of a x] by simp
  then show ?case by (simp add: wf_join)
next
  case (Br l a k t1 t2)
  then show ?case
    using descend_left [OF Br.prems(1), of x] descend_right [OF Br.prems(1), of x]
      stop_branch [OF Br.prems(1), of x] wf_join [OF Br.prems(1), of x nl np b]
    by (auto simp: addrs_t_insert not_less)
qed

section \<open>Removal\<close>

lemma relabel_simps [simp]:
  "rt (relabel p t) = p" "ta (relabel p t) = ta t" "plen (relabel p t) = plen t"
  "leaves (relabel p t) = leaves t" "addrs (relabel p t) = addrs t"
  "wf_trie (relabel p t) = wf_trie t"
  by (cases t; simp)+

lemma is_lf_addrs: "is_lf x t \<Longrightarrow> addrs t = {x}"
  by (cases t) auto

lemma wf_disjoint: "wf_trie (Br l a k t1 t2) \<Longrightarrow> x \<in> addrs t1 \<Longrightarrow> x \<notin> addrs t2"
  by auto

lemma leaves_t_remove:
  "wf_trie t \<Longrightarrow> x \<in> addrs t \<Longrightarrow> \<not> is_lf x t \<Longrightarrow>
    set (leaves (t_remove x t)) = {p \<in> set (leaves t). fst p \<noteq> x}"
proof (induction t)
  case (Br l a k t1 t2)
  have no1: "p \<in> set (leaves t1) \<Longrightarrow> fst p \<in> addrs t1"
    and no2: "p \<in> set (leaves t2) \<Longrightarrow> fst p \<in> addrs t2" for p
    by (simp_all add: addrs_leaves)
  have one: "is_lf x t \<Longrightarrow> p \<in> set (leaves t) \<Longrightarrow> fst p = x" for p t
    by (cases t) auto
  have d: "x \<in> addrs t1 \<Longrightarrow> x \<notin> addrs t2" using wf_disjoint [OF Br.prems(1)] .
  show ?case
    using Br no1 no2 d one [of t1] one [of t2] is_lf_addrs [of x t1] is_lf_addrs [of x t2]
    by auto
qed simp

lemma addrs_t_remove:
  "wf_trie t \<Longrightarrow> x \<in> addrs t \<Longrightarrow> \<not> is_lf x t \<Longrightarrow> addrs (t_remove x t) = addrs t - {x}"
  by (auto simp: addrs_leaves leaves_t_remove) 

lemma wf_t_remove:
  "wf_trie t \<Longrightarrow> x \<in> addrs t \<Longrightarrow> \<not> is_lf x t \<Longrightarrow> wf_trie (t_remove x t)"
  by (induction t) (auto simp: addrs_t_remove)

end
