(* ===== verification/Bittree_Refine.thy ===== *)
theory Bittree_Refine
  imports Bittree_Trie
begin

text \<open>
  The store against the trie. \<open>tree_at ns par t\<close> says that the node map holds the tree
  \<open>t\<close> with parent \<open>par\<close>; \<open>bt_rep s t\<close> is the invariant of the whole structure. The
  searches of \<^verbatim>\<open>e_acsl_bittree.h\<close> are evaluated on represented trees, and the two
  destructive updates are shown to be \<open>t_insert\<close> and \<open>t_remove\<close>.
\<close>

section \<open>Representation\<close>

fun node_of :: "loc \<Rightarrow> btree \<Rightarrow> bt_node" where
  "node_of par (Lf l a b) =
     \<lparr>n_is_leaf = True, n_addr = a, n_mask = Tm 64, n_left = NULL, n_right = NULL,
      n_parent = par, n_leaf = b\<rparr>"
| "node_of par (Br l a k t1 t2) =
     \<lparr>n_is_leaf = False, n_addr = a, n_mask = Tm k, n_left = rt t1, n_right = rt t2,
      n_parent = par, n_leaf = NULL\<rparr>"

fun tree_at :: "(loc \<rightharpoonup> bt_node) \<Rightarrow> loc \<Rightarrow> btree \<Rightarrow> bool" where
  "tree_at ns par (Lf l a b) = (ns l = Some (node_of par (Lf l a b)))"
| "tree_at ns par (Br l a k t1 t2) =
     (ns l = Some (node_of par (Br l a k t1 t2)) \<and> tree_at ns l t1 \<and> tree_at ns l t2)"

definition leaf_blocks :: "(loc \<rightharpoonup> bt_block) \<Rightarrow> btree \<Rightarrow> bool" where
  "leaf_blocks bs t \<longleftrightarrow>
     (\<forall>(a, b) \<in> set (leaves t). \<exists>blk. bs b = Some blk \<and> b_ptr blk = a)"

definition bt_rep :: "'a bt_state_scheme \<Rightarrow> btree option \<Rightarrow> bool" where
  "bt_rep s T \<longleftrightarrow> finite (dom (blocks s)) \<and> NULL \<notin> dom (blocks s) \<and>
     (case T of
        None \<Rightarrow> bt_root s = NULL \<and> nodes s = Map.empty
      | Some t \<Rightarrow> bt_root s = rt t \<and> tree_at (nodes s) NULL t \<and> distinct (locs t)
          \<and> NULL \<notin> set (locs t) \<and> dom (nodes s) = set (locs t) \<and> wf_trie t
          \<and> leaf_blocks (blocks s) t)"

lemma node_of_simps [simp]:
  "n_addr (node_of par t) = ta t" "n_mask (node_of par t) = Tm (plen t)"
  "n_parent (node_of par t) = par"
  by (cases t; simp)+

lemma tree_at_rt: "tree_at ns par t \<Longrightarrow> ns (rt t) = Some (node_of par t)"
  by (cases t) auto

lemma not_NULL_rt: "NULL \<notin> set (locs t) \<Longrightarrow> rt t \<noteq> NULL"
  using rt_in_locs [of t] by metis

lemma tree_at_cong:
  "(\<And>l. l \<in> set (locs t) \<Longrightarrow> ns l = ns' l) \<Longrightarrow> tree_at ns par t = tree_at ns' par t"
  by (induction t arbitrary: par) auto

lemma tree_at_upd [simp]: "l \<notin> set (locs t) \<Longrightarrow> tree_at (ns(l := v)) par t = tree_at ns par t"
  by (rule tree_at_cong) auto

lemma tree_at_reparent:
  assumes "tree_at ns par t" and "distinct (locs t)" and "ns' (rt t) = Some (node_of par' t)"
    and "\<And>l. l \<in> set (locs t) \<Longrightarrow> l \<noteq> rt t \<Longrightarrow> ns' l = ns l"
  shows "tree_at ns' par' t"
proof (cases t)
  case (Br l a k t1 t2)
  then have "tree_at ns' l t1 = tree_at ns l t1" "tree_at ns' l t2 = tree_at ns l t2"
    using assms(2,4) by (auto intro!: tree_at_cong)
  then show ?thesis using assms(1,3) Br by simp
qed (use assms in simp)

section \<open>Searches\<close>

text \<open>The tests on the children of a branch, read on prefixes.\<close>

lemma right_test:
  assumes "wf_trie (Br l a k t1 t2)" and "x \<in> addrs t1 \<union> addrs t2"
  shows "pfx t2 = x AND Tm (plen t2) \<longleftrightarrow> x \<in> addrs t2"
proof
  assume "pfx t2 = x AND Tm (plen t2)"
  then have eq: "pre (plen t2) (ta t2) = pre (plen t2) x" by (simp only: and_Tm_eq_iff)
  from assms(1) obtain "Suc k \<le> plen t2" "plen t2 \<le> 64" "pre (Suc k) (ta t2) = 2 * pre k a + 1"
    by (rule wf_BrE)
  then have "pre (Suc k) x = 2 * pre k a + 1"
    using pre_eq_shorter [OF eq, of "Suc k"] by simp
  then show "x \<in> addrs t2" using assms by auto
next
  assume "x \<in> addrs t2"
  then have "pre (plen t2) x = pre (plen t2) (ta t2)" using assms(1) by (intro wf_prefix) auto
  then show "pfx t2 = x AND Tm (plen t2)" by (simp only: and_Tm_eq_iff)
qed

lemma own_test: "wf_trie t \<Longrightarrow> x \<in> addrs t \<Longrightarrow> pfx t = x AND Tm (plen t)"
  unfolding and_Tm_eq_iff using wf_prefix [of t x] by simp

fun leaf_loc :: "u64 \<Rightarrow> btree \<Rightarrow> loc" where
  "leaf_loc x (Lf l a b) = l"
| "leaf_loc x (Br l a k t1 t2) = (if x \<in> addrs t2 then leaf_loc x t2 else leaf_loc x t1)"

lemma leaf_loc_in [simp]: "leaf_loc x t \<in> set (locs t)"
  by (induction t) auto

lemma get_leaf_tree:
  assumes "tree_at ns par t" and "wf_trie t" and "x \<in> addrs t"
  shows "get_leaf_loop ns x (rt t) = Some (leaf_loc x t)"
  using assms
proof (induction t arbitrary: par)
  case (Lf l a b)
  then show ?case by (subst get_leaf_loop.simps) simp
next
  case (Br l a k t1 t2)
  then have c: "ns (rt t1) = Some (node_of l t1)" "ns (rt t2) = Some (node_of l t2)"
    by (auto dest: tree_at_rt)
  note test = right_test [OF Br.prems(2), of x] own_test [of t1 x]
  show ?case
    using Br test c by (subst get_leaf_loop.simps) auto
qed

definition lookup_post :: "(loc \<rightharpoonup> bt_node) \<Rightarrow> u64 \<Rightarrow> btree \<Rightarrow> loc \<Rightarrow> bool" where
  "lookup_post ns x t r \<longleftrightarrow>
     r = NULL \<and> x \<notin> addrs t \<or>
     (\<exists>p a b. ns r = Some (node_of p (Lf r a b)) \<and> (a, b) \<in> set (leaves t)
        \<and> r \<in> set (locs t) \<and> (x \<in> addrs t \<longrightarrow> a = x))"

lemma lookup_tree:
  assumes "tree_at ns par t" and "wf_trie t"
  shows "\<exists>r. lookup_loop ns x (rt t) = Some r \<and> lookup_post ns x t r"
  using assms
proof (induction t arbitrary: par)
  case (Lf l a b)
  then show ?case by (subst lookup_loop.simps) (auto simp: lookup_post_def)
next
  case (Br l a k t1 t2)
  then have c: "ns (rt t1) = Some (node_of l t1)" "ns (rt t2) = Some (node_of l t2)"
    by (auto dest: tree_at_rt)
  note own = own_test [OF Br.prems(2), of x] own_test [of t1 x] own_test [of t2 x]
  have excl: "x \<notin> addrs t1" if "pfx t2 = x AND Tm (plen t2)"
    using right_test [OF Br.prems(2), of x] wf_disjoint [OF Br.prems(2), of x] that by auto
  obtain r1 where r1: "lookup_loop ns x (rt t1) = Some r1" "lookup_post ns x t1 r1"
    using Br.IH(1) [of l] Br.prems by auto
  obtain r2 where r2: "lookup_loop ns x (rt t2) = Some r2" "lookup_post ns x t2 r2"
    using Br.IH(2) [of l] Br.prems by auto
  let ?r = "if pfx (Br l a k t1 t2) \<noteq> x AND Tm k then NULL
    else if pfx t2 = x AND Tm (plen t2) then r2
    else if pfx t1 = x AND Tm (plen t1) then r1 else NULL"
  have "lookup_loop ns x l = Some ?r"
    using Br.prems(1) c r1(1) r2(1) by (subst lookup_loop.simps) simp
  moreover have "lookup_post ns x (Br l a k t1 t2) ?r"
    using r1(2) r2(2) own excl Br.prems(2) unfolding lookup_post_def by auto
  ultimately show ?case by auto
qed

definition content :: "btree option \<Rightarrow> (u64 \<times> loc) list" where
  "content T = (case T of None \<Rightarrow> [] | Some t \<Rightarrow> leaves t)"

lemma content_simps [simp]: "content None = []" "content (Some t) = leaves t"
  by (simp_all add: content_def)

lemma bt_rep_SomeE:
  assumes "bt_rep s (Some t)"
  obtains "bt_root s = rt t" and "tree_at (nodes s) NULL t" and "distinct (locs t)"
    and "NULL \<notin> set (locs t)" and "dom (nodes s) = set (locs t)" and "wf_trie t"
    and "leaf_blocks (blocks s) t" and "finite (dom (blocks s))" and "NULL \<notin> dom (blocks s)"
    and "rt t \<noteq> NULL"
  using assms not_NULL_rt [of t] that by (simp add: bt_rep_def)

lemma leaf_blocksD:
  "leaf_blocks bs t \<Longrightarrow> (a, b) \<in> set (leaves t) \<Longrightarrow> \<exists>blk. bs b = Some blk \<and> b_ptr blk = a"
  by (auto simp: leaf_blocks_def)

lemma lookup_rep:
  assumes "bt_rep s (Some t)"
  shows "bt_lookup s x = Some (case map_of (leaves t) x of None \<Rightarrow> NULL | Some b \<Rightarrow> b)"
proof -
  from assms have rt: "bt_root s = rt t" and wf: "wf_trie t" and lb: "leaf_blocks (blocks s) t"
    and nn: "NULL \<notin> set (locs t)" and "tree_at (nodes s) NULL t"
    by (auto elim: bt_rep_SomeE)
  then obtain r where r: "lookup_loop (nodes s) x (bt_root s) = Some r" "lookup_post (nodes s) x t r"
    using lookup_tree by metis
  show ?thesis
  proof (cases "r = NULL \<and> x \<notin> addrs t")
    case True
    then have "map_of (leaves t) x = None" by (simp add: map_of_eq_None_iff addrs_leaves)
    then show ?thesis using True r(1) by (simp add: bt_lookup_def)
  next
    case False
    then obtain p a b where n: "nodes s r = Some (node_of p (Lf r a b))" "(a, b) \<in> set (leaves t)"
      and rl: "r \<in> set (locs t)" and ax: "x \<in> addrs t \<longrightarrow> a = x"
      using r(2) unfolding lookup_post_def by blast
    obtain blk where blk: "blocks s b = Some blk" "b_ptr blk = a"
      using leaf_blocksD [OF lb n(2)] by blast
    have "r \<noteq> NULL" using rl nn by metis
    moreover have "map_of (leaves t) a = Some b"
      using n(2) distinct_leaves [OF wf] by (simp add: map_of_eq_Some_iff)
    moreover have "map_of (leaves t) x = None" if "a \<noteq> x"
      using ax that by (auto simp: map_of_eq_None_iff addrs_leaves)
    ultimately show ?thesis using r(1) n(1) blk by (cases "a = x") (auto simp: bt_lookup_def)
  qed
qed

section \<open>The search for a containing block\<close>

definition floor_leaf :: "(u64 \<times> loc) list \<Rightarrow> u64 \<Rightarrow> (u64 \<times> loc) option" where
  "floor_leaf xs x =
     (case filter (\<lambda>p. fst p \<le> x) xs of [] \<Rightarrow> None | y # ys \<Rightarrow> Some (last (y # ys)))"

fun find_check :: "(loc \<rightharpoonup> bt_block) \<Rightarrow> u64 \<Rightarrow> (u64 \<times> loc) option \<Rightarrow> loc option" where
  "find_check bs x None = Some NULL"
| "find_check bs x (Some (a, b)) = do {
     blk \<leftarrow> bs b;
     if x < b_size blk + a \<or> b_size blk = 0 \<and> x = b_ptr blk then Some b else Some NULL }"

lemma floor_leaf_alt:
  "floor_leaf xs x = (let ys = filter (\<lambda>p. fst p \<le> x) xs in if ys = [] then None else Some (last ys))"
  by (simp add: floor_leaf_def Let_def split: list.split)

lemma floor_above: "\<forall>p\<in>set ys. x < fst p \<Longrightarrow> floor_leaf (xs @ ys) x = floor_leaf xs x"
  by (simp add: floor_leaf_alt Let_def filter_empty_conv not_le)

lemma floor_below:
  "ys \<noteq> [] \<Longrightarrow> \<forall>p\<in>set ys. fst p \<le> x \<Longrightarrow> floor_leaf (xs @ ys @ zs) x = floor_leaf (ys @ zs) x"
  by (simp add: floor_leaf_alt Let_def last_append)

text \<open>The alternative subtree that the loop keeps, all of whose leaves lie below the address.\<close>

definition other_at :: "(loc \<rightharpoonup> bt_node) \<Rightarrow> u64 \<Rightarrow> btree option \<Rightarrow> loc \<Rightarrow> bool" where
  "other_at ns x T l = (case T of
      None \<Rightarrow> l = NULL
    | Some t \<Rightarrow> l = rt t \<and> rt t \<noteq> NULL \<and> (\<exists>par. tree_at ns par t) \<and> NULL \<notin> set (locs t)
        \<and> wf_trie t \<and> (\<forall>y\<in>addrs t. y \<le> x))"

lemma prefix_above:
  assumes "wf_trie t" and "\<not> pfx t \<le> x AND Tm (plen t)" and "y \<in> addrs t"
  shows "x < y"
  using assms wf_prefix [OF assms(1,3)] pre_less_imp_less [of "plen t" x y]
  unfolding and_Tm_le_iff by simp

lemma right_above_left:
  assumes "wf_trie (Br l a k t1 t2)" and "\<not> pfx t1 \<le> x AND Tm (plen t1)" and "y \<in> addrs t2"
  shows "x < y"
proof -
  obtain z where z: "z \<in> addrs t1" using addrs_witness by metis
  have "x < z" using prefix_above [of t1 x z] assms z by simp
  moreover have "z < y"
    using assms z by (intro pre_less_imp_less [of "Suc k"]) auto
  ultimately show ?thesis by simp
qed

lemma left_below_right:
  assumes wf: "wf_trie (Br l a k t1 t2)" and "pfx t2 \<le> x AND Tm (plen t2)" and "y \<in> addrs t1"
  shows "y \<le> x"
proof -
  from wf obtain t2: "Suc k \<le> plen t2" "plen t2 \<le> 64" "pre (Suc k) (ta t2) = 2 * pre k a + 1"
    by (rule wf_BrE)
  have "pre (plen t2) (ta t2) \<le> pre (plen t2) x" using assms(2) by (simp only: and_Tm_le_iff)
  then have "pre (Suc k) (ta t2) \<le> pre (Suc k) x" using t2 by (auto dest: pre_le_shorter [of "plen t2" _ _ "Suc k"])
  moreover have "pre (Suc k) y = 2 * pre k a" using wf assms(3) by simp
  ultimately show ?thesis using t2(3) pre_less_imp_less [of "Suc k" y x] by simp
qed

lemma find_loop_leaf:
  assumes "ns r = Some (node_of par (Lf r a b))" and "T \<noteq> None \<longrightarrow> a \<le> x"
  shows "find_loop ns bs x r l = find_check bs x (floor_leaf (content T @ [(a, b)]) x)"
proof (cases "x < a")
  case True
  then have "T = None" using assms(2) by auto
  then show ?thesis using assms(1) True
    by (subst find_loop.simps) (simp add: floor_leaf_def flip: not_less)
next
  case False
  then have "floor_leaf (content T @ [(a, b)]) x = Some (a, b)"
    by (simp add: floor_leaf_alt Let_def not_less)
  then show ?thesis using assms(1) False by (subst find_loop.simps) (cases "bs b"; simp)
qed

lemma find_loop_branch:
  assumes "tree_at ns par (Br r a k t1 t2)"
  shows "find_loop ns bs x r l =
    (if pfx t2 \<le> x AND Tm (plen t2) then find_loop ns bs x (rt t2) (rt t1)
     else if pfx t1 \<le> x AND Tm (plen t1) then find_loop ns bs x (rt t1) l
     else if l = NULL then Some NULL else find_loop ns bs x l NULL)"
proof -
  have "ns (rt t1) = Some (node_of r t1)" "ns (rt t2) = Some (node_of r t2)"
    using assms by (auto dest: tree_at_rt)
  then show ?thesis using assms by (subst find_loop.simps) simp
qed

lemma floor_branch:
  assumes wf: "wf_trie (Br r a k t1 t2)"
  shows "pfx t2 \<le> x AND Tm (plen t2) \<Longrightarrow>
      floor_leaf (xs @ leaves (Br r a k t1 t2)) x = floor_leaf (leaves t1 @ leaves t2) x"
    and "\<not> pfx t2 \<le> x AND Tm (plen t2) \<Longrightarrow>
      floor_leaf (xs @ leaves (Br r a k t1 t2)) x = floor_leaf (xs @ leaves t1) x"
    and "\<not> pfx t1 \<le> x AND Tm (plen t1) \<Longrightarrow>
      floor_leaf (xs @ leaves (Br r a k t1 t2)) x = floor_leaf xs x"
proof -
  have lv: "p \<in> set (leaves u) \<Longrightarrow> fst p \<in> addrs u" for p u by (simp add: addrs_leaves)
  show "floor_leaf (xs @ leaves (Br r a k t1 t2)) x = floor_leaf (leaves t1 @ leaves t2) x"
    if "pfx t2 \<le> x AND Tm (plen t2)"
    using left_below_right [OF wf that] lv [of _ t1] by (simp add: floor_below)
  show "floor_leaf (xs @ leaves (Br r a k t1 t2)) x = floor_leaf (xs @ leaves t1) x"
    if "\<not> pfx t2 \<le> x AND Tm (plen t2)"
  proof -
    have "\<forall>p\<in>set (leaves t2). x < fst p" using prefix_above [OF _ that] wf lv by auto
    then show ?thesis using floor_above [of "leaves t2" x "xs @ leaves t1"] by simp
  qed
  show "floor_leaf (xs @ leaves (Br r a k t1 t2)) x = floor_leaf xs x"
    if "\<not> pfx t1 \<le> x AND Tm (plen t1)"
  proof (rule floor_above)
    show "\<forall>p\<in>set (leaves (Br r a k t1 t2)). x < fst p"
      using prefix_above [OF _ that] right_above_left [OF wf that] wf lv by auto
  qed
qed

lemma find_tree:
  assumes "tree_at ns par t" and "wf_trie t" and "NULL \<notin> set (locs t)" and "other_at ns x T l"
    and "T \<noteq> None \<longrightarrow> pfx t \<le> x AND Tm (plen t)"
  shows "find_loop ns bs x (rt t) l = find_check bs x (floor_leaf (content T @ leaves t) x)"
  using assms
proof (induction "size t + (case T of None \<Rightarrow> 0 | Some u \<Rightarrow> size u)" arbitrary: par t T l rule: less_induct)
  case less
  note prems = less.prems
  show ?case
  proof (cases t)
    case (Lf r a b)
    then show ?thesis using find_loop_leaf [of ns r par a b T x bs l] prems by simp
  next
    case (Br r a k t1 t2)
    have c: "tree_at ns r t1" "tree_at ns r t2" "wf_trie t1" "wf_trie t2"
      "NULL \<notin> set (locs t1)" "NULL \<notin> set (locs t2)" "rt t1 \<noteq> NULL"
      using prems(1-3) Br not_NULL_rt [of t1] by auto
    note wf = prems(2) [unfolded Br] and step = find_loop_branch [OF prems(1) [unfolded Br]]
    show ?thesis
    proof (cases "pfx t2 \<le> x AND Tm (plen t2)")
      case right: True
      then have "other_at ns x (Some t1) (rt t1)"
        using c left_below_right [OF wf right] by (auto simp: other_at_def)
      then have "find_loop ns bs x (rt t2) (rt t1) = find_check bs x (floor_leaf (leaves t1 @ leaves t2) x)"
        using less.hyps [of t2 "Some t1" r "rt t1"] c right by (simp add: Br)
      then show ?thesis
        using right step floor_branch(1) [OF wf right] by (simp only: Br btree.sel if_True)
    next
      case False
      show ?thesis
      proof (cases "pfx t1 \<le> x AND Tm (plen t1)")
        case left: True
        then have "find_loop ns bs x (rt t1) l = find_check bs x (floor_leaf (content T @ leaves t1) x)"
          using less.hyps [of t1 T r l] c prems(4) by (simp add: Br)
        then show ?thesis
          using False left step floor_branch(2) [OF wf False] by (simp only: Br btree.sel if_True if_False)
      next
        case none: False
        have "find_loop ns bs x r l = find_check bs x (floor_leaf (content T) x)"
          using False none step prems(4) less.hyps [of "the T" None _ NULL]
          by (auto simp: Br other_at_def floor_leaf_def split: option.splits)
        then show ?thesis using floor_branch(3) [OF wf none] by (simp only: Br btree.sel)
      qed
    qed
  qed
qed

lemma find_rep:
  assumes "bt_rep s T"
  shows "bt_find s x =
    (if x = 0 then Some NULL else find_check (blocks s) x (floor_leaf (content T) x))"
proof (cases T)
  case None
  then show ?thesis using assms by (simp add: bt_rep_def bt_find_def floor_leaf_def)
next
  case (Some t)
  have "find_loop (nodes s) (blocks s) x (rt t) NULL = find_check (blocks s) x (floor_leaf (leaves t) x)"
    using find_tree [of "nodes s" NULL t x None NULL] assms Some
    by (auto simp: other_at_def elim!: bt_rep_SomeE)
  then show ?thesis using assms Some by (auto simp: bt_find_def elim!: bt_rep_SomeE)
qed

text \<open>
  With pairwise disjoint blocks, the block found is the one that contains the address.
\<close>

definition block_has :: "bt_block \<Rightarrow> u64 \<Rightarrow> bool" where
  "block_has blk x \<longleftrightarrow> b_ptr blk \<le> x \<and>
     (unat x < unat (b_ptr blk) + unat (b_size blk) \<or> b_size blk = 0 \<and> x = b_ptr blk)"

definition no_wrap :: "bt_block \<Rightarrow> bool" where
  "no_wrap blk \<longleftrightarrow> unat (b_ptr blk) + unat (b_size blk) < 2 ^ 64"

definition blocks_apart :: "(loc \<rightharpoonup> bt_block) \<Rightarrow> loc set \<Rightarrow> bool" where
  "blocks_apart bs B \<longleftrightarrow>
     (\<forall>b\<in>B. \<forall>c\<in>B. \<forall>bb cb. bs b = Some bb \<longrightarrow> bs c = Some cb \<longrightarrow>
        no_wrap bb \<and> (b_ptr bb < b_ptr cb \<longrightarrow> unat (b_ptr bb) + unat (b_size bb) \<le> unat (b_ptr cb)))"

lemma find_test:
  assumes "no_wrap blk" and "b_ptr blk \<le> x"
  shows "x < b_size blk + b_ptr blk \<or> b_size blk = 0 \<and> x = b_ptr blk \<longleftrightarrow> block_has blk x"
  using assms unat_add_64 [of "b_size blk" "b_ptr blk"]
  by (auto simp: no_wrap_def block_has_def word_less_nat_alt add.commute)

lemma last_is_max:
  "sorted_wrt (<) (map fst ys) \<Longrightarrow> p \<in> set ys \<Longrightarrow> fst p \<le> (fst (last ys) :: 'a::linorder)"
  by (induction ys) (auto simp: less_imp_le)

lemma floor_leaf_Some:
  assumes "sorted_wrt (<) (map fst xs)" and fl: "floor_leaf xs x = Some (a, b)"
  shows "(a, b) \<in> set xs" and "a \<le> x" and "\<And>p. p \<in> set xs \<Longrightarrow> fst p \<le> x \<Longrightarrow> fst p \<le> a"
proof -
  define ys where "ys = filter (\<lambda>p. fst p \<le> x) xs"
  have ys: "ys \<noteq> []" "last ys = (a, b)"
    using fl by (auto simp: floor_leaf_alt ys_def Let_def split: if_splits)
  then have "(a, b) \<in> set ys" by (metis last_in_set)
  then show "(a, b) \<in> set xs" "a \<le> x" by (auto simp: ys_def)
  have "sorted_wrt (<) (map fst ys)"
    using assms(1) by (simp add: ys_def sorted_wrt_map sorted_wrt_filter)
  then show "fst p \<le> a" if "p \<in> set xs" "fst p \<le> x" for p
    using last_is_max [of ys p] ys(2) that by (simp add: ys_def)
qed

lemma floor_leaf_None: "floor_leaf xs x = None \<longleftrightarrow> (\<forall>p\<in>set xs. x < fst p)"
  by (auto simp: floor_leaf_alt Let_def filter_empty_conv not_le)

definition tracked :: "btree option \<Rightarrow> loc set" where
  "tracked T = snd ` set (content T)"

lemma sorted_content: "bt_rep s T \<Longrightarrow> sorted_wrt (<) (map fst (content T))"
  by (cases T) (auto elim!: bt_rep_SomeE simp: sorted_leaves)

lemma content_block:
  "bt_rep s T \<Longrightarrow> (a, b) \<in> set (content T) \<Longrightarrow> \<exists>blk. blocks s b = Some blk \<and> b_ptr blk = a"
  by (cases T) (auto elim!: bt_rep_SomeE dest: leaf_blocksD)

lemma content_NULL: "bt_rep s T \<Longrightarrow> (a, b) \<in> set (content T) \<Longrightarrow> b \<noteq> NULL"
  using content_block [of s T a b] by (auto simp: bt_rep_def)

lemma content_unique:
  "bt_rep s T \<Longrightarrow> (a, b) \<in> set (content T) \<Longrightarrow> (a, c) \<in> set (content T) \<Longrightarrow> b = c"
  using sorted_content [of s T] strict_sorted_iff eq_key_imp_eq_value by metis

text \<open>No tracked block other than the one with the greatest base below \<open>x\<close> can contain \<open>x\<close>.\<close>

lemma has_is_floor:
  assumes rep: "bt_rep s T" and apart: "blocks_apart (blocks s) (tracked T)"
    and c: "(a, c) \<in> set (content T)" "a \<le> x" "\<And>p. p \<in> set (content T) \<Longrightarrow> fst p \<le> x \<Longrightarrow> fst p \<le> a"
    and b: "b \<in> tracked T" "blocks s b = Some blk" "block_has blk x"
  shows "b = c"
proof -
  have ab: "(b_ptr blk, b) \<in> set (content T)"
    using b content_block [OF rep] by (force simp: tracked_def)
  then have le: "b_ptr blk \<le> a" using c(3) [of "(b_ptr blk, b)"] b(3) by (simp add: block_has_def)
  obtain cb where cb: "blocks s c = Some cb" "b_ptr cb = a" using content_block [OF rep c(1)] by blast
  have "c \<in> tracked T" using c(1) by (force simp: tracked_def)
  then have "b_ptr blk < a \<Longrightarrow> unat (b_ptr blk) + unat (b_size blk) \<le> unat a"
    using apart b cb unfolding blocks_apart_def by blast
  then have "\<not> b_ptr blk < a"
    using b(3) c(2) by (auto simp: block_has_def word_le_nat_alt word_less_nat_alt)
  then have "b_ptr blk = a" using le by simp
  then show ?thesis using content_unique [OF rep, of a b c] ab c(1) by simp
qed

lemma find_block:
  assumes rep: "bt_rep s T" and apart: "blocks_apart (blocks s) (tracked T)" and x: "x \<noteq> 0"
  shows "(\<exists>r. bt_find s x = Some r) \<and> (bt_find s x = Some b \<and> b \<noteq> NULL \<longleftrightarrow>
      b \<in> tracked T \<and> (\<exists>blk. blocks s b = Some blk \<and> block_has blk x))"
proof (cases "floor_leaf (content T) x")
  case None
  then have "\<not> block_has blk x" if "b \<in> tracked T" "blocks s b = Some blk" for b blk
    using that content_block [OF rep] by (force simp: tracked_def floor_leaf_None block_has_def)
  then show ?thesis using find_rep [OF rep, of x] x None by auto
next
  case (Some p)
  obtain a c where p: "p = (a, c)" by force
  note fl = floor_leaf_Some [OF sorted_content [OF rep] Some [unfolded p]]
  obtain cb where cb: "blocks s c = Some cb" "b_ptr cb = a" using content_block [OF rep fl(1)] by blast
  have c: "c \<in> tracked T" "c \<noteq> NULL"
    using fl(1) content_NULL [OF rep fl(1)] by (force simp: tracked_def)+
  have "no_wrap cb" using apart c cb by (auto simp: blocks_apart_def)
  then have "bt_find s x = Some (if block_has cb x then c else NULL)"
    using find_rep [OF rep, of x] x Some p cb find_test [of cb x] fl(2) by simp
  then show ?thesis using has_is_floor [OF rep apart fl, of b] c cb by auto
qed

end
