(* ===== verification/Bittree_Insert.thy ===== *)
theory Bittree_Insert
  imports Bittree_Refine
begin

text \<open>
  \<^verbatim>\<open>bt_insert\<close> as an update of the represented trie: \<open>insert_rep\<close> shows that on a
  represented store it returns, with the store that represents \<open>t_insert\<close> of the tree.
  \<open>remask_noop\<close> shows that the masks that the code recomputes bottom-up were right already.
\<close>

section \<open>Subtrees and recomputed masks\<close>

lemma subtree_at:
  "tree_at ns par t \<Longrightarrow> wf_trie t \<Longrightarrow> l \<in> set (locs t) \<Longrightarrow>
    \<exists>p u. rt u = l \<and> tree_at ns p u \<and> wf_trie u"
proof (induction t arbitrary: par)
  case (Lf r a b)
  then have "rt (Lf r a b) = l \<and> tree_at ns par (Lf r a b) \<and> wf_trie (Lf r a b)" by simp
  then show ?case by blast
next
  case (Br r a k t1 t2)
  show ?case
  proof (cases "l = r")
    case True
    then have "rt (Br r a k t1 t2) = l" by simp
    then show ?thesis using Br.prems by blast
  next
    case False
    then have "l \<in> set (locs t1) \<or> l \<in> set (locs t2)" using Br.prems(3) by simp
    moreover have "tree_at ns r t1" "tree_at ns r t2" "wf_trie t1" "wf_trie t2"
      using Br.prems(1,2) by simp_all
    ultimately show ?thesis using Br.IH by metis
  qed
qed

lemma cpl_children:
  assumes "wf_trie (Br l a k t1 t2)"
  shows "cpl (pfx t1) (pfx t2) = k"
proof -
  from assms obtain k: "k < 64" and wf: "wf_trie t1" "wf_trie t2"
    and le: "Suc k \<le> plen t1" "Suc k \<le> plen t2"
    and e: "pre (Suc k) (ta t1) = 2 * pre k a" "pre (Suc k) (ta t2) = 2 * pre k a + 1"
    by (rule wf_BrE)
  have "pre (Suc k) (pfx t1) \<noteq> pre (Suc k) (pfx t2)"
    using e pre_pfx [OF wf(1) le(1)] pre_pfx [OF wf(2) le(2)] by simp
  moreover have "pre k (pfx t1) = pre k (pfx t2)"
    using e k le pre_pfx [OF wf(1), of k] pre_pfx [OF wf(2), of k]
      pre_Suc_div [of k "ta t1"] pre_Suc_div [of k "ta t2"] by simp
  ultimately show ?thesis
    using k pre_eq_iff_cpl [of k "pfx t1" "pfx t2"] pre_eq_iff_cpl [of "Suc k" "pfx t1" "pfx t2"] by simp
qed

text \<open>Recomputing the mask of a branch of a represented trie changes nothing.\<close>

lemma remask_noop:
  assumes "tree_at (nodes s) par t" and "wf_trie t" and "l \<in> set (locs t)"
    and "nodes s l = Some n" and "\<not> n_is_leaf n"
  shows "remask l s = Some s"
proof -
  obtain p u where u: "rt u = l" "tree_at (nodes s) p u" "wf_trie u"
    using subtree_at [OF assms(1-3)] by blast
  obtain a k t1 t2 where br: "u = Br l a k t1 t2"
    using u assms(4,5) by (cases u) auto
  have n: "n = node_of p u" "nodes s (rt t1) = Some (node_of l t1)" "nodes s (rt t2) = Some (node_of l t2)"
    using u br assms(4) by (auto dest: tree_at_rt)
  have "(nodes s)(l \<mapsto> n) = nodes s" using assms(4) by (rule map_upd_triv)
  then show ?thesis
    using assms(4) n br cpl_children [of l a k t1 t2] u(3)
    by (simp add: remask_def upd_node_def mask_bt_eq)
qed

section \<open>Insertion\<close>

text \<open>The subtree that \<^verbatim>\<open>bt_most_similar_node\<close> selects, and its parent.\<close>

fun sim :: "u64 \<Rightarrow> btree \<Rightarrow> btree" where
  "sim x (Lf l a b) = Lf l a b"
| "sim x (Br l a k t1 t2) =
     (if cpl (pfx t2) x < cpl (pfx t1) x then sim x t1
      else if cpl (pfx t1) x < cpl (pfx t2) x then sim x t2
      else Br l a k t1 t2)"

fun sim_par :: "loc \<Rightarrow> u64 \<Rightarrow> btree \<Rightarrow> loc" where
  "sim_par par x (Lf l a b) = par"
| "sim_par par x (Br l a k t1 t2) =
     (if cpl (pfx t2) x < cpl (pfx t1) x then sim_par l x t1
      else if cpl (pfx t1) x < cpl (pfx t2) x then sim_par l x t2
      else par)"

lemma sim_tree:
  "tree_at ns par t \<Longrightarrow> wf_trie t \<Longrightarrow>
    most_similar_loop ns x (rt t) = Some (rt (sim x t)) \<and>
    tree_at ns (sim_par par x t) (sim x t) \<and> wf_trie (sim x t)"
proof (induction t arbitrary: par)
  case (Lf l a b)
  then show ?case by (subst most_similar_loop.simps) simp
next
  case (Br l a k t1 t2)
  then have c: "ns (rt t1) = Some (node_of l t1)" "ns (rt t2) = Some (node_of l t2)"
    by (auto dest: tree_at_rt)
  show ?case
    using Br.IH(1) [of l] Br.IH(2) [of l] Br.prems c by (subst most_similar_loop.simps) (simp add: mask_bt_eq Tm_less_iff cpl_le)
qed

lemma sim_locs: "set (locs (sim x t)) \<subseteq> set (locs t)"
  by (induction t) auto

lemma rt_sim_in: "rt (sim x t) \<in> set (locs t)"
  using sim_locs [of x t] rt_in_locs [of "sim x t"] by blast

lemma sim_distinct: "distinct (locs t) \<Longrightarrow> distinct (locs (sim x t))"
  by (induction t) auto

lemma sim_par_cases:
  assumes "distinct (locs t)"
  shows "sim x t = t \<and> sim_par par x t = par \<or>
    rt (sim x t) \<noteq> rt t \<and> sim_par par x t \<in> set (locs t) - set (locs (sim x t))"
  using assms
proof (induction t arbitrary: par)
  case (Br l a k t1 t2)
  have "rt (sim x t1) \<noteq> l" "rt (sim x t2) \<noteq> l"
    "set (locs (sim x t1)) \<subseteq> set (locs t1)" "set (locs (sim x t2)) \<subseteq> set (locs t2)"
    using Br.prems rt_sim_in [of x t1] rt_sim_in [of x t2] sim_locs by auto
  then show ?case using Br.IH [of l] Br.prems by auto
qed simp

text \<open>The link from the grandparent, redirected from \<open>sib\<close> to \<open>np\<close>.\<close>

definition relink :: "loc \<Rightarrow> loc \<Rightarrow> bt_node \<Rightarrow> bt_node" where
  "relink sib np n = (if n_left n = sib then n\<lparr>n_left := np\<rparr> else n\<lparr>n_right := np\<rparr>)"

definition spliced ::
  "(loc \<rightharpoonup> bt_node) \<Rightarrow> loc \<Rightarrow> loc \<Rightarrow> u64 \<Rightarrow> loc \<Rightarrow> loc \<Rightarrow> btree \<Rightarrow> (loc \<rightharpoonup> bt_node) \<Rightarrow> bool" where
  "spliced ns nl np x b par t ns' \<longleftrightarrow>
     ns' nl = Some (node_of np (Lf nl x b)) \<and>
     ns' np = Some (node_of (sim_par par x t) (join nl np x b (sim x t))) \<and>
     ns' (rt (sim x t)) = Some (node_of np (sim x t)) \<and>
     (rt (sim x t) \<noteq> rt t \<longrightarrow>
        ns' (sim_par par x t) = map_option (relink (rt (sim x t)) np) (ns (sim_par par x t))) \<and>
     (\<forall>l\<in>set (locs t) - {rt (sim x t), sim_par par x t}. ns' l = ns l)"

lemma rt_join [simp]: "rt (join nl np x b t) = np"
  by (simp add: join_def)

lemma rt_t_insert:
  "distinct (locs t) \<Longrightarrow> rt (t_insert nl np x b t) = (if rt (sim x t) = rt t then np else rt t)"
proof (cases t)
  case (Br l a k t1 t2)
  assume "distinct (locs t)"
  then have "rt (sim x t1) \<noteq> l" "rt (sim x t2) \<noteq> l"
    using Br rt_sim_in [of x t1] rt_sim_in [of x t2] by auto
  then show ?thesis by (simp add: Br)
qed simp

lemma splice_here:
  assumes "tree_at ns par t" and "distinct (locs t)" and "nl \<notin> set (locs t)" and "np \<notin> set (locs t)"
    and "ns' nl = Some (node_of np (Lf nl x b))" and "ns' np = Some (node_of par (join nl np x b t))"
    and "ns' (rt t) = Some (node_of np t)" and "\<forall>l\<in>set (locs t) - {rt t}. ns' l = ns l"
  shows "tree_at ns' par (join nl np x b t)"
proof -
  have "tree_at ns' np t"
    using assms(8) by (intro tree_at_reparent [OF assms(1,2), of ns' np]) (use assms(7) in blast)+
  then show ?thesis using assms(5,6) by (simp add: join_def)
qed

lemma splice_branch:
  assumes "tree_at ns par (Br l a k t1 t2)" and "distinct (nl # np # par # locs (Br l a k t1 t2))"
    and u: "u = t1 \<or> u = t2" "sim x (Br l a k t1 t2) = sim x u" "sim_par par x (Br l a k t1 t2) = sim_par l x u"
    and sp: "spliced ns nl np x b par (Br l a k t1 t2) ns'"
  shows "spliced ns nl np x b l u ns'"
    and "ns' l = Some (node_of par (if u = t1 then Br l a k (t_insert nl np x b t1) t2
                                    else Br l a k t1 (t_insert nl np x b t2)))"
    and "tree_at ns' l (if u = t1 then t2 else t1)"
proof -
  have d: "distinct (locs u)" "l \<notin> set (locs u)" "rt t1 \<noteq> rt t2"
    using assms(2) u(1) rt_in_locs [of t1] rt_in_locs [of t2] by (auto simp del: rt_in_locs)
  have rl: "rt (sim x u) \<noteq> l" "rt (sim x u) \<in> set (locs u)" using rt_sim_in [of x u] d by auto
  show "spliced ns nl np x b l u ns'"
    using sp u rl d sim_par_cases [OF d(1), of x l] unfolding spliced_def u(2,3) by auto
  have keep: "sim_par l x u \<noteq> l \<Longrightarrow> ns' l = ns l"
    using sp rl u(1) unfolding spliced_def u(2,3) by auto
  consider "sim x u = u" "sim_par l x u = l" | "rt (sim x u) \<noteq> rt u" "ns' l = ns l"
    using sim_par_cases [OF d(1), of x l] d(2) keep by (metis DiffD1)
  then show "ns' l = Some (node_of par (if u = t1 then Br l a k (t_insert nl np x b t1) t2
                                    else Br l a k t1 (t_insert nl np x b t2)))"
    using sp u(1) rl d assms(1) rt_t_insert [OF d(1), of nl np x b]
    unfolding spliced_def u(2,3) by cases (auto simp: relink_def)
  define v where "v = (if u = t1 then t2 else t1)"
  have sp_in: "sim_par l x u \<in> insert l (set (locs u))"
    using sim_par_cases [OF d(1), of x l] by auto
  have "set (locs v) \<inter> insert l (set (locs u)) = {}" "set (locs v) \<subseteq> set (locs (Br l a k t1 t2))"
    using assms(2) u(1) by (auto simp: v_def)
  then have "ns' m = ns m" if "m \<in> set (locs v)" for m
    using sp that rl(2) sp_in unfolding spliced_def u(2,3) by blast
  then have "tree_at ns' l v = tree_at ns l v" by (rule tree_at_cong)
  then show "tree_at ns' l (if u = t1 then t2 else t1)" using assms(1) by (simp add: v_def)
qed

lemma splice:
  "tree_at ns par t \<Longrightarrow> distinct (nl # np # par # locs t) \<Longrightarrow>
    spliced ns nl np x b par t ns' \<Longrightarrow> tree_at ns' par (t_insert nl np x b t)"
proof (induction t arbitrary: par)
  case (Lf l a b')
  then show ?case using splice_here [of ns par "Lf l a b'" nl np ns' x b] by (auto simp: spliced_def)
next
  case (Br l a k t1 t2)
  note here = splice_here [OF Br.prems(1), of nl np ns' x b]
  note sub = splice_branch [OF Br.prems(1,2) _ _ _ Br.prems(3)]
  have ne: "t1 \<noteq> t2" using Br.prems(2) rt_in_locs [of t1] by (auto simp del: rt_in_locs)
  consider "cpl (pfx t2) x < cpl (pfx t1) x" | "cpl (pfx t1) x < cpl (pfx t2) x"
    | "cpl (pfx t1) x = cpl (pfx t2) x" by linarith
  then show ?case
  proof cases
    case 1
    then show ?thesis using sub [of t1] Br.IH(1) [of l] Br.prems(1,2) by auto
  next
    case 2
    then show ?thesis using sub [of t2] Br.IH(2) [of l] Br.prems(1,2) ne by auto
  next
    case 3
    then show ?thesis using here Br.prems(2,3) by (simp add: spliced_def)
  qed
qed

text \<open>The node map that \<^verbatim>\<open>bt_insert\<close> leaves behind.\<close>

definition insert_nodes ::
  "(loc \<rightharpoonup> bt_node) \<Rightarrow> loc \<Rightarrow> loc \<Rightarrow> u64 \<Rightarrow> loc \<Rightarrow> btree \<Rightarrow> (loc \<rightharpoonup> bt_node)" where
  "insert_nodes ns nl np x b t =
     (let u = sim x t; g = sim_par NULL x t in
      (\<lambda>l. if l = nl then Some (node_of np (Lf nl x b))
           else if l = np then Some (node_of g (join nl np x b u))
           else if l = rt u then Some (node_of np u)
           else if l = g \<and> rt u \<noteq> rt t then map_option (relink (rt u) np) (ns g)
           else ns l))"

lemma spliced_insert_nodes:
  assumes "distinct (nl # np # NULL # locs t)"
  shows "spliced ns nl np x b NULL t (insert_nodes ns nl np x b t)"
proof -
  have "distinct (locs t)" using assms by simp
  then show ?thesis
    using assms sim_par_cases [of t x NULL] rt_sim_in [of x t]
    unfolding spliced_def insert_nodes_def Let_def by auto
qed

lemma node_of_join:
  "node_of par (join nl np x b u) =
     \<lparr>n_is_leaf = False, n_addr = ta u AND x, n_mask = Tm (cpl (pfx u) x),
      n_left = (if x \<le> ta u then nl else rt u), n_right = (if x \<le> ta u then rt u else nl),
      n_parent = par, n_leaf = NULL\<rparr>"
  by (simp add: join_def)

lemma node_of_parent [simp]: "(node_of par t)\<lparr>n_parent := p\<rparr> = node_of p t"
  by (cases t) simp_all

lemma node_of_leaf [simp]: "n_is_leaf (node_of par t) = (\<exists>l a b. t = Lf l a b)"
  by (cases t) simp_all

lemma remask_eq:
  assumes "nodes s p = Some n" and "n_left n = l \<and> n_right n = l' \<or> n_left n = l' \<and> n_right n = l"
    and "nodes s l = Some c" and "nodes s l' = Some c'"
  shows "remask p s = Some (s\<lparr>nodes := (nodes s)(p \<mapsto>
           n\<lparr>n_mask := Tm (cpl (n_addr c AND n_mask c) (n_addr c' AND n_mask c'))\<rparr>)\<rparr>)"
  using assms
  by (auto simp: remask_def upd_node_def mask_bt_eq
      cpl_commute [of "n_addr c AND n_mask c" "n_addr c' AND n_mask c'"])

lemma insert_step:
  assumes tree: "tree_at (nodes s) NULL t" "wf_trie t" "bt_root s = rt t"
    and blk: "blocks s b = Some blk" "b_ptr blk = x"
    and nl: "nl = pm (live s)" and np: "np = pm (insert nl (live s))"
    and d: "distinct (nl # np # NULL # locs t)"
    and s': "s' = (if rt (sim x t) = rt t then s\<lparr>bt_root := np\<rparr> else s)
                     \<lparr>nodes := insert_nodes (nodes s) nl np x b t\<rparr>"
  shows "bt_insert pm b s =
    (if n_is_leaf (node_of NULL (sim x t)) then Some s' else remask (rt (sim x t)) s')"
proof -
  define ns1 where "ns1 = (nodes s)(nl \<mapsto> node_of NULL (Lf nl x b))"
  define u where "u = sim x t"
  define g where "g = sim_par NULL x t"
  have "tree_at ns1 NULL t" using tree(1) d by (simp add: ns1_def)
  then have u: "most_similar_loop ns1 x (rt t) = Some (rt u)" "ns1 (rt u) = Some (node_of g u)"
    using sim_tree [of ns1 NULL t x] tree(2) tree_at_rt [of ns1 g u] by (auto simp: u_def g_def)
  have lv: "live (s\<lparr>nodes := ns1\<rparr>) = insert nl (live s)"
    by (auto simp: live_def ns1_def)
  have T64: "Tmasks ! 64 = - 1" using Tmasks_nth [of 64] by simp
  have lit: "(nodes s)(nl \<mapsto> \<lparr>n_is_leaf = True, n_addr = x, n_mask = - 1, n_left = NULL, n_right = NULL,
      n_parent = NULL, n_leaf = b\<rparr>) = ns1" by (simp add: ns1_def)
  have ns1_nl: "ns1 nl = Some (node_of NULL (Lf nl x b))" "ns1(nl \<mapsto> v) = (nodes s)(nl \<mapsto> v)" for v
    by (simp_all add: ns1_def)
  have rtu: "rt u \<in> set (locs t)" using rt_sim_in by (simp add: u_def)
  have ne: "nl \<noteq> np" "rt u \<noteq> nl" "rt u \<noteq> np" "rt t \<noteq> NULL" "nl \<noteq> NULL" "np \<noteq> NULL"
    using d rtu not_NULL_rt [of t] by auto
  have nu: "nodes s (rt u) = Some (node_of g u)" using u(2) ne(2) by (simp add: ns1_def)
  show ?thesis
  proof (cases "rt u = rt t")
    case True
    then have ut: "u = t" "g = NULL" using sim_par_cases [of t x NULL] d by (auto simp: u_def g_def)
    have same: "insert_nodes (nodes s) nl np x b t =
        (nodes s)(nl \<mapsto> node_of np (Lf nl x b), np \<mapsto> node_of NULL (join nl np x b t), rt t \<mapsto> node_of np t)"
      using ne ut by (auto simp: insert_nodes_def fun_eq_iff simp flip: u_def g_def)
    show ?thesis
      using blk tree(3) u lv ne True ns1_nl
        nu ut
      by (simp add: bt_insert_def Let_def bt_most_similar_node_def s' upd_node_def mask_bt_eq T64 lit
          same node_of_join flip: nl np u_def)
  next
    case False
    have g: "g \<in> set (locs t)" "g \<noteq> rt u"
      using False sim_par_cases [of t x NULL] d rt_in_locs [of u] by (auto simp: u_def g_def)
    then have gne: "g \<noteq> nl" "g \<noteq> np" using d by auto
    obtain gn where gn: "nodes s g = Some gn" using subtree_at [OF tree(1,2) g(1)] tree_at_rt by metis
    have ns1_g: "ns1 g = Some gn" using gn gne by (simp add: ns1_def)
    have same: "insert_nodes (nodes s) nl np x b t =
        (nodes s)(nl \<mapsto> node_of np (Lf nl x b), g \<mapsto> relink (rt u) np gn,
          np \<mapsto> node_of g (join nl np x b u), rt u \<mapsto> node_of np u)"
      using ne g gne gn False by (auto simp: insert_nodes_def fun_eq_iff simp flip: u_def g_def)
    show ?thesis
      using blk tree(3) u lv ne False ns1_nl nu g gne gn ns1_g
      by (simp add: bt_insert_def Let_def bt_most_similar_node_def s' upd_node_def mask_bt_eq T64 lit
          same node_of_join remask_eq [where l = "rt u" and l' = nl] relink_def flip: nl np u_def)
  qed
qed

lemma locs_t_insert:
  "distinct (nl # np # locs t) \<Longrightarrow>
    distinct (locs (t_insert nl np x b t)) \<and>
    set (locs (t_insert nl np x b t)) = insert nl (insert np (set (locs t)))"
  by (induction t) (auto simp: join_def)

lemma dom_insert_nodes:
  assumes "distinct (nl # np # NULL # locs t)" and "dom ns = set (locs t)"
  shows "dom (insert_nodes ns nl np x b t) = insert nl (insert np (dom ns))"
proof -
  have "rt (sim x t) \<in> dom ns" using rt_sim_in assms(2) by simp
  then show ?thesis by (auto simp: insert_nodes_def Let_def dom_def)
qed

text \<open>The parts of the state that are not nodes or the root.\<close>

definition same_rest :: "'a bt_state_scheme \<Rightarrow> 'a bt_state_scheme \<Rightarrow> bool" where
  "same_rest s s' \<longleftrightarrow> s' = s\<lparr>nodes := nodes s', bt_root := bt_root s'\<rparr>"

lemma fresh_allocD: "fresh_alloc pm \<Longrightarrow> finite A \<Longrightarrow> pm A \<noteq> NULL \<and> pm A \<notin> A"
  by (simp add: fresh_alloc_def)

lemma insert_rep_Some:
  assumes rep: "bt_rep s (Some t)" and pm: "fresh_alloc pm"
    and blk: "blocks s b = Some blk" "b_ptr blk \<notin> addrs t"
  shows "\<exists>s' T'. bt_insert pm b s = Some s' \<and> bt_rep s' T' \<and>
    set (content T') = insert (b_ptr blk, b) (set (leaves t)) \<and> same_rest s s'"
proof -
  define nl where "nl = pm (live s)"
  define np where "np = pm (insert nl (live s))"
  define x where "x = b_ptr blk"
  define s' where "s' = (if rt (sim x t) = rt t then s\<lparr>bt_root := np\<rparr> else s)
                     \<lparr>nodes := insert_nodes (nodes s) nl np x b t\<rparr>"
  define t' where "t' = t_insert nl np x b t"
  from rep obtain r: "bt_root s = rt t" "tree_at (nodes s) NULL t" "distinct (locs t)"
    "NULL \<notin> set (locs t)" "dom (nodes s) = set (locs t)" "wf_trie t"
    and rb: "leaf_blocks (blocks s) t" "finite (dom (blocks s))" "NULL \<notin> dom (blocks s)"
    by (rule bt_rep_SomeE)
  have fin: "finite (live s)" using r(5) rb(2) by (simp add: live_def)
  have nl: "nl \<noteq> NULL" "nl \<notin> live s"
    using fresh_allocD [OF pm fin] by (simp_all only: nl_def not_False_eq_True)
  have np: "np \<noteq> NULL" "np \<notin> insert nl (live s)"
    using fresh_allocD [OF pm, of "insert nl (live s)"] fin unfolding np_def by blast+
  have d: "distinct (nl # np # NULL # locs t)" using nl np r(3-5) by (auto simp: live_def)
  have t': "tree_at (nodes s') NULL t'"
    using splice [OF r(2) d spliced_insert_nodes [OF d]] by (simp add: s'_def t'_def)
  have wf: "wf_trie t'" using wf_t_insert [OF r(6)] blk(2) by (simp add: t'_def x_def)
  have lc: "distinct (locs t')" "set (locs t') = insert nl (insert np (set (locs t)))"
    using locs_t_insert [of nl np t x b] d by (auto simp: t'_def)
  have lv: "set (leaves t') = insert (x, b) (set (leaves t))" by (simp add: t'_def leaves_t_insert)
  have sib: "nodes s' (rt (sim x t)) = Some (node_of np (sim x t))" "rt (sim x t) \<in> set (locs t')"
    using spliced_insert_nodes [OF d, of "nodes s" x b] rt_sim_in [of x t] lc(2) by (auto simp: s'_def spliced_def)
  have "remask (rt (sim x t)) s' = Some s'" if "\<not> n_is_leaf (node_of NULL (sim x t))"
    using remask_noop [OF t' wf sib(2,1)] that by simp
  then have "bt_insert pm b s = Some s'"
    using insert_step [OF r(2,6,1) blk(1) x_def [symmetric] nl_def np_def d s'_def] by (simp del: node_of_leaf)
  moreover have "bt_rep s' (Some t')"
    using t' wf lc nl(1) np(1) r rb lv dom_insert_nodes [OF d r(5), of x b] rt_t_insert [OF r(3), of nl np x b] blk
    by (auto simp: bt_rep_def leaf_blocks_def s'_def t'_def x_def)
  moreover have "same_rest s s'" by (simp add: same_rest_def s'_def)
  ultimately show ?thesis using lv x_def by (metis content_simps(2))
qed

lemma insert_rep:
  assumes rep: "bt_rep s T" and pm: "fresh_alloc pm"
    and blk: "blocks s b = Some blk" "b_ptr blk \<notin> fst ` set (content T)"
  shows "\<exists>s' T'. bt_insert pm b s = Some s' \<and> bt_rep s' T' \<and>
    set (content T') = insert (b_ptr blk, b) (set (content T)) \<and> same_rest s s'"
proof (cases T)
  case (Some t)
  then show ?thesis using insert_rep_Some [of s t pm b blk] assms by (simp add: addrs_leaves)
next
  case None
  define nl where "nl = pm (live s)"
  define t' where "t' = Lf nl (b_ptr blk) b"
  define s' where "s' = s\<lparr>nodes := [nl \<mapsto> node_of NULL t'], bt_root := nl\<rparr>"
  have s: "nodes s = Map.empty" "bt_root s = NULL" "finite (dom (blocks s))" "NULL \<notin> dom (blocks s)"
    using rep None by (simp_all add: bt_rep_def)
  then have "nl \<noteq> NULL" using fresh_allocD [OF pm, of "live s"] by (simp add: nl_def live_def)
  then have "bt_rep s' (Some t')"
    using s blk(1) by (simp add: bt_rep_def s'_def t'_def leaf_blocks_def)
  moreover have "bt_insert pm b s = Some s'"
    using blk(1) s Tmasks_nth [of 64] by (simp add: bt_insert_def Let_def s'_def t'_def nl_def)
  moreover have "same_rest s s'" by (simp add: same_rest_def s'_def)
  ultimately show ?thesis using None by (intro exI [of _ s'] exI [of _ "Some t'"]) (simp add: t'_def)
qed

end
