(* ===== verification/Bittree_Remove.thy ===== *)
theory Bittree_Remove
  imports Bittree_Insert
begin

text \<open>
  \<^verbatim>\<open>bt_remove\<close> and \<^verbatim>\<open>bt_clean\<close> as updates of the represented trie: \<open>remove_rep\<close> shows
  that removing a tracked block returns, with the store that represents \<open>t_remove\<close> of the
  tree; \<open>clean_rep\<close> that cleaning frees every node and every tracked block.
\<close>

section \<open>Removal\<close>

text \<open>
  The branch above the leaf of address \<open>x\<close>, the parent of that branch, and the child of the
  branch that survives.
\<close>

fun rem_br :: "u64 \<Rightarrow> btree \<Rightarrow> btree" where
  "rem_br x (Lf l a b) = Lf l a b"
| "rem_br x (Br l a k t1 t2) =
     (if is_lf x t2 \<or> is_lf x t1 then Br l a k t1 t2
      else if x \<in> addrs t2 then rem_br x t2 else rem_br x t1)"

fun rem_par :: "loc \<Rightarrow> u64 \<Rightarrow> btree \<Rightarrow> loc" where
  "rem_par par x (Lf l a b) = par"
| "rem_par par x (Br l a k t1 t2) =
     (if is_lf x t2 \<or> is_lf x t1 then par
      else if x \<in> addrs t2 then rem_par l x t2 else rem_par l x t1)"

fun kept :: "u64 \<Rightarrow> btree \<Rightarrow> btree" where
  "kept x (Lf l a b) = Lf l a b"
| "kept x (Br l a k t1 t2) = (if is_lf x t2 then t1 else t2)"

fun children :: "btree \<Rightarrow> btree set" where
  "children (Lf l a b) = {}"
| "children (Br l a k t1 t2) = {t1, t2}"

definition touched :: "u64 \<Rightarrow> btree \<Rightarrow> loc set" where
  "touched x t = {rt (rem_br x t), rt (kept x (rem_br x t)), leaf_loc x t}
     \<union> rt ` children (kept x (rem_br x t))"

definition detached :: "(loc \<rightharpoonup> bt_node) \<Rightarrow> u64 \<Rightarrow> loc \<Rightarrow> btree \<Rightarrow> (loc \<rightharpoonup> bt_node) \<Rightarrow> bool" where
  "detached ns x par t ns' \<longleftrightarrow>
     (let p = rt (rem_br x t); v = kept x (rem_br x t) in
      ns' p = Some (node_of (rem_par par x t) (relabel p v)) \<and>
      (\<forall>c\<in>children v. ns' (rt c) = Some (node_of p c)) \<and>
      (\<forall>l\<in>set (locs t) - touched x t. ns' l = ns l))"

lemma rt_t_remove [simp]: "rt (t_remove x t) = rt t"
  by (cases t) auto

lemma rem_br_locs: "set (locs (rem_br x t)) \<subseteq> set (locs t)"
  by (induction t) auto

lemma kept_locs: "set (locs (kept x t)) \<subseteq> set (locs t)"
  by (cases t) auto

lemma children_locs: "c \<in> children t \<Longrightarrow> set (locs c) \<subseteq> set (locs t)"
  by (cases t) auto

lemma touched_locs: "touched x t \<subseteq> set (locs t)"
proof -
  have "set (locs (kept x (rem_br x t))) \<subseteq> set (locs t)"
    using kept_locs rem_br_locs by (metis order_trans)
  then show ?thesis
    using rem_br_locs [of x t] rt_in_locs [of "rem_br x t"] rt_in_locs [of "kept x (rem_br x t)"]
      children_locs [of _ "kept x (rem_br x t)"] by (auto simp: touched_def) (meson rt_in_locs subsetD)
qed

lemma detach_here:
  assumes "tree_at ns m v" and "distinct (locs v)" and "p \<notin> set (locs v)"
    and "ns' p = Some (node_of par (relabel p v))"
    and "\<forall>c\<in>children v. ns' (rt c) = Some (node_of p c)"
    and "\<forall>l\<in>set (locs v) - insert (rt v) (rt ` children v). ns' l = ns l"
  shows "tree_at ns' par (relabel p v)"
proof (cases v)
  case (Lf l a b)
  then show ?thesis using assms(4) by simp
next
  case (Br l a k t1 t2)
  have d: "distinct (locs t1)" "distinct (locs t2)" "set (locs t1) \<inter> set (locs t2) = {}"
    "l \<notin> set (locs t1)" "l \<notin> set (locs t2)"
    using assms(2) Br by auto
  have c: "tree_at ns l t1" "tree_at ns l t2" "ns' (rt t1) = Some (node_of p t1)" "ns' (rt t2) = Some (node_of p t2)"
    using assms(1,5) Br by auto
  have out: "ns' i = ns i" if "i \<in> set (locs t1) \<union> set (locs t2)" "i \<noteq> rt t1" "i \<noteq> rt t2" for i
    using assms(6) Br that d(4,5) by auto
  have "tree_at ns' p t1"
    using c(1) d(1) c(3) by (rule tree_at_reparent) (metis out UnI1 d(3) disjoint_iff rt_in_locs)
  moreover have "tree_at ns' p t2"
    using c(2) d(2) c(4) by (rule tree_at_reparent) (metis out UnI2 d(3) disjoint_iff rt_in_locs)
  ultimately show ?thesis using assms(4) Br by simp
qed

lemma rem_at:
  assumes "tree_at ns par t" and "x \<in> addrs t" and "\<not> is_lf x t" and "distinct (locs t)"
  shows "tree_at ns (rem_par par x t) (rem_br x t) \<and>
    (rem_par par x t = par \<or>
     rem_par par x t \<in> set (locs t) - set (locs (rem_br x t)) \<and>
     (\<exists>n. ns (rem_par par x t) = Some n \<and> \<not> n_is_leaf n))"
  using assms
proof (induction t arbitrary: par)
  case (Lf l a b)
  then show ?case by simp
next
  case (Br l a k t1 t2)
  have l: "l \<notin> set (locs (rem_br x t1))" "l \<notin> set (locs (rem_br x t2))" "\<exists>n. ns l = Some n \<and> \<not> n_is_leaf n"
    using Br.prems rem_br_locs [of x t1] rem_br_locs [of x t2] by auto
  show ?case
    using Br.prems Br.IH(1) [of l] Br.IH(2) [of l] l by auto
qed

lemma rem_br_form:
  assumes "x \<in> addrs t" and "\<not> is_lf x t"
  shows "\<exists>p a k t1 t2. rem_br x t = Br p a k t1 t2 \<and> (is_lf x t2 \<or> is_lf x t1)"
  using assms by (induction t) auto

lemma rem_br_wf: "wf_trie t \<Longrightarrow> wf_trie (rem_br x t)"
  by (induction t) auto

lemma rem_br_distinct: "distinct (locs t) \<Longrightarrow> distinct (locs (rem_br x t))"
  by (induction t) auto

lemma leaf_loc_rem:
  "wf_trie t \<Longrightarrow> x \<in> addrs t \<Longrightarrow> \<not> is_lf x t \<Longrightarrow> leaf_loc x t = leaf_loc x (rem_br x t)"
proof (induction t)
  case (Br l a k t1 t2)
  then show ?case using is_lf_addrs [of x t1] is_lf_addrs [of x t2] by auto
qed simp

lemma detach:
  assumes "tree_at ns par t" and "distinct (locs t)" and "x \<in> addrs t" and "\<not> is_lf x t"
    and "wf_trie t" and "detached ns x par t ns'"
  shows "tree_at ns' par (t_remove x t)"
  using assms
proof (induction t arbitrary: par)
  case (Lf l a b)
  then show ?case by simp
next
  case (Br l a k t1 t2)
  have tr: "touched x t1 \<subseteq> set (locs t1)" "touched x t2 \<subseteq> set (locs t2)"
    by (rule touched_locs)+
  show ?case
  proof (cases "is_lf x t2 \<or> is_lf x t1")
    case True
    define v where "v = kept x (Br l a k t1 t2)"
    have "tree_at ns' par (relabel l v)"
    proof (rule detach_here)
      show "tree_at ns l v" "distinct (locs v)" "l \<notin> set (locs v)"
        using Br.prems by (auto simp: v_def)
      show "ns' l = Some (node_of par (relabel l v))" "\<forall>c\<in>children v. ns' (rt c) = Some (node_of l c)"
        using Br.prems(6) True unfolding detached_def Let_def by (auto simp: v_def)
      have "leaf_loc x (Br l a k t1 t2) \<notin> set (locs v)"
        using Br.prems(2,5) True is_lf_addrs [of x t1] is_lf_addrs [of x t2]
          leaf_loc_in [of x t1] leaf_loc_in [of x t2] by (auto simp: v_def simp del: leaf_loc_in)
      then have "set (locs v) - insert (rt v) (rt ` children v)
          \<subseteq> set (locs (Br l a k t1 t2)) - touched x (Br l a k t1 t2)"
        using True Br.prems(2) by (auto simp: touched_def v_def)
      then show "\<forall>i\<in>set (locs v) - insert (rt v) (rt ` children v). ns' i = ns i"
        using Br.prems(6) unfolding detached_def Let_def by blast
    qed
    then show ?thesis using True by (auto simp: v_def)
  next
    case False
    define u where "u = (if x \<in> addrs t2 then t2 else t1)"
    define v where "v = (if x \<in> addrs t2 then t1 else t2)"
    have eqs: "rem_br x (Br l a k t1 t2) = rem_br x u" "rem_par par x (Br l a k t1 t2) = rem_par l x u"
      "touched x (Br l a k t1 t2) = touched x u"
      using False by (auto simp: u_def touched_def)
    have sub: "set (locs (Br l a k t1 t2)) = insert l (set (locs u) \<union> set (locs v))"
      "l \<notin> set (locs u)" "set (locs v) \<inter> set (locs u) = {}"
      using Br.prems(2) by (auto simp: u_def v_def)
    have out: "ns' i = ns i" if "i \<in> insert l (set (locs v)) \<union> (set (locs u) - touched x u)" for i
      using Br.prems(6) that sub touched_locs [of x u] unfolding detached_def Let_def eqs by blast
    have "detached ns x l u ns'"
      using Br.prems(6) out unfolding detached_def Let_def eqs by blast
    then have "tree_at ns' l (t_remove x u)"
      using Br.IH [of l] Br.prems(1-5) False by (auto simp: u_def)
    moreover have "tree_at ns' l v = tree_at ns l v" by (rule tree_at_cong) (simp add: out)
    moreover have "ns' l = ns l" by (simp add: out)
    ultimately show ?thesis using Br.prems(1) False by (auto simp: u_def v_def split: if_splits)
  qed
qed

text \<open>The node map after the sibling has been copied into the branch, before the leaf is freed.\<close>

definition remove_nodes :: "(loc \<rightharpoonup> bt_node) \<Rightarrow> loc \<Rightarrow> loc \<Rightarrow> btree \<Rightarrow> (loc \<rightharpoonup> bt_node)" where
  "remove_nodes ns g p v =
     (\<lambda>i. if i = rt v then None
          else if i = p then Some (node_of g (relabel p v))
          else if i \<in> rt ` children v then map_option (\<lambda>n. n\<lparr>n_parent := p\<rparr>) (ns i)
          else ns i)"

lemma remove_step:
  assumes leaf: "bt_get_leaf_from_block s b = Some m" "nodes s m = Some (node_of p (Lf m x c))" "p \<noteq> NULL"
    and pn: "nodes s p = Some pn" "n_parent pn = g"
    and sib: "(if m = n_left pn then n_right pn else n_left pn) = rt v" "tree_at (nodes s) p v"
    and d: "distinct (p # locs v)"
  shows "bt_remove b s =
    do { s2 \<leftarrow> (if g \<noteq> NULL then remask g (s\<lparr>nodes := remove_nodes (nodes s) g p v\<rparr>)
                else Some (s\<lparr>nodes := remove_nodes (nodes s) g p v\<rparr>));
         Some (free_node m s2) }"
proof (cases v)
  case (Lf r a e)
  have N: "remove_nodes (nodes s) g p v = ((nodes s)(p \<mapsto> node_of g (relabel p v)))(r := None)"
    using d by (auto simp: remove_nodes_def Lf)
  show ?thesis unfolding N
    using leaf pn sib d by (cases "m = n_left pn"; cases pn) (simp_all add: bt_remove_def Let_def upd_node_def free_node_def Lf)
next
  case (Br r a k v1 v2)
  have c: "nodes s (rt v1) = Some (node_of r v1)" "nodes s (rt v2) = Some (node_of r v2)"
    using sib(2) Br by (auto dest: tree_at_rt)
  have ne: "rt v1 \<noteq> rt v2" "rt v1 \<noteq> p" "rt v2 \<noteq> p" "rt v1 \<noteq> r" "rt v2 \<noteq> r" "p \<noteq> r"
    using d Br rt_in_locs [of v1] rt_in_locs [of v2] by (auto simp del: rt_in_locs)
  then have N: "remove_nodes (nodes s) g p v =
      ((nodes s)(p \<mapsto> node_of g (relabel p v), rt v1 \<mapsto> node_of p v1, rt v2 \<mapsto> node_of p v2))(r := None)"
    using c by (auto simp: remove_nodes_def Br fun_eq_iff)
  show ?thesis unfolding N
    using leaf pn sib c ne by (cases "m = n_left pn"; cases pn) (simp_all add: bt_remove_def Let_def upd_node_def free_node_def Br)
qed

lemma detached_remove_nodes:
  assumes "tree_at ns par t" and "wf_trie t" and "distinct (locs t)" and "x \<in> addrs t" and "\<not> is_lf x t"
    and "ns' = remove_nodes ns (rem_par par x t) (rt (rem_br x t)) (kept x (rem_br x t))"
  shows "detached ns x par t ns'"
proof -
  obtain p a k t1 t2 where br: "rem_br x t = Br p a k t1 t2" using rem_br_form [OF assms(4,5)] by blast
  define v where "v = kept x (rem_br x t)"
  have tr: "tree_at ns (rem_par par x t) (Br p a k t1 t2)" "distinct (locs (Br p a k t1 t2))"
    using rem_at [OF assms(1,4,5,3)] rem_br_distinct [OF assms(3), of x] br by auto
  then have v: "tree_at ns p v" "distinct (p # locs v)" by (auto simp: v_def br)
  have eqs: "ns' = remove_nodes ns (rem_par par x t) p v"
    "touched x t = {p, rt v, leaf_loc x t} \<union> rt ` children v"
    using assms(6) br by (simp_all only: v_def touched_def btree.sel)
  have "ns' (rt c) = Some (node_of p c)" if "c \<in> children v" for c
  proof (cases v)
    case (Br r e j v1 v2)
    have ne: "rt v1 \<noteq> p" "rt v2 \<noteq> p" "rt v1 \<noteq> r" "rt v2 \<noteq> r" "rt v1 \<noteq> rt v2"
      using v(2) Br rt_in_locs [of v1] rt_in_locs [of v2] by (auto simp del: rt_in_locs)
    have "ns (rt v1) = Some (node_of r v1)" "ns (rt v2) = Some (node_of r v2)"
      using v(1) Br by (auto dest: tree_at_rt)
    then show ?thesis using that ne Br by (auto simp: eqs remove_nodes_def)
  qed (use that in simp)
  moreover have "p \<noteq> rt v" using v(2) rt_in_locs [of v] by (auto simp del: rt_in_locs)
  then have "ns' p = Some (node_of (rem_par par x t) (relabel p v))"
    and "\<forall>l\<in>set (locs t) - touched x t. ns' l = ns l"
    by (auto simp: eqs remove_nodes_def)
  moreover have "kept x (Br p a k t1 t2) = v" by (simp only: v_def br)
  ultimately show ?thesis unfolding detached_def Let_def br btree.sel by blast
qed

lemma locs_relabel: "p \<notin> set (locs v) \<Longrightarrow> distinct (locs v) \<Longrightarrow>
    distinct (locs (relabel p v)) \<and> set (locs (relabel p v)) = insert p (set (locs v) - {rt v})"
  by (cases v) auto

lemma locs_t_remove:
  "wf_trie t \<Longrightarrow> distinct (locs t) \<Longrightarrow> x \<in> addrs t \<Longrightarrow> \<not> is_lf x t \<Longrightarrow>
    distinct (locs (t_remove x t)) \<and>
    set (locs (t_remove x t)) = set (locs t) - {rt (kept x (rem_br x t)), leaf_loc x t}"
proof (induction t)
  case (Br l a k t1 t2)
  have lf: "is_lf x t \<Longrightarrow> locs t = [leaf_loc x t]" for t by (cases t) auto
  have kl: "rt (kept x (rem_br x t)) \<in> set (locs t)" for t
    using touched_locs [of x t] by (simp add: touched_def)
  have rl: "rt t1 \<in> set (locs t1)" "rt t2 \<in> set (locs t2)" "leaf_loc x t1 \<in> set (locs t1)"
    "leaf_loc x t2 \<in> set (locs t2)" by simp_all
  note d = Br.prems(2)
  show ?case
  proof (cases "is_lf x t2 \<or> is_lf x t1")
    case True
    then show ?thesis
      using d lf [of t1] lf [of t2] locs_relabel [of l t1] locs_relabel [of l t2] rl
        is_lf_addrs [of x t1] is_lf_addrs [of x t2] wf_disjoint [OF Br.prems(1), of x]
      by (cases "is_lf x t2") auto
  next
    case False
    then show ?thesis
      using Br.IH Br.prems kl [of t1] kl [of t2] rl
      by (cases "x \<in> addrs t2") (auto simp del: leaf_loc_in rt_in_locs)
  qed
qed simp

lemma remove_root:
  assumes rep: "bt_rep s (Some (Lf l x c))" and blk: "blocks s b = Some blk" "b_ptr blk = x"
  shows "\<exists>s'. bt_remove b s = Some s' \<and> bt_rep s' None \<and> same_rest s s'"
proof -
  define s' where "s' = free_node l (s\<lparr>bt_root := NULL\<rparr>)"
  have "get_leaf_loop (nodes s) x l = Some l"
    using rep by (subst get_leaf_loop.simps) (auto simp: bt_rep_def)
  then have "bt_remove b s = Some s'"
    using rep blk by (auto simp: bt_remove_def bt_get_leaf_from_block_def s'_def bt_rep_def)
  moreover have "bt_rep s' None"
    using rep by (auto simp: bt_rep_def s'_def free_node_def fun_eq_iff domIff)
  moreover have "same_rest s s'" by (simp add: same_rest_def s'_def free_node_def)
  ultimately show ?thesis by blast
qed

lemma sibling_facts:
  assumes "tree_at ns g (Br p a k t1 t2)" and "distinct (locs (Br p a k t1 t2))"
    and "wf_trie (Br p a k t1 t2)" and "is_lf x t2 \<or> is_lf x t1"
    and "m = leaf_loc x (Br p a k t1 t2)" and "v = kept x (Br p a k t1 t2)"
  shows "\<exists>c. ns m = Some (node_of p (Lf m x c))"
    and "(if m = rt t1 then rt t2 else rt t1) = rt v" and "tree_at ns p v" and "distinct (p # locs v)"
proof -
  have lf: "is_lf x t \<Longrightarrow> \<exists>c. t = Lf (leaf_loc x t) x c" for t by (cases t) auto
  have rtl: "is_lf x t \<Longrightarrow> leaf_loc x t = rt t" for t by (cases t) auto
  have ne: "rt t1 \<noteq> rt t2" "leaf_loc x t1 \<noteq> rt t2" "leaf_loc x t2 \<noteq> rt t1"
    using assms(2) rt_in_locs [of t1] rt_in_locs [of t2] leaf_loc_in [of x t1] leaf_loc_in [of x t2]
    by (auto simp del: rt_in_locs leaf_loc_in)
  have "x \<in> addrs t2 \<longleftrightarrow> is_lf x t2"
    using assms(3,4) is_lf_addrs [of x t1] is_lf_addrs [of x t2] by auto
  then have m: "m = (if is_lf x t2 then leaf_loc x t2 else leaf_loc x t1)" by (simp add: assms(5))
  show "\<exists>c. ns m = Some (node_of p (Lf m x c))"
    using assms(1,4) lf [of t1] lf [of t2] m by (metis tree_at.simps(1,2))
  show "(if m = rt t1 then rt t2 else rt t1) = rt v"
    using assms(4,6) m ne rtl by auto
  show "tree_at ns p v" "distinct (p # locs v)" using assms(1,2,6) by auto
qed

lemma dom_remove_nodes:
  "p \<in> dom ns \<Longrightarrow> p \<noteq> rt v \<Longrightarrow> dom (remove_nodes ns g p v) = dom ns - {rt v}"
  by (auto simp: remove_nodes_def dom_def split: if_splits)

lemma remove_rep_Some:
  assumes rep: "bt_rep s (Some t)" and blk: "blocks s b = Some blk" "b_ptr blk = x"
    and x: "x \<in> addrs t" and nl: "\<not> is_lf x t"
  shows "\<exists>s'. bt_remove b s = Some s' \<and> bt_rep s' (Some (t_remove x t)) \<and> same_rest s s'"
proof -
  from rep obtain r: "bt_root s = rt t" "tree_at (nodes s) NULL t" "distinct (locs t)"
    "NULL \<notin> set (locs t)" "dom (nodes s) = set (locs t)" "wf_trie t"
    and rb: "leaf_blocks (blocks s) t" "finite (dom (blocks s))" "NULL \<notin> dom (blocks s)"
    by (rule bt_rep_SomeE)
  obtain p a k t1 t2 where br: "rem_br x t = Br p a k t1 t2" and lf: "is_lf x t2 \<or> is_lf x t1"
    using rem_br_form [OF x nl] by blast
  define g where "g = rem_par NULL x t"
  define v where "v = kept x (rem_br x t)"
  define m where "m = leaf_loc x t"
  define s1 where "s1 = s\<lparr>nodes := remove_nodes (nodes s) g p v\<rparr>"
  have at: "tree_at (nodes s) g (Br p a k t1 t2)" "distinct (locs (Br p a k t1 t2))"
    "wf_trie (Br p a k t1 t2)" "m = leaf_loc x (Br p a k t1 t2)"
    using rem_at [OF r(2) x nl r(3)] rem_br_distinct [OF r(3), of x] rem_br_wf [OF r(6), of x]
      leaf_loc_rem [OF r(6) x nl] br by (simp_all add: g_def m_def)
  have t1: "tree_at (nodes s1) NULL (t_remove x t)"
    using detach [OF r(2,3) x nl r(6) detached_remove_nodes [OF r(2,6,3) x nl refl]]
    by (simp add: s1_def g_def v_def br)
  have v: "v = kept x (Br p a k t1 t2)" by (simp only: v_def br)
  note sib = sibling_facts [OF at(1-3) lf at(4) v]
  have p: "p \<noteq> rt v" "p \<in> set (locs t)"
    using sib(4) rt_in_locs [of v] rem_br_locs [of x t] br by (auto simp del: rt_in_locs)
  then have pv: "p \<noteq> rt v" "p \<in> set (locs t)" "p \<noteq> NULL" using r(4) by metis+
  have lc: "distinct (locs (t_remove x t))" "set (locs (t_remove x t)) = set (locs t) - {rt v, m}"
    using locs_t_remove [OF r(6,3) x nl] by (simp_all add: v_def m_def)
  have wf: "wf_trie (t_remove x t)" using wf_t_remove [OF r(6) x nl] .
  have rm: "remask g s1 = Some s1" if gn: "g \<noteq> NULL"
  proof -
    obtain n where n: "g \<in> set (locs t) - set (locs (Br p a k t1 t2))" "nodes s g = Some n" "\<not> n_is_leaf n"
      using rem_at [OF r(2) x nl r(3), folded g_def] gn unfolding br by blast
    have "set (locs v) \<subseteq> set (locs (Br p a k t1 t2))" unfolding v by (rule kept_locs)
    then have "p \<in> set (locs (Br p a k t1 t2))" "rt v \<in> set (locs (Br p a k t1 t2))"
      "rt ` children v \<subseteq> set (locs (Br p a k t1 t2))" "m \<in> set (locs (Br p a k t1 t2))"
      unfolding at(4) using rt_in_locs leaf_loc_in children_locs [of _ v] by (simp, blast, blast, blast)
    then have "g \<noteq> p" "g \<noteq> rt v" "g \<notin> rt ` children v" "g \<noteq> m" using n(1) by blast+
    then have "nodes s1 g = Some n" "g \<in> set (locs (t_remove x t))"
      using n lc(2) by (simp_all add: s1_def remove_nodes_def)
    then show ?thesis using remask_noop [OF t1 wf] n(3) by blast
  qed
  obtain c where c: "nodes s m = Some (node_of p (Lf m x c))" using sib(1) by blast
  have gl: "bt_get_leaf_from_block s b = Some m"
    using get_leaf_tree [OF r(2,6) x] blk r(1) by (simp add: bt_get_leaf_from_block_def m_def)
  define pn where "pn = node_of g (Br p a k t1 t2)"
  have pn: "nodes s p = Some pn" "n_parent pn = g" "(if m = n_left pn then n_right pn else n_left pn) = rt v"
    using at(1) sib(2) by (simp_all add: pn_def split: if_splits)
  have "bt_remove b s = Some (free_node m s1)"
    using remove_step [OF gl c pv(3) pn sib(3,4)] rm by (cases "g = NULL") (simp_all add: s1_def)
  moreover have "bt_rep (free_node m s1) (Some (t_remove x t))"
    using t1 wf lc r rb dom_remove_nodes [of p "nodes s" v g] pv leaves_t_remove [OF r(6) x nl]
    by (auto simp: bt_rep_def free_node_def s1_def leaf_blocks_def)
  moreover have "same_rest s (free_node m s1)" by (simp add: same_rest_def s1_def free_node_def)
  ultimately show ?thesis by blast
qed

lemma remove_rep:
  assumes rep: "bt_rep s T" and ab: "(a, b) \<in> set (content T)"
  shows "\<exists>s' T'. bt_remove b s = Some s' \<and> bt_rep s' T' \<and>
    set (content T') = set (content T) - {(a, b)} \<and> same_rest s s'"
proof -
  obtain t where t: "T = Some t" using ab by (cases T) auto
  obtain blk where blk: "blocks s b = Some blk" "b_ptr blk = a" using content_block [OF rep ab] by blast
  have a: "a \<in> addrs t" using ab t by (auto dest: leaf_addrs)
  show ?thesis
  proof (cases "is_lf a t")
    case True
    then obtain l c where lf: "t = Lf l a c" by (cases t) auto
    then obtain s' where "bt_remove b s = Some s'" "bt_rep s' None" "same_rest s s'"
      using remove_root [of s l a c b blk] rep blk t by blast
    then show ?thesis using ab lf t by (intro exI [of _ s'] exI [of _ None]) simp
  next
    case False
    have wf: "wf_trie t" using rep t by (auto elim: bt_rep_SomeE)
    have "(a, b) \<in> set (leaves t)" using ab t by simp
    then have u: "c = b" if "(a, c) \<in> set (leaves t)" for c
      using leaf_unique [OF wf that] by metis
    have "{p \<in> set (leaves t). fst p \<noteq> a} = set (leaves t) - {(a, b)}" by (auto dest: u)
    then have "set (leaves (t_remove a t)) = set (leaves t) - {(a, b)}"
      using leaves_t_remove [OF wf a False] by simp
    moreover obtain s' where "bt_remove b s = Some s'" "bt_rep s' (Some (t_remove a t))" "same_rest s s'"
      using remove_rep_Some [OF _ blk a False] rep t by blast
    ultimately show ?thesis using t by (intro exI [of _ s'] exI [of _ "Some (t_remove a t)"]) simp
  qed
qed

section \<open>Cleaning\<close>

definition cleaned :: "btree \<Rightarrow> 'a bt_state_scheme \<Rightarrow> 'a bt_state_scheme" where
  "cleaned t s = s\<lparr>nodes := nodes s |` (- set (locs t)), blocks := blocks s |` (- snd ` set (leaves t))\<rparr>"

lemma restrict_twice: "(m |` (- A)) |` (- B) = m |` (- (A \<union> B))"
  by (simp add: restrict_map_def fun_eq_iff)

lemma clean_rec_tree:
  assumes "tree_at (nodes s) par t" and "distinct (locs t)" and "NULL \<notin> set (locs t)"
    and "distinct (map snd (leaves t))" and "snd ` set (leaves t) \<subseteq> dom (blocks s) - {NULL}"
  shows "bt_clean_rec (rt t) s = Some (cleaned t s)"
  using assms
proof (induction t arbitrary: par s)
  case (Lf l a b)
  then show ?case
    by (subst bt_clean_rec.simps)
      (auto simp: cleaned_def bt_clean_block_def bt_clean_block_init_def upd_node_def free_node_def
        restrict_map_def fun_eq_iff intro!: bt_state.equality)
next
  case (Br l a k t1 t2)
  note p = Br.prems
  have c1: "bt_clean_rec (rt t1) s = Some (cleaned t1 s)"
    using p by (intro Br.IH(1) [of s l]) auto
  have "tree_at (nodes (cleaned t1 s)) l t2 = tree_at (nodes s) l t2"
    using p(2) by (intro tree_at_cong) (auto simp: cleaned_def restrict_map_def)
  then have c2: "bt_clean_rec (rt t2) (cleaned t1 s) = Some (cleaned t2 (cleaned t1 s))"
    using p by (intro Br.IH(2) [of _ l]) (auto simp: cleaned_def)
  have l: "nodes (cleaned t2 (cleaned t1 s)) l = Some (node_of par (Br l a k t1 t2))"
    using p(1,2) by (simp add: cleaned_def restrict_map_def)
  have "free_node l ((cleaned t2 (cleaned t1 s))\<lparr>nodes := (nodes (cleaned t2 (cleaned t1 s)))(l \<mapsto> n)\<rparr>)
      = cleaned (Br l a k t1 t2) s" for n
    by (auto simp: cleaned_def free_node_def restrict_twice restrict_map_def fun_eq_iff image_Un
        intro!: bt_state.equality)
  then show ?case
    using p(1,3) c1 c2 l by (subst bt_clean_rec.simps) (simp add: upd_node_def)
qed

lemma leaf_blocks_distinct:
  assumes "leaf_blocks bs t" and "wf_trie t"
  shows "distinct (map snd (leaves t))"
proof -
  have "a = a'" if "(a, b) \<in> set (leaves t)" "(a', b) \<in> set (leaves t)" for a a' b
    using leaf_blocksD [OF assms(1) that(1)] leaf_blocksD [OF assms(1) that(2)] by auto
  then have "inj_on snd (set (leaves t))" unfolding inj_on_def by (metis prod.collapse)
  moreover have "distinct (leaves t)" using distinct_leaves [OF assms(2)] by (simp add: distinct_map)
  ultimately show ?thesis by (simp add: distinct_map)
qed

lemma clean_rep:
  assumes rep: "bt_rep s T"
  shows "\<exists>s'. bt_clean s = Some s' \<and> bt_rep s' None \<and> blocks s' = blocks s |` (- tracked T)"
proof (cases T)
  case None
  then have "bt_root s = NULL" using rep by (simp add: bt_rep_def)
  then have "bt_clean s = Some (s\<lparr>bt_root := NULL\<rparr>)"
    by (simp add: bt_clean_def bt_clean_rec.simps)
  then show ?thesis using rep None by (simp add: bt_rep_def tracked_def restrict_map_def)
next
  case (Some t)
  from rep [unfolded Some] obtain r: "bt_root s = rt t" "tree_at (nodes s) NULL t" "distinct (locs t)"
    "NULL \<notin> set (locs t)" "dom (nodes s) = set (locs t)" "wf_trie t"
    and rb: "leaf_blocks (blocks s) t" "finite (dom (blocks s))" "NULL \<notin> dom (blocks s)"
    by (rule bt_rep_SomeE)
  have "snd ` set (leaves t) \<subseteq> dom (blocks s) - {NULL}"
    using leaf_blocksD [OF rb(1)] rb(3) by fastforce
  then have "bt_clean s = Some ((cleaned t s)\<lparr>bt_root := NULL\<rparr>)"
    using clean_rec_tree [OF r(2,3,4) leaf_blocks_distinct [OF rb(1) r(6)]] r(1) by (simp add: bt_clean_def)
  moreover have "nodes (cleaned t s) = Map.empty"
    using r(5) by (auto simp: cleaned_def restrict_map_def fun_eq_iff domIff)
  ultimately show ?thesis
    using rb(2,3) Some by (auto simp: bt_rep_def cleaned_def tracked_def)
qed

end
