(* ===== verification/Block_Index.thy ===== *)
theory Block_Index
  imports Prelude
begin

text \<open>
  What the memory model of E-ACSL asks of its block store, as an interface: a store of
  type \<open>'s\<close> represents a finite map from base addresses to blocks; \<open>ix_lookup\<close> answers
  exact queries, \<open>ix_insert\<close> and \<open>ix_remove\<close> update the map, and the operations return
  (\<open>Some\<close>) on every represented store. \<open>block_search\<close> adds the search for the block that
  contains an address. The clients' facts are proved here once; the bittree provides the
  interface in \<^verbatim>\<open>Bittree_Index\<close>.
\<close>

datatype 'l ix_op = Ins 'l | Del 'l

fun ix_map_op :: "('l \<Rightarrow> u64) \<Rightarrow> 'l ix_op \<Rightarrow> (u64 \<rightharpoonup> 'l) \<Rightarrow> (u64 \<rightharpoonup> 'l)" where
  "ix_map_op base (Ins b) M = M(base b \<mapsto> b)"
| "ix_map_op base (Del b) M = M(base b := None)"

text \<open>When an operation is a legal call: a new base address, or a block that is stored.\<close>

fun ix_legal :: "('l \<Rightarrow> u64) \<Rightarrow> 'l set \<Rightarrow> 'l ix_op list \<Rightarrow> (u64 \<rightharpoonup> 'l) \<Rightarrow> bool" where
  "ix_legal base B [] M = True"
| "ix_legal base B (Ins b # os) M =
     (b \<in> B \<and> M (base b) = None \<and> ix_legal base B os (M(base b \<mapsto> b)))"
| "ix_legal base B (Del b # os) M =
     (b \<in> B \<and> M (base b) = Some b \<and> ix_legal base B os (M(base b := None)))"

text \<open>A sequence of updates, given the two update operations.\<close>

fun ix_run :: "('l \<Rightarrow> 's \<Rightarrow> 's option) \<Rightarrow> ('l \<Rightarrow> 's \<Rightarrow> 's option) \<Rightarrow> 'l ix_op list \<Rightarrow> 's \<Rightarrow> 's option" where
  "ix_run ins del [] s = Some s"
| "ix_run ins del (Ins b # os) s = Option.bind (ins b s) (ix_run ins del os)"
| "ix_run ins del (Del b # os) s = Option.bind (del b s) (ix_run ins del os)"

locale block_index =
  fixes ix_rep :: "'s \<Rightarrow> (u64 \<rightharpoonup> 'l) \<Rightarrow> bool"
    and ix_base :: "'s \<Rightarrow> 'l \<rightharpoonup> u64"
    and ix_null :: 'l
    and ix_alloc_ok :: "'p \<Rightarrow> bool"
    and ix_lookup :: "'s \<Rightarrow> u64 \<Rightarrow> 'l option"
    and ix_insert :: "'p \<Rightarrow> 'l \<Rightarrow> 's \<Rightarrow> 's option"
    and ix_remove :: "'l \<Rightarrow> 's \<Rightarrow> 's option"
  assumes rep_base: "ix_rep s M \<Longrightarrow> M x = Some b \<Longrightarrow> ix_base s b = Some x \<and> b \<noteq> ix_null"
    and lookup_rep: "ix_rep s M \<Longrightarrow> M \<noteq> Map.empty \<Longrightarrow>
      ix_lookup s x = Some (case M x of None \<Rightarrow> ix_null | Some b \<Rightarrow> b)"
    and insert_rep: "ix_alloc_ok pm \<Longrightarrow> ix_rep s M \<Longrightarrow> ix_base s b = Some x \<Longrightarrow> M x = None \<Longrightarrow>
      \<exists>s'. ix_insert pm b s = Some s' \<and> ix_rep s' (M(x \<mapsto> b)) \<and> ix_base s' = ix_base s"
    and remove_rep: "ix_rep s M \<Longrightarrow> M x = Some b \<Longrightarrow>
      \<exists>s'. ix_remove b s = Some s' \<and> ix_rep s' (M(x := None)) \<and> ix_base s' = ix_base s"
begin

lemma lookup_after_insert:
  assumes "ix_alloc_ok pm" and "ix_rep s M" and "ix_base s b = Some x" and "M x = None"
  shows "\<exists>s'. ix_insert pm b s = Some s' \<and> ix_lookup s' x = Some b \<and>
    (\<forall>y. y \<noteq> x \<longrightarrow> M \<noteq> Map.empty \<longrightarrow> ix_lookup s' y = ix_lookup s y)"
proof -
  obtain s' where s': "ix_insert pm b s = Some s'" "ix_rep s' (M(x \<mapsto> b))"
    using insert_rep [OF assms] by blast
  have "ix_lookup s' y = Some (case (M(x \<mapsto> b)) y of None \<Rightarrow> ix_null | Some b \<Rightarrow> b)" for y
    using s'(2) by (rule lookup_rep) simp
  then show ?thesis using s'(1) lookup_rep [OF assms(2)] by simp
qed

lemma lookup_after_remove:
  assumes "ix_rep s M" and "M x = Some b" and "M y = Some c" and "y \<noteq> x"
  shows "\<exists>s'. ix_remove b s = Some s' \<and> ix_lookup s' x = Some ix_null \<and> ix_lookup s' y = Some c"
proof -
  obtain s' where s': "ix_remove b s = Some s'" "ix_rep s' (M(x := None))"
    using remove_rep [OF assms(1,2)] by blast
  have "M(x := None) \<noteq> Map.empty" using assms(3,4) by (auto dest: fun_cong [of _ _ y])
  then show ?thesis using s' lookup_rep [OF s'(2)] assms(3,4) by auto
qed

lemma insert_remove_roundtrip:
  assumes "ix_alloc_ok pm" and "ix_rep s M" and "ix_base s b = Some x" and "M x = None"
  shows "\<exists>s' s''. ix_insert pm b s = Some s' \<and> ix_remove b s' = Some s'' \<and> ix_rep s'' M"
proof -
  obtain s' where s': "ix_insert pm b s = Some s'" "ix_rep s' (M(x \<mapsto> b))"
    using insert_rep [OF assms] by blast
  moreover obtain s'' where "ix_remove b s' = Some s''" "ix_rep s'' ((M(x \<mapsto> b))(x := None))"
    using remove_rep [OF s'(2), of x b] by auto
  moreover have "(M(x \<mapsto> b))(x := None) = M" using assms(4) by auto
  ultimately show ?thesis by auto
qed

text \<open>Any legal sequence of updates returns, and the store represents the updated map.\<close>

lemma run_refines:
  assumes "ix_alloc_ok pm" and "ix_rep s M" and "ix_legal base B os M"
    and "\<And>b. b \<in> B \<Longrightarrow> ix_base s b = Some (base b)"
  shows "\<exists>s'. ix_run (ix_insert pm) ix_remove os s = Some s' \<and> ix_rep s' (fold (ix_map_op base) os M)"
  using assms(2-4)
proof (induction os arbitrary: s M)
  case (Cons op os)
  show ?case
  proof (cases op)
    case (Ins b)
    then obtain s' where s': "ix_insert pm b s = Some s'" "ix_rep s' (M(base b \<mapsto> b))" "ix_base s' = ix_base s"
      using insert_rep [OF assms(1) Cons.prems(1), of b "base b"] Cons.prems by auto
    moreover have "ix_legal base B os (M(base b \<mapsto> b))" using Cons.prems(2) Ins by simp
    ultimately show ?thesis using Cons.IH [OF s'(2)] Cons.prems(3) Ins by fastforce
  next
    case (Del b)
    then obtain s' where s': "ix_remove b s = Some s'" "ix_rep s' (M(base b := None))" "ix_base s' = ix_base s"
      using remove_rep [OF Cons.prems(1), of "base b" b] Cons.prems by auto
    moreover have "ix_legal base B os (M(base b := None))" using Cons.prems(2) Del by simp
    ultimately show ?thesis using Cons.IH [OF s'(2)] Cons.prems(3) Del by fastforce
  qed
qed simp

end

locale block_search = block_index ix_rep ix_base ix_null ix_alloc_ok ix_lookup ix_insert ix_remove
  for ix_rep :: "'s \<Rightarrow> (u64 \<rightharpoonup> 'l) \<Rightarrow> bool"
    and ix_base :: "'s \<Rightarrow> 'l \<rightharpoonup> u64"
    and ix_null :: 'l
    and ix_alloc_ok :: "'p \<Rightarrow> bool"
    and ix_lookup :: "'s \<Rightarrow> u64 \<Rightarrow> 'l option"
    and ix_insert :: "'p \<Rightarrow> 'l \<Rightarrow> 's \<Rightarrow> 's option"
    and ix_remove :: "'l \<Rightarrow> 's \<Rightarrow> 's option" +
  fixes ix_apart :: "'s \<Rightarrow> (u64 \<rightharpoonup> 'l) \<Rightarrow> bool"
    and ix_covers :: "'s \<Rightarrow> 'l \<Rightarrow> u64 \<Rightarrow> bool"
    and ix_find :: "'s \<Rightarrow> u64 \<Rightarrow> 'l option"
  assumes find_rep: "ix_rep s M \<Longrightarrow> ix_apart s M \<Longrightarrow> x \<noteq> 0 \<Longrightarrow>
      (\<exists>r. ix_find s x = Some r) \<and>
      (ix_find s x = Some b \<and> b \<noteq> ix_null \<longleftrightarrow> b \<in> ran M \<and> ix_covers s b x)"
begin

lemma find_covers:
  assumes "ix_rep s M" and "ix_apart s M" and "x \<noteq> 0" and "b \<in> ran M" and "ix_covers s b x"
  shows "ix_find s x = Some b"
  using find_rep [OF assms(1-3), of b] assms(4,5) by blast

lemma find_nothing:
  assumes "ix_rep s M" and "ix_apart s M" and "x \<noteq> 0" and "\<And>b. b \<in> ran M \<Longrightarrow> \<not> ix_covers s b x"
  shows "ix_find s x = Some ix_null"
proof -
  obtain r where "ix_find s x = Some r" using find_rep [OF assms(1-3)] by blast
  then show ?thesis using find_rep [OF assms(1-3), of r] assms(4) [of r] by auto
qed

lemma find_after_insert:
  assumes "ix_alloc_ok pm" and "ix_rep s M" and "ix_base s b = Some x" and "M x = None"
    and "y \<noteq> 0" and "\<And>s'. ix_base s' = ix_base s \<Longrightarrow> ix_insert pm b s = Some s' \<Longrightarrow>
      ix_apart s' (M(x \<mapsto> b)) \<and> ix_covers s' b y"
  shows "\<exists>s'. ix_insert pm b s = Some s' \<and> ix_find s' y = Some b"
proof -
  obtain s' where s': "ix_insert pm b s = Some s'" "ix_rep s' (M(x \<mapsto> b))" "ix_base s' = ix_base s"
    using insert_rep [OF assms(1-4)] by blast
  have "b \<in> ran (M(x \<mapsto> b))" by (rule ranI [of _ x]) simp
  then show ?thesis using find_covers [OF s'(2) _ assms(5)] assms(6) [OF s'(3,1)] s'(1) by blast
qed

end

end
