(* ===== verification/Bittree_Index.thy ===== *)
theory Bittree_Index
  imports Bittree_Remove Block_Index
begin

text \<open>
  The bittree provides the block-index interface: the store represents the map from base
  addresses to blocks read off the leaves of its trie.
\<close>

definition bt_index :: "'a bt_state_scheme \<Rightarrow> (u64 \<rightharpoonup> loc) \<Rightarrow> bool" where
  "bt_index s M \<longleftrightarrow> (\<exists>T. bt_rep s T \<and> M = map_of (content T))"

definition bt_base :: "'a bt_state_scheme \<Rightarrow> loc \<rightharpoonup> u64" where
  "bt_base s b = map_option b_ptr (blocks s b)"

definition bt_apart :: "'a bt_state_scheme \<Rightarrow> (u64 \<rightharpoonup> loc) \<Rightarrow> bool" where
  "bt_apart s M = blocks_apart (blocks s) (ran M)"

definition bt_covers :: "'a bt_state_scheme \<Rightarrow> loc \<Rightarrow> u64 \<Rightarrow> bool" where
  "bt_covers s b x \<longleftrightarrow> (\<exists>blk. blocks s b = Some blk \<and> block_has blk x)"

lemma content_distinct: "bt_rep s T \<Longrightarrow> distinct (map fst (content T))"
  using sorted_content strict_sorted_iff by blast

lemma content_map: "bt_rep s T \<Longrightarrow> map_of (content T) x = Some b \<longleftrightarrow> (x, b) \<in> set (content T)"
  by (rule map_of_eq_Some_iff [OF content_distinct])

lemma content_map_None: "map_of (content T) x = None \<longleftrightarrow> x \<notin> fst ` set (content T)"
  by (simp add: map_of_eq_None_iff)

lemma ran_content: "bt_rep s T \<Longrightarrow> ran (map_of (content T)) = tracked T"
  using ran_distinct [OF content_distinct] by (simp add: tracked_def)

lemma content_map_eq:
  assumes "bt_rep s T" and "bt_rep s' T'"
    and "\<And>y c. (y, c) \<in> set (content T') \<longleftrightarrow> M y = Some c"
  shows "map_of (content T') = M"
proof
  fix y
  show "map_of (content T') y = M y"
    using content_map [OF assms(2), of y] assms(3) [of y] by (cases "M y"; cases "map_of (content T') y") auto
qed

lemma same_restD: "same_rest s s' \<Longrightarrow> blocks s' = blocks s"
  by (metis bt_state.select_convs(2) bt_state.surjective bt_state.update_convs(1,3) same_rest_def)

lemma index_insert:
  assumes T: "bt_rep s T" "M = map_of (content T)"
    and pm: "fresh_alloc pm" and b: "bt_base s b = Some x" and new: "M x = None"
  shows "\<exists>s'. bt_insert pm b s = Some s' \<and> bt_index s' (M(x \<mapsto> b)) \<and> same_rest s s'"
proof -
  obtain blk where blk: "blocks s b = Some blk" "b_ptr blk = x" using b by (auto simp: bt_base_def)
  have "b_ptr blk \<notin> fst ` set (content T)" using new T(2) blk(2) content_map_None by blast
  then obtain s' T' where s': "bt_insert pm b s = Some s'" "bt_rep s' T'"
    "set (content T') = insert (x, b) (set (content T))" "same_rest s s'"
    using insert_rep [OF T(1) pm blk(1)] blk(2) by blast
  have "map_of (content T') = M(x \<mapsto> b)"
    using new T(2) by (intro content_map_eq [OF T(1) s'(2)]) (auto simp: s'(3) content_map [OF T(1), symmetric])
  then have "bt_index s' (M(x \<mapsto> b))" unfolding bt_index_def using s'(2) by metis
  then show ?thesis using s'(1,4) by blast
qed

lemma index_remove:
  assumes T: "bt_rep s T" "M = map_of (content T)" and b: "M x = Some b"
  shows "\<exists>s'. bt_remove b s = Some s' \<and> bt_index s' (M(x := None)) \<and> same_rest s s'"
proof -
  have "(x, b) \<in> set (content T)" using b T(2) content_map [OF T(1)] by simp
  then obtain s' T' where s': "bt_remove b s = Some s'" "bt_rep s' T'"
    "set (content T') = set (content T) - {(x, b)}" "same_rest s s'"
    using remove_rep [OF T(1)] by blast
  have "map_of (content T') = M(x := None)"
    using b T(2) by (intro content_map_eq [OF T(1) s'(2)]) (auto simp: s'(3) content_map [OF T(1), symmetric])
  then have "bt_index s' (M(x := None))" unfolding bt_index_def using s'(2) by metis
  then show ?thesis using s'(1,4) by blast
qed

lemma bt_base_cong: "blocks s' = blocks s \<Longrightarrow> bt_base s' = bt_base s"
  by (simp add: bt_base_def fun_eq_iff)

interpretation bix: block_search bt_index bt_base NULL fresh_alloc bt_lookup bt_insert bt_remove
  bt_apart bt_covers bt_find
proof
  fix s :: "'a bt_state_scheme" and M x b
  assume "bt_index s M"
  then obtain T where T: "bt_rep s T" "M = map_of (content T)" by (auto simp: bt_index_def)
  show "bt_base s b = Some x \<and> b \<noteq> NULL" if "M x = Some b"
    using that T content_map [OF T(1)] content_block [OF T(1)] content_NULL [OF T(1)]
    by (fastforce simp: bt_base_def)
  show "bt_lookup s x = Some (case M x of None \<Rightarrow> NULL | Some b \<Rightarrow> b)" if "M \<noteq> Map.empty"
    using T that lookup_rep [of s _ x] by (cases T) auto
  show "\<exists>s'. bt_insert pm b s = Some s' \<and> bt_index s' (M(x \<mapsto> b)) \<and> bt_base s' = bt_base s"
    if "fresh_alloc pm" "bt_base s b = Some x" "M x = None" for pm
    using index_insert [OF T that] bt_base_cong same_restD by metis
  show "\<exists>s'. bt_remove b s = Some s' \<and> bt_index s' (M(x := None)) \<and> bt_base s' = bt_base s"
    if "M x = Some b"
    using index_remove [OF T that] bt_base_cong same_restD by metis
  show "(\<exists>r. bt_find s x = Some r) \<and>
      (bt_find s x = Some b \<and> b \<noteq> NULL \<longleftrightarrow> b \<in> ran M \<and> bt_covers s b x)"
    if "bt_apart s M" "x \<noteq> 0"
    using find_block [OF T(1) _ that(2)] that T ran_content [OF T(1)] by (simp add: bt_apart_def bt_covers_def)
qed

section \<open>Properties\<close>

text \<open>An allocator that satisfies \<open>fresh_alloc\<close>, and small stores, for the witnesses.\<close>

definition next_loc :: "loc set \<Rightarrow> loc" where
  "next_loc A = Suc (Max (insert 0 A))"

lemma fresh_next_loc: "fresh_alloc next_loc"
proof -
  have "next_loc A \<notin> A" if "finite A" for A
  proof
    assume "next_loc A \<in> A"
    then have "next_loc A \<le> Max (insert 0 A)" using that by (intro Max_ge) auto
    then show False by (simp add: next_loc_def)
  qed
  then show ?thesis by (simp add: fresh_alloc_def next_loc_def)
qed

definition ex_block :: "u64 \<Rightarrow> u64 \<Rightarrow> bt_block" where
  "ex_block p n = \<lparr>b_ptr = p, b_size = n, b_init_ptr = None, b_init_bytes = 0,
     b_is_readonly = False, b_is_freeable = True\<rparr>"

definition ex_empty :: bt_state where
  "ex_empty = \<lparr>nodes = Map.empty, blocks = [1 \<mapsto> ex_block 16 8, 2 \<mapsto> ex_block 64 32], bt_root = NULL\<rparr>"

definition ex_one :: bt_state where
  "ex_one = ex_empty\<lparr>nodes := [7 \<mapsto> node_of NULL (Lf 7 16 1)], bt_root := 7\<rparr>"

lemma ex_empty_index: "bt_index ex_empty Map.empty"
  unfolding bt_index_def by (intro exI [of _ None]) (simp add: bt_rep_def ex_empty_def)

lemma ex_one_index: "bt_index ex_one [16 \<mapsto> 1]"
  unfolding bt_index_def
  by (intro exI [of _ "Some (Lf 7 16 1)"])
    (simp add: bt_rep_def ex_one_def ex_empty_def leaf_blocks_def ex_block_def)

lemma ex_base [simp]: "bt_base ex_one 1 = Some 16" "bt_base ex_one 2 = Some 64"
  "bt_base ex_empty 1 = Some 16" "bt_base ex_empty 2 = Some 64"
  by (simp_all add: bt_base_def ex_one_def ex_empty_def ex_block_def)

text \<open>
  C1: on a store that represents the map \<open>M\<close> (its nodes form a well-formed Patricia trie
  whose leaves are the entries of \<open>M\<close>), \<^verbatim>\<open>bt_insert\<close> of a block with a new base address
  returns; the resulting store is again a well-formed trie, it represents \<open>M\<close> extended by
  the new entry, and no block has changed.
\<close>

theorem bt_insert_correct:
  assumes "fresh_alloc pm" and "bt_index s M" and "bt_base s b = Some x" and "M x = None"
  shows "\<exists>s'. bt_insert pm b s = Some s' \<and> bt_index s' (M(x \<mapsto> b)) \<and> blocks s' = blocks s"
proof -
  obtain T where T: "bt_rep s T" "M = map_of (content T)" using assms(2) by (auto simp: bt_index_def)
  show ?thesis using index_insert [OF T assms(1,3,4)] same_restD by blast
qed

theorem bt_insert_correct_witness:
  "\<exists>s'. bt_insert next_loc 2 ex_one = Some s' \<and> bt_index s' [16 \<mapsto> 1, 64 \<mapsto> 2] \<and> blocks s' = blocks ex_one"
  using bt_insert_correct [OF fresh_next_loc ex_one_index, of 2 64] by simp

text \<open>
  C2: on a store that represents \<open>M\<close>, \<^verbatim>\<open>bt_remove\<close> of a stored block returns; the leaf and
  its parent node are freed, the resulting store is a well-formed trie that represents \<open>M\<close>
  without the entry, and no block has changed.
\<close>

theorem bt_remove_correct:
  assumes "bt_index s M" and "M x = Some b"
  shows "\<exists>s'. bt_remove b s = Some s' \<and> bt_index s' (M(x := None)) \<and> blocks s' = blocks s"
proof -
  obtain T where T: "bt_rep s T" "M = map_of (content T)" using assms(1) by (auto simp: bt_index_def)
  show ?thesis using index_remove [OF T assms(2)] same_restD by blast
qed

theorem bt_remove_correct_witness:
  "\<exists>s'. bt_remove 1 ex_one = Some s' \<and> bt_index s' Map.empty \<and> blocks s' = blocks ex_one"
proof -
  have "[16 \<mapsto> 1](16 := None) = (Map.empty :: u64 \<rightharpoonup> loc)" by auto
  then show ?thesis using bt_remove_correct [OF ex_one_index, of 16 1] by simp
qed

lemma lookup_empty:
  assumes "bt_index s Map.empty"
  shows "bt_lookup s x = None"
proof -
  obtain T where T: "bt_rep s T" "map_of (content T) = Map.empty" using assms by (auto simp: bt_index_def)
  have "T = None" using T(2) by (cases T) auto
  then have "nodes s = Map.empty" using T(1) by (simp add: bt_rep_def)
  then show ?thesis by (simp add: bt_lookup_def lookup_loop.simps)
qed

text \<open>
  C4: \<^verbatim>\<open>bt_lookup\<close> on a well-formed trie, in full. On a non-empty trie it returns the block whose base address is the
  argument, and \<^verbatim>\<open>NULL\<close> when there is none (so the clause \<^verbatim>\<open>ensures \valid(\result)\<close> of its annotation does not
  hold). On the empty trie it dereferences the null root.
\<close>

theorem bt_lookup_correct:
  assumes "bt_index s M"
  shows "bt_lookup s x = (if M = Map.empty then None else Some (case M x of None \<Rightarrow> NULL | Some b \<Rightarrow> b))"
  using assms bix.lookup_rep lookup_empty by (cases "M = Map.empty") auto

theorem bt_lookup_correct_witness:
  "bt_lookup ex_one 16 = Some 1 \<and> bt_lookup ex_one 17 = Some NULL \<and> bt_lookup ex_empty 16 = None"
  using bt_lookup_correct [OF ex_one_index, of 16] bt_lookup_correct [OF ex_one_index, of 17]
    bt_lookup_correct [OF ex_empty_index, of 16] by simp

text \<open>
  C3: on a store whose blocks are pairwise disjoint and do not wrap around the address
  space, \<^verbatim>\<open>bt_find\<close> of a non-null address returns the stored block that contains it, and
  \<^verbatim>\<open>NULL\<close> exactly when no stored block does.
\<close>

theorem bt_find_correct:
  assumes "bt_index s M" and "bt_apart s M" and "x \<noteq> 0"
  shows "(\<exists>r. bt_find s x = Some r) \<and>
    (bt_find s x = Some b \<and> b \<noteq> NULL \<longleftrightarrow>
       b \<in> ran M \<and> (\<exists>blk. blocks s b = Some blk \<and> block_has blk x))"
  using bix.find_rep [OF assms, of b] by (simp add: bt_covers_def)

theorem bt_find_correct_witness: "bt_find ex_one 20 = Some 1 \<and> bt_find ex_one 24 = Some NULL"
proof -
  have r: "ran [16 \<mapsto> 1] = {1 :: loc}" by auto
  have ap: "bt_apart ex_one [16 \<mapsto> 1]"
    by (simp add: bt_apart_def blocks_apart_def r ex_one_def ex_empty_def ex_block_def no_wrap_def)
  have b: "blocks ex_one 1 = Some (ex_block 16 8)" "block_has (ex_block 16 8) 20" "\<not> block_has (ex_block 16 8) 24"
    by (simp_all add: ex_one_def ex_empty_def ex_block_def block_has_def)
  have "bt_find ex_one 20 = Some 1"
    using bt_find_correct [OF ex_one_index ap, of 20 1] b r by simp
  moreover obtain c where "bt_find ex_one 24 = Some c"
    using bt_find_correct [OF ex_one_index ap, of 24] by auto
  ultimately show ?thesis
    using bt_find_correct [OF ex_one_index ap, of 24 c] b r by (cases "c = NULL") auto
qed

text \<open>
  C5: from any represented store, a sequence of insertions of blocks with new base addresses
  and removals of stored blocks, in any order, runs to its end; the final store represents
  the map that the same sequence of map updates gives.
\<close>

theorem bt_history_refines:
  assumes "fresh_alloc pm" and "bt_index s M" and "ix_legal base B os M"
    and "\<And>b. b \<in> B \<Longrightarrow> bt_base s b = Some (base b)"
  shows "\<exists>s'. ix_run (bt_insert pm) bt_remove os s = Some s' \<and> bt_index s' (fold (ix_map_op base) os M)"
  using assms by (rule bix.run_refines)

theorem bt_history_refines_witness:
  "\<exists>s'. ix_run (bt_insert next_loc) bt_remove [Ins 1, Ins 2, Del 1, Ins 1] ex_empty = Some s' \<and>
    bt_index s' (fold (ix_map_op (\<lambda>b. if b = 1 then 16 else 64)) [Ins 1, Ins 2, Del 1, Ins 1] Map.empty)"
  by (rule bt_history_refines [OF fresh_next_loc ex_empty_index, where B = "{1, 2}"])
    (auto simp: ex_base [simplified])

text \<open>
  \<^verbatim>\<open>bt_clean\<close> of a represented store returns with an empty trie, every node freed and
  exactly the stored blocks freed.
\<close>

theorem bt_clean_correct:
  assumes "bt_index s M"
  shows "\<exists>s'. bt_clean s = Some s' \<and> bt_root s' = NULL \<and> nodes s' = Map.empty \<and>
    blocks s' = blocks s |` (- ran M)"
proof -
  obtain T where T: "bt_rep s T" "M = map_of (content T)" using assms by (auto simp: bt_index_def)
  then show ?thesis using clean_rep [OF T(1)] ran_content [OF T(1)] by (auto simp: bt_rep_def)
qed

theorem bt_clean_correct_witness:
  "\<exists>s'. bt_clean ex_one = Some s' \<and> bt_root s' = NULL \<and> nodes s' = Map.empty \<and>
    blocks s' = blocks ex_one |` (- ran [16 :: u64 \<mapsto> 1])"
  by (rule bt_clean_correct [OF ex_one_index])

end
