(* ===== verification/Bits.thy ===== *)
theory Bits
  imports Prelude
begin

text \<open>
  \<^verbatim>\<open>share/e-acsl/e_acsl_bits.h\<close>: the bit macros and the routines that set, clear and
  check runs of bits in memory, 64 bits at a time. The macros assign to their argument; a
  definition here returns the new value. A shift of a 64-bit value by 64 is undefined in C;
  every caller passes a count below 64.

  The run routines are specified over the bit view of memory, \<open>mbit m p n\<close> (bit \<open>n\<close>
  counted from address \<open>p\<close>, least significant bit of a byte first) and its mirror image
  \<open>rbit m p n\<close> (bit \<open>n\<close> counted leftwards from \<open>p\<close>).
\<close>

section \<open>Macros\<close>

definition ONE :: u64 where
  "ONE = 0xFFFFFFFFFFFFFFFF"

definition ZERO :: u64 where
  "ZERO = NOT ONE"

definition setbit :: "nat \<Rightarrow> 'a::len word \<Rightarrow> 'a word" where
  "setbit b number = number OR push_bit b 1"

definition clearbit :: "nat \<Rightarrow> 'a::len word \<Rightarrow> 'a word" where
  "clearbit b number = number AND NOT (push_bit b 1)"

definition checkbit :: "nat \<Rightarrow> 'a::len word \<Rightarrow> bool" where
  "checkbit b number = (drop_bit b number AND 1 \<noteq> 0)"

definition togglebit :: "nat \<Rightarrow> 'a::len word \<Rightarrow> 'a word" where
  "togglebit b number = number XOR push_bit b 1"

definition changebit :: "nat \<Rightarrow> 'a::len word \<Rightarrow> 'a word \<Rightarrow> 'a word" where
  "changebit b v number = number XOR ((- v XOR number) AND push_bit b 1)"

definition setbits64 :: "nat \<Rightarrow> u64 \<Rightarrow> u64" where
  "setbits64 bits number = number OR NOT (push_bit bits ONE)"

definition setbits64_skip :: "nat \<Rightarrow> u64 \<Rightarrow> nat \<Rightarrow> u64" where
  "setbits64_skip bits number skip = number OR push_bit skip (NOT (push_bit bits ONE))"

definition checkbits64 :: "nat \<Rightarrow> u64 \<Rightarrow> bool" where
  "checkbits64 bits number =
     (number AND NOT (push_bit bits ONE) = NOT (push_bit bits ONE))"

definition checkbits64_skip :: "nat \<Rightarrow> u64 \<Rightarrow> nat \<Rightarrow> bool" where
  "checkbits64_skip bits number skip =
     (number AND push_bit skip (NOT (push_bit bits ONE)) =
        push_bit skip (NOT (push_bit bits ONE)))"

definition clearbits64 :: "nat \<Rightarrow> u64 \<Rightarrow> u64" where
  "clearbits64 bits number = number AND push_bit bits ONE"

definition setbits64_right :: "nat \<Rightarrow> u64 \<Rightarrow> u64" where
  "setbits64_right bits number = number OR NOT (drop_bit bits ONE)"

definition clearbits64_right :: "nat \<Rightarrow> u64 \<Rightarrow> u64" where
  "clearbits64_right bits number = number AND drop_bit bits ONE"

section \<open>Runs of bits in memory\<close>

text \<open>
  \<open>upd64 f lp i m\<close> is the assignment \<^verbatim>\<open>*(lp+i) = f( *(lp+i))\<close> through an
  \<^verbatim>\<open>int64_t *\<close>; \<open>upd64_back\<close> is the same at \<^verbatim>\<open>*(lp-i)\<close>.
\<close>

definition upd64 :: "(u64 \<Rightarrow> u64) \<Rightarrow> u64 \<Rightarrow> nat \<Rightarrow> mem \<Rightarrow> mem" where
  "upd64 f lp i m = store64 m (lp + 8 * of_nat i) (f (load64 m (lp + 8 * of_nat i)))"

definition upd64_back :: "(u64 \<Rightarrow> u64) \<Rightarrow> u64 \<Rightarrow> nat \<Rightarrow> mem \<Rightarrow> mem" where
  "upd64_back f lp i m = store64 m (lp - 8 * of_nat i) (f (load64 m (lp - 8 * of_nat i)))"

definition setbits :: "u64 \<Rightarrow> u64 \<Rightarrow> mem \<Rightarrow> mem" where
  "setbits sz ptr m =
     (let q = unat (sz div 64);
          m' = fold (upd64 (\<lambda>x. x OR ONE) ptr) [0..<q] m
      in upd64 (setbits64 (unat (sz mod 64))) ptr q m')"

definition clearbits :: "u64 \<Rightarrow> u64 \<Rightarrow> mem \<Rightarrow> mem" where
  "clearbits sz ptr m =
     (let q = unat (sz div 64);
          m' = fold (upd64 (\<lambda>x. x AND ZERO) ptr) [0..<q] m
      in upd64 (clearbits64 (unat (sz mod 64))) ptr q m')"

definition checkbits :: "u64 \<Rightarrow> u64 \<Rightarrow> mem \<Rightarrow> bool" where
  "checkbits sz ptr m =
     (let q = unat (sz div 64)
      in if list_ex (\<lambda>i. load64 m (ptr + 8 * of_nat i) \<noteq> ONE) [0..<q] then False
         else checkbits64 (unat (sz mod 64)) (load64 m (ptr + 8 * of_nat q)))"

definition setbits_right :: "u64 \<Rightarrow> u64 \<Rightarrow> mem \<Rightarrow> mem" where
  "setbits_right sz ptr m =
     (let lp = ptr - 8; q = unat (sz div 64);
          m' = fold (upd64_back (\<lambda>x. x OR ONE) lp) [0..<q] m
      in upd64_back (setbits64_right (unat (sz mod 64))) lp q m')"

definition clearbits_right :: "u64 \<Rightarrow> u64 \<Rightarrow> mem \<Rightarrow> mem" where
  "clearbits_right sz ptr m =
     (let lp = ptr - 8; q = unat (sz div 64);
          m' = fold (upd64_back (\<lambda>x. x AND ZERO) lp) [0..<q] m
      in upd64_back (clearbits64_right (unat (sz mod 64))) lp q m')"

section \<open>The bit view of memory\<close>

definition mbit :: "mem \<Rightarrow> u64 \<Rightarrow> nat \<Rightarrow> bool" where
  "mbit m p n = bit (m (p + of_nat (n div 8))) (n mod 8)"

definition rbit :: "mem \<Rightarrow> u64 \<Rightarrow> nat \<Rightarrow> bool" where
  "rbit m p n = bit (m (p - 1 - of_nat (n div 8))) (7 - n mod 8)"

section \<open>Macro facts\<close>

lemma ONE_minus_1: "ONE = - 1"
  by (simp add: ONE_def)

lemma bit_ONE [simp]: "bit ONE n \<longleftrightarrow> n < 64"
  by (simp add: ONE_minus_1)

lemma ZERO_eq [simp]: "ZERO = 0"
  by (simp add: ZERO_def ONE_def)

lemma bit_setbit [simp]:
  "bit (setbit b x) n \<longleftrightarrow> bit x n \<or> n = b \<and> n < LENGTH('a)" for x :: "'a::len word"
  by (auto simp: setbit_def bit_or_iff bit_exp_iff possible_bit_def)

lemma bit_clearbit [simp]:
  "bit (clearbit b x) n \<longleftrightarrow> bit x n \<and> n \<noteq> b" for x :: "'a::len word"
  by (auto simp: clearbit_def bit_and_iff bit_not_iff bit_exp_iff
      dest: bit_imp_le_length)

lemma checkbit_iff [simp]: "checkbit b x \<longleftrightarrow> bit x b"
  by (simp add: checkbit_def and_one_eq bit_iff_odd_drop_bit odd_iff_mod_2_eq_one)

lemma bit_togglebit [simp]:
  "bit (togglebit b x) n \<longleftrightarrow> (if n = b \<and> n < LENGTH('a) then \<not> bit x n else bit x n)"
  for x :: "'a::len word"
  by (auto simp: togglebit_def bit_xor_iff bit_exp_iff possible_bit_def)

lemma bit_changebit [simp]:
  "bit (changebit b (of_bool v) x) n \<longleftrightarrow> (if n = b \<and> n < LENGTH('a) then v else bit x n)"
  for x :: "'a::len word"
  by (auto simp: changebit_def bit_xor_iff bit_and_iff bit_exp_iff
      dest: bit_imp_le_length)

lemma bit_setbits64 [simp]:
  "bit (setbits64 k x) n \<longleftrightarrow> bit x n \<or> n < k \<and> n < 64"
  by (auto simp: setbits64_def bit_or_iff bit_not_iff bit_push_bit_iff)

lemma bit_setbits64_skip [simp]:
  "bit (setbits64_skip k x s) n \<longleftrightarrow> bit x n \<or> s \<le> n \<and> n < s + k \<and> n < 64"
  by (auto simp: setbits64_skip_def bit_or_iff bit_not_iff bit_push_bit_iff)

lemma bit_clearbits64 [simp]:
  "bit (clearbits64 k x) n \<longleftrightarrow> bit x n \<and> k \<le> n"
  by (auto simp: clearbits64_def bit_and_iff bit_push_bit_iff dest: bit_imp_le_length)

lemma bit_setbits64_right [simp]:
  "k \<le> 64 \<Longrightarrow> bit (setbits64_right k x) n \<longleftrightarrow> bit x n \<or> 64 - k \<le> n \<and> n < 64"
  by (auto simp: setbits64_right_def bit_or_iff bit_not_iff bit_drop_bit_eq)

lemma bit_clearbits64_right [simp]:
  "k \<le> 64 \<Longrightarrow> bit (clearbits64_right k x) n \<longleftrightarrow> bit x n \<and> n < 64 - k"
  by (auto simp: clearbits64_right_def bit_and_iff bit_drop_bit_eq)

lemma and_eq_iff_bits:
  "(x AND y = y) \<longleftrightarrow> (\<forall>n < LENGTH('a). bit y n \<longrightarrow> bit x n)" for x y :: "'a::len word"
  by (auto simp: bit_eq_iff bit_and_iff)

lemma checkbits64_iff: "checkbits64 k x \<longleftrightarrow> (\<forall>n < min k 64. bit x n)"
  by (auto simp: checkbits64_def and_eq_iff_bits bit_not_iff bit_push_bit_iff)

lemma checkbits64_skip_iff:
  "checkbits64_skip k x s \<longleftrightarrow> (\<forall>n < 64. s \<le> n \<longrightarrow> n < s + k \<longrightarrow> bit x n)"
  by (auto simp: checkbits64_skip_def and_eq_iff_bits bit_not_iff bit_push_bit_iff)

section \<open>Run facts\<close>

lemma bit_load64_mbit:
  "bit (load64 m (p + 8 * of_nat i)) n \<longleftrightarrow> n < 64 \<and> mbit m p (64 * i + n)"
proof -
  have "64 * i + n = n + 8 * i * 8" by simp
  then have "(64 * i + n) div 8 = 8 * i + n div 8" "(64 * i + n) mod 8 = n mod 8"
    by (simp_all only: div_mult_self1 mod_mult_self1)
  then show ?thesis by (auto simp: mbit_def add.assoc)
qed

lemma mbit_upd64:
  assumes "n < 8 * 2 ^ 64" and "i \<le> 2 ^ 60"
  shows "mbit (upd64 f p i m) p n \<longleftrightarrow>
    (if n div 64 = i then bit (f (load64 m (p + 8 * of_nat i))) (n mod 64) else mbit m p n)"
proof -
  let ?x = "p + of_nat (n div 8)"
  have off: "?x - (p + 8 * of_nat i) = of_nat (n div 8) - of_nat (8 * i)"
    by simp
  have "unat (of_nat (n div 8) - of_nat (8 * i) :: u64) < 8 \<longleftrightarrow>
      8 * i \<le> n div 8 \<and> n div 8 < 8 * i + 8"
    using assms by (intro unat_diff_of_nat_less) simp_all
  also have "\<dots> \<longleftrightarrow> n div 64 = i"
    unfolding div_block_iff div_div_64 ..
  finally have lt: "unat (?x - (p + 8 * of_nat i)) < 8 \<longleftrightarrow> n div 64 = i"
    unfolding off .
  show ?thesis
  proof (cases "n div 64 = i")
    case True
    have "?x - (p + 8 * of_nat i) = of_nat (n div 8 - 8 * i)"
      unfolding off using True by (simp add: of_nat_diff)
    moreover have "n div 8 - 8 * i < 2 ^ 64" using assms by simp
    ultimately have "unat (?x - (p + 8 * of_nat i)) = n div 8 - 8 * i"
      by (simp add: unat_of_nat_64)
    moreover have "8 * (n div 8 - 8 * i) + n mod 8 = n mod 64"
      using mod_64_split [of n] True by simp
    ultimately show ?thesis
      using True lt
      by (simp add: mbit_def upd64_def store_le_at bit_ucast_iff bit_drop_bit_eq)
  next
    case False
    then show ?thesis using lt by (simp add: mbit_def upd64_def store_le_at)
  qed
qed

lemma mbit_fold_upd64:
  assumes "n < 8 * 2 ^ 64" and "q \<le> 2 ^ 60"
  shows "mbit (fold (upd64 f p) [0..<q] m) p n \<longleftrightarrow>
    (if n div 64 < q then bit (f (load64 m (p + 8 * of_nat (n div 64)))) (n mod 64)
     else mbit m p n)"
  using assms
proof (induction q arbitrary: n)
  case 0
  then show ?case by simp
next
  case (Suc q)
  let ?m = "fold (upd64 f p) [0..<q] m"
  have "load64 ?m (p + 8 * of_nat q) = load64 m (p + 8 * of_nat q)"
  proof (rule bit_word_eqI)
    fix j assume j: "j < LENGTH(64)"
    have "64 * q + j < 8 * 2 ^ 64" using Suc.prems(2) j by simp
    moreover have "\<not> (64 * q + j) div 64 < q" by simp
    ultimately show "bit (load64 ?m (p + 8 * of_nat q)) j = bit (load64 m (p + 8 * of_nat q)) j"
      using Suc unfolding bit_load64_mbit by simp
  qed
  then show ?case using Suc by (auto simp: mbit_upd64 less_Suc_eq)
qed

text \<open>The quotient and remainder of a bit count by 64, as the loops use them.\<close>

lemma size_div_64 [simp]: "unat (sz div 64 :: u64) = unat sz div 64"
  and size_mod_64 [simp]: "unat (sz mod 64 :: u64) = unat sz mod 64"
  by (simp_all add: unat_div unat_mod)

lemma size_div_64_le: "unat (sz :: u64) div 64 \<le> 2 ^ 60"
  using unat_lt_64 [of sz] by simp

lemma split_at_64: "n < s \<longleftrightarrow> n div 64 < s div 64 \<or> n div 64 = s div 64 \<and> n mod 64 < s mod (64 :: nat)"
proof -
  have "n = n div 64 * 64 + n mod 64" "s = s div 64 * 64 + s mod 64" by simp_all
  moreover have "n mod 64 < 64" "s mod 64 < 64" by simp_all
  ultimately show ?thesis by linarith
qed

text \<open>
  \<open>setbits\<close> turns on exactly the first \<open>sz\<close> bits from \<open>ptr\<close> and leaves every
  other bit of memory alone, although it writes whole 64-bit words.
\<close>

lemma mbit_word: "mbit m p n \<longleftrightarrow> bit (load64 m (p + 8 * of_nat (n div 64))) (n mod 64)"
  unfolding bit_load64_mbit by simp

lemma load64_fold_upd64:
  assumes "q \<le> 2 ^ 60"
  shows "load64 (fold (upd64 f p) [0..<q] m) (p + 8 * of_nat q) = load64 m (p + 8 * of_nat q)"
  using assms
  by (intro bit_word_eqI) (simp add: bit_load64_mbit mbit_fold_upd64 del: bit_load_le)

lemma mbit_run:
  assumes "n < 8 * 2 ^ 64" and "q \<le> 2 ^ 60"
  shows "mbit (upd64 g p q (fold (upd64 f p) [0..<q] m)) p n \<longleftrightarrow>
    bit ((if n div 64 < q then f else if n div 64 = q then g else id)
      (load64 m (p + 8 * of_nat (n div 64)))) (n mod 64)"
  using assms
  by (auto simp: mbit_upd64 mbit_fold_upd64 load64_fold_upd64 mbit_word [of m] simp del: bit_load_le)

lemma mbit_setbits:
  assumes "n < 8 * 2 ^ 64"
  shows "mbit (setbits sz p m) p n \<longleftrightarrow> n < unat sz \<or> mbit m p n"
  using assms size_div_64_le [of sz] split_at_64 [of n "unat sz"]
  by (auto simp: setbits_def Let_def mbit_run bit_or_iff mbit_word [of m] simp del: bit_load_le)

lemma mbit_clearbits:
  assumes "n < 8 * 2 ^ 64"
  shows "mbit (clearbits sz p m) p n \<longleftrightarrow> \<not> n < unat sz \<and> mbit m p n"
  using assms size_div_64_le [of sz] split_at_64 [of n "unat sz"]
  by (auto simp: clearbits_def Let_def mbit_run mbit_word [of m] simp del: bit_load_le)

lemma load64_eq_ONE: "load64 m (p + 8 * of_nat i) = ONE \<longleftrightarrow> (\<forall>j < 64. mbit m p (64 * i + j))"
  by (auto simp: bit_eq_iff bit_load64_mbit simp del: bit_load_le)

text \<open>A bounded quantifier over bits, cut into whole words and a remainder.\<close>

lemma all_bits_split:
  "(\<forall>n < s. P n) \<longleftrightarrow>
     (\<forall>i < s div 64. \<forall>j < 64. P (64 * i + j)) \<and> (\<forall>j < s mod 64. P (64 * (s div 64) + j))"
  for s :: nat
proof (intro iffI conjI allI impI)
  fix n assume "(\<forall>i < s div 64. \<forall>j < 64. P (64 * i + j)) \<and> (\<forall>j < s mod 64. P (64 * (s div 64) + j))"
    and "n < s"
  moreover have "64 * (n div 64) + n mod 64 = n" by simp
  moreover have "n mod 64 < 64" by simp
  ultimately show "P n" using split_at_64 [of n s] by metis
next
  fix i j assume "\<forall>n < s. P n" and "i < s div 64" and "j < (64 :: nat)"
  then show "P (64 * i + j)" by simp
next
  fix j assume "\<forall>n < s. P n" and "j < s mod 64"
  then show "P (64 * (s div 64) + j)"
    by (metis add_less_cancel_left mult_div_mod_eq)
qed

lemma checkbits_iff: "checkbits sz p m \<longleftrightarrow> (\<forall>n < unat sz. mbit m p n)"
  unfolding all_bits_split [of "unat sz"]
  by (auto simp: checkbits_def Let_def list_ex_iff load64_eq_ONE checkbits64_iff
      bit_load64_mbit simp del: bit_load_le)

text \<open>The mirror image: runs that end at \<open>ptr\<close>.\<close>

lemma mod_8_of_64: "n mod 64 = 8 * (n div 8 - 8 * (n div 64)) + n mod (8 :: nat)"
  using mod_64_split [of n] by simp

lemma word_offset_less:
  assumes "7 + 8 * i < 2 ^ 64" and "y < 2 ^ 64"
  shows "unat (of_nat (7 + 8 * i) - of_nat y :: u64) < 8 \<longleftrightarrow> y \<le> 7 + 8 * i \<and> 7 + 8 * i < y + 8"
proof -
  have "unat (of_nat (7 + 8 * i) :: u64) = 7 + 8 * i" "unat (of_nat y :: u64) = y"
    using assms by (intro unat_of_nat_64; simp)+
  then show ?thesis using assms by (auto simp: unat_sub_if' word_le_nat_alt simp del: of_nat_add of_nat_mult)
qed

lemma rbit_upd64_back:
  assumes "n < 8 * 2 ^ 64" and "i \<le> 2 ^ 60"
  shows "rbit (upd64_back f (p - 8) i m) p n \<longleftrightarrow>
    (if n div 64 = i then bit (f (load64 m (p - 8 - 8 * of_nat i))) (63 - n mod 64)
     else rbit m p n)"
proof -
  let ?b = "p - 8 - 8 * of_nat i" and ?x = "p - 1 - of_nat (n div 8)"
  have off: "?x - ?b = of_nat (7 + 8 * i) - of_nat (n div 8)"
    by simp
  have "unat (of_nat (7 + 8 * i) - of_nat (n div 8) :: u64) < 8 \<longleftrightarrow>
      n div 8 \<le> 7 + 8 * i \<and> 7 + 8 * i < n div 8 + 8"
    using assms by (intro word_offset_less) simp_all
  also have "\<dots> \<longleftrightarrow> 8 * i \<le> n div 8 \<and> n div 8 < 8 * i + 8"
    by linarith
  also have "\<dots> \<longleftrightarrow> n div 64 = i"
    unfolding div_block_iff div_div_64 ..
  finally have lt: "unat (?x - ?b) < 8 \<longleftrightarrow> n div 64 = i"
    unfolding off .
  show ?thesis
  proof (cases "n div 64 = i")
    case True
    then have le: "8 * i \<le> n div 8" "n div 8 < 8 * i + 8"
      using div_block_iff [of i "n div 8"] div_div_64 [of n] by simp_all
    have "?x - ?b = of_nat (7 + 8 * i - n div 8)"
      unfolding off using le by (simp only: of_nat_diff)
    moreover have "7 + 8 * i - n div 8 < 2 ^ 64" using le by simp
    ultimately have u: "unat (?x - ?b) = 7 + 8 * i - n div 8"
      by (simp only: unat_of_nat_64)
    have e: "63 - n mod 64 = 8 * (7 + 8 * i - n div 8) + (7 - n mod 8)"
      unfolding mod_8_of_64 [of n] True using le by linarith
    moreover have "upd64_back f (p - 8) i m ?x =
        ucast (drop_bit (8 * (7 + 8 * i - n div 8)) (f (load64 m ?b)))"
      unfolding upd64_back_def by (subst store_le_at, simp, use lt True in \<open>simp only: u refl if_True\<close>)
    moreover have "7 - n mod 8 < 8" by linarith
    ultimately show ?thesis
      using True unfolding e by (simp add: rbit_def bit_ucast_iff bit_drop_bit_eq)
  next
    case False
    then show ?thesis using lt by (simp add: rbit_def upd64_back_def store_le_at)
  qed
qed

lemma bit_load64_rbit:
  "bit (load64 m (p - 8 - 8 * of_nat i)) n \<longleftrightarrow> n < 64 \<and> rbit m p (64 * i + (63 - n))"
proof (cases "n < 64")
  case True
  define a b where "a = n div 8" and "b = n mod 8"
  have n: "n = 8 * a + b" by (simp add: a_def b_def)
  have ab: "a < 8" "b < 8" using True by (simp_all add: a_def b_def less_mult_imp_div_less)
  have e: "64 * i + (63 - n) = (7 - b) + (8 * i + (7 - a)) * 8"
    unfolding n using ab by simp
  have "(64 * i + (63 - n)) div 8 = 8 * i + (7 - a)" "(64 * i + (63 - n)) mod 8 = 7 - b"
    unfolding e using ab by (simp_all only: div_mult_self1 mod_mult_self1) simp_all
  moreover have "p - 1 - of_nat (8 * i + (7 - a)) = p - 8 - 8 * of_nat i + of_nat a"
    using ab by (simp add: of_nat_diff)
  moreover have "7 - (7 - b) = b" using ab by simp
  ultimately show ?thesis using True unfolding rbit_def bit_load_le
    by (simp only: flip: a_def b_def) simp
qed simp

lemma div_64_down: "n < 64 \<Longrightarrow> (64 * q + 63 - n) div 64 = (q :: nat)"
  by linarith

lemma rbit_fold_upd64_back:
  assumes "n < 8 * 2 ^ 64" and "q \<le> 2 ^ 58"
  shows "rbit (fold (upd64_back f (p - 8)) [0..<q] m) p n \<longleftrightarrow>
    (if n div 64 < q then bit (f (load64 m (p - 8 - 8 * of_nat (n div 64)))) (63 - n mod 64)
     else rbit m p n)"
  using assms
proof (induction q arbitrary: n)
  case 0
  then show ?case by simp
next
  case (Suc q)
  let ?m = "fold (upd64_back f (p - 8)) [0..<q] m"
  have "load64 ?m (p - 8 - 8 * of_nat q) = load64 m (p - 8 - 8 * of_nat q)"
    using Suc.prems(2)
    by (intro bit_word_eqI) (simp add: bit_load64_rbit Suc.IH div_64_down del: bit_load_le)
  then show ?case using Suc by (auto simp: rbit_upd64_back less_Suc_eq)
qed

lemma load64_fold_upd64_back:
  assumes "q \<le> 2 ^ 58"
  shows "load64 (fold (upd64_back f (p - 8)) [0..<q] m) (p - 8 - 8 * of_nat q) =
    load64 m (p - 8 - 8 * of_nat q)"
  using assms
  by (intro bit_word_eqI) (simp add: bit_load64_rbit rbit_fold_upd64_back div_64_down del: bit_load_le)

lemma rbit_word: "rbit m p n \<longleftrightarrow> bit (load64 m (p - 8 - 8 * of_nat (n div 64))) (63 - n mod 64)"
proof -
  have "63 - (63 - n mod 64) = n mod 64" "63 - n mod 64 < 64"
    using mod_less_divisor [of 64 n] by linarith+
  then show ?thesis unfolding bit_load64_rbit by simp
qed

lemma rbit_run:
  assumes "n < 8 * 2 ^ 64" and "q \<le> 2 ^ 58"
  shows "rbit (upd64_back g (p - 8) q (fold (upd64_back f (p - 8)) [0..<q] m)) p n \<longleftrightarrow>
    bit ((if n div 64 < q then f else if n div 64 = q then g else id)
      (load64 m (p - 8 - 8 * of_nat (n div 64)))) (63 - n mod 64)"
  using assms
  by (auto simp: rbit_upd64_back rbit_fold_upd64_back load64_fold_upd64_back rbit_word [of m]
      simp del: bit_load_le)

lemma size_div_64_le58: "unat (sz :: u64) div 64 \<le> 2 ^ 58"
  using unat_lt_64 [of sz] by simp

lemma rbit_setbits_right:
  assumes "n < 8 * 2 ^ 64"
  shows "rbit (setbits_right sz p m) p n \<longleftrightarrow> n < unat sz \<or> rbit m p n"
proof -
  have "63 - n mod 64 < 64" "(64 - unat sz mod 64 \<le> 63 - n mod 64) = (n mod 64 < unat sz mod 64)"
    using mod_less_divisor [of 64 n] mod_less_divisor [of 64 "unat sz"] by linarith+
  then show ?thesis
    using assms size_div_64_le58 [of sz] split_at_64 [of n "unat sz"]
    by (auto simp: setbits_right_def Let_def rbit_run bit_or_iff rbit_word [of m] less_imp_le
        simp del: bit_load_le)
qed

lemma rbit_clearbits_right:
  assumes "n < 8 * 2 ^ 64"
  shows "rbit (clearbits_right sz p m) p n \<longleftrightarrow> \<not> n < unat sz \<and> rbit m p n"
proof -
  have "(63 - n mod 64 < 64 - unat sz mod 64) = (\<not> n mod 64 < unat sz mod 64)"
    using mod_less_divisor [of 64 n] mod_less_divisor [of 64 "unat sz"] by linarith
  then show ?thesis
    using assms size_div_64_le58 [of sz] split_at_64 [of n "unat sz"]
    by (auto simp: clearbits_right_def Let_def rbit_run rbit_word [of m] less_imp_le
        simp del: bit_load_le)
qed

section \<open>Properties\<close>

text \<open>The bits of a byte, seen from an address on either side.\<close>

lemma byte_mbit: "i < 8 \<Longrightarrow> mbit m p (8 * unat (a - p) + i) \<longleftrightarrow> bit (m a) i"
  by (simp add: mbit_def)

lemma byte_rbit: "i < 8 \<Longrightarrow> rbit m p (8 * unat (p - 1 - a) + (7 - i)) \<longleftrightarrow> bit (m a) i"
proof -
  assume i: "i < 8"
  have "(8 * unat (p - 1 - a) + (7 - i)) div 8 = unat (p - 1 - a)" "(8 * unat (p - 1 - a) + (7 - i)) mod 8 = 7 - i" by simp_all
  then show ?thesis using i by (simp only: rbit_def) simp
qed

text \<open>
  C7: the run routines change exactly the bits they name, in all of memory: every bit \<open>i\<close> of every byte \<open>a\<close>
  is accounted for. \<^verbatim>\<open>setbits(size, ptr)\<close> and \<^verbatim>\<open>clearbits(size, ptr)\<close> set and clear the bits 0 to \<open>size - 1\<close> counted
  upwards from \<open>ptr\<close>, and \<^verbatim>\<open>setbits_right\<close> and \<^verbatim>\<open>clearbits_right\<close> the \<open>size\<close> bits that precede \<open>ptr\<close>, counted downwards
  from the last bit of the byte before \<open>ptr\<close> (the example in the comment of \<^verbatim>\<open>setbits_right\<close>, which shows the bits set at
  and after \<open>ptr\<close>, is not what the code does); every other bit keeps its value.
\<close>

theorem bit_runs_exact:
  assumes "i < 8"
  shows "(bit (setbits sz p m a) i \<longleftrightarrow> 8 * unat (a - p) + i < unat sz \<or> bit (m a) i) \<and>
    (bit (clearbits sz p m a) i \<longleftrightarrow> \<not> 8 * unat (a - p) + i < unat sz \<and> bit (m a) i) \<and>
    (bit (setbits_right sz p m a) i \<longleftrightarrow> 8 * unat (p - 1 - a) + (7 - i) < unat sz \<or> bit (m a) i) \<and>
    (bit (clearbits_right sz p m a) i \<longleftrightarrow> \<not> 8 * unat (p - 1 - a) + (7 - i) < unat sz \<and> bit (m a) i)"
proof -
  have "8 * unat (a - p) + i < 8 * 2 ^ 64" "8 * unat (p - 1 - a) + (7 - i) < 8 * 2 ^ 64"
    using unat_lt_64 [of "a - p"] unat_lt_64 [of "p - 1 - a"] assms by simp_all
  note up = mbit_setbits [OF this(1)] mbit_clearbits [OF this(1)] and down = rbit_setbits_right [OF this(2)] rbit_clearbits_right [OF this(2)]
  show ?thesis using up [of sz p m] down [of sz p m] unfolding byte_mbit [OF assms] byte_rbit [OF assms] by blast
qed

theorem bit_runs_exact_witness:
  "bit (setbits 70 5 (\<lambda>_. 0) 13) 5 \<and> \<not> bit (setbits 70 5 (\<lambda>_. 0) 13) 6 \<and> \<not> bit (setbits 70 5 (\<lambda>_. 0) 4) 7 \<and>
   \<not> bit (clearbits 70 5 (\<lambda>_. 255) 13) 5 \<and> bit (clearbits 70 5 (\<lambda>_. 255) 4) 7 \<and>
   bit (setbits_right 70 64 (\<lambda>_. 0) 55) 2 \<and> \<not> bit (setbits_right 70 64 (\<lambda>_. 0) 64) 0 \<and>
   \<not> bit (clearbits_right 70 64 (\<lambda>_. 255) 55) 2 \<and> bit (clearbits_right 70 64 (\<lambda>_. 255) 64) 0"
proof -
  have b: "(5 :: nat) < 8" "(6 :: nat) < 8" "(7 :: nat) < 8" "(2 :: nat) < 8" "(0 :: nat) < 8" by simp_all
  have u: "unat (- 1 :: u64) = 2 ^ 64 - 1" by (simp add: unsigned_minus_1_eq_mask mask_eq_exp_minus_1)
  show ?thesis
    using bit_runs_exact [OF b(1), of 70 5 "\<lambda>_. 0" 13] bit_runs_exact [OF b(2), of 70 5 "\<lambda>_. 0" 13] bit_runs_exact [OF b(3), of 70 5 "\<lambda>_. 0" 4]
      bit_runs_exact [OF b(1), of 70 5 "\<lambda>_. 255" 13] bit_runs_exact [OF b(3), of 70 5 "\<lambda>_. 255" 4]
      bit_runs_exact [OF b(4), of 70 64 "\<lambda>_. 0" 55] bit_runs_exact [OF b(5), of 70 64 "\<lambda>_. 0" 64]
      bit_runs_exact [OF b(4), of 70 64 "\<lambda>_. 255" 55] bit_runs_exact [OF b(5), of 70 64 "\<lambda>_. 255" 64] u by simp
qed

text \<open>
  \<^verbatim>\<open>checkbits(size, ptr)\<close> returns true iff all the bits 0 to \<open>size - 1\<close> counted from
  \<open>ptr\<close> are set; in particular it accepts what \<^verbatim>\<open>setbits\<close> wrote and, for a non-empty run,
  refuses what \<^verbatim>\<open>clearbits\<close> wrote.
\<close>

theorem checkbits_exact:
  "(checkbits sz p m \<longleftrightarrow> (\<forall>n. n < unat sz \<longrightarrow> mbit m p n)) \<and>
   checkbits sz p (setbits sz p m) \<and> (checkbits sz p (clearbits sz p m) \<longrightarrow> sz = 0)"
proof -
  have lt: "n < 8 * 2 ^ 64" if "n < unat sz" for n
    using that unat_lt_64 [of sz] by linarith
  have "checkbits sz p (setbits sz p m)"
    using lt by (auto simp: checkbits_iff mbit_setbits)
  moreover have "sz = 0" if "checkbits sz p (clearbits sz p m)"
  proof (rule ccontr)
    assume "sz \<noteq> 0"
    then have "0 < unat sz" by (simp add: unat_gt_0)
    then show False using that by (auto simp: checkbits_iff mbit_clearbits)
  qed
  ultimately show ?thesis by (simp add: checkbits_iff)
qed

theorem checkbits_exact_witness:
  "checkbits 70 5 (setbits 70 5 (\<lambda>_. 0)) \<and> \<not> checkbits 70 5 (clearbits 70 5 (\<lambda>_. 255))"
  using checkbits_exact [of 70 5 "\<lambda>_. 0"] checkbits_exact [of 70 5 "\<lambda>_. 255"] by auto

end
