(* ===== verification/Alloc.thy ===== *)
theory Alloc
  imports Prelude
begin

text \<open>
  What the two memory models share about allocation: the statistics of
  \<^verbatim>\<open>e_acsl_leak.h\<close>, \<^verbatim>\<open>powof2\<close> of \<^verbatim>\<open>e_acsl_malloc.h\<close>, and the \<^verbatim>\<open>public_*\<close>
  allocator. That allocator is the vendored dlmalloc, hence a parameter: a record of
  functions from the tracked state and the arguments of the call to its result.
\<close>

section \<open>Statistics\<close>

record heap_stats =
  heap_allocation_size :: u64
  heap_allocated_blocks :: u64

definition get_heap_allocation_size :: "heap_stats \<Rightarrow> u64" where
  "get_heap_allocation_size st = heap_allocation_size st"

definition get_heap_allocated_blocks :: "heap_stats \<Rightarrow> u64" where
  "get_heap_allocated_blocks st = heap_allocated_blocks st"

text \<open>The argument is a \<^verbatim>\<open>long\<close>: the sign of the word decides the block count.\<close>

definition update_heap_allocation :: "u64 \<Rightarrow> heap_stats \<Rightarrow> heap_stats" where
  "update_heap_allocation sz st =
     (let st = st\<lparr>heap_allocation_size := heap_allocation_size st + sz\<rparr>
      in if sint sz > 0 then st\<lparr>heap_allocated_blocks := heap_allocated_blocks st + 1\<rparr>
         else if sint sz < 0 then st\<lparr>heap_allocated_blocks := heap_allocated_blocks st - 1\<rparr>
         else st)"

section \<open>Powers of two\<close>

function powof2_loop :: "u64 \<Rightarrow> u64" where
  "powof2_loop x = (if x AND 1 = 0 \<and> x > 1 then powof2_loop (drop_bit 1 x) else x)"
  by auto
termination
proof (relation "measure unat")
  fix x :: u64
  assume "x AND 1 = 0 \<and> x > 1"
  then have "0 < unat x" by (auto simp: word_less_nat_alt)
  then show "(drop_bit 1 x, x) \<in> measure unat"
    by (simp add: drop_bit_eq_div unat_div)
qed simp

definition powof2 :: "u64 \<Rightarrow> bool" where
  "powof2 x = (powof2_loop x = 1)"

declare powof2_loop.simps [simp del]

lemma even_unat: "x AND 1 = 0 \<longleftrightarrow> even (unat (x :: u64))"
  by (simp add: and_one_eq word_unat_eq_iff unat_mod even_iff_mod_2_eq_zero)

lemma powof2_loop_iff: "powof2_loop x = 1 \<longleftrightarrow> (\<exists>k. unat x = 2 ^ k)"
proof (induction x rule: powof2_loop.induct)
  case (1 x)
  show ?case
  proof (cases "x AND 1 = 0 \<and> x > 1")
    case True
    then obtain n where n: "unat x = 2 * n" by (auto simp: even_unat elim: evenE)
    have "unat (drop_bit 1 x) = n" by (simp add: drop_bit_eq_div unat_div n)
    moreover have "(\<exists>k. n = 2 ^ k) \<longleftrightarrow> (\<exists>k. 2 * n = 2 ^ k)"
    proof
      assume "\<exists>k. n = 2 ^ k"
      then show "\<exists>k. 2 * n = 2 ^ k" by (metis power_Suc)
    next
      assume "\<exists>k. 2 * n = 2 ^ k"
      then obtain k where "2 * n = 2 ^ k" by blast
      then show "\<exists>k. n = 2 ^ k" by (cases k) auto
    qed
    ultimately show ?thesis using 1 [OF True] True n by (subst powof2_loop.simps) simp
  next
    case False
    then have "odd (unat x) \<or> unat x \<le> 1" by (auto simp: even_unat word_less_nat_alt)
    then have "(\<exists>k. unat x = 2 ^ k) \<longleftrightarrow> unat x = 1"
      by (metis even_power gr_zeroI le_0_eq le_Suc_eq One_nat_def odd_one power_0 zero_neq_one power_not_zero zero_neq_numeral even_numeral)
    moreover have "powof2_loop x = x" using False by (subst powof2_loop.simps) auto
    ultimately show ?thesis by (simp add: word_unat_eq_iff [of x])
  qed
qed

lemma powof2_iff: "powof2 x \<longleftrightarrow> (\<exists>k. unat x = 2 ^ k)"
  by (simp add: powof2_def powof2_loop_iff)

text \<open>A block of a positive size below \<open>2 ^ 63\<close> is counted once, and uncounted by the negated size.\<close>

lemma sint_nonneg_64:
  assumes "unat (x :: u64) < 2 ^ 63"
  shows "sint x = int (unat x)"
proof -
  have "int (unat x) < int (2 ^ 63)" using assms by (simp only: of_nat_less_iff)
  then have "uint x < 2 ^ 63" by simp
  then have "signed_take_bit 63 (uint x) = uint x"
    by (intro signed_take_bit_int_eq_self) (use uint_ge_0 [of x] in linarith)+
  then show ?thesis by (simp add: sint_uint)
qed

lemma sint_neg_64:
  assumes "unat (x :: u64) < 2 ^ 63"
  shows "sint (- x) = - int (unat x)"
proof -
  have "int (unat x) < int (2 ^ 63)" using assms by (simp only: of_nat_less_iff)
  then have "- (2 ^ 63) \<le> - int (unat x)" by simp
  moreover have "- int (unat x) < 2 ^ 63"
    using uint_ge_0 [of x] by (simp add: order_le_less_trans [of _ 0])
  ultimately have "signed_take_bit 63 (- int (unat x)) = - int (unat x)"
    by (rule signed_take_bit_int_eq_self)
  then show ?thesis using sint_word_minus [of x] sint_nonneg_64 [OF assms] by simp
qed

lemma sint_signs:
  assumes "0 < sz" and "unat (sz :: u64) < 2 ^ 63"
  shows "0 < sint sz" and "sint (- sz) < 0"
proof -
  have "0 < unat sz" using assms(1) by (simp add: word_less_nat_alt)
  then show "0 < sint sz" "sint (- sz) < 0"
    using sint_nonneg_64 [OF assms(2)] sint_neg_64 [OF assms(2)] by linarith+
qed

lemma update_heap_allocation_pos:
  assumes "0 < sz" and "unat sz < 2 ^ 63"
  shows "update_heap_allocation sz st =
      st\<lparr>heap_allocation_size := heap_allocation_size st + sz,
         heap_allocated_blocks := heap_allocated_blocks st + 1\<rparr>"
  using sint_signs [OF assms] by (simp add: update_heap_allocation_def Let_def)

lemma update_heap_allocation_neg:
  assumes "0 < sz" and "unat sz < 2 ^ 63"
  shows "update_heap_allocation (- sz) st =
      st\<lparr>heap_allocation_size := heap_allocation_size st - sz,
         heap_allocated_blocks := heap_allocated_blocks st - 1\<rparr>"
  using sint_signs [OF assms] by (simp add: update_heap_allocation_def Let_def)

lemma update_heap_allocation_undo:
  assumes "unat sz < 2 ^ 63"
  shows "update_heap_allocation (- sz) (update_heap_allocation sz st) = st"
proof (cases "sz = 0")
  case True
  then show ?thesis by (simp add: update_heap_allocation_def)
next
  case False
  then have "0 < sz" by (simp add: word_gt_0)
  then show ?thesis using assms by (simp add: update_heap_allocation_pos update_heap_allocation_neg)
qed

section \<open>The public allocator\<close>

record 's public_alloc =
  public_malloc :: "'s \<Rightarrow> u64 \<Rightarrow> u64"
  public_calloc :: "'s \<Rightarrow> u64 \<Rightarrow> u64 \<Rightarrow> u64"
  public_aligned_alloc :: "'s \<Rightarrow> u64 \<Rightarrow> u64 \<Rightarrow> u64"
  public_posix_memalign :: "'s \<Rightarrow> u64 \<Rightarrow> u64 \<Rightarrow> int \<times> u64"
  public_realloc :: "'s \<Rightarrow> u64 \<Rightarrow> u64 \<Rightarrow> u64"

section \<open>Properties\<close>

text \<open>
  The loop of \<^verbatim>\<open>powof2\<close> ends on every \<^verbatim>\<open>size_t\<close> and the function returns true exactly
  on the powers of two.
\<close>

lemma powof2_correct: "powof2 x \<longleftrightarrow> (\<exists>k. unat x = 2 ^ k)"
  by (rule powof2_iff)

end
