(* ===== verification/Safe_Locations.thy ===== *)
theory Safe_Locations
  imports Prelude
begin

text \<open>
  \<^verbatim>\<open>e_acsl_safe_locations.h\<close>: the fixed array of locations that are tracked from program
  start. The array has 16 entries, zero-initialized; \<open>add_safe_location\<close> is the macro, whose
  third argument the code does not use. The addresses of \<^verbatim>\<open>errno\<close> and the standard streams
  and \<^verbatim>\<open>sizeof(FILE)\<close> belong to the C library and are parameters.
\<close>

record memory_location =
  l_address :: u64
  l_length :: u64
  l_is_initialized :: bool

record safe_state =
  safe_locations :: "memory_location list"
  safe_location_counter :: nat

definition safe_start :: safe_state where
  "safe_start = \<lparr>safe_locations = replicate 16 \<lparr>l_address = 0, l_length = 0, l_is_initialized = False\<rparr>,
     safe_location_counter = 0\<rparr>"

definition add_safe_location :: "u64 \<Rightarrow> u64 \<Rightarrow> string \<Rightarrow> safe_state \<Rightarrow> safe_state option" where
  "add_safe_location addr len init s =
     (let c = safe_location_counter s
      in if c < length (safe_locations s)
         then Some \<lparr>safe_locations =
                (safe_locations s)[c := (safe_locations s ! c)\<lparr>l_address := addr, l_length := len\<rparr>],
                safe_location_counter = c + 1\<rparr>
         else None)"

definition collect_safe_locations :: "u64 \<Rightarrow> u64 \<Rightarrow> u64 \<Rightarrow> u64 \<Rightarrow> u64 \<Rightarrow> safe_state \<Rightarrow> safe_state option" where
  "collect_safe_locations a_errno a_stdout a_stderr a_stdin sizeof_FILE s = do {
     s \<leftarrow> add_safe_location a_errno 4 ''errno'' s;
     s \<leftarrow> add_safe_location a_stdout sizeof_FILE ''stdout'' s;
     s \<leftarrow> add_safe_location a_stderr sizeof_FILE ''stderr'' s;
     add_safe_location a_stdin sizeof_FILE ''stdin'' s }"

text \<open>The entries that the start-up loops visit.\<close>

definition collected :: "safe_state \<Rightarrow> memory_location list" where
  "collected s = take (safe_location_counter s) (safe_locations s)"

lemma collect_start:
  "\<exists>s. collect_safe_locations e o' r i n safe_start = Some s \<and>
     collected s = [\<lparr>l_address = e, l_length = 4, l_is_initialized = False\<rparr>,
                    \<lparr>l_address = o', l_length = n, l_is_initialized = False\<rparr>,
                    \<lparr>l_address = r, l_length = n, l_is_initialized = False\<rparr>,
                    \<lparr>l_address = i, l_length = n, l_is_initialized = False\<rparr>]"
  by (simp add: collect_safe_locations_def add_safe_location_def safe_start_def Let_def collected_def
      numeral_eq_Suc)

section \<open>Properties\<close>

text \<open>
  At start-up the four safe locations (\<^verbatim>\<open>errno\<close>, \<^verbatim>\<open>stdout\<close>, \<^verbatim>\<open>stderr\<close>, \<^verbatim>\<open>stdin\<close>) are
  collected in this order with their lengths, within the bounds of the array; none of them is
  marked initialized, although each call of the macro names an initialization argument.
\<close>

theorem safe_locations_collected:
  "\<exists>s. collect_safe_locations e o' r i n safe_start = Some s \<and>
     map l_address (collected s) = [e, o', r, i] \<and> map l_length (collected s) = [4, n, n, n] \<and>
     list_all (\<lambda>l. \<not> l_is_initialized l) (collected s)"
  using collect_start [of e o' r i n] by auto

end
