(* ===== verification/Bittree_MModel.thy ===== *)
theory Bittree_MModel
  imports Bittree_Index Bits Alloc Safe_Locations
begin

text \<open>
  \<^verbatim>\<open>bittree_model/e_acsl_bittree_mmodel.c\<close>: the memory model over the trie, in the build
  without \<^verbatim>\<open>E_ACSL_DEBUG\<close> and \<^verbatim>\<open>E_ACSL_TEMPORAL\<close>; \<^verbatim>\<open>E_ACSL_WEAK_VALIDITY\<close> and
  \<^verbatim>\<open>E_ACSL_FREE_VALID_ADDRESS\<close> are the parameters \<open>weak\<close> and \<open>fva\<close>. The state is the
  store of the trie with the heap statistics. The initialization map of a block,
  \<^verbatim>\<open>init_ptr\<close>, is the list of its bytes.

  \<open>None\<close>: the C code has no defined result (a null or out-of-bounds access, a loop that
  never ends). Code that may call \<^verbatim>\<open>vabort\<close> returns an \<open>outcome\<close> inside. The application
  allocator (\<^verbatim>\<open>public_*\<close>) is the parameter \<open>pa\<close>; \<^verbatim>\<open>private_malloc\<close> of a trie node or a
  block is \<open>pm\<close> as in \<^verbatim>\<open>Bittree\<close>, that of an initialization map succeeds.
\<close>

section \<open>State\<close>

record mm_state = bt_state +
  stats :: heap_stats

definition nbr_bits_to_1 :: "nat list" where
  "nbr_bits_to_1 = [
  0,1,1,2,1,2,2,3,1,2,2,3,2,3,3,4,1,2,2,3,2,3,3,4,2,3,3,4,3,4,4,5,1,2,2,3,2,3,
  3,4,2,3,3,4,3,4,4,5,2,3,3,4,3,4,4,5,3,4,4,5,4,5,5,6,1,2,2,3,2,3,3,4,2,3,3,4,
  3,4,4,5,2,3,3,4,3,4,4,5,3,4,4,5,4,5,5,6,2,3,3,4,3,4,4,5,3,4,4,5,4,5,5,6,3,4,
  4,5,4,5,5,6,4,5,5,6,5,6,6,7,1,2,2,3,2,3,3,4,2,3,3,4,3,4,4,5,2,3,3,4,3,4,4,5,
  3,4,4,5,4,5,5,6,2,3,3,4,3,4,4,5,3,4,4,5,4,5,5,6,3,4,4,5,4,5,5,6,4,5,5,6,5,6,
  6,7,2,3,3,4,3,4,4,5,3,4,4,5,4,5,5,6,3,4,4,5,4,5,5,6,4,5,5,6,5,6,6,7,3,4,4,5,
  4,5,5,6,4,5,5,6,5,6,6,7,4,5,5,6,5,6,6,7,5,6,6,7,6,7,7,8]"

definition needed_bytes :: "u64 \<Rightarrow> u64" where
  "needed_bytes sz = (if sz mod 8 = 0 then sz div 8 else sz div 8 + 1)"

text \<open>The conversion of a \<^verbatim>\<open>size_t\<close> to \<^verbatim>\<open>int\<close>.\<close>

definition int_of :: "u64 \<Rightarrow> int" where
  "int_of x = sint (ucast x :: u32)"

definition upd_block :: "loc \<Rightarrow> (bt_block \<Rightarrow> bt_block) \<Rightarrow> 'a bt_state_scheme \<Rightarrow> 'a bt_state_scheme option" where
  "upd_block b f s = do { blk \<leftarrow> blocks s b; Some (s\<lparr>blocks := (blocks s)(b \<mapsto> f blk)\<rparr>) }"

section \<open>Initialization\<close>

text \<open>
  One step of the loops over the bytes: the bit of \<^verbatim>\<open>init_ptr\<close> for byte \<open>offset\<close> of the
  block, \<open>None\<close> when it lies outside the array.
\<close>

definition init_slot :: "u64 \<Rightarrow> u8 list \<Rightarrow> (nat \<times> nat) option" where
  "init_slot off arr =
     (let byte = int_of (off div 8); bt = unat (off mod 8)
      in if 0 \<le> byte \<and> byte < int (length arr) then Some (nat byte, bt) else None)"

partial_function (option) initialize_loop :: "u64 \<Rightarrow> u64 \<Rightarrow> u32 \<Rightarrow> bt_block \<Rightarrow> bt_block option" where
  "initialize_loop ptr sz i blk =
     (if ucast i < sz then do {
        arr \<leftarrow> b_init_ptr blk;
        (byte, bt) \<leftarrow> init_slot (ptr - b_ptr blk + ucast i) arr;
        let blk = (if \<not> checkbit bt (arr ! byte)
                   then blk\<lparr>b_init_ptr := Some (arr[byte := setbit bt (arr ! byte)]),
                            b_init_bytes := b_init_bytes blk + 1\<rparr>
                   else blk);
        initialize_loop ptr sz (i + 1) blk }
      else Some blk)"

definition initialize_blk :: "u64 \<Rightarrow> u64 \<Rightarrow> bt_block \<Rightarrow> bt_block option" where
  "initialize_blk ptr sz blk =
     (if b_init_bytes blk = b_size blk then Some blk
      else do {
        blk \<leftarrow> (if b_init_bytes blk = 0 then
                  let nb = int_of (needed_bytes (b_size blk))
                  in if nb < 0 then None else Some (blk\<lparr>b_init_ptr := Some (replicate (nat nb) 0)\<rparr>)
                else Some blk);
        blk \<leftarrow> initialize_loop ptr sz 0 blk;
        Some (if b_init_bytes blk = b_size blk then blk\<lparr>b_init_ptr := None\<rparr> else blk) })"

definition initialize_bt :: "u64 \<Rightarrow> u64 \<Rightarrow> 'a mm_state_scheme \<Rightarrow> 'a mm_state_scheme option" where
  "initialize_bt ptr sz s =
     (if ptr = 0 then Some s
      else do {
        tmp \<leftarrow> bt_find s ptr;
        if tmp = NULL then Some s
        else do {
          blk \<leftarrow> blocks s tmp;
          blk \<leftarrow> initialize_blk ptr sz blk;
          upd_block tmp (\<lambda>_. blk) s } })"

definition full_init_bt :: "u64 \<Rightarrow> 'a mm_state_scheme \<Rightarrow> 'a mm_state_scheme option" where
  "full_init_bt ptr s =
     (if ptr = 0 then Some s
      else do {
        tmp \<leftarrow> bt_lookup s ptr;
        if tmp = NULL then Some s
        else upd_block tmp (\<lambda>blk. blk\<lparr>b_init_ptr := None, b_init_bytes := b_size blk\<rparr>) s })"

definition mark_readonly_bt :: "u64 \<Rightarrow> 'a mm_state_scheme \<Rightarrow> 'a mm_state_scheme option" where
  "mark_readonly_bt ptr s =
     (if ptr = 0 then Some s
      else do {
        tmp \<leftarrow> bt_lookup s ptr;
        if tmp = NULL then Some s
        else upd_block tmp (\<lambda>blk. blk\<lparr>b_is_readonly := True\<rparr>) s })"

section \<open>Predicates\<close>

definition freeable_bt :: "u64 \<Rightarrow> 'a mm_state_scheme \<Rightarrow> bool option" where
  "freeable_bt ptr s =
     (if ptr = 0 then Some False
      else do {
        tmp \<leftarrow> bt_lookup s ptr;
        if tmp = NULL then Some False
        else do { blk \<leftarrow> blocks s tmp; Some (b_is_freeable blk) } })"

partial_function (option) initialized_loop :: "u64 \<Rightarrow> u64 \<Rightarrow> u32 \<Rightarrow> bt_block \<Rightarrow> bool option" where
  "initialized_loop ptr sz i blk =
     (if ucast i < sz then do {
        arr \<leftarrow> b_init_ptr blk;
        (byte, bt) \<leftarrow> init_slot (ptr - b_ptr blk + ucast i) arr;
        if \<not> checkbit bt (arr ! byte) then Some False
        else initialized_loop ptr sz (i + 1) blk }
      else Some True)"

definition initialized_blk :: "u64 \<Rightarrow> u64 \<Rightarrow> bt_block \<Rightarrow> bool option" where
  "initialized_blk ptr sz blk =
     (if b_init_bytes blk = 0 then Some False
      else if b_init_bytes blk = b_size blk then Some True
      else initialized_loop ptr sz 0 blk)"

definition initialized_bt :: "u64 \<Rightarrow> u64 \<Rightarrow> 'a mm_state_scheme \<Rightarrow> bool option" where
  "initialized_bt ptr sz s = do {
     tmp \<leftarrow> bt_find s ptr;
     if tmp = NULL then Some False
     else do { blk \<leftarrow> blocks s tmp; initialized_blk ptr sz blk } }"

text \<open>The functions that use \<^verbatim>\<open>vassert(blk != NULL, msg)\<close> on the block containing an address.\<close>

definition with_block :: "string \<Rightarrow> (bt_block \<Rightarrow> 'b) \<Rightarrow> u64 \<Rightarrow> 'a mm_state_scheme \<Rightarrow> 'b outcome option" where
  "with_block msg f ptr s = do {
     blk \<leftarrow> bt_find s ptr;
     if blk = NULL then Some (Inl msg)
     else do { blk \<leftarrow> blocks s blk; Some (Inr (f blk)) } }"

definition block_length_bt :: "u64 \<Rightarrow> 'a mm_state_scheme \<Rightarrow> u64 outcome option" where
  "block_length_bt = with_block (CHR 0x5C # ''block_length of unallocated memory'') b_size"

definition base_addr_bt :: "u64 \<Rightarrow> 'a mm_state_scheme \<Rightarrow> u64 outcome option" where
  "base_addr_bt = with_block (CHR 0x5C # ''base_addr of unallocated memory'') b_ptr"

definition offset_bt :: "u64 \<Rightarrow> 'a mm_state_scheme \<Rightarrow> u64 outcome option" where
  "offset_bt ptr = with_block (CHR 0x5C # ''offset of unallocated memory'') (\<lambda>blk. ptr - b_ptr blk) ptr"

definition readonly_bt :: "u64 \<Rightarrow> 'a mm_state_scheme \<Rightarrow> bool outcome option" where
  "readonly_bt = with_block ''Readonly on unallocated memory'' b_is_readonly"

definition lookup_allocated :: "bool \<Rightarrow> u64 \<Rightarrow> u64 \<Rightarrow> u64 \<Rightarrow> 'a mm_state_scheme \<Rightarrow> loc option" where
  "lookup_allocated weak ptr sz ptr_base s = do {
     b \<leftarrow> bt_find s ptr;
     if b = NULL then Some NULL
     else do {
       blk \<leftarrow> blocks s b;
       same \<leftarrow> (if weak then Some True
                else do {
                  c \<leftarrow> bt_find s ptr_base;
                  if c = NULL then Some False
                  else do { blk_base \<leftarrow> blocks s c; Some (b_ptr blk = b_ptr blk_base) } });
       if \<not> same then Some NULL
       else Some (if sz \<le> b_size blk - (ptr - b_ptr blk) then b else NULL) } }"

definition allocated_bt :: "bool \<Rightarrow> u64 \<Rightarrow> u64 \<Rightarrow> u64 \<Rightarrow> 'a mm_state_scheme \<Rightarrow> bool option" where
  "allocated_bt weak addr sz base s = do {
     b \<leftarrow> lookup_allocated weak addr sz base s;
     Some (b \<noteq> NULL) }"

definition writeable_bt :: "bool \<Rightarrow> u64 \<Rightarrow> u64 \<Rightarrow> u64 \<Rightarrow> 'a mm_state_scheme \<Rightarrow> bool outcome option" where
  "writeable_bt weak addr sz base s = do {
     a \<leftarrow> allocated_bt weak addr sz base s;
     if \<not> a then Some (Inr False)
     else do {
       r \<leftarrow> readonly_bt addr s;
       Some (case r of Inl m \<Rightarrow> Inl m | Inr ro \<Rightarrow> Inr (\<not> ro)) } }"

definition valid_bt :: "bool \<Rightarrow> u64 \<Rightarrow> u64 \<Rightarrow> u64 \<Rightarrow> 'a mm_state_scheme \<Rightarrow> bool option" where
  "valid_bt weak ptr sz ptr_base s = do {
     b \<leftarrow> lookup_allocated weak ptr sz ptr_base s;
     if b = NULL then Some False
     else do { blk \<leftarrow> blocks s b; Some (\<not> b_is_readonly blk) } }"

definition valid_read_bt :: "bool \<Rightarrow> u64 \<Rightarrow> u64 \<Rightarrow> u64 \<Rightarrow> 'a mm_state_scheme \<Rightarrow> bool option" where
  "valid_read_bt weak ptr sz ptr_base s = do {
     b \<leftarrow> lookup_allocated weak ptr sz ptr_base s;
     Some (b \<noteq> NULL) }"

section \<open>Allocation\<close>

definition store_block_bt ::
  "(loc set \<Rightarrow> loc) \<Rightarrow> u64 \<Rightarrow> u64 \<Rightarrow> 'a mm_state_scheme \<Rightarrow> (loc \<times> 'a mm_state_scheme) option" where
  "store_block_bt pm ptr sz s =
     (if ptr = 0 then Some (NULL, s)
      else do {
        let tmp = pm (live s);
        let s = s\<lparr>blocks := (blocks s)(tmp \<mapsto>
              \<lparr>b_ptr = ptr, b_size = sz, b_init_ptr = None, b_init_bytes = 0,
               b_is_readonly = False, b_is_freeable = False\<rparr>)\<rparr>;
        s \<leftarrow> bt_insert pm tmp s;
        Some (tmp, s) })"

definition store_freeable_block_bt ::
  "(loc set \<Rightarrow> loc) \<Rightarrow> u64 \<Rightarrow> u64 \<Rightarrow> bool \<Rightarrow> 'a mm_state_scheme \<Rightarrow> (loc \<times> 'a mm_state_scheme) option" where
  "store_freeable_block_bt pm ptr sz init_bytes s =
     (if ptr = 0 then Some (NULL, s)
      else do {
        (blk, s) \<leftarrow> store_block_bt pm ptr sz s;
        s \<leftarrow> upd_block blk (\<lambda>k. k\<lparr>b_is_freeable := True\<rparr>) s;
        let s = s\<lparr>stats := update_heap_allocation sz (stats s)\<rparr>;
        s \<leftarrow> (if init_bytes then upd_block blk (\<lambda>k. k\<lparr>b_init_bytes := sz\<rparr>) s else Some s);
        Some (blk, s) })"

definition delete_block_bt :: "u64 \<Rightarrow> 'a mm_state_scheme \<Rightarrow> 'a mm_state_scheme option" where
  "delete_block_bt ptr s =
     (if ptr \<noteq> 0 then do {
        tmp \<leftarrow> bt_lookup s ptr;
        if tmp \<noteq> NULL then do {
          s \<leftarrow> bt_clean_block_init tmp s;
          s \<leftarrow> bt_remove tmp s;
          Some (s\<lparr>blocks := (blocks s)(tmp := None)\<rparr>) }
        else Some s }
      else Some s)"

text \<open>The inner \<^verbatim>\<open>tmp\<close> hides the outer one, which is returned.\<close>

definition store_block_duplicate_bt ::
  "(loc set \<Rightarrow> loc) \<Rightarrow> u64 \<Rightarrow> u64 \<Rightarrow> 'a mm_state_scheme \<Rightarrow> (loc \<times> 'a mm_state_scheme) option" where
  "store_block_duplicate_bt pm ptr sz s = do {
     let tmp = NULL;
     s \<leftarrow> (if ptr \<noteq> 0 then do {
             tmp' \<leftarrow> bt_lookup s ptr;
             s \<leftarrow> (if tmp' \<noteq> NULL then delete_block_bt ptr s else Some s);
             (_, s) \<leftarrow> store_block_bt pm ptr sz s;
             Some s }
           else Some s);
     Some (tmp, s) }"

definition malloc_bt ::
  "('a mm_state_scheme public_alloc) \<Rightarrow> (loc set \<Rightarrow> loc) \<Rightarrow> u64 \<Rightarrow> 'a mm_state_scheme
    \<Rightarrow> (u64 \<times> 'a mm_state_scheme) option" where
  "malloc_bt pa pm sz s =
     (if sz = 0 then Some (0, s)
      else do {
        let res = public_malloc pa s sz;
        (_, s) \<leftarrow> store_freeable_block_bt pm res sz False s;
        Some (res, s) })"

definition calloc_bt ::
  "('a mm_state_scheme public_alloc) \<Rightarrow> (loc set \<Rightarrow> loc) \<Rightarrow> u64 \<Rightarrow> u64 \<Rightarrow> 'a mm_state_scheme
    \<Rightarrow> (u64 \<times> 'a mm_state_scheme) option" where
  "calloc_bt pa pm nbr_block size_block s =
     (let sz = nbr_block * size_block
      in if sz = 0 then Some (0, s)
         else do {
           let res = public_calloc pa s nbr_block size_block;
           (_, s) \<leftarrow> store_freeable_block_bt pm res sz True s;
           Some (res, s) })"

definition aligned_alloc_bt ::
  "('a mm_state_scheme public_alloc) \<Rightarrow> (loc set \<Rightarrow> loc) \<Rightarrow> u64 \<Rightarrow> u64 \<Rightarrow> 'a mm_state_scheme
    \<Rightarrow> (u64 \<times> 'a mm_state_scheme) option" where
  "aligned_alloc_bt pa pm alignment sz s =
     (if sz = 0 \<or> alignment = 0 \<or> \<not> powof2 alignment \<or> sz mod alignment \<noteq> 0 then Some (0, s)
      else do {
        let res = public_aligned_alloc pa s alignment sz;
        (_, s) \<leftarrow> store_freeable_block_bt pm res sz False s;
        Some (res, s) })"

text \<open>The result pairs the returned \<^verbatim>\<open>int\<close> with the value stored in \<^verbatim>\<open>*memptr\<close>, if any.\<close>

definition posix_memalign_bt ::
  "('a mm_state_scheme public_alloc) \<Rightarrow> (loc set \<Rightarrow> loc) \<Rightarrow> u64 \<Rightarrow> u64 \<Rightarrow> 'a mm_state_scheme
    \<Rightarrow> ((int \<times> u64 option) \<times> 'a mm_state_scheme) option" where
  "posix_memalign_bt pa pm alignment sz s =
     (if sz = 0 \<or> alignment = 0 \<or> \<not> powof2 alignment \<or> alignment mod 8 \<noteq> 0 then Some ((-1, None), s)
      else do {
        let (res, memptr) = public_posix_memalign pa s alignment sz;
        if res = 0 then do {
          (_, s) \<leftarrow> store_freeable_block_bt pm memptr sz False s;
          Some ((res, Some memptr), s) }
        else Some ((res, None), s) })"

definition free_bt :: "bool \<Rightarrow> u64 \<Rightarrow> 'a mm_state_scheme \<Rightarrow> ('a mm_state_scheme) outcome option" where
  "free_bt fva ptr s =
     (if ptr = 0 then Some (if fva then Inl ''NULL pointer in free'' else Inr s)
      else do {
        res \<leftarrow> bt_lookup s ptr;
        if res = NULL then Some (Inl ''Not a start of block in free'')
        else do {
          blk \<leftarrow> blocks s res;
          let s = s\<lparr>stats := update_heap_allocation (- b_size blk) (stats s)\<rparr>;
          s \<leftarrow> bt_clean_block_init res s;
          s \<leftarrow> bt_remove res s;
          Some (Inr s) } })"

text \<open>
  \<open>buf_setbits\<close> is the call \<^verbatim>\<open>setbits(size, tmp->init_ptr)\<close> on an array of the private
  heap: the routine reads and writes whole 64-bit words, so the words have to lie inside it.
\<close>

definition mem_of :: "u8 list \<Rightarrow> mem" where
  "mem_of arr a = (if unat a < length arr then arr ! unat a else 0)"

definition buf_setbits :: "u64 \<Rightarrow> u8 list \<Rightarrow> u8 list option" where
  "buf_setbits sz arr =
     (if 8 * (unat sz div 64 + 1) \<le> length arr
      then Some (map (\<lambda>i. setbits sz 0 (mem_of arr) (of_nat i)) [0..<length arr]) else None)"

text \<open>The part of \<^verbatim>\<open>realloc\<close> that adapts the initialization record of the block.\<close>

definition realloc_init :: "u64 \<Rightarrow> bt_block \<Rightarrow> bt_block option" where
  "realloc_init sz tmp =
     (if b_init_bytes tmp = 0 then Some tmp
      else if b_init_bytes tmp = b_size tmp then
        (if sz \<le> b_size tmp then Some (tmp\<lparr>b_init_bytes := sz\<rparr>)
         else do {
           let nb = int_of (needed_bytes sz);
           arr \<leftarrow> (if nb < 0 then None else buf_setbits (b_size tmp) (replicate (nat nb) 0));
           Some (tmp\<lparr>b_init_ptr := Some arr\<rparr>) })
      else do {
        let nb = int_of (needed_bytes sz);
        let nb_old = int_of (needed_bytes (b_size tmp));
        arr \<leftarrow> b_init_ptr tmp;
        arr \<leftarrow> (if nb < 0 \<or> nb_old < 0 then None
                else Some (take (nat nb) arr @ replicate (nat nb - nat nb_old) 0));
        let cnt = sum_list (map (\<lambda>x. nbr_bits_to_1 ! unat x) arr);
        let tmp = tmp\<lparr>b_init_bytes := of_nat cnt\<rparr>;
        Some (if b_init_bytes tmp = sz \<or> b_init_bytes tmp = 0 then tmp\<lparr>b_init_ptr := None\<rparr>
              else tmp\<lparr>b_init_ptr := Some arr\<rparr>) })"

definition realloc_bt ::
  "('a mm_state_scheme public_alloc) \<Rightarrow> (loc set \<Rightarrow> loc) \<Rightarrow> bool \<Rightarrow> u64 \<Rightarrow> u64 \<Rightarrow> 'a mm_state_scheme
    \<Rightarrow> (u64 \<times> 'a mm_state_scheme) outcome option" where
  "realloc_bt pa pm fva ptr sz s =
     (if ptr = 0 then do { r \<leftarrow> malloc_bt pa pm sz s; Some (Inr r) }
      else if sz = 0 then do {
        r \<leftarrow> free_bt fva ptr s;
        Some (case r of Inl m \<Rightarrow> Inl m | Inr s \<Rightarrow> Inr (0, s)) }
      else do {
        tmp \<leftarrow> bt_lookup s ptr;
        blk \<leftarrow> blocks s tmp;
        let new_ptr = public_realloc pa s (b_ptr blk) sz;
        if new_ptr = 0 then Some (Inr (0, s))
        else do {
          let s = s\<lparr>stats := update_heap_allocation (- b_size blk) (update_heap_allocation sz (stats s))\<rparr>;
          s \<leftarrow> (if b_ptr blk \<noteq> new_ptr then do {
                  s \<leftarrow> bt_remove tmp s;
                  s \<leftarrow> upd_block tmp (\<lambda>k. k\<lparr>b_ptr := new_ptr\<rparr>) s;
                  bt_insert pm tmp s }
                else Some s);
          blk \<leftarrow> blocks s tmp;
          blk \<leftarrow> realloc_init sz blk;
          s \<leftarrow> upd_block tmp (\<lambda>_. blk\<lparr>b_size := sz, b_is_freeable := True\<rparr>) s;
          Some (Inr (new_ptr, s)) } })"

section \<open>Program initialization\<close>

definition memory_clean_bt :: "'a mm_state_scheme \<Rightarrow> 'a mm_state_scheme option" where
  "memory_clean_bt s = bt_clean s"

text \<open>
  \<open>track_strings\<close> is the loop over \<^verbatim>\<open>argv\<close> or \<^verbatim>\<open>environ\<close>: the argument lists the address
  and the \<^verbatim>\<open>strlen\<close> of each string up to the terminating null pointer.
\<close>

fun track_strings ::
  "(loc set \<Rightarrow> loc) \<Rightarrow> (u64 \<times> u64) list \<Rightarrow> 'a mm_state_scheme \<Rightarrow> 'a mm_state_scheme option" where
  "track_strings pm [] s = Some s"
| "track_strings pm ((a, len) # xs) s = do {
     (_, s) \<leftarrow> store_block_bt pm a (len + 1) s;
     s \<leftarrow> initialize_bt a (len + 1) s;
     track_strings pm xs s }"

definition argv_alloca_bt ::
  "(loc set \<Rightarrow> loc) \<Rightarrow> u64 \<Rightarrow> u64 \<Rightarrow> u32 \<Rightarrow> u64 \<Rightarrow> (u64 \<times> u64) list \<Rightarrow> (u64 \<times> u64) list
    \<Rightarrow> 'a mm_state_scheme \<Rightarrow> 'a mm_state_scheme option" where
  "argv_alloca_bt pm argc_ref argv_ref argc argv args env s = do {
     (_, s) \<leftarrow> store_block_bt pm argc_ref 4 s;
     (_, s) \<leftarrow> store_block_bt pm argv_ref 8 s;
     let argvlen = scast (argc + 1) * 8;
     (_, s) \<leftarrow> store_block_bt pm argv argvlen s;
     s \<leftarrow> initialize_bt argv argvlen s;
     s \<leftarrow> track_strings pm args s;
     track_strings pm env s }"

fun track_safe ::
  "(loc set \<Rightarrow> loc) \<Rightarrow> memory_location list \<Rightarrow> 'a mm_state_scheme \<Rightarrow> 'a mm_state_scheme option" where
  "track_safe pm [] s = Some s"
| "track_safe pm (l # ls) s = do {
     (_, s) \<leftarrow> store_block_bt pm (l_address l) (l_length l) s;
     s \<leftarrow> (if l_is_initialized l then initialize_bt (l_address l) (l_length l) s else Some s);
     track_safe pm ls s }"

text \<open>
  \<^verbatim>\<open>memory_init\<close> on the state; creating the memory spaces, the architecture check, the report
  file and the infinity constants do not touch it.
\<close>

definition memory_init_bt ::
  "(loc set \<Rightarrow> loc) \<Rightarrow> u64 \<Rightarrow> u64 \<Rightarrow> u32 \<Rightarrow> u64 \<Rightarrow> (u64 \<times> u64) list \<Rightarrow> (u64 \<times> u64) list
    \<Rightarrow> safe_state \<Rightarrow> 'a mm_state_scheme \<Rightarrow> 'a mm_state_scheme option" where
  "memory_init_bt pm argc_ref argv_ref argc argv args env safe s = do {
     s \<leftarrow> (if argc_ref \<noteq> 0 then argv_alloca_bt pm argc_ref argv_ref argc argv args env s else Some s);
     track_safe pm (collected safe) s }"

end
