(* ===== verification/Bittree_Init.thy ===== *)
theory Bittree_Init
  imports Bittree_MModel
begin

text \<open>
  Byte-level initialization in the bittree model. A block keeps a count \<^verbatim>\<open>init_bytes\<close> and,
  while partially initialized, one bit per byte; \<open>init_ok\<close> is the invariant that ties the
  two, \<open>byte_init\<close> the meaning. \<open>initialize_blk_spec\<close> and \<open>initialized_blk_spec\<close> show that
  the two loops compute on the meaning, for sizes that the \<^verbatim>\<open>unsigned\<close> counter can reach.
\<close>

section \<open>Invariant and meaning\<close>

definition ibit :: "u8 list \<Rightarrow> nat \<Rightarrow> bool" where
  "ibit arr i \<longleftrightarrow> i < 8 * length arr \<and> bit (arr ! (i div 8)) (i mod 8)"

definition bits_ok :: "nat \<Rightarrow> u8 list \<Rightarrow> u64 \<Rightarrow> bool" where
  "bits_ok n arr cnt \<longleftrightarrow> length arr < 2 ^ 31 \<and> unat cnt = card {i. ibit arr i} \<and>
     (\<forall>i. ibit arr i \<longrightarrow> i < n) \<and> n \<le> 8 * length arr"

definition init_ok :: "bt_block \<Rightarrow> bool" where
  "init_ok blk \<longleftrightarrow> unat (needed_bytes (b_size blk)) < 2 ^ 31 \<and>
     (b_init_bytes blk = 0 \<or> b_init_bytes blk = b_size blk \<or>
      (\<exists>arr. b_init_ptr blk = Some arr \<and> bits_ok (unat (b_size blk)) arr (b_init_bytes blk)))"

definition byte_init :: "bt_block \<Rightarrow> nat \<Rightarrow> bool" where
  "byte_init blk i \<longleftrightarrow> i < unat (b_size blk) \<and>
     (b_init_bytes blk = b_size blk \<or>
      b_init_bytes blk \<noteq> 0 \<and> (\<exists>arr. b_init_ptr blk = Some arr \<and> ibit arr i))"

lemma unat_lt_num64 [simp]: "unat (x :: u64) < 18446744073709551616"
  using unat_lt_64 [of x] by simp

lemma finite_ibit [simp]: "finite {i. ibit arr i}"
  by (rule finite_subset [of _ "{..<8 * length arr}"]) (auto simp: ibit_def)

lemma card_ibit_le: "card {i. ibit arr i} \<le> 8 * length arr"
proof -
  have "{i. ibit arr i} \<subseteq> {..<8 * length arr}" by (auto simp: ibit_def)
  then show ?thesis using card_mono [of "{..<8 * length arr}"] by fastforce
qed

lemma unat_needed_bytes: "unat (needed_bytes sz) = (unat sz + 7) div 8"
proof -
  have "unat sz div 8 + 1 < 18446744073709551616" using unat_le_max64 [of sz] by linarith
  then have e: "unat (sz div 8 + 1) = unat sz div 8 + 1" by (simp add: unat_add_64 unat_div)
  have z: "(sz mod 8 = 0) = (unat sz mod 8 = 0)" by (simp add: word_unat_eq_iff unat_mod)
  have dm: "unat sz = 8 * (unat sz div 8) + unat sz mod 8" "unat sz mod 8 < 8" by simp_all
  show ?thesis
  proof (cases "unat sz mod 8 = 0")
    case True
    then have "(unat sz + 7) div 8 = unat sz div 8" using dm by linarith
    then show ?thesis using True z by (simp add: needed_bytes_def unat_div)
  next
    case False
    then have "(unat sz + 7) div 8 = unat sz div 8 + 1" using dm by linarith
    then show ?thesis using False z e by (simp add: needed_bytes_def)
  qed
qed

lemma int_of_small:
  assumes "unat x < 2 ^ 31"
  shows "int_of x = int (unat x)"
proof -
  have "int (unat x) < int (2 ^ 31)" using assms by (simp only: of_nat_less_iff)
  then have lt: "uint x < 2 ^ 31" by simp
  then have "take_bit 32 (uint x) = uint x"
    by (intro take_bit_int_eq_self) (simp_all add: order_less_trans [of _ "2 ^ 31"])
  then have "uint (ucast x :: u32) = uint x" by (simp add: unsigned_ucast_eq)
  moreover have "signed_take_bit 31 (uint x) = uint x"
    using lt by (intro signed_take_bit_int_eq_self) (simp_all add: order_trans [of _ 0])
  ultimately show ?thesis by (simp add: int_of_def sint_uint)
qed

text \<open>The slot of byte \<open>j\<close> of a block.\<close>

lemma init_slot_eq:
  assumes "unat off = j" and "j < 8 * length arr" and "length arr < 2 ^ 31"
  shows "init_slot off arr = Some (j div 8, j mod 8)"
proof -
  have d: "unat (off div 8) = j div 8" "unat (off mod 8) = j mod 8"
    using assms(1) by (simp_all add: unat_div unat_mod)
  have lt: "j div 8 < length arr" using assms(2) by linarith
  then have "int_of (off div 8) = int (j div 8)"
    using int_of_small [of "off div 8"] d(1) assms(3) by simp
  then show ?thesis using d lt by (simp add: init_slot_def Let_def)
qed

lemma ibit_set:
  assumes "j < 8 * length arr"
  shows "ibit (arr[j div 8 := setbit (j mod 8) (arr ! (j div 8))]) i \<longleftrightarrow> ibit arr i \<or> i = j"
proof -
  have lt: "j div 8 < length arr" using assms by linarith
  have eq: "i div 8 = j div 8 \<Longrightarrow> i mod 8 = j mod 8 \<Longrightarrow> i = j"
    by (metis div_mult_mod_eq)
  show ?thesis
    using assms lt eq by (auto simp: ibit_def nth_list_update)
qed

lemma bits_ok_set:
  assumes ok: "bits_ok n arr cnt" and "j < n" and new: "\<not> ibit arr j"
  shows "bits_ok n (arr[j div 8 := setbit (j mod 8) (arr ! (j div 8))]) (cnt + 1)"
proof -
  have j: "j < 8 * length arr" using assms by (auto simp: bits_ok_def)
  have e: "{i. ibit (arr[j div 8 := setbit (j mod 8) (arr ! (j div 8))]) i} = insert j {i. ibit arr i}"
    using ibit_set [OF j] by auto
  have "unat cnt + 1 < 2 ^ 64"
    using ok card_ibit_le [of arr] by (auto simp: bits_ok_def)
  then have "unat (cnt + 1) = unat cnt + 1" by (simp add: unat_add_64)
  then show ?thesis
    using ok new assms(2) ibit_set [OF j] unfolding bits_ok_def e by simp
qed

section \<open>The loops\<close>

text \<open>One iteration: the counter, and the offset it stands for.\<close>

lemma unat_ucast_32 [simp]: "unat (ucast (i :: u32) :: u64) = unat i"
proof -
  have "unat i < 2 ^ 64" using unsigned_less [of i, where ?'a = nat] by simp
  then show ?thesis by (simp add: unsigned_ucast_eq take_bit_nat_eq_self)
qed

lemma counter_step:
  assumes "unat sz < 2 ^ 32" and "ucast (i :: u32) < (sz :: u64)"
  shows "unat (i + 1) = unat i + 1" and "unat i < unat sz"
proof -
  show lt: "unat i < unat sz" using assms(2) by (simp add: word_less_nat_alt)
  then show "unat (i + 1) = unat i + 1" using assms(1) by (simp add: unat_word_ariths)
qed

lemma loop_offset:
  assumes "unat (ptr - p) = off" and "unat i < unat (sz :: u64)" and "off + unat sz \<le> n" and "n < 2 ^ 64"
  shows "unat (ptr - p + ucast (i :: u32) :: u64) = off + unat i"
  using assms by (subst unat_add_64) simp_all

lemma initialize_loop_spec:
  assumes "unat sz < 2 ^ 32" and "unat (ptr - b_ptr blk) + unat sz \<le> n" and "n < 2 ^ 64"
    and "unat i \<le> unat sz" and "b_init_ptr blk = Some arr" and "bits_ok n arr (b_init_bytes blk)"
  shows "\<exists>arr' cnt'. initialize_loop ptr sz i blk = Some (blk\<lparr>b_init_ptr := Some arr', b_init_bytes := cnt'\<rparr>)
    \<and> bits_ok n arr' cnt'
    \<and> (\<forall>j. ibit arr' j \<longleftrightarrow> ibit arr j \<or>
          unat (ptr - b_ptr blk) + unat i \<le> j \<and> j < unat (ptr - b_ptr blk) + unat sz)"
  using assms(2-6)
proof (induction "unat sz - unat i" arbitrary: i blk arr)
  case 0
  then have "\<not> ucast i < sz" "unat i = unat sz" by (simp_all add: word_less_nat_alt)
  then have "initialize_loop ptr sz i blk = Some (blk\<lparr>b_init_ptr := Some arr, b_init_bytes := b_init_bytes blk\<rparr>)"
    using 0 by (subst initialize_loop.simps) simp
  then show ?case using 0 \<open>unat i = unat sz\<close> by (intro exI conjI) auto
next
  case (Suc m)
  let ?off = "unat (ptr - b_ptr blk)"
  define j where "j = ?off + unat i"
  have lt: "ucast i < sz" using Suc.hyps(2) by (simp add: word_less_nat_alt)
  note st = counter_step [OF assms(1) lt]
  have j: "j < n" "unat (ptr - b_ptr blk + ucast i) = j"
    using Suc.prems(1) st(2) loop_offset [OF refl st(2) Suc.prems(1,2)] by (simp_all add: j_def)
  have jl: "j < 8 * length arr" "length arr < 2 ^ 31" using j(1) Suc.prems(5) by (auto simp: bits_ok_def)
  note slot = init_slot_eq [OF j(2) jl]
  define blk1 where "blk1 = (if \<not> checkbit (j mod 8) (arr ! (j div 8))
     then blk\<lparr>b_init_ptr := Some (arr[j div 8 := setbit (j mod 8) (arr ! (j div 8))]),
              b_init_bytes := b_init_bytes blk + 1\<rparr> else blk)"
  define arr1 where "arr1 = (if ibit arr j then arr else arr[j div 8 := setbit (j mod 8) (arr ! (j div 8))])"
  have ck: "bit (arr ! (j div 8)) (j mod 8) = ibit arr j" using jl by (simp add: ibit_def)
  have b1: "b_init_ptr blk1 = Some arr1" "bits_ok n arr1 (b_init_bytes blk1)" "b_ptr blk1 = b_ptr blk"
    using Suc.prems(4,5) bits_ok_set [OF Suc.prems(5) j(1)] by (auto simp: blk1_def arr1_def ck)
  have i1: "ibit arr1 i' \<longleftrightarrow> ibit arr i' \<or> i' = j" for i' using ibit_set [OF jl(1)] by (auto simp: arr1_def)
  have step: "initialize_loop ptr sz i blk = initialize_loop ptr sz (i + 1) blk1"
    using lt Suc.prems(4) slot by (subst initialize_loop.simps) (simp add: blk1_def)
  have m: "m = unat sz - unat (i + 1)" using Suc.hyps(2) st by linarith
  obtain arr' cnt' where ih: "initialize_loop ptr sz (i + 1) blk1 = Some (blk1\<lparr>b_init_ptr := Some arr', b_init_bytes := cnt'\<rparr>)"
    "bits_ok n arr' cnt'" "\<And>j'. ibit arr' j' \<longleftrightarrow> ibit arr1 j' \<or> ?off + unat (i + 1) \<le> j' \<and> j' < ?off + unat sz"
    using Suc.hyps(1) [of "i + 1" blk1 arr1, OF m] Suc.prems(1,2) st b1 by auto
  have "blk1\<lparr>b_init_ptr := Some arr', b_init_bytes := cnt'\<rparr> = blk\<lparr>b_init_ptr := Some arr', b_init_bytes := cnt'\<rparr>"
    by (simp add: blk1_def)
  then show ?case
    using step ih st i1 by (intro exI [of _ arr'] exI [of _ cnt']) (auto simp: j_def)
qed

lemma initialized_loop_spec:
  assumes "unat sz < 2 ^ 32" and "unat (ptr - b_ptr blk) + unat sz \<le> n" and "n < 2 ^ 64"
    and "unat i \<le> unat sz" and "b_init_ptr blk = Some arr" and "bits_ok n arr (b_init_bytes blk)"
  shows "initialized_loop ptr sz i blk =
    Some (\<forall>j. unat (ptr - b_ptr blk) + unat i \<le> j \<and> j < unat (ptr - b_ptr blk) + unat sz \<longrightarrow> ibit arr j)"
  using assms(4)
proof (induction "unat sz - unat i" arbitrary: i)
  case 0
  then have "\<not> ucast i < sz" "unat i = unat sz" by (simp_all add: word_less_nat_alt)
  then show ?case using 0 by (subst initialized_loop.simps) auto
next
  case (Suc m)
  let ?off = "unat (ptr - b_ptr blk)"
  define j where "j = ?off + unat i"
  have lt: "ucast i < sz" using Suc.hyps(2) by (simp add: word_less_nat_alt)
  note st = counter_step [OF assms(1) lt]
  have j: "j < n" "unat (ptr - b_ptr blk + ucast i) = j"
    using assms(2) st(2) loop_offset [OF refl st(2) assms(2,3)] by (simp_all add: j_def)
  have jl: "j < 8 * length arr" "length arr < 2 ^ 31" using j(1) assms(6) by (auto simp: bits_ok_def)
  note slot = init_slot_eq [OF j(2) jl]
  have ck: "bit (arr ! (j div 8)) (j mod 8) = ibit arr j" using jl by (simp add: ibit_def)
  have "initialized_loop ptr sz (i + 1) blk =
      Some (\<forall>j. ?off + unat (i + 1) \<le> j \<and> j < ?off + unat sz \<longrightarrow> ibit arr j)"
    using Suc.hyps st by (intro Suc.hyps(1)) auto
  moreover have "initialized_loop ptr sz i blk =
      (if ibit arr j then initialized_loop ptr sz (i + 1) blk else Some False)"
    using lt assms(5) slot ck by (subst initialized_loop.simps) simp
  moreover have "(?off + unat i \<le> j' \<and> j' < ?off + unat sz) = (j' = j \<or> ?off + unat (i + 1) \<le> j' \<and> j' < ?off + unat sz)" for j'
    using st by (auto simp: j_def)
  ultimately show ?case by auto
qed

section \<open>Blocks\<close>

lemma bits_ok_zero:
  assumes "unat (needed_bytes sz) < 2 ^ 31"
  shows "bits_ok (unat sz) (replicate (unat (needed_bytes sz)) 0) 0"
proof -
  have "\<not> ibit (replicate k 0) i" for k i
  proof
    assume "ibit (replicate k 0) i"
    then have "i div 8 < k" "bit (replicate k (0 :: u8) ! (i div 8)) (i mod 8)"
      by (auto simp: ibit_def)
    then show False by simp
  qed
  then show ?thesis using assms by (simp add: bits_ok_def unat_needed_bytes)
qed

lemma init_all:
  assumes "bits_ok n arr cnt" and "unat cnt = n"
  shows "ibit arr i \<longleftrightarrow> i < n"
proof -
  have "{i. ibit arr i} \<subseteq> {..<n}" "card {i. ibit arr i} = card {..<n}"
    using assms by (auto simp: bits_ok_def)
  then have "{i. ibit arr i} = {..<n}" by (intro card_subset_eq) simp_all
  then show ?thesis by auto
qed

lemma init_none:
  assumes "bits_ok n arr 0"
  shows "\<not> ibit arr i"
  using assms by (auto simp: bits_ok_def)

text \<open>The array and count that the loop starts from.\<close>

lemma init_start:
  assumes "init_ok blk" and "b_init_bytes blk \<noteq> b_size blk"
  shows "\<exists>arr. bits_ok (unat (b_size blk)) arr (b_init_bytes blk) \<and> (\<forall>i. ibit arr i = byte_init blk i) \<and>
    initialize_blk ptr sz blk =
      do { blk \<leftarrow> initialize_loop ptr sz 0 (blk\<lparr>b_init_ptr := Some arr\<rparr>);
           Some (if b_init_bytes blk = b_size blk then blk\<lparr>b_init_ptr := None\<rparr> else blk) }"
proof (cases "b_init_bytes blk = 0")
  case True
  define arr where "arr = replicate (unat (needed_bytes (b_size blk))) (0 :: u8)"
  have lt: "unat (needed_bytes (b_size blk)) < 2 ^ 31" using assms(1) by (simp add: init_ok_def)
  have ok: "bits_ok (unat (b_size blk)) arr 0" using bits_ok_zero [OF lt] by (simp add: arr_def)
  then have "\<forall>i. ibit arr i = byte_init blk i"
    using init_none [OF ok] True assms(2) by (simp add: byte_init_def)
  moreover have "initialize_blk ptr sz blk =
      do { blk \<leftarrow> initialize_loop ptr sz 0 (blk\<lparr>b_init_ptr := Some arr\<rparr>);
           Some (if b_init_bytes blk = b_size blk then blk\<lparr>b_init_ptr := None\<rparr> else blk) }"
    using True assms(2) int_of_small [OF lt] by (simp add: initialize_blk_def arr_def)
  moreover have "bits_ok (unat (b_size blk)) arr (b_init_bytes blk)" using ok True by simp
  ultimately show ?thesis by blast
next
  case False
  then obtain arr where arr: "b_init_ptr blk = Some arr" "bits_ok (unat (b_size blk)) arr (b_init_bytes blk)"
    using assms by (auto simp: init_ok_def)
  have same: "blk\<lparr>b_init_ptr := Some arr\<rparr> = blk" using arr(1) by simp
  have "\<forall>i. ibit arr i = byte_init blk i"
    using arr False assms(2) by (auto simp: byte_init_def bits_ok_def)
  then show ?thesis using arr False assms(2) by (intro exI [of _ arr]) (simp add: initialize_blk_def same)
qed

lemma initialize_blk_spec:
  assumes ok: "init_ok blk" and "unat sz < 2 ^ 32" and "unat (ptr - b_ptr blk) + unat sz \<le> unat (b_size blk)"
  shows "\<exists>p c. initialize_blk ptr sz blk = Some (blk\<lparr>b_init_ptr := p, b_init_bytes := c\<rparr>)
    \<and> init_ok (blk\<lparr>b_init_ptr := p, b_init_bytes := c\<rparr>)
    \<and> (\<forall>j. byte_init (blk\<lparr>b_init_ptr := p, b_init_bytes := c\<rparr>) j \<longleftrightarrow> byte_init blk j \<or>
          unat (ptr - b_ptr blk) \<le> j \<and> j < unat (ptr - b_ptr blk) + unat sz)"
proof (cases "b_init_bytes blk = b_size blk")
  case True
  then show ?thesis
    using assms by (intro exI [of _ "b_init_ptr blk"] exI [of _ "b_init_bytes blk"])
      (auto simp: initialize_blk_def byte_init_def init_ok_def)
next
  case False
  obtain arr where st: "bits_ok (unat (b_size blk)) arr (b_init_bytes blk)" "\<forall>i. ibit arr i = byte_init blk i"
    "initialize_blk ptr sz blk =
      do { blk \<leftarrow> initialize_loop ptr sz 0 (blk\<lparr>b_init_ptr := Some arr\<rparr>);
           Some (if b_init_bytes blk = b_size blk then blk\<lparr>b_init_ptr := None\<rparr> else blk) }"
    using init_start [OF ok False, of ptr sz] by blast
  obtain arr' c where l:
    "initialize_loop ptr sz 0 (blk\<lparr>b_init_ptr := Some arr\<rparr>) = Some (blk\<lparr>b_init_ptr := Some arr', b_init_bytes := c\<rparr>)"
    "bits_ok (unat (b_size blk)) arr' c"
    "\<And>j. ibit arr' j \<longleftrightarrow> byte_init blk j \<or> unat (ptr - b_ptr blk) \<le> j \<and> j < unat (ptr - b_ptr blk) + unat sz"
    using initialize_loop_spec [of sz ptr "blk\<lparr>b_init_ptr := Some arr\<rparr>" "unat (b_size blk)" 0 arr] assms(2,3) st by auto
  define p where "p = (if c = b_size blk then None else Some arr')"
  have "initialize_blk ptr sz blk = Some (blk\<lparr>b_init_ptr := p, b_init_bytes := c\<rparr>)"
    using st(3) l(1) by (simp add: p_def)
  moreover have "init_ok (blk\<lparr>b_init_ptr := p, b_init_bytes := c\<rparr>)"
    using ok l(2) by (auto simp: init_ok_def p_def)
  moreover have "byte_init (blk\<lparr>b_init_ptr := p, b_init_bytes := c\<rparr>) j \<longleftrightarrow> ibit arr' j" for j
  proof (cases "c = b_size blk")
    case True
    then show ?thesis using init_all [OF l(2), of j] by (simp add: byte_init_def)
  next
    case False
    have "\<not> ibit arr' j" if "c = 0" using l(2) that by (intro init_none) simp
    moreover have "j < unat (b_size blk)" if "ibit arr' j" using l(2) that by (simp add: bits_ok_def)
    ultimately show ?thesis using False by (auto simp: byte_init_def p_def)
  qed
  ultimately show ?thesis using l(3) by blast
qed

lemma initialized_blk_spec:
  assumes ok: "init_ok blk" and "unat sz < 2 ^ 32" and "0 < unat sz"
    and "unat (ptr - b_ptr blk) + unat sz \<le> unat (b_size blk)"
  shows "initialized_blk ptr sz blk =
    Some (\<forall>j. unat (ptr - b_ptr blk) \<le> j \<and> j < unat (ptr - b_ptr blk) + unat sz \<longrightarrow> byte_init blk j)"
proof (cases "b_init_bytes blk = 0 \<or> b_init_bytes blk = b_size blk")
  case True
  then show ?thesis using assms(3,4) by (auto simp: initialized_blk_def byte_init_def)
next
  case False
  then obtain arr where arr: "b_init_ptr blk = Some arr" "bits_ok (unat (b_size blk)) arr (b_init_bytes blk)"
    using ok by (auto simp: init_ok_def)
  have "ibit arr j = byte_init blk j" for j using arr False by (auto simp: byte_init_def bits_ok_def)
  then show ?thesis
    using initialized_loop_spec [OF assms(2,4) unat_lt_64 _ arr, of 0] False by (simp add: initialized_blk_def)
qed

end
