(* ===== verification/Bittree_Correct.thy ===== *)
theory Bittree_Correct
  imports Bittree_Init
begin

text \<open>
  The operations of the bittree memory model against the tracked blocks. \<open>mm_inv s M\<close> is
  the invariant: the trie represents the map \<open>M\<close> from base addresses to blocks, the blocks
  are apart, none starts at \<^verbatim>\<open>NULL\<close>, and every initialization record is consistent. Each
  operation that changes state is shown to return, to keep the invariant and to have exactly
  the intended effect on \<open>M\<close> and on the blocks.
\<close>

section \<open>Invariant\<close>

definition mm_inv :: "'a mm_state_scheme \<Rightarrow> (u64 \<rightharpoonup> loc) \<Rightarrow> bool" where
  "mm_inv s M \<longleftrightarrow> bt_index s M \<and> bt_apart s M \<and> M 0 = None \<and>
     (\<forall>b\<in>ran M. \<forall>blk. blocks s b = Some blk \<longrightarrow> init_ok blk)"

definition region_free :: "'a mm_state_scheme \<Rightarrow> (u64 \<rightharpoonup> loc) \<Rightarrow> u64 \<Rightarrow> u64 \<Rightarrow> bool" where
  "region_free s M ptr sz \<longleftrightarrow> ptr \<noteq> 0 \<and> unat ptr + unat sz < 2 ^ 64 \<and>
     (\<forall>b\<in>ran M. \<forall>blk. blocks s b = Some blk \<longrightarrow> b_ptr blk \<noteq> ptr
        \<and> (b_ptr blk < ptr \<longrightarrow> unat (b_ptr blk) + unat (b_size blk) \<le> unat ptr)
        \<and> (ptr < b_ptr blk \<longrightarrow> unat ptr + unat sz \<le> unat (b_ptr blk)))"

text \<open>The sizes whose initialization record fits the \<^verbatim>\<open>int\<close> that indexes it.\<close>

definition trackable :: "u64 \<Rightarrow> bool" where
  "trackable sz \<longleftrightarrow> unat (needed_bytes sz) < 2 ^ 31"

lemma mm_invD:
  "mm_inv s M \<Longrightarrow> bt_index s M" "mm_inv s M \<Longrightarrow> bt_apart s M" "mm_inv s M \<Longrightarrow> M 0 = None"
  "mm_inv s M \<Longrightarrow> b \<in> ran M \<Longrightarrow> blocks s b = Some blk \<Longrightarrow> init_ok blk"
  by (auto simp: mm_inv_def)

lemma index_block:
  assumes "bt_index s M" and "M x = Some b"
  shows "\<exists>blk. blocks s b = Some blk \<and> b_ptr blk = x" and "b \<noteq> NULL"
  using bix.rep_base [OF assms] by (auto simp: bt_base_def)

lemma index_ran:
  assumes "bt_index s M" and "b \<in> ran M"
  shows "\<exists>blk. blocks s b = Some blk \<and> M (b_ptr blk) = Some b \<and> b \<noteq> NULL"
proof -
  obtain x where x: "M x = Some b" using assms(2) by (auto simp: ran_def)
  then show ?thesis using index_block [OF assms(1) x] by auto
qed

lemma index_inj:
  assumes "bt_index s M" and "M x = Some b" and "M y = Some b"
  shows "x = y"
  using index_block [OF assms(1,2)] index_block [OF assms(1,3)] by auto

text \<open>Updates of blocks that keep their base addresses do not touch the trie.\<close>

lemma bt_rep_blocks:
  assumes "bt_rep s T" and "\<And>a b. (a, b) \<in> set (content T) \<Longrightarrow> \<exists>blk. bs b = Some blk \<and> b_ptr blk = a"
    and "finite (dom bs)" and "NULL \<notin> dom bs"
  shows "bt_rep (s\<lparr>blocks := bs\<rparr>) T"
  using assms by (cases T) (auto simp: bt_rep_def leaf_blocks_def)

lemma bt_index_blocks:
  assumes "bt_index s M" and "\<And>x b. M x = Some b \<Longrightarrow> \<exists>blk. bs b = Some blk \<and> b_ptr blk = x"
    and "finite (dom bs)" and "NULL \<notin> dom bs"
  shows "bt_index (s\<lparr>blocks := bs\<rparr>) M"
proof -
  obtain T where T: "bt_rep s T" "M = map_of (content T)" using assms(1) by (auto simp: bt_index_def)
  have "bt_rep (s\<lparr>blocks := bs\<rparr>) T"
    using T assms(2-4) content_map [OF T(1)] by (intro bt_rep_blocks) auto
  then show ?thesis using T(2) by (auto simp: bt_index_def)
qed

lemma bt_index_finite: "bt_index s M \<Longrightarrow> finite (dom (blocks s)) \<and> NULL \<notin> dom (blocks s)"
  by (auto simp: bt_index_def bt_rep_def)

lemma bt_index_live: "bt_index s M \<Longrightarrow> finite (live s)"
  by (auto simp: bt_index_def live_def bt_rep_def split: option.splits)

lemma bt_index_cong:
  "bt_index s M \<Longrightarrow> nodes s' = nodes s \<Longrightarrow> blocks s' = blocks s \<Longrightarrow> bt_root s' = bt_root s \<Longrightarrow> bt_index s' M"
  by (simp add: bt_index_def bt_rep_def cong: option.case_cong)

lemma mm_inv_cong:
  "mm_inv s M \<Longrightarrow> nodes s' = nodes s \<Longrightarrow> blocks s' = blocks s \<Longrightarrow> bt_root s' = bt_root s \<Longrightarrow> mm_inv s' M"
  by (auto simp: mm_inv_def bt_apart_def intro: bt_index_cong)

lemma mm_inv_upd:
  assumes inv: "mm_inv s M" and b: "b \<in> ran M" "blocks s b = Some blk"
    and k: "b_ptr k = b_ptr blk" "b_size k = b_size blk" "init_ok k"
  shows "mm_inv (s\<lparr>blocks := (blocks s)(b \<mapsto> k)\<rparr>) M"
proof -
  have "bt_index (s\<lparr>blocks := (blocks s)(b \<mapsto> k)\<rparr>) M"
  proof (rule bt_index_blocks [OF mm_invD(1) [OF inv]])
    show "\<exists>blk. ((blocks s)(b \<mapsto> k)) c = Some blk \<and> b_ptr blk = x" if "M x = Some c" for x c
      using index_block(1) [OF mm_invD(1) [OF inv] that] b k(1) by auto
    show "finite (dom ((blocks s)(b \<mapsto> k)))" "NULL \<notin> dom ((blocks s)(b \<mapsto> k))"
      using bt_index_finite [OF mm_invD(1) [OF inv]] b(2) by auto
  qed
  moreover have "bt_apart (s\<lparr>blocks := (blocks s)(b \<mapsto> k)\<rparr>) M"
    using mm_invD(2) [OF inv] b k by (fastforce simp: bt_apart_def blocks_apart_def no_wrap_def)
  ultimately show ?thesis using inv k(3) by (auto simp: mm_inv_def)
qed

lemma same_rest_stats: "same_rest s s' \<Longrightarrow> stats s' = stats (s :: 'a mm_state_scheme)"
  unfolding same_rest_def by (metis mm_state.select_convs(1) mm_state.surjective mm_state.update_convs(1) bt_state.update_convs(1,3))

lemma insert_tracked:
  assumes "bt_index (s :: 'a mm_state_scheme) M" and "fresh_alloc pm" and "M x = None" and "bt_base s b = Some x"
  shows "\<exists>s'. bt_insert pm b s = Some s' \<and> bt_index s' (M(x \<mapsto> b)) \<and> blocks s' = blocks s \<and> stats s' = stats s"
proof -
  obtain T where T: "bt_rep s T" "M = map_of (content T)" using assms(1) by (auto simp: bt_index_def)
  show ?thesis using index_insert [OF T assms(2,4,3)] same_restD same_rest_stats by metis
qed

lemma remove_tracked:
  assumes "bt_index (s :: 'a mm_state_scheme) M" and "M x = Some b"
  shows "\<exists>s'. bt_remove b s = Some s' \<and> bt_index s' (M(x := None)) \<and> blocks s' = blocks s \<and> stats s' = stats s"
proof -
  obtain T where T: "bt_rep s T" "M = map_of (content T)" using assms(1) by (auto simp: bt_index_def)
  show ?thesis using index_remove [OF T assms(2)] same_restD same_rest_stats by metis
qed

section \<open>Finding the block of an address\<close>

text \<open>\<open>holds s M b blk x\<close>: the tracked block \<open>b\<close>, with record \<open>blk\<close>, contains address \<open>x\<close>.\<close>

definition holds :: "'a mm_state_scheme \<Rightarrow> (u64 \<rightharpoonup> loc) \<Rightarrow> loc \<Rightarrow> bt_block \<Rightarrow> u64 \<Rightarrow> bool" where
  "holds s M b blk x \<longleftrightarrow> b \<in> ran M \<and> blocks s b = Some blk \<and> block_has blk x"

lemma holds_not_0: "mm_inv s M \<Longrightarrow> holds s M b blk x \<Longrightarrow> x \<noteq> 0"
proof
  assume inv: "mm_inv s M" and h: "holds s M b blk x" and "x = 0"
  then have "b_ptr blk = 0" by (auto simp: holds_def block_has_def)
  moreover have "M (b_ptr blk) = Some b"
    using index_ran [OF mm_invD(1) [OF inv], of b] h by (auto simp: holds_def)
  ultimately show False using mm_invD(3) [OF inv] by simp
qed

lemma find_holds:
  assumes inv: "mm_inv s M" and h: "holds s M b blk x"
  shows "bt_find s x = Some b \<and> b \<noteq> NULL"
  using bix.find_rep [OF mm_invD(1,2) [OF inv] holds_not_0 [OF inv h], of b] h
  by (auto simp: holds_def bt_covers_def)

lemma find_cases:
  assumes inv: "mm_inv s M"
  obtains (none) "bt_find s x = Some NULL" and "\<And>b blk. \<not> holds s M b blk x"
    | (some) b blk where "bt_find s x = Some b" and "b \<noteq> NULL" and "holds s M b blk x"
proof (cases "\<exists>b blk. holds s M b blk x")
  case True
  then show ?thesis using some find_holds [OF inv] by blast
next
  case False
  have "bt_find s x = Some NULL"
  proof (cases "x = 0")
    case True
    then show ?thesis by (simp add: bt_find_def)
  next
    case x: False
    obtain r where r: "bt_find s x = Some r" using bix.find_rep [OF mm_invD(1,2) [OF inv] x] by blast
    have "r = NULL"
      using bix.find_rep [OF mm_invD(1,2) [OF inv] x, of r] r False by (auto simp: holds_def bt_covers_def)
    then show ?thesis using r by simp
  qed
  then show ?thesis using none False by blast
qed

lemma holds_unique:
  assumes "mm_inv s M" and "holds s M b blk x" and "holds s M c k x"
  shows "b = c" and "blk = k"
  using find_holds [OF assms(1,2)] find_holds [OF assms(1,3)] assms(2,3) by (auto simp: holds_def)

lemma holds_offset:
  assumes "mm_inv s M" and "holds s M b blk x"
  shows "unat (x - b_ptr blk) = unat x - unat (b_ptr blk)" and "unat (x - b_ptr blk) \<le> unat (b_size blk)"
proof -
  have le: "b_ptr blk \<le> x" using assms(2) by (simp add: holds_def block_has_def)
  then show e: "unat (x - b_ptr blk) = unat x - unat (b_ptr blk)" by (rule unat_sub_64)
  then show "unat (x - b_ptr blk) \<le> unat (b_size blk)" using assms(2) by (auto simp: holds_def block_has_def)
qed

lemma lookup_cases:
  assumes inv: "mm_inv s M" and "M \<noteq> Map.empty"
  shows "bt_lookup s x = Some (case M x of None \<Rightarrow> NULL | Some b \<Rightarrow> b)"
  using bix.lookup_rep [OF mm_invD(1) [OF inv] assms(2)] .

section \<open>Initialization\<close>

lemma initialize_tracked:
  assumes inv: "mm_inv s M" and h: "holds s M b blk ptr"
    and sz: "unat sz < 2 ^ 32" and rng: "unat (ptr - b_ptr blk) + unat sz \<le> unat (b_size blk)"
  shows "\<exists>p c. let k = blk\<lparr>b_init_ptr := p, b_init_bytes := c\<rparr> in
    initialize_bt ptr sz s = Some (s\<lparr>blocks := (blocks s)(b \<mapsto> k)\<rparr>) \<and>
    mm_inv (s\<lparr>blocks := (blocks s)(b \<mapsto> k)\<rparr>) M \<and>
    (\<forall>j. byte_init k j \<longleftrightarrow> byte_init blk j \<or>
       unat (ptr - b_ptr blk) \<le> j \<and> j < unat (ptr - b_ptr blk) + unat sz)"
proof -
  have b: "b \<in> ran M" "blocks s b = Some blk" using h by (simp_all add: holds_def)
  obtain p c where k: "initialize_blk ptr sz blk = Some (blk\<lparr>b_init_ptr := p, b_init_bytes := c\<rparr>)"
    "init_ok (blk\<lparr>b_init_ptr := p, b_init_bytes := c\<rparr>)"
    "\<forall>j. byte_init (blk\<lparr>b_init_ptr := p, b_init_bytes := c\<rparr>) j \<longleftrightarrow> byte_init blk j \<or>
       unat (ptr - b_ptr blk) \<le> j \<and> j < unat (ptr - b_ptr blk) + unat sz"
    using initialize_blk_spec [OF mm_invD(4) [OF inv b] sz rng] by blast
  have "initialize_bt ptr sz s = Some (s\<lparr>blocks := (blocks s)(b \<mapsto> blk\<lparr>b_init_ptr := p, b_init_bytes := c\<rparr>)\<rparr>)"
    using find_holds [OF inv h] holds_not_0 [OF inv h] b(2) k(1) by (simp add: initialize_bt_def upd_block_def)
  moreover have "mm_inv (s\<lparr>blocks := (blocks s)(b \<mapsto> blk\<lparr>b_init_ptr := p, b_init_bytes := c\<rparr>)\<rparr>) M"
    using mm_inv_upd [OF inv b _ _ k(2)] by simp
  ultimately show ?thesis using k(3) by (auto simp: Let_def)
qed

lemma initialized_tracked:
  assumes inv: "mm_inv s M" and h: "holds s M b blk ptr"
    and sz: "unat sz < 2 ^ 32" "0 < unat sz" and rng: "unat (ptr - b_ptr blk) + unat sz \<le> unat (b_size blk)"
  shows "initialized_bt ptr sz s =
    Some (\<forall>j. unat (ptr - b_ptr blk) \<le> j \<and> j < unat (ptr - b_ptr blk) + unat sz \<longrightarrow> byte_init blk j)"
  using find_holds [OF inv h] h initialized_blk_spec [OF mm_invD(4) [OF inv] sz rng]
  by (auto simp: initialized_bt_def holds_def)

section \<open>Validity\<close>

lemma sub_room:
  "unat a \<le> unat (n :: u64) \<Longrightarrow> (sz \<le> n - a) = (unat a + unat sz \<le> unat n)"
  by (auto simp: word_le_nat_alt unat_sub_64)

definition access ::
  "'a mm_state_scheme \<Rightarrow> (u64 \<rightharpoonup> loc) \<Rightarrow> bool \<Rightarrow> u64 \<Rightarrow> u64 \<Rightarrow> u64 \<Rightarrow> loc \<Rightarrow> bt_block \<Rightarrow> bool" where
  "access s M weak ptr sz base b blk \<longleftrightarrow> holds s M b blk ptr \<and> (weak \<or> holds s M b blk base) \<and>
     unat (ptr - b_ptr blk) + unat sz \<le> unat (b_size blk)"

lemma access_unique:
  "mm_inv s M \<Longrightarrow> access s M weak ptr sz base b blk \<Longrightarrow> access s M weak ptr sz base c k \<Longrightarrow> b = c \<and> blk = k"
  using holds_unique [of s M b blk ptr c k] by (simp add: access_def)

lemma lookup_allocated_spec:
  assumes inv: "mm_inv s M"
  shows "\<exists>r. lookup_allocated weak ptr sz base s = Some r \<and>
    (r \<noteq> NULL \<longrightarrow> (\<exists>blk. access s M weak ptr sz base r blk)) \<and>
    (r = NULL \<longrightarrow> (\<forall>b blk. \<not> access s M weak ptr sz base b blk))"
  using inv
proof (cases rule: find_cases [where x = ptr])
  case none
  then show ?thesis by (auto simp: lookup_allocated_def access_def)
next
  case (some b blk)
  have blk: "blocks s b = Some blk" using some(3) by (simp add: holds_def)
  have room: "(sz \<le> b_size blk - (ptr - b_ptr blk)) = (unat (ptr - b_ptr blk) + unat sz \<le> unat (b_size blk))"
    by (rule sub_room [OF holds_offset(2) [OF inv some(3)]])
  have u: "holds s M c k ptr \<Longrightarrow> c = b \<and> k = blk" for c k using holds_unique [OF inv some(3)] by metis
  have same: "\<exists>c. (if weak then Some True
      else do { c \<leftarrow> bt_find s base; if c = NULL then Some False
                else do { k \<leftarrow> blocks s c; Some (b_ptr blk = b_ptr k) } }) = Some c \<and>
      c = (weak \<or> holds s M b blk base)"
    using inv
  proof (cases rule: find_cases [where x = base])
    case none
    then show ?thesis by auto
  next
    case (some c k)
    have "b_ptr blk = b_ptr k \<longleftrightarrow> holds s M b blk base"
    proof
      assume "b_ptr blk = b_ptr k"
      moreover have "M (b_ptr blk) = Some b" "M (b_ptr k) = Some c"
        using index_ran [OF mm_invD(1) [OF inv]] some(3) \<open>holds s M b blk ptr\<close> by (force simp: holds_def)+
      ultimately show "holds s M b blk base" using some(3) blk by (simp add: holds_def)
    next
      assume "holds s M b blk base"
      then show "b_ptr blk = b_ptr k" using holds_unique [OF inv some(3)] by auto
    qed
    then show ?thesis using some by (auto simp: holds_def)
  qed
  then obtain c where c: "(if weak then Some True
      else do { c \<leftarrow> bt_find s base; if c = NULL then Some False
                else do { k \<leftarrow> blocks s c; Some (b_ptr blk = b_ptr k) } }) = Some c"
    "c = (weak \<or> holds s M b blk base)" by blast
  have r: "lookup_allocated weak ptr sz base s =
      Some (if c \<and> unat (ptr - b_ptr blk) + unat sz \<le> unat (b_size blk) then b else NULL)"
    using some(1,2) blk room c(1) by (simp add: lookup_allocated_def)
  show ?thesis
  proof (cases "c \<and> unat (ptr - b_ptr blk) + unat sz \<le> unat (b_size blk)")
    case True
    then have "access s M weak ptr sz base b blk" using some(3) c(2) by (simp add: access_def)
    then show ?thesis using r True some(2) by auto
  next
    case False
    then have "\<not> access s M weak ptr sz base d k" for d k using u [of d k] c(2) by (auto simp: access_def)
    then show ?thesis using r False by auto
  qed
qed

lemma valid_read_spec:
  assumes inv: "mm_inv s M"
  shows "valid_read_bt weak ptr sz base s = Some (\<exists>b blk. access s M weak ptr sz base b blk)"
proof -
  obtain r where r: "lookup_allocated weak ptr sz base s = Some r"
    "r \<noteq> NULL \<longrightarrow> (\<exists>blk. access s M weak ptr sz base r blk)"
    "r = NULL \<longrightarrow> (\<forall>b blk. \<not> access s M weak ptr sz base b blk)"
    using lookup_allocated_spec [OF inv] by blast
  then have "(r \<noteq> NULL) = (\<exists>b blk. access s M weak ptr sz base b blk)" by blast
  then show ?thesis using r(1) by (simp only: valid_read_bt_def Option.bind.bind_lunit)
qed

lemma valid_spec:
  assumes inv: "mm_inv s M"
  shows "valid_bt weak ptr sz base s =
    Some (\<exists>b blk. access s M weak ptr sz base b blk \<and> \<not> b_is_readonly blk)"
proof -
  obtain r where r: "lookup_allocated weak ptr sz base s = Some r"
    "r \<noteq> NULL \<longrightarrow> (\<exists>blk. access s M weak ptr sz base r blk)"
    "r = NULL \<longrightarrow> (\<forall>b blk. \<not> access s M weak ptr sz base b blk)"
    using lookup_allocated_spec [OF inv] by blast
  show ?thesis
  proof (cases "r = NULL")
    case True
    then show ?thesis using r(1,3) by (simp add: valid_bt_def)
  next
    case False
    then obtain blk where blk: "access s M weak ptr sz base r blk" using r(2) by blast
    then have "valid_bt weak ptr sz base s = Some (\<not> b_is_readonly blk)"
      using r(1) False by (simp add: valid_bt_def access_def holds_def)
    moreover have "(\<exists>b k. access s M weak ptr sz base b k \<and> \<not> b_is_readonly k) = (\<not> b_is_readonly blk)"
      using blk by (auto dest: access_unique [OF inv blk])
    ultimately show ?thesis by simp
  qed
qed

section \<open>Tracking and untracking blocks\<close>

definition fresh_block :: "u64 \<Rightarrow> u64 \<Rightarrow> bt_block" where
  "fresh_block ptr sz = \<lparr>b_ptr = ptr, b_size = sz, b_init_ptr = None, b_init_bytes = 0,
     b_is_readonly = False, b_is_freeable = False\<rparr>"

lemma fresh_block_sel [simp]: "b_ptr (fresh_block p n) = p" "b_size (fresh_block p n) = n"
  by (simp_all add: fresh_block_def)

lemma region_free_new:
  assumes "mm_inv s M" and "region_free s M ptr sz"
  shows "M ptr = None"
proof (cases "M ptr")
  case (Some b)
  then have "b \<in> ran M" by (rule ranI)
  then show ?thesis using index_block(1) [OF mm_invD(1) [OF assms(1)] Some] assms(2)
    by (auto simp: region_free_def)
qed

lemma apart_insert:
  assumes "bt_apart s M" and "region_free s M (b_ptr k) (b_size k)" and "b \<notin> ran M" and "M (b_ptr k) = None"
  shows "blocks_apart ((blocks s)(b \<mapsto> k)) (ran (M(b_ptr k \<mapsto> b)))"
proof -
  have r: "ran (M(b_ptr k \<mapsto> b)) = insert b (ran M)" using assms(4) by (rule ran_map_upd)
  show ?thesis
    unfolding r blocks_apart_def
  proof (intro ballI allI impI)
    fix c d cb db
    assume cd: "c \<in> insert b (ran M)" "d \<in> insert b (ran M)"
      and "((blocks s)(b \<mapsto> k)) c = Some cb" "((blocks s)(b \<mapsto> k)) d = Some db"
    then show "no_wrap cb \<and> (b_ptr cb < b_ptr db \<longrightarrow> unat (b_ptr cb) + unat (b_size cb) \<le> unat (b_ptr db))"
      using assms(1-3)
      by (cases "c = b"; cases "d = b")
        (auto simp: bt_apart_def blocks_apart_def region_free_def no_wrap_def)
  qed
qed

lemma store_block_tracked:
  assumes inv: "mm_inv s M" and pm: "fresh_alloc pm" and fr: "region_free s M ptr sz" and tr: "trackable sz"
  shows "\<exists>b s'. store_block_bt pm ptr sz s = Some (b, s') \<and> mm_inv s' (M(ptr \<mapsto> b)) \<and> b \<notin> dom (blocks s) \<and> b \<noteq> NULL \<and>
    blocks s' = (blocks s)(b \<mapsto> fresh_block ptr sz) \<and> stats s' = stats s"
proof -
  define b where "b = pm (live s)"
  define s1 where "s1 = s\<lparr>blocks := (blocks s)(b \<mapsto> fresh_block ptr sz)\<rparr>"
  have b: "b \<noteq> NULL" "b \<notin> live s"
    using fresh_allocD [OF pm bt_index_live [OF mm_invD(1) [OF inv]]] by (simp_all only: b_def not_False_eq_True)
  then have nb: "blocks s b = None" "b \<notin> ran M"
    using index_ran [OF mm_invD(1) [OF inv], of b] by (auto simp: live_def domIff)
  have i1: "bt_index s1 M" unfolding s1_def
  proof (rule bt_index_blocks [OF mm_invD(1) [OF inv]])
    show "\<exists>blk. ((blocks s)(b \<mapsto> fresh_block ptr sz)) c = Some blk \<and> b_ptr blk = x" if "M x = Some c" for x c
      using index_block(1) [OF mm_invD(1) [OF inv] that] nb(1) by auto
    show "finite (dom ((blocks s)(b \<mapsto> fresh_block ptr sz)))" "NULL \<notin> dom ((blocks s)(b \<mapsto> fresh_block ptr sz))"
      using bt_index_finite [OF mm_invD(1) [OF inv]] b(1) by auto
  qed
  have new: "M ptr = None" by (rule region_free_new [OF inv fr])
  obtain s' where s': "bt_insert pm b s1 = Some s'" "bt_index s' (M(ptr \<mapsto> b))" "blocks s' = blocks s1" "stats s' = stats s1"
    using insert_tracked [OF i1 pm new, of b] by (auto simp: s1_def bt_base_def)
  have "bt_apart s' (M(ptr \<mapsto> b))"
    using apart_insert [OF mm_invD(2) [OF inv], of "fresh_block ptr sz" b] fr nb(2) new s'(3)
    by (simp add: bt_apart_def s1_def)
  moreover have "init_ok (fresh_block ptr sz)"
    using tr by (simp add: init_ok_def trackable_def fresh_block_def)
  ultimately have "mm_inv s' (M(ptr \<mapsto> b))"
    using s'(2,3) mm_invD(3,4) [OF inv] fr new nb(1)
    by (auto simp: mm_inv_def s1_def region_free_def ran_map_upd)
  moreover have "store_block_bt pm ptr sz s = Some (b, s')"
    using fr s'(1) by (simp add: store_block_bt_def Let_def b_def s1_def fresh_block_def region_free_def)
  ultimately show ?thesis using s' nb(1) b(1) by (intro exI [of _ b] exI [of _ s']) (simp add: s1_def domIff)
qed

text \<open>Untracking: the entry leaves the map, the other blocks stay.\<close>

lemma ran_remove:
  assumes "bt_index s M" and "M x = Some b"
  shows "ran (M(x := None)) = ran M - {b}"
proof -
  have u: "y = x" if "M y = Some b" for y using index_inj [OF assms(1) that assms(2)] .
  show ?thesis using assms(2) by (auto simp: ran_def dest: u) (metis option.inject)
qed

lemma mm_inv_remove:
  assumes inv: "mm_inv s M" and x: "M x = Some b" and ix: "bt_index s' (M(x := None))"
    and bs: "\<And>c. c \<noteq> b \<Longrightarrow> blocks s' c = blocks s c"
  shows "mm_inv s' (M(x := None))"
proof -
  note r = ran_remove [OF mm_invD(1) [OF inv] x]
  have "bt_apart s' (M(x := None))"
    using mm_invD(2) [OF inv] bs unfolding bt_apart_def blocks_apart_def r by auto
  then show ?thesis using ix mm_invD(3,4) [OF inv] bs unfolding mm_inv_def r by auto
qed

lemma untrack:
  assumes inv: "mm_inv s M" and x: "M x = Some b" and blk: "blocks s b = Some blk"
  shows "\<exists>s1 s2. bt_clean_block_init b s = Some s1 \<and> bt_remove b s1 = Some s2 \<and> mm_inv s2 (M(x := None)) \<and>
    blocks s2 = (blocks s)(b \<mapsto> blk\<lparr>b_init_ptr := None, b_init_bytes := 0\<rparr>) \<and> stats s2 = stats s"
proof -
  define s1 where "s1 = s\<lparr>blocks := (blocks s)(b \<mapsto> blk\<lparr>b_init_ptr := None, b_init_bytes := 0\<rparr>)\<rparr>"
  have b: "b \<in> ran M" using x by (rule ranI)
  have "init_ok blk" using mm_invD(4) [OF inv b blk] .
  then have i1: "mm_inv s1 M"
    unfolding s1_def by (intro mm_inv_upd [OF inv b blk]) (simp_all add: init_ok_def)
  obtain s2 where s2: "bt_remove b s1 = Some s2" "bt_index s2 (M(x := None))" "blocks s2 = blocks s1" "stats s2 = stats s1"
    using remove_tracked [OF mm_invD(1) [OF i1] x] by blast
  have "mm_inv s2 (M(x := None))" by (rule mm_inv_remove [OF i1 x s2(2)]) (simp add: s2(3))
  moreover have "bt_clean_block_init b s = Some s1" using blk by (simp add: bt_clean_block_init_def s1_def)
  ultimately show ?thesis using s2 by (intro exI [of _ s1] exI [of _ s2]) (simp add: s1_def)
qed

lemma delete_block_tracked:
  assumes inv: "mm_inv s M" and x: "M ptr = Some b"
  shows "\<exists>s'. delete_block_bt ptr s = Some s' \<and> mm_inv s' (M(ptr := None)) \<and>
    blocks s' = (blocks s)(b := None) \<and> stats s' = stats s"
proof -
  obtain blk where blk: "blocks s b = Some blk" and bn: "b \<noteq> NULL"
    using index_block [OF mm_invD(1) [OF inv] x] by blast
  obtain s1 s2 where u: "bt_clean_block_init b s = Some s1" "bt_remove b s1 = Some s2" "mm_inv s2 (M(ptr := None))"
    "blocks s2 = (blocks s)(b \<mapsto> blk\<lparr>b_init_ptr := None, b_init_bytes := 0\<rparr>)" "stats s2 = stats s"
    using untrack [OF inv x blk] by blast
  define s' where "s' = s2\<lparr>blocks := (blocks s2)(b := None)\<rparr>"
  have p0: "ptr \<noteq> 0" using x mm_invD(3) [OF inv] by auto
  have "bt_lookup s ptr = Some b" using lookup_cases [OF inv, of ptr] x by auto
  then have "delete_block_bt ptr s = Some s'"
    using p0 bn u(1,2) by (simp add: delete_block_bt_def s'_def)
  moreover have "bt_index s' (M(ptr := None))"
    unfolding s'_def
  proof (rule bt_index_blocks [OF mm_invD(1) [OF u(3)]])
    show "\<exists>k. ((blocks s2)(b := None)) c = Some k \<and> b_ptr k = y" if y: "(M(ptr := None)) y = Some c" for y c
    proof -
      have "c \<in> ran (M(ptr := None))" using y by (rule ranI)
      then have "c \<noteq> b" using ran_remove [OF mm_invD(1) [OF inv] x] by simp
      then show ?thesis using index_block(1) [OF mm_invD(1) [OF u(3)] y] by auto
    qed
    show "finite (dom ((blocks s2)(b := None)))" "NULL \<notin> dom ((blocks s2)(b := None))"
      using bt_index_finite [OF mm_invD(1) [OF u(3)]] by (auto simp: domIff)
  qed
  then have "mm_inv s' (M(ptr := None))"
    by (rule mm_inv_remove [OF inv x]) (simp add: s'_def u(4))
  ultimately show ?thesis using u(4,5) by (intro exI [of _ s']) (auto simp: s'_def)
qed

lemma free_tracked:
  assumes inv: "mm_inv s M" and x: "M ptr = Some b" and blk: "blocks s b = Some blk"
  shows "\<exists>s'. free_bt fva ptr s = Some (Inr s') \<and> mm_inv s' (M(ptr := None)) \<and>
    stats s' = update_heap_allocation (- b_size blk) (stats s)"
proof -
  define s0 where "s0 = s\<lparr>stats := update_heap_allocation (- b_size blk) (stats s)\<rparr>"
  have i0: "mm_inv s0 M" by (rule mm_inv_cong [OF inv]) (simp_all add: s0_def)
  obtain s1 s2 where u: "bt_clean_block_init b s0 = Some s1" "bt_remove b s1 = Some s2" "mm_inv s2 (M(ptr := None))"
    "stats s2 = stats s0"
    using untrack [OF i0 x, of blk] blk by (auto simp: s0_def)
  have "ptr \<noteq> 0" "b \<noteq> NULL" "bt_lookup s ptr = Some b"
    using x mm_invD(3) [OF inv] index_block(2) [OF mm_invD(1) [OF inv] x] lookup_cases [OF inv, of ptr] by auto
  then have "free_bt fva ptr s = Some (Inr s2)"
    using blk u(1,2) by (simp add: free_bt_def Let_def s0_def)
  then show ?thesis using u(3,4) by (auto simp: s0_def)
qed

lemma free_invalid:
  assumes inv: "mm_inv s M" and "M \<noteq> Map.empty" and "M ptr = None" and "ptr \<noteq> 0"
  shows "free_bt fva ptr s = Some (Inl ''Not a start of block in free'')"
  using lookup_cases [OF inv assms(2), of ptr] assms(3,4) by (simp add: free_bt_def)

lemma store_freeable_tracked:
  assumes inv: "mm_inv s M" and pm: "fresh_alloc pm" and fr: "region_free s M ptr sz" and tr: "trackable sz"
  shows "\<exists>b s'. store_freeable_block_bt pm ptr sz ini s = Some (b, s') \<and> mm_inv s' (M(ptr \<mapsto> b)) \<and>
    blocks s' = (blocks s)(b \<mapsto> (fresh_block ptr sz)\<lparr>b_is_freeable := True, b_init_bytes := if ini then sz else 0\<rparr>) \<and>
    stats s' = update_heap_allocation sz (stats s)"
proof -
  obtain b s1 where s1: "store_block_bt pm ptr sz s = Some (b, s1)" "mm_inv s1 (M(ptr \<mapsto> b))"
    "blocks s1 = (blocks s)(b \<mapsto> fresh_block ptr sz)" "stats s1 = stats s"
    using store_block_tracked [OF assms] by blast
  define k where "k = (fresh_block ptr sz)\<lparr>b_is_freeable := True, b_init_bytes := if ini then sz else 0\<rparr>"
  define s2 where "s2 = s1\<lparr>blocks := (blocks s1)(b \<mapsto> k)\<rparr>"
  define s' where "s' = s2\<lparr>stats := update_heap_allocation sz (stats s)\<rparr>"
  have "b \<in> ran (M(ptr \<mapsto> b))" by (rule ranI [of _ ptr]) simp
  moreover have "init_ok k" using tr by (simp add: k_def init_ok_def trackable_def)
  ultimately have "mm_inv s2 (M(ptr \<mapsto> b))"
    unfolding s2_def by (intro mm_inv_upd [OF s1(2), of b "fresh_block ptr sz"]) (simp_all add: s1(3) k_def)
  then have "mm_inv s' (M(ptr \<mapsto> b))" by (rule mm_inv_cong) (simp_all add: s'_def)
  moreover have "store_freeable_block_bt pm ptr sz ini s = Some (b, s')"
    using fr s1 by (auto simp: store_freeable_block_bt_def upd_block_def s'_def s2_def k_def region_free_def
        fresh_block_def Let_def)
  ultimately show ?thesis by (intro exI [of _ b] exI [of _ s']) (simp add: s'_def s2_def s1(3) k_def)
qed

end
