(* ===== verification/Bittree_Props.thy ===== *)
theory Bittree_Props
  imports Bittree_Correct
begin

text \<open>The properties of the bittree memory model, over the lemmas of \<^verbatim>\<open>Bittree_Correct\<close>.\<close>

section \<open>A concrete state\<close>

definition ex_mm :: mm_state where
  "ex_mm = \<lparr>nodes = [7 \<mapsto> node_of NULL (Lf 7 16 1)], blocks = [1 \<mapsto> ex_block 16 8], bt_root = 7,
     stats = \<lparr>heap_allocation_size = 8, heap_allocated_blocks = 1\<rparr>\<rparr>"

lemma ran_one: "ran [16 \<mapsto> 1] = {1 :: loc}"
  by auto

lemma ex_block_sel [simp]: "b_ptr (ex_block p n) = p" "b_size (ex_block p n) = n"
  "b_init_bytes (ex_block p n) = 0" "b_is_readonly (ex_block p n) = False"
  by (simp_all add: ex_block_def)

lemma ex_mm_blocks [simp]: "blocks ex_mm 1 = Some (ex_block 16 8)" "blocks ex_mm (Suc 0) = Some (ex_block 16 8)"
  by (simp_all add: ex_mm_def)

lemma ex_mm_inv: "mm_inv ex_mm [16 \<mapsto> 1]"
proof -
  have "bt_index ex_mm [16 \<mapsto> 1]"
    unfolding bt_index_def
    by (intro exI [of _ "Some (Lf 7 16 1)"]) (simp add: bt_rep_def ex_mm_def leaf_blocks_def)
  moreover have "bt_apart ex_mm [16 \<mapsto> 1]"
    unfolding bt_apart_def blocks_apart_def ran_one by (simp add: no_wrap_def)
  moreover have "init_ok (ex_block 16 8)"
    by (simp add: init_ok_def needed_bytes_def)
  ultimately show ?thesis unfolding mm_inv_def ran_one by simp
qed

lemma ex_mm_holds: "holds ex_mm [16 \<mapsto> 1] 1 (ex_block 16 8) 18"
  unfolding holds_def ran_one by (simp add: block_has_def)

lemma ex_mm_free: "region_free ex_mm [16 \<mapsto> 1] 64 32"
  unfolding region_free_def ran_one by simp

lemma trackable_32: "trackable 32"
  by (simp add: trackable_def needed_bytes_def)

section \<open>Properties\<close>

text \<open>
  C8: on a consistent state, \<^verbatim>\<open>initialize(ptr, size)\<close> for a range inside a tracked block, of
  a size below \<open>2^32\<close>, returns; it keeps the invariant, changes only the initialization
  record of that block, and afterwards exactly the bytes of the range and those that were
  initialized before are initialized. \<^verbatim>\<open>initialized(ptr, size)\<close> for such a range, when it is not
  empty, returns true iff every byte of the range has been initialized.
\<close>

theorem initialization_correct:
  assumes "mm_inv s M" and "holds s M b blk ptr"
    and "unat sz < 2 ^ 32" and "unat (ptr - b_ptr blk) + unat sz \<le> unat (b_size blk)"
  shows "(\<exists>p c. let k = blk\<lparr>b_init_ptr := p, b_init_bytes := c\<rparr> in
    initialize_bt ptr sz s = Some (s\<lparr>blocks := (blocks s)(b \<mapsto> k)\<rparr>) \<and>
    mm_inv (s\<lparr>blocks := (blocks s)(b \<mapsto> k)\<rparr>) M \<and>
    (\<forall>j. byte_init k j \<longleftrightarrow> byte_init blk j \<or>
       unat (ptr - b_ptr blk) \<le> j \<and> j < unat (ptr - b_ptr blk) + unat sz)) \<and>
    (0 < unat sz \<longrightarrow> initialized_bt ptr sz s =
      Some (\<forall>j. unat (ptr - b_ptr blk) \<le> j \<and> j < unat (ptr - b_ptr blk) + unat sz \<longrightarrow> byte_init blk j))"
  using initialize_tracked [OF assms] initialized_tracked [OF assms(1-3) _ assms(4)] by blast

theorem initialization_correct_witness:
  "(\<exists>s. initialize_bt 18 4 ex_mm = Some s \<and> mm_inv s [16 \<mapsto> 1]) \<and> initialized_bt 18 4 ex_mm = Some False"
proof -
  have "\<not> byte_init (ex_block 16 8) 2" by (simp add: byte_init_def)
  then show ?thesis
    using initialization_correct [OF ex_mm_inv ex_mm_holds, of 4] by (auto simp: Let_def)
qed

text \<open>
  C9: on a consistent state \<^verbatim>\<open>valid\<close> and \<^verbatim>\<open>valid_read\<close> always return. \<^verbatim>\<open>valid_read\<close> is true
  iff one tracked block contains the address, the whole range of \<open>sz\<close> bytes and (unless weak validity is
  configured) the base pointer; \<^verbatim>\<open>valid\<close> is true iff in addition that block is writable. For \<open>sz = 0\<close> the
  address must still be in a block: the answer at an untracked address is false, although the contract in
  \<^verbatim>\<open>e_acsl.h\<close> takes an empty range for valid. Of the base pointer only its own address matters, not \<open>sz\<close> bytes
  behind it, of which the comment there speaks.
\<close>

theorem valid_correct:
  assumes "mm_inv s M"
  shows "valid_read_bt weak ptr sz base s = Some (\<exists>b blk. access s M weak ptr sz base b blk) \<and>
    valid_bt weak ptr sz base s = Some (\<exists>b blk. access s M weak ptr sz base b blk \<and> \<not> b_is_readonly blk) \<and>
    ((\<nexists>b blk. holds s M b blk ptr) \<longrightarrow> valid_read_bt weak ptr 0 base s = Some False \<and> valid_bt weak ptr 0 base s = Some False)"
  using valid_read_spec [OF assms] valid_spec [OF assms] by (auto simp: access_def)

theorem valid_correct_witness: "valid_bt False 18 6 16 ex_mm = Some True"
proof -
  have "access ex_mm [16 \<mapsto> 1] False 18 6 16 1 (ex_block 16 8)"
    unfolding access_def holds_def ran_one by (simp add: block_has_def)
  then show ?thesis using valid_correct [OF ex_mm_inv, of False 18 6 16] by force
qed

text \<open>
  \<^verbatim>\<open>store_block\<close> of a region apart from the tracked blocks returns a new block record,
  keeps the invariant and adds exactly that region, uninitialized, writable and not freeable;
  \<^verbatim>\<open>delete_block\<close> of its base address then returns and restores the map and the block table.
\<close>

theorem store_delete_roundtrip:
  assumes "mm_inv s M" and "fresh_alloc pm" and "region_free s M ptr sz" and "trackable sz"
  shows "\<exists>b s' s''. store_block_bt pm ptr sz s = Some (b, s') \<and> mm_inv s' (M(ptr \<mapsto> b)) \<and>
    blocks s' = (blocks s)(b \<mapsto> fresh_block ptr sz) \<and>
    delete_block_bt ptr s' = Some s'' \<and> mm_inv s'' M \<and> blocks s'' = blocks s \<and> stats s'' = stats s"
proof -
  obtain b s' where s': "store_block_bt pm ptr sz s = Some (b, s')" "mm_inv s' (M(ptr \<mapsto> b))"
    "b \<notin> dom (blocks s)" "blocks s' = (blocks s)(b \<mapsto> fresh_block ptr sz)" "stats s' = stats s"
    using store_block_tracked [OF assms] by blast
  obtain s'' where s'': "delete_block_bt ptr s' = Some s''" "mm_inv s'' ((M(ptr \<mapsto> b))(ptr := None))"
    "blocks s'' = (blocks s')(b := None)" "stats s'' = stats s'"
    using delete_block_tracked [OF s'(2), of ptr b] by auto
  have "(M(ptr \<mapsto> b))(ptr := None) = M" using region_free_new [OF assms(1,3)] by auto
  moreover have "(blocks s')(b := None) = blocks s" using s'(3,4) by (auto simp: domIff)
  ultimately show ?thesis using s' s'' by (intro exI [of _ b] exI [of _ s'] exI [of _ s'']) simp
qed

theorem store_delete_roundtrip_witness:
  "\<exists>b s' s''. store_block_bt next_loc 64 32 ex_mm = Some (b, s') \<and> mm_inv s' ([16 \<mapsto> 1](64 \<mapsto> b)) \<and>
    blocks s' = (blocks ex_mm)(b \<mapsto> fresh_block 64 32) \<and>
    delete_block_bt 64 s' = Some s'' \<and> mm_inv s'' [16 \<mapsto> 1] \<and> blocks s'' = blocks ex_mm \<and> stats s'' = stats ex_mm"
  by (rule store_delete_roundtrip [OF ex_mm_inv fresh_next_loc ex_mm_free trackable_32])

text \<open>
  C10: when the application allocator returns a region apart from the tracked blocks,
  \<^verbatim>\<open>malloc\<close> returns it and tracks it as a freeable, uninitialized block; \<^verbatim>\<open>free\<close> of the result
  returns, untracks it and restores the map and the heap statistics.
\<close>

theorem malloc_free_roundtrip:
  assumes "mm_inv s M" and "fresh_alloc pm" and "public_malloc pa s sz = ptr"
    and "region_free s M ptr sz" and "trackable sz" and "sz \<noteq> 0"
  shows "\<exists>b s' s''. malloc_bt pa pm sz s = Some (ptr, s') \<and> mm_inv s' (M(ptr \<mapsto> b)) \<and>
    blocks s' b = Some ((fresh_block ptr sz)\<lparr>b_is_freeable := True\<rparr>) \<and>
    free_bt fva ptr s' = Some (Inr s'') \<and> mm_inv s'' M \<and> stats s'' = stats s"
proof -
  obtain b s' where s': "store_freeable_block_bt pm ptr sz False s = Some (b, s')" "mm_inv s' (M(ptr \<mapsto> b))"
    "blocks s' = (blocks s)(b \<mapsto> (fresh_block ptr sz)\<lparr>b_is_freeable := True, b_init_bytes := if False then sz else 0\<rparr>)"
    "stats s' = update_heap_allocation sz (stats s)"
    using store_freeable_tracked [OF assms(1,2,4,5)] by blast
  define k where "k = (fresh_block ptr sz)\<lparr>b_is_freeable := True\<rparr>"
  have k: "blocks s' b = Some k" "b_size k = sz" by (simp_all add: s'(3) k_def fresh_block_def)
  obtain s'' where s'': "free_bt fva ptr s' = Some (Inr s'')" "mm_inv s'' ((M(ptr \<mapsto> b))(ptr := None))"
    "stats s'' = update_heap_allocation (- sz) (stats s')"
    using free_tracked [OF s'(2) _ k(1), of ptr fva] k(2) by auto
  have "unat sz < 2 ^ 63"
    using assms(5) by (simp add: trackable_def unat_needed_bytes)
  then have "stats s'' = stats s" using s''(3) s'(4) update_heap_allocation_undo by simp
  moreover have "(M(ptr \<mapsto> b))(ptr := None) = M" using region_free_new [OF assms(1,4)] by auto
  moreover have "malloc_bt pa pm sz s = Some (ptr, s')"
    using assms(3,6) s'(1) by (simp add: malloc_bt_def)
  ultimately show ?thesis using s'(2) k(1) s''(1,2) by (intro exI [of _ b] exI [of _ s'] exI [of _ s'']) (simp add: k_def)
qed

definition ex_alloc :: "mm_state public_alloc" where
  "ex_alloc = \<lparr>public_malloc = (\<lambda>_ _. 64), public_calloc = (\<lambda>_ _ _. 64), public_aligned_alloc = (\<lambda>_ _ _. 64),
     public_posix_memalign = (\<lambda>_ _ _. (0, 64)), public_realloc = (\<lambda>_ p _. p)\<rparr>"

theorem malloc_free_roundtrip_witness:
  "\<exists>b s' s''. malloc_bt ex_alloc next_loc 32 ex_mm = Some (64, s') \<and> mm_inv s' ([16 \<mapsto> 1](64 \<mapsto> b)) \<and>
    blocks s' b = Some ((fresh_block 64 32)\<lparr>b_is_freeable := True\<rparr>) \<and>
    free_bt True 64 s' = Some (Inr s'') \<and> mm_inv s'' [16 \<mapsto> 1] \<and> stats s'' = stats ex_mm"
  by (rule malloc_free_roundtrip [OF ex_mm_inv fresh_next_loc _ ex_mm_free trackable_32]) (simp_all add: ex_alloc_def)

text \<open>
  \<^verbatim>\<open>free\<close> of a non-null pointer that is not the base of a tracked block aborts with the
  message of the code and changes nothing; \<^verbatim>\<open>free(NULL)\<close> aborts iff the runtime is configured
  to treat it as invalid. On the empty trie, however, the search dereferences the null root:
  \<^verbatim>\<open>free\<close> has no defined result.
\<close>

theorem free_errors:
  assumes "mm_inv s M" and "M ptr = None" and "ptr \<noteq> 0"
  shows "free_bt fva ptr s = (if M = Map.empty then None else Some (Inl ''Not a start of block in free'')) \<and>
    free_bt fva 0 s = Some (if fva then Inl ''NULL pointer in free'' else Inr s)"
proof -
  have "free_bt fva ptr s = None" if e: "M = Map.empty"
  proof -
    obtain T where T: "bt_rep s T" "M = map_of (content T)" using mm_invD(1) [OF assms(1)] by (auto simp: bt_index_def)
    have "T = None"
    proof (cases T)
      case (Some t)
      obtain p ps where "leaves t = p # ps" by (cases "leaves t") auto
      then have "M (fst p) \<noteq> None" using T(2) Some by simp
      then show ?thesis using e by simp
    qed
    then have "lookup_loop (nodes s) ptr (bt_root s) = None"
      using T(1) by (subst lookup_loop.simps) (simp add: bt_rep_def)
    then show ?thesis using assms(3) by (simp add: free_bt_def bt_lookup_def)
  qed
  then show ?thesis using free_invalid [OF assms(1) _ assms(2,3)] by (simp add: free_bt_def)
qed

theorem free_errors_witness:
  "free_bt False 17 ex_mm = Some (Inl ''Not a start of block in free'') \<and> free_bt False 0 ex_mm = Some (Inr ex_mm)"
  using free_errors [OF ex_mm_inv, of 17 False] by (simp add: fun_eq_iff)

text \<open>
  \<^verbatim>\<open>initialize\<close> counts the bytes with an \<^verbatim>\<open>unsigned\<close>: for a size of \<open>2^32\<close> or more, on
  a tracked block that is not fully initialized, it never returns.
\<close>

theorem initialize_wide_diverges:
  assumes "mm_inv s M" and "holds s M b blk ptr" and "b_init_bytes blk \<noteq> b_size blk" and "2 ^ 32 \<le> unat sz"
  shows "initialize_bt ptr sz s = None"
proof -
  have "initialize_loop p n i k = Some y \<Longrightarrow> 2 ^ 32 \<le> unat n \<longrightarrow> False" for p n i k y
  proof (rule initialize_loop.raw_induct [where P = "\<lambda>p n i k y. 2 ^ 32 \<le> unat n \<longrightarrow> False"], goal_cases)
    case (1 f p n i k y)
    have "unat i < 2 ^ 32" using unsigned_less [of i, where ?'a = nat] by simp
    then have "ucast i < n" if "2 ^ 32 \<le> unat n" using that by (simp add: word_less_nat_alt)
    then show ?case using 1 by (auto simp: bind_eq_Some_conv Let_def split: if_splits prod.splits)
  qed
  then have "initialize_loop ptr sz 0 k = None" for k using assms(4) by (metis not_Some_eq)
  then have "initialize_blk ptr sz blk = None"
    using assms(3) by (auto simp: initialize_blk_def Let_def)
  then show ?thesis
    using find_holds [OF assms(1,2)] holds_not_0 [OF assms(1,2)] assms(2) by (simp add: initialize_bt_def holds_def)
qed

theorem initialize_wide_diverges_witness: "initialize_bt 18 0x100000000 ex_mm = None"
  by (rule initialize_wide_diverges [OF ex_mm_inv ex_mm_holds]) simp_all

text \<open>
  Growing a fully initialized block with \<^verbatim>\<open>realloc\<close> writes 64-bit words into the new
  initialization record: whenever the record is shorter than the words that cover the old
  size, as when a block of 8 bytes grows to 16, the write runs past its end.
\<close>

theorem realloc_record_overrun:
  assumes "b_init_bytes blk = b_size blk" and "b_size blk \<noteq> 0" and "b_size blk < sz"
    and "trackable sz" and "unat (needed_bytes sz) < 8 * (unat (b_size blk) div 64 + 1)"
  shows "realloc_init sz blk = None"
  using assms int_of_small [of "needed_bytes sz"]
  by (simp add: realloc_init_def Let_def buf_setbits_def trackable_def not_le)

theorem realloc_record_overrun_witness: "realloc_init 16 ((ex_block 64 8)\<lparr>b_init_bytes := 8\<rparr>) = None"
  by (rule realloc_record_overrun) (simp_all add: trackable_def needed_bytes_def)

end
