(* ===== verification/Memory_Model.thy ===== *)
theory Memory_Model
  imports Prelude
begin

text \<open>
  What \<^verbatim>\<open>e_acsl.h\<close> promises of a memory model, whichever of the two implementations is linked in:
  the state represents a map from base addresses to the sizes of the tracked blocks, and the set of
  initialized bytes; \<^verbatim>\<open>store_block\<close>, \<^verbatim>\<open>delete_block\<close> and \<^verbatim>\<open>initialize\<close> update them, \<^verbatim>\<open>valid_read\<close> and
  \<^verbatim>\<open>initialized\<close> answer by them. The facts a monitored program relies on are proved here once;
  the bittree and the segment model provide the interface.
\<close>

section \<open>Tracked blocks\<close>

definition inside :: "u64 \<Rightarrow> nat \<Rightarrow> u64 \<Rightarrow> bool" where
  "inside p n a \<longleftrightarrow> unat (a - p) < n"

type_synonym block_map = "u64 \<rightharpoonup> nat"

definition covered :: "block_map \<Rightarrow> u64 \<Rightarrow> bool" where
  "covered B a \<longleftrightarrow> (\<exists>p n. B p = Some n \<and> inside p n a)"

definition separate :: "block_map \<Rightarrow> bool" where
  "separate B \<longleftrightarrow> (\<forall>p n q k a. B p = Some n \<longrightarrow> B q = Some k \<longrightarrow> inside p n a \<longrightarrow> inside q k a \<longrightarrow> p = q)"

definition apart_from :: "block_map \<Rightarrow> u64 \<Rightarrow> nat \<Rightarrow> bool" where
  "apart_from B p n \<longleftrightarrow> (\<forall>a. inside p n a \<longrightarrow> \<not> covered B a)"

text \<open>The access of \<open>sz\<close> bytes at \<open>ptr\<close>, through a pointer derived from \<open>base\<close>, stays in one block.\<close>

definition accessible :: "block_map \<Rightarrow> u64 \<Rightarrow> nat \<Rightarrow> u64 \<Rightarrow> bool" where
  "accessible B ptr sz base \<longleftrightarrow>
     (\<exists>p n. B p = Some n \<and> inside p n ptr \<and> inside p n base \<and> unat (ptr - p) + sz \<le> n)"

lemma inside_base [simp]: "inside p n p \<longleftrightarrow> 0 < n"
  by (simp add: inside_def)

lemma inside_nth: "inside p n a \<Longrightarrow> \<exists>i<n. a = p + of_nat i"
  by (intro exI [of _ "unat (a - p)"]) (simp add: inside_def)

lemma separateD: "separate B \<Longrightarrow> B p = Some n \<Longrightarrow> B q = Some k \<Longrightarrow> inside p n a \<Longrightarrow> inside q k a \<Longrightarrow> p = q"
  unfolding separate_def by blast

lemma apart_fromD: "apart_from B p n \<Longrightarrow> B q = Some k \<Longrightarrow> inside p n a \<Longrightarrow> \<not> inside q k a"
  unfolding apart_from_def covered_def by blast

lemma apart_new:
  assumes "apart_from B p n" and "0 < n" and "\<And>k. B p = Some k \<Longrightarrow> 0 < k"
  shows "B p = None"
proof (rule ccontr)
  assume "B p \<noteq> None"
  then obtain k where k: "B p = Some k" by auto
  show False using apart_fromD [OF assms(1) k, of p] assms(2) assms(3) [OF k] by simp
qed

lemma separate_insert: "separate B \<Longrightarrow> apart_from B p n \<Longrightarrow> separate (B(p \<mapsto> n))"
  unfolding separate_def apart_from_def covered_def by (auto split: if_splits)

lemma separate_delete: "separate B \<Longrightarrow> separate (B(p := None))"
  unfolding separate_def by (auto split: if_splits)

lemma accessible_covered: "accessible B ptr sz base \<Longrightarrow> covered B ptr"
  unfolding accessible_def covered_def by blast

lemma accessible_iff:
  assumes "separate B" and "B p = Some n" and "inside p n ptr"
  shows "accessible B ptr sz base \<longleftrightarrow> inside p n base \<and> unat (ptr - p) + sz \<le> n"
proof
  assume "accessible B ptr sz base"
  then obtain q k where q: "B q = Some k" "inside q k ptr" "inside q k base" "unat (ptr - q) + sz \<le> k"
    unfolding accessible_def by blast
  then have "p = q" using separateD [OF assms(1,2) q(1) assms(3)] by simp
  then show "inside p n base \<and> unat (ptr - p) + sz \<le> n" using q assms(2) by simp
qed (use assms in \<open>auto simp: accessible_def\<close>)

lemma covered_delete:
  assumes "separate B" and "B p = Some n"
  shows "covered (B(p := None)) a \<longleftrightarrow> covered B a \<and> \<not> inside p n a"
proof
  assume "covered (B(p := None)) a"
  then obtain q k where q: "q \<noteq> p" "B q = Some k" "inside q k a" by (auto simp: covered_def split: if_splits)
  then show "covered B a \<and> \<not> inside p n a" using separateD [OF assms q(2)] by (auto simp: covered_def)
next
  assume h: "covered B a \<and> \<not> inside p n a"
  then obtain q k where q: "B q = Some k" "inside q k a" by (auto simp: covered_def)
  then have "(B(p := None)) q = Some k" using h assms(2) by auto
  then show "covered (B(p := None)) a" using q(2) unfolding covered_def by blast
qed

lemma covered_insert:
  assumes "B p = None"
  shows "covered (B(p \<mapsto> n)) a \<longleftrightarrow> covered B a \<or> inside p n a"
proof -
  have e: "(B(p \<mapsto> n)) q = Some k \<longleftrightarrow> q = p \<and> k = n \<or> B q = Some k" for q k using assms by auto
  show ?thesis unfolding covered_def e by blast
qed

section \<open>Histories\<close>

datatype mm_op = Store u64 nat | Delete u64

fun mm_apply :: "mm_op \<Rightarrow> block_map \<Rightarrow> block_map" where
  "mm_apply (Store p n) B = B(p \<mapsto> n)"
| "mm_apply (Delete p) B = B(p := None)"

text \<open>Legal calls: a block that fits and is apart from the tracked ones, or a tracked block.\<close>

fun mm_legal :: "(u64 \<Rightarrow> nat \<Rightarrow> bool) \<Rightarrow> mm_op list \<Rightarrow> block_map \<Rightarrow> bool" where
  "mm_legal fits [] B = True"
| "mm_legal fits (Store p n # os) B = (fits p n \<and> apart_from B p n \<and> mm_legal fits os (B(p \<mapsto> n)))"
| "mm_legal fits (Delete p # os) B = (B p \<noteq> None \<and> mm_legal fits os (B(p := None)))"

fun mm_run :: "(u64 \<Rightarrow> nat \<Rightarrow> 's \<Rightarrow> 's option) \<Rightarrow> (u64 \<Rightarrow> 's \<Rightarrow> 's option) \<Rightarrow> mm_op list \<Rightarrow> 's \<Rightarrow> 's option" where
  "mm_run st dl [] s = Some s"
| "mm_run st dl (Store p n # os) s = Option.bind (st p n s) (mm_run st dl os)"
| "mm_run st dl (Delete p # os) s = Option.bind (dl p s) (mm_run st dl os)"

lemma mm_legal_mono: "mm_legal f os B \<Longrightarrow> (\<And>p n. f p n \<Longrightarrow> g p n) \<Longrightarrow> mm_legal g os B"
  by (induction f os B rule: mm_legal.induct) auto

section \<open>The interface\<close>

locale memory_model =
  fixes mm_rep :: "'s \<Rightarrow> block_map \<Rightarrow> bool"
    and mm_fits :: "'s \<Rightarrow> u64 \<Rightarrow> nat \<Rightarrow> bool"
    and mm_dom :: "'s \<Rightarrow> u64 \<Rightarrow> bool"
    and mm_env :: "'e \<Rightarrow> bool"
    and mm_store :: "'e \<Rightarrow> u64 \<Rightarrow> nat \<Rightarrow> 's \<Rightarrow> 's option"
    and mm_delete :: "'e \<Rightarrow> u64 \<Rightarrow> 's \<Rightarrow> 's option"
    and mm_valid_read :: "'e \<Rightarrow> u64 \<Rightarrow> nat \<Rightarrow> u64 \<Rightarrow> 's \<Rightarrow> bool option"
  assumes rep_separate: "mm_rep s B \<Longrightarrow> separate B"
    and rep_pos: "mm_rep s B \<Longrightarrow> B p = Some n \<Longrightarrow> 0 < n"
    and fits_pos: "mm_fits s p n \<Longrightarrow> 0 < n"
    and fits_dom: "mm_fits s p n \<Longrightarrow> inside p n a \<Longrightarrow> mm_dom s a"
    and store_rep: "mm_env e \<Longrightarrow> mm_rep s B \<Longrightarrow> mm_fits s p n \<Longrightarrow> apart_from B p n \<Longrightarrow>
      \<exists>s'. mm_store e p n s = Some s' \<and> mm_rep s' (B(p \<mapsto> n)) \<and> mm_fits s' = mm_fits s \<and> mm_dom s' = mm_dom s"
    and delete_rep: "mm_env e \<Longrightarrow> mm_rep s B \<Longrightarrow> B p = Some n \<Longrightarrow>
      \<exists>s'. mm_delete e p s = Some s' \<and> mm_rep s' (B(p := None)) \<and> mm_fits s' = mm_fits s \<and> mm_dom s' = mm_dom s"
    and valid_rep: "mm_env e \<Longrightarrow> mm_rep s B \<Longrightarrow> mm_dom s ptr \<Longrightarrow> 0 < sz \<Longrightarrow> sz < 2 ^ 63 \<Longrightarrow>
      mm_valid_read e ptr sz base s = Some (accessible B ptr sz base)"
begin

text \<open>Every legal history runs, and the final state represents the final map.\<close>

lemma history_refines:
  assumes "mm_rep s B" and "mm_legal (mm_fits s) os B" and env: "mm_env e"
  shows "\<exists>s'. mm_run (mm_store e) (mm_delete e) os s = Some s' \<and> mm_rep s' (fold mm_apply os B) \<and> mm_dom s' = mm_dom s"
  using assms(1,2)
proof (induction os arbitrary: s B)
  case (Cons op os)
  show ?case
  proof (cases op)
    case (Store p n)
    then obtain s' where s': "mm_store e p n s = Some s'" "mm_rep s' (B(p \<mapsto> n))" "mm_fits s' = mm_fits s"
        "mm_dom s' = mm_dom s"
      using store_rep [OF env Cons.prems(1), of p n] Cons.prems(2) by auto
    then show ?thesis using Cons.IH [of s' "B(p \<mapsto> n)"] Cons.prems(2) Store by (auto simp: fun_upd_def)
  next
    case (Delete p)
    then obtain n where "B p = Some n" using Cons.prems(2) by auto
    then obtain s' where s': "mm_delete e p s = Some s'" "mm_rep s' (B(p := None))" "mm_fits s' = mm_fits s"
        "mm_dom s' = mm_dom s"
      using delete_rep [OF env Cons.prems(1), of p n] by auto
    then show ?thesis using Cons.IH [of s' "B(p := None)"] Cons.prems(2) Delete by (auto simp: fun_upd_def)
  qed
qed simp

text \<open>After any legal history, an access is reported valid iff it stays in one tracked block.\<close>

lemma history_valid:
  assumes "mm_rep s B" and "mm_legal (mm_fits s) os B" and "mm_dom s ptr" and "0 < sz" and "sz < 2 ^ 63" and env: "mm_env e"
  shows "\<exists>s'. mm_run (mm_store e) (mm_delete e) os s = Some s' \<and>
    mm_valid_read e ptr sz base s' = Some (accessible (fold mm_apply os B) ptr sz base)"
  using history_refines [OF assms(1,2) env] valid_rep [OF env] assms(3-5) by metis

text \<open>A new block is valid over its whole range and not beyond; a deleted block is not valid at all.\<close>

lemma valid_after_store:
  assumes "mm_rep s B" and "mm_fits s p n" and "apart_from B p n" and "i < n" and "0 < sz" and "sz < 2 ^ 63" and "n < 2 ^ 64" and env: "mm_env e"
  shows "\<exists>s'. mm_store e p n s = Some s' \<and> mm_valid_read e (p + of_nat i) sz p s' = Some (i + sz \<le> n)"
proof -
  obtain s' where s': "mm_store e p n s = Some s'" "mm_rep s' (B(p \<mapsto> n))" "mm_dom s' = mm_dom s"
    using store_rep [OF env assms(1-3)] by blast
  have u: "unat (p + of_nat i - p) = i" using assms(4,7) by (simp add: unat_of_nat_64)
  then have ins: "inside p n (p + of_nat i)" using assms(4) unfolding inside_def by simp
  have "(B(p \<mapsto> n)) p = Some n" by simp
  with accessible_iff [of "B(p \<mapsto> n)" p n "p + of_nat i" sz p] rep_separate [of s' "B(p \<mapsto> n)"] ins s'(2)
  have "accessible (B(p \<mapsto> n)) (p + of_nat i) sz p = (i + sz \<le> n)" using assms(4) unfolding u by simp
  moreover have "mm_dom s' (p + of_nat i)" using fits_dom [OF assms(2) ins] s'(3) by simp
  ultimately show ?thesis using s'(1,2) valid_rep [OF env, of s' "B(p \<mapsto> n)" _ sz p] assms(5,6) by auto
qed

lemma invalid_after_delete:
  assumes "mm_rep s B" and "B p = Some n" and "inside p n a" and "mm_dom s a" and "0 < sz" and "sz < 2 ^ 63" and env: "mm_env e"
  shows "\<exists>s'. mm_delete e p s = Some s' \<and> mm_valid_read e a sz base s' = Some False"
proof -
  obtain s' where s': "mm_delete e p s = Some s'" "mm_rep s' (B(p := None))" "mm_dom s' = mm_dom s"
    using delete_rep [OF env assms(1,2)] by blast
  have "\<not> accessible (B(p := None)) a sz base"
    using covered_delete [OF rep_separate [OF assms(1)] assms(2)] assms(3) accessible_covered by blast
  then show ?thesis using s' valid_rep [OF env, of s' "B(p := None)" a] assms(4-6) by auto
qed

end

text \<open>The same with the initialized bytes.\<close>

locale memory_model_init = memory_model mm_rep mm_fits mm_dom mm_env mm_store mm_delete mm_valid_read
  for mm_rep :: "'s \<Rightarrow> block_map \<Rightarrow> bool"
    and mm_fits :: "'s \<Rightarrow> u64 \<Rightarrow> nat \<Rightarrow> bool"
    and mm_dom :: "'s \<Rightarrow> u64 \<Rightarrow> bool"
    and mm_env :: "'e \<Rightarrow> bool"
    and mm_store :: "'e \<Rightarrow> u64 \<Rightarrow> nat \<Rightarrow> 's \<Rightarrow> 's option"
    and mm_delete :: "'e \<Rightarrow> u64 \<Rightarrow> 's \<Rightarrow> 's option"
    and mm_valid_read :: "'e \<Rightarrow> u64 \<Rightarrow> nat \<Rightarrow> u64 \<Rightarrow> 's \<Rightarrow> bool option" +
  fixes mm_inits :: "'s \<Rightarrow> u64 set"
    and mm_initialize :: "'e \<Rightarrow> u64 \<Rightarrow> nat \<Rightarrow> 's \<Rightarrow> 's option"
    and mm_initialized :: "'e \<Rightarrow> u64 \<Rightarrow> nat \<Rightarrow> 's \<Rightarrow> bool option"
  assumes inits_covered: "mm_rep s B \<Longrightarrow> a \<in> mm_inits s \<Longrightarrow> covered B a"
    and store_inits: "mm_env e \<Longrightarrow> mm_rep s B \<Longrightarrow> mm_fits s p n \<Longrightarrow> apart_from B p n \<Longrightarrow> mm_store e p n s = Some s' \<Longrightarrow>
      mm_inits s' = mm_inits s"
    and delete_inits: "mm_env e \<Longrightarrow> mm_rep s B \<Longrightarrow> B p = Some n \<Longrightarrow> mm_delete e p s = Some s' \<Longrightarrow>
      mm_inits s' = mm_inits s - {a. inside p n a}"
    and initialize_rep: "mm_env e \<Longrightarrow> mm_rep s B \<Longrightarrow> accessible B ptr sz ptr \<Longrightarrow> sz < 2 ^ 31 \<Longrightarrow>
      \<exists>s'. mm_initialize e ptr sz s = Some s' \<and> mm_rep s' B \<and> mm_inits s' = mm_inits s \<union> {a. inside ptr sz a} \<and>
        mm_dom s' = mm_dom s \<and> mm_fits s' = mm_fits s"
    and initialized_rep: "mm_env e \<Longrightarrow> mm_rep s B \<Longrightarrow> accessible B ptr sz ptr \<Longrightarrow> 0 < sz \<Longrightarrow> sz < 2 ^ 31 \<Longrightarrow>
      mm_initialized e ptr sz s = Some ({a. inside ptr sz a} \<subseteq> mm_inits s)"
begin

lemma initialized_after_initialize:
  assumes "mm_rep s B" and "accessible B ptr sz ptr" and "0 < sz" and "sz < 2 ^ 31" and env: "mm_env e"
  shows "\<exists>s'. mm_initialize e ptr sz s = Some s' \<and> mm_rep s' B \<and> mm_initialized e ptr sz s' = Some True"
  using initialize_rep [OF env assms(1,2,4)] initialized_rep [OF env _ assms(2-4)] by fastforce

text \<open>A block that takes the place of a deleted one starts uninitialized, whatever was written there.\<close>

lemma reused_memory_uninitialized:
  assumes "mm_rep s B" and "B p = Some n" and "mm_fits s p k" and "apart_from (B(p := None)) p k"
    and "accessible (B(p \<mapsto> k)) ptr sz ptr" and "inside p k ptr" and "0 < sz" and "sz < 2 ^ 31" and env: "mm_env e"
  shows "\<exists>s1 s2. mm_delete e p s = Some s1 \<and> mm_store e p k s1 = Some s2 \<and> mm_initialized e ptr sz s2 = Some False"
proof -
  obtain s1 where s1: "mm_delete e p s = Some s1" "mm_rep s1 (B(p := None))" "mm_fits s1 = mm_fits s"
    using delete_rep [OF env assms(1,2)] by blast
  then obtain s2 where s2: "mm_store e p k s1 = Some s2" "mm_rep s2 (B(p \<mapsto> k))"
    using store_rep [OF env s1(2), of p k] assms(3,4) by auto
  have "mm_inits s2 = mm_inits s1" using store_inits [OF env s1(2) _ assms(4) s2(1)] assms(3) s1(3) by simp
  moreover have "ptr \<notin> mm_inits s1" using inits_covered [OF s1(2)] assms(4,6) by (auto simp: apart_from_def)
  moreover have "inside ptr sz ptr" using assms(7) by simp
  ultimately have "\<not> {a. inside ptr sz a} \<subseteq> mm_inits s2" by blast
  then show ?thesis using s1(1) s2(1) initialized_rep [OF env s2(2) assms(5,7,8)] by auto
qed

end

end
