(* ===== verification/Bittree_Tracker.thy ===== *)
theory Bittree_Tracker
  imports Bittree_Correct Memory_Model
begin

text \<open>
  The bittree model implements the interface of \<open>Memory_Model\<close>, on all addresses and for blocks of
  at least one byte. The environment is the allocator of the runtime's own records.
\<close>

definition bt_sizes :: "'a mm_state_scheme \<Rightarrow> (u64 \<rightharpoonup> loc) \<Rightarrow> block_map" where
  "bt_sizes s M = (\<lambda>x. Option.bind (M x) (\<lambda>b. map_option (\<lambda>k. unat (b_size k)) (blocks s b)))"

definition bt_mm_rep :: "'a mm_state_scheme \<Rightarrow> block_map \<Rightarrow> bool" where
  "bt_mm_rep s B \<longleftrightarrow> (\<exists>M. mm_inv s M \<and> B = bt_sizes s M \<and> (\<forall>b\<in>ran M. \<forall>k. blocks s b = Some k \<longrightarrow> b_size k \<noteq> 0))"

definition bt_fits :: "'a mm_state_scheme \<Rightarrow> u64 \<Rightarrow> nat \<Rightarrow> bool" where
  "bt_fits s p n \<longleftrightarrow> p \<noteq> 0 \<and> unat p + n < 2 ^ 64 \<and> 0 < n \<and> trackable (of_nat n)"

definition bt_dom :: "'a mm_state_scheme \<Rightarrow> u64 \<Rightarrow> bool" where
  "bt_dom s a = True"

definition bt_store :: "(loc set \<Rightarrow> loc) \<Rightarrow> u64 \<Rightarrow> nat \<Rightarrow> 'a mm_state_scheme \<Rightarrow> 'a mm_state_scheme option" where
  "bt_store pm p n s = map_option snd (store_block_bt pm p (of_nat n) s)"

definition bt_delete :: "(loc set \<Rightarrow> loc) \<Rightarrow> u64 \<Rightarrow> 'a mm_state_scheme \<Rightarrow> 'a mm_state_scheme option" where
  "bt_delete pm p s = delete_block_bt p s"

definition bt_valid_read :: "(loc set \<Rightarrow> loc) \<Rightarrow> u64 \<Rightarrow> nat \<Rightarrow> u64 \<Rightarrow> 'a mm_state_scheme \<Rightarrow> bool option" where
  "bt_valid_read pm ptr n base s = valid_read_bt False ptr (of_nat n) base s"

definition bt_initialize :: "(loc set \<Rightarrow> loc) \<Rightarrow> u64 \<Rightarrow> nat \<Rightarrow> 'a mm_state_scheme \<Rightarrow> 'a mm_state_scheme option" where
  "bt_initialize pm ptr n s = initialize_bt ptr (of_nat n) s"

definition bt_initialized :: "(loc set \<Rightarrow> loc) \<Rightarrow> u64 \<Rightarrow> nat \<Rightarrow> 'a mm_state_scheme \<Rightarrow> bool option" where
  "bt_initialized pm ptr n s = initialized_bt ptr (of_nat n) s"

definition bt_inits :: "'a mm_state_scheme \<Rightarrow> u64 set" where
  "bt_inits s = {a. \<exists>b k. bt_find s a = Some b \<and> b \<noteq> NULL \<and> blocks s b = Some k \<and> byte_init k (unat (a - b_ptr k))}"

section \<open>Blocks as address ranges\<close>

lemma bt_sizes_Some:
  assumes "mm_inv s M"
  shows "bt_sizes s M p = Some n \<longleftrightarrow> (\<exists>b k. b \<in> ran M \<and> M p = Some b \<and> blocks s b = Some k \<and> b_ptr k = p \<and> n = unat (b_size k))"
  using index_block(1) [OF mm_invD(1) [OF assms]]
  by (fastforce simp: bt_sizes_def bind_eq_Some_conv intro: ranI)

lemma inv_block:
  assumes "mm_inv s M" and "b \<in> ran M" and "blocks s b = Some k"
  shows "bt_sizes s M (b_ptr k) = Some (unat (b_size k))" and "no_wrap k"
  using index_ran [OF mm_invD(1) [OF assms(1)] assms(2)] mm_invD(2) [OF assms(1)] assms(2,3)
  by (auto simp: bt_sizes_def bt_apart_def blocks_apart_def)

lemma inside_no_wrap:
  assumes "unat p + n < 2 ^ 64"
  shows "inside p n a \<longleftrightarrow> p \<le> a \<and> unat a < unat p + n"
proof (cases "p \<le> a")
  case True
  then have "unat (a - p) = unat a - unat p" "unat p \<le> unat a" by (simp_all add: unat_sub_64 word_le_nat_alt)
  then show ?thesis using True by (auto simp: inside_def)
next
  case False
  have "unat (a - p) = 2 ^ 64 + unat a - unat p" using False unat_lt_64 [of p] by (simp add: unat_sub_if' word_le_nat_alt)
  then show ?thesis using False assms by (simp add: inside_def)
qed

lemma holds_inside:
  assumes "mm_inv s M" and "b \<in> ran M" and "blocks s b = Some k" and "b_size k \<noteq> 0"
  shows "holds s M b k a \<longleftrightarrow> inside (b_ptr k) (unat (b_size k)) a"
  using inv_block(2) [OF assms(1-3)] assms(2-4)
  by (simp add: holds_def block_has_def inside_no_wrap no_wrap_def)

lemma rep_holds:
  assumes "mm_inv s M" and "\<forall>b\<in>ran M. \<forall>k. blocks s b = Some k \<longrightarrow> b_size k \<noteq> 0"
  shows "(\<exists>b k. holds s M b k a \<and> b_ptr k = p \<and> unat (b_size k) = n) \<longleftrightarrow> bt_sizes s M p = Some n \<and> inside p n a"
proof
  assume "\<exists>b k. holds s M b k a \<and> b_ptr k = p \<and> unat (b_size k) = n"
  then obtain b k where h: "holds s M b k a" "b_ptr k = p" "unat (b_size k) = n" by blast
  then have "b \<in> ran M" "blocks s b = Some k" by (simp_all add: holds_def)
  then show "bt_sizes s M p = Some n \<and> inside p n a"
    using h inv_block(1) [OF assms(1)] holds_inside [OF assms(1)] assms(2) by auto
next
  assume h: "bt_sizes s M p = Some n \<and> inside p n a"
  then obtain b k where b: "b \<in> ran M" "blocks s b = Some k" "b_ptr k = p" "n = unat (b_size k)"
    using bt_sizes_Some [OF assms(1)] by blast
  then show "\<exists>b k. holds s M b k a \<and> b_ptr k = p \<and> unat (b_size k) = n"
    using h holds_inside [OF assms(1) b(1,2)] assms(2) by blast
qed

lemma rep_sep:
  assumes "mm_inv s M" and "\<forall>b\<in>ran M. \<forall>k. blocks s b = Some k \<longrightarrow> b_size k \<noteq> 0"
  shows "separate (bt_sizes s M)"
  unfolding separate_def
proof (intro allI impI)
  fix p n q m a assume "bt_sizes s M p = Some n" "bt_sizes s M q = Some m" "inside p n a" "inside q m a"
  then obtain b k c l where "holds s M b k a" "b_ptr k = p" "holds s M c l a" "b_ptr l = q"
    using rep_holds [OF assms] by metis
  then show "p = q" using holds_unique [OF assms(1)] by blast
qed

lemma rep_accessible:
  assumes "mm_inv s M" and "\<forall>b\<in>ran M. \<forall>k. blocks s b = Some k \<longrightarrow> b_size k \<noteq> 0" and "sz < 2 ^ 64"
  shows "(\<exists>b k. access s M False ptr (of_nat sz) base b k) \<longleftrightarrow> accessible (bt_sizes s M) ptr sz base"
proof
  assume "\<exists>b k. access s M False ptr (of_nat sz) base b k"
  then obtain b k where b: "holds s M b k ptr" "holds s M b k base" "unat (ptr - b_ptr k) + sz \<le> unat (b_size k)"
    using assms(3) by (auto simp: access_def unat_of_nat_64)
  then have "bt_sizes s M (b_ptr k) = Some (unat (b_size k))" "inside (b_ptr k) (unat (b_size k)) ptr" "inside (b_ptr k) (unat (b_size k)) base"
    using rep_holds [OF assms(1,2)] by blast+
  then show "accessible (bt_sizes s M) ptr sz base" using b(3) unfolding accessible_def by blast
next
  assume "accessible (bt_sizes s M) ptr sz base"
  then obtain p n where p: "bt_sizes s M p = Some n" "inside p n ptr" "inside p n base" "unat (ptr - p) + sz \<le> n"
    by (auto simp: accessible_def)
  then obtain b k where b: "b \<in> ran M" "blocks s b = Some k" "b_ptr k = p" "n = unat (b_size k)"
    using bt_sizes_Some [OF assms(1)] by blast
  then have "holds s M b k ptr" "holds s M b k base" using holds_inside [OF assms(1) b(1,2)] assms(2) p by auto
  then have "access s M False ptr (of_nat sz) base b k" using p(4) b(3,4) assms(3) by (simp add: access_def unat_of_nat_64)
  then show "\<exists>b k. access s M False ptr (of_nat sz) base b k" by blast
qed

lemma rep_region_free:
  assumes "mm_inv s M" and "\<forall>b\<in>ran M. \<forall>k. blocks s b = Some k \<longrightarrow> b_size k \<noteq> 0"
    and "bt_fits s p n" and "apart_from (bt_sizes s M) p n"
  shows "region_free s M p (of_nat n)"
proof -
  have f: "p \<noteq> 0" "unat p + n < 2 ^ 64" "0 < n" using assms(3) by (simp_all add: bt_fits_def)
  have un: "unat (of_nat n :: u64) = n" using f(2) by (intro unat_of_nat_64) simp
  have "b_ptr k \<noteq> p \<and> (b_ptr k < p \<longrightarrow> unat (b_ptr k) + unat (b_size k) \<le> unat p) \<and>
      (p < b_ptr k \<longrightarrow> unat p + n \<le> unat (b_ptr k))" if b: "b \<in> ran M" "blocks s b = Some k" for b k
  proof -
    note sz = inv_block [OF assms(1) b]
    have k0: "0 < unat (b_size k)" using assms(2) b by (simp add: unat_gt_0)
    have w: "unat (b_ptr k) + unat (b_size k) < 2 ^ 64" using sz(2) by (simp add: no_wrap_def)
    have "\<not> inside (b_ptr k) (unat (b_size k)) p" "\<not> inside p n (b_ptr k)"
      using apart_fromD [OF assms(4) sz(1), of p] apart_fromD [OF assms(4) sz(1), of "b_ptr k"] f(3) k0 by auto
    then show ?thesis
      unfolding inside_no_wrap [OF w] inside_no_wrap [OF f(2)] using k0 f(3)
      by (auto simp: word_le_nat_alt word_less_nat_alt)
  qed
  then show ?thesis using f un by (simp add: region_free_def)
qed

lemma bt_inits_holds:
  assumes "mm_inv s M"
  shows "a \<in> bt_inits s \<longleftrightarrow> (\<exists>b k. holds s M b k a \<and> byte_init k (unat (a - b_ptr k)))"
proof
  assume "a \<in> bt_inits s"
  then obtain b k where b: "bt_find s a = Some b" "b \<noteq> NULL" "blocks s b = Some k" "byte_init k (unat (a - b_ptr k))"
    by (auto simp: bt_inits_def)
  then show "\<exists>b k. holds s M b k a \<and> byte_init k (unat (a - b_ptr k))"
    using find_cases [OF assms, of a] by (metis holds_def option.inject)
next
  assume "\<exists>b k. holds s M b k a \<and> byte_init k (unat (a - b_ptr k))"
  then show "a \<in> bt_inits s" using find_holds [OF assms] by (fastforce simp: bt_inits_def holds_def)
qed

section \<open>The operations\<close>

lemma bt_mm_repE:
  assumes "bt_mm_rep s B"
  obtains M where "mm_inv s M" and "B = bt_sizes s M" and "\<forall>b\<in>ran M. \<forall>k. blocks s b = Some k \<longrightarrow> b_size k \<noteq> 0"
  using assms unfolding bt_mm_rep_def by blast

lemma bt_store_rep:
  assumes "fresh_alloc pm" and "bt_mm_rep s B" and "bt_fits s p n" and "apart_from B p n"
  obtains s' where "bt_store pm p n s = Some s'" and "bt_mm_rep s' (B(p \<mapsto> n))" and "bt_inits s' = bt_inits s"
proof -
  obtain M where M: "mm_inv s M" "B = bt_sizes s M" "\<forall>b\<in>ran M. \<forall>k. blocks s b = Some k \<longrightarrow> b_size k \<noteq> 0"
    using bt_mm_repE [OF assms(2)] by blast
  have fr: "region_free s M p (of_nat n)" using rep_region_free [OF M(1,3) assms(3)] assms(4) M(2) by simp
  have "trackable (of_nat n)" using assms(3) by (simp add: bt_fits_def)
  then obtain b s' where s': "store_block_bt pm p (of_nat n) s = Some (b, s')" "mm_inv s' (M(p \<mapsto> b))"
      "b \<notin> dom (blocks s)" "blocks s' = (blocks s)(b \<mapsto> fresh_block p (of_nat n))"
    using store_block_tracked [OF M(1) assms(1) fr] by blast
  have un: "unat (of_nat n :: u64) = n" "0 < n" using assms(3) by (auto simp: bt_fits_def intro: unat_of_nat_64)
  have new: "M p = None" using region_free_new [OF M(1) fr] .
  have r: "ran (M(p \<mapsto> b)) = insert b (ran M)" using new by (rule ran_map_upd)
  have old: "blocks s' c = blocks s c" if "c \<in> ran M" for c
    using that s'(3,4) index_ran [OF mm_invD(1) [OF M(1)] that] by auto
  have nb: "b \<notin> ran M" using index_ran [OF mm_invD(1) [OF M(1)], of b] s'(3) by (auto simp: domIff)
  have sz: "bt_sizes s' (M(p \<mapsto> b)) = B(p \<mapsto> n)"
  proof
    fix x
    show "bt_sizes s' (M(p \<mapsto> b)) x = (B(p \<mapsto> n)) x"
      using s'(4) nb un(1) M(2) ranI [of M x] by (cases "M x") (auto simp: bt_sizes_def)
  qed
  have pos: "\<forall>c\<in>ran (M(p \<mapsto> b)). \<forall>k. blocks s' c = Some k \<longrightarrow> b_size k \<noteq> 0"
    unfolding r using old M(3) s'(4) un by auto
  have rep': "bt_mm_rep s' (B(p \<mapsto> n))" unfolding bt_mm_rep_def using s'(2) sz pos by metis
  have "holds s' (M(p \<mapsto> b)) c k a \<and> byte_init k (unat (a - b_ptr k)) \<longleftrightarrow>
      holds s M c k a \<and> byte_init k (unat (a - b_ptr k))" for c k a
  proof (cases "c = b")
    case True
    then show ?thesis using nb s'(4) un by (auto simp: holds_def byte_init_def fresh_block_def)
  next
    case False
    then show ?thesis using s'(4) unfolding holds_def r by auto
  qed
  then have "bt_inits s' = bt_inits s"
    using bt_inits_holds [OF s'(2)] bt_inits_holds [OF M(1)] by blast
  then show thesis using that s'(1) rep' by (simp add: bt_store_def)
qed

lemma bt_delete_rep:
  assumes "bt_mm_rep s B" and "B p = Some n"
  obtains s' where "bt_delete pm p s = Some s'" and "bt_mm_rep s' (B(p := None))"
    and "bt_inits s' = bt_inits s - {a. inside p n a}"
proof -
  obtain M where M: "mm_inv s M" "B = bt_sizes s M" "\<forall>b\<in>ran M. \<forall>k. blocks s b = Some k \<longrightarrow> b_size k \<noteq> 0"
    using bt_mm_repE [OF assms(1)] by blast
  obtain b k where b: "b \<in> ran M" "M p = Some b" "blocks s b = Some k" "b_ptr k = p" "n = unat (b_size k)"
    using bt_sizes_Some [OF M(1)] assms(2) M(2) by blast
  obtain s' where s': "delete_block_bt p s = Some s'" "mm_inv s' (M(p := None))" "blocks s' = (blocks s)(b := None)"
    using delete_block_tracked [OF M(1) b(2)] by blast
  note r = ran_remove [OF mm_invD(1) [OF M(1)] b(2)]
  have sz: "bt_sizes s' (M(p := None)) = B(p := None)"
  proof
    fix x
    have "c \<noteq> b" if "M x = Some c" "x \<noteq> p" for c using index_inj [OF mm_invD(1) [OF M(1)] b(2), of x] that by blast
    then show "bt_sizes s' (M(p := None)) x = (B(p := None)) x"
      using s'(3) M(2) by (cases "M x") (auto simp: bt_sizes_def)
  qed
  have "\<forall>c\<in>ran (M(p := None)). \<forall>k. blocks s' c = Some k \<longrightarrow> b_size k \<noteq> 0"
    unfolding r using M(3) s'(3) by auto
  then have rep': "bt_mm_rep s' (B(p := None))" unfolding bt_mm_rep_def using s'(2) sz by metis
  have hb: "holds s M b l a \<longleftrightarrow> l = k \<and> inside p n a" for l a
    using holds_inside [OF M(1) b(1,3)] M(3) b by (auto simp: holds_def)
  have "holds s' (M(p := None)) c l a \<longleftrightarrow> holds s M c l a \<and> \<not> inside p n a" for c l a
  proof
    assume "holds s' (M(p := None)) c l a"
    then have h: "holds s M c l a" "c \<noteq> b" unfolding holds_def r using s'(3) by auto
    then show "holds s M c l a \<and> \<not> inside p n a" using holds_unique(1) [OF M(1) h(1), of b k] hb by blast
  next
    assume "holds s M c l a \<and> \<not> inside p n a"
    moreover from this have "c \<noteq> b" using hb by blast
    ultimately show "holds s' (M(p := None)) c l a" unfolding holds_def r using s'(3) by auto
  qed
  then have "bt_inits s' = bt_inits s - {a. inside p n a}"
    using bt_inits_holds [OF s'(2)] bt_inits_holds [OF M(1)] by blast
  then show thesis using that s'(1) rep' by (simp add: bt_delete_def)
qed

lemma bt_accessible_holds:
  assumes "mm_inv s M" and "\<forall>b\<in>ran M. \<forall>k. blocks s b = Some k \<longrightarrow> b_size k \<noteq> 0"
    and "accessible (bt_sizes s M) ptr sz ptr" and "sz < 2 ^ 31"
  obtains b k where "holds s M b k ptr" and "unat (ptr - b_ptr k) + unat (of_nat sz :: u64) \<le> unat (b_size k)"
    and "unat (of_nat sz :: u64) = sz"
    and "\<And>a. inside ptr sz a \<longleftrightarrow> unat (ptr - b_ptr k) \<le> unat (a - b_ptr k) \<and> unat (a - b_ptr k) < unat (ptr - b_ptr k) + sz"
    and "\<And>a. inside ptr sz a \<Longrightarrow> holds s M b k a"
proof -
  have un: "unat (of_nat sz :: u64) = sz" using assms(4) by (intro unat_of_nat_64) simp
  obtain b k where b: "access s M False ptr (of_nat sz) ptr b k"
    using rep_accessible [OF assms(1,2), of sz ptr ptr] assms(3,4) by auto
  then have h: "holds s M b k ptr" "unat (ptr - b_ptr k) + unat (of_nat sz :: u64) \<le> unat (b_size k)"
    by (simp_all add: access_def)
  have bk: "b \<in> ran M" "blocks s b = Some k" using h(1) by (simp_all add: holds_def)
  have ins: "inside ptr sz a \<longleftrightarrow> unat (ptr - b_ptr k) \<le> unat (a - b_ptr k) \<and> unat (a - b_ptr k) < unat (ptr - b_ptr k) + sz" for a
  proof (cases "sz = 0")
    case False
    have "a - ptr = of_nat (unat (a - b_ptr k)) - of_nat (unat (ptr - b_ptr k))" by simp
    moreover have "unat (ptr - b_ptr k) + sz \<le> 2 ^ 64" using h(2) un unat_lt_64 [of "b_size k"] by linarith
    ultimately show ?thesis
      using unat_diff_of_nat_less [of "unat (a - b_ptr k)" "unat (ptr - b_ptr k)" sz] False unat_lt_64 [of "a - b_ptr k"]
      by (simp add: inside_def)
  qed (simp add: inside_def)
  have "holds s M b k a" if "inside ptr sz a" for a
  proof -
    have "unat (a - b_ptr k) < unat (ptr - b_ptr k) + sz" using that ins by blast
    then have "inside (b_ptr k) (unat (b_size k)) a" using h(2) un unfolding inside_def by linarith
    then show ?thesis using holds_inside [OF assms(1) bk] assms(2) bk by blast
  qed
  then show thesis using that [OF h un ins] by blast
qed

lemma bt_initialize_rep:
  assumes "bt_mm_rep s B" and "accessible B ptr sz ptr" and "sz < 2 ^ 31"
  obtains s' where "bt_initialize pm ptr sz s = Some s'" and "bt_mm_rep s' B"
    and "bt_inits s' = bt_inits s \<union> {a. inside ptr sz a}"
proof -
  obtain M where M: "mm_inv s M" "B = bt_sizes s M" "\<forall>b\<in>ran M. \<forall>k. blocks s b = Some k \<longrightarrow> b_size k \<noteq> 0"
    using bt_mm_repE [OF assms(1)] by blast
  obtain b k where h: "holds s M b k ptr" "unat (ptr - b_ptr k) + unat (of_nat sz :: u64) \<le> unat (b_size k)"
      "unat (of_nat sz :: u64) = sz"
      "\<And>a. inside ptr sz a \<longleftrightarrow> unat (ptr - b_ptr k) \<le> unat (a - b_ptr k) \<and> unat (a - b_ptr k) < unat (ptr - b_ptr k) + sz"
      "\<And>a. inside ptr sz a \<Longrightarrow> holds s M b k a"
    using bt_accessible_holds [OF M(1,3)] assms(2,3) M(2) by metis
  have s32: "unat (of_nat sz :: u64) < 2 ^ 32" using h(3) assms(3) by simp
  have bk: "b \<in> ran M" "blocks s b = Some k" using h(1) by (simp_all add: holds_def)
  obtain p c where pc: "let k' = k\<lparr>b_init_ptr := p, b_init_bytes := c\<rparr> in
      initialize_bt ptr (of_nat sz) s = Some (s\<lparr>blocks := (blocks s)(b \<mapsto> k')\<rparr>) \<and>
      mm_inv (s\<lparr>blocks := (blocks s)(b \<mapsto> k')\<rparr>) M \<and>
      (\<forall>j. byte_init k' j \<longleftrightarrow> byte_init k j \<or>
        unat (ptr - b_ptr k) \<le> j \<and> j < unat (ptr - b_ptr k) + unat (of_nat sz :: u64))"
    using initialize_tracked [OF M(1) h(1) s32 h(2)] by blast
  define k' where "k' = k\<lparr>b_init_ptr := p, b_init_bytes := c\<rparr>"
  define s' where "s' = s\<lparr>blocks := (blocks s)(b \<mapsto> k')\<rparr>"
  have i: "initialize_bt ptr (of_nat sz) s = Some s'" "mm_inv s' M"
    "\<And>j. byte_init k' j \<longleftrightarrow> byte_init k j \<or> unat (ptr - b_ptr k) \<le> j \<and> j < unat (ptr - b_ptr k) + sz"
    using pc h(3) by (simp_all add: k'_def s'_def Let_def)
  have kk: "b_ptr k' = b_ptr k" "b_size k' = b_size k" by (simp_all add: k'_def)
  have bs: "blocks s' = (blocks s)(b \<mapsto> k')" by (simp add: s'_def)
  have "bt_sizes s' M = B" unfolding M(2) bt_sizes_def
    by (rule ext) (use bk(2) kk bs in \<open>auto split: bind_splits\<close>)
  moreover have "\<forall>c\<in>ran M. \<forall>l. blocks s' c = Some l \<longrightarrow> b_size l \<noteq> 0" using M(3) bk kk bs by auto
  ultimately have rep': "bt_mm_rep s' B" unfolding bt_mm_rep_def using i(2) by metis
  have "a \<in> bt_inits s' \<longleftrightarrow> a \<in> bt_inits s \<union> {a. inside ptr sz a}" for a
  proof (cases "holds s M b k a")
    case True
    then have t': "holds s' M b k' a" using kk bs by (auto simp: holds_def block_has_def)
    have "a \<in> bt_inits s' \<longleftrightarrow> byte_init k' (unat (a - b_ptr k'))" "a \<in> bt_inits s \<longleftrightarrow> byte_init k (unat (a - b_ptr k))"
      using bt_inits_holds [OF i(2)] bt_inits_holds [OF M(1)] holds_unique [OF M(1) True] holds_unique [OF i(2) t'] True t'
      by metis+
    then show ?thesis using i(3) h(4) [of a] kk(1) by simp
  next
    case False
    have "holds s' M d l a \<longleftrightarrow> holds s M d l a" for d l
      using False kk bs bk by (cases "d = b") (auto simp: holds_def block_has_def)
    then have "a \<in> bt_inits s' \<longleftrightarrow> a \<in> bt_inits s" using bt_inits_holds [OF i(2)] bt_inits_holds [OF M(1)] by blast
    then show ?thesis using h(5) [of a] False by blast
  qed
  then show thesis using that i(1) rep' by (simp add: bt_initialize_def set_eq_iff)
qed

lemma bt_initialized_rep:
  assumes "bt_mm_rep s B" and "accessible B ptr sz ptr" and "0 < sz" and "sz < 2 ^ 31"
  shows "bt_initialized pm ptr sz s = Some ({a. inside ptr sz a} \<subseteq> bt_inits s)"
proof -
  obtain M where M: "mm_inv s M" "B = bt_sizes s M" "\<forall>b\<in>ran M. \<forall>k. blocks s b = Some k \<longrightarrow> b_size k \<noteq> 0"
    using bt_mm_repE [OF assms(1)] by blast
  obtain b k where h: "holds s M b k ptr" "unat (ptr - b_ptr k) + unat (of_nat sz :: u64) \<le> unat (b_size k)"
      "unat (of_nat sz :: u64) = sz"
      "\<And>a. inside ptr sz a \<longleftrightarrow> unat (ptr - b_ptr k) \<le> unat (a - b_ptr k) \<and> unat (a - b_ptr k) < unat (ptr - b_ptr k) + sz"
      "\<And>a. inside ptr sz a \<Longrightarrow> holds s M b k a"
    using bt_accessible_holds [OF M(1,3)] assms(2,4) M(2) by metis
  have "unat (of_nat sz :: u64) < 2 ^ 32" "0 < unat (of_nat sz :: u64)" using h(3) assms(3,4) by simp_all
  note r = initialized_tracked [OF M(1) h(1) this h(2), unfolded h(3)]
  have "a \<in> bt_inits s \<longleftrightarrow> byte_init k (unat (a - b_ptr k))" if "inside ptr sz a" for a
    using bt_inits_holds [OF M(1)] h(5) [OF that] holds_unique [OF M(1) h(5) [OF that]] by metis
  then have "{a. inside ptr sz a} \<subseteq> bt_inits s \<longleftrightarrow> (\<forall>a. inside ptr sz a \<longrightarrow> byte_init k (unat (a - b_ptr k)))" by blast
  also have "\<dots> \<longleftrightarrow> (\<forall>j. unat (ptr - b_ptr k) \<le> j \<and> j < unat (ptr - b_ptr k) + sz \<longrightarrow> byte_init k j)"
  proof (intro iffI allI impI)
    fix j assume all: "\<forall>a. inside ptr sz a \<longrightarrow> byte_init k (unat (a - b_ptr k))"
      and j: "unat (ptr - b_ptr k) \<le> j \<and> j < unat (ptr - b_ptr k) + sz"
    have "j < 2 ^ 64" using j h(2,3) unat_lt_64 [of "b_size k"] by linarith
    then have u: "unat (b_ptr k + of_nat j - b_ptr k) = j" by (simp add: unat_of_nat_64)
    then show "byte_init k j" using all [rule_format, of "b_ptr k + of_nat j"] j unfolding h(4) u by blast
  qed (use h(4) in blast)
  finally show ?thesis using r by (simp add: bt_initialized_def)
qed

lemma bt_same: "bt_fits s' = bt_fits s" "bt_dom s' = bt_dom s" for s s' :: "'a mm_state_scheme"
  by (auto simp: bt_fits_def bt_dom_def fun_eq_iff)

interpretation btm: memory_model_init bt_mm_rep bt_fits bt_dom fresh_alloc bt_store bt_delete bt_valid_read
  bt_inits bt_initialize bt_initialized
proof (unfold_locales, goal_cases)
  case (1 s B)
  then obtain M where "mm_inv s M" "B = bt_sizes s M" "\<forall>b\<in>ran M. \<forall>k. blocks s b = Some k \<longrightarrow> b_size k \<noteq> 0"
    using bt_mm_repE by blast
  then show ?case using rep_sep by blast
next
  case (2 s B p n)
  then obtain M where "mm_inv s M" "B = bt_sizes s M" "\<forall>b\<in>ran M. \<forall>k. blocks s b = Some k \<longrightarrow> b_size k \<noteq> 0"
    using bt_mm_repE by blast
  then show ?case using 2(2) bt_sizes_Some [of s M p n] by (auto simp: unat_gt_0)
next
  case (5 pm s B p n)
  then obtain s' where "bt_store pm p n s = Some s'" "bt_mm_rep s' (B(p \<mapsto> n))" using bt_store_rep by blast
  then show ?case using bt_same [of s' s] by blast
next
  case (6 pm s B p n)
  then obtain s' where "bt_delete pm p s = Some s'" "bt_mm_rep s' (B(p := None))" using bt_delete_rep by blast
  then show ?case using bt_same [of s' s] by blast
next
  case (7 pm s B ptr sz base)
  obtain M where M: "mm_inv s M" "B = bt_sizes s M" "\<forall>b\<in>ran M. \<forall>k. blocks s b = Some k \<longrightarrow> b_size k \<noteq> 0"
    using bt_mm_repE [OF 7(2)] by blast
  then show ?case using valid_read_spec [OF M(1)] rep_accessible [OF M(1,3), of sz ptr base] 7(5)
    by (simp add: bt_valid_read_def)
next
  case (8 s B a)
  obtain M where M: "mm_inv s M" "B = bt_sizes s M" "\<forall>b\<in>ran M. \<forall>k. blocks s b = Some k \<longrightarrow> b_size k \<noteq> 0"
    using bt_mm_repE [OF 8(1)] by blast
  then show ?case using 8(2) bt_inits_holds [OF M(1)] rep_holds [OF M(1,3)] unfolding covered_def by metis
next
  case (9 pm s B p n s')
  then show ?case using bt_store_rep [OF 9(1-4)] by (metis option.inject)
next
  case (10 pm s B p n s')
  then show ?case using bt_delete_rep [OF 10(2,3)] by (metis option.inject)
next
  case (11 pm s B ptr sz)
  then obtain s' where "bt_initialize pm ptr sz s = Some s'" "bt_mm_rep s' B" "bt_inits s' = bt_inits s \<union> {a. inside ptr sz a}"
    using bt_initialize_rep by metis
  then show ?case using bt_same [of s' s] by blast
next
  case (12 pm s B ptr sz)
  then show ?case by (intro bt_initialized_rep) auto
qed (auto simp: bt_fits_def bt_dom_def)

end
