(* ===== verification/Shadow_Layout.thy ===== *)
theory Shadow_Layout
  imports Alloc Bits
begin

text \<open>
  \<^verbatim>\<open>segment_model/e_acsl_shadow_layout.h\<close> and the memory spaces of \<^verbatim>\<open>e_acsl_malloc.h\<close>: the
  description of the program's segments and of their shadows, how it is set up, and the
  arithmetic that takes an application address to its shadow. The operating system and the
  vendored allocator enter as parameters: what \<^verbatim>\<open>getrlimit\<close> answers, where the linker and the
  loader put things, and where each new mspace lies.
\<close>

section \<open>Constants\<close>

definition KB :: u64 where "KB = 1024"
definition MB :: u64 where "MB = 1024 * KB"
definition GB :: u64 where "GB = 1024 * MB"
definition KB_SZ :: "u64 \<Rightarrow> u64" where "KB_SZ s = s div KB"
definition MB_SZ :: "u64 \<Rightarrow> u64" where "MB_SZ s = s div MB"
definition GB_SZ :: "u64 \<Rightarrow> u64" where "GB_SZ s = s div GB"

definition E_ACSL_HEAP_SIZE :: u64 where "E_ACSL_HEAP_SIZE = 512"
definition E_ACSL_STACK_SIZE :: u64 where "E_ACSL_STACK_SIZE = 64"
definition PTR_SZ :: u64 where "PTR_SZ = 8"
definition ULONG_BYTES :: nat where "ULONG_BYTES = 8"
definition ULONG_BITS :: u64 where "ULONG_BITS = 64"
definition PGM_HEAP_SIZE :: u64 where "PGM_HEAP_SIZE = E_ACSL_HEAP_SIZE * MB"
definition PGM_TLS_SIZE :: u64 where "PGM_TLS_SIZE = 64 * MB"
definition SHADOW_SEGMENT_PADDING :: u64 where "SHADOW_SEGMENT_PADDING = 512 * KB"

section \<open>Memory spaces\<close>

record memory_spaces =
  rtl_mspace :: u64
  heap_mspace :: u64
  heap_start :: u64
  heap_end :: u64
  heap_mspace_least :: u64

text \<open>
  The allocator as far as the runtime calls it at start-up: \<open>create_mspace sz\<close> gives the handle of
  the mspace made with that capacity for the segment named, \<open>mspace_malloc1\<close> the result of
  allocating one byte in it and \<open>mspace_least_addr\<close> its least address.
\<close>

record mspaces =
  create_mspace :: "string \<Rightarrow> u64 \<Rightarrow> u64"
  mspace_malloc1 :: "u64 \<Rightarrow> u64"
  mspace_least_addr :: "u64 \<Rightarrow> u64"

definition make_memory_spaces :: "mspaces \<Rightarrow> u64 \<Rightarrow> u64 \<Rightarrow> memory_spaces" where
  "make_memory_spaces P rtl_size heap_size =
     (let rtl = create_mspace P ''rtl'' rtl_size;
          hp = create_mspace P ''heap'' heap_size;
          start = mspace_malloc1 P hp
      in \<lparr>rtl_mspace = rtl, heap_mspace = hp, heap_start = start, heap_end = start + heap_size,
          heap_mspace_least = mspace_least_addr P hp\<rparr>)"

text \<open>The handles given to \<^verbatim>\<open>destroy_mspace\<close>.\<close>

definition destroy_memory_spaces :: "memory_spaces \<Rightarrow> u64 list" where
  "destroy_memory_spaces sp = [rtl_mspace sp, heap_mspace sp]"

section \<open>Segments\<close>

text \<open>The parent pointer of a shadow segment is given by the name of the segment it tracks.\<close>

record memory_segment =
  seg_name :: string
  seg_size :: u64
  seg_start :: u64
  seg_end :: u64
  seg_mspace :: u64
  seg_parent :: "string option"
  shadow_ratio :: u64
  shadow_offset :: u64

record memory_partition =
  application :: memory_segment
  primary :: memory_segment
  secondary :: memory_segment
  temporal_primary :: memory_segment
  temporal_secondary :: memory_segment

record memory_layout =
  lay_heap :: memory_partition
  lay_stack :: memory_partition
  lay_global :: memory_partition
  lay_tls :: memory_partition
  is_initialized :: bool

text \<open>A segment and a partition before they are set: a static object, filled with zeros.\<close>

definition no_segment :: memory_segment where
  "no_segment = \<lparr>seg_name = [], seg_size = 0, seg_start = 0, seg_end = 0, seg_mspace = 0,
     seg_parent = None, shadow_ratio = 0, shadow_offset = 0\<rparr>"

definition no_partition :: memory_partition where
  "no_partition = \<lparr>application = no_segment, primary = no_segment, secondary = no_segment,
     temporal_primary = no_segment, temporal_secondary = no_segment\<rparr>"

definition mem_layout :: memory_layout where
  "mem_layout = \<lparr>lay_heap = no_partition, lay_stack = no_partition, lay_global = no_partition,
     lay_tls = no_partition, is_initialized = False\<rparr>"

definition mem_partitions :: "memory_layout \<Rightarrow> memory_partition list" where
  "mem_partitions L = [lay_heap L, lay_stack L, lay_global L, lay_tls L]"

definition set_application_segment :: "u64 \<Rightarrow> u64 \<Rightarrow> string \<Rightarrow> u64 \<Rightarrow> memory_segment" where
  "set_application_segment start sz nm msp =
     \<lparr>seg_name = nm, seg_size = sz, seg_start = start, seg_end = start + sz, seg_mspace = msp,
      seg_parent = None, shadow_ratio = 0, shadow_offset = 0\<rparr>"

definition set_shadow_segment :: "mspaces \<Rightarrow> memory_segment \<Rightarrow> u64 \<Rightarrow> string \<Rightarrow> memory_segment" where
  "set_shadow_segment P parent ratio nm =
     (let sz = seg_size parent div ratio;
          msp = create_mspace P nm (sz + SHADOW_SEGMENT_PADDING);
          start = mspace_malloc1 P msp
      in \<lparr>seg_name = nm, seg_size = sz, seg_start = start, seg_end = start + sz, seg_mspace = msp,
          seg_parent = Some (seg_name parent), shadow_ratio = ratio,
          shadow_offset = seg_start parent - start\<rparr>)"

section \<open>Where the segments of the program are\<close>

record rlimit =
  rlim_cur :: u64
  rlim_max :: u64

text \<open>
  The process: the answer of \<^verbatim>\<open>getrlimit\<close> (\<open>None\<close> for a failure), whether \<^verbatim>\<open>setrlimit\<close> accepts a
  limit, the addresses of the linker symbols and of the two thread-local variables, and the
  environment strings, each with its address and its length.
\<close>

record process =
  getrlimit :: "rlimit option"
  setrlimit_ok :: "rlimit \<Rightarrow> bool"
  executable_start :: u64
  end_symbol :: u64
  id_tdata :: u64
  id_tbss :: u64
  environ_strings :: "(u64 \<times> u64) list"

definition get_tls_size :: u64 where
  "get_tls_size = PGM_TLS_SIZE"

definition increase_stack_limit :: "process \<Rightarrow> u64 \<Rightarrow> u64 outcome" where
  "increase_stack_limit pr stacksz =
     (case getrlimit pr of
        None \<Rightarrow> Inl ''getrlimit''
      | Some rl \<Rightarrow>
          if rlim_cur rl < stacksz then
            (let stacksz = (if stacksz > rlim_max rl then rlim_max rl else stacksz)
             in if setrlimit_ok pr (rl\<lparr>rlim_cur := stacksz\<rparr>) then Inr stacksz else Inl ''setrlimit'')
          else Inr stacksz)"

definition get_default_stack_size :: "process \<Rightarrow> u64 outcome" where
  "get_default_stack_size pr =
     (case getrlimit pr of None \<Rightarrow> Inl ''Cannot detect program's stack size'' | Some rl \<Rightarrow> Inr (rlim_cur rl))"

definition get_stack_size :: "process \<Rightarrow> u64 outcome" where
  "get_stack_size pr = increase_stack_limit pr (E_ACSL_STACK_SIZE * MB)"

text \<open>The loop of \<^verbatim>\<open>get_stack_start\<close>: the last environment string.\<close>

fun last_environ :: "(u64 \<times> u64) list \<Rightarrow> u64 \<times> u64" where
  "last_environ [e] = e"
| "last_environ (e # f # es) = last_environ (f # es)"
| "last_environ [] = (0, 0)"

definition get_stack_start :: "process \<Rightarrow> u64 outcome" where
  "get_stack_start pr =
     (let (env, len) = last_environ (environ_strings pr);
          stack_end = (env + len) + ULONG_BITS
      in case get_stack_size pr of Inl e \<Rightarrow> Inl e | Inr sz \<Rightarrow> Inr (stack_end - sz))"

definition get_heap_start :: "memory_spaces \<Rightarrow> u64" where
  "get_heap_start sp = heap_start sp"

definition get_heap_size :: u64 where
  "get_heap_size = PGM_HEAP_SIZE"

definition get_heap_init_size :: u64 where
  "get_heap_init_size = get_heap_size div 8"

definition get_global_start :: "process \<Rightarrow> u64" where
  "get_global_start pr = executable_start pr"

definition get_global_size :: "process \<Rightarrow> u64" where
  "get_global_size pr = end_symbol pr - get_global_start pr"

definition get_tls_start :: "process \<Rightarrow> memory_layout \<Rightarrow> u64 outcome" where
  "get_tls_start pr L =
     (let data = id_tdata pr; bss = id_tbss pr;
          tls_start_half = (if data > bss then bss else data) - get_tls_size div 2;
          pheap = lay_heap L; pglobal = lay_global L;
          max_shadow = seg_end (primary pheap);
          max_shadow = (if seg_end (secondary pheap) > max_shadow then seg_end (secondary pheap) else max_shadow);
          max_shadow = (if seg_end (primary pglobal) > max_shadow then seg_end (primary pglobal) else max_shadow);
          max_shadow = (if seg_end (secondary pglobal) > max_shadow then seg_end (secondary pglobal) else max_shadow);
          max_shadow = (if seg_end (application pheap) > max_shadow then seg_end (application pheap) else max_shadow)
      in case get_stack_size pr of
           Inl e \<Rightarrow> Inl e
         | Inr sz \<Rightarrow>
             (let max_shadow = max_shadow + 2 * sz + 1
              in Inr (if tls_start_half > max_shadow then tls_start_half else max_shadow)))"

section \<open>Setting up the layout\<close>

text \<open>
  \<open>shadow_partition P temporal app r1 r2\<close> are the shadows of one application segment with the
  ratios of its primary and secondary shadow; the temporal ones exist in the temporal build.
\<close>

definition shadow_partition :: "mspaces \<Rightarrow> bool \<Rightarrow> memory_segment \<Rightarrow> u64 \<Rightarrow> u64 \<Rightarrow> memory_partition" where
  "shadow_partition P temporal app r1 r2 =
     \<lparr>application = app,
      primary = set_shadow_segment P app r1 (seg_name app @ ''_primary''),
      secondary = set_shadow_segment P app r2 (seg_name app @ ''_secondary''),
      temporal_primary =
        (if temporal then set_shadow_segment P app 1 (''temporal_'' @ seg_name app @ ''_primary'') else no_segment),
      temporal_secondary =
        (if temporal then set_shadow_segment P app 1 (''temporal_'' @ seg_name app @ ''_secondary'') else no_segment)\<rparr>"

definition init_shadow_layout_stack ::
  "mspaces \<Rightarrow> process \<Rightarrow> bool \<Rightarrow> memory_layout \<Rightarrow> memory_layout outcome" where
  "init_shadow_layout_stack P pr temporal L =
     (case get_stack_start pr of
        Inl e \<Rightarrow> Inl e
      | Inr start \<Rightarrow>
          (case get_stack_size pr of
             Inl e \<Rightarrow> Inl e
           | Inr sz \<Rightarrow>
               Inr (L\<lparr>lay_stack := shadow_partition P temporal (set_application_segment start sz ''stack'' 0) 1 1,
                      is_initialized := True\<rparr>)))"

definition init_shadow_layout_heap_global_tls ::
  "mspaces \<Rightarrow> process \<Rightarrow> bool \<Rightarrow> memory_spaces \<Rightarrow> memory_layout \<Rightarrow> memory_layout outcome" where
  "init_shadow_layout_heap_global_tls P pr temporal sp L =
     (let L = L\<lparr>lay_heap := shadow_partition P temporal
                  (set_application_segment (get_heap_start sp) get_heap_size ''heap'' (heap_mspace sp)) 1 8\<rparr>;
          L = L\<lparr>lay_global := shadow_partition P temporal
                  (set_application_segment (get_global_start pr) (get_global_size pr) ''global'' 0) 1 1\<rparr>
      in case get_tls_start pr L of
           Inl e \<Rightarrow> Inl e
         | Inr start \<Rightarrow>
             Inr (L\<lparr>lay_tls := shadow_partition P temporal
                      (set_application_segment start get_tls_size ''tls'' 0) 1 1,
                    is_initialized := True\<rparr>))"

text \<open>The handles that \<^verbatim>\<open>clean_shadow_layout\<close> destroys, in order.\<close>

definition clean_shadow_layout :: "memory_layout \<Rightarrow> u64 list" where
  "clean_shadow_layout L =
     (if is_initialized L
      then concat (map (\<lambda>p. (if seg_mspace (primary p) \<noteq> 0 then [seg_mspace (primary p)] else []) @
                            (if seg_mspace (secondary p) \<noteq> 0 then [seg_mspace (secondary p)] else []))
             (mem_partitions L))
      else [])"

section \<open>Shadow addresses\<close>

definition SHADOW_ACCESS :: "u64 \<Rightarrow> u64 \<Rightarrow> u64" where
  "SHADOW_ACCESS addr offset = addr - offset"

definition SCALED_SHADOW_ACCESS :: "u64 \<Rightarrow> u64 \<Rightarrow> u64 \<Rightarrow> u64 \<Rightarrow> u64" where
  "SCALED_SHADOW_ACCESS addr start offset scale = (start - offset) + (addr - start) div scale"

definition HEAP_SHADOW :: "memory_layout \<Rightarrow> u64 \<Rightarrow> u64" where
  "HEAP_SHADOW L addr = SHADOW_ACCESS addr (shadow_offset (primary (lay_heap L)))"

definition HEAP_INIT_SHADOW :: "memory_layout \<Rightarrow> u64 \<Rightarrow> u64" where
  "HEAP_INIT_SHADOW L addr =
     SCALED_SHADOW_ACCESS addr (seg_start (application (lay_heap L)))
       (shadow_offset (secondary (lay_heap L))) (shadow_ratio (secondary (lay_heap L)))"

definition HEAP_START :: "memory_layout \<Rightarrow> u64" where
  "HEAP_START L = seg_start (application (lay_heap L))"

definition PRIMARY_STACK_SHADOW :: "memory_layout \<Rightarrow> u64 \<Rightarrow> u64" where
  "PRIMARY_STACK_SHADOW L addr = SHADOW_ACCESS addr (shadow_offset (primary (lay_stack L)))"

definition SECONDARY_STACK_SHADOW :: "memory_layout \<Rightarrow> u64 \<Rightarrow> u64" where
  "SECONDARY_STACK_SHADOW L addr = SHADOW_ACCESS addr (shadow_offset (secondary (lay_stack L)))"

definition PRIMARY_GLOBAL_SHADOW :: "memory_layout \<Rightarrow> u64 \<Rightarrow> u64" where
  "PRIMARY_GLOBAL_SHADOW L addr = SHADOW_ACCESS addr (shadow_offset (primary (lay_global L)))"

definition SECONDARY_GLOBAL_SHADOW :: "memory_layout \<Rightarrow> u64 \<Rightarrow> u64" where
  "SECONDARY_GLOBAL_SHADOW L addr = SHADOW_ACCESS addr (shadow_offset (secondary (lay_global L)))"

definition PRIMARY_TLS_SHADOW :: "memory_layout \<Rightarrow> u64 \<Rightarrow> u64" where
  "PRIMARY_TLS_SHADOW L addr = SHADOW_ACCESS addr (shadow_offset (primary (lay_tls L)))"

definition SECONDARY_TLS_SHADOW :: "memory_layout \<Rightarrow> u64 \<Rightarrow> u64" where
  "SECONDARY_TLS_SHADOW L addr = SHADOW_ACCESS addr (shadow_offset (secondary (lay_tls L)))"

definition IS_ON :: "u64 \<Rightarrow> memory_segment \<Rightarrow> bool" where
  "IS_ON addr seg \<longleftrightarrow> addr \<ge> seg_start seg \<and> addr \<le> seg_end seg"

definition IS_ON_HEAP :: "memory_layout \<Rightarrow> u64 \<Rightarrow> bool" where
  "IS_ON_HEAP L addr = IS_ON addr (application (lay_heap L))"

definition IS_ON_STACK :: "memory_layout \<Rightarrow> u64 \<Rightarrow> bool" where
  "IS_ON_STACK L addr = IS_ON addr (application (lay_stack L))"

definition IS_ON_GLOBAL :: "memory_layout \<Rightarrow> u64 \<Rightarrow> bool" where
  "IS_ON_GLOBAL L addr = IS_ON addr (application (lay_global L))"

definition IS_ON_TLS :: "memory_layout \<Rightarrow> u64 \<Rightarrow> bool" where
  "IS_ON_TLS L addr = IS_ON addr (application (lay_tls L))"

definition IS_ON_STATIC :: "memory_layout \<Rightarrow> u64 \<Rightarrow> bool" where
  "IS_ON_STATIC L addr \<longleftrightarrow> IS_ON_STACK L addr \<or> IS_ON_GLOBAL L addr \<or> IS_ON_TLS L addr"

definition IS_ON_VALID :: "memory_layout \<Rightarrow> u64 \<Rightarrow> bool" where
  "IS_ON_VALID L addr \<longleftrightarrow>
     IS_ON_STACK L addr \<or> IS_ON_HEAP L addr \<or> IS_ON_GLOBAL L addr \<or> IS_ON_TLS L addr"

text \<open>The macro that chooses the region: an untracked address has the shadow address 0.\<close>

definition SHADOW_REGION_ADDRESS ::
  "(memory_partition \<Rightarrow> memory_segment) \<Rightarrow> memory_layout \<Rightarrow> u64 \<Rightarrow> u64" where
  "SHADOW_REGION_ADDRESS reg L addr =
     (if IS_ON_STACK L addr then SHADOW_ACCESS addr (shadow_offset (reg (lay_stack L)))
      else if IS_ON_GLOBAL L addr then SHADOW_ACCESS addr (shadow_offset (reg (lay_global L)))
      else if IS_ON_TLS L addr then SHADOW_ACCESS addr (shadow_offset (reg (lay_tls L)))
      else 0)"

definition PRIMARY_SHADOW :: "memory_layout \<Rightarrow> u64 \<Rightarrow> u64" where
  "PRIMARY_SHADOW = SHADOW_REGION_ADDRESS primary"

definition SECONDARY_SHADOW :: "memory_layout \<Rightarrow> u64 \<Rightarrow> u64" where
  "SECONDARY_SHADOW = SHADOW_REGION_ADDRESS secondary"

definition TEMPORAL_HEAP_SHADOW :: "memory_layout \<Rightarrow> u64 \<Rightarrow> u64" where
  "TEMPORAL_HEAP_SHADOW L addr = SHADOW_ACCESS addr (shadow_offset (temporal_primary (lay_heap L)))"

definition TEMPORAL_PRIMARY_STATIC_SHADOW :: "memory_layout \<Rightarrow> u64 \<Rightarrow> u64" where
  "TEMPORAL_PRIMARY_STATIC_SHADOW = SHADOW_REGION_ADDRESS temporal_primary"

definition TEMPORAL_SECONDARY_STATIC_SHADOW :: "memory_layout \<Rightarrow> u64 \<Rightarrow> u64" where
  "TEMPORAL_SECONDARY_STATIC_SHADOW = SHADOW_REGION_ADDRESS temporal_secondary"

end
