(* ===== verification/Segment_Static.thy ===== *)
theory Segment_Static
  imports Shadow_Layout
begin

text \<open>
  \<^verbatim>\<open>segment_model/e_acsl_segment_tracking.h\<close>, the part on stack, global and thread-local memory:
  the constants and tables of the encoding, and the operations that write and read it. Each
  byte of a block has a byte of primary shadow that holds a code (its six high bits), the
  read-only bit and the initialization bit; the secondary shadow of a block of more than eight
  bytes holds, every eight bytes, its length and the offset from its base.

  The shadows lie in the same memory as everything else. An operation is undefined (\<open>None\<close>)
  where it dereferences the shadow address 0 of an untracked address or reads a table out of
  its bounds, and where a loop never ends.
\<close>

section \<open>Constants and tables\<close>

definition HEAP_SEGMENT :: u64 where "HEAP_SEGMENT = 32"
definition LONG_BLOCK :: u64 where "LONG_BLOCK = 8"
definition INIT_BIT :: nat where "INIT_BIT = 0"
definition READONLY_BIT :: nat where "READONLY_BIT = 1"
definition IS_LONG_BLOCK :: "u64 \<Rightarrow> bool" where "IS_LONG_BLOCK sz = (sz > LONG_BLOCK)"
definition LONG_BLOCK_BOUNDARY :: "u64 \<Rightarrow> u64" where "LONG_BLOCK_BOUNDARY sz = sz - sz mod LONG_BLOCK"
definition LONG_BLOCK_MASK :: u64 where "LONG_BLOCK_MASK = 15913703276567643328"
definition LONG_BLOCK_INDEX_START :: nat where "LONG_BLOCK_INDEX_START = 48"

definition ALIGN_LEFT :: "u64 \<Rightarrow> u64 \<Rightarrow> u64" where "ALIGN_LEFT n m = n - n mod m"

definition ALIGN_RIGHT :: "u64 \<Rightarrow> u64 \<Rightarrow> u64" where
  "ALIGN_RIGHT n m = n + (if n mod m \<noteq> 0 then m - n mod m else 0)"

definition max_allocated :: u64 where "max_allocated = ALIGN_LEFT (- 1) HEAP_SEGMENT"

definition ALLOC_SIZE :: "u64 \<Rightarrow> u64" where
  "ALLOC_SIZE s = (if s < max_allocated then ALIGN_RIGHT s HEAP_SEGMENT else 0)"

definition BELONGS :: "u64 \<Rightarrow> u64 \<Rightarrow> u64 \<Rightarrow> bool" where
  "BELONGS addr base len \<longleftrightarrow> addr \<ge> base \<and> addr < base + len"

definition short_lengths :: "nat list" where
  "short_lengths = [
     0,
     1,
     2,2,
     3,3,3,
     4,4,4,4,
     5,5,5,5,5,
     6,6,6,6,6,6,
     7,7,7,7,7,7,7,
     8,8,8,8,8,8,8,8]"

definition short_offsets :: "nat list" where
  "short_offsets = [
     0,
     0,
     0,1,
     0,1,2,
     0,1,2,3,
     0,1,2,3,4,
     0,1,2,3,4,5,
     0,1,2,3,4,5,6,
     0,1,2,3,4,5,6,7]"

definition heap_init_mask :: u64 where "heap_init_mask = NOT (push_bit (unat HEAP_SEGMENT) ONE)"

definition static_init_masks :: "u64 list" where
  "static_init_masks = [
     0,
     1,
     257,
     65793,
     16843009,
     4311810305,
     1103823438081,
     282578800148737,
     72340172838076673]"

definition static_readonly_masks :: "u64 list" where
  "static_readonly_masks = [
     0,
     2,
     514,
     131586,
     33686018,
     8623620610,
     2207646876162,
     565157600297474,
     144680345676153346]"

definition short_offsets_base :: "nat list" where
  "short_offsets_base = [0, 1, 2, 4, 7, 11, 16, 22, 29]"

definition short_shadow_masks :: "u64 list" where
  "short_shadow_masks = [
     0,
     4,
     3080,
     1578000,
     673456156,
     258640982060,
     92703853921344,
     31644393008028760,
     10415850140873816180]"

section \<open>State\<close>

text \<open>
  The memory with the layout, the memory spaces, the statistics, the counter of time stamps and
  the two \<^verbatim>\<open>already_run\<close> variables of the start-up functions;
  \<open>build\<close> says which optional parts the library was compiled with.
\<close>

record seg_state =
  seg_mem :: mem
  layout :: memory_layout
  spaces :: memory_spaces
  seg_stats :: heap_stats
  temporal_timestamp :: u32
  mspaces_run :: bool
  memory_run :: bool

record build =
  temporal :: bool
  weak_validity :: bool
  free_valid_address :: bool

definition INVALID_TEMPORAL_TIMESTAMP :: u32 where "INVALID_TEMPORAL_TIMESTAMP = 0"
definition GLOBAL_TEMPORAL_TIMESTAMP :: u32 where "GLOBAL_TEMPORAL_TIMESTAMP = 1"

definition NEW_TEMPORAL_TIMESTAMP :: "'a seg_state_scheme \<Rightarrow> u32 \<times> 'a seg_state_scheme" where
  "NEW_TEMPORAL_TIMESTAMP s =
     (let t = temporal_timestamp s + 1 in (t, s\<lparr>temporal_timestamp := t\<rparr>))"

abbreviation load32 :: "mem \<Rightarrow> u64 \<Rightarrow> u32" where
  "load32 m a \<equiv> ucast (load_le 4 m a)"

abbreviation store32 :: "mem \<Rightarrow> u64 \<Rightarrow> u32 \<Rightarrow> mem" where
  "store32 m a v \<equiv> store_le 4 m a (ucast v)"

text \<open>Dereference of a shadow address: undefined at the null address.\<close>

definition shadow_ptr :: "u64 \<Rightarrow> u64 option" where
  "shadow_ptr a = (if a = 0 then None else Some a)"

definition nth_opt :: "'b list \<Rightarrow> nat \<Rightarrow> 'b option" where
  "nth_opt xs i = (if i < length xs then Some (xs ! i) else None)"

section \<open>Allocation\<close>

text \<open>
  The loops of \<^verbatim>\<open>shadow_alloca\<close>: the segments of a long block, its remainder, the bytes of a
  short block. The counters are \<^verbatim>\<open>unsigned int\<close>.
\<close>

partial_function (option) long_loop ::
  "u64 \<Rightarrow> u64 \<Rightarrow> u64 \<Rightarrow> u32 \<Rightarrow> u32 \<Rightarrow> u32 \<Rightarrow> u32 \<Rightarrow> mem \<Rightarrow> mem option" where
  "long_loop prim sec sz boundary i j k m =
     (if i < boundary then
        (let m = store32 m (sec + 4 * ucast j) (ucast sz);
             m = store32 m (sec + 4 * ucast (j + 1)) i;
             m = store64 m (prim + 8 * ucast k) LONG_BLOCK_MASK
         in long_loop prim sec sz boundary (i + 8) (j + 2) (k + 1) m)
      else Some m)"

partial_function (option) remainder_loop :: "u64 \<Rightarrow> u64 \<Rightarrow> u32 \<Rightarrow> mem \<Rightarrow> mem option" where
  "remainder_loop prim sz i m =
     (if ucast i < sz then
        (let offset = ucast (i mod 8 + 48 + 8) :: u8
         in remainder_loop prim sz (i + 1) (m(prim + ucast i := push_bit 2 offset)))
      else Some m)"

fun short_loop :: "u64 \<Rightarrow> nat \<Rightarrow> nat \<Rightarrow> nat \<Rightarrow> mem \<Rightarrow> mem" where
  "short_loop prim base 0 i m = m"
| "short_loop prim base (Suc n) i m =
     (let code = of_nat (base + i) :: u8
      in short_loop prim base n (i + 1) (m(prim + of_nat i := push_bit 2 code)))"

definition shadow_alloca :: "build \<Rightarrow> u64 \<Rightarrow> u64 \<Rightarrow> 'a seg_state_scheme \<Rightarrow> 'a seg_state_scheme option" where
  "shadow_alloca bld ptr sz s = do {
     prim \<leftarrow> shadow_ptr (PRIMARY_SHADOW (layout s) ptr);
     sec \<leftarrow> shadow_ptr (SECONDARY_SHADOW (layout s) ptr);
     let m = seg_mem s;
     let m = (if sz = 0 then m(prim := setbit READONLY_BIT (m prim)) else m);
     m \<leftarrow> (if IS_LONG_BLOCK sz then do {
             let boundary = ucast (LONG_BLOCK_BOUNDARY sz);
             m \<leftarrow> long_loop prim sec sz boundary 0 0 0 m;
             remainder_loop prim sz boundary m }
           else do {
             base \<leftarrow> nth_opt short_offsets_base (unat sz);
             Some (short_loop prim base (unat sz) 0 m) });
     let s = s\<lparr>seg_mem := m\<rparr>;
     if temporal bld \<and> \<not> IS_ON_GLOBAL (layout s) ptr then do {
       let (t, s) = NEW_TEMPORAL_TIMESTAMP s;
       a \<leftarrow> shadow_ptr (TEMPORAL_PRIMARY_STATIC_SHADOW (layout s) ptr);
       Some (s\<lparr>seg_mem := store32 (seg_mem s) a t\<rparr>) }
     else Some s }"

section \<open>Queries\<close>

definition static_allocated_one :: "u64 \<Rightarrow> 'a seg_state_scheme \<Rightarrow> u8 option" where
  "static_allocated_one addr s = do { p \<leftarrow> shadow_ptr (PRIMARY_SHADOW (layout s) addr); Some (seg_mem s p) }"

text \<open>Length and offset of the block of an address, from its code.\<close>

definition static_decode :: "u64 \<Rightarrow> u8 \<Rightarrow> 'a seg_state_scheme \<Rightarrow> (u64 \<times> u64) option" where
  "static_decode addr b s =
     (let code = unat (drop_bit 2 b)
      in if code \<ge> LONG_BLOCK_INDEX_START then do {
           let offset = of_nat (code - LONG_BLOCK_INDEX_START);
           sec \<leftarrow> shadow_ptr (SECONDARY_SHADOW (layout s) (addr - offset));
           Some (ucast (load32 (seg_mem s) sec), ucast (load32 (seg_mem s) (sec + 4)) + offset) }
         else do {
           off \<leftarrow> nth_opt short_offsets code;
           len \<leftarrow> nth_opt short_lengths code;
           Some (of_nat len, of_nat off) })"

definition static_allocated ::
  "build \<Rightarrow> u64 \<Rightarrow> u64 \<Rightarrow> u64 \<Rightarrow> 'a seg_state_scheme \<Rightarrow> bool option" where
  "static_allocated bld addr sz base_ptr s = do {
     p \<leftarrow> shadow_ptr (PRIMARY_SHADOW (layout s) addr);
     if seg_mem s p \<noteq> 0 then do {
       (len, offset) \<leftarrow> static_decode addr (seg_mem s p) s;
       Some (if \<not> weak_validity bld \<and> addr \<noteq> base_ptr
             then BELONGS base_ptr (addr - offset) len \<and> offset + sz \<le> len
             else offset + sz \<le> len) }
     else Some False }"

text \<open>
  The loop that checks \<open>sz\<close> bytes (a \<^verbatim>\<open>long\<close>), eight at a time; the recursion is on the number
  of iterations left, \<open>(sz + 7) div 8\<close> for a positive \<open>sz\<close>.
\<close>

definition chunk :: "int \<Rightarrow> nat" where
  "chunk sz = (if sz \<ge> 8 then 8 else nat sz)"

function check_masks :: "u64 list \<Rightarrow> mem \<Rightarrow> u64 \<Rightarrow> int \<Rightarrow> bool \<Rightarrow> bool" where
  "check_masks masks m shadow sz result =
     (if sz > 0 then
        (let mask = masks ! chunk sz
         in check_masks masks m (shadow + 8) (sz - 8) (result \<and> load64 m shadow AND mask = mask))
      else result)"
  by auto
termination by (relation "measure (\<lambda>(_, _, _, sz, _). nat sz)") auto

function set_masks :: "u64 list \<Rightarrow> u64 \<Rightarrow> int \<Rightarrow> mem \<Rightarrow> mem" where
  "set_masks masks shadow sz m =
     (if sz > 0 then set_masks masks (shadow + 8) (sz - 8) (store64 m shadow (load64 m shadow OR masks ! chunk sz))
      else m)"
  by auto
termination by (relation "measure (\<lambda>(_, _, sz, _). nat sz)") auto

declare check_masks.simps [simp del] set_masks.simps [simp del]

definition static_initialized :: "build \<Rightarrow> u64 \<Rightarrow> u64 \<Rightarrow> 'a seg_state_scheme \<Rightarrow> bool option" where
  "static_initialized bld addr sz s = do {
     a \<leftarrow> static_allocated bld addr sz addr s;
     if \<not> a then Some False
     else do {
       p \<leftarrow> shadow_ptr (PRIMARY_SHADOW (layout s) addr);
       Some (check_masks static_init_masks (seg_mem s) p (sint sz) True) } }"

definition global_readonly :: "u64 \<Rightarrow> 'a seg_state_scheme \<Rightarrow> bool" where
  "global_readonly addr s = checkbit READONLY_BIT (seg_mem s (PRIMARY_GLOBAL_SHADOW (layout s) addr))"

text \<open>
  The query types \<^verbatim>\<open>'B'\<close>, \<^verbatim>\<open>'O'\<close> and \<^verbatim>\<open>'L'\<close>. The offset in a long block is a sum of two
  \<^verbatim>\<open>unsigned int\<close>s.
\<close>

datatype query = BaseQ | OffsetQ | LengthQ

definition static_info :: "u64 \<Rightarrow> query \<Rightarrow> 'a seg_state_scheme \<Rightarrow> u64 option" where
  "static_info addr type s = do {
     p \<leftarrow> shadow_ptr (PRIMARY_SHADOW (layout s) addr);
     if seg_mem s p \<noteq> 0 then do {
       (len, offset) \<leftarrow> static_decode addr (seg_mem s p) s;
       Some (case type of BaseQ \<Rightarrow> addr - offset | OffsetQ \<Rightarrow> ucast (ucast offset :: u32) | LengthQ \<Rightarrow> len) }
     else Some 0 }"

definition static_temporal_info :: "u64 \<Rightarrow> bool \<Rightarrow> 'a seg_state_scheme \<Rightarrow> u32 option" where
  "static_temporal_info addr origin s =
     (if origin then do {
        al \<leftarrow> static_allocated_one addr s;
        if al \<noteq> 0 \<and> \<not> IS_ON_GLOBAL (layout s) addr then do {
          base \<leftarrow> static_info addr BaseQ s;
          a \<leftarrow> shadow_ptr (TEMPORAL_PRIMARY_STATIC_SHADOW (layout s) base);
          Some (load32 (seg_mem s) a) }
        else if al \<noteq> 0 \<and> IS_ON_GLOBAL (layout s) addr then Some GLOBAL_TEMPORAL_TIMESTAMP
        else Some INVALID_TEMPORAL_TIMESTAMP }
      else do {
        a \<leftarrow> shadow_ptr (TEMPORAL_SECONDARY_STATIC_SHADOW (layout s) addr);
        Some (load32 (seg_mem s) a) })"

definition static_store_temporal_referent ::
  "u64 \<Rightarrow> u32 \<Rightarrow> 'a seg_state_scheme \<Rightarrow> 'a seg_state_scheme option" where
  "static_store_temporal_referent addr ref s = do {
     a \<leftarrow> shadow_ptr (TEMPORAL_SECONDARY_STATIC_SHADOW (layout s) addr);
     Some (s\<lparr>seg_mem := store32 (seg_mem s) a ref\<rparr>) }"

section \<open>Initialization, read-only memory\<close>

definition initialize_static_region :: "u64 \<Rightarrow> u64 \<Rightarrow> 'a seg_state_scheme \<Rightarrow> 'a seg_state_scheme option" where
  "initialize_static_region addr sz s = do {
     p \<leftarrow> shadow_ptr (PRIMARY_SHADOW (layout s) addr);
     Some (s\<lparr>seg_mem := set_masks static_init_masks p (sint sz) (seg_mem s)\<rparr>) }"

definition mark_readonly_region :: "u64 \<Rightarrow> u64 \<Rightarrow> 'a seg_state_scheme \<Rightarrow> 'a seg_state_scheme" where
  "mark_readonly_region addr sz s =
     s\<lparr>seg_mem := set_masks static_readonly_masks (PRIMARY_GLOBAL_SHADOW (layout s) addr) (sint sz) (seg_mem s)\<rparr>"

end
