(* ===== verification/Segment_Layout.thy ===== *)
theory Segment_Layout
  imports Segment_Static
begin

text \<open>
  The layout check \<^verbatim>\<open>validate_shadow_layout\<close> of \<^verbatim>\<open>e_acsl_segment_tracking.h\<close>, and what it gives
  once the segments are set up: each application byte has its own primary and its own secondary
  shadow byte, and no two of them coincide.
\<close>

section \<open>The check\<close>

definition layout_segments :: "bool \<Rightarrow> memory_layout \<Rightarrow> (u64 \<times> u64) list" where
  "layout_segments tmp L =
     concat (map (\<lambda>p. map (\<lambda>sg. (seg_start sg, seg_end sg))
         ([application p, primary p, secondary p] @
          (if tmp then [temporal_primary p, temporal_secondary p] else [])))
       (mem_partitions L))"

definition check_segment :: "(u64 \<times> u64) list \<Rightarrow> nat \<Rightarrow> string option" where
  "check_segment segs i =
     (let src = segs ! i
      in if \<not> fst src < snd src then Some ''Segment start is greater than segment end''
         else if list_ex (\<lambda>j. i \<noteq> j \<and> \<not> (snd src < fst (segs ! j) \<or> fst src > snd (segs ! j))) [0..<length segs]
         then Some ''Segment overlaps''
         else None)"

definition validate_shadow_layout :: "bool \<Rightarrow> memory_layout \<Rightarrow> unit outcome" where
  "validate_shadow_layout tmp L =
     (if \<not> is_initialized L then Inl ''Un-initialized shadow layout''
      else (let segs = layout_segments tmp L
            in case find (\<lambda>i. check_segment segs i \<noteq> None) [0..<length segs] of
                 None \<Rightarrow> Inr ()
               | Some i \<Rightarrow> Inl (the (check_segment segs i))))"

lemma check_segment_None:
  "check_segment segs i = None \<longleftrightarrow>
     fst (segs ! i) < snd (segs ! i) \<and>
     (\<forall>j < length segs. i \<noteq> j \<longrightarrow> snd (segs ! i) < fst (segs ! j) \<or> fst (segs ! i) > snd (segs ! j))"
  unfolding check_segment_def Let_def list_ex_iff set_upt
  by (auto simp: Bex_def Ball_def)

lemma validate_iff:
  "validate_shadow_layout t L = Inr () \<longleftrightarrow>
     is_initialized L \<and>
     (\<forall>i < length (layout_segments t L). check_segment (layout_segments t L) i = None)"
proof -
  let ?segs = "layout_segments t L"
  have "find (\<lambda>i. check_segment ?segs i \<noteq> None) [0..<length ?segs] = None \<longleftrightarrow>
      (\<forall>i<length ?segs. check_segment ?segs i = None)"
    by (auto simp: find_None_iff)
  then show ?thesis
    by (cases "find (\<lambda>i. check_segment ?segs i \<noteq> None) [0..<length ?segs]")
      (simp_all add: validate_shadow_layout_def Let_def, blast?)
qed

section \<open>Layouts as they are set up\<close>

text \<open>
  \<open>shadows app sh r\<close>: \<open>sh\<close> is the shadow that \<^verbatim>\<open>set_shadow_segment\<close> makes of \<open>app\<close> with the ratio
  \<open>r\<close>, when the allocator gives it memory.
\<close>

definition shadows :: "memory_segment \<Rightarrow> memory_segment \<Rightarrow> u64 \<Rightarrow> bool" where
  "shadows app sh r \<longleftrightarrow>
     seg_end app = seg_start app + seg_size app \<and> seg_end sh = seg_start sh + seg_size sh \<and>
     seg_size sh = seg_size app div r \<and> shadow_ratio sh = r \<and>
     shadow_offset sh = seg_start app - seg_start sh \<and> seg_start sh \<noteq> 0"

definition layout_wf :: "memory_layout \<Rightarrow> bool" where
  "layout_wf L \<longleftrightarrow>
     shadows (application (lay_heap L)) (primary (lay_heap L)) 1 \<and>
     shadows (application (lay_heap L)) (secondary (lay_heap L)) 8 \<and>
     (\<forall>p \<in> {lay_stack L, lay_global L, lay_tls L}.
        shadows (application p) (primary p) 1 \<and> shadows (application p) (secondary p) 1)"

text \<open>The layouts the rest of the theory speaks of: set up, and accepted by the check.\<close>

definition layout_ok :: "memory_layout \<Rightarrow> bool" where
  "layout_ok L \<longleftrightarrow> layout_wf L \<and> validate_shadow_layout False L = Inr ()"

lemma set_shadow_segment_shadows:
  assumes "seg_end app = seg_start app + seg_size app"
    and "mspace_malloc1 P (create_mspace P nm (seg_size app div r + SHADOW_SEGMENT_PADDING)) \<noteq> 0"
  shows "shadows app (set_shadow_segment P app r nm) r"
  using assms by (simp add: shadows_def set_shadow_segment_def Let_def)

lemma shadow_partition_wf:
  assumes "seg_end app = seg_start app + seg_size app" and "\<And>h. mspace_malloc1 P h \<noteq> 0"
  shows "application (shadow_partition P t app r1 r2) = app"
    and "shadows app (primary (shadow_partition P t app r1 r2)) r1"
    and "shadows app (secondary (shadow_partition P t app r1 r2)) r2"
  using assms by (simp_all add: shadow_partition_def set_shadow_segment_shadows)

text \<open>The start-up functions set up such a layout, when the allocator does not fail.\<close>

lemma init_layout_wf:
  assumes "\<And>h. mspace_malloc1 P h \<noteq> 0"
    and "init_shadow_layout_heap_global_tls P pr t sp L0 = Inr L1"
    and "init_shadow_layout_stack P pr t L1 = Inr L"
  shows "layout_wf L \<and> is_initialized L"
proof -
  note [simp] = shadow_partition_wf [OF _ assms(1)]
  have app: "seg_end (set_application_segment a n nm h) =
      seg_start (set_application_segment a n nm h) + seg_size (set_application_segment a n nm h)" for a n nm h
    by (simp add: set_application_segment_def)
  show ?thesis
    using assms(2,3)
    by (auto simp: init_shadow_layout_heap_global_tls_def init_shadow_layout_stack_def Let_def layout_wf_def app
        split: sum.splits)
qed

section \<open>The static segments and their shadows\<close>

lemma nth_layout_segments:
  "layout_segments False L =
     map (\<lambda>sg. (seg_start sg, seg_end sg))
       [application (lay_heap L), primary (lay_heap L), secondary (lay_heap L),
        application (lay_stack L), primary (lay_stack L), secondary (lay_stack L),
        application (lay_global L), primary (lay_global L), secondary (lay_global L),
        application (lay_tls L), primary (lay_tls L), secondary (lay_tls L)]"
  by (simp add: layout_segments_def mem_partitions_def)

text \<open>All segments of a layout, by position.\<close>

definition all_segments :: "memory_layout \<Rightarrow> memory_segment list" where
  "all_segments L =
     [application (lay_heap L), primary (lay_heap L), secondary (lay_heap L),
      application (lay_stack L), primary (lay_stack L), secondary (lay_stack L),
      application (lay_global L), primary (lay_global L), secondary (lay_global L),
      application (lay_tls L), primary (lay_tls L), secondary (lay_tls L)]"

lemma layout_ok_ordered:
  assumes "layout_ok L" and "i < 12"
  shows "seg_start (all_segments L ! i) < seg_end (all_segments L ! i)"
proof -
  have "layout_segments False L = map (\<lambda>sg. (seg_start sg, seg_end sg)) (all_segments L)"
    by (simp add: nth_layout_segments all_segments_def)
  moreover have "length (all_segments L) = 12" by (simp add: all_segments_def)
  ultimately show ?thesis using assms unfolding layout_ok_def validate_iff check_segment_None by simp
qed

text \<open>An address lies in at most one segment.\<close>

lemma layout_ok_disjoint:
  assumes "layout_ok L" and "IS_ON a (all_segments L ! i)" and "IS_ON a (all_segments L ! j)"
    and "i < 12" and "j < 12"
  shows "i = j"
proof (rule ccontr)
  assume "i \<noteq> j"
  have "layout_segments False L = map (\<lambda>sg. (seg_start sg, seg_end sg)) (all_segments L)"
    by (simp add: nth_layout_segments all_segments_def)
  moreover have "length (all_segments L) = 12" by (simp add: all_segments_def)
  ultimately have "seg_end (all_segments L ! i) < seg_start (all_segments L ! j) \<or>
      seg_start (all_segments L ! i) > seg_end (all_segments L ! j)"
    using assms(1,4,5) \<open>i \<noteq> j\<close> unfolding layout_ok_def validate_iff check_segment_None by simp
  then show False using assms(2,3) by (auto simp: IS_ON_def)
qed

text \<open>The shadow of an address of the application segment lies in the shadow segment.\<close>

lemma shadow_on:
  assumes "shadows app sh 1" and "IS_ON a app" and "seg_start app < seg_end app" and "seg_start sh < seg_end sh"
  shows "IS_ON (a - shadow_offset sh) sh" and "a - shadow_offset sh \<noteq> 0"
    and "a - shadow_offset sh = seg_start sh + (a - seg_start app)"
proof -
  have off: "a - shadow_offset sh = seg_start sh + (a - seg_start app)"
    using assms(1) by (simp add: shadows_def)
  have sz: "seg_end sh - seg_start sh = seg_end app - seg_start app"
    using assms(1) by (simp add: shadows_def)
  have "unat (a - seg_start app) = unat a - unat (seg_start app)"
    using assms(2) by (simp add: IS_ON_def unat_sub_64)
  moreover have "unat (seg_end app - seg_start app) = unat (seg_end app) - unat (seg_start app)"
    and e: "unat (seg_end sh - seg_start sh) = unat (seg_end sh) - unat (seg_start sh)"
    using assms(3,4) by (simp_all add: unat_sub_64 less_imp_le)
  moreover have "unat a \<le> unat (seg_end app)" using assms(2) by (simp add: IS_ON_def word_le_nat_alt)
  ultimately have le: "unat (a - seg_start app) \<le> unat (seg_end sh) - unat (seg_start sh)"
    using sz by simp
  have lt: "unat (seg_start sh) < unat (seg_end sh)" using assms(4) by (simp add: word_less_nat_alt)
  have "unat (seg_start sh) + unat (a - seg_start app) < 2 ^ 64"
    using le lt unat_lt_64 [of "seg_end sh"] by linarith
  then have u: "unat (seg_start sh + (a - seg_start app)) = unat (seg_start sh) + unat (a - seg_start app)"
    by (rule unat_add_64)
  show "IS_ON (a - shadow_offset sh) sh"
    unfolding off IS_ON_def word_le_nat_alt u using le lt by linarith
  have "0 < unat (seg_start sh)" using assms(1) by (simp add: shadows_def unat_gt_0)
  then show "a - shadow_offset sh \<noteq> 0" unfolding off using u by (metis add_is_0 less_numeral_extra(3) unat_0)
  show "a - shadow_offset sh = seg_start sh + (a - seg_start app)" by (fact off)
qed

text \<open>The position of the application segment of a static address; its shadows follow it.\<close>

definition static_pos :: "memory_layout \<Rightarrow> u64 \<Rightarrow> nat" where
  "static_pos L a = (if IS_ON_STACK L a then 3 else if IS_ON_GLOBAL L a then 6 else 9)"

lemma static_pos_less: "static_pos L a + 2 < 12"
  by (simp add: static_pos_def)

lemma static_pos_mod: "static_pos L a mod 3 = 0"
  by (simp add: static_pos_def)

lemma static_pos_on:
  assumes "IS_ON_STATIC L a"
  shows "IS_ON a (all_segments L ! static_pos L a)"
  using assms by (auto simp: static_pos_def all_segments_def IS_ON_STATIC_def IS_ON_STACK_def IS_ON_GLOBAL_def IS_ON_TLS_def)

lemma shadow_addresses:
  assumes "IS_ON_STATIC L a"
  shows "PRIMARY_SHADOW L a = a - shadow_offset (all_segments L ! (static_pos L a + 1))"
    and "SECONDARY_SHADOW L a = a - shadow_offset (all_segments L ! (static_pos L a + 2))"
  using assms
  by (auto simp: PRIMARY_SHADOW_def SECONDARY_SHADOW_def SHADOW_REGION_ADDRESS_def SHADOW_ACCESS_def
      static_pos_def all_segments_def IS_ON_STATIC_def)

lemma static_shadows:
  assumes "layout_ok L"
  shows "shadows (all_segments L ! static_pos L a) (all_segments L ! (static_pos L a + 1)) 1"
    and "shadows (all_segments L ! static_pos L a) (all_segments L ! (static_pos L a + 2)) 1"
  using assms by (auto simp: static_pos_def all_segments_def layout_ok_def layout_wf_def)

lemma static_shadow_on:
  assumes "layout_ok L" and "IS_ON_STATIC L a"
  shows "IS_ON (PRIMARY_SHADOW L a) (all_segments L ! (static_pos L a + 1))"
    and "IS_ON (SECONDARY_SHADOW L a) (all_segments L ! (static_pos L a + 2))"
    and "PRIMARY_SHADOW L a \<noteq> 0" and "SECONDARY_SHADOW L a \<noteq> 0"
proof -
  have o: "seg_start (all_segments L ! (static_pos L a + k)) < seg_end (all_segments L ! (static_pos L a + k))"
    if "k < 3" for k
    using that static_pos_less [of L a] by (intro layout_ok_ordered [OF assms(1)]) simp
  note on = static_pos_on [OF assms(2)]
  show "IS_ON (PRIMARY_SHADOW L a) (all_segments L ! (static_pos L a + 1))" "PRIMARY_SHADOW L a \<noteq> 0"
    unfolding shadow_addresses [OF assms(2)]
    using shadow_on(1,2) [OF static_shadows(1) [OF assms(1)] on] o [of 0] o [of 1] by simp_all
  show "IS_ON (SECONDARY_SHADOW L a) (all_segments L ! (static_pos L a + 2))" "SECONDARY_SHADOW L a \<noteq> 0"
    unfolding shadow_addresses [OF assms(2)]
    using shadow_on(1,2) [OF static_shadows(2) [OF assms(1)] on] o [of 0] o [of 2] by simp_all
qed

text \<open>No two shadow bytes coincide.\<close>

lemma static_shadow_inj:
  assumes "layout_ok L" and "IS_ON_STATIC L a" and "IS_ON_STATIC L b"
  shows "PRIMARY_SHADOW L a = PRIMARY_SHADOW L b \<longleftrightarrow> a = b"
    and "SECONDARY_SHADOW L a = SECONDARY_SHADOW L b \<longleftrightarrow> a = b"
    and "PRIMARY_SHADOW L a \<noteq> SECONDARY_SHADOW L b"
proof -
  note dis = layout_ok_disjoint [OF assms(1)]
  note la = static_pos_less [of L a] and lb = static_pos_less [of L b]
  note a = static_shadow_on [OF assms(1,2)] and b = static_shadow_on [OF assms(1,3)]
  have "static_pos L a = static_pos L b" if "PRIMARY_SHADOW L a = PRIMARY_SHADOW L b"
    using dis [OF a(1), of "static_pos L b + 1"] b(1) that la lb by simp
  then show "PRIMARY_SHADOW L a = PRIMARY_SHADOW L b \<longleftrightarrow> a = b"
    using shadow_addresses(1) [OF assms(2)] shadow_addresses(1) [OF assms(3)] by auto
  have "static_pos L a = static_pos L b" if "SECONDARY_SHADOW L a = SECONDARY_SHADOW L b"
    using dis [OF a(2), of "static_pos L b + 2"] b(2) that la lb by simp
  then show "SECONDARY_SHADOW L a = SECONDARY_SHADOW L b \<longleftrightarrow> a = b"
    using shadow_addresses(2) [OF assms(2)] shadow_addresses(2) [OF assms(3)] by auto
  show "PRIMARY_SHADOW L a \<noteq> SECONDARY_SHADOW L b"
  proof
    assume "PRIMARY_SHADOW L a = SECONDARY_SHADOW L b"
    then have "static_pos L a + 1 = static_pos L b + 2"
      using dis [OF a(1), of "static_pos L b + 2"] b(2) la lb by simp
    then show False using static_pos_mod [of L a] static_pos_mod [of L b] by presburger
  qed
qed

text \<open>The heap is apart from the static segments.\<close>

lemma static_not_heap:
  assumes "layout_ok L" and "IS_ON_STATIC L a"
  shows "\<not> IS_ON_HEAP L a"
proof
  assume "IS_ON_HEAP L a"
  then have "IS_ON a (all_segments L ! 0)" by (simp add: IS_ON_HEAP_def all_segments_def)
  then have "0 = static_pos L a"
    using static_pos_on [OF assms(2)] static_pos_less [of L a] by (intro layout_ok_disjoint [OF assms(1)]) auto
  then show False by (simp add: static_pos_def split: if_splits)
qed

section \<open>Blocks of static memory\<close>

text \<open>\<open>static_block L p n\<close>: the \<open>n\<close> bytes from \<open>p\<close> on lie in one static segment.\<close>

definition static_block :: "memory_layout \<Rightarrow> u64 \<Rightarrow> nat \<Rightarrow> bool" where
  "static_block L p n \<longleftrightarrow>
     (\<exists>seg \<in> {application (lay_stack L), application (lay_global L), application (lay_tls L)}.
        seg_start seg \<le> p \<and> unat p + n \<le> unat (seg_end seg))"

lemma static_block_on:
  assumes "static_block L p n" and "i \<le> n"
  shows "IS_ON_STATIC L (p + of_nat i)" and "unat (p + of_nat i) = unat p + i"
proof -
  obtain seg where seg: "seg \<in> {application (lay_stack L), application (lay_global L), application (lay_tls L)}"
      "seg_start seg \<le> p" "unat p + n \<le> unat (seg_end seg)"
    using assms(1) by (auto simp: static_block_def)
  have "unat p + i < 2 ^ 64" using seg(3) assms(2) unat_lt_64 [of "seg_end seg"] by linarith
  then show u: "unat (p + of_nat i) = unat p + i" by (simp add: unat_add_64 unat_of_nat_64)
  have "IS_ON (p + of_nat i) seg"
    unfolding IS_ON_def word_le_nat_alt u using seg(2,3) assms(2) by (simp add: word_le_nat_alt)
  then show "IS_ON_STATIC L (p + of_nat i)"
    using seg(1) by (auto simp: IS_ON_STATIC_def IS_ON_STACK_def IS_ON_GLOBAL_def IS_ON_TLS_def)
qed

lemma static_block_pos:
  assumes "layout_ok L" and "static_block L p n" and "i \<le> n"
  shows "static_pos L (p + of_nat i) = static_pos L p"
proof -
  obtain seg where seg: "seg \<in> {application (lay_stack L), application (lay_global L), application (lay_tls L)}"
      "seg_start seg \<le> p" "unat p + n \<le> unat (seg_end seg)"
    using assms(2) by (auto simp: static_block_def)
  have on: "IS_ON (p + of_nat j) seg" if "j \<le> n" for j
    unfolding IS_ON_def word_le_nat_alt static_block_on(2) [OF assms(2) that]
    using seg(2,3) that by (simp add: word_le_nat_alt)
  obtain k where k: "k < 12" "all_segments L ! k = seg"
    using seg(1) by (auto simp: all_segments_def intro: that [of 3] that [of 6] that [of 9])
  have "static_pos L (p + of_nat j) = k" if "j \<le> n" for j
    using layout_ok_disjoint [OF assms(1) static_pos_on [OF static_block_on(1) [OF assms(2) that]], of k]
      on [OF that] k static_pos_less [of L "p + of_nat j"] by simp
  from this [OF assms(3)] this [of 0] show ?thesis by simp
qed

lemma static_block_shadow:
  assumes "layout_ok L" and "static_block L p n" and "i \<le> n"
  shows "PRIMARY_SHADOW L (p + of_nat i) = PRIMARY_SHADOW L p + of_nat i"
    and "SECONDARY_SHADOW L (p + of_nat i) = SECONDARY_SHADOW L p + of_nat i"
  using static_block_pos [OF assms] static_block_on(1) [OF assms(2,3)] static_block_on(1) [OF assms(2), of 0]
  by (simp_all add: shadow_addresses)

end
