(* ===== verification/Segment_Encoding.thy ===== *)
theory Segment_Encoding
  imports Segment_Layout
begin

text \<open>
  The offset encoding of static blocks, byte by byte: what the loops of \<^verbatim>\<open>shadow_alloca\<close> leave in
  the two shadows, and that decoding any byte of a block gives the length of the block and the
  offset of the byte. Here a shadow is given by its first address; \<open>Segment_Static_Correct\<close> ties
  the two shadows to the layout.
\<close>

section \<open>The tables\<close>

text \<open>The code of the byte at offset \<open>i\<close> in a block of \<open>n\<close> bytes.\<close>

definition scode :: "nat \<Rightarrow> nat \<Rightarrow> nat" where
  "scode n i =
     (if n > 8 then (if i < n - n mod 8 then 48 + i mod 8 else 56 + i mod 8)
      else short_offsets_base ! n + i)"

lemma short_tables:
  "\<forall>n \<in> set [1..<9]. \<forall>i \<in> set [0..<n].
     short_offsets_base ! n + i < 37 \<and> short_lengths ! (short_offsets_base ! n + i) = n \<and>
     short_offsets ! (short_offsets_base ! n + i) = i \<and> 0 < short_offsets_base ! n"
  by code_simp

lemma short_decode:
  assumes "0 < n" and "n \<le> 8" and "i < n"
  shows "scode n i < 37" and "0 < scode n i" and "short_lengths ! scode n i = n" and "short_offsets ! scode n i = i"
proof -
  have "n \<in> set [1..<9]" "i \<in> set [0..<n]" using assms by auto
  then have "short_offsets_base ! n + i < 37 \<and> short_lengths ! (short_offsets_base ! n + i) = n \<and>
     short_offsets ! (short_offsets_base ! n + i) = i \<and> 0 < short_offsets_base ! n"
    using short_tables by blast
  then show "scode n i < 37" "0 < scode n i" "short_lengths ! scode n i = n" "short_offsets ! scode n i = i"
    using assms(2) by (simp_all add: scode_def)
qed

lemma long_code: "8 < n \<Longrightarrow> 48 \<le> scode n i \<and> scode n i < 64"
  using mod_less_divisor [of 8 i] by (auto simp: scode_def simp del: mod_less_divisor)

lemma scode_bound: "0 < n \<Longrightarrow> i < n \<Longrightarrow> 0 < scode n i \<and> scode n i < 64"
  using short_decode(1,2) [of n i] long_code [of n i] by (cases "n \<le> 8") auto

lemma code_byte:
  assumes "c < 64"
  shows "unat (drop_bit 2 (push_bit 2 (of_nat c) :: u8)) = c" and "\<not> bit (push_bit 2 (of_nat c) :: u8) 0"
    and "\<not> bit (push_bit 2 (of_nat c) :: u8) 1"
proof -
  have c: "unat (of_nat c :: u8) = c" using assms by (simp add: unat_of_nat take_bit_nat_eq_self)
  have "unat (push_bit 2 (of_nat c) :: u8) = c * 4"
    using assms c by (simp add: push_bit_eq_mult unat_word_ariths)
  then show "unat (drop_bit 2 (push_bit 2 (of_nat c) :: u8)) = c"
    by (simp add: drop_bit_eq_div unat_div)
qed (simp_all add: bit_push_bit_iff)

lemma mask_bytes:
  "\<forall>r \<in> set [0..<8]. (ucast (drop_bit (8 * r) LONG_BLOCK_MASK) :: u8) = push_bit 2 (of_nat (48 + r))"
  by code_simp

lemma mask_byte: "r < 8 \<Longrightarrow> (ucast (drop_bit (8 * r) LONG_BLOCK_MASK) :: u8) = push_bit 2 (of_nat (48 + r))"
  using mask_bytes by simp

section \<open>The loops of the allocation\<close>

lemma short_loop_at:
  assumes "i + k \<le> 2 ^ 64"
  shows "short_loop prim base k i m a =
    (if i \<le> unat (a - prim) \<and> unat (a - prim) < i + k then push_bit 2 (of_nat (base + unat (a - prim))) else m a)"
  using assms
proof (induction k arbitrary: i m)
  case (Suc k)
  have "a = prim + of_nat i \<longleftrightarrow> unat (a - prim) = i"
    using Suc.prems by (auto simp: unat_of_nat_64 algebra_simps)
  then show ?case using Suc by (auto simp: Let_def)
qed auto

text \<open>One iteration of the loop for long blocks, on the \<open>t\<close>-th segment.\<close>

definition long_step :: "u64 \<Rightarrow> u64 \<Rightarrow> u64 \<Rightarrow> nat \<Rightarrow> mem \<Rightarrow> mem" where
  "long_step prim sec sz t m =
     store64 (store32 (store32 m (sec + of_nat (8 * t)) (ucast sz)) (sec + of_nat (8 * t + 4)) (of_nat (8 * t)))
       (prim + of_nat (8 * t)) LONG_BLOCK_MASK"

lemma unat_of_nat_32: "n < 2 ^ 32 \<Longrightarrow> unat (of_nat n :: u32) = n"
  by (simp add: unat_of_nat take_bit_nat_eq_self)

lemma ucast_of_nat_32: "n < 2 ^ 32 \<Longrightarrow> (ucast (of_nat n :: u32) :: u64) = of_nat n"
  by (simp add: unsigned_of_nat take_bit_nat_eq_self)

lemma long_loop_steps:
  assumes "8 * (t + q) < 2 ^ 32"
  shows "long_loop prim sec sz (of_nat (8 * (t + q))) (of_nat (8 * t)) (of_nat (2 * t)) (of_nat t) m
    = Some (fold (long_step prim sec sz) [t..<t + q] m)"
  using assms
proof (induction q arbitrary: t m)
  case 0
  then show ?case by (simp add: long_loop.simps)
next
  case (Suc q)
  have "8 * t < 2 ^ 32" using Suc.prems by simp
  then have "(of_nat (8 * t) :: u32) < of_nat (8 * (t + Suc q))"
    unfolding word_less_nat_alt using unat_of_nat_32 Suc.prems by (metis add_less_cancel_left add_0_right
        mult_less_cancel1 zero_less_Suc zero_less_numeral)
  moreover have "8 * ucast (of_nat t :: u32) = (of_nat (8 * t) :: u64)"
    and "4 * ucast (of_nat (2 * t) :: u32) = (of_nat (8 * t) :: u64)"
    and "4 * ucast (of_nat (2 * t) + 1 :: u32) = (of_nat (8 * t + 4) :: u64)"
    using Suc.prems ucast_of_nat_32 [of t] ucast_of_nat_32 [of "2 * t"] ucast_of_nat_32 [of "2 * t + 1"]
    by (simp_all add: algebra_simps)
  ultimately have "long_loop prim sec sz (of_nat (8 * (t + Suc q))) (of_nat (8 * t)) (of_nat (2 * t)) (of_nat t) m
      = long_loop prim sec sz (of_nat (8 * (Suc t + q))) (of_nat (8 * Suc t)) (of_nat (2 * Suc t)) (of_nat (Suc t))
          (long_step prim sec sz t m)"
    by (subst long_loop.simps) (simp add: Let_def long_step_def algebra_simps)
  also have "\<dots> = Some (fold (long_step prim sec sz) [Suc t..<Suc t + q] (long_step prim sec sz t m))"
    using Suc.prems by (intro Suc.IH) simp
  finally show ?case by (simp only: upt_conv_Cons) simp
qed

definition rem_step :: "u64 \<Rightarrow> nat \<Rightarrow> mem \<Rightarrow> mem" where
  "rem_step prim i m = m(prim + of_nat i := push_bit 2 (of_nat (56 + i mod 8)))"

lemma remainder_loop_steps:
  assumes "b + k = n" and "n < 2 ^ 32"
  shows "remainder_loop prim (of_nat n) (of_nat b) m =
    Some (fold (rem_step prim) [b..<n] m)"
  using assms
proof (induction k arbitrary: b m)
  case 0
  then show ?case by (subst remainder_loop.simps) (simp add: ucast_of_nat_32)
next
  case (Suc k)
  have lt: "(ucast (of_nat b :: u32) :: u64) < of_nat n"
    using Suc.prems by (simp add: ucast_of_nat_32 word_less_nat_alt unat_of_nat_64)
  have "(ucast ((of_nat b :: u32) mod 8 + 48 + 8) :: u8) = of_nat (56 + b mod 8)"
  proof -
    have "(of_nat b :: u32) mod 8 = of_nat (b mod 8)"
      using Suc.prems by (intro word_unat_eq_iff [THEN iffD2]) (simp add: unat_mod unat_of_nat take_bit_nat_eq_self)
    then have e: "(of_nat b :: u32) mod 8 + 48 + 8 = of_nat (56 + b mod 8)" by simp
    have "unat (of_nat (56 + b mod 8) :: u32) = 56 + b mod 8"
      by (rule unat_of_nat_32) (use mod_less_divisor [of 8 b] in \<open>simp del: mod_less_divisor\<close>)
    then show ?thesis unfolding e by (metis of_nat_unat)
  qed
  then have "remainder_loop prim (of_nat n) (of_nat b) m =
      remainder_loop prim (of_nat n) (of_nat (Suc b)) (rem_step prim b m)"
    using lt Suc.prems
    by (subst remainder_loop.simps) (simp add: Let_def ucast_of_nat_32 add.commute rem_step_def)
  also have "\<dots> = Some (fold (rem_step prim) [Suc b..<n] (rem_step prim b m))"
    using Suc.prems by (intro Suc.IH) auto
  finally show ?case using Suc.prems by (simp add: upt_conv_Cons)
qed

section \<open>The shadow bytes after the loops\<close>

lemma rem_fold_at:
  assumes "b \<le> n" and "n \<le> 2 ^ 64"
  shows "fold (rem_step prim) [b..<n] m a =
    (if b \<le> unat (a - prim) \<and> unat (a - prim) < n then push_bit 2 (of_nat (56 + unat (a - prim) mod 8)) else m a)"
  using assms
proof (induction n)
  case (Suc n)
  have "a = prim + of_nat n \<longleftrightarrow> unat (a - prim) = n"
    using Suc.prems by (auto simp: unat_of_nat_64 algebra_simps)
  then show ?case using Suc by (cases "b \<le> n") (auto simp: rem_step_def le_Suc_eq)
qed auto

text \<open>The bytes of the secondary shadow: the length and the offset of each segment, 32 bits each.\<close>

definition sec_byte :: "u64 \<Rightarrow> nat \<Rightarrow> u8" where
  "sec_byte sz y =
     (if y mod 8 < 4 then ucast (drop_bit (8 * (y mod 8)) (ucast (ucast sz :: u32) :: u64))
      else ucast (drop_bit (8 * (y mod 8 - 4)) (ucast (of_nat (y - y mod 8) :: u32) :: u64)))"

text \<open>A store of \<open>w\<close> bytes at offset \<open>k\<close> from \<open>p\<close>, seen by offsets.\<close>

lemma store_le_offset:
  assumes "w \<le> 8" and "0 < w" and "k + w \<le> 2 ^ 64"
  shows "store_le w m (p + of_nat k) v a =
    (if k \<le> unat (a - p) \<and> unat (a - p) < k + w
     then ucast (drop_bit (8 * (unat (a - p) - k)) v) else m a)"
proof -
  let ?x = "unat (a - p)"
  have d: "a - (p + of_nat k) = of_nat ?x - of_nat k" by simp
  have lt: "unat (a - (p + of_nat k)) < w \<longleftrightarrow> k \<le> ?x \<and> ?x < k + w"
    unfolding d using assms unat_lt_64 [of "a - p"] by (intro unat_diff_of_nat_less) simp_all
  have "unat (a - (p + of_nat k)) = ?x - k" if "k \<le> ?x" "?x < k + w"
  proof -
    have "a - (p + of_nat k) = of_nat (?x - k)" unfolding d using that by (simp add: of_nat_diff)
    moreover have "?x - k < 2 ^ 64" using unat_lt_64 [of "a - p"] by linarith
    ultimately show ?thesis by (simp add: unat_of_nat_64)
  qed
  then show ?thesis using lt assms(1) by (simp add: store_le_at)
qed

lemma mod_8_in_segment: "8 * t \<le> x \<Longrightarrow> x < 8 * t + 8 \<Longrightarrow> x mod 8 = x - 8 * t" for x t :: nat
  by (metis (no_types) add.commute le_add_diff_inverse less_diff_conv2 mod_less mod_mult_self2)

lemma long_step_at:
  assumes "8 * t + 8 \<le> 2 ^ 64"
  shows "long_step prim sec sz t m a =
    (if 8 * t \<le> unat (a - prim) \<and> unat (a - prim) < 8 * t + 8
     then push_bit 2 (of_nat (48 + unat (a - prim) mod 8))
     else if 8 * t \<le> unat (a - sec) \<and> unat (a - sec) < 8 * t + 8 then sec_byte sz (unat (a - sec))
     else m a)"
proof (cases "8 * t \<le> unat (a - prim) \<and> unat (a - prim) < 8 * t + 8")
  case True
  then have "unat (a - prim) mod 8 = unat (a - prim) - 8 * t" using mod_8_in_segment by blast
  moreover have "unat (a - prim) - 8 * t < 8" using True by linarith
  ultimately show ?thesis
    using True assms mask_byte [of "unat (a - prim) - 8 * t"]
    by (simp add: long_step_def store_le_offset del: of_nat_mult of_nat_add)
next
  case False
  let ?y = "unat (a - sec)"
  show ?thesis
  proof (cases "8 * t \<le> ?y \<and> ?y < 8 * t + 8")
    case y: True
    then have md: "?y mod 8 = ?y - 8 * t" using mod_8_in_segment by blast
    then have "sec_byte sz ?y =
        (if ?y < 8 * t + 4 then ucast (drop_bit (8 * (?y - 8 * t)) (ucast (ucast sz :: u32) :: u64))
         else ucast (drop_bit (8 * (?y - (8 * t + 4))) (ucast (of_nat (8 * t) :: u32) :: u64)))"
      using y by (auto simp: sec_byte_def diff_diff_left)
    then show ?thesis
      using False y assms
      by (auto simp: long_step_def store_le_offset simp del: of_nat_mult of_nat_add)
  next
    case n: False
    then show ?thesis
      using False assms by (auto simp: long_step_def store_le_offset simp del: of_nat_mult of_nat_add)
  qed
qed

lemma long_fold_at:
  assumes "8 * q \<le> 2 ^ 64" and "\<And>i j. i < 8 * q \<Longrightarrow> j < 8 * q \<Longrightarrow> prim + of_nat i \<noteq> sec + of_nat j"
  shows "fold (long_step prim sec sz) [0..<q] m a =
    (if unat (a - prim) < 8 * q then push_bit 2 (of_nat (48 + unat (a - prim) mod 8))
     else if unat (a - sec) < 8 * q then sec_byte sz (unat (a - sec))
     else m a)"
  using assms
proof (induction q)
  case (Suc q)
  have "\<not> unat (a - sec) < 8 * Suc q" if "unat (a - prim) < 8 * Suc q"
    using Suc.prems(2) [OF that, of "unat (a - sec)"] by auto
  then show ?case using Suc long_step_at [of q prim sec sz "fold (long_step prim sec sz) [0..<q] m" a] by auto
qed simp

section \<open>Encoded blocks\<close>

text \<open>
  \<open>encoded m prim sec n\<close>: the shadows at \<open>prim\<close> and \<open>sec\<close> hold the encoding of a block of \<open>n\<close>
  bytes. The two low bits of a primary byte are free for the flags.
\<close>

definition encoded :: "mem \<Rightarrow> u64 \<Rightarrow> u64 \<Rightarrow> nat \<Rightarrow> bool" where
  "encoded m prim sec n \<longleftrightarrow>
     (\<forall>i<n. unat (drop_bit 2 (m (prim + of_nat i))) = scode n i) \<and>
     (n > 8 \<longrightarrow> (\<forall>q < n div 8.
        load32 m (sec + of_nat (8 * q)) = of_nat n \<and> load32 m (sec + of_nat (8 * q) + 4) = of_nat (8 * q)))"

lemma load32_bytes:
  assumes "\<And>r. r < 4 \<Longrightarrow> m (a + of_nat r) = ucast (drop_bit (8 * r) (ucast v :: u64))"
  shows "load32 m a = (v :: u32)"
proof -
  have "load_le 4 m a = load_le 4 (store_le 4 m a (ucast v)) a"
  proof (rule load_le_cong)
    fix i :: nat assume i: "i < 4"
    then have "unat (of_nat i :: u64) = i" by (intro unat_of_nat_64) simp
    then show "m (a + of_nat i) = store_le 4 m a (ucast v) (a + of_nat i)"
      using assms [OF i] i by (simp add: store_le_at)
  qed
  then have "load_le 4 m a = take_bit 32 (ucast v)" by (simp add: mem_simps)
  moreover have "(ucast (take_bit 32 (ucast v :: u64)) :: u32) = v" by (rule bit_word_eqI) (simp add: bit_simps)
  ultimately show ?thesis by simp
qed

text \<open>Decoding: every byte of an encoded block gives the length and its own offset.\<close>

lemma segment_of_byte:
  assumes "8 < n" and "i < n"
  defines "o' \<equiv> scode n i - 48"
  shows "o' \<le> i" and "(i - o') mod 8 = 0" and "(i - o') div 8 < n div 8" and "o' < 16"
proof -
  have n: "n = 8 * (n div 8) + n mod 8" by simp
  have i: "i = 8 * (i div 8) + i mod 8" by simp
  have m8: "i mod 8 < 8" by simp
  have "o' \<le> i \<and> (i - o') mod 8 = 0 \<and> (i - o') div 8 < n div 8 \<and> o' < 16"
  proof (cases "i < n - n mod 8")
    case True
    then have o: "o' = i mod 8" by (simp add: o'_def scode_def assms(1))
    have "i div 8 < n div 8" using True n i by linarith
    then show ?thesis unfolding o using m8 by (simp add: minus_mod_eq_mult_div)
  next
    case False
    then have o: "o' = 8 + i mod 8" by (simp add: o'_def scode_def assms(1))
    have d: "i div 8 = n div 8" using False n i assms(2) by linarith
    have one: "1 \<le> n div 8" using assms(1) by linarith
    then have e: "i - o' = 8 * (n div 8 - 1)" and "o' \<le> i" unfolding o using i d by linarith+
    then show ?thesis using one m8 by (simp add: o)
  qed
  then show "o' \<le> i" "(i - o') mod 8 = 0" "(i - o') div 8 < n div 8" "o' < 16" by auto
qed

end
