(* ===== verification/Segment_Masks.thy ===== *)
theory Segment_Masks
  imports Segment_Static
begin

text \<open>
  The loops that set and check one flag bit in every shadow byte of an area, eight bytes at a
  time, against their byte-wise meaning.
\<close>

text \<open>\<open>flag_masks b masks\<close>: the \<open>k\<close>-th mask has bit \<open>b\<close> of each of its \<open>k\<close> low bytes.\<close>

definition flag_masks :: "nat \<Rightarrow> u64 list \<Rightarrow> bool" where
  "flag_masks b masks \<longleftrightarrow>
     (\<forall>k \<in> set [0..<9]. \<forall>x \<in> set [0..<8]. \<forall>j \<in> set [0..<8]. bit (masks ! k) (8 * x + j) \<longleftrightarrow> x < k \<and> j = b)"

lemma flag_masksD:
  "flag_masks b masks \<Longrightarrow> k \<le> 8 \<Longrightarrow> x < 8 \<Longrightarrow> j < 8 \<Longrightarrow> bit (masks ! k) (8 * x + j) \<longleftrightarrow> x < k \<and> j = b"
  by (simp add: flag_masks_def)

lemma flag_masks_tables: "flag_masks INIT_BIT static_init_masks" "flag_masks READONLY_BIT static_readonly_masks"
  by (code_simp, code_simp)

lemma chunk_int: "chunk (int n) = min n 8"
  by (auto simp: chunk_def min_def)

section \<open>Setting\<close>

lemma set_chunk_at:
  assumes "flag_masks b masks" and "b < 8" and "k \<le> 8"
  shows "store64 m p (load64 m p OR masks ! k) a = (if unat (a - p) < k then setbit b (m a) else m a)"
proof (cases "unat (a - p) < 8")
  case True
  let ?x = "unat (a - p)"
  have a: "p + of_nat ?x = a" by simp
  have "(ucast (drop_bit (8 * ?x) (load64 m p OR masks ! k)) :: u8) = (if ?x < k then setbit b (m a) else m a)"
  proof (rule word8_eqI)
    fix j :: nat assume j: "j < 8"
    have "(8 * ?x + j) div 8 = ?x" "(8 * ?x + j) mod 8 = j" "8 * ?x + j < 64" using j True by auto
    then show "bit (ucast (drop_bit (8 * ?x) (load64 m p OR masks ! k)) :: u8) j = bit (if ?x < k then setbit b (m a) else m a) j"
      using flag_masksD [OF assms(1,3) True j] j a assms(2)
      by (auto simp: bit_ucast_iff bit_drop_bit_eq bit_or_iff)
  qed
  then show ?thesis using True by (simp add: store_le_at)
next
  case False
  then show ?thesis using assms(3) by (simp add: store_le_at)
qed

lemma set_masks_at:
  assumes "flag_masks b masks" and "b < 8" and "n < 2 ^ 64"
  shows "set_masks masks p (int n) m a = (if unat (a - p) < n then setbit b (m a) else m a)"
  using assms(3)
proof (induction n arbitrary: p m rule: less_induct)
  case (less n)
  show ?case
  proof (cases "n \<le> 8")
    case True
    then show ?thesis
      using set_chunk_at [OF assms(1,2) True] 
      by (subst set_masks.simps) (auto simp: set_masks.simps [of masks "p + 8" "int n - 8"] chunk_int min_def)
  next
    case False
    let ?m = "store64 m p (load64 m p OR masks ! 8)"
    have "set_masks masks p (int n) m = set_masks masks (p + 8) (int (n - 8)) ?m"
      using False by (subst set_masks.simps) (simp add: chunk_int of_nat_diff)
    then have s: "set_masks masks p (int n) m a = (if unat (a - (p + 8)) < n - 8 then setbit b (?m a) else ?m a)"
      using less.IH [of "n - 8" "p + 8" ?m] False less.prems by simp
    have u: "unat (a - (p + 8)) < n - 8 \<longleftrightarrow> 8 \<le> unat (a - p) \<and> unat (a - p) < n"
    proof -
      have "a - (p + 8) = of_nat (unat (a - p)) - of_nat 8" by simp
      then show ?thesis
        using unat_diff_of_nat_less [of "unat (a - p)" 8 "n - 8"] False less.prems unat_lt_64 [of "a - p"]
        by (simp add: diff_diff_eq)
    qed
    have "unat (a - p) < n" if "unat (a - p) < 8" using that False by simp
    then show ?thesis using False set_chunk_at [OF assms(1,2), of 8 m p a] unfolding s u by auto
  qed
qed

section \<open>Checking\<close>

lemma check_chunk:
  assumes "flag_masks b masks" and "b < 8" and "k \<le> 8"
  shows "load64 m p AND masks ! k = masks ! k \<longleftrightarrow> (\<forall>i<k. bit (m (p + of_nat i)) b)"
proof -
  have "load64 m p AND masks ! k = masks ! k \<longleftrightarrow> (\<forall>x<8. \<forall>j<8. bit (masks ! k) (8 * x + j) \<longrightarrow> bit (load64 m p) (8 * x + j))"
  proof
    assume "load64 m p AND masks ! k = masks ! k"
    then show "\<forall>x<8. \<forall>j<8. bit (masks ! k) (8 * x + j) \<longrightarrow> bit (load64 m p) (8 * x + j)"
      by (metis bit_and_iff)
  next
    assume h: "\<forall>x<8. \<forall>j<8. bit (masks ! k) (8 * x + j) \<longrightarrow> bit (load64 m p) (8 * x + j)"
    show "load64 m p AND masks ! k = masks ! k"
    proof (rule bit_word_eqI)
      fix l assume "l < LENGTH(64)"
      then have "l div 8 < 8" "l mod 8 < 8" by auto
      then show "bit (load64 m p AND masks ! k) l = bit (masks ! k) l"
        using h [rule_format, of "l div 8" "l mod 8"] by (auto simp: bit_and_iff simp del: bit_load_le)
    qed
  qed
  also have "\<dots> \<longleftrightarrow> (\<forall>i<k. bit (m (p + of_nat i)) b)"
  proof -
    have "bit (load64 m p) (8 * x + j) \<longleftrightarrow> bit (m (p + of_nat x)) j" if "x < 8" "j < 8" for x j
      using that by auto
    then show ?thesis using flag_masksD [OF assms(1,3)] assms(2,3) by (auto simp del: bit_load_le)
  qed
  finally show ?thesis .
qed

lemma check_masks_iff:
  assumes "flag_masks b masks" and "b < 8"
  shows "check_masks masks m p (int n) r \<longleftrightarrow> r \<and> (\<forall>i<n. bit (m (p + of_nat i)) b)"
proof (induction n arbitrary: p r rule: less_induct)
  case (less n)
  show ?case
  proof (cases "n \<le> 8")
    case True
    then show ?thesis
      using check_chunk [OF assms True]
      by (subst check_masks.simps) (auto simp: check_masks.simps [of masks _ "p + 8" "int n - 8"] chunk_int min_def)
  next
    case False
    have "check_masks masks m p (int n) r = check_masks masks m (p + 8) (int (n - 8)) (r \<and> load64 m p AND masks ! 8 = masks ! 8)"
      using False by (subst check_masks.simps) (simp add: chunk_int of_nat_diff Let_def)
    also have "\<dots> \<longleftrightarrow> r \<and> (\<forall>i<8. bit (m (p + of_nat i)) b) \<and> (\<forall>i<n - 8. bit (m (p + 8 + of_nat i)) b)"
      using less.IH [of "n - 8" "p + 8"] False check_chunk [OF assms, of 8 m p] by simp
    also have "\<dots> \<longleftrightarrow> r \<and> (\<forall>i<n. bit (m (p + of_nat i)) b)"
    proof -
      have sp: "(\<forall>i<n. P i) \<longleftrightarrow> (\<forall>i<8. P i) \<and> (\<forall>i<n - 8. P (8 + i))" for P :: "nat \<Rightarrow> bool"
      proof (intro iffI conjI allI impI)
        fix i assume h: "(\<forall>i<8. P i) \<and> (\<forall>i<n - 8. P (8 + i))" and i: "i < n"
        show "P i"
        proof (cases "i < 8")
          case f: False
          then have "i - 8 < n - 8" "8 + (i - 8) = i" using i by auto
          then show ?thesis using h by metis
        qed (use h in simp)
      qed (use False in auto)
      show ?thesis unfolding sp [of "\<lambda>i. bit (m (p + of_nat i)) b"] by (simp add: add.assoc)
    qed
    finally show ?thesis .
  qed
qed

end
