(* ===== verification/Segment_Heap.thy ===== *)
theory Segment_Heap
  imports Segment_Static
begin

text \<open>
  \<^verbatim>\<open>segment_model/e_acsl_segment_tracking.h\<close>, the part on heap memory, and the dispatch between
  the segments. The heap is cut into segments of 32 bytes; the shadow of each segment of a block
  starts with the base address of the block, that of the first segment also has its length; the
  init shadow has one bit per byte.

  \<open>rt_env\<close> gathers what the runtime is given: the mspace functions, the process and the build.
  The \<^verbatim>\<open>public_\<close> allocator is a parameter (\<open>Alloc\<close>); the contents of a block that it moves are
  the application's and not tracked.
\<close>

record rt_env =
  rt_mspaces :: mspaces
  rt_process :: process
  rt_build :: build

type_synonym 's res = "'s outcome"

section \<open>Queries\<close>

definition ALIGNED_HEAP_SHADOW :: "memory_layout \<Rightarrow> u64 \<Rightarrow> u64" where
  "ALIGNED_HEAP_SHADOW L addr = HEAP_SHADOW L (ALIGN_LEFT addr HEAP_SEGMENT)"

definition heap_allocated :: "build \<Rightarrow> u64 \<Rightarrow> u64 \<Rightarrow> u64 \<Rightarrow> 'a seg_state_scheme \<Rightarrow> bool" where
  "heap_allocated bld addr sz base_ptr s =
     (let m = seg_mem s; L = layout s;
          shadow = HEAP_SHADOW L (addr - addr mod HEAP_SEGMENT);
          sh0 = load64 m shadow
      in if sh0 \<noteq> 0 then
           (let base_shadow = HEAP_SHADOW L (base_ptr - base_ptr mod HEAP_SEGMENT);
                first_segment = HEAP_SHADOW L sh0
            in if \<not> weak_validity bld
               then load64 m base_shadow = sh0 \<and> (addr - sh0) + sz \<le> load64 m (first_segment + 8)
               else (addr - sh0) + sz \<le> load64 m (first_segment + 8))
         else False)"

definition freeable_seg :: "u64 \<Rightarrow> 'a seg_state_scheme \<Rightarrow> bool" where
  "freeable_seg addr s =
     (if \<not> IS_ON_HEAP (layout s) addr then False
      else (let sh = load64 (seg_mem s) (ALIGNED_HEAP_SHADOW (layout s) addr)
            in if sh \<noteq> 0 then sh = addr else False))"

definition heap_info :: "u64 \<Rightarrow> query \<Rightarrow> 'a seg_state_scheme \<Rightarrow> u64" where
  "heap_info addr type s =
     (let base = load64 (seg_mem s) (ALIGNED_HEAP_SHADOW (layout s) addr)
      in case type of
           BaseQ \<Rightarrow> base
         | LengthQ \<Rightarrow> load64 (seg_mem s) (HEAP_SHADOW (layout s) base + 8)
         | OffsetQ \<Rightarrow> addr - base)"

text \<open>
  The mask is a byte: \<^verbatim>\<open>setbits64_skip\<close> is computed at 64 bits and cut. \<open>len\<close> is a \<^verbatim>\<open>long\<close>.
\<close>

definition heap_initialized :: "u64 \<Rightarrow> u64 \<Rightarrow> 'a seg_state_scheme \<Rightarrow> bool" where
  "heap_initialized addr n s =
     (let m = seg_mem s; shadow = HEAP_INIT_SHADOW (layout s) addr; len = sint n;
          skip = unat ((addr - HEAP_START (layout s)) mod 8)
      in if skip \<noteq> 0 then
           (let set' = 8 - int skip;
                set' = (if len > set' then set' else len);
                len = len - set';
                mask = ucast (setbits64_skip (nat set') 0 skip) :: u8
            in if m shadow \<noteq> mask then False
               else if len > 0 then checkbits (of_int len) shadow m
               else True)
         else if len > 0 then checkbits (of_int len) shadow m
         else True)"

definition heap_temporal_info :: "u64 \<Rightarrow> bool \<Rightarrow> 'a seg_state_scheme \<Rightarrow> u32" where
  "heap_temporal_info addr origin s =
     (if origin then
        (let base = load64 (seg_mem s) (ALIGNED_HEAP_SHADOW (layout s) addr)
         in ucast (load64 (seg_mem s) (HEAP_SHADOW (layout s) base + 16)))
      else load32 (seg_mem s) (TEMPORAL_HEAP_SHADOW (layout s) addr))"

definition heap_store_temporal_referent :: "u64 \<Rightarrow> u32 \<Rightarrow> 'a seg_state_scheme \<Rightarrow> 'a seg_state_scheme" where
  "heap_store_temporal_referent addr ref s =
     s\<lparr>seg_mem := store32 (seg_mem s) (TEMPORAL_HEAP_SHADOW (layout s) addr) ref\<rparr>"

section \<open>Dispatch between the segments\<close>

text \<open>
  \<open>TRY_SEGMENT_WEAK\<close> gives \<open>None\<close> for the fall-through case of the macro; \<open>TRY_SEGMENT\<close> aborts
  there.
\<close>

definition TRY_SEGMENT_WEAK :: "memory_layout \<Rightarrow> u64 \<Rightarrow> 'b \<Rightarrow> 'b \<Rightarrow> 'b option" where
  "TRY_SEGMENT_WEAK L addr heap_stmt static_stmt =
     (if IS_ON_HEAP L addr then Some heap_stmt
      else if IS_ON_STATIC L addr then Some static_stmt
      else None)"

definition TRY_SEGMENT :: "memory_layout \<Rightarrow> u64 \<Rightarrow> 'b option \<Rightarrow> 'b option \<Rightarrow> 'b outcome option" where
  "TRY_SEGMENT L addr heap_stmt static_stmt =
     (case TRY_SEGMENT_WEAK L addr heap_stmt static_stmt of
        Some r \<Rightarrow> map_option Inr r
      | None \<Rightarrow> Some (Inl ''Use of invalid address''))"

definition predicate :: "u64 \<Rightarrow> query \<Rightarrow> 'a seg_state_scheme \<Rightarrow> u64 outcome option" where
  "predicate addr p s =
     TRY_SEGMENT (layout s) addr (Some (heap_info addr p s)) (static_info addr p s)"

definition allocated_seg :: "build \<Rightarrow> u64 \<Rightarrow> u64 \<Rightarrow> u64 \<Rightarrow> 'a seg_state_scheme \<Rightarrow> bool option" where
  "allocated_seg bld addr sz base s =
     (case TRY_SEGMENT_WEAK (layout s) addr (Some (heap_allocated bld addr sz base s))
             (static_allocated bld addr sz base s) of
        Some r \<Rightarrow> r
      | None \<Rightarrow> Some False)"

definition readonly_seg :: "u64 \<Rightarrow> 'a seg_state_scheme \<Rightarrow> bool" where
  "readonly_seg addr s \<longleftrightarrow> IS_ON_GLOBAL (layout s) addr \<and> global_readonly addr s"

definition writeable_seg :: "build \<Rightarrow> u64 \<Rightarrow> u64 \<Rightarrow> u64 \<Rightarrow> 'a seg_state_scheme \<Rightarrow> bool option" where
  "writeable_seg bld addr sz base s =
     map_option (\<lambda>a. a \<and> \<not> readonly_seg addr s) (allocated_seg bld addr sz base s)"

definition which_segment :: "memory_layout \<Rightarrow> u64 \<Rightarrow> string" where
  "which_segment L addr =
     (if IS_ON_STACK L addr then ''stack''
      else if IS_ON_HEAP L addr then ''heap''
      else if IS_ON_GLOBAL L addr then ''global''
      else if IS_ON_TLS L addr then ''TLS''
      else ''untracked'')"

section \<open>Deletion of static blocks\<close>

definition shadow_freea :: "build \<Rightarrow> u64 \<Rightarrow> 'a seg_state_scheme \<Rightarrow> ('a seg_state_scheme) outcome option" where
  "shadow_freea bld ptr s = do {
     r \<leftarrow> predicate ptr LengthQ s;
     case r of
       Inl e \<Rightarrow> Some (Inl e)
     | Inr sz \<Rightarrow> do {
         prim \<leftarrow> shadow_ptr (PRIMARY_SHADOW (layout s) ptr);
         sec \<leftarrow> shadow_ptr (SECONDARY_SHADOW (layout s) ptr);
         let m = fill_bytes (seg_mem s) prim 0 (unat sz);
         let m = fill_bytes m sec 0 (unat sz);
         if temporal bld then do {
           tp \<leftarrow> shadow_ptr (TEMPORAL_PRIMARY_STATIC_SHADOW (layout s) ptr);
           ts \<leftarrow> shadow_ptr (TEMPORAL_SECONDARY_STATIC_SHADOW (layout s) ptr);
           Some (Inr (s\<lparr>seg_mem := fill_bytes (fill_bytes m tp 0 (unat sz)) ts 0 (unat sz)\<rparr>)) }
         else Some (Inr (s\<lparr>seg_mem := m\<rparr>)) } }"

section \<open>Heap allocation\<close>

text \<open>
  The loop that writes the base address into the shadow of each segment. Its counter is an
  \<^verbatim>\<open>int\<close>; the assertions before it keep an allocation far below the \<open>2^36\<close> bytes it can count.
\<close>

fun segment_loop :: "u64 \<Rightarrow> u64 \<Rightarrow> nat \<Rightarrow> nat \<Rightarrow> mem \<Rightarrow> mem" where
  "segment_loop shadow ptr 0 i m = m"
| "segment_loop shadow ptr (Suc n) i m =
     segment_loop shadow ptr n (i + 1) (store64 m (shadow + of_nat i * HEAP_SEGMENT) ptr)"

definition set_heap_segment ::
  "rt_env \<Rightarrow> u64 \<Rightarrow> u64 \<Rightarrow> u64 \<Rightarrow> bool \<Rightarrow> 'a seg_state_scheme \<Rightarrow> ('a seg_state_scheme) res" where
  "set_heap_segment E ptr sz alloc_size init s =
     (if heap_mspace_least (spaces s) \<noteq> mspace_least_addr (rt_mspaces E) (heap_mspace (spaces s))
      then Inl ''Exceeded heap allocation limit -- heap memory space moved''
      else
        (let max_addr = ptr + alloc_size
         in if \<not> heap_end (spaces s) > max_addr then Inl ''Exceeded heap allocation limit''
            else
              (let s = s\<lparr>seg_stats := update_heap_allocation sz (seg_stats s)\<rparr>;
                   shadow = HEAP_SHADOW (layout s) ptr;
                   segments = alloc_size div HEAP_SEGMENT;
                   s = s\<lparr>seg_mem := store64 (seg_mem s) (shadow + 8) sz\<rparr>;
                   s = (if temporal (rt_build E)
                        then (let (t, s) = NEW_TEMPORAL_TIMESTAMP s
                              in s\<lparr>seg_mem := store64 (seg_mem s) (shadow + 16) (ucast t)\<rparr>)
                        else s);
                   s = s\<lparr>seg_mem := segment_loop shadow ptr (unat segments) 0 (seg_mem s)\<rparr>;
                   s = (if init
                        then s\<lparr>seg_mem := fill_bytes (seg_mem s) (HEAP_INIT_SHADOW (layout s) ptr)
                                 (ucast (ucast ONE :: u32)) (unat (alloc_size div 8))\<rparr>
                        else s)
               in Inr s)))"

text \<open>
  \<^verbatim>\<open>mspaces_init\<close> (of \<^verbatim>\<open>e_acsl_segment_mmodel.c\<close>), which the allocation functions call before
  anything else.
\<close>

definition mspaces_init :: "rt_env \<Rightarrow> 'a seg_state_scheme \<Rightarrow> ('a seg_state_scheme) res" where
  "mspaces_init E s =
     (if mspaces_run s then Inr s
      else
        (let sp = make_memory_spaces (rt_mspaces E) (64 * MB) get_heap_size
         in case init_shadow_layout_heap_global_tls (rt_mspaces E) (rt_process E) (temporal (rt_build E)) sp (layout s) of
              Inl e \<Rightarrow> Inl e
            | Inr L \<Rightarrow> Inr (s\<lparr>spaces := sp, layout := L, mspaces_run := True\<rparr>)))"

definition malloc_seg ::
  "rt_env \<Rightarrow> 'a seg_state_scheme public_alloc \<Rightarrow> u64 \<Rightarrow> 'a seg_state_scheme \<Rightarrow> (u64 \<times> 'a seg_state_scheme) res" where
  "malloc_seg E pa sz s =
     (let alloc_size = ALLOC_SIZE sz
      in if alloc_size \<noteq> 0 then
           (case mspaces_init E s of
              Inl e \<Rightarrow> Inl e
            | Inr s \<Rightarrow>
                (let r = public_malloc pa s alloc_size
                 in if r \<noteq> 0 then
                      (case set_heap_segment E r sz alloc_size False s of Inl e \<Rightarrow> Inl e | Inr s \<Rightarrow> Inr (r, s))
                    else Inr (0, s)))
         else Inr (0, s))"

definition calloc_size :: "u64 \<Rightarrow> u64 \<Rightarrow> u64" where
  "calloc_size nmemb sz = (if sz \<noteq> 0 \<and> nmemb > (- 1) div sz then 0 else nmemb * sz)"

definition calloc_seg ::
  "rt_env \<Rightarrow> 'a seg_state_scheme public_alloc \<Rightarrow> u64 \<Rightarrow> u64 \<Rightarrow> 'a seg_state_scheme \<Rightarrow> (u64 \<times> 'a seg_state_scheme) res" where
  "calloc_seg E pa nmemb sz s =
     (let sz = calloc_size nmemb sz; alloc_size = ALLOC_SIZE sz
      in if sz \<noteq> 0 then
           (case mspaces_init E s of
              Inl e \<Rightarrow> Inl e
            | Inr s \<Rightarrow>
                (let r = public_malloc pa s alloc_size
                 in if r \<noteq> 0 then
                      (let s = s\<lparr>seg_mem := fill_bytes (seg_mem s) r 0 (unat sz)\<rparr>
                       in case set_heap_segment E r sz alloc_size True s of Inl e \<Rightarrow> Inl e | Inr s \<Rightarrow> Inr (r, s))
                    else Inr (0, s)))
         else Inr (0, s))"

definition shadow_copy ::
  "rt_env \<Rightarrow> 'a seg_state_scheme public_alloc \<Rightarrow> u64 \<Rightarrow> u64 \<Rightarrow> bool \<Rightarrow> 'a seg_state_scheme \<Rightarrow> (u64 \<times> 'a seg_state_scheme) res" where
  "shadow_copy E pa ptr sz init s =
     (case (if init then calloc_seg E pa 1 sz s else malloc_seg E pa sz s) of
        Inl e \<Rightarrow> Inl e
      | Inr (r, s) \<Rightarrow>
          if r = 0 then Inl ''Shadow copy failed''
          else Inr (r, s\<lparr>seg_stats := update_heap_allocation (- sz) (seg_stats s),
                         seg_mem := copy_bytes (seg_mem s) r ptr (unat sz)\<rparr>))"

section \<open>Heap deallocation\<close>

definition unset_heap_segment :: "build \<Rightarrow> u64 \<Rightarrow> bool \<Rightarrow> 'a seg_state_scheme \<Rightarrow> 'a seg_state_scheme" where
  "unset_heap_segment bld ptr init s =
     (let base_shadow = HEAP_SHADOW (layout s) ptr;
          len = load64 (seg_mem s) (base_shadow + 8);
          alloc_size = ALLOC_SIZE len;
          m = fill_bytes (seg_mem s) base_shadow (ucast ZERO) (unat alloc_size);
          st = (seg_stats s)\<lparr>heap_allocation_size := heap_allocation_size (seg_stats s) - len\<rparr>;
          m = (if temporal bld
               then fill_bytes m (TEMPORAL_HEAP_SHADOW (layout s) ptr) (ucast ZERO) (unat alloc_size) else m);
          m = (if init then fill_bytes m (HEAP_INIT_SHADOW (layout s) ptr) 0 (unat (alloc_size div 8)) else m)
      in s\<lparr>seg_mem := m, seg_stats := st\<rparr>)"

definition free_seg :: "build \<Rightarrow> u64 \<Rightarrow> 'a seg_state_scheme \<Rightarrow> ('a seg_state_scheme) res" where
  "free_seg bld ptr s =
     (if ptr = 0 then (if free_valid_address bld then Inl ''NULL pointer in free'' else Inr s)
      else if freeable_seg ptr s then Inr (unset_heap_segment bld ptr True s)
      else Inl ''Not a start of block in free'')"

section \<open>Reallocation\<close>

definition realloc_seg ::
  "rt_env \<Rightarrow> 'a seg_state_scheme public_alloc \<Rightarrow> u64 \<Rightarrow> u64 \<Rightarrow> 'a seg_state_scheme
    \<Rightarrow> (u64 \<times> 'a seg_state_scheme) res option" where
  "realloc_seg E pa ptr sz s =
     (if ptr = 0 then Some (malloc_seg E pa sz s)
      else if sz = 0 then
        Some (case free_seg (rt_build E) ptr s of Inl e \<Rightarrow> Inl e | Inr s \<Rightarrow> Inr (0, s))
      else if freeable_seg ptr s then
        (let alloc_size = ALLOC_SIZE sz;
             r = public_realloc pa s ptr alloc_size
         in if r = 0 then Some (Inr (0, s))
            else do {
              q \<leftarrow> predicate ptr LengthQ s;
              case q of
                Inl e \<Rightarrow> Some (Inl e)
              | Inr old_size \<Rightarrow>
                  (let old_alloc_size = ALLOC_SIZE old_size;
                       s = unset_heap_segment (rt_build E) ptr False s
                   in case set_heap_segment E r sz alloc_size False s of
                        Inl e \<Rightarrow> Some (Inl e)
                      | Inr s \<Rightarrow>
                          (let old_init_shadow = HEAP_INIT_SHADOW (layout s) ptr;
                               new_init_shadow = HEAP_INIT_SHADOW (layout s) r;
                               m = seg_mem s;
                               m = (if old_size > sz
                                    then clearbits_right (old_alloc_size - sz) (old_init_shadow + old_alloc_size div 8) m
                                    else m);
                               copy_size = (if old_size > sz then alloc_size else old_alloc_size);
                               m = (if r \<noteq> ptr
                                    then fill_bytes (copy_bytes m new_init_shadow old_init_shadow (unat copy_size))
                                           old_init_shadow 0 (unat copy_size)
                                    else m)
                           in Some (Inr (r, s\<lparr>seg_mem := m\<rparr>)))) })
      else Some (Inl ''Not a start of block in realloc''))"

definition aligned_alloc_seg ::
  "rt_env \<Rightarrow> 'a seg_state_scheme public_alloc \<Rightarrow> u64 \<Rightarrow> u64 \<Rightarrow> 'a seg_state_scheme \<Rightarrow> (u64 \<times> 'a seg_state_scheme) res" where
  "aligned_alloc_seg E pa alignment sz s =
     (if sz = 0 \<or> alignment = 0 \<or> \<not> powof2 alignment \<or> sz mod alignment \<noteq> 0 then Inr (0, s)
      else (let r = public_aligned_alloc pa s alignment sz
            in if r \<noteq> 0 then
                 (case set_heap_segment E r sz (ALLOC_SIZE sz) False s of Inl e \<Rightarrow> Inl e | Inr s \<Rightarrow> Inr (r, s))
               else Inr (r, s)))"

text \<open>\<^verbatim>\<open>posix_memalign\<close> returns its code and stores the pointer at \<^verbatim>\<open>memptr\<close>.\<close>

definition posix_memalign_seg ::
  "rt_env \<Rightarrow> 'a seg_state_scheme public_alloc \<Rightarrow> u64 \<Rightarrow> u64 \<Rightarrow> u64 \<Rightarrow> 'a seg_state_scheme
    \<Rightarrow> (int \<times> 'a seg_state_scheme) res option" where
  "posix_memalign_seg E pa memptr alignment sz s =
     (if sz = 0 \<or> alignment = 0 \<or> \<not> powof2 alignment \<or> alignment mod 8 \<noteq> 0 then Some (Inr (- 1, s))
      else do {
        a \<leftarrow> allocated_seg (rt_build E) memptr 8 memptr s;
        if \<not> a then Some (Inl (CHR 0x5C # ''invalid memptr in  posix_memalign''))
        else
          (let (r, p) = public_posix_memalign pa s alignment sz
           in if r = 0 then
                (let s = s\<lparr>seg_mem := store64 (seg_mem s) memptr p\<rparr>
                 in case set_heap_segment E p sz (ALLOC_SIZE sz) False s of
                      Inl e \<Rightarrow> Some (Inl e)
                    | Inr s \<Rightarrow> Some (Inr (r, s)))
              else Some (Inr (r, s))) })"

section \<open>Initialization of heap memory\<close>

definition initialize_heap_region :: "u64 \<Rightarrow> u64 \<Rightarrow> 'a seg_state_scheme \<Rightarrow> 'a seg_state_scheme" where
  "initialize_heap_region addr n s =
     (let m = seg_mem s; shadow = HEAP_INIT_SHADOW (layout s) addr; len = sint n;
          skip = unat ((addr - HEAP_START (layout s)) mod 8);
          (len, shadow, m) =
            (if skip \<noteq> 0 then
               (let set' = 8 - int skip;
                    set' = (if len > set' then set' else len)
                in (len - set', shadow + 1,
                    m(shadow := ucast (setbits64_skip (nat set') (ucast (m shadow)) skip))))
             else (len, shadow, m))
      in s\<lparr>seg_mem := (if len > 0 then setbits (of_int len) shadow m else m)\<rparr>)"

end
