(* ===== verification/Segment_MModel.thy ===== *)
theory Segment_MModel
  imports Segment_Heap Safe_Locations
begin

text \<open>
  \<^verbatim>\<open>segment_model/e_acsl_segment_mmodel.c\<close>: the public functions of the segment-based memory
  model, and the temporal functions of \<^verbatim>\<open>e_acsl_temporal.h\<close> over it. Results are as in the
  theories below: \<open>None\<close> where the code is undefined, \<open>Inl\<close> an abort, \<open>Inr\<close> a return.
\<close>

text \<open>Sequencing of calls that may abort.\<close>

definition andthen :: "'a outcome option \<Rightarrow> ('a \<Rightarrow> 'b outcome option) \<Rightarrow> 'b outcome option" where
  "andthen x f = do { r \<leftarrow> x; case r of Inl e \<Rightarrow> Some (Inl e) | Inr v \<Rightarrow> f v }"

section \<open>Blocks\<close>

definition store_block_seg ::
  "build \<Rightarrow> u64 \<Rightarrow> u64 \<Rightarrow> 'a seg_state_scheme \<Rightarrow> (u64 \<times> 'a seg_state_scheme) option" where
  "store_block_seg bld ptr sz s = do { s \<leftarrow> shadow_alloca bld ptr sz s; Some (ptr, s) }"

definition delete_block_seg :: "build \<Rightarrow> u64 \<Rightarrow> 'a seg_state_scheme \<Rightarrow> ('a seg_state_scheme) outcome option" where
  "delete_block_seg bld ptr s = shadow_freea bld ptr s"

definition store_block_duplicate_seg ::
  "build \<Rightarrow> u64 \<Rightarrow> u64 \<Rightarrow> 'a seg_state_scheme \<Rightarrow> (u64 \<times> 'a seg_state_scheme) outcome option" where
  "store_block_duplicate_seg bld ptr sz s = do {
     a \<leftarrow> allocated_seg bld ptr sz ptr s;
     andthen (if a then delete_block_seg bld ptr s else Some (Inr s)) (\<lambda>s. do {
       s \<leftarrow> shadow_alloca bld ptr sz s;
       Some (Inr (ptr, s)) }) }"

definition initialize_seg :: "u64 \<Rightarrow> u64 \<Rightarrow> 'a seg_state_scheme \<Rightarrow> ('a seg_state_scheme) outcome option" where
  "initialize_seg ptr n s =
     TRY_SEGMENT (layout s) ptr (Some (initialize_heap_region ptr n s)) (initialize_static_region ptr n s)"

definition full_init_seg :: "u64 \<Rightarrow> 'a seg_state_scheme \<Rightarrow> ('a seg_state_scheme) outcome option" where
  "full_init_seg ptr s = andthen (predicate ptr LengthQ s) (\<lambda>n. initialize_seg ptr n s)"

definition mark_readonly_seg :: "u64 \<Rightarrow> 'a seg_state_scheme \<Rightarrow> ('a seg_state_scheme) outcome option" where
  "mark_readonly_seg ptr s =
     andthen (predicate ptr LengthQ s) (\<lambda>n. Some (Inr (mark_readonly_region ptr n s)))"

section \<open>Temporal functions\<close>

definition temporal_referent_shadow :: "u64 \<Rightarrow> 'a seg_state_scheme \<Rightarrow> u64 outcome option" where
  "temporal_referent_shadow addr s =
     TRY_SEGMENT (layout s) addr (Some (TEMPORAL_HEAP_SHADOW (layout s) addr))
       (Some (TEMPORAL_SECONDARY_STATIC_SHADOW (layout s) addr))"

definition origin_timestamp :: "u64 \<Rightarrow> 'a seg_state_scheme \<Rightarrow> u32 option" where
  "origin_timestamp ptr s =
     (case TRY_SEGMENT_WEAK (layout s) ptr (Some (heap_temporal_info ptr True s)) (static_temporal_info ptr True s) of
        Some r \<Rightarrow> r
      | None \<Rightarrow> Some INVALID_TEMPORAL_TIMESTAMP)"

definition referent_timestamp :: "u64 \<Rightarrow> 'a seg_state_scheme \<Rightarrow> u32 outcome option" where
  "referent_timestamp ptr s =
     TRY_SEGMENT (layout s) ptr (Some (heap_temporal_info ptr False s)) (static_temporal_info ptr False s)"

definition store_temporal_referent ::
  "u64 \<Rightarrow> u32 \<Rightarrow> 'a seg_state_scheme \<Rightarrow> ('a seg_state_scheme) outcome option" where
  "store_temporal_referent ptr ref s =
     TRY_SEGMENT (layout s) ptr (Some (heap_store_temporal_referent ptr ref s))
       (static_store_temporal_referent ptr ref s)"

definition temporal_store_nblock ::
  "u64 \<Rightarrow> u64 \<Rightarrow> 'a seg_state_scheme \<Rightarrow> ('a seg_state_scheme) outcome option" where
  "temporal_store_nblock lhs rhs s = do { t \<leftarrow> origin_timestamp rhs s; store_temporal_referent lhs t s }"

definition temporal_store_nreferent ::
  "u64 \<Rightarrow> u64 \<Rightarrow> 'a seg_state_scheme \<Rightarrow> ('a seg_state_scheme) outcome option" where
  "temporal_store_nreferent lhs rhs s = andthen (referent_timestamp rhs s) (\<lambda>t. store_temporal_referent lhs t s)"

definition temporal_memcpy ::
  "u64 \<Rightarrow> u64 \<Rightarrow> u64 \<Rightarrow> 'a seg_state_scheme \<Rightarrow> ('a seg_state_scheme) outcome option" where
  "temporal_memcpy dest src sz s =
     (if sz \<ge> PTR_SZ then
        andthen (temporal_referent_shadow dest s) (\<lambda>d.
        andthen (temporal_referent_shadow src s) (\<lambda>q.
        Some (Inr (s\<lparr>seg_mem := copy_bytes (seg_mem s) d q (unat sz)\<rparr>))))
      else Some (Inr s))"

definition temporal_memset :: "u64 \<Rightarrow> u64 \<Rightarrow> 'a seg_state_scheme \<Rightarrow> ('a seg_state_scheme) outcome option" where
  "temporal_memset dest sz s =
     andthen (temporal_referent_shadow dest s) (\<lambda>d. Some (Inr (s\<lparr>seg_mem := fill_bytes (seg_mem s) d 0 (unat sz)\<rparr>)))"

definition temporal_valid :: "u64 \<Rightarrow> u64 \<Rightarrow> 'a seg_state_scheme \<Rightarrow> bool outcome option" where
  "temporal_valid ptr addr_of_ptr s =
     (if addr_of_ptr \<noteq> 0 \<and> ptr \<noteq> addr_of_ptr then
        andthen (referent_timestamp addr_of_ptr s) (\<lambda>stored. do {
          actual \<leftarrow> origin_timestamp ptr s;
          Some (Inr (stored = actual)) })
      else Some (Inr True))"

text \<open>Parameters that carry time stamps across a call; an unset entry has no flow.\<close>

datatype temporal_flow = TBlockN | TReferentN | TCopy

type_synonym parameter_referents = "nat \<Rightarrow> (u64 \<times> temporal_flow) option"

definition MAX_PARAMETERS :: nat where "MAX_PARAMETERS = 127"

definition temporal_save_parameter ::
  "temporal_flow \<Rightarrow> u64 \<Rightarrow> nat \<Rightarrow> parameter_referents \<Rightarrow> parameter_referents option" where
  "temporal_save_parameter flow ptr param ps =
     (if param < MAX_PARAMETERS then Some (ps(param \<mapsto> (ptr, flow))) else None)"

definition temporal_save_nblock_parameter ::
  "u64 \<Rightarrow> nat \<Rightarrow> parameter_referents \<Rightarrow> parameter_referents option" where
  "temporal_save_nblock_parameter = temporal_save_parameter TBlockN"

definition temporal_save_nreferent_parameter ::
  "u64 \<Rightarrow> nat \<Rightarrow> parameter_referents \<Rightarrow> parameter_referents option" where
  "temporal_save_nreferent_parameter = temporal_save_parameter TReferentN"

definition temporal_save_copy_parameter ::
  "u64 \<Rightarrow> nat \<Rightarrow> parameter_referents \<Rightarrow> parameter_referents option" where
  "temporal_save_copy_parameter = temporal_save_parameter TCopy"

definition temporal_pull_parameter ::
  "u64 \<Rightarrow> nat \<Rightarrow> u64 \<Rightarrow> parameter_referents \<Rightarrow> 'a seg_state_scheme \<Rightarrow> ('a seg_state_scheme) outcome option" where
  "temporal_pull_parameter ptr param sz ps s =
     (if param < MAX_PARAMETERS then
        (case ps param of
           Some (p, TBlockN) \<Rightarrow> temporal_store_nblock ptr p s
         | Some (p, TReferentN) \<Rightarrow> temporal_store_nreferent ptr p s
         | Some (p, TCopy) \<Rightarrow> temporal_memcpy ptr p sz s
         | None \<Rightarrow> Some (Inl ''Unreachable''))
      else None)"

definition temporal_reset_parameters :: parameter_referents where
  "temporal_reset_parameters = (\<lambda>_. None)"

text \<open>
  The comma expression of \<^verbatim>\<open>temporal_save_return\<close> has the value of its second operand, so the
  test is always true. The result is the new \<^verbatim>\<open>return_referent\<close>.
\<close>

definition temporal_save_return :: "u64 \<Rightarrow> 'a seg_state_scheme \<Rightarrow> u32 outcome option" where
  "temporal_save_return ptr s = (if PTR_SZ \<noteq> 0 then referent_timestamp ptr s else Some (Inr 0))"

definition temporal_pull_return ::
  "u64 \<Rightarrow> u32 \<Rightarrow> 'a seg_state_scheme \<Rightarrow> ('a seg_state_scheme) outcome option" where
  "temporal_pull_return ptr return_referent s = store_temporal_referent ptr return_referent s"

definition temporal_reset_return :: u32 where "temporal_reset_return = 0"

section \<open>Annotations\<close>

definition valid_seg ::
  "build \<Rightarrow> u64 \<Rightarrow> u64 \<Rightarrow> u64 \<Rightarrow> u64 \<Rightarrow> 'a seg_state_scheme \<Rightarrow> bool outcome option" where
  "valid_seg bld ptr sz ptr_base addrof_base s = do {
     a \<leftarrow> allocated_seg bld ptr sz ptr_base s;
     if a \<and> \<not> readonly_seg ptr s
     then (if temporal bld then temporal_valid ptr_base addrof_base s else Some (Inr True))
     else Some (Inr False) }"

definition valid_read_seg ::
  "build \<Rightarrow> u64 \<Rightarrow> u64 \<Rightarrow> u64 \<Rightarrow> u64 \<Rightarrow> 'a seg_state_scheme \<Rightarrow> bool outcome option" where
  "valid_read_seg bld ptr sz ptr_base addrof_base s = do {
     a \<leftarrow> allocated_seg bld ptr sz ptr_base s;
     if a
     then (if temporal bld then temporal_valid ptr_base addrof_base s else Some (Inr True))
     else Some (Inr False) }"

definition base_addr_seg :: "u64 \<Rightarrow> 'a seg_state_scheme \<Rightarrow> u64 outcome option" where
  "base_addr_seg ptr s =
     TRY_SEGMENT (layout s) ptr (Some (heap_info ptr BaseQ s)) (static_info ptr BaseQ s)"

definition block_length_seg :: "u64 \<Rightarrow> 'a seg_state_scheme \<Rightarrow> u64 outcome option" where
  "block_length_seg ptr s =
     TRY_SEGMENT (layout s) ptr (Some (heap_info ptr LengthQ s)) (static_info ptr LengthQ s)"

definition offset_seg :: "u64 \<Rightarrow> 'a seg_state_scheme \<Rightarrow> u64 outcome option" where
  "offset_seg ptr s =
     TRY_SEGMENT (layout s) ptr (Some (heap_info ptr OffsetQ s)) (static_info ptr OffsetQ s)"

definition initialized_seg :: "build \<Rightarrow> u64 \<Rightarrow> u64 \<Rightarrow> 'a seg_state_scheme \<Rightarrow> bool option" where
  "initialized_seg bld ptr sz s =
     (case TRY_SEGMENT_WEAK (layout s) ptr (Some (heap_initialized ptr sz s)) (static_initialized bld ptr sz s) of
        Some r \<Rightarrow> r
      | None \<Rightarrow> Some False)"

section \<open>Program initialization\<close>

text \<open>
  The loops over \<^verbatim>\<open>argv\<close> and \<^verbatim>\<open>environ\<close>, in the build without temporal analysis: the list has the
  address and the \<^verbatim>\<open>strlen\<close> of each string up to the terminating null pointer.
\<close>

definition track_block :: "build \<Rightarrow> u64 \<Rightarrow> u64 \<Rightarrow> 'a seg_state_scheme \<Rightarrow> 'a seg_state_scheme option" where
  "track_block bld a n s = do { s \<leftarrow> shadow_alloca bld a n s; initialize_static_region a n s }"

fun track_strings_seg ::
  "build \<Rightarrow> (u64 \<times> u64) list \<Rightarrow> 'a seg_state_scheme \<Rightarrow> 'a seg_state_scheme option" where
  "track_strings_seg bld [] s = Some s"
| "track_strings_seg bld ((a, len) # xs) s = do {
     s \<leftarrow> track_block bld a (len + 1) s;
     track_strings_seg bld xs s }"

definition argv_alloca_seg ::
  "build \<Rightarrow> u64 \<Rightarrow> u64 \<Rightarrow> u32 \<Rightarrow> u64 \<Rightarrow> (u64 \<times> u64) list \<Rightarrow> (u64 \<times> u64) list
    \<Rightarrow> 'a seg_state_scheme \<Rightarrow> 'a seg_state_scheme option" where
  "argv_alloca_seg bld argc_ref argv_ref argc argv args env s = do {
     s \<leftarrow> shadow_alloca bld argc_ref 4 s;
     s \<leftarrow> shadow_alloca bld argv_ref 8 s;
     let argvlen = scast (argc + 1) * 8;
     s \<leftarrow> shadow_alloca bld argv argvlen s;
     s \<leftarrow> initialize_static_region argv argvlen s;
     s \<leftarrow> track_strings_seg bld args s;
     track_strings_seg bld env s }"

fun track_safe_seg ::
  "build \<Rightarrow> memory_location list \<Rightarrow> 'a seg_state_scheme \<Rightarrow> ('a seg_state_scheme) outcome option" where
  "track_safe_seg bld [] s = Some (Inr s)"
| "track_safe_seg bld (l # ls) s = do {
     s \<leftarrow> shadow_alloca bld (l_address l) (l_length l) s;
     andthen (if l_is_initialized l then initialize_seg (l_address l) (l_length l) s else Some (Inr s))
       (track_safe_seg bld ls) }"

text \<open>
  \<^verbatim>\<open>memory_init\<close>, with the architecture check of \<^verbatim>\<open>e_acsl_assert.h\<close>; \<open>main_addr\<close> is the address of
  \<^verbatim>\<open>main\<close>. The report file and the infinity constants are not part of the state.
\<close>

definition arch_assert :: "u64 \<Rightarrow> unit outcome" where
  "arch_assert ptr_sz =
     (if ptr_sz = PTR_SZ then Inr () else Inl ''Mismatch of instrumentation- and compile-time pointer sizes'')"

definition memory_init_seg ::
  "rt_env \<Rightarrow> u64 \<Rightarrow> u64 \<Rightarrow> u64 \<Rightarrow> u32 \<Rightarrow> u64 \<Rightarrow> (u64 \<times> u64) list \<Rightarrow> (u64 \<times> u64) list \<Rightarrow> u64
    \<Rightarrow> safe_state \<Rightarrow> 'a seg_state_scheme \<Rightarrow> ('a seg_state_scheme) outcome option" where
  "memory_init_seg E ptr_size argc_ref argv_ref argc argv args env main_addr safe s =
     (if memory_run s then Some (Inr s)
      else
        andthen (Some (mspaces_init E s)) (\<lambda>s.
        andthen (Some (arch_assert ptr_size)) (\<lambda>_.
        andthen (Some (get_stack_size (rt_process E))) (\<lambda>sz.
        andthen (Some (increase_stack_limit (rt_process E) (sz * 2))) (\<lambda>_.
        andthen (Some (init_shadow_layout_stack (rt_mspaces E) (rt_process E) (temporal (rt_build E)) (layout s))) (\<lambda>L. do {
          let s = s\<lparr>layout := L\<rparr>;
          s \<leftarrow> (if argc_ref \<noteq> 0 \<and> argv_ref \<noteq> 0
                then argv_alloca_seg (rt_build E) argc_ref argv_ref argc argv args env s else Some s);
          s \<leftarrow> track_block (rt_build E) main_addr 8 s;
          andthen (track_safe_seg (rt_build E) (collected safe) s) (\<lambda>s. Some (Inr (s\<lparr>memory_run := True\<rparr>))) }))))))"

text \<open>\<^verbatim>\<open>memory_clean\<close>: the mspaces destroyed; the leak report is output.\<close>

definition memory_clean_seg :: "'a seg_state_scheme \<Rightarrow> u64 list" where
  "memory_clean_seg s = clean_shadow_layout (layout s)"

end
