(* ===== verification/Segment_Static_Correct.thy ===== *)
theory Segment_Static_Correct
  imports Segment_Encoding Segment_Masks Segment_MModel Memory_Model
begin

text \<open>
  Static blocks in the segment model: \<open>tracked s p n\<close> says that the shadows hold the block of \<open>n\<close>
  bytes at \<open>p\<close>. Storing a block makes it tracked and leaves the other blocks alone, every query
  on a tracked block answers by its base and length, deleting it clears its shadows.
\<close>

section \<open>Shadow areas\<close>

text \<open>The two shadow areas of a block do not meet.\<close>

lemma areas_apart:
  assumes "layout_ok L" and "static_block L p n" and "i < n" and "j < n"
  shows "PRIMARY_SHADOW L p + of_nat i \<noteq> SECONDARY_SHADOW L p + of_nat j"
  using static_shadow_inj(3) [OF assms(1) static_block_on(1) [OF assms(2)] static_block_on(1) [OF assms(2)], of i j]
    static_block_shadow(1) [OF assms(1,2), of i] static_block_shadow(2) [OF assms(1,2), of j] assms(3,4)
  by simp

lemma static_start:
  assumes "layout_ok L" and "static_block L p n"
  shows "PRIMARY_SHADOW L p \<noteq> 0" and "SECONDARY_SHADOW L p \<noteq> 0"
  using static_shadow_on(3,4) [OF assms(1) static_block_on(1) [OF assms(2), of 0]] by simp_all

text \<open>What an operation on the block at \<open>p\<close> may change: the shadow areas of its \<open>n\<close> bytes.\<close>

definition only_shadow :: "memory_layout \<Rightarrow> u64 \<Rightarrow> nat \<Rightarrow> mem \<Rightarrow> mem \<Rightarrow> bool" where
  "only_shadow L p n m m' \<longleftrightarrow>
     (\<forall>a. m' a \<noteq> m a \<longrightarrow> unat (a - PRIMARY_SHADOW L p) < n \<or> unat (a - SECONDARY_SHADOW L p) < n)"

section \<open>Storing a block\<close>

lemma bits_zero_iff: "m a = push_bit 2 (of_nat c) \<Longrightarrow> c < 64 \<Longrightarrow> \<not> bit (m a :: u8) 0 \<and> \<not> bit (m a) 1"
  using code_byte by simp

text \<open>Memories that hold the freshly written encoding, flags clear.\<close>

definition fresh_encoding :: "memory_layout \<Rightarrow> u64 \<Rightarrow> nat \<Rightarrow> mem \<Rightarrow> bool" where
  "fresh_encoding L p n m \<longleftrightarrow>
     (\<forall>i<n. m (PRIMARY_SHADOW L p + of_nat i) = push_bit 2 (of_nat (scode n i))) \<and>
     (n > 8 \<longrightarrow> (\<forall>y < 8 * (n div 8). m (SECONDARY_SHADOW L p + of_nat y) = sec_byte (of_nat n) y))"

lemma fresh_encoded:
  assumes "fresh_encoding L p n m" and "0 < n" and "n < 2 ^ 31"
  shows "encoded m (PRIMARY_SHADOW L p) (SECONDARY_SHADOW L p) n"
  unfolding encoded_def
proof (intro conjI allI impI)
  fix i assume "i < n"
  then show "unat (drop_bit 2 (m (PRIMARY_SHADOW L p + of_nat i))) = scode n i"
    using assms(1,2) scode_bound [of n i] by (simp add: fresh_encoding_def code_byte)
next
  fix q assume n: "8 < n" and q: "q < n div 8"
  have y: "m (SECONDARY_SHADOW L p + of_nat (8 * q + r)) = sec_byte (of_nat n) (8 * q + r)" if "r < 8" for r
  proof -
    have "8 * q + r < 8 * (n div 8)" using q that by linarith
    then show ?thesis using assms(1) n unfolding fresh_encoding_def by blast
  qed
  have md: "(8 * q + r) mod 8 = r" if "r < 8" for r using that by simp
  show "load32 m (SECONDARY_SHADOW L p + of_nat (8 * q)) = of_nat n"
  proof (rule load32_bytes)
    fix r :: nat assume r: "r < 4"
    then show "m (SECONDARY_SHADOW L p + of_nat (8 * q) + of_nat r) = ucast (drop_bit (8 * r) (ucast (of_nat n :: u32) :: u64))"
      using y [of r] md [of r] by (simp add: sec_byte_def add.assoc unsigned_of_nat)
  qed
  show "load32 m (SECONDARY_SHADOW L p + of_nat (8 * q) + 4) = of_nat (8 * q)"
  proof (rule load32_bytes)
    fix r :: nat assume r: "r < 4"
    have e: "SECONDARY_SHADOW L p + of_nat (8 * q) + 4 + of_nat r = SECONDARY_SHADOW L p + of_nat (8 * q + (r + 4))"
      by simp
    show "m (SECONDARY_SHADOW L p + of_nat (8 * q) + 4 + of_nat r) = ucast (drop_bit (8 * r) (ucast (of_nat (8 * q) :: u32) :: u64))"
      unfolding e using y [of "r + 4"] md [of "r + 4"] r by (simp add: sec_byte_def del: of_nat_add of_nat_mult)
  qed
qed

lemma alloca_short:
  assumes "layout_ok (layout s)" and "static_block (layout s) p n" and "0 < n" and "n \<le> 8" and "\<not> temporal bld"
  defines "m' \<equiv> short_loop (PRIMARY_SHADOW (layout s) p) (short_offsets_base ! n) n 0 (seg_mem s)"
  shows "shadow_alloca bld p (of_nat n) s = Some (s\<lparr>seg_mem := m'\<rparr>)"
    and "fresh_encoding (layout s) p n m'" and "only_shadow (layout s) p n (seg_mem s) m'"
proof -
  let ?prim = "PRIMARY_SHADOW (layout s) p"
  have un: "unat (of_nat n :: u64) = n" using assms(4) by (intro unat_of_nat_64) simp
  have "n < length short_offsets_base" using assms(4) by (simp add: short_offsets_base_def)
  then have "nth_opt short_offsets_base (unat (of_nat n :: u64)) = Some (short_offsets_base ! n)"
    using un by (simp add: nth_opt_def)
  moreover have "\<not> IS_LONG_BLOCK (of_nat n)"
    using un assms(4) by (simp add: IS_LONG_BLOCK_def LONG_BLOCK_def word_less_nat_alt)
  moreover have "of_nat n \<noteq> (0 :: u64)" using un assms(3) by auto
  ultimately show "shadow_alloca bld p (of_nat n) s = Some (s\<lparr>seg_mem := m'\<rparr>)"
    using static_start [OF assms(1,2)] assms(5) un by (simp add: shadow_alloca_def shadow_ptr_def m'_def)
  have at: "m' a = (if unat (a - ?prim) < n then push_bit 2 (of_nat (short_offsets_base ! n + unat (a - ?prim)))
      else seg_mem s a)" for a
    using short_loop_at [of 0 n ?prim "short_offsets_base ! n" "seg_mem s" a] assms(4) by (simp add: m'_def)
  have "m' (?prim + of_nat i) = push_bit 2 (of_nat (scode n i))" if "i < n" for i
  proof -
    have "unat (of_nat i :: u64) = i" using that assms(4) by (intro unat_of_nat_64) simp
    then show ?thesis using at [of "?prim + of_nat i"] that assms(4) by (simp add: scode_def)
  qed
  then show "fresh_encoding (layout s) p n m'" using assms(4) by (simp add: fresh_encoding_def)
  show "only_shadow (layout s) p n (seg_mem s) m'" using at by (auto simp: only_shadow_def)
qed

text \<open>The memory after the loops for a long block.\<close>

definition long_mem :: "u64 \<Rightarrow> u64 \<Rightarrow> nat \<Rightarrow> mem \<Rightarrow> mem" where
  "long_mem prim sec n m =
     fold (rem_step prim) [8 * (n div 8)..<n] (fold (long_step prim sec (of_nat n)) [0..<n div 8] m)"

lemma long_loops:
  assumes "8 < n" and "n < 2 ^ 31"
  shows "do { m \<leftarrow> long_loop prim sec (of_nat n) (ucast (LONG_BLOCK_BOUNDARY (of_nat n))) 0 0 0 m;
              remainder_loop prim (of_nat n) (ucast (LONG_BLOCK_BOUNDARY (of_nat n))) m }
    = Some (long_mem prim sec n m)"
proof -
  have un: "unat (of_nat n :: u64) = n" using assms(2) by (intro unat_of_nat_64) simp
  have "n - n mod 8 = 8 * (n div 8)" by (simp add: minus_mod_eq_mult_div)
  moreover have "unat (LONG_BLOCK_BOUNDARY (of_nat n)) = n - n mod 8"
    using un by (simp add: LONG_BLOCK_BOUNDARY_def LONG_BLOCK_def unat_sub_64 word_le_nat_alt unat_mod)
  ultimately have b: "(ucast (LONG_BLOCK_BOUNDARY (of_nat n)) :: u32) = of_nat (8 * (n div 8))"
    by (metis of_nat_unat)
  have l: "8 * (0 + n div 8) < 2 ^ 32" and r: "8 * (n div 8) + n mod 8 = n" using assms(2) by auto
  have "long_loop prim sec (of_nat n) (of_nat (8 * (n div 8))) 0 0 0 m
      = Some (fold (long_step prim sec (of_nat n)) [0..<n div 8] m)"
    using long_loop_steps [OF l, of prim sec "of_nat n" m] by simp
  moreover have "remainder_loop prim (of_nat n) (of_nat (8 * (n div 8))) m' = Some (fold (rem_step prim) [8 * (n div 8)..<n] m')"
    for m' using assms(2) by (intro remainder_loop_steps [OF r]) simp
  ultimately show ?thesis unfolding b long_mem_def by simp
qed

lemma long_mem_at:
  assumes "n < 2 ^ 31" and "\<And>i j. i < n \<Longrightarrow> j < n \<Longrightarrow> prim + of_nat i \<noteq> sec + of_nat j"
  shows "long_mem prim sec n m a =
    (if 8 * (n div 8) \<le> unat (a - prim) \<and> unat (a - prim) < n then push_bit 2 (of_nat (56 + unat (a - prim) mod 8))
     else if unat (a - prim) < 8 * (n div 8) then push_bit 2 (of_nat (48 + unat (a - prim) mod 8))
     else if unat (a - sec) < 8 * (n div 8) then sec_byte (of_nat n) (unat (a - sec))
     else m a)"
proof -
  have le: "8 * (n div 8) \<le> n" by simp
  have "fold (long_step prim sec (of_nat n)) [0..<n div 8] m a =
    (if unat (a - prim) < 8 * (n div 8) then push_bit 2 (of_nat (48 + unat (a - prim) mod 8))
     else if unat (a - sec) < 8 * (n div 8) then sec_byte (of_nat n) (unat (a - sec))
     else m a)"
    using assms le by (intro long_fold_at) auto
  then show ?thesis using rem_fold_at [OF le, of prim _ a] assms(1) by (simp add: long_mem_def)
qed

lemma alloca_long:
  assumes "layout_ok (layout s)" and "static_block (layout s) p n" and "8 < n" and "n < 2 ^ 31" and "\<not> temporal bld"
  defines "m' \<equiv> long_mem (PRIMARY_SHADOW (layout s) p) (SECONDARY_SHADOW (layout s) p) n (seg_mem s)"
  shows "shadow_alloca bld p (of_nat n) s = Some (s\<lparr>seg_mem := m'\<rparr>)"
    and "fresh_encoding (layout s) p n m'" and "only_shadow (layout s) p n (seg_mem s) m'"
proof -
  let ?prim = "PRIMARY_SHADOW (layout s) p" and ?sec = "SECONDARY_SHADOW (layout s) p"
  have un: "unat (of_nat n :: u64) = n" using assms(4) by (intro unat_of_nat_64) simp
  have "IS_LONG_BLOCK (of_nat n)"
    using un assms(3) by (simp add: IS_LONG_BLOCK_def LONG_BLOCK_def word_less_nat_alt)
  moreover have "of_nat n \<noteq> (0 :: u64)" using un assms(3) by auto
  ultimately show "shadow_alloca bld p (of_nat n) s = Some (s\<lparr>seg_mem := m'\<rparr>)"
    using static_start [OF assms(1,2)] assms(5) long_loops [OF assms(3,4), of ?prim ?sec "seg_mem s"]
    by (simp add: shadow_alloca_def shadow_ptr_def m'_def)
  note apart = areas_apart [OF assms(1,2)]
  note at = long_mem_at [OF assms(4), of ?prim ?sec "seg_mem s", OF apart, folded m'_def]
  have small: "unat (of_nat i :: u64) = i" if "i < n" for i using that assms(4) by (intro unat_of_nat_64) simp
  have bd: "n - n mod 8 = 8 * (n div 8)" by (simp add: minus_mod_eq_mult_div)
  have "m' (?prim + of_nat i) = push_bit 2 (of_nat (scode n i))" if "i < n" for i
    using at [of "?prim + of_nat i"] that small [OF that] assms(3) by (auto simp: scode_def bd)
  moreover have "m' (?sec + of_nat y) = sec_byte (of_nat n) y" if "y < 8 * (n div 8)" for y
  proof -
    have y: "y < n" using that by linarith
    have "\<not> unat (?sec + of_nat y - ?prim) < n" using apart [OF _ y, of "unat (?sec + of_nat y - ?prim)"] by auto
    then show ?thesis using at [of "?sec + of_nat y"] that small [OF y] by auto
  qed
  ultimately show "fresh_encoding (layout s) p n m'" by (simp add: fresh_encoding_def)
  have "8 * (n div 8) \<le> n" by simp
  then show "only_shadow (layout s) p n (seg_mem s) m'"
    unfolding only_shadow_def using at by (auto split: if_splits)
qed

text \<open>Both cases in one: what \<^verbatim>\<open>shadow_alloca\<close> does for a block of at least one byte.\<close>

lemma alloca_block:
  assumes "layout_ok (layout s)" and "static_block (layout s) p n" and "0 < n" and "n < 2 ^ 31" and "\<not> temporal bld"
  obtains m' where "shadow_alloca bld p (of_nat n) s = Some (s\<lparr>seg_mem := m'\<rparr>)"
    and "fresh_encoding (layout s) p n m'" and "only_shadow (layout s) p n (seg_mem s) m'"
  using alloca_short [OF assms(1,2,3) _ assms(5)] alloca_long [OF assms(1,2) _ assms(4,5)]
  by (cases "n \<le> 8") (auto simp: not_le)

section \<open>Tracked blocks\<close>

definition seg_tracked :: "'a seg_state_scheme \<Rightarrow> u64 \<Rightarrow> nat \<Rightarrow> bool" where
  "seg_tracked s p n \<longleftrightarrow> static_block (layout s) p n \<and> 0 < n \<and> n < 2 ^ 31 \<and>
     encoded (seg_mem s) (PRIMARY_SHADOW (layout s) p) (SECONDARY_SHADOW (layout s) p) n"

lemma seg_trackedD:
  assumes "seg_tracked s p n"
  shows "static_block (layout s) p n" and "0 < n" and "n < 2 ^ 31"
    and "encoded (seg_mem s) (PRIMARY_SHADOW (layout s) p) (SECONDARY_SHADOW (layout s) p) n"
  using assms by (simp_all add: seg_tracked_def)

text \<open>Decoding any byte of a tracked block.\<close>

lemma decode_tracked:
  assumes "layout_ok (layout s)" and "seg_tracked s p n" and "i < n"
  defines "b \<equiv> seg_mem s (PRIMARY_SHADOW (layout s) (p + of_nat i))"
  shows "b \<noteq> 0" and "static_decode (p + of_nat i) b s = Some (of_nat n, of_nat i)"
proof -
  note t = seg_trackedD [OF assms(2)]
  have c: "unat (drop_bit 2 b) = scode n i"
    using t(4) assms(3) static_block_shadow(1) [OF assms(1) t(1), of i] by (simp add: encoded_def b_def)
  then show "b \<noteq> 0" using scode_bound [OF t(2) assms(3)] by auto
  show "static_decode (p + of_nat i) b s = Some (of_nat n, of_nat i)"
  proof (cases "n \<le> 8")
    case True
    then show ?thesis
      using short_decode [OF t(2) True assms(3)]
      by (simp add: static_decode_def c LONG_BLOCK_INDEX_START_def nth_opt_def short_offsets_def short_lengths_def)
  next
    case False
    define o' where "o' = scode n i - 48"
    define q where "q = (i - o') div 8"
    have n: "8 < n" using False by simp
    note sg = segment_of_byte [OF n assms(3), folded o'_def]
    have iq: "i - o' = 8 * q" using sg(2) by (auto simp: q_def)
    have i: "i = 8 * q + o'" using iq sg(1) by linarith
    have ad: "p + of_nat i - of_nat o' = p + of_nat (8 * q)" unfolding i by simp
    have sec: "SECONDARY_SHADOW (layout s) (p + of_nat (8 * q)) = SECONDARY_SHADOW (layout s) p + of_nat (8 * q)"
      using i assms(3) by (intro static_block_shadow(2) [OF assms(1) t(1)]) simp
    have "SECONDARY_SHADOW (layout s) (p + of_nat (8 * q)) \<noteq> 0"
      using static_block_on(1) [OF t(1), of "8 * q"] i assms(3) by (intro static_shadow_on(4) [OF assms(1)]) simp
    moreover have "load32 (seg_mem s) (SECONDARY_SHADOW (layout s) p + of_nat (8 * q)) = of_nat n"
      "load32 (seg_mem s) (SECONDARY_SHADOW (layout s) p + of_nat (8 * q) + 4) = of_nat (8 * q)"
      using t(4) n sg(3) by (simp_all add: encoded_def q_def del: of_nat_mult)
    moreover have "(ucast (of_nat n :: u32) :: u64) = of_nat n" "(ucast (of_nat (8 * q) :: u32) :: u64) = of_nat (8 * q)"
      using ucast_of_nat_32 [of n] ucast_of_nat_32 [of "8 * q"] t(3) i assms(3) by (simp_all del: of_nat_mult)
    moreover have "(of_nat (8 * q) :: u64) + of_nat o' = of_nat i" unfolding i by simp
    moreover have "48 \<le> scode n i" using long_code [OF n] by simp
    ultimately show ?thesis
      unfolding static_decode_def Let_def c LONG_BLOCK_INDEX_START_def o'_def [symmetric] ad sec
      by (simp add: shadow_ptr_def sec del: of_nat_mult)
  qed
qed

section \<open>The representation\<close>

text \<open>
  The static part of the state represents the map \<open>B\<close> of the tracked blocks: the blocks are
  encoded, and the shadow of every other byte is zero.
\<close>

definition seg_rep :: "'a seg_state_scheme \<Rightarrow> block_map \<Rightarrow> bool" where
  "seg_rep s B \<longleftrightarrow> layout_ok (layout s) \<and> separate B \<and> (\<forall>p n. B p = Some n \<longrightarrow> seg_tracked s p n) \<and>
     (\<forall>a. IS_ON_STATIC (layout s) a \<longrightarrow> \<not> covered B a \<longrightarrow> seg_mem s (PRIMARY_SHADOW (layout s) a) = 0)"

definition seg_inits :: "'a seg_state_scheme \<Rightarrow> u64 set" where
  "seg_inits s = {a. IS_ON_STATIC (layout s) a \<and> bit (seg_mem s (PRIMARY_SHADOW (layout s) a)) INIT_BIT}"

lemma seg_repD:
  assumes "seg_rep s B"
  shows "layout_ok (layout s)" and "separate B" and "B p = Some n \<Longrightarrow> seg_tracked s p n"
    and "IS_ON_STATIC (layout s) a \<Longrightarrow> \<not> covered B a \<Longrightarrow> seg_mem s (PRIMARY_SHADOW (layout s) a) = 0"
  using assms by (auto simp: seg_rep_def)

text \<open>Every address of a static block has its own position.\<close>

lemma inside_static:
  assumes "static_block L p n" and "inside p n a"
  shows "IS_ON_STATIC L a" and "a = p + of_nat (unat (a - p))" and "unat (a - p) < n"
  using static_block_on(1) [OF assms(1), of "unat (a - p)"] assms(2) by (simp_all add: inside_def)

lemma covered_static:
  assumes "seg_rep s B" and "covered B a"
  shows "IS_ON_STATIC (layout s) a"
proof -
  obtain p n where "B p = Some n" "inside p n a" using assms(2) by (auto simp: covered_def)
  then show ?thesis using inside_static(1) [OF seg_trackedD(1) [OF seg_repD(3) [OF assms(1)]]] by blast
qed

text \<open>An operation on the block at \<open>p\<close> leaves the shadows of the other addresses alone.\<close>

lemma shadow_frame:
  assumes L: "layout_ok L" and p: "static_block L p n" and ch: "only_shadow L p n m m'"
    and a: "IS_ON_STATIC L a" and out: "\<not> inside p n a"
  shows "m' (PRIMARY_SHADOW L a) = m (PRIMARY_SHADOW L a)" and "m' (SECONDARY_SHADOW L a) = m (SECONDARY_SHADOW L a)"
proof -
  have ne: "x \<noteq> PRIMARY_SHADOW L p + of_nat i" "x \<noteq> SECONDARY_SHADOW L p + of_nat i"
    if x: "x = PRIMARY_SHADOW L a \<or> x = SECONDARY_SHADOW L a" and i: "i < n" for x i
  proof -
    have on: "IS_ON_STATIC L (p + of_nat i)" using static_block_on(1) [OF p] i by simp
    have sh: "PRIMARY_SHADOW L (p + of_nat i) = PRIMARY_SHADOW L p + of_nat i"
      "SECONDARY_SHADOW L (p + of_nat i) = SECONDARY_SHADOW L p + of_nat i"
      using static_block_shadow [OF L p] i by simp_all
    have "unat (p + of_nat i) = unat p + i" using static_block_on(2) [OF p] i by simp
    then have "i < 2 ^ 64" using unat_lt_64 [of "p + of_nat i"] by linarith
    then have "a \<noteq> p + of_nat i" using out i unfolding inside_def by (auto simp: unat_of_nat_64)
    then show "x \<noteq> PRIMARY_SHADOW L p + of_nat i" "x \<noteq> SECONDARY_SHADOW L p + of_nat i"
      using x static_shadow_inj [OF L a on] static_shadow_inj(3) [OF L on a] unfolding sh by auto
  qed
  have "m' x = m x" if "x = PRIMARY_SHADOW L a \<or> x = SECONDARY_SHADOW L a" for x
  proof (rule ccontr)
    assume "m' x \<noteq> m x"
    then have "unat (x - PRIMARY_SHADOW L p) < n \<or> unat (x - SECONDARY_SHADOW L p) < n"
      using ch by (simp add: only_shadow_def)
    then show False using ne [OF that, of "unat (x - PRIMARY_SHADOW L p)"] ne [OF that, of "unat (x - SECONDARY_SHADOW L p)"]
      by auto
  qed
  then show "m' (PRIMARY_SHADOW L a) = m (PRIMARY_SHADOW L a)" "m' (SECONDARY_SHADOW L a) = m (SECONDARY_SHADOW L a)" by blast+
qed

lemma encoded_cong:
  assumes "encoded m prim sec n"
    and "\<And>i. i < n \<Longrightarrow> drop_bit 2 (m' (prim + of_nat i)) = drop_bit 2 (m (prim + of_nat i))"
    and "\<And>i. i < n \<Longrightarrow> m' (sec + of_nat i) = m (sec + of_nat i)"
  shows "encoded m' prim sec n"
proof -
  have "load_le 4 m' (sec + of_nat k) = load_le 4 m (sec + of_nat k)" if "k + 4 \<le> n" for k
  proof (rule load_le_cong)
    fix i :: nat assume "i < 4"
    then show "m' (sec + of_nat k + of_nat i) = m (sec + of_nat k + of_nat i)"
      using assms(3) [of "k + i"] that by (simp add: add.assoc)
  qed
  moreover have "8 * q + 8 \<le> n" if "q < n div 8" for q using that by linarith
  ultimately have "load_le 4 m' (sec + of_nat (8 * q)) = load_le 4 m (sec + of_nat (8 * q)) \<and>
      load_le 4 m' (sec + of_nat (8 * q) + 4) = load_le 4 m (sec + of_nat (8 * q) + 4)" if "q < n div 8" for q
  proof -
    assume ld: "\<And>k. k + 4 \<le> n \<Longrightarrow> load_le 4 m' (sec + of_nat k) = load_le 4 m (sec + of_nat k)"
      and le: "\<And>q. q < n div 8 \<Longrightarrow> 8 * q + 8 \<le> n"
    have "sec + of_nat (8 * q) + 4 = sec + of_nat (8 * q + 4)" by simp
    then show ?thesis using ld [of "8 * q"] ld [of "8 * q + 4"] le [OF that] by (simp add: add.assoc)
  qed
  then show ?thesis using assms(1,2) by (simp add: encoded_def)
qed

lemma tracked_frame:
  assumes L: "layout_ok (layout s)" and p: "static_block (layout s) p n"
    and ch: "only_shadow (layout s) p n (seg_mem s) m'"
    and q: "seg_tracked s q k" and ap: "\<And>a. inside q k a \<Longrightarrow> \<not> inside p n a"
  shows "seg_tracked (s\<lparr>seg_mem := m'\<rparr>) q k"
proof -
  note t = seg_trackedD [OF q]
  have u: "inside q k (q + of_nat i)" if "i < k" for i
    using that t(3) by (simp add: inside_def unat_of_nat_64)
  have "encoded m' (PRIMARY_SHADOW (layout s) q) (SECONDARY_SHADOW (layout s) q) k"
  proof (rule encoded_cong [OF t(4)])
    fix i assume i: "i < k"
    note fr = shadow_frame [OF L p ch static_block_on(1) [OF t(1)] ap [OF u [OF i]]]
    note sh = static_block_shadow [OF L t(1), of i]
    show "drop_bit 2 (m' (PRIMARY_SHADOW (layout s) q + of_nat i)) = drop_bit 2 (seg_mem s (PRIMARY_SHADOW (layout s) q + of_nat i))"
      "m' (SECONDARY_SHADOW (layout s) q + of_nat i) = seg_mem s (SECONDARY_SHADOW (layout s) q + of_nat i)"
      using fr sh i by simp_all
  qed
  then show ?thesis using t by (simp add: seg_tracked_def)
qed

end
