(* ===== verification/Segment_Tracker.thy ===== *)
theory Segment_Tracker
  imports Segment_Static_Correct
begin

text \<open>
  The segment model implements the interface of \<open>Memory_Model\<close> on stack, global and thread-local
  memory: every operation against the map of tracked blocks and the set of initialized bytes.
\<close>

section \<open>Store\<close>

lemma seg_rep_store:
  assumes rep: "seg_rep s B" and p: "static_block (layout s) p n" "0 < n" "n < 2 ^ 31"
    and ap: "apart_from B p n" and bld: "\<not> temporal bld"
  obtains m' where "shadow_alloca bld p (of_nat n) s = Some (s\<lparr>seg_mem := m'\<rparr>)"
    and "seg_rep (s\<lparr>seg_mem := m'\<rparr>) (B(p \<mapsto> n))" and "seg_inits (s\<lparr>seg_mem := m'\<rparr>) = seg_inits s"
proof -
  note r = seg_repD [OF rep]
  obtain m' where m': "shadow_alloca bld p (of_nat n) s = Some (s\<lparr>seg_mem := m'\<rparr>)"
      "fresh_encoding (layout s) p n m'" "only_shadow (layout s) p n (seg_mem s) m'"
    using alloca_block [OF r(1) p bld] by blast
  have tr: "seg_tracked (s\<lparr>seg_mem := m'\<rparr>) q k" if "(B(p \<mapsto> n)) q = Some k" for q k
  proof (cases "q = p")
    case True
    then show ?thesis using that p fresh_encoded [OF m'(2) p(2,3)] by (simp add: seg_tracked_def)
  next
    case False
    then have q: "B q = Some k" using that by simp
    show ?thesis using tracked_frame [OF r(1) p(1) m'(3) r(3) [OF q]] apart_fromD [OF ap q] by blast
  qed
  have fr: "m' (PRIMARY_SHADOW (layout s) a) = seg_mem s (PRIMARY_SHADOW (layout s) a)"
    if "IS_ON_STATIC (layout s) a" "\<not> inside p n a" for a
    using shadow_frame(1) [OF r(1) p(1) m'(3) that] .
  have "B p = None" using apart_new [OF ap p(2)] seg_trackedD(2) [OF r(3)] by blast
  then have "seg_rep (s\<lparr>seg_mem := m'\<rparr>) (B(p \<mapsto> n))"
    unfolding seg_rep_def using r(1) separate_insert [OF r(2) ap] tr fr r(4) by (simp add: covered_insert)
  moreover have "a \<in> seg_inits (s\<lparr>seg_mem := m'\<rparr>) \<longleftrightarrow> a \<in> seg_inits s" for a
  proof (cases "inside p n a")
    case True
    note a = inside_static [OF p(1) True]
    have "m' (PRIMARY_SHADOW (layout s) a) = push_bit 2 (of_nat (scode n (unat (a - p))))"
      using m'(2) a(3) static_block_shadow(1) [OF r(1) p(1), of "unat (a - p)"]
      by (auto simp: fresh_encoding_def)
    then have "\<not> bit (m' (PRIMARY_SHADOW (layout s) a)) INIT_BIT" by (simp add: INIT_BIT_def bit_push_bit_iff)
    moreover have "seg_mem s (PRIMARY_SHADOW (layout s) a) = 0"
      using r(4) [OF a(1)] ap True by (auto simp: apart_from_def)
    ultimately show ?thesis by (simp add: seg_inits_def)
  next
    case False
    then show ?thesis using fr [of a] by (auto simp: seg_inits_def)
  qed
  ultimately show thesis using that m'(1) by blast
qed

section \<open>Queries\<close>

lemma rep_decode:
  assumes "seg_rep s B" and "B p = Some n" and "inside p n a"
  shows "IS_ON_STATIC (layout s) a" and "PRIMARY_SHADOW (layout s) a \<noteq> 0"
    and "seg_mem s (PRIMARY_SHADOW (layout s) a) \<noteq> 0"
    and "static_decode a (seg_mem s (PRIMARY_SHADOW (layout s) a)) s = Some (of_nat n, a - p)"
proof -
  note r = seg_repD [OF assms(1)] and t = seg_trackedD [OF seg_repD(3) [OF assms(1,2)]]
  note a = inside_static [OF t(1) assms(3)]
  show "IS_ON_STATIC (layout s) a" by (fact a(1))
  then show "PRIMARY_SHADOW (layout s) a \<noteq> 0" using static_shadow_on(3) [OF r(1)] by blast
  show "seg_mem s (PRIMARY_SHADOW (layout s) a) \<noteq> 0"
    "static_decode a (seg_mem s (PRIMARY_SHADOW (layout s) a)) s = Some (of_nat n, a - p)"
    using decode_tracked [OF r(1) r(3) [OF assms(2)] a(3)] by simp_all
qed

text \<open>Base address, length and offset of any byte of a tracked block.\<close>

lemma rep_info:
  assumes "seg_rep s B" and "B p = Some n" and "inside p n a"
  shows "static_info a q s = Some (case q of BaseQ \<Rightarrow> p | OffsetQ \<Rightarrow> a - p | LengthQ \<Rightarrow> of_nat n)"
proof -
  note d = rep_decode [OF assms]
  have "unat (a - p) < 2 ^ 32"
    using assms(3) seg_trackedD(3) [OF seg_repD(3) [OF assms(1,2)]] by (simp add: inside_def)
  then have "(ucast (ucast (a - p) :: u32) :: u64) = a - p"
    using ucast_of_nat_32 [of "unat (a - p)"] by (simp add: of_nat_unat)
  then show ?thesis using d(2-4) by (auto simp: static_info_def shadow_ptr_def split: query.split)
qed

lemma rep_predicate:
  assumes "seg_rep s B" and "B p = Some n" and "inside p n a"
  shows "predicate a q s = Some (Inr (case q of BaseQ \<Rightarrow> p | OffsetQ \<Rightarrow> a - p | LengthQ \<Rightarrow> of_nat n))"
  using rep_info [OF assms, of q] rep_decode(1) [OF assms] static_not_heap [OF seg_repD(1) [OF assms(1)]]
  by (simp add: predicate_def TRY_SEGMENT_def TRY_SEGMENT_WEAK_def)

lemma no_wrap_le: "unat x + sz < 2 ^ 64 \<Longrightarrow> n < 2 ^ 64 \<Longrightarrow> x + of_nat sz \<le> (of_nat n :: u64) \<longleftrightarrow> unat x + sz \<le> n" for x :: u64
  by (simp add: word_le_nat_alt unat_add_64 unat_of_nat_64)

lemma static_belongs:
  assumes "static_block L p n"
  shows "BELONGS a p (of_nat n) \<longleftrightarrow> inside p n a"
proof -
  have e: "unat (p + of_nat n) = unat p + n" using static_block_on(2) [OF assms, of n] by simp
  have "unat (a - p) = unat a - unat p" if "p \<le> a" using that by (rule unat_sub_64)
  moreover have "\<not> unat (a - p) < n" if "\<not> p \<le> a"
  proof -
    have "unat (a - p) = 2 ^ 64 + unat a - unat p" using that unat_lt_64 [of p] by (simp add: unat_sub_if' word_le_nat_alt)
    then show ?thesis using e unat_lt_64 [of "p + of_nat n"] by linarith
  qed
  ultimately show ?thesis
    by (cases "p \<le> a") (auto simp: BELONGS_def inside_def word_less_nat_alt word_le_nat_alt e)
qed

lemma rep_static_allocated:
  assumes rep: "seg_rep s B" and on: "IS_ON_STATIC (layout s) ptr" and bld: "\<not> weak_validity bld"
    and sz: "sz < 2 ^ 63"
  shows "static_allocated bld ptr (of_nat sz) base s = Some (accessible B ptr sz base)"
proof (cases "covered B ptr")
  case True
  then obtain p n where p: "B p = Some n" "inside p n ptr" by (auto simp: covered_def)
  note d = rep_decode [OF rep p] and t = seg_trackedD [OF seg_repD(3) [OF rep p(1)]]
  have "unat (ptr - p) < n" using p(2) by (simp add: inside_def)
  then have "ptr - p + of_nat sz \<le> of_nat n \<longleftrightarrow> unat (ptr - p) + sz \<le> n"
    using no_wrap_le [of "ptr - p" sz n] sz t(3) by simp
  moreover have "ptr - (ptr - p) = p" by simp
  ultimately show ?thesis
    using d(2-4) p(2) bld static_belongs [OF t(1), of base] accessible_iff [OF seg_repD(2) [OF rep] p, of sz base]
    by (auto simp: static_allocated_def shadow_ptr_def)
next
  case False
  moreover have "PRIMARY_SHADOW (layout s) ptr \<noteq> 0" using static_shadow_on(3) [OF seg_repD(1) [OF rep] on] .
  ultimately show ?thesis
    using seg_repD(4) [OF rep on False] accessible_covered by (auto simp: static_allocated_def shadow_ptr_def)
qed

lemma rep_allocated:
  assumes "seg_rep s B" and "\<not> IS_ON_HEAP (layout s) ptr" and "\<not> weak_validity bld" and "sz < 2 ^ 63"
  shows "allocated_seg bld ptr (of_nat sz) base s = Some (accessible B ptr sz base)"
proof (cases "IS_ON_STATIC (layout s) ptr")
  case True
  then show ?thesis
    using rep_static_allocated [OF assms(1) True assms(3,4)] assms(2) by (simp add: allocated_seg_def TRY_SEGMENT_WEAK_def)
next
  case False
  then have "\<not> accessible B ptr sz base" using covered_static [OF assms(1)] accessible_covered by blast
  then show ?thesis using False assms(2) by (simp add: allocated_seg_def TRY_SEGMENT_WEAK_def)
qed

section \<open>Delete\<close>

definition cleared :: "memory_layout \<Rightarrow> u64 \<Rightarrow> nat \<Rightarrow> mem \<Rightarrow> mem" where
  "cleared L p n m = fill_bytes (fill_bytes m (PRIMARY_SHADOW L p) 0 n) (SECONDARY_SHADOW L p) 0 n"

lemma cleared_at:
  "n < 2 ^ 64 \<Longrightarrow> cleared L p n m a =
    (if unat (a - SECONDARY_SHADOW L p) < n \<or> unat (a - PRIMARY_SHADOW L p) < n then 0 else m a)"
  by (simp add: cleared_def fill_bytes_at)

lemma rep_delete:
  assumes rep: "seg_rep s B" and p: "B p = Some n" and bld: "\<not> temporal bld"
  defines "s' \<equiv> s\<lparr>seg_mem := cleared (layout s) p n (seg_mem s)\<rparr>"
  shows "delete_block_seg bld p s = Some (Inr s')" and "seg_rep s' (B(p := None))"
    and "seg_inits s' = seg_inits s - {a. inside p n a}"
proof -
  note r = seg_repD [OF rep] and t = seg_trackedD [OF seg_repD(3) [OF rep p]]
  have ip: "inside p n p" using t(2) by simp
  have n: "n < 2 ^ 64" using t(3) by simp
  then have un: "unat (of_nat n :: u64) = n" by (rule unat_of_nat_64)
  show "delete_block_seg bld p s = Some (Inr s')"
    using rep_predicate [OF rep p ip, of LengthQ] static_start [OF r(1) t(1)] bld un
    by (simp add: delete_block_seg_def shadow_freea_def shadow_ptr_def cleared_def s'_def)
  have ch: "only_shadow (layout s) p n (seg_mem s) (seg_mem s')"
    using n by (auto simp: only_shadow_def s'_def cleared_at)
  have zero: "seg_mem s' (PRIMARY_SHADOW (layout s) a) = 0" if "inside p n a" for a
    using inside_static [OF t(1) that] static_block_shadow(1) [OF r(1) t(1), of "unat (a - p)"] n
    by (simp add: s'_def cleared_at)
  have keep: "seg_mem s' (PRIMARY_SHADOW (layout s) a) = seg_mem s (PRIMARY_SHADOW (layout s) a)"
    if "IS_ON_STATIC (layout s) a" "\<not> inside p n a" for a
    using shadow_frame(1) [OF r(1) t(1) ch that] .
  have L: "layout s' = layout s" by (simp add: s'_def)
  have tr: "seg_tracked s' q k" if q: "q \<noteq> p" "B q = Some k" for q k
    unfolding s'_def
  proof (rule tracked_frame [OF r(1) t(1) _ r(3) [OF q(2)]])
    show "only_shadow (layout s) p n (seg_mem s) (cleared (layout s) p n (seg_mem s))" using ch by (simp add: s'_def)
    show "\<not> inside p n a" if "inside q k a" for a using separateD [OF r(2) q(2) p that] q(1) by blast
  qed
  show "seg_rep s' (B(p := None))"
    unfolding seg_rep_def L
  proof (intro conjI allI impI)
    show "seg_tracked s' q k" if "(B(p := None)) q = Some k" for q k using tr that by (auto split: if_splits)
    show "seg_mem s' (PRIMARY_SHADOW (layout s) a) = 0"
      if "IS_ON_STATIC (layout s) a" "\<not> covered (B(p := None)) a" for a
      using that r(4) zero keep unfolding covered_delete [OF r(2) p] by metis
  qed (use r(1) separate_delete [OF r(2)] in auto)
  have "a \<in> seg_inits s' \<longleftrightarrow> a \<in> seg_inits s - {a. inside p n a}" for a
    using zero [of a] keep [of a] by (cases "inside p n a") (auto simp: seg_inits_def L)
  then show "seg_inits s' = seg_inits s - {a. inside p n a}" by blast
qed

section \<open>Initialization\<close>

text \<open>The bytes of an access inside a block have consecutive shadows.\<close>

lemma accessible_block:
  assumes "seg_rep s B" and "accessible B ptr sz ptr"
  obtains p n where "B p = Some n" and "inside p n ptr" and "unat (ptr - p) + sz \<le> n" and "static_block (layout s) ptr sz"
    and "\<And>a. inside ptr sz a \<Longrightarrow> inside p n a"
proof -
  obtain p n where p: "B p = Some n" "inside p n ptr" "unat (ptr - p) + sz \<le> n"
    using assms(2) by (auto simp: accessible_def)
  note t = seg_trackedD [OF seg_repD(3) [OF assms(1) p(1)]]
  have u: "unat ptr = unat p + unat (ptr - p)"
    using static_block_on(2) [OF t(1), of "unat (ptr - p)"] p(3) by simp
  obtain seg where seg: "seg \<in> {application (lay_stack (layout s)), application (lay_global (layout s)), application (lay_tls (layout s))}"
      "seg_start seg \<le> p" "unat p + n \<le> unat (seg_end seg)"
    using t(1) by (auto simp: static_block_def)
  moreover have "seg_start seg \<le> ptr" using seg(2) u by (simp add: word_le_nat_alt)
  moreover have "unat ptr + sz \<le> unat (seg_end seg)" using u p(3) seg(3) by linarith
  ultimately have sb: "static_block (layout s) ptr sz" unfolding static_block_def by blast
  have "inside p n a" if "inside ptr sz a" for a
  proof -
    have "a - p = of_nat (unat (a - ptr) + unat (ptr - p))" by simp
    moreover have "unat (a - ptr) + unat (ptr - p) < n" using that p(3) by (simp add: inside_def)
    ultimately show ?thesis using t(3) unfolding inside_def by (simp add: unat_of_nat_64 del: of_nat_add)
  qed
  then show thesis using that p sb by blast
qed

lemma sint_of_small: "sz < 2 ^ 63 \<Longrightarrow> sint (of_nat sz :: u64) = int sz"
  by (simp add: signed_of_nat signed_take_bit_int_eq_self_iff)

definition flagged :: "nat \<Rightarrow> u64 list \<Rightarrow> u64 \<Rightarrow> nat \<Rightarrow> 'a seg_state_scheme \<Rightarrow> 'a seg_state_scheme" where
  "flagged b masks p n s = s\<lparr>seg_mem := set_masks masks p (int n) (seg_mem s)\<rparr>"

text \<open>Setting a flag on an access keeps the blocks and sets the flag on exactly its bytes.\<close>

lemma rep_flagged:
  assumes rep: "seg_rep s B" and acc: "accessible B ptr sz ptr" and mk: "flag_masks b masks" "b < 2"
  defines "s' \<equiv> flagged b masks (PRIMARY_SHADOW (layout s) ptr) sz s"
  shows "seg_rep s' B" and "IS_ON_STATIC (layout s) a \<Longrightarrow>
    bit (seg_mem s' (PRIMARY_SHADOW (layout s) a)) j \<longleftrightarrow>
    bit (seg_mem s (PRIMARY_SHADOW (layout s) a)) j \<or> j = b \<and> inside ptr sz a"
proof -
  note r = seg_repD [OF rep]
  obtain p n where p: "B p = Some n" "static_block (layout s) ptr sz" "unat (ptr - p) + sz \<le> n"
      "\<And>a. inside ptr sz a \<Longrightarrow> inside p n a"
    using accessible_block [OF rep acc] by metis
  have L: "layout s' = layout s" by (simp add: s'_def flagged_def)
  have sz: "sz < 2 ^ 64" using p(3) seg_trackedD(3) [OF r(3) [OF p(1)]] by simp
  have b8: "b < 8" using mk(2) by simp
  have mem: "seg_mem s' x = (if unat (x - PRIMARY_SHADOW (layout s) ptr) < sz then setbit b (seg_mem s x) else seg_mem s x)" for x
    using set_masks_at [OF mk(1) b8 sz] by (simp add: s'_def flagged_def)
  have ch: "only_shadow (layout s) ptr sz (seg_mem s) (seg_mem s')" by (auto simp: only_shadow_def mem)
  have prim: "seg_mem s' (PRIMARY_SHADOW (layout s) a) =
      (if inside ptr sz a then setbit b (seg_mem s (PRIMARY_SHADOW (layout s) a)) else seg_mem s (PRIMARY_SHADOW (layout s) a))"
    if "IS_ON_STATIC (layout s) a" for a
    using shadow_frame(1) [OF r(1) p(2) ch that] inside_static [OF p(2), of a]
      static_block_shadow(1) [OF r(1) p(2), of "unat (a - ptr)"]
    by (cases "inside ptr sz a") (simp_all add: mem)
  have dr: "drop_bit 2 (setbit b x) = drop_bit 2 x" for x :: u8
    using mk(2) by (intro bit_word_eqI) (auto simp: bit_drop_bit_eq)
  have "seg_tracked s' q k" if q: "B q = Some k" for q k
  proof -
    note t = seg_trackedD [OF r(3) [OF q]]
    have "encoded (seg_mem s') (PRIMARY_SHADOW (layout s) q) (SECONDARY_SHADOW (layout s) q) k"
    proof (rule encoded_cong [OF t(4)])
      fix i assume i: "i < k"
      show "drop_bit 2 (seg_mem s' (PRIMARY_SHADOW (layout s) q + of_nat i)) = drop_bit 2 (seg_mem s (PRIMARY_SHADOW (layout s) q + of_nat i))"
        by (simp add: mem dr)
      have on: "IS_ON_STATIC (layout s) (q + of_nat i)" using static_block_on(1) [OF t(1)] i by simp
      have "\<not> unat (SECONDARY_SHADOW (layout s) (q + of_nat i) - PRIMARY_SHADOW (layout s) ptr) < sz"
      proof
        let ?x = "unat (SECONDARY_SHADOW (layout s) (q + of_nat i) - PRIMARY_SHADOW (layout s) ptr)"
        assume x: "?x < sz"
        have "PRIMARY_SHADOW (layout s) (ptr + of_nat ?x) = SECONDARY_SHADOW (layout s) (q + of_nat i)"
          using static_block_shadow(1) [OF r(1) p(2), of ?x] x by simp
        then show False using static_shadow_inj(3) [OF r(1) static_block_on(1) [OF p(2), of ?x] on] x by simp
      qed
      then show "seg_mem s' (SECONDARY_SHADOW (layout s) q + of_nat i) = seg_mem s (SECONDARY_SHADOW (layout s) q + of_nat i)"
        using static_block_shadow(2) [OF r(1) t(1), of i] i by (simp add: mem)
    qed
    then show ?thesis using t by (simp add: seg_tracked_def L)
  qed
  moreover have "\<not> inside ptr sz a" if "\<not> covered B a" for a using p(1,4) that by (auto simp: covered_def)
  ultimately show "seg_rep s' B" unfolding seg_rep_def L using r(1,2,4) prim by auto
  show "bit (seg_mem s' (PRIMARY_SHADOW (layout s) a)) j \<longleftrightarrow>
      bit (seg_mem s (PRIMARY_SHADOW (layout s) a)) j \<or> j = b \<and> inside ptr sz a" if "IS_ON_STATIC (layout s) a"
    using prim [OF that] mk(2) by auto
qed

lemma rep_initialize:
  assumes rep: "seg_rep s B" and acc: "accessible B ptr sz ptr"
  obtains s' where "initialize_seg ptr (of_nat sz) s = Some (Inr s')" and "seg_rep s' B" and "layout s' = layout s"
    and "seg_inits s' = seg_inits s \<union> {a. inside ptr sz a}"
proof -
  note r = seg_repD [OF rep]
  obtain p n where p: "B p = Some n" "inside p n ptr" "unat (ptr - p) + sz \<le> n" "static_block (layout s) ptr sz"
    using accessible_block [OF rep acc] by metis
  note t = seg_trackedD [OF r(3) [OF p(1)]] and on = rep_decode(1,2) [OF rep p(1,2)]
  define s' where "s' = flagged INIT_BIT static_init_masks (PRIMARY_SHADOW (layout s) ptr) sz s"
  have L: "layout s' = layout s" by (simp add: s'_def flagged_def)
  have "sint (of_nat sz :: u64) = int sz" using p(3) t(3) by (intro sint_of_small) simp
  then have "initialize_seg ptr (of_nat sz) s = Some (Inr s')"
    using on static_not_heap [OF r(1) on(1)]
    by (simp add: initialize_seg_def TRY_SEGMENT_def TRY_SEGMENT_WEAK_def initialize_static_region_def shadow_ptr_def
        s'_def flagged_def)
  moreover note fl = rep_flagged [OF rep acc flag_masks_tables(1), folded s'_def]
  have "seg_rep s' B" using fl(1) by (simp add: INIT_BIT_def)
  moreover have "a \<in> seg_inits s' \<longleftrightarrow> a \<in> seg_inits s \<union> {a. inside ptr sz a}" for a
    using fl(2) [of a INIT_BIT] inside_static(1) [OF p(4)] by (auto simp: seg_inits_def L INIT_BIT_def)
  ultimately show thesis using that L by blast
qed

lemma rep_initialized:
  assumes rep: "seg_rep s B" and acc: "accessible B ptr sz ptr" and bld: "\<not> weak_validity bld"
  shows "initialized_seg bld ptr (of_nat sz) s = Some ({a. inside ptr sz a} \<subseteq> seg_inits s)"
proof -
  note r = seg_repD [OF rep]
  obtain p n where p: "B p = Some n" "inside p n ptr" "unat (ptr - p) + sz \<le> n" "static_block (layout s) ptr sz"
    using accessible_block [OF rep acc] by metis
  note t = seg_trackedD [OF r(3) [OF p(1)]] and on = rep_decode(1,2) [OF rep p(1,2)]
  have sz: "sz < 2 ^ 63" using p(3) t(3) by simp
  have "check_masks static_init_masks (seg_mem s) (PRIMARY_SHADOW (layout s) ptr) (sint (of_nat sz :: u64)) True \<longleftrightarrow>
      (\<forall>i < sz. bit (seg_mem s (PRIMARY_SHADOW (layout s) ptr + of_nat i)) INIT_BIT)"
    using check_masks_iff [OF flag_masks_tables(1)] sint_of_small [OF sz] by (simp add: INIT_BIT_def)
  also have "\<dots> \<longleftrightarrow> {a. inside ptr sz a} \<subseteq> seg_inits s"
  proof
    assume h: "\<forall>i < sz. bit (seg_mem s (PRIMARY_SHADOW (layout s) ptr + of_nat i)) INIT_BIT"
    show "{a. inside ptr sz a} \<subseteq> seg_inits s"
    proof
      fix a assume "a \<in> {a. inside ptr sz a}"
      then have "inside ptr sz a" by simp
      note a = inside_static [OF p(4) this]
      show "a \<in> seg_inits s"
        using h [rule_format, OF a(3)] a static_block_shadow(1) [OF r(1) p(4), of "unat (a - ptr)"]
        by (simp add: seg_inits_def)
    qed
  next
    assume h: "{a. inside ptr sz a} \<subseteq> seg_inits s"
    show "\<forall>i < sz. bit (seg_mem s (PRIMARY_SHADOW (layout s) ptr + of_nat i)) INIT_BIT"
    proof (intro allI impI)
      fix i assume i: "i < sz"
      then have "inside ptr sz (ptr + of_nat i)" using sz by (simp add: inside_def unat_of_nat_64)
      then show "bit (seg_mem s (PRIMARY_SHADOW (layout s) ptr + of_nat i)) INIT_BIT"
        using h static_block_shadow(1) [OF r(1) p(4), of i] i by (auto simp: seg_inits_def)
    qed
  qed
  finally show ?thesis
    using rep_static_allocated [OF rep on(1) bld sz, of ptr] acc on static_not_heap [OF r(1) on(1)]
    by (simp add: initialized_seg_def TRY_SEGMENT_WEAK_def static_initialized_def shadow_ptr_def)
qed

section \<open>The interface\<close>

text \<open>
  The build without temporal analysis and with strong validity. The interface speaks of the
  addresses outside the heap.
\<close>

definition plain :: "build \<Rightarrow> bool" where
  "plain bld \<longleftrightarrow> \<not> temporal bld \<and> \<not> weak_validity bld"

definition seg_fits :: "'a seg_state_scheme \<Rightarrow> u64 \<Rightarrow> nat \<Rightarrow> bool" where
  "seg_fits s p n \<longleftrightarrow> static_block (layout s) p n \<and> layout_ok (layout s) \<and> 0 < n \<and> n < 2 ^ 31"

definition seg_dom :: "'a seg_state_scheme \<Rightarrow> u64 \<Rightarrow> bool" where
  "seg_dom s a \<longleftrightarrow> \<not> IS_ON_HEAP (layout s) a"

definition returned :: "'b outcome option \<Rightarrow> 'b option" where
  "returned r = (case r of Some (Inr v) \<Rightarrow> Some v | _ \<Rightarrow> None)"

definition seg_store :: "build \<Rightarrow> u64 \<Rightarrow> nat \<Rightarrow> 'a seg_state_scheme \<Rightarrow> 'a seg_state_scheme option" where
  "seg_store bld p n s = map_option snd (store_block_seg bld p (of_nat n) s)"

definition seg_delete :: "build \<Rightarrow> u64 \<Rightarrow> 'a seg_state_scheme \<Rightarrow> 'a seg_state_scheme option" where
  "seg_delete bld p s = returned (delete_block_seg bld p s)"

definition seg_valid_read :: "build \<Rightarrow> u64 \<Rightarrow> nat \<Rightarrow> u64 \<Rightarrow> 'a seg_state_scheme \<Rightarrow> bool option" where
  "seg_valid_read bld ptr n base s = returned (valid_read_seg bld ptr (of_nat n) base 0 s)"

definition seg_initialize :: "build \<Rightarrow> u64 \<Rightarrow> nat \<Rightarrow> 'a seg_state_scheme \<Rightarrow> 'a seg_state_scheme option" where
  "seg_initialize bld ptr n s = returned (initialize_seg ptr (of_nat n) s)"

definition seg_initialized :: "build \<Rightarrow> u64 \<Rightarrow> nat \<Rightarrow> 'a seg_state_scheme \<Rightarrow> bool option" where
  "seg_initialized bld ptr n s = initialized_seg bld ptr (of_nat n) s"

lemma returned_Some [simp]: "returned (Some (Inr v)) = Some v"
  by (simp add: returned_def)

lemma rep_valid_read:
  assumes "seg_rep s B" and "seg_dom s ptr" and "sz < 2 ^ 63" and "plain bld"
  shows "valid_read_seg bld ptr (of_nat sz) base addrof s = Some (Inr (accessible B ptr sz base))"
  using rep_allocated [OF assms(1) _ _ assms(3), of ptr bld] assms(2,4)
  by (simp add: valid_read_seg_def seg_dom_def plain_def)

lemma seg_store_rep:
  assumes "plain bld" and "seg_rep s B" and "seg_fits s p n" and "apart_from B p n"
  obtains s' where "seg_store bld p n s = Some s'" and "seg_rep s' (B(p \<mapsto> n))"
    and "layout s' = layout s" and "seg_inits s' = seg_inits s"
proof -
  have p: "static_block (layout s) p n" "0 < n" "n < 2 ^ 31" using assms(3) by (simp_all add: seg_fits_def)
  obtain m' where "shadow_alloca bld p (of_nat n) s = Some (s\<lparr>seg_mem := m'\<rparr>)"
      "seg_rep (s\<lparr>seg_mem := m'\<rparr>) (B(p \<mapsto> n))" "seg_inits (s\<lparr>seg_mem := m'\<rparr>) = seg_inits s"
    using seg_rep_store [OF assms(2) p assms(4)] assms(1) unfolding plain_def by metis
  then show thesis using that [of "s\<lparr>seg_mem := m'\<rparr>"] by (simp add: seg_store_def store_block_seg_def)
qed

lemma seg_delete_rep:
  assumes "plain bld" and "seg_rep s B" and "B p = Some n"
  obtains s' where "seg_delete bld p s = Some s'" and "seg_rep s' (B(p := None))"
    and "layout s' = layout s" and "seg_inits s' = seg_inits s - {a. inside p n a}"
proof -
  have "\<not> temporal bld" using assms(1) by (simp add: plain_def)
  note d = rep_delete [OF assms(2,3) this]
  show thesis using that [OF _ d(2) _ d(3)] d(1) by (simp add: seg_delete_def)
qed

lemma same_layout: "layout s' = layout s \<Longrightarrow> seg_fits s' = seg_fits s \<and> seg_dom s' = seg_dom s"
  by (auto simp: seg_fits_def seg_dom_def fun_eq_iff)

interpretation segm: memory_model_init seg_rep seg_fits seg_dom plain seg_store seg_delete seg_valid_read
  seg_inits seg_initialize seg_initialized
proof (unfold_locales, goal_cases)
  case (4 s p n a)
  then show ?case using inside_static(1) static_not_heap by (auto simp: seg_fits_def seg_dom_def)
next
  case (5 bld s B p n)
  then show ?case using seg_store_rep [OF 5] same_layout by metis
next
  case (6 bld s B p n)
  then show ?case using seg_delete_rep [OF 6] same_layout by metis
next
  case (7 bld s B ptr sz base)
  then show ?case by (simp add: seg_valid_read_def rep_valid_read)
next
  case (8 s B a)
  then show ?case using seg_repD(4) [OF 8(1), of a] by (cases "covered B a") (auto simp: seg_inits_def)
next
  case (9 bld s B p n s')
  then show ?case using seg_store_rep [OF 9(1-4)] by (metis option.inject)
next
  case (10 bld s B p n s')
  then show ?case using seg_delete_rep [OF 10(1-3)] by (metis option.inject)
next
  case (11 bld s B ptr sz)
  obtain s' where "initialize_seg ptr (of_nat sz) s = Some (Inr s')" "seg_rep s' B" "layout s' = layout s"
      "seg_inits s' = seg_inits s \<union> {a. inside ptr sz a}"
    using rep_initialize [OF 11(2,3)] by blast
  then show ?case using same_layout [of s' s] by (intro exI [of _ s']) (simp add: seg_initialize_def)
next
  case (12 bld s B ptr sz)
  then show ?case using rep_initialized [OF 12(2,3), of bld] by (simp add: seg_initialized_def plain_def)
qed (auto simp: seg_fits_def dest: seg_repD(2,3) seg_trackedD(2))

end
