(* ===== verification/Segment_Heap_Correct.thy ===== *)
theory Segment_Heap_Correct
  imports Segment_Tracker
begin

text \<open>
  Heap blocks in the segment model. \<open>heap_rep s H\<close>: the primary heap shadow holds exactly the blocks
  of the map \<open>H\<close>, each with its base address in every segment of 32 bytes and its length in the
  first one. Allocation and deallocation update the map, the queries answer by it.
\<close>

section \<open>Sizes\<close>

text \<open>The size of a block of \<open>n\<close> bytes rounded up to whole segments.\<close>

definition asz :: "nat \<Rightarrow> nat" where
  "asz n = 32 * ((n + 31) div 32)"

lemma asz_bounds: "n \<le> asz n" "asz n \<le> n + 31"
  unfolding asz_def by linarith+

lemma asz_32 [simp]: "asz n mod 32 = 0" "asz n div 32 * 32 = asz n" "32 * (asz n div 32) = asz n"
  by (simp_all add: asz_def)

lemma unat_mod_32: "unat (a mod 32 :: u64) = unat a mod 32"
  by (simp add: unat_mod)

lemma max_allocated_val: "unat max_allocated = 2 ^ 64 - 32"
  by (simp add: max_allocated_def ALIGN_LEFT_def HEAP_SEGMENT_def)

lemma ALLOC_SIZE_asz:
  assumes "n < 2 ^ 62"
  shows "unat (ALLOC_SIZE (of_nat n)) = asz n"
proof -
  have un: "unat (of_nat n :: u64) = n" using assms by (intro unat_of_nat_64) simp
  have lt: "(of_nat n :: u64) < max_allocated" using assms un by (simp add: word_less_nat_alt max_allocated_val)
  let ?pad = "if (of_nat n :: u64) mod 32 \<noteq> 0 then 32 - (of_nat n :: u64) mod 32 else 0"
  have m: "unat ((of_nat n :: u64) mod 32) = n mod 32" using un by (simp add: unat_mod_32)
  have z: "(of_nat n :: u64) mod 32 = 0 \<longleftrightarrow> n mod 32 = 0" using m by (metis unat_eq_zero)
  have "unat ?pad = (if n mod 32 \<noteq> 0 then 32 - n mod 32 else 0)"
    using z m by (auto simp: unat_sub_64 word_le_nat_alt)
  moreover have "n + (if n mod 32 \<noteq> 0 then 32 - n mod 32 else 0) = asz n"
  proof (cases "n mod 32 = 0")
    case True
    then have "n = 32 * (n div 32)" by auto
    moreover from this have "(n + 31) div 32 = n div 32" by linarith
    ultimately show ?thesis unfolding asz_def using True by simp
  next
    case False
    then have "0 < n mod 32" "n mod 32 < 32" by simp_all
    then have "(n + 31) div 32 = n div 32 + 1" using div_mult_mod_eq [of n 32] by linarith
    moreover have "n + (32 - n mod 32) = 32 * (n div 32 + 1)"
    proof -
      obtain q r where "n div 32 = q" "n mod 32 = r" by blast
      then show ?thesis using div_mult_mod_eq [of n 32] \<open>n mod 32 < 32\<close> by simp
    qed
    ultimately show ?thesis unfolding asz_def using False by simp
  qed
  ultimately have "unat (of_nat n :: u64) + unat ?pad = asz n" using un by simp
  moreover have "asz n < 2 ^ 64" using asz_bounds(2) [of n] assms by simp
  ultimately have "unat (of_nat n + ?pad) = asz n" by (simp add: unat_add_64)
  then show ?thesis using lt by (simp add: ALLOC_SIZE_def ALIGN_RIGHT_def HEAP_SEGMENT_def)
qed

lemma ALLOC_SIZE_eq: "n < 2 ^ 62 \<Longrightarrow> ALLOC_SIZE (of_nat n) = of_nat (asz n)"
  using ALLOC_SIZE_asz [of n] by (metis of_nat_unat ucast_id)

section \<open>Blocks\<close>

definition heap_block :: "memory_layout \<Rightarrow> u64 \<Rightarrow> nat \<Rightarrow> bool" where
  "heap_block L p n \<longleftrightarrow> p \<noteq> 0 \<and> unat p mod 32 = 0 \<and> 0 < n \<and> n < 2 ^ 62 \<and>
     HEAP_START L \<le> p \<and> unat p + asz n \<le> unat (seg_end (application (lay_heap L)))"

definition heap_tracked :: "'a seg_state_scheme \<Rightarrow> u64 \<Rightarrow> nat \<Rightarrow> bool" where
  "heap_tracked s p n \<longleftrightarrow> heap_block (layout s) p n \<and>
     (\<forall>k < asz n div 32. load64 (seg_mem s) (HEAP_SHADOW (layout s) p + of_nat (32 * k)) = p) \<and>
     load64 (seg_mem s) (HEAP_SHADOW (layout s) p + 8) = of_nat n"

lemma heap_trackedD:
  assumes "heap_tracked s p n"
  shows "heap_block (layout s) p n"
    and "k < asz n div 32 \<Longrightarrow> load64 (seg_mem s) (HEAP_SHADOW (layout s) p + of_nat (32 * k)) = p"
    and "load64 (seg_mem s) (HEAP_SHADOW (layout s) p + 8) = of_nat n"
  using assms by (auto simp: heap_tracked_def)

lemma heap_blockD:
  assumes "heap_block L p n"
  shows "p \<noteq> 0" and "unat p mod 32 = 0" and "0 < n" and "n < 2 ^ 62" and "HEAP_START L \<le> p"
    and "unat p + asz n \<le> unat (seg_end (application (lay_heap L)))" and "unat p + asz n < 2 ^ 64" and "32 \<le> asz n"
proof -
  show "p \<noteq> 0" "unat p mod 32 = 0" "0 < n" "n < 2 ^ 62" "HEAP_START L \<le> p"
    "unat p + asz n \<le> unat (seg_end (application (lay_heap L)))"
    using assms by (simp_all add: heap_block_def)
  then show "unat p + asz n < 2 ^ 64" using unat_lt_64 [of "seg_end (application (lay_heap L))"] by linarith
  have "1 \<le> (n + 31) div 32" using \<open>0 < n\<close> by linarith
  then show "32 \<le> asz n" by (simp add: asz_def)
qed

lemma heap_inside:
  assumes "heap_block L p n" and "inside p (asz n) a"
  defines "i \<equiv> unat (a - p)"
  shows "a = p + of_nat i" and "i < asz n" and "unat a = unat p + i" and "IS_ON_HEAP L a"
    and "ALIGN_LEFT a HEAP_SEGMENT = p + of_nat (32 * (i div 32))" and "i div 32 < asz n div 32"
proof -
  note b = heap_blockD [OF assms(1)]
  show a: "a = p + of_nat i" by (simp add: i_def)
  show i: "i < asz n" using assms(2) by (simp add: inside_def i_def)
  have "unat (of_nat i :: u64) = i" by (simp add: i_def)
  then show u: "unat a = unat p + i" using b(7) i unat_add_64 [of p "of_nat i"] unfolding a by simp
  show "IS_ON_HEAP L a"
    unfolding IS_ON_HEAP_def IS_ON_def word_le_nat_alt u using b(5,6) i by (simp add: HEAP_START_def word_le_nat_alt)
  have "unat (a mod 32) = i mod 32" using b(2) unfolding unat_mod_32 u by (metis add_0 mod_add_left_eq)
  then have "a mod 32 = of_nat (i mod 32)" by (metis of_nat_unat ucast_id)
  moreover have "(of_nat i :: u64) = of_nat (32 * (i div 32)) + of_nat (i mod 32)"
    unfolding of_nat_add [symmetric] by simp
  ultimately show "ALIGN_LEFT a HEAP_SEGMENT = p + of_nat (32 * (i div 32))"
    unfolding ALIGN_LEFT_def HEAP_SEGMENT_def a by simp
  show "i div 32 < asz n div 32" using i by (simp add: asz_def less_mult_imp_div_less mult.commute)
qed

lemma HEAP_SHADOW_add: "HEAP_SHADOW L (a + x) = HEAP_SHADOW L a + x"
  by (simp add: HEAP_SHADOW_def SHADOW_ACCESS_def)

section \<open>Stores of the allocation\<close>

lemma segment_loop_at:
  assumes "32 * (i + k) \<le> 2 ^ 64"
  shows "segment_loop sh v k i m a =
    (if i \<le> unat (a - sh) div 32 \<and> unat (a - sh) div 32 < i + k \<and> unat (a - sh) mod 32 < 8
     then ucast (drop_bit (8 * (unat (a - sh) mod 32)) v) else m a)"
  using assms
proof (induction k arbitrary: i m)
  case (Suc k)
  let ?x = "unat (a - sh)"
  have e: "sh + of_nat i * HEAP_SEGMENT = sh + of_nat (32 * i)" by (simp add: HEAP_SEGMENT_def)
  have st: "store64 m (sh + of_nat (32 * i)) v a =
      (if ?x div 32 = i \<and> ?x mod 32 < 8 then ucast (drop_bit (8 * (?x mod 32)) v) else m a)"
  proof -
    have "32 * i \<le> ?x \<and> ?x < 32 * i + 8 \<longleftrightarrow> ?x div 32 = i \<and> ?x mod 32 < 8"
    proof
      assume "32 * i \<le> ?x \<and> ?x < 32 * i + 8"
      moreover from this have "?x div 32 = i" by linarith
      ultimately show "?x div 32 = i \<and> ?x mod 32 < 8" using div_mult_mod_eq [of ?x 32] by linarith
    next
      assume "?x div 32 = i \<and> ?x mod 32 < 8"
      then show "32 * i \<le> ?x \<and> ?x < 32 * i + 8" using div_mult_mod_eq [of ?x 32] by linarith
    qed
    moreover have "?x - 32 * i = ?x mod 32" if "?x div 32 = i" using that div_mult_mod_eq [of ?x 32] by linarith
    ultimately show ?thesis using store_le_offset [of 8 "32 * i" m sh v a] Suc.prems by auto
  qed
  show ?case using Suc unfolding segment_loop.simps e by (auto simp: st simp del: of_nat_mult)
qed auto

lemma load64_bytes:
  assumes "\<And>r. r < 8 \<Longrightarrow> m (a + of_nat r) = ucast (drop_bit (8 * r) v)"
  shows "load64 m a = v"
proof -
  have "load64 m a = load64 (store64 m a v) a"
  proof (rule load_le_cong)
    fix i :: nat assume i: "i < 8"
    then have "unat (of_nat i :: u64) = i" by (intro unat_of_nat_64) simp
    then show "m (a + of_nat i) = store64 m a v (a + of_nat i)" using assms [OF i] i by (simp add: store_le_at)
  qed
  moreover have "take_bit 64 v = v" by (rule bit_word_eqI) (simp add: bit_take_bit_iff)
  ultimately show ?thesis by (simp add: mem_simps)
qed

section \<open>The representation\<close>

definition heap_sizes :: "block_map \<Rightarrow> block_map" where
  "heap_sizes H = (\<lambda>p. map_option asz (H p))"

text \<open>
  Addresses of the heap proper: \<^verbatim>\<open>IS_ON_HEAP\<close> also accepts the end of the segment, whose shadow lies
  past the end of the shadow segment.
\<close>

definition heap_addr :: "memory_layout \<Rightarrow> u64 \<Rightarrow> bool" where
  "heap_addr L a \<longleftrightarrow> HEAP_START L \<le> a \<and> a < seg_end (application (lay_heap L))"

definition heap_aligned :: "memory_layout \<Rightarrow> bool" where
  "heap_aligned L \<longleftrightarrow> unat (HEAP_START L) mod 32 = 0 \<and> unat (seg_end (application (lay_heap L))) mod 32 = 0"

definition heap_rep :: "'a seg_state_scheme \<Rightarrow> block_map \<Rightarrow> bool" where
  "heap_rep s H \<longleftrightarrow> layout_ok (layout s) \<and> heap_aligned (layout s) \<and> separate (heap_sizes H) \<and>
     (\<forall>p n. H p = Some n \<longrightarrow> heap_tracked s p n) \<and>
     (\<forall>a. heap_addr (layout s) a \<longrightarrow> unat a mod 32 = 0 \<longrightarrow> \<not> covered (heap_sizes H) a \<longrightarrow>
        load64 (seg_mem s) (HEAP_SHADOW (layout s) a) = 0)"

lemma heap_repD:
  assumes "heap_rep s H"
  shows "layout_ok (layout s)" and "separate (heap_sizes H)" and "H p = Some n \<Longrightarrow> heap_tracked s p n"
    and "heap_addr (layout s) a \<Longrightarrow> unat a mod 32 = 0 \<Longrightarrow> \<not> covered (heap_sizes H) a \<Longrightarrow>
      load64 (seg_mem s) (HEAP_SHADOW (layout s) a) = 0"
    and "heap_aligned (layout s)"
  using assms by (auto simp: heap_rep_def)

lemma heap_addr_on: "heap_addr L a \<Longrightarrow> IS_ON_HEAP L a"
  by (simp add: heap_addr_def IS_ON_HEAP_def IS_ON_def HEAP_START_def less_imp_le)

lemma heap_covered: "covered (heap_sizes H) a \<longleftrightarrow> (\<exists>p n. H p = Some n \<and> inside p (asz n) a)"
  by (auto simp: covered_def heap_sizes_def)

text \<open>The word that the queries read for an address: the base of its block, or 0.\<close>

lemma heap_word:
  assumes "heap_rep s H" and "H p = Some n" and "inside p (asz n) a"
  shows "load64 (seg_mem s) (ALIGNED_HEAP_SHADOW (layout s) a) = p"
proof -
  note t = heap_trackedD [OF heap_repD(3) [OF assms(1,2)]]
  note a = heap_inside [OF t(1) assms(3)]
  show ?thesis using t(2) [OF a(6)] unfolding ALIGNED_HEAP_SHADOW_def a(5) HEAP_SHADOW_add .
qed

lemma align_left_32:
  fixes a :: u64
  shows "unat (ALIGN_LEFT a HEAP_SEGMENT) = 32 * (unat a div 32)"
proof -
  have "a mod 32 \<le> a" by (simp add: word_le_nat_alt unat_mod_32)
  then have "unat (a - a mod 32) = unat a - unat a mod 32" by (simp add: unat_sub_64 unat_mod_32)
  also have "\<dots> = 32 * (unat a div 32)" by (simp add: minus_mod_eq_mult_div)
  finally show ?thesis by (simp add: ALIGN_LEFT_def HEAP_SEGMENT_def)
qed

lemma heap_word_none:
  assumes "heap_rep s H" and "heap_addr (layout s) a" and "\<not> covered (heap_sizes H) a"
  shows "load64 (seg_mem s) (ALIGNED_HEAP_SHADOW (layout s) a) = 0"
proof -
  note r = heap_repD [OF assms(1)]
  let ?b = "ALIGN_LEFT a HEAP_SEGMENT" and ?app = "application (lay_heap (layout s))"
  have b: "unat ?b = 32 * (unat a div 32)" by (rule align_left_32)
  have st: "unat (seg_start ?app) \<le> unat a" "unat a < unat (seg_end ?app)"
    using assms(2) by (simp_all add: heap_addr_def HEAP_START_def word_le_nat_alt word_less_nat_alt)
  have "32 * (unat (seg_start ?app) div 32) = unat (seg_start ?app)" using r(5) by (auto simp: HEAP_START_def heap_aligned_def)
  moreover have "unat (seg_start ?app) div 32 \<le> unat a div 32" using st(1) by (rule div_le_mono)
  ultimately have "unat (seg_start ?app) \<le> unat ?b" unfolding b by linarith
  moreover have "unat ?b \<le> unat a" unfolding b by simp
  ultimately have on: "heap_addr (layout s) ?b"
    using st(2) by (simp add: heap_addr_def HEAP_START_def word_le_nat_alt word_less_nat_alt)
  have "\<not> covered (heap_sizes H) ?b"
  proof
    assume "covered (heap_sizes H) ?b"
    then obtain p n where p: "H p = Some n" "inside p (asz n) ?b" by (auto simp: heap_covered)
    note t = heap_trackedD [OF r(3) [OF p(1)]]
    note i = heap_inside [OF t(1) p(2)] and bl = heap_blockD [OF t(1)]
    define j where "j = unat (?b - p)"
    have j: "unat ?b = unat p + j" "j < asz n" using i(2,3) by (simp_all add: j_def)
    have "unat a < unat ?b + 32" unfolding b using div_mult_mod_eq [of "unat a" 32] by simp
    moreover have "j mod 32 = 0"
    proof -
      have "(unat p + j) mod 32 = 0" using j(1) b by (metis mod_mult_self1_is_0)
      then show ?thesis using bl(2) by (metis add_0 mod_add_left_eq)
    qed
    then have "j = 32 * (j div 32)" by auto
    then have "j + 32 \<le> asz n" using i(6) asz_32(3) [of n] unfolding j_def [symmetric] by linarith
    ultimately have "unat a < unat p + asz n" using j(1) by linarith
    moreover have "unat p \<le> unat a" using j(1) \<open>unat ?b \<le> unat a\<close> by linarith
    ultimately have "inside p (asz n) a" unfolding inside_def by (simp add: unat_sub_64 word_le_nat_alt)
    then show False using assms(3) p(1) by (auto simp: heap_covered)
  qed
  then show ?thesis using r(4) [OF on] b by (simp add: ALIGNED_HEAP_SHADOW_def)
qed

section \<open>Queries\<close>

text \<open>An access to a heap block: \<open>base\<close> may point into the padding of the block.\<close>

definition heap_accessible :: "block_map \<Rightarrow> u64 \<Rightarrow> nat \<Rightarrow> u64 \<Rightarrow> bool" where
  "heap_accessible H ptr sz base \<longleftrightarrow>
     (\<exists>p n. H p = Some n \<and> inside p (asz n) ptr \<and> inside p (asz n) base \<and> unat (ptr - p) + sz \<le> n)"

lemma rep_heap_info:
  assumes "heap_rep s H" and "H p = Some n" and "inside p (asz n) a"
  shows "heap_info a q s = (case q of BaseQ \<Rightarrow> p | OffsetQ \<Rightarrow> a - p | LengthQ \<Rightarrow> of_nat n)"
  using heap_word [OF assms] heap_trackedD(3) [OF heap_repD(3) [OF assms(1,2)]]
  by (simp add: heap_info_def Let_def split: query.split)

lemma heap_base_covered:
  assumes "heap_rep s H" and "H p = Some n"
  shows "inside p (asz n) p" and "covered (heap_sizes H) p" and "p \<noteq> 0"
proof -
  note b = heap_blockD [OF heap_trackedD(1) [OF heap_repD(3) [OF assms]]]
  show "p \<noteq> 0" by (fact b(1))
  show "inside p (asz n) p" using b(8) by simp
  then show "covered (heap_sizes H) p" using assms(2) unfolding heap_covered by blast
qed

lemma heap_sep:
  assumes "heap_rep s H" and "H p = Some n" and "H q = Some k" and "inside p (asz n) a" and "inside q (asz k) a"
  shows "p = q"
  using separateD [OF heap_repD(2) [OF assms(1)], of p "asz n" q "asz k" a] assms(2-5) by (simp add: heap_sizes_def)

lemma rep_freeable:
  assumes "heap_rep s H" and "heap_addr (layout s) a"
  shows "freeable_seg a s \<longleftrightarrow> H a \<noteq> None"
proof (cases "covered (heap_sizes H) a")
  case True
  then obtain p n where p: "H p = Some n" "inside p (asz n) a" by (auto simp: heap_covered)
  have "freeable_seg a s \<longleftrightarrow> p = a"
    using heap_word [OF assms(1) p] heap_addr_on [OF assms(2)] heap_base_covered(3) [OF assms(1) p(1)]
    by (simp add: freeable_seg_def Let_def)
  moreover have "p = a" if h: "H a \<noteq> None"
    using h heap_sep [OF assms(1) p(1) _ p(2)] heap_base_covered(1) [OF assms(1)] by blast
  ultimately show ?thesis using p(1) by auto
next
  case False
  then have "H a = None" using heap_base_covered(2) [OF assms(1)] by (cases "H a") auto
  then show ?thesis using heap_word_none [OF assms False] by (auto simp: freeable_seg_def Let_def)
qed

lemma rep_heap_allocated:
  assumes rep: "heap_rep s H" and ptr: "heap_addr (layout s) ptr" and base: "heap_addr (layout s) base"
    and bld: "\<not> weak_validity bld" and sz: "sz < 2 ^ 63"
  shows "heap_allocated bld ptr (of_nat sz) base s \<longleftrightarrow> heap_accessible H ptr sz base"
proof (cases "covered (heap_sizes H) ptr")
  case True
  then obtain p n where p: "H p = Some n" "inside p (asz n) ptr" by (auto simp: heap_covered)
  note t = heap_trackedD [OF heap_repD(3) [OF rep p(1)]]
  note b = heap_blockD [OF t(1)]
  have w: "load64 (seg_mem s) (ALIGNED_HEAP_SHADOW (layout s) base) = p \<longleftrightarrow> inside p (asz n) base"
  proof (cases "covered (heap_sizes H) base")
    case True
    then obtain q k where q: "H q = Some k" "inside q (asz k) base" by (auto simp: heap_covered)
    have "inside p (asz n) base \<longleftrightarrow> q = p" using heap_sep [OF rep p(1) q(1) _ q(2)] p(1) q by auto
    then show ?thesis using heap_word [OF rep q] by simp
  next
    case False
    then have "\<not> inside p (asz n) base" using p(1) unfolding heap_covered by blast
    then show ?thesis using heap_word_none [OF rep base False] b(1) by simp
  qed
  have "unat (ptr - p) < asz n" using p(2) by (simp add: inside_def)
  then have le: "ptr - p + of_nat sz \<le> of_nat n \<longleftrightarrow> unat (ptr - p) + sz \<le> n"
    using b(4) asz_bounds(2) [of n] sz by (intro no_wrap_le) simp_all
  have "heap_accessible H ptr sz base \<longleftrightarrow> inside p (asz n) base \<and> unat (ptr - p) + sz \<le> n"
  proof
    assume "heap_accessible H ptr sz base"
    then obtain q k where q: "H q = Some k" "inside q (asz k) ptr" "inside q (asz k) base" "unat (ptr - q) + sz \<le> k"
      by (auto simp: heap_accessible_def)
    have "p = q" using heap_sep [OF rep p(1) q(1) p(2) q(2)] .
    then show "inside p (asz n) base \<and> unat (ptr - p) + sz \<le> n" using q p(1) by simp
  qed (use p in \<open>auto simp: heap_accessible_def\<close>)
  then show ?thesis
    using heap_word [OF rep p] w t(3) le bld b(1)
    by (simp add: heap_allocated_def Let_def ALIGNED_HEAP_SHADOW_def ALIGN_LEFT_def)
next
  case False
  then have "\<not> heap_accessible H ptr sz base" by (auto simp: heap_accessible_def heap_covered)
  then show ?thesis
    using heap_word_none [OF rep ptr False] by (simp add: heap_allocated_def Let_def ALIGNED_HEAP_SHADOW_def ALIGN_LEFT_def)
qed

section \<open>Frames\<close>

text \<open>What an operation on the heap block at \<open>p\<close> may change: its primary shadow and the init shadow.\<close>

definition heap_only :: "memory_layout \<Rightarrow> u64 \<Rightarrow> nat \<Rightarrow> mem \<Rightarrow> mem \<Rightarrow> bool" where
  "heap_only L p n m m' \<longleftrightarrow>
     (\<forall>a. m' a \<noteq> m a \<longrightarrow> inside (HEAP_SHADOW L p) n a \<or> \<not> IS_ON a (primary (lay_heap L)))"

lemma heap_only_refl: "heap_only L p n m m"
  by (simp add: heap_only_def)

lemma heap_only_trans: "heap_only L p n m m' \<Longrightarrow> heap_only L p n m' m'' \<Longrightarrow> heap_only L p n m m''"
  unfolding heap_only_def by metis

lemma heap_shadow_on:
  assumes "layout_ok L" and "IS_ON_HEAP L a"
  shows "IS_ON (HEAP_SHADOW L a) (primary (lay_heap L))"
proof -
  have "shadows (application (lay_heap L)) (primary (lay_heap L)) 1"
    using assms(1) by (simp add: layout_ok_def layout_wf_def)
  moreover have "seg_start (application (lay_heap L)) < seg_end (application (lay_heap L))"
    "seg_start (primary (lay_heap L)) < seg_end (primary (lay_heap L))"
    using layout_ok_ordered [OF assms(1), of 0] layout_ok_ordered [OF assms(1), of 1] by (simp_all add: all_segments_def)
  ultimately show ?thesis
    using shadow_on(1) assms(2) by (simp add: HEAP_SHADOW_def SHADOW_ACCESS_def IS_ON_HEAP_def)
qed

lemma block_shadow_on:
  assumes "layout_ok L" and "heap_block L p n" and "inside (HEAP_SHADOW L p) (asz n) a"
  shows "IS_ON a (primary (lay_heap L))"
proof -
  have e: "a = HEAP_SHADOW L (p + (a - HEAP_SHADOW L p))" unfolding HEAP_SHADOW_add by simp
  have "inside p (asz n) (p + (a - HEAP_SHADOW L p))" using assms(3) by (simp add: inside_def)
  then have "IS_ON_HEAP L (p + (a - HEAP_SHADOW L p))" by (rule heap_inside(4) [OF assms(2)])
  then show ?thesis using heap_shadow_on [OF assms(1)] e by metis
qed

lemma heap_load_frame:
  assumes "layout_ok L" and "heap_only L p n m m'" and "\<And>r. r < 8 \<Longrightarrow> IS_ON_HEAP L (a + of_nat r) \<and> \<not> inside p n (a + of_nat r)"
  shows "load64 m' (HEAP_SHADOW L a) = load64 m (HEAP_SHADOW L a)"
proof (rule load_le_cong)
  fix r :: nat assume r: "r < 8"
  have "IS_ON (HEAP_SHADOW L (a + of_nat r)) (primary (lay_heap L))" using heap_shadow_on [OF assms(1)] assms(3) [OF r] by blast
  moreover have "\<not> inside (HEAP_SHADOW L p) n (HEAP_SHADOW L (a + of_nat r))"
  proof -
    have "HEAP_SHADOW L x - HEAP_SHADOW L p = x - p" for x by (simp add: HEAP_SHADOW_def SHADOW_ACCESS_def)
    then show ?thesis using assms(3) [OF r] unfolding inside_def by metis
  qed
  ultimately show "m' (HEAP_SHADOW L a + of_nat r) = m (HEAP_SHADOW L a + of_nat r)"
    using assms(2) unfolding heap_only_def HEAP_SHADOW_add by blast
qed

lemma heap_tracked_frame:
  assumes L: "layout_ok (layout s)" and ch: "heap_only (layout s) p n (seg_mem s) (seg_mem s')" and l: "layout s' = layout s"
    and q: "heap_tracked s q k" and ap: "\<And>a. inside q (asz k) a \<Longrightarrow> \<not> inside p n a"
  shows "heap_tracked s' q k"
proof -
  note t = heap_trackedD [OF q]
  note b = heap_blockD [OF t(1)]
  have ld: "load64 (seg_mem s') (HEAP_SHADOW (layout s) q + of_nat x) = load64 (seg_mem s) (HEAP_SHADOW (layout s) q + of_nat x)"
    if x: "x + 8 \<le> asz k" for x
  proof -
    have "inside q (asz k) (q + of_nat x + of_nat r)" if "r < 8" for r
    proof -
      have "unat (of_nat (x + r) :: u64) = x + r" using x that b(7) by (intro unat_of_nat_64) linarith
      then show ?thesis using x that by (simp add: inside_def)
    qed
    then have "IS_ON_HEAP (layout s) (q + of_nat x + of_nat r) \<and> \<not> inside p n (q + of_nat x + of_nat r)" if "r < 8" for r
      using heap_inside(4) [OF t(1)] ap that by blast
    from heap_load_frame [OF L ch this] show ?thesis unfolding HEAP_SHADOW_add .
  qed
  have "32 * k' + 8 \<le> asz k" if "k' < asz k div 32" for k' using that asz_32(3) [of k] by linarith
  then show ?thesis using t b(8) ld [of 8] ld [of "32 * _"] by (simp add: heap_tracked_def l del: of_nat_mult)
qed

text \<open>A segment of the heap that no block covers.\<close>

lemma heap_segment_bytes:
  assumes "heap_aligned L" and "heap_addr L a" and "unat a mod 32 = 0" and "r < 32"
  shows "unat (a + of_nat r) = unat a + r" and "IS_ON_HEAP L (a + of_nat r)" and "ALIGN_LEFT (a + of_nat r) HEAP_SEGMENT = a"
proof -
  let ?e = "seg_end (application (lay_heap L))"
  have lt: "unat a < unat ?e" "unat (HEAP_START L) \<le> unat a" using assms(2) by (simp_all add: heap_addr_def word_less_nat_alt word_le_nat_alt)
  have "unat a = 32 * (unat a div 32)" "unat ?e = 32 * (unat ?e div 32)" using assms(1,3) by (auto simp: heap_aligned_def)
  moreover from this have "unat a div 32 < unat ?e div 32" using lt(1) by linarith
  ultimately have le: "unat a + 32 \<le> unat ?e" by linarith
  have ur: "unat (of_nat r :: u64) = r" using assms(4) by (intro unat_of_nat_64) simp
  show u: "unat (a + of_nat r) = unat a + r"
    using unat_add_64 [of a "of_nat r"] ur le assms(4) unat_lt_64 [of ?e] by simp
  show "IS_ON_HEAP L (a + of_nat r)"
    unfolding IS_ON_HEAP_def IS_ON_def word_le_nat_alt u using le lt assms(4) by (simp add: HEAP_START_def)
  have "(unat a + r) div 32 = unat a div 32" using \<open>unat a = 32 * (unat a div 32)\<close> assms(4) by linarith
  then have "unat (ALIGN_LEFT (a + of_nat r) HEAP_SEGMENT) = unat a"
    unfolding align_left_32 u using \<open>unat a = 32 * (unat a div 32)\<close> by simp
  then show "ALIGN_LEFT (a + of_nat r) HEAP_SEGMENT = a" by (simp add: word_unat_eq_iff)
qed

lemma inside_range: "unat p + n < 2 ^ 64 \<Longrightarrow> inside p n a \<longleftrightarrow> unat p \<le> unat a \<and> unat a < unat p + n"
  by (cases "p \<le> a") (auto simp: inside_def unat_sub_64 unat_sub_if' word_le_nat_alt)

lemma inside_segment:
  assumes "heap_block L p n" and "heap_aligned L" and "heap_addr L a" and "unat a mod 32 = 0" and "r < 32"
  shows "inside p (asz n) (a + of_nat r) \<longleftrightarrow> inside p (asz n) a"
proof -
  note b = heap_blockD [OF assms(1)]
  note u = heap_segment_bytes(1) [OF assms(2-5)]
  note iff = inside_range [OF b(7)]
  obtain A P N where e: "unat a = 32 * A" "unat p = 32 * P" "asz n = 32 * N"
    using assms(4) b(2) asz_32(1) [of n] by (meson mod_0_imp_dvd dvdE)
  have "32 * P \<le> 32 * A + r \<longleftrightarrow> P \<le> A" "32 * A + r < 32 * P + 32 * N \<longleftrightarrow> A < P + N" using assms(5) by linarith+
  then show ?thesis unfolding iff u unfolding e by auto
qed

section \<open>Allocation\<close>

text \<open>The primary shadow after \<^verbatim>\<open>set_heap_segment\<close>, without temporal analysis.\<close>

definition heap_mem :: "memory_layout \<Rightarrow> u64 \<Rightarrow> nat \<Rightarrow> mem \<Rightarrow> mem" where
  "heap_mem L p n m =
     segment_loop (HEAP_SHADOW L p) p (asz n div 32) 0 (store64 m (HEAP_SHADOW L p + 8) (of_nat n))"

lemma heap_mem_at:
  assumes "heap_block L p n"
  shows "heap_mem L p n m a =
    (if unat (a - HEAP_SHADOW L p) div 32 < asz n div 32 \<and> unat (a - HEAP_SHADOW L p) mod 32 < 8
     then ucast (drop_bit (8 * (unat (a - HEAP_SHADOW L p) mod 32)) p)
     else if 8 \<le> unat (a - HEAP_SHADOW L p) \<and> unat (a - HEAP_SHADOW L p) < 16
     then ucast (drop_bit (8 * (unat (a - HEAP_SHADOW L p) - 8)) (of_nat n :: u64))
     else m a)"
proof -
  note b = heap_blockD [OF assms]
  have "32 * (0 + asz n div 32) \<le> 2 ^ 64" using b(7) by simp
  moreover have "HEAP_SHADOW L p + 8 = HEAP_SHADOW L p + of_nat 8" by simp
  ultimately show ?thesis
    unfolding heap_mem_def using segment_loop_at [of 0 "asz n div 32"] store_le_offset [of 8 8 m "HEAP_SHADOW L p" "of_nat n" a]
    by simp
qed

lemma heap_mem_tracked:
  assumes "heap_block (layout s) p n" and "seg_mem s' = heap_mem (layout s) p n m" and "layout s' = layout s"
  shows "heap_tracked s' p n"
proof -
  note b = heap_blockD [OF assms(1)]
  let ?sh = "HEAP_SHADOW (layout s) p"
  have small: "unat (of_nat x :: u64) = x" if "x < asz n" for x using that b(7) by (intro unat_of_nat_64) linarith
  have "load64 (heap_mem (layout s) p n m) (?sh + of_nat (32 * k)) = p" if k: "k < asz n div 32" for k
  proof (rule load64_bytes)
    fix r :: nat assume r: "r < 8"
    have lt: "32 * k + r < asz n" using k r asz_32(3) [of n] by linarith
    have e: "?sh + of_nat (32 * k) + of_nat r = ?sh + of_nat (32 * k + r)" by simp
    have "unat (?sh + of_nat (32 * k) + of_nat r - ?sh) = 32 * k + r"
      unfolding e using small [OF lt] by (simp del: of_nat_add of_nat_mult)
    moreover have "(32 * k + r) div 32 = k" "(32 * k + r) mod 32 = r" using r by simp_all
    ultimately show "heap_mem (layout s) p n m (?sh + of_nat (32 * k) + of_nat r) = ucast (drop_bit (8 * r) p)"
      unfolding heap_mem_at [OF assms(1)] using k r by simp
  qed
  moreover have "load64 (heap_mem (layout s) p n m) (?sh + 8) = of_nat n"
  proof (rule load64_bytes)
    fix r :: nat assume r: "r < 8"
    have lt: "8 + r < asz n" using r b(8) by linarith
    have e: "?sh + 8 + of_nat r = ?sh + of_nat (8 + r)" by simp
    have "unat (?sh + 8 + of_nat r - ?sh) = 8 + r" unfolding e using small [OF lt] by (simp del: of_nat_add)
    moreover have "(8 + r) mod 32 = 8 + r" using r by simp
    ultimately show "heap_mem (layout s) p n m (?sh + 8 + of_nat r) = ucast (drop_bit (8 * r) (of_nat n :: u64))"
      unfolding heap_mem_at [OF assms(1)] using r by simp
  qed
  ultimately show ?thesis using assms by (simp add: heap_tracked_def del: of_nat_mult)
qed

lemma heap_mem_only:
  assumes "heap_block L p n"
  shows "heap_only L p (asz n) m (heap_mem L p n m)"
proof -
  note b = heap_blockD [OF assms]
  have "x < asz n" if "x div 32 < asz n div 32" for x using that asz_32(3) [of n] by linarith
  then show ?thesis
    unfolding heap_only_def inside_def using heap_mem_at [OF assms, of m] b(8) by (auto split: if_splits)
qed

lemma heap_rep_insert:
  assumes rep: "heap_rep s H" and bl: "heap_block (layout s) p n" and ap: "apart_from (heap_sizes H) p (asz n)"
    and m0: "heap_only (layout s) p (asz n) (seg_mem s) m0"
    and m: "seg_mem s' = heap_mem (layout s) p n m0" and L: "layout s' = layout s"
  shows "heap_rep s' (H(p \<mapsto> n))"
proof -
  note r = heap_repD [OF rep]
  have ch: "heap_only (layout s) p (asz n) (seg_mem s) (seg_mem s')"
    unfolding m by (rule heap_only_trans [OF m0 heap_mem_only [OF bl]])
  have hs: "heap_sizes (H(p \<mapsto> n)) = (heap_sizes H)(p \<mapsto> asz n)" by (auto simp: heap_sizes_def)
  have new: "heap_sizes H p = None"
  proof (rule apart_new [OF ap])
    show "0 < asz n" using heap_blockD(8) [OF bl] by simp
    show "0 < k" if "heap_sizes H p = Some k" for k
      using that heap_base_covered(1) [OF rep] by (auto simp: heap_sizes_def)
  qed
  have tr: "heap_tracked s' q k" if "(H(p \<mapsto> n)) q = Some k" for q k
  proof (cases "q = p")
    case True
    then show ?thesis using that heap_mem_tracked [OF bl m L] by simp
  next
    case False
    then have q: "H q = Some k" using that by simp
    have "\<not> inside p (asz n) a" if "inside q (asz k) a" for a
      using apart_fromD [OF ap, of q "asz k" a] q that by (auto simp: heap_sizes_def)
    then show ?thesis using heap_tracked_frame [OF r(1) ch L r(3) [OF q]] by blast
  qed
  have zero: "load64 (seg_mem s') (HEAP_SHADOW (layout s) a) = 0"
    if a: "heap_addr (layout s) a" "unat a mod 32 = 0" "\<not> covered (heap_sizes H) a" "\<not> inside p (asz n) a" for a
  proof -
    have "IS_ON_HEAP (layout s) (a + of_nat x) \<and> \<not> inside p (asz n) (a + of_nat x)" if "x < 8" for x
      using heap_segment_bytes(2) [OF r(5) a(1,2), of x] inside_segment [OF bl r(5) a(1,2), of x] a(4) that by simp
    from heap_load_frame [OF r(1) ch this] show ?thesis using r(4) [OF a(1-3)] by simp
  qed
  show ?thesis
    unfolding heap_rep_def L hs
    using r(1,5) separate_insert [OF r(2) ap] tr zero by (auto simp: covered_insert [of "heap_sizes H" p, OF new])
qed

lemma set_heap_segment_mem:
  assumes "heap_mspace_least (spaces s) = mspace_least_addr (rt_mspaces E) (heap_mspace (spaces s))"
    and "p + of_nat (asz n) < heap_end (spaces s)" and "\<not> temporal (rt_build E)" and "heap_block (layout s) p n"
  shows "set_heap_segment E p (of_nat n) (of_nat (asz n)) False s =
    Inr (s\<lparr>seg_stats := update_heap_allocation (of_nat n) (seg_stats s), seg_mem := heap_mem (layout s) p n (seg_mem s)\<rparr>)"
proof -
  note b = heap_blockD [OF assms(4)]
  have "unat (of_nat (asz n) div HEAP_SEGMENT :: u64) = asz n div 32"
    using b(7) by (simp add: unat_div HEAP_SEGMENT_def unat_of_nat_64)
  then show ?thesis using assms(1-3) by (simp add: set_heap_segment_def Let_def heap_mem_def)
qed

text \<open>
  \<^verbatim>\<open>malloc\<close>, when the allocator returns a segment-aligned region apart from the tracked blocks and
  below the limit of the heap.
\<close>

lemma malloc_rep:
  assumes rep: "heap_rep s H" and run: "mspaces_run s" and bld: "\<not> temporal (rt_build E)"
    and pa: "public_malloc pa s (of_nat (asz n)) = p" and bl: "heap_block (layout s) p n"
    and ap: "apart_from (heap_sizes H) p (asz n)"
    and least: "heap_mspace_least (spaces s) = mspace_least_addr (rt_mspaces E) (heap_mspace (spaces s))"
    and room: "p + of_nat (asz n) < heap_end (spaces s)"
  defines "s' \<equiv> s\<lparr>seg_stats := update_heap_allocation (of_nat n) (seg_stats s), seg_mem := heap_mem (layout s) p n (seg_mem s)\<rparr>"
  shows "malloc_seg E pa (of_nat n) s = Inr (p, s')" and "heap_rep s' (H(p \<mapsto> n))"
proof -
  note b = heap_blockD [OF bl]
  have "(of_nat (asz n) :: u64) \<noteq> 0" using b(7,8) unat_of_nat_64 [of "asz n"] by auto
  then show "malloc_seg E pa (of_nat n) s = Inr (p, s')"
    using ALLOC_SIZE_eq [OF b(4)] run pa b(1) set_heap_segment_mem [OF least room bld bl]
    by (simp add: malloc_seg_def Let_def mspaces_init_def s'_def)
  show "heap_rep s' (H(p \<mapsto> n))" by (rule heap_rep_insert [OF rep bl ap heap_only_refl]) (simp_all add: s'_def)
qed

section \<open>Deallocation\<close>

lemma init_shadow_on:
  assumes L: "layout_ok L" and bl: "heap_block L p n" and i: "i < asz n div 8"
  shows "IS_ON (HEAP_INIT_SHADOW L p + of_nat i) (secondary (lay_heap L))"
proof -
  let ?app = "application (lay_heap L)" and ?sec = "secondary (lay_heap L)"
  note b = heap_blockD [OF bl]
  have sh: "shadows ?app ?sec 8" using L by (simp add: layout_ok_def layout_wf_def)
  have ord: "seg_start ?app < seg_end ?app" "seg_start ?sec < seg_end ?sec"
    using layout_ok_ordered [OF L, of 0] layout_ok_ordered [OF L, of 2] by (simp_all add: all_segments_def)
  have addr: "HEAP_INIT_SHADOW L p = seg_start ?sec + (p - seg_start ?app) div 8"
    using sh by (simp add: HEAP_INIT_SHADOW_def SCALED_SHADOW_ACCESS_def shadows_def)
  have "unat ((p - seg_start ?app) div 8) = (unat p - unat (seg_start ?app)) div 8"
    using b(5) by (simp add: unat_div unat_sub_64 HEAP_START_def)
  moreover have "unat (seg_end ?sec - seg_start ?sec) = (unat (seg_end ?app) - unat (seg_start ?app)) div 8"
    using sh ord(1) by (simp add: shadows_def unat_div) (metis add_diff_cancel_left' less_imp_le unat_sub_64)
  moreover have "unat (seg_end ?sec - seg_start ?sec) = unat (seg_end ?sec) - unat (seg_start ?sec)"
    using ord(2) by (simp add: unat_sub_64 less_imp_le)
  moreover have "(unat p - unat (seg_start ?app)) div 8 + asz n div 8 \<le> (unat (seg_end ?app) - unat (seg_start ?app)) div 8"
  proof -
    have "(unat p - unat (seg_start ?app)) + asz n \<le> unat (seg_end ?app) - unat (seg_start ?app)"
      using b(5,6) by (simp add: HEAP_START_def word_le_nat_alt)
    then show ?thesis by linarith
  qed
  ultimately have le: "unat ((p - seg_start ?app) div 8) + i < unat (seg_end ?sec) - unat (seg_start ?sec)" using i by linarith
  have ui: "unat (of_nat i :: u64) = i" using le unat_lt_64 [of "seg_end ?sec"] by (intro unat_of_nat_64) linarith
  have "unat (seg_start ?sec + (p - seg_start ?app) div 8) = unat (seg_start ?sec) + unat ((p - seg_start ?app) div 8)"
    using le unat_lt_64 [of "seg_end ?sec"] by (intro unat_add_64) linarith
  then have "unat (HEAP_INIT_SHADOW L p + of_nat i) = unat (seg_start ?sec) + unat ((p - seg_start ?app) div 8) + i"
    using le unat_lt_64 [of "seg_end ?sec"] ui unfolding addr by (subst unat_add_64) linarith+
  then show ?thesis unfolding IS_ON_def word_le_nat_alt using le by linarith
qed

text \<open>The memory after \<^verbatim>\<open>unset_heap_segment\<close> with the init shadow.\<close>

definition freed_mem :: "memory_layout \<Rightarrow> u64 \<Rightarrow> nat \<Rightarrow> mem \<Rightarrow> mem" where
  "freed_mem L p n m =
     fill_bytes (fill_bytes m (HEAP_SHADOW L p) 0 (asz n)) (HEAP_INIT_SHADOW L p) 0 (asz n div 8)"

lemma freed_mem_at:
  assumes "heap_block L p n"
  shows "freed_mem L p n m a =
    (if inside (HEAP_INIT_SHADOW L p) (asz n div 8) a \<or> inside (HEAP_SHADOW L p) (asz n) a then 0 else m a)"
  using heap_blockD(7) [OF assms] by (simp add: freed_mem_def fill_bytes_at inside_def)

lemma freed_mem_only:
  assumes "layout_ok L" and "heap_block L p n"
  shows "heap_only L p (asz n) m (freed_mem L p n m)"
proof -
  have "\<not> IS_ON a (primary (lay_heap L))" if "inside (HEAP_INIT_SHADOW L p) (asz n div 8) a" for a
  proof
    have "IS_ON a (secondary (lay_heap L))"
      using init_shadow_on [OF assms, of "unat (a - HEAP_INIT_SHADOW L p)"] that by (simp add: inside_def)
    moreover assume "IS_ON a (primary (lay_heap L))"
    ultimately have "1 = (2 :: nat)" by (intro layout_ok_disjoint [OF assms(1), of a]) (simp_all add: all_segments_def)
    then show False by simp
  qed
  then show ?thesis unfolding heap_only_def freed_mem_at [OF assms(2)] by auto
qed

lemma unset_heap_segment_mem:
  assumes "heap_rep s H" and "H p = Some n" and "\<not> temporal bld"
  shows "unset_heap_segment bld p True s =
    s\<lparr>seg_mem := freed_mem (layout s) p n (seg_mem s),
      seg_stats := (seg_stats s)\<lparr>heap_allocation_size := heap_allocation_size (seg_stats s) - of_nat n\<rparr>\<rparr>"
proof -
  note t = heap_trackedD [OF heap_repD(3) [OF assms(1,2)]]
  note b = heap_blockD [OF t(1)]
  have "unat (ALLOC_SIZE (of_nat n)) = asz n" "unat (ALLOC_SIZE (of_nat n) div 8) = asz n div 8"
    using ALLOC_SIZE_asz [OF b(4)] by (simp_all add: unat_div)
  then show ?thesis using t(3) assms(3) by (simp add: unset_heap_segment_def Let_def freed_mem_def)
qed

lemma heap_rep_remove:
  assumes rep: "heap_rep s H" and p: "H p = Some n"
    and ch: "heap_only (layout s) p (asz n) (seg_mem s) (seg_mem s')"
    and z: "\<And>a. inside (HEAP_SHADOW (layout s) p) (asz n) a \<Longrightarrow> seg_mem s' a = 0" and L: "layout s' = layout s"
  shows "heap_rep s' (H(p := None))"
proof -
  note r = heap_repD [OF rep] and t = heap_trackedD [OF heap_repD(3) [OF rep p]]
  have hs: "heap_sizes (H(p := None)) = (heap_sizes H)(p := None)" by (auto simp: heap_sizes_def)
  have hp: "heap_sizes H p = Some (asz n)" using p by (simp add: heap_sizes_def)
  have tr: "heap_tracked s' q k" if "(H(p := None)) q = Some k" for q k
  proof -
    have q: "q \<noteq> p" "H q = Some k" using that by (auto split: if_splits)
    have "\<not> inside p (asz n) a" if "inside q (asz k) a" for a using heap_sep [OF rep q(2) p that] q(1) by blast
    then show ?thesis using heap_tracked_frame [OF r(1) ch L r(3) [OF q(2)]] by blast
  qed
  have zero: "load64 (seg_mem s') (HEAP_SHADOW (layout s) a) = 0"
    if a: "heap_addr (layout s) a" "unat a mod 32 = 0" "covered (heap_sizes H) a \<longrightarrow> inside p (asz n) a" for a
  proof (cases "inside p (asz n) a")
    case True
    have "seg_mem s' (HEAP_SHADOW (layout s) a + of_nat x) = 0" if "x < 8" for x
    proof -
      have "inside p (asz n) (a + of_nat x)" using inside_segment [OF t(1) r(5) a(1,2), of x] True that by simp
      then have "inside (HEAP_SHADOW (layout s) p) (asz n) (HEAP_SHADOW (layout s) a + of_nat x)"
        by (simp add: inside_def HEAP_SHADOW_def SHADOW_ACCESS_def algebra_simps)
      then show ?thesis by (rule z)
    qed
    then show ?thesis by (intro load64_bytes) simp
  next
    case False
    have "IS_ON_HEAP (layout s) (a + of_nat x) \<and> \<not> inside p (asz n) (a + of_nat x)" if "x < 8" for x
      using heap_segment_bytes(2) [OF r(5) a(1,2), of x] inside_segment [OF t(1) r(5) a(1,2), of x] False that by simp
    from heap_load_frame [OF r(1) ch this] show ?thesis using r(4) [OF a(1,2)] a(3) False by simp
  qed
  show ?thesis
    unfolding heap_rep_def L hs
    using r(1,5) separate_delete [OF r(2)] tr zero by (auto simp: covered_delete [OF r(2) hp])
qed

lemma free_rep:
  assumes "heap_rep s H" and "H p = Some n" and "\<not> temporal bld"
  obtains s' where "free_seg bld p s = Inr s'" and "heap_rep s' (H(p := None))" and "layout s' = layout s"
    and "seg_stats s' = (seg_stats s)\<lparr>heap_allocation_size := heap_allocation_size (seg_stats s) - of_nat n\<rparr>"
    and "\<And>i. i < asz n div 8 \<Longrightarrow> seg_mem s' (HEAP_INIT_SHADOW (layout s) p + of_nat i) = 0"
proof -
  note t = heap_trackedD [OF heap_repD(3) [OF assms(1,2)]]
  note b = heap_blockD [OF t(1)]
  define s' where "s' = unset_heap_segment bld p True s"
  note u = unset_heap_segment_mem [OF assms, folded s'_def]
  have "p < seg_end (application (lay_heap (layout s)))" using b(6,8) by (simp add: word_less_nat_alt)
  then have "heap_addr (layout s) p" using b(5) by (simp add: heap_addr_def)
  then have "freeable_seg p s" using rep_freeable [OF assms(1)] assms(2) by simp
  then have "free_seg bld p s = Inr s'" using b(1) by (simp add: free_seg_def s'_def)
  moreover have "heap_rep s' (H(p := None))"
    by (rule heap_rep_remove [OF assms(1,2)])
      (simp_all add: u freed_mem_only [OF heap_repD(1) [OF assms(1)] t(1)] freed_mem_at [OF t(1)])
  moreover have "seg_mem s' (HEAP_INIT_SHADOW (layout s) p + of_nat i) = 0" if "i < asz n div 8" for i
  proof -
    have "unat (of_nat i :: u64) = i" using that b(7) by (intro unat_of_nat_64) linarith
    then show ?thesis using that unfolding u by (simp add: freed_mem_at [OF t(1)] inside_def)
  qed
  ultimately show thesis using that u by simp
qed

end
