(* ===== verification/Segment_Heap_Init.thy ===== *)
theory Segment_Heap_Init
  imports Segment_Heap_Correct
begin

text \<open>
  The init shadow of the heap, one bit per byte: \<open>heap_bit L m x\<close> is the bit of the byte at offset
  \<open>x\<close> from the start of the heap.
\<close>

definition init_base :: "memory_layout \<Rightarrow> u64" where
  "init_base L = HEAP_INIT_SHADOW L (HEAP_START L)"

definition heap_bit :: "memory_layout \<Rightarrow> mem \<Rightarrow> nat \<Rightarrow> bool" where
  "heap_bit L m x = mbit m (init_base L) x"

definition heap_offset :: "memory_layout \<Rightarrow> u64 \<Rightarrow> nat" where
  "heap_offset L a = unat (a - HEAP_START L)"

lemma init_shadow_offset:
  assumes "shadow_ratio (secondary (lay_heap L)) = 8"
  shows "HEAP_INIT_SHADOW L a = init_base L + of_nat (heap_offset L a div 8)"
proof -
  have "(a - HEAP_START L) div 8 = of_nat (heap_offset L a div 8)"
  proof (rule word_unat_eq_iff [THEN iffD2])
    have "heap_offset L a div 8 < 2 ^ 64" using unat_lt_64 [of "a - HEAP_START L"] unfolding heap_offset_def by linarith
    then show "unat ((a - HEAP_START L) div 8) = unat (of_nat (heap_offset L a div 8) :: u64)"
      using unat_of_nat_64 by (simp add: unat_div heap_offset_def)
  qed
  then show ?thesis using assms by (simp add: HEAP_INIT_SHADOW_def SCALED_SHADOW_ACCESS_def init_base_def HEAP_START_def)
qed

section \<open>Setting\<close>

lemma mbit_byte: "j < 8 \<Longrightarrow> mbit m p (8 * unat (a - p) + j) = bit (m a) j"
  by (simp add: mbit_def)

lemma bit_setbits_at:
  assumes "j < 8"
  shows "bit (setbits sz p m a) j \<longleftrightarrow> 8 * unat (a - p) + j < unat sz \<or> bit (m a) j"
proof -
  have "8 * unat (a - p) + j < 8 * 2 ^ 64" using unat_lt_64 [of "a - p"] assms by linarith
  then show ?thesis
    using mbit_setbits [of "8 * unat (a - p) + j" sz p m] mbit_byte [OF assms, of "setbits sz p m" p a]
      mbit_byte [OF assms, of m p a] by simp
qed

text \<open>A run of bits from a byte boundary.\<close>

lemma heap_bit_setbits:
  assumes "x < 2 ^ 62" and "8 * k < 2 ^ 62" and "n < 2 ^ 62"
  shows "heap_bit L (setbits (of_nat n) (init_base L + of_nat k) m) x \<longleftrightarrow>
    heap_bit L m x \<or> 8 * k \<le> x \<and> x < 8 * k + n"
proof -
  have un: "unat (of_nat n :: u64) = n" using assms(3) by (intro unat_of_nat_64) simp
  have xk: "x div 8 < 2 ^ 64" "k < 2 ^ 64" using assms(1,2) by auto
  let ?a = "init_base L + of_nat (x div 8)"
  have d: "?a - (init_base L + of_nat k) = of_nat (x div 8) - of_nat k" by simp
  have "8 * unat (?a - (init_base L + of_nat k)) + x mod 8 < n \<longleftrightarrow> 8 * k \<le> x \<and> x < 8 * k + n"
  proof (cases "k \<le> x div 8")
    case True
    have "(of_nat (x div 8) :: u64) - of_nat k = of_nat (x div 8 - k)" using True by (simp add: of_nat_diff)
    moreover have "x div 8 - k < 2 ^ 64" using xk by linarith
    ultimately have "unat (?a - (init_base L + of_nat k)) = x div 8 - k" unfolding d by (simp add: unat_of_nat_64)
    moreover have "8 * (x div 8 - k) + x mod 8 = x - 8 * k" "8 * k \<le> x" using True div_mult_mod_eq [of x 8] by linarith+
    ultimately show ?thesis by auto
  next
    case False
    have "unat (?a - (init_base L + of_nat k)) = 2 ^ 64 + x div 8 - k"
      unfolding d using False xk by (simp add: unat_sub_if' unat_of_nat_64)
    then have "\<not> 8 * unat (?a - (init_base L + of_nat k)) + x mod 8 < n" using assms(2,3) by simp
    moreover have "\<not> 8 * k \<le> x" using False by linarith
    ultimately show ?thesis by blast
  qed
  then show ?thesis
    unfolding heap_bit_def mbit_def by (subst bit_setbits_at) (auto simp: un)
qed

text \<open>The bits of one byte.\<close>

lemma heap_bit_byte:
  assumes "x < 2 ^ 62" and "k < 2 ^ 62" and "skip + c \<le> 8"
    and p_def: "p = init_base L + of_nat k"
  shows "heap_bit L (m(p := ucast (setbits64_skip c (ucast (m p)) skip))) x \<longleftrightarrow>
    heap_bit L m x \<or> 8 * k + skip \<le> x \<and> x < 8 * k + skip + c"
proof -
  have "init_base L + of_nat (x div 8) = p \<longleftrightarrow> x div 8 = k" using assms(1,2) by (simp add: p_def)
  moreover have "8 * k + skip \<le> x \<and> x < 8 * k + skip + c \<longleftrightarrow> skip \<le> x mod 8 \<and> x mod 8 < skip + c" if "x div 8 = k"
  proof -
    have "x = 8 * k + x mod 8" using that div_mult_mod_eq [of x 8] by linarith
    then show ?thesis by linarith
  qed
  moreover have "\<not> (8 * k + skip \<le> x \<and> x < 8 * k + skip + c)" if "x div 8 \<noteq> k"
    using that assms(3) div_mult_mod_eq [of x 8] mod_less_divisor [of 8 x] by linarith
  ultimately show ?thesis
    by (auto simp: heap_bit_def mbit_def bit_ucast_iff p_def)
qed

text \<open>\<^verbatim>\<open>initialize_heap_region\<close> sets exactly the bits of the region.\<close>

lemma initialize_heap_bits:
  assumes L: "shadow_ratio (secondary (lay_heap (layout s))) = 8"
    and o: "heap_offset (layout s) a + n < 2 ^ 60" and x: "x < 2 ^ 60"
  shows "heap_bit (layout s) (seg_mem (initialize_heap_region a (of_nat n) s)) x \<longleftrightarrow>
    heap_bit (layout s) (seg_mem s) x \<or>
    heap_offset (layout s) a \<le> x \<and> x < heap_offset (layout s) a + n"
proof -
  let ?L = "layout s" and ?m = "seg_mem s"
  define f where "f = heap_offset ?L a"
  define k where "k = f div 8"
  define skip where "skip = f mod 8"
  have f: "f = 8 * k + skip" "skip < 8" by (simp_all add: k_def skip_def)
  have sh: "HEAP_INIT_SHADOW ?L a = init_base ?L + of_nat k" using init_shadow_offset [OF L] by (simp add: f_def k_def)
  have sk: "unat ((a - HEAP_START ?L) mod 8) = skip" by (simp add: skip_def f_def heap_offset_def unat_mod)
  have n: "n < 2 ^ 60" using o by simp
  have len: "sint (of_nat n :: u64) = int n" using n by (intro sint_of_small) simp
  show ?thesis
  proof (cases "skip = 0")
    case True
    have "seg_mem (initialize_heap_region a (of_nat n) s) = (if 0 < n then setbits (of_nat n) (init_base ?L + of_nat k) ?m else ?m)"
      using True by (simp add: initialize_heap_region_def Let_def sk sh len)
    then show ?thesis
      using heap_bit_setbits [of x k n ?L ?m] x n o f True unfolding f_def [symmetric] by auto
  next
    case False
    define c where "c = (if n > 8 - skip then 8 - skip else n)"
    define m1 where "m1 = ?m(init_base ?L + of_nat k := ucast (setbits64_skip c (ucast (?m (init_base ?L + of_nat k))) skip))"
    have c: "nat (if int n > 8 - int skip then 8 - int skip else int n) = c" "c \<le> n" "skip + c \<le> 8"
      using f(2) by (auto simp: c_def nat_diff_distrib)
    have rest: "int n - (if int n > 8 - int skip then 8 - int skip else int n) = int (n - c)"
      using f(2) by (auto simp: c_def of_nat_diff)
    have "seg_mem (initialize_heap_region a (of_nat n) s) =
        (if 0 < n - c then setbits (of_nat (n - c)) (init_base ?L + of_nat (k + 1)) m1 else m1)"
      unfolding initialize_heap_region_def Let_def sk sh len
      using False by (simp add: rest c(1) m1_def add.commute add.left_commute del: of_nat_diff)
    moreover have "heap_bit ?L m1 x \<longleftrightarrow> heap_bit ?L ?m x \<or> f \<le> x \<and> x < f + c"
      unfolding m1_def using heap_bit_byte [of x k skip c _ ?L ?m] x o f c(3) by (simp add: f_def)
    moreover have "heap_bit ?L (setbits (of_nat (n - c)) (init_base ?L + of_nat (k + 1)) m1) x \<longleftrightarrow>
        heap_bit ?L m1 x \<or> 8 * (k + 1) \<le> x \<and> x < 8 * (k + 1) + (n - c)"
      using x o f n by (intro heap_bit_setbits) (auto simp: f_def)
    moreover have "8 * (k + 1) = f + c" if "0 < n - c" using that f by (auto simp: c_def split: if_splits)
    ultimately show ?thesis using c(2) unfolding f_def [symmetric] by auto
  qed
qed

section \<open>Checking\<close>

text \<open>From a byte boundary, \<^verbatim>\<open>heap_initialized\<close> checks exactly the bits of the region.\<close>

lemma heap_initialized_aligned:
  assumes L: "shadow_ratio (secondary (lay_heap (layout s))) = 8"
    and al: "heap_offset (layout s) a mod 8 = 0" and n: "n < 2 ^ 60"
  shows "heap_initialized a (of_nat n) s \<longleftrightarrow> (\<forall>i<n. heap_bit (layout s) (seg_mem s) (heap_offset (layout s) a + i))"
proof -
  have sh: "HEAP_INIT_SHADOW (layout s) a = init_base (layout s) + of_nat (heap_offset (layout s) a div 8)"
    using init_shadow_offset [OF L] .
  have sk: "unat ((a - HEAP_START (layout s)) mod 8) = 0" using al by (simp add: heap_offset_def unat_mod)
  have len: "sint (of_nat n :: u64) = int n" using n by (intro sint_of_small) simp
  have un: "unat (of_nat n :: u64) = n" using n by (intro unat_of_nat_64) simp
  have mb: "mbit (seg_mem s) (init_base (layout s) + of_nat (heap_offset (layout s) a div 8)) i =
      heap_bit (layout s) (seg_mem s) (heap_offset (layout s) a + i)" for i
  proof -
    obtain k where k: "heap_offset (layout s) a = 8 * k" using al by auto
    have "(8 * k + i) div 8 = k + i div 8" "(8 * k + i) mod 8 = i mod 8" by simp_all
    then show ?thesis by (simp add: heap_bit_def mbit_def k add.assoc)
  qed
  show ?thesis
    using mb un by (cases "n = 0") (simp_all add: heap_initialized_def Let_def sk len sh checkbits_iff)
qed

text \<open>
  Elsewhere it compares the whole byte with the bits it expects, so a neighbour that is
  initialized too makes it answer false.
\<close>

lemma heap_initialized_unaligned:
  assumes L: "shadow_ratio (secondary (lay_heap (layout s))) = 8"
    and skip: "0 < heap_offset (layout s) a mod 8" and n: "0 < n" "heap_offset (layout s) a mod 8 + n \<le> 8"
  shows "heap_initialized a (of_nat n) s \<longleftrightarrow>
    (\<forall>x<8. heap_bit (layout s) (seg_mem s) (8 * (heap_offset (layout s) a div 8) + x) \<longleftrightarrow>
       heap_offset (layout s) a mod 8 \<le> x \<and> x < heap_offset (layout s) a mod 8 + n)"
proof -
  let ?L = "layout s" and ?m = "seg_mem s"
  define f where "f = heap_offset ?L a"
  define skip where "skip = f mod 8"
  have sh: "HEAP_INIT_SHADOW ?L a = init_base ?L + of_nat (f div 8)" using init_shadow_offset [OF L] by (simp add: f_def)
  have sk: "unat ((a - HEAP_START ?L) mod 8) = skip" by (simp add: skip_def f_def heap_offset_def unat_mod)
  have s8: "0 < skip" "skip + n \<le> 8" using skip n by (simp_all add: skip_def f_def)
  have len: "sint (of_nat n :: u64) = int n" using s8 by (intro sint_of_small) simp
  have set: "(if int n > 8 - int skip then 8 - int skip else int n) = int n" using s8 by auto
  have "heap_initialized a (of_nat n) s \<longleftrightarrow> ?m (init_base ?L + of_nat (f div 8)) = ucast (setbits64_skip n 0 skip)"
    unfolding heap_initialized_def Let_def sk sh len set using s8 by simp
  also have "\<dots> \<longleftrightarrow> (\<forall>x<8. bit (?m (init_base ?L + of_nat (f div 8))) x \<longleftrightarrow> skip \<le> x \<and> x < skip + n)"
  proof
    assume "?m (init_base ?L + of_nat (f div 8)) = ucast (setbits64_skip n 0 skip)"
    then show "\<forall>x<8. bit (?m (init_base ?L + of_nat (f div 8))) x \<longleftrightarrow> skip \<le> x \<and> x < skip + n"
      by (auto simp: bit_ucast_iff)
  next
    assume h: "\<forall>x<8. bit (?m (init_base ?L + of_nat (f div 8))) x \<longleftrightarrow> skip \<le> x \<and> x < skip + n"
    show "?m (init_base ?L + of_nat (f div 8)) = ucast (setbits64_skip n 0 skip)"
      by (rule word8_eqI) (use h in \<open>auto simp: bit_ucast_iff\<close>)
  qed
  finally show ?thesis unfolding f_def [symmetric] skip_def [symmetric] by (simp add: heap_bit_def mbit_def)
qed

end
