(* ===== verification/Segment_Props.thy ===== *)
theory Segment_Props
  imports Segment_Tracker
begin

text \<open>The properties of the segment model on static memory, over the lemmas of \<open>Segment_Tracker\<close>.\<close>

section \<open>A concrete layout\<close>

definition ex_app :: "u64 \<Rightarrow> memory_segment" where
  "ex_app a = set_application_segment a 0x1000 ''app'' 0"

definition ex_shadow :: "memory_segment \<Rightarrow> u64 \<Rightarrow> u64 \<Rightarrow> memory_segment" where
  "ex_shadow app ratio start =
     (let sz = seg_size app div ratio
      in \<lparr>seg_name = ''shadow'', seg_size = sz, seg_start = start, seg_end = start + sz, seg_mspace = start,
          seg_parent = Some (seg_name app), shadow_ratio = ratio, shadow_offset = seg_start app - start\<rparr>)"

definition ex_partition :: "u64 \<Rightarrow> u64 \<Rightarrow> memory_partition" where
  "ex_partition a ratio =
     \<lparr>application = ex_app a, primary = ex_shadow (ex_app a) 1 (a + 0x2000), secondary = ex_shadow (ex_app a) ratio (a + 0x4000),
      temporal_primary = no_segment, temporal_secondary = no_segment\<rparr>"

definition ex_layout :: memory_layout where
  "ex_layout = \<lparr>lay_heap = ex_partition 0x100000 8, lay_stack = ex_partition 0x110000 1,
     lay_global = ex_partition 0x120000 1, lay_tls = ex_partition 0x130000 1, is_initialized = True\<rparr>"

definition ex_build :: build where
  "ex_build = \<lparr>temporal = False, weak_validity = False, free_valid_address = False\<rparr>"

definition ex_seg :: seg_state where
  "ex_seg = \<lparr>seg_mem = (\<lambda>_. 0), layout = ex_layout,
     spaces = \<lparr>rtl_mspace = 1, heap_mspace = 2, heap_start = 0x100000, heap_end = 0x101000, heap_mspace_least = 0x100000\<rparr>,
     seg_stats = \<lparr>heap_allocation_size = 0, heap_allocated_blocks = 0\<rparr>,
     temporal_timestamp = 2, mspaces_run = True, memory_run = True\<rparr>"

lemma ex_layout_wf: "layout_wf ex_layout"
  by (simp add: layout_wf_def shadows_def ex_layout_def ex_partition_def ex_shadow_def ex_app_def set_application_segment_def Let_def)

lemma ex_layout_ok: "layout_ok ex_layout"
proof -
  have "validate_shadow_layout False ex_layout = Inr ()" by code_simp
  then show ?thesis using ex_layout_wf by (simp add: layout_ok_def)
qed

lemma ex_plain: "plain ex_build"
  by (simp add: plain_def ex_build_def)

lemma ex_seg_layout [simp]: "layout ex_seg = ex_layout"
  by (simp add: ex_seg_def)

lemma ex_empty_rep: "seg_rep ex_seg Map.empty"
  unfolding seg_rep_def ex_seg_layout using ex_layout_ok by (simp add: separate_def ex_seg_def)

lemma ex_block: "static_block ex_layout 0x110040 24"
  unfolding static_block_def
  by (intro bexI [of _ "application (lay_stack ex_layout)"])
    (simp_all add: ex_layout_def ex_partition_def ex_app_def set_application_segment_def)

lemma ex_fits: "seg_fits ex_seg 0x110040 24"
  using ex_block ex_layout_ok by (simp add: seg_fits_def)

lemma ex_apart: "apart_from Map.empty p n"
  by (simp add: apart_from_def covered_def)

text \<open>The state with one block of 24 bytes on the stack.\<close>

definition ex_seg1 :: seg_state where
  "ex_seg1 = (case seg_store ex_build 0x110040 24 ex_seg of Some s \<Rightarrow> s | None \<Rightarrow> ex_seg)"

lemma ex_seg1_rep: "seg_rep ex_seg1 [0x110040 \<mapsto> 24]" and ex_seg1_layout: "layout ex_seg1 = ex_layout"
  and ex_seg1_inits: "seg_inits ex_seg1 = {}"
proof -
  obtain s' where s': "seg_store ex_build 0x110040 24 ex_seg = Some s'" "seg_rep s' [0x110040 \<mapsto> 24]"
      "layout s' = layout ex_seg" "seg_inits s' = seg_inits ex_seg"
    using seg_store_rep [OF ex_plain ex_empty_rep ex_fits ex_apart] by blast
  then have e: "ex_seg1 = s'" by (simp add: ex_seg1_def)
  show "seg_rep ex_seg1 [0x110040 \<mapsto> 24]" "layout ex_seg1 = ex_layout" using s' e by simp_all
  show "seg_inits ex_seg1 = {}" using s'(4) e by (simp add: seg_inits_def ex_seg_def)
qed

lemma ex_off_heap: "\<not> IS_ON_HEAP ex_layout 0x110048"
  by (simp add: IS_ON_HEAP_def IS_ON_def ex_layout_def ex_partition_def ex_app_def set_application_segment_def)

section \<open>Properties\<close>

text \<open>
  C18: in a layout that is set up by the start-up functions and that the library's own check
  accepts, every byte of the stack, of the globals and of thread-local memory has a primary and a
  secondary shadow byte of its own: no two of them coincide, and none is at the null address.
\<close>

theorem shadow_bytes_distinct:
  assumes "layout_wf L" and "validate_shadow_layout False L = Inr ()"
    and "IS_ON_STATIC L a" and "IS_ON_STATIC L b"
  shows "PRIMARY_SHADOW L a \<noteq> 0 \<and> SECONDARY_SHADOW L a \<noteq> 0 \<and> PRIMARY_SHADOW L a \<noteq> SECONDARY_SHADOW L b \<and>
    (PRIMARY_SHADOW L a = PRIMARY_SHADOW L b \<longleftrightarrow> a = b) \<and> (SECONDARY_SHADOW L a = SECONDARY_SHADOW L b \<longleftrightarrow> a = b)"
proof -
  have "layout_ok L" using assms(1,2) by (simp add: layout_ok_def)
  then show ?thesis using static_shadow_inj [of L a b] static_shadow_on(3,4) [of L a] assms(3,4) by blast
qed

theorem shadow_bytes_distinct_witness:
  "PRIMARY_SHADOW ex_layout 0x110040 \<noteq> SECONDARY_SHADOW ex_layout 0x120040"
proof -
  have "IS_ON_STATIC ex_layout 0x110040" "IS_ON_STATIC ex_layout 0x120040"
    by (simp_all add: IS_ON_STATIC_def IS_ON_STACK_def IS_ON_GLOBAL_def IS_ON_def ex_layout_def ex_partition_def ex_app_def
        set_application_segment_def)
  then show ?thesis using shadow_bytes_distinct [OF ex_layout_wf, of "0x110040" "0x120040"] ex_layout_ok by (simp add: layout_ok_def)
qed



text \<open>
  For every byte of a tracked static block, \<^verbatim>\<open>base_addr\<close>, \<^verbatim>\<open>block_length\<close> and \<^verbatim>\<open>offset\<close> return
  the base of the block, its length and the distance from its base, for short and long blocks alike.
\<close>

theorem seg_block_queries:
  assumes "seg_rep s B" and "B p = Some n" and "inside p n a"
  shows "base_addr_seg a s = Some (Inr p) \<and> block_length_seg a s = Some (Inr (of_nat n)) \<and>
    offset_seg a s = Some (Inr (a - p))"
  using rep_predicate [OF assms, of BaseQ] rep_predicate [OF assms, of LengthQ] rep_predicate [OF assms, of OffsetQ]
  by (simp add: base_addr_seg_def block_length_seg_def offset_seg_def predicate_def)

theorem seg_block_queries_witness:
  "base_addr_seg 0x110055 ex_seg1 = Some (Inr 0x110040) \<and> block_length_seg 0x110055 ex_seg1 = Some (Inr 24) \<and>
    offset_seg 0x110055 ex_seg1 = Some (Inr 21)"
  using seg_block_queries [OF ex_seg1_rep, of "0x110040" 24 "0x110055"] by (simp add: inside_def)

text \<open>
  C21: \<^verbatim>\<open>initialize\<close> of a range inside a tracked static block returns, keeps all blocks, and sets
  exactly the bytes of the range; \<^verbatim>\<open>initialized\<close> then answers true for a range inside a block iff
  all of its bytes have been initialized.
\<close>

theorem seg_initialize_correct:
  assumes "plain bld" and "seg_rep s B" and "accessible B ptr sz ptr" and "accessible B q k q"
  shows "\<exists>s'. initialize_seg ptr (of_nat sz) s = Some (Inr s') \<and> seg_rep s' B \<and>
    seg_inits s' = seg_inits s \<union> {a. inside ptr sz a} \<and>
    initialized_seg bld q (of_nat k) s' = Some (\<forall>a. inside q k a \<longrightarrow> a \<in> seg_inits s \<or> inside ptr sz a)"
proof -
  obtain s' where s': "initialize_seg ptr (of_nat sz) s = Some (Inr s')" "seg_rep s' B"
      "seg_inits s' = seg_inits s \<union> {a. inside ptr sz a}"
    using rep_initialize [OF assms(2,3)] by blast
  then show ?thesis
    using rep_initialized [OF s'(2) assms(4), of bld] assms(1) by (auto simp: plain_def)
qed

lemma ex_accessible: "accessible [0x110040 \<mapsto> 24] 0x110048 8 0x110048"
  unfolding accessible_def by (intro exI [of _ "0x110040"] exI [of _ 24]) (simp add: inside_def)

theorem seg_initialize_correct_witness:
  "\<exists>s'. initialize_seg 0x110048 8 ex_seg1 = Some (Inr s') \<and> initialized_seg ex_build 0x110048 8 s' = Some True"
  using seg_initialize_correct [OF ex_plain ex_seg1_rep ex_accessible ex_accessible] by auto

text \<open>
  The memory of a deleted block that is given to a new block counts as uninitialized there,
  whatever was initialized before.
\<close>

theorem seg_reuse_uninitialized:
  assumes "plain bld" and "seg_rep s B" and "B p = Some n" and "seg_fits s p k" and "apart_from (B(p := None)) p k"
    and "inside p k ptr" and "accessible (B(p \<mapsto> k)) ptr sz ptr" and "0 < sz" and "sz < 2 ^ 31"
  shows "\<exists>s1 s2. seg_delete bld p s = Some s1 \<and> seg_store bld p k s1 = Some s2 \<and>
    initialized_seg bld ptr (of_nat sz) s2 = Some False"
  using segm.reused_memory_uninitialized [OF assms(2-5,7,6,8,9,1)] by (simp add: seg_initialized_def)

theorem seg_reuse_uninitialized_witness:
  "\<exists>s1 s2. seg_delete ex_build 0x110040 ex_seg1 = Some s1 \<and> seg_store ex_build 0x110040 24 s1 = Some s2 \<and>
    initialized_seg ex_build 0x110048 8 s2 = Some False"
proof -
  have f: "seg_fits ex_seg1 0x110040 24" using ex_fits by (simp add: seg_fits_def ex_seg1_layout)
  have "apart_from ([0x110040 \<mapsto> 24](0x110040 := None)) 0x110040 24" using ex_apart by simp
  from seg_reuse_uninitialized [OF ex_plain ex_seg1_rep _ f this, of 24 "0x110048" 8] ex_accessible
  show ?thesis by (auto simp: inside_def)
qed

lemma global_block:
  assumes L: "layout_ok L" and p: "static_block L p n" and g: "IS_ON_GLOBAL L p" and i: "i \<le> n"
  shows "IS_ON_GLOBAL L (p + of_nat i)" and "PRIMARY_SHADOW L (p + of_nat i) = PRIMARY_GLOBAL_SHADOW L (p + of_nat i)"
proof -
  have on: "IS_ON_STATIC L (p + of_nat j)" if "j \<le> n" for j using static_block_on(1) [OF p that] .
  have "IS_ON p (all_segments L ! 6)" using g by (simp add: IS_ON_GLOBAL_def all_segments_def)
  moreover have "IS_ON p (all_segments L ! static_pos L p)" using static_pos_on [of L p] on [of 0] by simp
  ultimately have "static_pos L p = 6"
    using layout_ok_disjoint [OF L, of p "static_pos L p" 6] static_pos_less [of L p] by simp
  then have s6: "static_pos L (p + of_nat i) = 6" using static_block_pos [OF L p i] by simp
  show "IS_ON_GLOBAL L (p + of_nat i)"
    using static_pos_on [OF on [OF i]] s6 by (simp add: IS_ON_GLOBAL_def all_segments_def)
  show "PRIMARY_SHADOW L (p + of_nat i) = PRIMARY_GLOBAL_SHADOW L (p + of_nat i)"
    using shadow_addresses(1) [OF on [OF i]] s6
    by (simp add: PRIMARY_GLOBAL_SHADOW_def SHADOW_ACCESS_def all_segments_def)
qed

text \<open>
  \<^verbatim>\<open>mark_readonly\<close> of a tracked global block returns and keeps all blocks; an access in the block
  that was valid can then still be read and can no longer be written.
\<close>

theorem seg_readonly_correct:
  assumes "plain bld" and "seg_rep s B" and "B p = Some n" and "IS_ON_GLOBAL (layout s) p"
    and "inside p n ptr" and "accessible B ptr sz base" and "sz < 2 ^ 63"
  shows "\<exists>s'. mark_readonly_seg p s = Some (Inr s') \<and> seg_rep s' B \<and>
    valid_read_seg bld ptr (of_nat sz) base addrof s' = Some (Inr True) \<and>
    valid_seg bld ptr (of_nat sz) base addrof s' = Some (Inr False)"
proof -
  note r = seg_repD [OF assms(2)] and t = seg_trackedD [OF seg_repD(3) [OF assms(2,3)]]
  have ip: "inside p n p" using t(2) by simp
  have acc: "accessible B p n p" using accessible_iff [OF r(2) assms(3) ip] ip by simp
  define s' where "s' = flagged READONLY_BIT static_readonly_masks (PRIMARY_SHADOW (layout s) p) n s"
  note fl = rep_flagged [OF assms(2) acc flag_masks_tables(2), folded s'_def]
  have rep': "seg_rep s' B" using fl(1) by (simp add: READONLY_BIT_def)
  have L: "layout s' = layout s" by (simp add: s'_def flagged_def)
  have "sint (of_nat n :: u64) = int n" using t(3) by (intro sint_of_small) simp
  then have mk: "mark_readonly_seg p s = Some (Inr s')"
    using rep_predicate [OF assms(2,3) ip, of LengthQ] global_block(2) [OF r(1) t(1) assms(4), of 0]
    by (simp add: mark_readonly_seg_def andthen_def mark_readonly_region_def s'_def flagged_def)
  note a = inside_static [OF t(1) assms(5)]
  have g: "IS_ON_GLOBAL (layout s) ptr" "PRIMARY_SHADOW (layout s) ptr = PRIMARY_GLOBAL_SHADOW (layout s) ptr"
    using global_block [OF r(1) t(1) assms(4), of "unat (ptr - p)"] a(3) by simp_all
  have "bit (seg_mem s' (PRIMARY_SHADOW (layout s) ptr)) READONLY_BIT"
    using fl(2) [OF _ a(1)] assms(5) by (simp add: READONLY_BIT_def)
  then have ro: "readonly_seg ptr s'" using g by (simp add: readonly_seg_def global_readonly_def L)
  have nt: "\<not> temporal bld" "\<not> weak_validity bld" using assms(1) by (simp_all add: plain_def)
  have "\<not> IS_ON_HEAP (layout s') ptr" using static_not_heap [OF r(1) a(1)] L by simp
  then have "allocated_seg bld ptr (of_nat sz) base s' = Some True"
    using rep_allocated [OF rep' _ nt(2) assms(7)] assms(6) by simp
  then show ?thesis using mk rep' ro nt by (intro exI [of _ s']) (simp add: valid_read_seg_def valid_seg_def)
qed

theorem seg_readonly_correct_witness:
  "\<exists>s s'. seg_store ex_build 0x120010 12 ex_seg = Some s \<and> mark_readonly_seg 0x120010 s = Some (Inr s') \<and>
    valid_seg ex_build 0x120018 4 0x120010 0 s' = Some (Inr False)"
proof -
  have "static_block ex_layout 0x120010 12"
    unfolding static_block_def
    by (intro bexI [of _ "application (lay_global ex_layout)"])
      (simp_all add: ex_layout_def ex_partition_def ex_app_def set_application_segment_def)
  then have f: "seg_fits ex_seg 0x120010 12" using ex_layout_ok by (simp add: seg_fits_def)
  obtain s where s: "seg_store ex_build 0x120010 12 ex_seg = Some s" "seg_rep s [0x120010 \<mapsto> 12]" "layout s = layout ex_seg"
    using seg_store_rep [OF ex_plain ex_empty_rep f ex_apart] by blast
  have "IS_ON_GLOBAL (layout s) 0x120010"
    using s(3) by (simp add: IS_ON_GLOBAL_def IS_ON_def ex_layout_def ex_partition_def ex_app_def set_application_segment_def)
  moreover have "accessible [0x120010 \<mapsto> 12] 0x120018 4 0x120010"
    unfolding accessible_def by (intro exI [of _ "0x120010"] exI [of _ 12]) (simp add: inside_def)
  moreover have "inside 0x120010 12 0x120018" by (simp add: inside_def)
  ultimately show ?thesis
    using seg_readonly_correct [OF ex_plain s(2), of "0x120010" 12 "0x120018" 4 "0x120010" 0] s(1) by auto
qed

lemma allocated_size_wraps:
  assumes "seg_rep s B" and "B p = Some n" and "0 < i" and "i < n"
  shows "allocated_seg bld (p + of_nat i) (- of_nat i) (p + of_nat i) s = Some True"
proof -
  note t = seg_trackedD [OF seg_repD(3) [OF assms(1,2)]]
  have u: "unat (p + of_nat i - p) = i" using assms(4) t(3) by (simp add: unat_of_nat_64)
  then have ins: "inside p n (p + of_nat i)" using assms(4) unfolding inside_def by simp
  note d = rep_decode [OF assms(1,2) ins]
  have "static_allocated bld (p + of_nat i) (- of_nat i) (p + of_nat i) s = Some True"
    using d(2-4) by (simp add: static_allocated_def shadow_ptr_def)
  then show ?thesis
    using d(1) static_not_heap [OF seg_repD(1) [OF assms(1)] d(1)] by (simp add: allocated_seg_def TRY_SEGMENT_WEAK_def)
qed

text \<open>
  The size of an access is added to the offset without an overflow check: at offset \<open>i > 0\<close> of a
  tracked block, \<^verbatim>\<open>valid_read\<close> accepts the size \<open>2^64 - i\<close>.
\<close>

theorem seg_valid_size_wraps:
  assumes "plain bld" and "seg_rep s B" and "B p = Some n" and "0 < i" and "i < n"
  shows "valid_read_seg bld (p + of_nat i) (- of_nat i) (p + of_nat i) addrof s = Some (Inr True)"
  using allocated_size_wraps [OF assms(2-5), of bld] assms(1) by (simp add: valid_read_seg_def plain_def)

theorem seg_valid_size_wraps_witness:
  "valid_read_seg ex_build 0x110041 (- 1) 0x110041 0 ex_seg1 = Some (Inr True)"
  using seg_valid_size_wraps [OF ex_plain ex_seg1_rep, of "0x110040" 24 1 0] by simp

text \<open>
  A block of size zero is marked by its read-only bit alone. \<^verbatim>\<open>delete_block\<close> clears as many
  shadow bytes as the block is long, none, so the block stays known: after its deletion
  \<^verbatim>\<open>valid_read\<close> of no bytes at its address is still true.
\<close>

theorem seg_zero_block_stays:
  assumes "plain bld" and "seg_rep s B" and "IS_ON_STATIC (layout s) p" and "\<not> covered B p"
  shows "\<exists>s1 s2. store_block_seg bld p 0 s = Some (p, s1) \<and> delete_block_seg bld p s1 = Some (Inr s2) \<and>
    valid_read_seg bld p 0 p addrof s = Some (Inr False) \<and> valid_read_seg bld p 0 p addrof s2 = Some (Inr True)"
proof -
  note r = seg_repD [OF assms(2)]
  note sh = static_shadow_on(3,4) [OF r(1) assms(3)] and heap = static_not_heap [OF r(1) assms(3)]
  define m1 where "m1 = (seg_mem s)(PRIMARY_SHADOW (layout s) p := 2)"
  have z: "seg_mem s (PRIMARY_SHADOW (layout s) p) = 0" using r(4) [OF assms(3,4)] .
  have b2: "setbit READONLY_BIT (0 :: u8) = 2" by (simp add: setbit_def READONLY_BIT_def push_bit_eq_mult)
  have nt: "\<not> temporal bld" "\<not> weak_validity bld" using assms(1) by (simp_all add: plain_def)
  have st: "store_block_seg bld p 0 s = Some (p, s\<lparr>seg_mem := m1\<rparr>)"
    using sh nt z b2
    by (simp add: store_block_seg_def shadow_alloca_def shadow_ptr_def IS_LONG_BLOCK_def nth_opt_def short_offsets_base_def m1_def)
  have dec: "static_decode p 2 s' = Some (0, 0)" for s' :: "'a seg_state_scheme"
    by (simp add: static_decode_def LONG_BLOCK_INDEX_START_def nth_opt_def short_offsets_def short_lengths_def drop_bit_eq_div)
  have al: "allocated_seg bld p 0 p (s\<lparr>seg_mem := m1\<rparr>) = Some True"
    using sh(1) heap assms(3) dec by (simp add: allocated_seg_def TRY_SEGMENT_WEAK_def static_allocated_def shadow_ptr_def m1_def)
  have "predicate p LengthQ (s\<lparr>seg_mem := m1\<rparr>) = Some (Inr 0)"
    using sh(1) heap assms(3) dec
    by (simp add: predicate_def TRY_SEGMENT_def TRY_SEGMENT_WEAK_def static_info_def shadow_ptr_def m1_def)
  then have "delete_block_seg bld p (s\<lparr>seg_mem := m1\<rparr>) = Some (Inr (s\<lparr>seg_mem := m1\<rparr>))"
    using sh nt by (simp add: delete_block_seg_def shadow_freea_def shadow_ptr_def)
  moreover have "\<not> accessible B p 0 p" using assms(4) accessible_covered by blast
  then have "valid_read_seg bld p 0 p addrof s = Some (Inr False)"
    using rep_valid_read [OF assms(2) _ _ assms(1), of p 0 p addrof] heap by (simp add: seg_dom_def)
  ultimately show ?thesis using st al nt by (auto simp: valid_read_seg_def)
qed

theorem seg_zero_block_stays_witness:
  "\<exists>s1 s2. store_block_seg ex_build 0x110040 0 ex_seg = Some (0x110040, s1) \<and>
    delete_block_seg ex_build 0x110040 s1 = Some (Inr s2) \<and>
    valid_read_seg ex_build 0x110040 0 0x110040 0 s2 = Some (Inr True)"
proof -
  have "IS_ON_STATIC (layout ex_seg) 0x110040" using static_block_on(1) [OF ex_block, of 0] by simp
  then show ?thesis using seg_zero_block_stays [OF ex_plain ex_empty_rep, of "0x110040" 0] by (auto simp: covered_def)
qed

end
