(* ===== verification/Segment_Heap_Props.thy ===== *)
theory Segment_Heap_Props
  imports Segment_Heap_Init Segment_Props
begin

text \<open>The properties of the segment model on heap memory.\<close>

section \<open>A concrete allocator\<close>

definition ex_heap_alloc :: "seg_state public_alloc" where
  "ex_heap_alloc = \<lparr>public_malloc = (\<lambda>_ _. 0x100040), public_calloc = (\<lambda>_ _ _. 0x100040),
     public_aligned_alloc = (\<lambda>_ _ _. 0x100040), public_posix_memalign = (\<lambda>_ _ _. (0, 0x100040)),
     public_realloc = (\<lambda>_ p _. p)\<rparr>"

definition ex_env :: rt_env where
  "ex_env = \<lparr>rt_mspaces = \<lparr>create_mspace = (\<lambda>_ _. 2), mspace_malloc1 = (\<lambda>_. 0x100000), mspace_least_addr = (\<lambda>_. 0x100000)\<rparr>,
     rt_process = \<lparr>getrlimit = None, setrlimit_ok = (\<lambda>_. True), executable_start = 0x120000, end_symbol = 0x121000,
       id_tdata = 0x130000, id_tbss = 0x130008, environ_strings = []\<rparr>,
     rt_build = ex_build\<rparr>"

lemma asz_40: "asz 40 = 64"
  by (simp add: asz_def)

lemma ex_heap_block: "heap_block ex_layout 0x100040 40"
  by (simp add: heap_block_def asz_40 HEAP_START_def ex_layout_def ex_partition_def ex_app_def set_application_segment_def)

lemma ex_heap_rep: "heap_rep ex_seg Map.empty"
proof -
  have "load64 (\<lambda>_. 0) a = 0" for a by (rule bit_word_eqI) simp
  moreover have "heap_aligned ex_layout"
    by (simp add: heap_aligned_def HEAP_START_def ex_layout_def ex_partition_def ex_app_def set_application_segment_def)
  ultimately show ?thesis
    unfolding heap_rep_def ex_seg_layout using ex_layout_ok by (simp add: separate_def heap_sizes_def ex_seg_def)
qed

lemma ex_heap_apart: "apart_from (heap_sizes Map.empty) p n"
  by (simp add: apart_from_def covered_def heap_sizes_def)

text \<open>The state after \<^verbatim>\<open>malloc(40)\<close>.\<close>

definition ex_tracked :: seg_state where
  "ex_tracked = ex_seg\<lparr>seg_stats := update_heap_allocation 40 (seg_stats ex_seg),
     seg_mem := heap_mem ex_layout 0x100040 40 (seg_mem ex_seg)\<rparr>"

lemma ex_tracked: "malloc_seg ex_env ex_heap_alloc 40 ex_seg = Inr (0x100040, ex_tracked)" "heap_rep ex_tracked [0x100040 \<mapsto> 40]"
    "layout ex_tracked = ex_layout"
proof -
  have "\<not> temporal (rt_build ex_env)" "mspaces_run ex_seg" "public_malloc ex_heap_alloc ex_seg (of_nat (asz 40)) = 0x100040"
    "heap_mspace_least (spaces ex_seg) = mspace_least_addr (rt_mspaces ex_env) (heap_mspace (spaces ex_seg))"
    "0x100040 + of_nat (asz 40) < heap_end (spaces ex_seg)" "heap_block (layout ex_seg) 0x100040 40"
    using ex_heap_block by (simp_all add: ex_env_def ex_build_def ex_seg_def ex_heap_alloc_def asz_40)
  note m = malloc_rep [OF ex_heap_rep this(2,1,3,6) ex_heap_apart this(4,5)]
  show "malloc_seg ex_env ex_heap_alloc 40 ex_seg = Inr (0x100040, ex_tracked)" "heap_rep ex_tracked [0x100040 \<mapsto> 40]"
    "layout ex_tracked = ex_layout"
    using m by (simp_all add: ex_tracked_def ex_seg_layout)
qed

section \<open>Properties\<close>

text \<open>
  C19: when the application allocator returns a segment-aligned region of the heap apart from the
  tracked blocks and the heap has not moved or run out, \<^verbatim>\<open>malloc\<close> returns it and tracks exactly this
  block besides the others, and counts it; \<^verbatim>\<open>free\<close> of the result then returns, untracks it, clears its
  init shadow and restores the allocated size, and a second \<^verbatim>\<open>free\<close> aborts. The count of blocks is
  not decremented.
\<close>

theorem seg_malloc_free:
  assumes "heap_rep s H" and "mspaces_run s" and "\<not> temporal (rt_build E)"
    and "public_malloc pa s (of_nat (asz n)) = p" and "heap_block (layout s) p n"
    and "apart_from (heap_sizes H) p (asz n)"
    and "heap_mspace_least (spaces s) = mspace_least_addr (rt_mspaces E) (heap_mspace (spaces s))"
    and "p + of_nat (asz n) < heap_end (spaces s)"
  shows "\<exists>s1 s2. malloc_seg E pa (of_nat n) s = Inr (p, s1) \<and> heap_rep s1 (H(p \<mapsto> n)) \<and>
    seg_stats s1 = update_heap_allocation (of_nat n) (seg_stats s) \<and>
    free_seg (rt_build E) p s1 = Inr s2 \<and> heap_rep s2 H \<and>
    (\<forall>i < asz n div 8. seg_mem s2 (HEAP_INIT_SHADOW (layout s) p + of_nat i) = 0) \<and>
    free_seg (rt_build E) p s2 = Inl ''Not a start of block in free'' \<and>
    heap_allocation_size (seg_stats s2) = heap_allocation_size (seg_stats s) \<and>
    heap_allocated_blocks (seg_stats s2) = heap_allocated_blocks (seg_stats s) + 1"
proof -
  note b = heap_blockD [OF assms(5)]
  define s1 where "s1 = s\<lparr>seg_stats := update_heap_allocation (of_nat n) (seg_stats s), seg_mem := heap_mem (layout s) p n (seg_mem s)\<rparr>"
  note m = malloc_rep [OF assms, folded s1_def]
  have L1: "layout s1 = layout s" by (simp add: s1_def)
  have "(H(p \<mapsto> n)) p = Some n" by simp
  then obtain s2 where s2: "free_seg (rt_build E) p s1 = Inr s2" "heap_rep s2 ((H(p \<mapsto> n))(p := None))" "layout s2 = layout s1"
      "seg_stats s2 = (seg_stats s1)\<lparr>heap_allocation_size := heap_allocation_size (seg_stats s1) - of_nat n\<rparr>"
      "\<And>i. i < asz n div 8 \<Longrightarrow> seg_mem s2 (HEAP_INIT_SHADOW (layout s1) p + of_nat i) = 0"
    using free_rep [OF m(2) _ assms(3), of p n] by blast
  have "inside p (asz n) p" using b(8) by simp
  then have Hp: "H p = None" using assms(6) heap_base_covered(2) [OF assms(1), of p] by (cases "H p") (auto simp: apart_from_def)
  then have H: "(H(p \<mapsto> n))(p := None) = H" by auto
  then have r2: "heap_rep s2 H" using s2(2) by simp
  have "heap_addr (layout s2) p" using b(5,6,8) s2(3) L1 by (simp add: heap_addr_def word_less_nat_alt)
  then have "\<not> freeable_seg p s2" using rep_freeable [OF r2] Hp by simp
  then have dbl: "free_seg (rt_build E) p s2 = Inl ''Not a start of block in free''" using b(1) by (simp add: free_seg_def)
  have pos: "0 < sint (of_nat n :: u64)" using b(3,4) by (subst sint_of_small) simp_all
  have "heap_allocation_size (seg_stats s2) = heap_allocation_size (seg_stats s)"
    "heap_allocated_blocks (seg_stats s2) = heap_allocated_blocks (seg_stats s) + 1"
    using s2(4) pos by (simp_all add: s1_def update_heap_allocation_def Let_def)
  then show ?thesis using m s2(1,5) r2 dbl L1 by (intro exI [of _ s1] exI [of _ s2]) (simp add: s1_def)
qed

theorem seg_malloc_free_witness:
  "\<exists>s1 s2. malloc_seg ex_env ex_heap_alloc 40 ex_seg = Inr (0x100040, s1) \<and>
    free_seg ex_build 0x100040 s1 = Inr s2 \<and> free_seg ex_build 0x100040 s2 = Inl ''Not a start of block in free'' \<and>
    heap_allocated_blocks (seg_stats s2) = 1"
proof -
  have "\<not> temporal (rt_build ex_env)" "mspaces_run ex_seg" "public_malloc ex_heap_alloc ex_seg (of_nat (asz 40)) = 0x100040"
    "heap_mspace_least (spaces ex_seg) = mspace_least_addr (rt_mspaces ex_env) (heap_mspace (spaces ex_seg))"
    "0x100040 + of_nat (asz 40) < heap_end (spaces ex_seg)" "heap_block (layout ex_seg) 0x100040 40"
    using ex_heap_block by (simp_all add: ex_env_def ex_build_def ex_seg_def ex_heap_alloc_def asz_40)
  from seg_malloc_free [OF ex_heap_rep this(2,1,3,6) ex_heap_apart this(4,5)]
  show ?thesis by (auto simp: ex_env_def ex_seg_def)
qed



text \<open>
  \<^verbatim>\<open>initialize\<close> of a heap region, at any offset within a shadow byte, sets exactly the bits of its
  bytes in the init shadow; \<^verbatim>\<open>initialized\<close> at an address whose bit starts a shadow byte is true iff
  all the bits of the region are set.
\<close>

theorem seg_heap_initialize:
  assumes "layout_wf (layout s)" and "IS_ON_HEAP (layout s) a" and "heap_offset (layout s) a + n < 2 ^ 60"
  shows "\<exists>s'. initialize_seg a (of_nat n) s = Some (Inr s') \<and> layout s' = layout s \<and>
    (\<forall>x < 2 ^ 60. heap_bit (layout s) (seg_mem s') x \<longleftrightarrow>
       heap_bit (layout s) (seg_mem s) x \<or> heap_offset (layout s) a \<le> x \<and> x < heap_offset (layout s) a + n) \<and>
    (heap_offset (layout s) a mod 8 = 0 \<longrightarrow>
       initialized_seg bld a (of_nat n) s = Some (\<forall>i<n. heap_bit (layout s) (seg_mem s) (heap_offset (layout s) a + i)))"
proof -
  have r: "shadow_ratio (secondary (lay_heap (layout s))) = 8" using assms(1) by (simp add: layout_wf_def shadows_def)
  let ?s = "initialize_heap_region a (of_nat n) s"
  have "layout ?s = layout s" by (simp add: initialize_heap_region_def Let_def split: prod.split)
  moreover have "initialize_seg a (of_nat n) s = Some (Inr ?s)"
    using assms(2) by (simp add: initialize_seg_def TRY_SEGMENT_def TRY_SEGMENT_WEAK_def)
  moreover have "initialized_seg bld a (of_nat n) s = Some (\<forall>i<n. heap_bit (layout s) (seg_mem s) (heap_offset (layout s) a + i))"
    if "heap_offset (layout s) a mod 8 = 0"
    using heap_initialized_aligned [OF r that, of n] assms(2,3) by (simp add: initialized_seg_def TRY_SEGMENT_WEAK_def)
  ultimately show ?thesis using initialize_heap_bits [OF r assms(3)] by (intro exI [of _ ?s]) simp
qed

lemma ex_heap_on: "IS_ON_HEAP ex_layout 0x100041" "IS_ON_HEAP ex_layout 0x100040"
  by (simp_all add: IS_ON_HEAP_def IS_ON_def ex_layout_def ex_partition_def ex_app_def set_application_segment_def)

lemma ex_heap_offset: "heap_offset ex_layout 0x100041 = 65" "heap_offset ex_layout 0x100040 = 64"
  by (simp_all add: heap_offset_def HEAP_START_def ex_layout_def ex_partition_def ex_app_def set_application_segment_def)

theorem seg_heap_initialize_witness:
  "\<exists>s'. initialize_seg 0x100041 5 ex_seg = Some (Inr s') \<and> heap_bit ex_layout (seg_mem s') 69 \<and> \<not> heap_bit ex_layout (seg_mem s') 70"
proof -
  have "\<not> heap_bit ex_layout (seg_mem ex_seg) 70" by (simp add: heap_bit_def mbit_def ex_seg_def)
  then show ?thesis
    using seg_heap_initialize [of ex_seg "0x100041" 5 ex_build] ex_layout_wf ex_heap_on(1) ex_heap_offset(1) by auto
qed

text \<open>
  At an address whose bit lies inside a shadow byte, \<^verbatim>\<open>initialized\<close> compares the whole byte with
  the bits of the region: it is false as soon as another byte that shares the shadow byte has been
  initialized, although the region is.
\<close>

theorem seg_heap_initialized_false_negative:
  assumes "layout_wf (layout s)" and "IS_ON_HEAP (layout s) a" and "0 < n"
    and "0 < heap_offset (layout s) a mod 8" and "heap_offset (layout s) a mod 8 + n \<le> 8"
    and "y div 8 = heap_offset (layout s) a div 8" and "heap_bit (layout s) (seg_mem s) y"
    and "y < heap_offset (layout s) a \<or> heap_offset (layout s) a + n \<le> y"
  shows "initialized_seg bld a (of_nat n) s = Some False"
proof -
  let ?f = "heap_offset (layout s) a"
  have r: "shadow_ratio (secondary (lay_heap (layout s))) = 8" using assms(1) by (simp add: layout_wf_def shadows_def)
  have e: "y = 8 * (?f div 8) + y mod 8" "?f = 8 * (?f div 8) + ?f mod 8" using assms(6) by (metis mult_div_mod_eq)+
  then have "\<not> (?f mod 8 \<le> y mod 8 \<and> y mod 8 < ?f mod 8 + n)" using assms(8) by linarith
  moreover have "heap_bit (layout s) (seg_mem s) (8 * (?f div 8) + y mod 8)" using assms(7) e(1) by simp
  ultimately have "\<not> heap_initialized a (of_nat n) s"
    unfolding heap_initialized_unaligned [OF r assms(4,3,5)] by (metis mod_less_divisor zero_less_numeral)
  then show ?thesis using assms(2) by (simp add: initialized_seg_def TRY_SEGMENT_WEAK_def)
qed

theorem seg_heap_initialized_false_negative_witness:
  "\<exists>s'. initialize_seg 0x100040 8 ex_seg = Some (Inr s') \<and> heap_bit ex_layout (seg_mem s') 65 \<and> heap_bit ex_layout (seg_mem s') 66 \<and>
    initialized_seg ex_build 0x100041 2 s' = Some False"
proof -
  let ?s = "initialize_heap_region 0x100040 8 ex_seg"
  have L: "layout ?s = ex_layout" by (simp add: initialize_heap_region_def Let_def split: prod.split)
  have i: "initialize_seg 0x100040 8 ex_seg = Some (Inr ?s)"
    using ex_heap_on(2) by (simp add: initialize_seg_def TRY_SEGMENT_def TRY_SEGMENT_WEAK_def)
  have "shadow_ratio (secondary (lay_heap (layout ex_seg))) = 8" using ex_layout_wf by (simp add: layout_wf_def shadows_def)
  then have bits: "heap_bit ex_layout (seg_mem ?s) x \<longleftrightarrow> heap_bit ex_layout (seg_mem ex_seg) x \<or> 64 \<le> x \<and> x < 72" if "x < 100" for x
    using initialize_heap_bits [of ex_seg "0x100040" 8 x] that ex_heap_offset(2) by simp
  have "initialized_seg ex_build 0x100041 (of_nat 2) ?s = Some False"
    by (rule seg_heap_initialized_false_negative [where y = 64])
      (use L ex_layout_wf ex_heap_on(1) ex_heap_offset(1) bits in simp_all)
  then show ?thesis using i bits [of 65] bits [of 66] by simp
qed

end
