(* ===== verification/Libc_String.thy ===== *)
theory Libc_String
  imports Prelude
begin

text \<open>
  \<^verbatim>\<open>share/libc/string.c\<close>: the string and memory functions of Frama-C's C library, over byte
  memory. A loop bounded by a count is recursion on the remaining count; a loop that runs to
  a terminator is a partial function, with \<open>None\<close> when it never ends. \<^verbatim>\<open>malloc\<close> is a
  parameter. A returned pointer is an address, \<open>0\<close> for \<^verbatim>\<open>NULL\<close>; characters are bytes.
\<close>

section \<open>Copying\<close>

fun memcpy_up :: "u64 \<Rightarrow> u64 \<Rightarrow> nat \<Rightarrow> u64 \<Rightarrow> mem \<Rightarrow> mem" where
  "memcpy_up d s 0 i m = m"
| "memcpy_up d s (Suc k) i m = memcpy_up d s k (i + 1) (m(d + i := m (s + i)))"

definition memcpy :: "u64 \<Rightarrow> u64 \<Rightarrow> u64 \<Rightarrow> mem \<Rightarrow> u64 \<times> mem" where
  "memcpy dest src n m = (dest, memcpy_up dest src (unat n) 0 m)"

definition memoverlap :: "u64 \<Rightarrow> u64 \<Rightarrow> u64 \<Rightarrow> int" where
  "memoverlap p q n =
     (let p1 = p; p2 = p + n; q1 = q; q2 = q + n
      in if p1 \<le> q1 \<and> p2 > q1 then - 1
         else if q1 \<le> p1 \<and> q2 > p1 then 1
         else 0)"

fun memmove_down :: "u64 \<Rightarrow> u64 \<Rightarrow> nat \<Rightarrow> mem \<Rightarrow> mem" where
  "memmove_down d s 0 m = m"
| "memmove_down d s (Suc i) m = memmove_down d s i (m(d + of_nat (Suc i) := m (s + of_nat (Suc i))))"

definition memmove :: "u64 \<Rightarrow> u64 \<Rightarrow> u64 \<Rightarrow> mem \<Rightarrow> u64 \<times> mem" where
  "memmove dest src n m =
     (if n = 0 then (dest, m)
      else if memoverlap dest src n \<le> 0 then (dest, memcpy_up dest src (unat n) 0 m)
      else (dest, let m = memmove_down dest src (unat (n - 1)) m in m(dest := m src)))"

fun memset_loop :: "u64 \<Rightarrow> u8 \<Rightarrow> nat \<Rightarrow> u64 \<Rightarrow> mem \<Rightarrow> mem" where
  "memset_loop p c 0 i m = m"
| "memset_loop p c (Suc k) i m = memset_loop p c k (i + 1) (m(p + i := c))"

definition memset :: "u64 \<Rightarrow> u32 \<Rightarrow> u64 \<Rightarrow> mem \<Rightarrow> u64 \<times> mem" where
  "memset s c n m = (s, memset_loop s (ucast c) (unat n) 0 m)"

section \<open>Lengths\<close>

partial_function (option) strlen_loop :: "mem \<Rightarrow> u64 \<Rightarrow> u64 \<Rightarrow> u64 option" where
  "strlen_loop m s i = (if m (s + i) \<noteq> 0 then strlen_loop m s (i + 1) else Some i)"

definition strlen :: "u64 \<Rightarrow> mem \<Rightarrow> u64 option" where
  "strlen s m = strlen_loop m s 0"

fun strnlen_loop :: "mem \<Rightarrow> u64 \<Rightarrow> nat \<Rightarrow> u64 \<Rightarrow> u64" where
  "strnlen_loop m s 0 i = i"
| "strnlen_loop m s (Suc k) i = (if m (s + i) \<noteq> 0 then strnlen_loop m s k (i + 1) else i)"

definition strnlen :: "u64 \<Rightarrow> u64 \<Rightarrow> mem \<Rightarrow> u64" where
  "strnlen s maxlen m = strnlen_loop m s (unat maxlen) 0"

section \<open>Comparison\<close>

definition chr_diff :: "u8 \<Rightarrow> u8 \<Rightarrow> int" where
  "chr_diff a b = int (unat a) - int (unat b)"

partial_function (option) strcmp_loop :: "mem \<Rightarrow> u64 \<Rightarrow> u64 \<Rightarrow> u64 \<Rightarrow> int option" where
  "strcmp_loop m s1 s2 i =
     (if m (s1 + i) = m (s2 + i) then
        (if m (s1 + i) = 0 then Some 0 else strcmp_loop m s1 s2 (i + 1))
      else Some (chr_diff (m (s1 + i)) (m (s2 + i))))"

definition strcmp :: "u64 \<Rightarrow> u64 \<Rightarrow> mem \<Rightarrow> int option" where
  "strcmp s1 s2 m = strcmp_loop m s1 s2 0"

fun strncmp_loop :: "mem \<Rightarrow> u64 \<Rightarrow> u64 \<Rightarrow> nat \<Rightarrow> u64 \<Rightarrow> int" where
  "strncmp_loop m s1 s2 0 i = 0"
| "strncmp_loop m s1 s2 (Suc k) i =
     (if m (s1 + i) \<noteq> m (s2 + i) then chr_diff (m (s1 + i)) (m (s2 + i))
      else if m (s1 + i) = 0 then 0
      else strncmp_loop m s1 s2 k (i + 1))"

definition strncmp :: "u64 \<Rightarrow> u64 \<Rightarrow> u64 \<Rightarrow> mem \<Rightarrow> int" where
  "strncmp s1 s2 n m = strncmp_loop m s1 s2 (unat n) 0"

fun memcmp_loop :: "mem \<Rightarrow> u64 \<Rightarrow> u64 \<Rightarrow> nat \<Rightarrow> u64 \<Rightarrow> int" where
  "memcmp_loop m s1 s2 0 i = 0"
| "memcmp_loop m s1 s2 (Suc k) i =
     (if m (s1 + i) \<noteq> m (s2 + i) then chr_diff (m (s1 + i)) (m (s2 + i))
      else memcmp_loop m s1 s2 k (i + 1))"

definition memcmp :: "u64 \<Rightarrow> u64 \<Rightarrow> u64 \<Rightarrow> mem \<Rightarrow> int" where
  "memcmp s1 s2 n m = memcmp_loop m s1 s2 (unat n) 0"

definition char_equal_ignore_case :: "u8 \<Rightarrow> u8 \<Rightarrow> int" where
  "char_equal_ignore_case c1 c2 =
     (let c1 = (if 65 \<le> sint c1 \<and> sint c1 \<le> 90 then c1 + 32 else c1);
          c2 = (if 65 \<le> sint c2 \<and> sint c2 \<le> 90 then c2 + 32 else c2)
      in if c1 = c2 then 0 else chr_diff c2 c1)"

partial_function (option) strcasecmp_loop :: "mem \<Rightarrow> u64 \<Rightarrow> u64 \<Rightarrow> u64 \<Rightarrow> int option" where
  "strcasecmp_loop m s1 s2 i =
     (if m (s1 + i) \<noteq> 0 \<and> m (s2 + i) \<noteq> 0 then
        (let res = char_equal_ignore_case (m (s1 + i)) (m (s2 + i))
         in if res \<noteq> 0 then Some res else strcasecmp_loop m s1 s2 (i + 1))
      else if m (s1 + i) = 0 \<and> m (s2 + i) = 0 then Some 0
      else if m (s1 + i) = 0 then Some (- 1)
      else Some 1)"

definition strcasecmp :: "u64 \<Rightarrow> u64 \<Rightarrow> mem \<Rightarrow> int option" where
  "strcasecmp s1 s2 m = strcasecmp_loop m s1 s2 0"

section \<open>Copying strings\<close>

text \<open>The loop that \<^verbatim>\<open>strcpy\<close> and \<^verbatim>\<open>strcat\<close> share, with its final null byte.\<close>

partial_function (option) strcpy_loop :: "u64 \<Rightarrow> u64 \<Rightarrow> u64 \<Rightarrow> mem \<Rightarrow> mem option" where
  "strcpy_loop d src i m =
     (if m (src + i) \<noteq> 0 then strcpy_loop d src (i + 1) (m(d + i := m (src + i)))
      else Some (m(d + i := 0)))"

definition strcpy :: "u64 \<Rightarrow> u64 \<Rightarrow> mem \<Rightarrow> (u64 \<times> mem) option" where
  "strcpy dest src m = do { m \<leftarrow> strcpy_loop dest src 0 m; Some (dest, m) }"

definition strcat :: "u64 \<Rightarrow> u64 \<Rightarrow> mem \<Rightarrow> (u64 \<times> mem) option" where
  "strcat dest src m = do {
     n \<leftarrow> strlen dest m;
     m \<leftarrow> strcpy_loop (dest + n) src 0 m;
     Some (dest, m) }"

fun strncat_loop :: "u64 \<Rightarrow> u64 \<Rightarrow> nat \<Rightarrow> u64 \<Rightarrow> mem \<Rightarrow> mem" where
  "strncat_loop d src 0 i m = m(d + i := 0)"
| "strncat_loop d src (Suc k) i m =
     (if m (src + i) = 0 then m(d + i := 0)
      else strncat_loop d src k (i + 1) (m(d + i := m (src + i))))"

definition strncat :: "u64 \<Rightarrow> u64 \<Rightarrow> u64 \<Rightarrow> mem \<Rightarrow> (u64 \<times> mem) option" where
  "strncat dest src n m = do {
     dest_len \<leftarrow> strlen dest m;
     Some (dest, strncat_loop (dest + dest_len) src (unat n) 0 m) }"

fun strncpy_loop :: "u64 \<Rightarrow> u64 \<Rightarrow> nat \<Rightarrow> u64 \<Rightarrow> mem \<Rightarrow> mem" where
  "strncpy_loop d src 0 i m = m"
| "strncpy_loop d src (Suc k) i m =
     (let m = m(d + i := m (src + i))
      in if m (src + i) = 0 then memset_loop d 0 (Suc k) i m
         else strncpy_loop d src k (i + 1) m)"

definition strncpy :: "u64 \<Rightarrow> u64 \<Rightarrow> u64 \<Rightarrow> mem \<Rightarrow> u64 \<times> mem" where
  "strncpy dest src n m = (dest, strncpy_loop dest src (unat n) 0 m)"

section \<open>Searching\<close>

partial_function (option) strchr_loop :: "mem \<Rightarrow> u64 \<Rightarrow> u8 \<Rightarrow> u64 \<Rightarrow> u64 option" where
  "strchr_loop m s ch i =
     (if m (s + i) \<noteq> ch then (if m (s + i) = 0 then Some 0 else strchr_loop m s ch (i + 1))
      else Some (s + i))"

definition strchr :: "u64 \<Rightarrow> u32 \<Rightarrow> mem \<Rightarrow> u64 option" where
  "strchr s c m = strchr_loop m s (ucast c) 0"

text \<open>\<open>rsearch m s ch i\<close> looks at \<^verbatim>\<open>s[i-1]\<close> down to \<^verbatim>\<open>s[0]\<close>.\<close>

fun rsearch :: "mem \<Rightarrow> u64 \<Rightarrow> u8 \<Rightarrow> nat \<Rightarrow> u64" where
  "rsearch m s ch 0 = 0"
| "rsearch m s ch (Suc i) = (if m (s + of_nat i) = ch then s + of_nat i else rsearch m s ch i)"

definition strrchr :: "u64 \<Rightarrow> u32 \<Rightarrow> mem \<Rightarrow> u64 option" where
  "strrchr s c m = do { l \<leftarrow> strlen s m; Some (rsearch m s (ucast c) (unat (l + 1))) }"

fun memchr_loop :: "mem \<Rightarrow> u64 \<Rightarrow> u8 \<Rightarrow> nat \<Rightarrow> u64 \<Rightarrow> u64" where
  "memchr_loop m s ch 0 i = 0"
| "memchr_loop m s ch (Suc k) i = (if m (s + i) = ch then s + i else memchr_loop m s ch k (i + 1))"

definition memchr :: "u64 \<Rightarrow> u32 \<Rightarrow> u64 \<Rightarrow> mem \<Rightarrow> u64" where
  "memchr s c n m = memchr_loop m s (ucast c) (unat n) 0"

definition memrchr :: "u64 \<Rightarrow> u32 \<Rightarrow> u64 \<Rightarrow> mem \<Rightarrow> u64" where
  "memrchr s c n m = rsearch m s (ucast c) (unat n)"

partial_function (option) strstr_match :: "mem \<Rightarrow> u64 \<Rightarrow> u64 \<Rightarrow> u64 \<Rightarrow> u64 option" where
  "strstr_match m h needle j =
     (if m (h + j) \<noteq> 0 then
        (if m (h + j) \<noteq> m (needle + j) then Some j else strstr_match m h needle (j + 1))
      else Some j)"

partial_function (option) strstr_loop :: "mem \<Rightarrow> u64 \<Rightarrow> u64 \<Rightarrow> u64 \<Rightarrow> u64 option" where
  "strstr_loop m haystack needle i =
     (if m (haystack + i) \<noteq> 0 then do {
        j \<leftarrow> strstr_match m (haystack + i) needle 0;
        if m (needle + j) = 0 then Some (haystack + i)
        else strstr_loop m haystack needle (i + 1) }
      else Some 0)"

definition strstr :: "u64 \<Rightarrow> u64 \<Rightarrow> mem \<Rightarrow> u64 option" where
  "strstr haystack needle m =
     (if m needle = 0 then Some haystack else strstr_loop m haystack needle 0)"

section \<open>Duplication\<close>

text \<open>
  \<open>mall l\<close> is the result of \<^verbatim>\<open>malloc(l)\<close>. The result is the pointer, the memory and whether
  \<^verbatim>\<open>errno\<close> was set to \<^verbatim>\<open>ENOMEM\<close>.
\<close>

definition strdup :: "(u64 \<Rightarrow> u64) \<Rightarrow> u64 \<Rightarrow> mem \<Rightarrow> (u64 \<times> mem \<times> bool) option" where
  "strdup mall s m = do {
     l \<leftarrow> strlen s m;
     let l = l + 1;
     let p = mall l;
     if p = 0 then Some (0, m, True)
     else Some (p, snd (memcpy p s l m), False) }"

definition strndup :: "(u64 \<Rightarrow> u64) \<Rightarrow> u64 \<Rightarrow> u64 \<Rightarrow> mem \<Rightarrow> u64 \<times> mem \<times> bool" where
  "strndup mall s n m =
     (let l = strnlen s n m; p = mall (l + 1)
      in if p = 0 then (0, m, True)
         else (p, (snd (memcpy p s l m))(p + l := 0), False))"

end
