(* ===== verification/Libc_String_Spec.thy ===== *)
theory Libc_String_Spec
  imports Libc_String
begin

text \<open>
  The ACSL axiomatics of \<^verbatim>\<open>share/libc/__fc_string_axiomatic.h\<close>. A pointer argument of a
  logic function is the sequence of the characters from it on, a function on \<^typ>\<open>int\<close>; so the
  narrow (\<^verbatim>\<open>char\<close>, 8 bits) and the wide (\<^verbatim>\<open>wchar_t\<close>, 32 bits) axiomatics are the same
  definitions at two widths. Each \<^verbatim>\<open>axiomatic\<close> block is a predicate on an interpretation of
  its logic functions; \<open>logic_strlen\<close> and the others are interpretations, and the properties say
  which blocks they satisfy and that one block has no interpretation at all.
\<close>

section \<open>Axiomatics\<close>

type_synonym 'w chars = "int \<Rightarrow> 'w word"

text \<open>The sequence at the pointer \<^verbatim>\<open>s + k\<close>.\<close>

definition shift :: "'w chars \<Rightarrow> int \<Rightarrow> 'w chars" where
  "shift s k = (\<lambda>i. s (i + k))"

text \<open>The values of a C \<^verbatim>\<open>int\<close>, over which some axioms quantify.\<close>

definition c_int :: "int \<Rightarrow> bool" where
  "c_int i \<longleftrightarrow> - (2 ^ 31) \<le> i \<and> i < 2 ^ 31"

definition axiomatic_MemCmp :: "('w::len chars \<Rightarrow> 'w chars \<Rightarrow> int \<Rightarrow> int) \<Rightarrow> bool" where
  "axiomatic_MemCmp mc \<longleftrightarrow>
     (\<forall>s1 s2 n. mc s1 s2 n = 0 \<longleftrightarrow> (\<forall>i. 0 \<le> i \<and> i < n \<longrightarrow> s1 i = s2 i))"

text \<open>The character sought is a mathematical integer, compared with the value of a signed \<^verbatim>\<open>char\<close>.\<close>

definition axiomatic_MemChr :: "(8 chars \<Rightarrow> int \<Rightarrow> int \<Rightarrow> bool) \<Rightarrow> bool" where
  "axiomatic_MemChr mc \<longleftrightarrow>
     (\<forall>s c n. mc s c n \<longleftrightarrow> (\<exists>i. c_int i \<and> 0 \<le> i \<and> i < n \<and> sint (s i) = c))"

definition axiomatic_MemSet :: "(8 chars \<Rightarrow> int \<Rightarrow> int \<Rightarrow> bool) \<Rightarrow> bool" where
  "axiomatic_MemSet ms \<longleftrightarrow>
     (\<forall>s c n. ms s c n \<longleftrightarrow> (\<forall>i. 0 \<le> i \<and> i < n \<longrightarrow> sint (s i) = c))"

text \<open>The axioms on \<^verbatim>\<open>strlen\<close> alone, in the order of the header.\<close>

definition StrLen_core :: "('w::len chars \<Rightarrow> int) \<Rightarrow> bool" where
  "StrLen_core len \<longleftrightarrow>
     (\<forall>s i. 0 \<le> i \<and> (\<forall>j. 0 \<le> j \<and> j < i \<longrightarrow> s j \<noteq> 0) \<and> s i = 0 \<longrightarrow> len s = i) \<and>
     (\<forall>s. (\<forall>i\<ge>0. s i \<noteq> 0) \<longrightarrow> len s < 0) \<and>
     (\<forall>s i. 0 \<le> i \<and> i < len s \<longrightarrow> s i \<noteq> 0) \<and>
     (\<forall>s. 0 \<le> len s \<longrightarrow> s (len s) = 0) \<and>
     (\<forall>s i. 0 \<le> i \<and> i \<le> len s \<and> s i \<noteq> 0 \<longrightarrow> i < len s) \<and>
     (\<forall>s i. 0 \<le> i \<and> i \<le> len s \<and> s i = 0 \<longrightarrow> i = len s) \<and>
     (\<forall>s i. 0 \<le> i \<and> s i = 0 \<longrightarrow> 0 \<le> len s \<and> len s \<le> i) \<and>
     (\<forall>s i. 0 \<le> i \<and> i \<le> len s \<longrightarrow> len (shift s i) = len s - i) \<and>
     (\<forall>s i. 0 \<le> i \<and> s i = 0 \<longrightarrow> 0 \<le> len s \<and> len s \<le> i) \<and>
     (\<forall>s i k. 0 \<le> k \<and> k \<le> i \<and> s i = 0 \<longrightarrow> 0 \<le> len (shift s k) \<and> len (shift s k) \<le> i - k)"

text \<open>The whole block: four more axioms relate \<^verbatim>\<open>strlen\<close> to \<^verbatim>\<open>memcmp\<close>.\<close>

definition axiomatic_StrLen ::
  "('w::len chars \<Rightarrow> int) \<Rightarrow> ('w chars \<Rightarrow> 'w chars \<Rightarrow> int \<Rightarrow> int) \<Rightarrow> bool" where
  "axiomatic_StrLen len mc \<longleftrightarrow> StrLen_core len \<and>
     (\<forall>s1 s2 n. mc s1 s2 n = 0 \<and> len s1 < n \<longrightarrow> len s1 = len s2) \<and>
     (\<forall>s1 s2 n. mc s1 s2 n = 0 \<and> len s2 < n \<longrightarrow> len s1 = len s2) \<and>
     (\<forall>s1 s2 k n. mc s1 (shift s2 k) n = 0 \<and> 0 \<le> k \<and> len s1 < n \<longrightarrow>
        0 \<le> len s2 \<and> len s2 \<le> k + len s1) \<and>
     (\<forall>s1 s2 k n. mc (shift s1 k) s2 n = 0 \<and> 0 \<le> k \<and> len s2 < n \<longrightarrow>
        0 \<le> len s1 \<and> len s1 \<le> k + len s2)"

text \<open>The same four axioms for strings that have a length.\<close>

definition StrLen_memcmp_guarded ::
  "('w::len chars \<Rightarrow> int) \<Rightarrow> ('w chars \<Rightarrow> 'w chars \<Rightarrow> int \<Rightarrow> int) \<Rightarrow> bool" where
  "StrLen_memcmp_guarded len mc \<longleftrightarrow>
     (\<forall>s1 s2 n. mc s1 s2 n = 0 \<and> 0 \<le> len s1 \<and> len s1 < n \<longrightarrow> len s1 = len s2) \<and>
     (\<forall>s1 s2 n. mc s1 s2 n = 0 \<and> 0 \<le> len s2 \<and> len s2 < n \<longrightarrow> len s1 = len s2) \<and>
     (\<forall>s1 s2 k n. mc s1 (shift s2 k) n = 0 \<and> 0 \<le> k \<and> 0 \<le> len s1 \<and> len s1 < n \<longrightarrow>
        0 \<le> len s2 \<and> len s2 \<le> k + len s1) \<and>
     (\<forall>s1 s2 k n. mc (shift s1 k) s2 n = 0 \<and> 0 \<le> k \<and> 0 \<le> len s2 \<and> len s2 < n \<longrightarrow>
        0 \<le> len s1 \<and> len s1 \<le> k + len s2)"

definition axiomatic_StrCmp :: "('w::len chars \<Rightarrow> int) \<Rightarrow> ('w chars \<Rightarrow> 'w chars \<Rightarrow> int) \<Rightarrow> bool" where
  "axiomatic_StrCmp len sc \<longleftrightarrow>
     (\<forall>s1 s2. sc s1 s2 = 0 \<longleftrightarrow> len s1 = len s2 \<and> (\<forall>i. 0 \<le> i \<and> i \<le> len s1 \<longrightarrow> s1 i = s2 i))"

definition axiomatic_StrNCmp ::
  "('w::len chars \<Rightarrow> int) \<Rightarrow> ('w chars \<Rightarrow> 'w chars \<Rightarrow> int) \<Rightarrow> ('w chars \<Rightarrow> 'w chars \<Rightarrow> int \<Rightarrow> int) \<Rightarrow> bool" where
  "axiomatic_StrNCmp len sc snc \<longleftrightarrow>
     (\<forall>s1 s2 n. snc s1 s2 n = 0 \<longleftrightarrow>
        len s1 < n \<and> sc s1 s2 = 0 \<or> (\<forall>i. 0 \<le> i \<and> i < n \<longrightarrow> s1 i = s2 i))"

definition axiomatic_StrChr :: "(8 chars \<Rightarrow> int) \<Rightarrow> (8 chars \<Rightarrow> int \<Rightarrow> bool) \<Rightarrow> bool" where
  "axiomatic_StrChr len sc \<longleftrightarrow>
     (\<forall>s c. sc s c \<longleftrightarrow> (\<exists>i. 0 \<le> i \<and> i \<le> len s \<and> s i = word_of_int c))"

text \<open>The wide-character blocks; their bound variables are C \<^verbatim>\<open>int\<close>s where the header says so.\<close>

definition axiomatic_WMemChr :: "(32 chars \<Rightarrow> 32 word \<Rightarrow> int \<Rightarrow> bool) \<Rightarrow> bool" where
  "axiomatic_WMemChr mc \<longleftrightarrow> (\<forall>s c n. mc s c n \<longleftrightarrow> (\<exists>i. c_int i \<and> 0 \<le> i \<and> i < n \<and> s i = c))"

definition axiomatic_WcsLen :: "('w::len chars \<Rightarrow> int) \<Rightarrow> bool" where
  "axiomatic_WcsLen len \<longleftrightarrow>
     (\<forall>s i. 0 \<le> i \<and> (\<forall>j. 0 \<le> j \<and> j < i \<longrightarrow> s j \<noteq> 0) \<and> s i = 0 \<longrightarrow> len s = i) \<and>
     (\<forall>s. (\<forall>i\<ge>0. s i \<noteq> 0) \<longrightarrow> len s < 0) \<and>
     (\<forall>s i. c_int i \<and> 0 \<le> i \<and> i < len s \<longrightarrow> s i \<noteq> 0) \<and>
     (\<forall>s. 0 \<le> len s \<longrightarrow> s (len s) = 0) \<and>
     (\<forall>s i. c_int i \<and> 0 \<le> i \<and> i \<le> len s \<and> s i \<noteq> 0 \<longrightarrow> i < len s) \<and>
     (\<forall>s i. c_int i \<and> 0 \<le> i \<and> i \<le> len s \<and> s i = 0 \<longrightarrow> i = len s) \<and>
     (\<forall>s i. c_int i \<and> 0 \<le> i \<and> s i = 0 \<longrightarrow> 0 \<le> len s \<and> len s \<le> i) \<and>
     (\<forall>s i. c_int i \<and> 0 \<le> i \<and> i \<le> len s \<longrightarrow> len (shift s i) = len s - i) \<and>
     (\<forall>s i. c_int i \<and> 0 \<le> i \<and> s i = 0 \<longrightarrow> 0 \<le> len s \<and> len s \<le> i) \<and>
     (\<forall>s i k. c_int i \<and> c_int k \<and> 0 \<le> k \<and> k \<le> i \<and> s i = 0 \<longrightarrow>
        0 \<le> len (shift s k) \<and> len (shift s k) \<le> i - k)"

definition axiomatic_WcsCmp :: "('w::len chars \<Rightarrow> int) \<Rightarrow> ('w chars \<Rightarrow> 'w chars \<Rightarrow> int) \<Rightarrow> bool" where
  "axiomatic_WcsCmp len wc \<longleftrightarrow>
     (\<forall>s1 s2. wc s1 s2 = 0 \<longleftrightarrow> len s1 = len s2 \<and> (\<forall>i. 0 \<le> i \<and> i \<le> len s1 \<longrightarrow> s1 i = s2 i))"

definition axiomatic_WcsNCmp ::
  "('w::len chars \<Rightarrow> int) \<Rightarrow> ('w chars \<Rightarrow> 'w chars \<Rightarrow> int) \<Rightarrow> ('w chars \<Rightarrow> 'w chars \<Rightarrow> int \<Rightarrow> int) \<Rightarrow> bool" where
  "axiomatic_WcsNCmp len wc wnc \<longleftrightarrow>
     (\<forall>s1 s2 n. wnc s1 s2 n = 0 \<longleftrightarrow>
        len s1 < n \<and> wc s1 s2 = 0 \<or> (\<forall>i. 0 \<le> i \<and> i < n \<longrightarrow> s1 i = s2 i))"

definition axiomatic_WcsChr :: "(32 chars \<Rightarrow> int) \<Rightarrow> (32 chars \<Rightarrow> int \<Rightarrow> bool) \<Rightarrow> bool" where
  "axiomatic_WcsChr len wc \<longleftrightarrow>
     (\<forall>s c. wc s c \<longleftrightarrow> (\<exists>i. 0 \<le> i \<and> i \<le> len s \<and> s i = word_of_int c))"

definition minimum :: "int \<Rightarrow> int \<Rightarrow> int" where
  "minimum i j = (if i < j then i else j)"

definition maximum :: "int \<Rightarrow> int \<Rightarrow> int" where
  "maximum i j = (if i < j then j else i)"

section \<open>Interpretations of the logic functions\<close>

definition logic_strlen :: "'w::len chars \<Rightarrow> int" where
  "logic_strlen s = (if \<exists>k::nat. s (int k) = 0 then int (LEAST k. s (int k) = 0) else - 1)"

text \<open>The first index at which two sequences differ; meaningful when there is one.\<close>

definition first_diff :: "'w::len chars \<Rightarrow> 'w chars \<Rightarrow> nat" where
  "first_diff s1 s2 = (LEAST k. s1 (int k) \<noteq> s2 (int k))"

definition diff_at :: "'w::len chars \<Rightarrow> 'w chars \<Rightarrow> int" where
  "diff_at s1 s2 = uint (s1 (int (first_diff s1 s2))) - uint (s2 (int (first_diff s1 s2)))"

definition logic_memcmp :: "'w::len chars \<Rightarrow> 'w chars \<Rightarrow> int \<Rightarrow> int" where
  "logic_memcmp s1 s2 n = (if \<forall>i. 0 \<le> i \<and> i < n \<longrightarrow> s1 i = s2 i then 0 else diff_at s1 s2)"

definition logic_strcmp :: "'w::len chars \<Rightarrow> 'w chars \<Rightarrow> int" where
  "logic_strcmp s1 s2 =
     (if logic_strlen s1 = logic_strlen s2 \<and> (\<forall>i. 0 \<le> i \<and> i \<le> logic_strlen s1 \<longrightarrow> s1 i = s2 i) then 0
      else diff_at s1 s2)"

definition logic_strncmp :: "'w::len chars \<Rightarrow> 'w chars \<Rightarrow> int \<Rightarrow> int" where
  "logic_strncmp s1 s2 n =
     (if logic_strlen s1 < n \<and> logic_strcmp s1 s2 = 0 \<or> (\<forall>i. 0 \<le> i \<and> i < n \<longrightarrow> s1 i = s2 i) then 0
      else diff_at s1 s2)"

definition logic_memchr :: "8 chars \<Rightarrow> int \<Rightarrow> int \<Rightarrow> bool" where
  "logic_memchr s c n \<longleftrightarrow> (\<exists>i. c_int i \<and> 0 \<le> i \<and> i < n \<and> sint (s i) = c)"

definition logic_memset :: "8 chars \<Rightarrow> int \<Rightarrow> int \<Rightarrow> bool" where
  "logic_memset s c n \<longleftrightarrow> (\<forall>i. 0 \<le> i \<and> i < n \<longrightarrow> sint (s i) = c)"

definition logic_strchr :: "'w::len chars \<Rightarrow> int \<Rightarrow> bool" where
  "logic_strchr s c \<longleftrightarrow> (\<exists>i. 0 \<le> i \<and> i \<le> logic_strlen s \<and> s i = word_of_int c)"

definition logic_wmemchr :: "32 chars \<Rightarrow> 32 word \<Rightarrow> int \<Rightarrow> bool" where
  "logic_wmemchr s c n \<longleftrightarrow> (\<exists>i. c_int i \<and> 0 \<le> i \<and> i < n \<and> s i = c)"

section \<open>The length function\<close>

lemma all_nonneg: "(\<forall>i\<ge>0. P i) \<longleftrightarrow> (\<forall>k::nat. P (int k))" for P :: "int \<Rightarrow> bool"
  by (metis nonneg_int_cases of_nat_0_le_iff)

lemma logic_strlen_eqI:
  assumes "s (int k) = 0" and "\<And>j. j < k \<Longrightarrow> s (int j) \<noteq> 0"
  shows "logic_strlen s = int k"
proof -
  have "(LEAST k. s (int k) = 0) = k"
    using assms by (intro Least_equality) (auto simp: not_less [symmetric])
  then show ?thesis using assms(1) by (auto simp: logic_strlen_def)
qed

lemma logic_strlen_cases:
  obtains (none) "logic_strlen s = - 1" and "\<And>k::nat. s (int k) \<noteq> 0"
    | (some) k where "logic_strlen s = int k" and "s (int k) = 0" and "\<And>j. j < k \<Longrightarrow> s (int j) \<noteq> 0"
proof (cases "\<exists>k::nat. s (int k) = 0")
  case True
  define k where "k = (LEAST k. s (int k) = 0)"
  have "s (int k) = 0" "\<And>j. j < k \<Longrightarrow> s (int j) \<noteq> 0"
    unfolding k_def using True by (auto intro: LeastI dest: not_less_Least)
  then show ?thesis using some logic_strlen_eqI by metis
next
  case False
  then show ?thesis using none by (auto simp: logic_strlen_def)
qed

text \<open>What the length of a string means, in one equivalence.\<close>

lemma logic_strlen_iff:
  "0 \<le> i \<Longrightarrow> logic_strlen s = i \<longleftrightarrow> s i = 0 \<and> (\<forall>j. 0 \<le> j \<and> j < i \<longrightarrow> s j \<noteq> 0)"
proof (cases s rule: logic_strlen_cases)
  case none
  assume "0 \<le> i"
  then have "s i \<noteq> 0" using none(2) [of "nat i"] by simp
  then show ?thesis using none(1) \<open>0 \<le> i\<close> by auto
next
  case (some k)
  assume i: "0 \<le> i"
  show ?thesis
  proof
    assume "logic_strlen s = i"
    then have "i = int k" using some(1) by simp
    moreover have "s j \<noteq> 0" if "0 \<le> j" "j < int k" for j
      using some(3) [of "nat j"] that by (simp add: nat_less_iff)
    ultimately show "s i = 0 \<and> (\<forall>j. 0 \<le> j \<and> j < i \<longrightarrow> s j \<noteq> 0)" using some(2) by blast
  next
    assume h: "s i = 0 \<and> (\<forall>j. 0 \<le> j \<and> j < i \<longrightarrow> s j \<noteq> 0)"
    have "\<not> int k < i" using h some(2) by auto
    moreover have "\<not> i < int k" using h some(3) [of "nat i"] i by (auto simp: nat_less_iff)
    ultimately show "logic_strlen s = i" using some(1) by simp
  qed
qed

lemma logic_strlen_neg: "logic_strlen s < 0 \<longleftrightarrow> (\<forall>i\<ge>0. s i \<noteq> 0)"
proof (cases s rule: logic_strlen_cases)
  case none
  then show ?thesis unfolding all_nonneg by simp
next
  case (some k)
  then show ?thesis unfolding all_nonneg by auto
qed

lemma logic_strlen_le:
  assumes "0 \<le> i" and "s i = 0"
  shows "0 \<le> logic_strlen s \<and> logic_strlen s \<le> i"
proof -
  have nn: "0 \<le> logic_strlen s" using assms logic_strlen_neg [of s] by auto
  then have "\<forall>j. 0 \<le> j \<and> j < logic_strlen s \<longrightarrow> s j \<noteq> 0" using logic_strlen_iff by blast
  then show ?thesis using nn assms by force
qed

lemma logic_strlen_before: "0 \<le> i \<Longrightarrow> i < logic_strlen s \<Longrightarrow> s i \<noteq> 0"
  using logic_strlen_iff [of "logic_strlen s" s] by auto

lemma logic_strlen_at: "0 \<le> logic_strlen s \<Longrightarrow> s (logic_strlen s) = 0"
  using logic_strlen_iff [of "logic_strlen s" s] by auto

lemma logic_strlen_shift:
  assumes "0 \<le> i" and "i \<le> logic_strlen s"
  shows "logic_strlen (shift s i) = logic_strlen s - i"
proof -
  have "s (j + i) \<noteq> 0" if "0 \<le> j" "j < logic_strlen s - i" for j
    using that assms by (intro logic_strlen_before) auto
  moreover have "s (logic_strlen s) = 0" using assms by (intro logic_strlen_at) simp
  ultimately show ?thesis using assms by (subst logic_strlen_iff) (auto simp: shift_def)
qed

lemma shift_sup:
  assumes "0 \<le> k" "k \<le> i" "s i = 0"
  shows "0 \<le> logic_strlen (shift s k) \<and> logic_strlen (shift s k) \<le> i - k"
  using assms by (intro logic_strlen_le) (auto simp: shift_def)

lemma StrLen_core_logic: "StrLen_core logic_strlen"
  unfolding StrLen_core_def
proof (intro conjI allI impI; (elim conjE)?)
  fix s :: "'a chars" and i
  show "logic_strlen s = i" if "0 \<le> i" "\<forall>j. 0 \<le> j \<and> j < i \<longrightarrow> s j \<noteq> 0" "s i = 0"
    using that logic_strlen_iff by blast
  show "i < logic_strlen s" if "0 \<le> i" "i \<le> logic_strlen s" "s i \<noteq> 0"
    using that logic_strlen_at [of s] by (cases "i = logic_strlen s") auto
  show "i = logic_strlen s" if "0 \<le> i" "i \<le> logic_strlen s" "s i = 0"
    using that logic_strlen_before [of i s] by force
qed (use logic_strlen_neg logic_strlen_before logic_strlen_at logic_strlen_le logic_strlen_shift shift_sup
       in blast)+

lemma WcsLen_logic: "axiomatic_WcsLen logic_strlen"
  using StrLen_core_logic unfolding axiomatic_WcsLen_def StrLen_core_def by meson

section \<open>The comparison functions\<close>

lemma diff_at_nonzero:
  assumes "0 \<le> i" and "s1 i \<noteq> s2 i"
  shows "diff_at s1 s2 \<noteq> 0"
proof -
  have "s1 (int (nat i)) \<noteq> s2 (int (nat i))" using assms by simp
  then have "s1 (int (first_diff s1 s2)) \<noteq> s2 (int (first_diff s1 s2))"
    unfolding first_diff_def by (rule LeastI)
  then show ?thesis by (simp add: diff_at_def word_uint_eq_iff)
qed

lemma logic_memcmp_zero: "logic_memcmp s1 s2 n = 0 \<longleftrightarrow> (\<forall>i. 0 \<le> i \<and> i < n \<longrightarrow> s1 i = s2 i)"
  using diff_at_nonzero [of _ s1 s2] by (auto simp: logic_memcmp_def)

text \<open>Sequences that agree up to the null of one of them have the same length.\<close>

lemma same_prefix_strlen:
  assumes "\<forall>i. 0 \<le> i \<and> i < n \<longrightarrow> s1 i = s2 i" and "0 \<le> logic_strlen s1" and "logic_strlen s1 < n"
  shows "logic_strlen s2 = logic_strlen s1"
  using assms logic_strlen_before [of _ s1] logic_strlen_at [of s1] by (subst logic_strlen_iff) force+

lemma logic_strcmp_zero:
  "logic_strcmp s1 s2 = 0 \<longleftrightarrow>
     logic_strlen s1 = logic_strlen s2 \<and> (\<forall>i. 0 \<le> i \<and> i \<le> logic_strlen s1 \<longrightarrow> s1 i = s2 i)"
  (is "_ \<longleftrightarrow> ?P")
proof (cases ?P)
  case False
  have "\<exists>i\<ge>0. s1 i \<noteq> s2 i"
  proof (rule ccontr)
    assume "\<not> ?thesis"
    then have eq: "\<And>i. 0 \<le> i \<Longrightarrow> s1 i = s2 i" by blast
    then have "logic_strlen s1 = logic_strlen s2" by (simp add: logic_strlen_def)
    then show False using False eq by blast
  qed
  then show ?thesis using False diff_at_nonzero by (auto simp: logic_strcmp_def)
qed (simp add: logic_strcmp_def)

lemma logic_strncmp_zero:
  "logic_strncmp s1 s2 n = 0 \<longleftrightarrow>
     logic_strlen s1 < n \<and> logic_strcmp s1 s2 = 0 \<or> (\<forall>i. 0 \<le> i \<and> i < n \<longrightarrow> s1 i = s2 i)"
  using diff_at_nonzero [of _ s1 s2] by (auto simp: logic_strncmp_def)

lemma memcmp_guarded_logic: "StrLen_memcmp_guarded logic_strlen logic_memcmp"
  unfolding StrLen_memcmp_guarded_def logic_memcmp_zero
proof (intro conjI allI impI; elim conjE)
  fix s1 s2 :: "'a chars" and k n
  assume eq: "\<forall>i. 0 \<le> i \<and> i < n \<longrightarrow> s1 i = shift s2 k i" and k: "0 \<le> k"
    and len: "0 \<le> logic_strlen s1" "logic_strlen s1 < n"
  have "shift s2 k (logic_strlen s1) = 0" using eq len logic_strlen_at [of s1] by metis
  then have "s2 (logic_strlen s1 + k) = 0" by (simp add: shift_def)
  then show "0 \<le> logic_strlen s2" "logic_strlen s2 \<le> k + logic_strlen s1"
    using logic_strlen_le [of "logic_strlen s1 + k" s2] k len by auto
next
  fix s1 s2 :: "'a chars" and k n
  assume eq: "\<forall>i. 0 \<le> i \<and> i < n \<longrightarrow> shift s1 k i = s2 i" and k: "0 \<le> k"
    and len: "0 \<le> logic_strlen s2" "logic_strlen s2 < n"
  have "shift s1 k (logic_strlen s2) = 0" using eq len logic_strlen_at [of s2] by metis
  then have "s1 (logic_strlen s2 + k) = 0" by (simp add: shift_def)
  then show "0 \<le> logic_strlen s1" "logic_strlen s1 \<le> k + logic_strlen s2"
    using logic_strlen_le [of "logic_strlen s2 + k" s1] k len by auto
qed (use same_prefix_strlen in metis)+

section \<open>Properties\<close>

text \<open>
  The axiomatic blocks of the string header have a common model, but for the four axioms
  that relate \<^verbatim>\<open>memcmp\<close> and \<^verbatim>\<open>strlen\<close>, which hold for strings that have a length: the
  functions \<open>logic_strlen\<close>, \<open>logic_memcmp\<close>, \<open>logic_strcmp\<close>, ... satisfy each of them, at the
  narrow and at the wide character type.
\<close>

theorem string_axioms_model:
  "StrLen_core (logic_strlen :: 8 chars \<Rightarrow> int)
   \<and> axiomatic_MemCmp (logic_memcmp :: 8 chars \<Rightarrow> 8 chars \<Rightarrow> int \<Rightarrow> int)
   \<and> StrLen_memcmp_guarded (logic_strlen :: 8 chars \<Rightarrow> int) logic_memcmp
   \<and> axiomatic_MemChr logic_memchr \<and> axiomatic_MemSet logic_memset
   \<and> axiomatic_StrCmp (logic_strlen :: 8 chars \<Rightarrow> int) logic_strcmp
   \<and> axiomatic_StrNCmp (logic_strlen :: 8 chars \<Rightarrow> int) logic_strcmp logic_strncmp
   \<and> axiomatic_StrChr logic_strlen logic_strchr
   \<and> axiomatic_WMemChr logic_wmemchr
   \<and> axiomatic_WcsLen (logic_strlen :: 32 chars \<Rightarrow> int)
   \<and> axiomatic_WcsCmp (logic_strlen :: 32 chars \<Rightarrow> int) logic_strcmp
   \<and> axiomatic_WcsNCmp (logic_strlen :: 32 chars \<Rightarrow> int) logic_strcmp logic_strncmp
   \<and> axiomatic_WcsChr logic_strlen logic_strchr"
  by (intro conjI StrLen_core_logic WcsLen_logic memcmp_guarded_logic)
    (simp_all add: axiomatic_MemCmp_def axiomatic_MemChr_def axiomatic_MemSet_def axiomatic_StrCmp_def
      axiomatic_StrNCmp_def axiomatic_StrChr_def axiomatic_WMemChr_def axiomatic_WcsCmp_def
      axiomatic_WcsNCmp_def axiomatic_WcsChr_def logic_memcmp_zero logic_strcmp_zero logic_strncmp_zero
      logic_memchr_def logic_memset_def logic_strchr_def logic_wmemchr_def)

text \<open>
  C15: The block \<^verbatim>\<open>axiomatic StrLen\<close> contradicts \<^verbatim>\<open>axiomatic MemCmp\<close>: whatever function
  satisfies the axiom of \<^verbatim>\<open>memcmp\<close>, no length function satisfies the axioms of \<^verbatim>\<open>strlen\<close>.
  The axiom \<^verbatim>\<open>memcmp_strlen_left\<close> applies with \<^verbatim>\<open>n == 0\<close> to a sequence without a null
  byte, whose length is negative, and gives every sequence that negative length.
\<close>

theorem string_axioms_inconsistent:
  fixes mc :: "8 chars \<Rightarrow> 8 chars \<Rightarrow> int \<Rightarrow> int"
  assumes "axiomatic_MemCmp mc"
  shows "\<not> axiomatic_StrLen len mc"
proof
  assume h: "axiomatic_StrLen len mc"
  then have core: "StrLen_core len" by (simp add: axiomatic_StrLen_def)
  have neg: "\<forall>s. (\<forall>i\<ge>0. s i \<noteq> 0) \<longrightarrow> len s < 0"
    by (rule core [unfolded StrLen_core_def, THEN conjunct2, THEN conjunct1])
  have pos: "\<forall>s i. 0 \<le> i \<and> (\<forall>j. 0 \<le> j \<and> j < i \<longrightarrow> s j \<noteq> 0) \<and> s i = 0 \<longrightarrow> len s = i"
    by (rule core [unfolded StrLen_core_def, THEN conjunct1])
  have "len (\<lambda>_. 1) < 0" using neg [rule_format, of "\<lambda>_. 1"] by simp
  moreover have "len (\<lambda>_. 0) = 0" using pos [rule_format, of 0 "\<lambda>_. 0"] by simp
  moreover have "mc (\<lambda>_. 1) (\<lambda>_. 0) 0 = 0" using assms by (simp add: axiomatic_MemCmp_def)
  moreover have "mc s1 s2 0 = 0 \<and> len s1 < 0 \<longrightarrow> len s1 = len s2" for s1 s2
    using h unfolding axiomatic_StrLen_def by blast
  ultimately show False by force
qed

theorem string_axioms_inconsistent_witness: "\<not> axiomatic_StrLen (logic_strlen :: 8 chars \<Rightarrow> int) logic_memcmp"
  by (rule string_axioms_inconsistent) (simp add: axiomatic_MemCmp_def logic_memcmp_zero)

end
