(* ===== verification/Libc_String_Loops.thy ===== *)
theory Libc_String_Loops
  imports Libc_String_Spec
begin

text \<open>
  What the loops of \<^verbatim>\<open>string.c\<close> compute, each in one lemma: a counted loop as a closed form of
  its result, a loop to a terminator by the number of steps it takes and by the condition under
  which it never ends. The contracts rest on these lemmas only.
\<close>

section \<open>Strings in memory\<close>

definition cstr :: "mem \<Rightarrow> u64 \<Rightarrow> 8 chars" where
  "cstr m p = (\<lambda>i. m (p + word_of_int i))"

text \<open>\<open>terminated m p k\<close>: the first null byte from \<open>p\<close> on is the \<open>k\<close>-th.\<close>

definition terminated :: "mem \<Rightarrow> u64 \<Rightarrow> nat \<Rightarrow> bool" where
  "terminated m p k \<longleftrightarrow> m (p + of_nat k) = 0 \<and> (\<forall>j<k. m (p + of_nat j) \<noteq> 0)"

lemma cstr_nat [simp]: "cstr m p (int k) = m (p + of_nat k)"
  by (simp add: cstr_def)

lemma terminated_less: "terminated m p k \<Longrightarrow> k < 2 ^ 64"
proof (rule ccontr)
  assume t: "terminated m p k" and "\<not> k < 2 ^ 64"
  then have lt: "k - 2 ^ 64 < k" and k: "of_nat k = (of_nat (k - 2 ^ 64) + of_nat (2 ^ 64) :: u64)"
    by (simp, simp flip: of_nat_add)
  have "of_nat k = (of_nat (k - 2 ^ 64) :: u64)" using k by simp
  then show False using t lt unfolding terminated_def by metis
qed

lemma terminated_unique: "terminated m p k \<Longrightarrow> terminated m p k' \<Longrightarrow> k = k'"
  unfolding terminated_def by (metis linorder_neqE_nat)

lemma ex_terminated: "m (p + of_nat j) = 0 \<Longrightarrow> \<exists>k\<le>j. terminated m p k"
proof -
  assume j: "m (p + of_nat j) = 0"
  define k where "k = (LEAST k. m (p + of_nat k) = 0)"
  have "m (p + of_nat k) = 0" unfolding k_def using j by (rule LeastI)
  moreover have "\<forall>i<k. m (p + of_nat i) \<noteq> 0" unfolding k_def by (auto dest: not_less_Least)
  moreover have "k \<le> j" unfolding k_def using j by (rule Least_le)
  ultimately show ?thesis by (auto simp: terminated_def)
qed

lemma strlen_terminated: "logic_strlen (cstr m p) = int k \<longleftrightarrow> terminated m p k"
proof
  assume h: "logic_strlen (cstr m p) = int k"
  then have "cstr m p (int k) = 0" using logic_strlen_at [of "cstr m p"] by simp
  moreover have "cstr m p (int j) \<noteq> 0" if "j < k" for j
    using that h by (intro logic_strlen_before) auto
  ultimately show "terminated m p k" by (simp add: terminated_def)
next
  assume "terminated m p k"
  then show "logic_strlen (cstr m p) = int k" by (intro logic_strlen_eqI) (auto simp: terminated_def)
qed

lemma string_cases:
  obtains (string) k where "logic_strlen (cstr m p) = int k" and "terminated m p k" and "k < 2 ^ 64"
    | (endless) "logic_strlen (cstr m p) < 0" and "\<And>a. m a \<noteq> 0"
proof (cases "0 \<le> logic_strlen (cstr m p)")
  case True
  then obtain k where k: "logic_strlen (cstr m p) = int k" using nonneg_int_cases by blast
  then have "terminated m p k" by (simp add: strlen_terminated)
  then show ?thesis using string k terminated_less by blast
next
  case False
  then have n: "cstr m p (int k) \<noteq> 0" for k
    using logic_strlen_neg [of "cstr m p"] by (simp del: cstr_nat)
  have "m a \<noteq> 0" for a using n [of "unat (a - p)"] by (simp add: cstr_def)
  then show ?thesis using endless False by simp
qed

section \<open>Loops that copy\<close>

text \<open>Copying upwards, when no byte is read after it was written.\<close>

lemma memcpy_up_at:
  assumes "k \<le> 2 ^ 64" and "\<And>x y. y < x \<Longrightarrow> x < k \<Longrightarrow> s + i + of_nat x \<noteq> d + i + of_nat y"
  shows "memcpy_up d s k i m a = (if unat (a - (d + i)) < k then m (s + (a - d)) else m a)"
  using assms
proof (induction k arbitrary: i m)
  case (Suc k)
  let ?m = "m(d + i := m (s + i))"
  have nc: "s + (i + 1) + of_nat x \<noteq> d + (i + 1) + of_nat y" if "y < x" "x < k" for x y
    using Suc.prems(2) [of "Suc y" "Suc x"] that by (simp add: algebra_simps)
  have IH: "memcpy_up d s k (i + 1) ?m a
      = (if unat (a - (d + (i + 1))) < k then ?m (s + (a - d)) else ?m a)"
    using Suc.prems(1) nc by (intro Suc.IH) auto
  show ?case
  proof (cases "a = d + i")
    case True
    have "unat (a - (d + (i + 1))) = 2 ^ 64 - 1" using True by (simp add: unat_minus_1_64)
    then show ?thesis using IH Suc.prems(1) True by simp
  next
    case False
    then have pos: "a - (d + i) \<noteq> 0" by simp
    have u: "unat (a - (d + (i + 1))) = unat (a - (d + i)) - 1"
      using unat_minus_one [OF pos] by (simp add: algebra_simps)
    moreover have "0 < unat (a - (d + i))" using pos by (simp add: unat_gt_0)
    moreover have "s + (a - d) \<noteq> d + i" if "unat (a - (d + i)) < Suc k"
      using Suc.prems(2) [of 0 "unat (a - (d + i))"] that calculation(2) by (simp add: algebra_simps)
    ultimately show ?thesis using IH False by auto
  qed
qed simp

lemma memmove_down_at:
  assumes "n < 2 ^ 64" and "\<And>x y. x < y \<Longrightarrow> y \<le> n \<Longrightarrow> s + of_nat x \<noteq> d + of_nat y"
  shows "(let m = memmove_down d s n m in m(d := m s)) a
    = (if unat (a - d) \<le> n then m (s + (a - d)) else m a)"
  using assms
proof (induction n arbitrary: m)
  case 0
  then show ?case by (auto simp: Let_def unsigned_eq_0_iff)
next
  case (Suc n)
  let ?w = "of_nat (Suc n) :: u64"
  let ?m = "m(d + ?w := m (s + ?w))"
  have IH: "(let m = memmove_down d s n ?m in m(d := m s)) a
      = (if unat (a - d) \<le> n then ?m (s + (a - d)) else ?m a)"
    using Suc.prems by (intro Suc.IH) auto
  have w: "unat ?w = Suc n" using Suc.prems(1) by (intro unat_of_nat_64)
  have "s + (a - d) \<noteq> d + ?w" if "unat (a - d) \<le> n"
    using Suc.prems(2) [of "unat (a - d)" "Suc n"] that by simp
  moreover have "a = d + ?w \<longleftrightarrow> unat (a - d) = Suc n"
    using w by (metis add.commute diff_eq_eq unsigned_word_eqI)
  ultimately show ?case using IH by (auto simp: Let_def le_Suc_eq)
qed

lemma memset_loop_at:
  assumes "k \<le> 2 ^ 64"
  shows "memset_loop p c k i m a = (if unat (a - (p + i)) < k then c else m a)"
  using assms
proof (induction k arbitrary: i m)
  case (Suc k)
  show ?case
  proof (cases "a = p + i")
    case True
    have "unat (a - (p + (i + 1))) = 2 ^ 64 - 1" using True by (simp add: unat_minus_1_64)
    then show ?thesis using Suc True by simp
  next
    case False
    then have pos: "a - (p + i) \<noteq> 0" by simp
    have "unat (a - (p + (i + 1))) = unat (a - (p + i)) - 1"
      using unat_minus_one [OF pos] by (simp add: algebra_simps)
    moreover have "0 < unat (a - (p + i))" using pos by (simp add: unat_gt_0)
    ultimately show ?thesis using Suc False by auto
  qed
qed simp


section \<open>Loops to a terminator\<close>

lemma strlen_loop_steps:
  assumes "\<And>j. j < k \<Longrightarrow> m (s + i + of_nat j) \<noteq> 0" and "m (s + i + of_nat k) = 0"
  shows "strlen_loop m s i = Some (i + of_nat k)"
  using assms
proof (induction k arbitrary: i)
  case (Suc k)
  have "strlen_loop m s (i + 1) = Some (i + 1 + of_nat k)"
    using Suc.prems(1) [of "Suc _"] Suc.prems(2) by (intro Suc.IH) (auto simp: algebra_simps)
  then show ?case using Suc.prems(1) [of 0] by (simp add: strlen_loop.simps [of m s i])
qed (simp add: strlen_loop.simps)

lemma strlen_eq: "terminated m s k \<Longrightarrow> strlen s m = Some (of_nat k)"
  using strlen_loop_steps [of k m s 0] by (auto simp: strlen_def terminated_def)

lemma strlen_loop_endless: "(\<And>a. m a \<noteq> 0) \<Longrightarrow> strlen_loop m s i = None"
proof -
  assume nz: "\<And>a. m a \<noteq> 0"
  have "strlen_loop m s i = Some n \<Longrightarrow> (\<forall>a. m a \<noteq> 0) \<longrightarrow> False" for n
  proof (rule strlen_loop.raw_induct [where P = "\<lambda>m s i n. (\<forall>a. m a \<noteq> 0) \<longrightarrow> False"], goal_cases)
    case (1 f m s i n)
    then show ?case by (auto split: if_splits)
  qed
  then show ?thesis using nz by (metis not_Some_eq)
qed

lemma strnlen_loop_steps:
  assumes "\<And>j. j < t \<Longrightarrow> m (s + (i + of_nat j)) \<noteq> 0" and "t \<le> k" and "t < k \<Longrightarrow> m (s + (i + of_nat t)) = 0"
  shows "strnlen_loop m s k i = i + of_nat t"
  using assms
proof (induction m s k i arbitrary: t rule: strnlen_loop.induct)
  case (2 m s k i)
  show ?case
  proof (cases t)
    case 0
    then show ?thesis using 2(4) by simp
  next
    case (Suc u)
    then have "strnlen_loop m s k (i + 1) = i + 1 + of_nat u"
      using 2(2) [of "Suc _"] 2(3,4) 2(2) [of 0] by (intro "2.IH") (auto simp: algebra_simps)
    then show ?thesis using 2(2) [of 0] Suc by (simp add: algebra_simps)
  qed
qed simp

lemma memcmp_loop_eq:
  assumes "\<And>j. j < k \<Longrightarrow> m (s1 + (i + of_nat j)) = m (s2 + (i + of_nat j))"
  shows "memcmp_loop m s1 s2 k i = 0"
  using assms
proof (induction m s1 s2 k i rule: memcmp_loop.induct)
  case (2 m s1 s2 k i)
  show ?case using "2.IH" 2(2) [of 0] 2(2) [of "Suc _"] by (auto simp: algebra_simps)
qed simp

lemma memcmp_loop_diff:
  assumes "\<And>j. j < t \<Longrightarrow> m (s1 + (i + of_nat j)) = m (s2 + (i + of_nat j))" and "t < k"
    and "m (s1 + (i + of_nat t)) \<noteq> m (s2 + (i + of_nat t))"
  shows "memcmp_loop m s1 s2 k i = chr_diff (m (s1 + (i + of_nat t))) (m (s2 + (i + of_nat t)))"
  using assms
proof (induction m s1 s2 k i arbitrary: t rule: memcmp_loop.induct)
  case (2 m s1 s2 k i)
  show ?case
  proof (cases t)
    case (Suc u)
    have "memcmp_loop m s1 s2 k (i + 1)
        = chr_diff (m (s1 + (i + 1 + of_nat u))) (m (s2 + (i + 1 + of_nat u)))"
      using 2(2) [of "Suc _"] 2(3,4) 2(2) [of 0] Suc by (intro "2.IH") (auto simp: algebra_simps)
    then show ?thesis using 2(2) [of 0] Suc by (simp add: algebra_simps)
  qed (use 2(4) in simp)
qed simp

lemma strncmp_loop_eq:
  assumes "\<And>j. j < k \<Longrightarrow> m (s1 + (i + of_nat j)) = m (s2 + (i + of_nat j))"
  shows "strncmp_loop m s1 s2 k i = 0"
  using assms
proof (induction m s1 s2 k i rule: strncmp_loop.induct)
  case (2 m s1 s2 k i)
  show ?case using "2.IH" 2(2) [of 0] 2(2) [of "Suc _"] by (auto simp: algebra_simps)
qed simp

lemma strncmp_loop_diff:
  assumes "\<And>j. j < t \<Longrightarrow> m (s1 + (i + of_nat j)) = m (s2 + (i + of_nat j))"
    and "\<And>j. j < t \<Longrightarrow> m (s2 + (i + of_nat j)) \<noteq> 0"
    and "t < k" and "m (s1 + (i + of_nat t)) \<noteq> m (s2 + (i + of_nat t)) \<or> m (s1 + (i + of_nat t)) = 0"
  shows "strncmp_loop m s1 s2 k i = chr_diff (m (s1 + (i + of_nat t))) (m (s2 + (i + of_nat t)))"
  using assms
proof (induction m s1 s2 k i arbitrary: t rule: strncmp_loop.induct)
  case (2 m s1 s2 k i)
  show ?case
  proof (cases t)
    case 0
    then show ?thesis using 2(5) by (auto simp: chr_diff_def)
  next
    case (Suc u)
    have "strncmp_loop m s1 s2 k (i + 1)
        = chr_diff (m (s1 + (i + 1 + of_nat u))) (m (s2 + (i + 1 + of_nat u)))"
      using 2(2) [of "Suc _"] 2(3) [of "Suc _"] 2(4,5) 2(2,3) [of 0] Suc
      by (intro "2.IH") (auto simp: algebra_simps)
    then show ?thesis using 2(2,3) [of 0] Suc by (simp add: algebra_simps)
  qed
qed simp

lemma strcmp_loop_steps:
  assumes "\<And>j. j < t \<Longrightarrow> m (s1 + (i + of_nat j)) = m (s2 + (i + of_nat j))"
    and "\<And>j. j < t \<Longrightarrow> m (s2 + (i + of_nat j)) \<noteq> 0"
    and "m (s1 + (i + of_nat t)) \<noteq> m (s2 + (i + of_nat t)) \<or> m (s1 + (i + of_nat t)) = 0"
  shows "strcmp_loop m s1 s2 i = Some (chr_diff (m (s1 + (i + of_nat t))) (m (s2 + (i + of_nat t))))"
  using assms
proof (induction t arbitrary: i)
  case 0
  then show ?case by (auto simp: strcmp_loop.simps [of m s1 s2 i] chr_diff_def)
next
  case (Suc u)
  have "strcmp_loop m s1 s2 (i + 1)
      = Some (chr_diff (m (s1 + (i + 1 + of_nat u))) (m (s2 + (i + 1 + of_nat u))))"
    using Suc.prems(1) [of "Suc _"] Suc.prems(2) [of "Suc _"] Suc.prems(3)
    by (intro Suc.IH) (auto simp: algebra_simps)
  then show ?case
    using Suc.prems(1,2) [of 0] by (simp add: strcmp_loop.simps [of m s1 s2 i] algebra_simps)
qed

text \<open>Copying a string: the bytes before the null byte, then a null byte.\<close>

lemma strcpy_loop_steps:
  assumes "\<And>j. j < k \<Longrightarrow> m (src + (i + of_nat j)) \<noteq> 0" and "m (src + (i + of_nat k)) = 0"
    and "\<And>x y. y < x \<Longrightarrow> x \<le> k \<Longrightarrow> src + (i + of_nat x) \<noteq> d + (i + of_nat y)"
  shows "strcpy_loop d src i m = Some ((memcpy_up d src k i m)(d + (i + of_nat k) := 0))"
  using assms
proof (induction k arbitrary: i m)
  case 0
  then show ?case by (simp add: strcpy_loop.simps [of d src i m] fun_eq_iff)
next
  case (Suc k)
  let ?m = "m(d + i := m (src + i))"
  have at: "?m (src + (i + 1 + of_nat x)) = m (src + (i + of_nat (Suc x)))" if "x \<le> k" for x
    using Suc.prems(3) [of 0 "Suc x"] that by (simp add: algebra_simps)
  have "strcpy_loop d src (i + 1) ?m
      = Some ((memcpy_up d src k (i + 1) ?m)(d + (i + 1 + of_nat k) := 0))"
  proof (rule Suc.IH)
    show "src + (i + 1 + of_nat x) \<noteq> d + (i + 1 + of_nat y)" if "y < x" "x \<le> k" for x y
      using Suc.prems(3) [of "Suc y" "Suc x"] that by (simp add: algebra_simps)
  qed (use Suc.prems(1) [of "Suc _"] Suc.prems(2) at in simp_all)
  then show ?case using Suc.prems(1) [of 0] by (simp add: strcpy_loop.simps [of d src i m] algebra_simps fun_eq_iff)
qed

lemma strncat_loop_steps:
  assumes "\<And>j. j < t \<Longrightarrow> m (src + (i + of_nat j)) \<noteq> 0" and "t \<le> k" and "t < k \<Longrightarrow> m (src + (i + of_nat t)) = 0"
    and "\<And>x y. y < x \<Longrightarrow> x \<le> t \<Longrightarrow> x < k \<Longrightarrow> src + (i + of_nat x) \<noteq> d + (i + of_nat y)"
  shows "strncat_loop d src k i m = (memcpy_up d src t i m)(d + (i + of_nat t) := 0)"
  using assms
proof (induction k arbitrary: i m t)
  case (Suc k)
  show ?case
  proof (cases t)
    case 0
    then show ?thesis using Suc.prems(3) by simp
  next
    case (Suc u)
    let ?m = "m(d + i := m (src + i))"
    have at: "?m (src + (i + 1 + of_nat x)) = m (src + (i + of_nat (Suc x)))" if "x \<le> u" "x < k" for x
      using Suc.prems(4) [of 0 "Suc x"] that Suc by (simp add: algebra_simps)
    have "strncat_loop d src k (i + 1) ?m = (memcpy_up d src u (i + 1) ?m)(d + (i + 1 + of_nat u) := 0)"
    proof (rule Suc.IH)
      show "src + (i + 1 + of_nat x) \<noteq> d + (i + 1 + of_nat y)" if "y < x" "x \<le> u" "x < k" for x y
        using Suc.prems(4) [of "Suc y" "Suc x"] that Suc by (simp add: algebra_simps)
    qed (use Suc.prems(1) [of "Suc _"] Suc.prems(2,3) at Suc in auto)
    then show ?thesis using Suc.prems(1) [of 0] Suc by (simp add: algebra_simps)
  qed
qed simp

lemma strncpy_loop_steps:
  assumes "\<And>j. j < t \<Longrightarrow> m (src + (i + of_nat j)) \<noteq> 0" and "t \<le> k" and "t < k \<Longrightarrow> m (src + (i + of_nat t)) = 0"
    and "\<And>x y. y \<le> x \<Longrightarrow> x \<le> t \<Longrightarrow> x < k \<Longrightarrow> src + (i + of_nat x) \<noteq> d + (i + of_nat y)"
  shows "strncpy_loop d src k i m = memset_loop d 0 (k - t) (i + of_nat t) (memcpy_up d src t i m)"
  using assms
proof (induction k arbitrary: i m t)
  case (Suc k)
  let ?m = "m(d + i := m (src + i))"
  have at: "?m (src + (i + of_nat x)) = m (src + (i + of_nat x))" if "x \<le> t" "x < Suc k" for x
    using Suc.prems(4) [of 0 x] that by (simp add: algebra_simps)
  show ?case
  proof (cases t)
    case 0
    then show ?thesis using Suc.prems(3) at [of 0] by (simp add: fun_upd_idem)
  next
    case (Suc u)
    have "strncpy_loop d src k (i + 1) ?m
        = memset_loop d 0 (k - u) (i + 1 + of_nat u) (memcpy_up d src u (i + 1) ?m)"
    proof (rule Suc.IH)
      show "src + (i + 1 + of_nat x) \<noteq> d + (i + 1 + of_nat y)" if "y \<le> x" "x \<le> u" "x < k" for x y
        using Suc.prems(4) [of "Suc y" "Suc x"] that Suc by (simp add: algebra_simps)
    qed (use Suc.prems(1) [of "Suc _"] Suc.prems(2,3) at [of "Suc _"] Suc in \<open>auto simp: algebra_simps\<close>)
    then show ?thesis using Suc.prems(1) [of 0] at [of 0] Suc by (simp add: algebra_simps)
  qed
qed simp

section \<open>Loops that search\<close>

lemma strchr_loop_steps:
  assumes "\<And>j. j < t \<Longrightarrow> m (s + (i + of_nat j)) \<noteq> ch" and "\<And>j. j < t \<Longrightarrow> m (s + (i + of_nat j)) \<noteq> 0"
    and "m (s + (i + of_nat t)) = ch \<or> m (s + (i + of_nat t)) = 0"
  shows "strchr_loop m s ch i
    = Some (if m (s + (i + of_nat t)) = ch then s + (i + of_nat t) else 0)"
  using assms
proof (induction t arbitrary: i)
  case 0
  then show ?case by (auto simp: strchr_loop.simps [of m s ch i])
next
  case (Suc u)
  have "strchr_loop m s ch (i + 1)
      = Some (if m (s + (i + 1 + of_nat u)) = ch then s + (i + 1 + of_nat u) else 0)"
    using Suc.prems(1) [of "Suc _"] Suc.prems(2) [of "Suc _"] Suc.prems(3)
    by (intro Suc.IH) (auto simp: algebra_simps)
  then show ?case
    using Suc.prems(1,2) [of 0] by (simp add: strchr_loop.simps [of m s ch i] algebra_simps)
qed

lemma rsearch_cases:
  obtains (found) j where "rsearch m s ch k = s + of_nat j" and "j < k" and "m (s + of_nat j) = ch"
      and "\<And>x. j < x \<Longrightarrow> x < k \<Longrightarrow> m (s + of_nat x) \<noteq> ch"
    | (absent) "rsearch m s ch k = 0" and "\<And>x. x < k \<Longrightarrow> m (s + of_nat x) \<noteq> ch"
proof (induction k arbitrary: thesis)
  case (Suc k)
  show ?case
  proof (cases "m (s + of_nat k) = ch")
    case True
    then show ?thesis by (intro Suc.prems(1) [of k]) auto
  next
    case False
    show ?thesis
    proof (rule Suc.IH, goal_cases)
      case (1 j)
      then show ?thesis using False by (intro Suc.prems(1) [of j]) (auto simp: less_Suc_eq)
    next
      case 2
      then show ?thesis using False by (intro Suc.prems(2)) (auto simp: less_Suc_eq)
    qed
  qed
qed simp

lemma memchr_loop_absent:
  assumes "\<And>j. j < k \<Longrightarrow> m (s + (i + of_nat j)) \<noteq> ch"
  shows "memchr_loop m s ch k i = 0"
  using assms
proof (induction m s ch k i rule: memchr_loop.induct)
  case (2 m s ch k i)
  show ?case using "2.IH" 2(2) [of 0] 2(2) [of "Suc _"] by (auto simp: algebra_simps)
qed simp

lemma memchr_loop_found:
  assumes "\<And>j. j < t \<Longrightarrow> m (s + (i + of_nat j)) \<noteq> ch" and "t < k" and "m (s + (i + of_nat t)) = ch"
  shows "memchr_loop m s ch k i = s + (i + of_nat t)"
  using assms
proof (induction m s ch k i arbitrary: t rule: memchr_loop.induct)
  case (2 m s ch k i)
  show ?case
  proof (cases t)
    case (Suc u)
    have "memchr_loop m s ch k (i + 1) = s + (i + 1 + of_nat u)"
      using 2(2) [of "Suc _"] 2(3,4) 2(2) [of 0] Suc by (intro "2.IH") (auto simp: algebra_simps)
    then show ?thesis using 2(2) [of 0] Suc by (simp add: algebra_simps)
  qed (use 2(4) in simp)
qed simp

lemma strstr_match_steps:
  assumes "\<And>j. j < t \<Longrightarrow> m (h + (i + of_nat j)) \<noteq> 0"
    and "\<And>j. j < t \<Longrightarrow> m (h + (i + of_nat j)) = m (needle + (i + of_nat j))"
    and "m (h + (i + of_nat t)) = 0 \<or> m (h + (i + of_nat t)) \<noteq> m (needle + (i + of_nat t))"
  shows "strstr_match m h needle i = Some (i + of_nat t)"
  using assms
proof (induction t arbitrary: i)
  case 0
  then show ?case by (auto simp: strstr_match.simps [of m h needle i])
next
  case (Suc u)
  have "strstr_match m h needle (i + 1) = Some (i + 1 + of_nat u)"
    using Suc.prems(1) [of "Suc _"] Suc.prems(2) [of "Suc _"] Suc.prems(3)
    by (intro Suc.IH) (auto simp: algebra_simps)
  then show ?case
    using Suc.prems(1,2) [of 0] by (simp add: strstr_match.simps [of m h needle i] algebra_simps)
qed

text \<open>The first index at which a property holds, for the loops whose result it determines.\<close>

lemma first_index:
  fixes P :: "nat \<Rightarrow> bool"
  assumes "P k"
  obtains t where "t \<le> k" and "P t" and "\<And>j. j < t \<Longrightarrow> \<not> P j"
  using assms by (metis LeastI Least_le not_less_Least)

end
