(* ===== verification/Libc_String_Contracts.thy ===== *)
theory Libc_String_Contracts
  imports Libc_String_Loops
begin

text \<open>
  The ACSL contracts of \<^verbatim>\<open>share/libc/string.h\<close> for the functions that \<^verbatim>\<open>string.c\<close> implements:
  for each, \<open>f_requires\<close> is the conjunction of its \<^verbatim>\<open>requires\<close> clauses, \<open>f_ensures\<close> that of
  its \<^verbatim>\<open>ensures\<close> clauses and of the locations its \<^verbatim>\<open>assigns\<close> clauses allow to change, with the
  behaviours as implications. The logic functions are those of \<open>Libc_String_Spec\<close>.
\<close>

section \<open>The state a contract speaks of\<close>

text \<open>
  The memory with, for each byte, whether it may be written and read, whether it is initialized
  or dangling, the base address of its block and the length of that block.
\<close>

record acsl_state =
  a_mem :: mem
  a_valid :: "u64 \<Rightarrow> bool"
  a_valid_read :: "u64 \<Rightarrow> bool"
  a_initialized :: "u64 \<Rightarrow> bool"
  a_dangling :: "u64 \<Rightarrow> bool"
  a_base :: "u64 \<Rightarrow> u64"
  a_block_length :: "u64 \<Rightarrow> int"

text \<open>
  \<^verbatim>\<open>\valid(p + (lo..hi))\<close> and \<^verbatim>\<open>\valid_read\<close>: the bytes belong to the block of \<open>p\<close>, which does
  not hold the null address and has an address past its end, as C demands of every object.
\<close>

definition range_ok :: "acsl_state \<Rightarrow> (u64 \<Rightarrow> bool) \<Rightarrow> u64 \<Rightarrow> int \<Rightarrow> int \<Rightarrow> bool" where
  "range_ok A P p lo hi \<longleftrightarrow>
     (\<forall>i. lo \<le> i \<and> i \<le> hi \<longrightarrow> 0 < uint p + i \<and> uint p + i + 1 < 2 ^ 64 \<and>
        P (p + word_of_int i) \<and> a_base A (p + word_of_int i) = a_base A p)"

abbreviation valid :: "acsl_state \<Rightarrow> u64 \<Rightarrow> int \<Rightarrow> int \<Rightarrow> bool" where
  "valid A \<equiv> range_ok A (a_valid A)"

abbreviation valid_read :: "acsl_state \<Rightarrow> u64 \<Rightarrow> int \<Rightarrow> int \<Rightarrow> bool" where
  "valid_read A \<equiv> range_ok A (a_valid_read A)"

definition initialized :: "acsl_state \<Rightarrow> u64 \<Rightarrow> int \<Rightarrow> int \<Rightarrow> bool" where
  "initialized A p lo hi \<longleftrightarrow> (\<forall>i. lo \<le> i \<and> i \<le> hi \<longrightarrow> a_initialized A (p + word_of_int i))"

definition separated :: "u64 \<Rightarrow> int \<Rightarrow> u64 \<Rightarrow> int \<Rightarrow> bool" where
  "separated p n q k \<longleftrightarrow>
     (\<forall>i j. 0 \<le> i \<and> i \<le> n \<and> 0 \<le> j \<and> j \<le> k \<longrightarrow> p + word_of_int i \<noteq> q + word_of_int j)"

text \<open>\<^verbatim>\<open>assigns p[lo..hi]\<close>: no other byte changes.\<close>

definition assigns :: "mem \<Rightarrow> mem \<Rightarrow> u64 \<Rightarrow> int \<Rightarrow> int \<Rightarrow> bool" where
  "assigns m m' p lo hi \<longleftrightarrow>
     (\<forall>a. m' a \<noteq> m a \<longrightarrow> (\<exists>i. lo \<le> i \<and> i \<le> hi \<and> a = p + word_of_int i))"

section \<open>The predicates of the headers\<close>

definition non_escaping :: "acsl_state \<Rightarrow> u64 \<Rightarrow> u64 \<Rightarrow> bool" where
  "non_escaping A s n \<longleftrightarrow> (\<forall>i. 0 \<le> i \<and> i < uint n \<longrightarrow> \<not> a_dangling A (s + word_of_int i))"

definition empty_block :: "acsl_state \<Rightarrow> u64 \<Rightarrow> bool" where
  "empty_block A s \<longleftrightarrow> a_block_length A s = 0 \<and> uint s - uint (a_base A s) = 0"

definition valid_or_empty :: "acsl_state \<Rightarrow> u64 \<Rightarrow> u64 \<Rightarrow> bool" where
  "valid_or_empty A s n \<longleftrightarrow> (empty_block A s \<or> valid_read A s 0 0) \<and> valid A s 0 (uint n - 1)"

definition valid_read_or_empty :: "acsl_state \<Rightarrow> u64 \<Rightarrow> u64 \<Rightarrow> bool" where
  "valid_read_or_empty A s n \<longleftrightarrow>
     (empty_block A s \<or> valid_read A s 0 0) \<and> valid_read A s 1 (uint n - 1)"

abbreviation acsl_strlen :: "acsl_state \<Rightarrow> u64 \<Rightarrow> int" where
  "acsl_strlen A s \<equiv> logic_strlen (cstr (a_mem A) s)"

definition valid_string :: "acsl_state \<Rightarrow> u64 \<Rightarrow> bool" where
  "valid_string A s \<longleftrightarrow> 0 \<le> acsl_strlen A s \<and> valid A s 0 (acsl_strlen A s)"

definition valid_read_string :: "acsl_state \<Rightarrow> u64 \<Rightarrow> bool" where
  "valid_read_string A s \<longleftrightarrow> 0 \<le> acsl_strlen A s \<and> valid_read A s 0 (acsl_strlen A s)"

definition valid_read_nstring :: "acsl_state \<Rightarrow> u64 \<Rightarrow> int \<Rightarrow> bool" where
  "valid_read_nstring A s n \<longleftrightarrow>
     valid_read A s 0 (n - 1) \<and> initialized A s 0 (n - 1) \<or> valid_read_string A s"

definition valid_string_or_null :: "acsl_state \<Rightarrow> u64 \<Rightarrow> bool" where
  "valid_string_or_null A s \<longleftrightarrow> s = 0 \<or> valid_string A s"

section \<open>Memory blocks\<close>

definition memcmp_requires :: "acsl_state \<Rightarrow> u64 \<Rightarrow> u64 \<Rightarrow> u64 \<Rightarrow> bool" where
  "memcmp_requires A s1 s2 n \<longleftrightarrow>
     valid_read_or_empty A s1 n \<and> valid_read_or_empty A s2 n \<and>
     initialized A s1 0 (uint n - 1) \<and> initialized A s2 0 (uint n - 1) \<and>
     non_escaping A s1 n \<and> non_escaping A s2 n"

definition memcmp_ensures :: "acsl_state \<Rightarrow> u64 \<Rightarrow> u64 \<Rightarrow> u64 \<Rightarrow> int \<Rightarrow> bool" where
  "memcmp_ensures A s1 s2 n r \<longleftrightarrow> r = logic_memcmp (cstr (a_mem A) s1) (cstr (a_mem A) s2) (uint n)"

text \<open>
  The first alternative of each clause is modelled; the second, about the uninterpreted
  \<^verbatim>\<open>memchr_off\<close>, is a parameter \<open>off\<close>, the offset it gives.
\<close>

definition memchr_requires :: "acsl_state \<Rightarrow> u64 \<Rightarrow> u32 \<Rightarrow> u64 \<Rightarrow> int \<Rightarrow> bool" where
  "memchr_requires A s c n off \<longleftrightarrow>
     (valid_read_or_empty A s n \<or> valid_read A s 0 off) \<and>
     (initialized A s 0 (uint n - 1) \<or> initialized A s 0 off) \<and>
     (non_escaping A s n \<or> non_escaping A s (word_of_int (off + 1)))"

definition memchr_ensures :: "acsl_state \<Rightarrow> u64 \<Rightarrow> u32 \<Rightarrow> u64 \<Rightarrow> u64 \<Rightarrow> bool" where
  "memchr_ensures A s c n r \<longleftrightarrow>
     (logic_memchr (cstr (a_mem A) s) (sint c) (uint n) \<longrightarrow>
        a_base A r = a_base A s \<and> sint (a_mem A r) = sint c \<and>
        (\<forall>i. 0 \<le> i \<and> i < uint n \<longrightarrow> uint (a_mem A (s + word_of_int i)) = sint c \<longrightarrow>
           r \<le> s + word_of_int i)) \<and>
     (\<not> logic_memchr (cstr (a_mem A) s) (sint c) (uint n) \<longrightarrow> r = 0)"

definition memcpy_requires :: "acsl_state \<Rightarrow> u64 \<Rightarrow> u64 \<Rightarrow> u64 \<Rightarrow> bool" where
  "memcpy_requires A dest src n \<longleftrightarrow>
     valid_or_empty A dest n \<and> valid_read_or_empty A src n \<and>
     separated dest (uint n - 1) src (uint n - 1)"

definition memcpy_ensures :: "acsl_state \<Rightarrow> u64 \<Rightarrow> u64 \<Rightarrow> u64 \<Rightarrow> u64 \<times> mem \<Rightarrow> bool" where
  "memcpy_ensures A dest src n = (\<lambda>(r, m').
     assigns (a_mem A) m' dest 0 (uint n - 1) \<and>
     logic_memcmp (cstr m' dest) (cstr (a_mem A) src) (uint n) = 0 \<and> r = dest)"

definition memmove_requires :: "acsl_state \<Rightarrow> u64 \<Rightarrow> u64 \<Rightarrow> u64 \<Rightarrow> bool" where
  "memmove_requires A dest src n \<longleftrightarrow> valid_or_empty A dest n \<and> valid_read_or_empty A src n"

definition memmove_ensures :: "acsl_state \<Rightarrow> u64 \<Rightarrow> u64 \<Rightarrow> u64 \<Rightarrow> u64 \<times> mem \<Rightarrow> bool" where
  "memmove_ensures A dest src n = (\<lambda>(r, m').
     assigns (a_mem A) m' dest 0 (uint n - 1) \<and>
     logic_memcmp (cstr m' dest) (cstr (a_mem A) src) (uint n) = 0 \<and> r = dest)"

definition memset_requires :: "acsl_state \<Rightarrow> u64 \<Rightarrow> u64 \<Rightarrow> bool" where
  "memset_requires A s n \<longleftrightarrow> valid_or_empty A s n"

definition memset_ensures :: "acsl_state \<Rightarrow> u64 \<Rightarrow> u32 \<Rightarrow> u64 \<Rightarrow> u64 \<times> mem \<Rightarrow> bool" where
  "memset_ensures A s c n = (\<lambda>(r, m').
     assigns (a_mem A) m' s 0 (uint n - 1) \<and> logic_memset (cstr m' s) (sint c) (uint n) \<and> r = s)"

section \<open>Strings\<close>

definition strlen_requires :: "acsl_state \<Rightarrow> u64 \<Rightarrow> bool" where
  "strlen_requires A s \<longleftrightarrow> valid_read_string A s"

definition strlen_ensures :: "acsl_state \<Rightarrow> u64 \<Rightarrow> u64 \<Rightarrow> bool" where
  "strlen_ensures A s r \<longleftrightarrow> uint r = acsl_strlen A s"

definition strnlen_requires :: "acsl_state \<Rightarrow> u64 \<Rightarrow> u64 \<Rightarrow> bool" where
  "strnlen_requires A s n \<longleftrightarrow> valid_read_nstring A s (uint n)"

definition strnlen_ensures :: "acsl_state \<Rightarrow> u64 \<Rightarrow> u64 \<Rightarrow> u64 \<Rightarrow> bool" where
  "strnlen_ensures A s n r \<longleftrightarrow> uint r = acsl_strlen A s \<or> r = n"

definition strcmp_requires :: "acsl_state \<Rightarrow> u64 \<Rightarrow> u64 \<Rightarrow> bool" where
  "strcmp_requires A s1 s2 \<longleftrightarrow> valid_read_string A s1 \<and> valid_read_string A s2"

definition strcmp_ensures :: "acsl_state \<Rightarrow> u64 \<Rightarrow> u64 \<Rightarrow> int \<Rightarrow> bool" where
  "strcmp_ensures A s1 s2 r \<longleftrightarrow> r = logic_strcmp (cstr (a_mem A) s1) (cstr (a_mem A) s2)"

definition strncmp_requires :: "acsl_state \<Rightarrow> u64 \<Rightarrow> u64 \<Rightarrow> u64 \<Rightarrow> bool" where
  "strncmp_requires A s1 s2 n \<longleftrightarrow>
     valid_read_nstring A s1 (uint n) \<and> valid_read_nstring A s2 (uint n)"

definition strncmp_ensures :: "acsl_state \<Rightarrow> u64 \<Rightarrow> u64 \<Rightarrow> u64 \<Rightarrow> int \<Rightarrow> bool" where
  "strncmp_ensures A s1 s2 n r \<longleftrightarrow>
     r = logic_strncmp (cstr (a_mem A) s1) (cstr (a_mem A) s2) (uint n)"

definition strchr_requires :: "acsl_state \<Rightarrow> u64 \<Rightarrow> bool" where
  "strchr_requires A s \<longleftrightarrow> valid_read_string A s"

definition strchr_ensures :: "acsl_state \<Rightarrow> u64 \<Rightarrow> u32 \<Rightarrow> u64 \<Rightarrow> bool" where
  "strchr_ensures A s c r \<longleftrightarrow>
     (logic_strchr (cstr (a_mem A) s) (sint c) \<longrightarrow>
        a_mem A r = ucast c \<and> a_base A r = a_base A s \<and>
        uint s \<le> uint r \<and> uint r \<le> uint s + acsl_strlen A s \<and>
        valid_read_string A r \<and> (\<forall>p. s \<le> p \<and> p < r \<longrightarrow> a_mem A p \<noteq> ucast c)) \<and>
     (\<not> logic_strchr (cstr (a_mem A) s) (sint c) \<longrightarrow> r = 0) \<and>
     (r = 0 \<or> a_base A r = a_base A s)"

definition strrchr_requires :: "acsl_state \<Rightarrow> u64 \<Rightarrow> bool" where
  "strrchr_requires A s \<longleftrightarrow> valid_read_string A s"

definition strrchr_ensures :: "acsl_state \<Rightarrow> u64 \<Rightarrow> u32 \<Rightarrow> u64 \<Rightarrow> bool" where
  "strrchr_ensures A s c r \<longleftrightarrow>
     (logic_strchr (cstr (a_mem A) s) (sint c) \<longrightarrow>
        sint (a_mem A r) = sint c \<and> a_base A r = a_base A s \<and> valid_read_string A r) \<and>
     (\<not> logic_strchr (cstr (a_mem A) s) (sint c) \<longrightarrow> r = 0) \<and>
     (r = 0 \<or> a_base A r = a_base A s)"

definition strstr_requires :: "acsl_state \<Rightarrow> u64 \<Rightarrow> u64 \<Rightarrow> bool" where
  "strstr_requires A haystack needle \<longleftrightarrow> valid_read_string A haystack \<and> valid_read_string A needle"

definition strstr_ensures :: "acsl_state \<Rightarrow> u64 \<Rightarrow> u64 \<Rightarrow> u64 \<Rightarrow> bool" where
  "strstr_ensures A haystack needle r \<longleftrightarrow>
     r = 0 \<or>
     (\<exists>i\<ge>0. uint r = uint haystack + i) \<and> valid_read A r 0 0 \<and>
     logic_memcmp (cstr (a_mem A) r) (cstr (a_mem A) needle) (acsl_strlen A needle) = 0"

definition strcpy_requires :: "acsl_state \<Rightarrow> u64 \<Rightarrow> u64 \<Rightarrow> bool" where
  "strcpy_requires A dest src \<longleftrightarrow>
     valid_read_string A src \<and> valid A dest 0 (acsl_strlen A src) \<and>
     separated dest (acsl_strlen A src) src (acsl_strlen A src)"

definition strcpy_ensures :: "acsl_state \<Rightarrow> u64 \<Rightarrow> u64 \<Rightarrow> u64 \<times> mem \<Rightarrow> bool" where
  "strcpy_ensures A dest src = (\<lambda>(r, m').
     assigns (a_mem A) m' dest 0 (acsl_strlen A src) \<and>
     logic_strcmp (cstr m' dest) (cstr m' src) = 0 \<and> r = dest)"

definition strncpy_requires :: "acsl_state \<Rightarrow> u64 \<Rightarrow> u64 \<Rightarrow> u64 \<Rightarrow> bool" where
  "strncpy_requires A dest src n \<longleftrightarrow>
     valid_read_string A src \<and> valid A dest 0 (uint n - 1) \<and>
     separated dest (uint n - 1) src (uint n - 1)"

definition strncpy_ensures :: "acsl_state \<Rightarrow> u64 \<Rightarrow> u64 \<Rightarrow> u64 \<Rightarrow> u64 \<times> mem \<Rightarrow> bool" where
  "strncpy_ensures A dest src n = (\<lambda>(r, m').
     assigns (a_mem A) m' dest 0 (uint n - 1) \<and> r = dest \<and>
     (acsl_strlen A src < uint n \<longrightarrow> logic_strcmp (cstr m' dest) (cstr m' src) = 0) \<and>
     (uint n \<le> acsl_strlen A src \<longrightarrow> logic_memcmp (cstr m' dest) (cstr m' src) (uint n) = 0))"

definition strcat_requires :: "acsl_state \<Rightarrow> u64 \<Rightarrow> u64 \<Rightarrow> bool" where
  "strcat_requires A dest src \<longleftrightarrow>
     valid_read_string A src \<and> valid_string A dest \<and>
     valid A dest 0 (acsl_strlen A dest + acsl_strlen A src)"

definition strcat_ensures :: "acsl_state \<Rightarrow> u64 \<Rightarrow> u64 \<Rightarrow> u64 \<times> mem \<Rightarrow> bool" where
  "strcat_ensures A dest src = (\<lambda>(r, m').
     assigns (a_mem A) m' dest (acsl_strlen A dest) (acsl_strlen A dest + acsl_strlen A src) \<and>
     logic_strlen (cstr m' dest) = acsl_strlen A dest + acsl_strlen A src \<and>
     cstr m' dest (acsl_strlen A dest + acsl_strlen A src) = 0 \<and> r = dest)"

end
