(* ===== verification/Libc_String_Correct.thy ===== *)
theory Libc_String_Correct
  imports Libc_String_Contracts
begin

text \<open>
  Each function of \<^verbatim>\<open>string.c\<close> meets its contract of \<^verbatim>\<open>string.h\<close>, for the arguments on which
  it does; the lemmas behind the properties of \<open>Libc_String_Props\<close>.
\<close>

section \<open>From integer ranges to natural numbers\<close>

lemma all_below: "(\<forall>i. 0 \<le> i \<and> i < int n \<longrightarrow> P i) \<longleftrightarrow> (\<forall>k<n. P (int k))"
  by (metis nonneg_int_cases of_nat_0_le_iff of_nat_less_iff)

text \<open>In this theory addresses and sizes are read as natural numbers throughout.\<close>

declare of_nat_unat [simp del]

lemma uint_int [simp]: "uint (w :: u64) = int (unat w)"
  by (rule uint_nat)

lemma of_nat_unat_id [simp]: "of_nat (unat w) = (w :: u64)"
  by (simp add: of_nat_unat)

lemma range_okD:
  assumes "range_ok A P p lo hi" and "lo \<le> int k" and "int k \<le> hi"
  shows "P (p + of_nat k)" and "a_base A (p + of_nat k) = a_base A p"
    and "unat p + k + 1 < 2 ^ 64" and "0 < unat p + k"
proof -
  have h: "0 < uint p + int k \<and> uint p + int k + 1 < 2 ^ 64 \<and>
      P (p + word_of_int (int k)) \<and> a_base A (p + word_of_int (int k)) = a_base A p"
    using assms unfolding range_ok_def by blast
  then show "P (p + of_nat k)" and "a_base A (p + of_nat k) = a_base A p" by auto
  show "unat p + k + 1 < 2 ^ 64" using h by simp
  have "0 < int (unat p + k)" using h by simp
  then show "0 < unat p + k" by linarith
qed

lemma unat_offset: "unat p + k < 2 ^ 64 \<Longrightarrow> unat (p + of_nat k :: u64) = unat p + k"
  by (simp add: unat_add_64 unat_of_nat_64)

lemma offset_neq:
  assumes "unat p + x < 2 ^ 64" and "unat q + y < 2 ^ 64" and "unat p + x \<noteq> unat q + y"
  shows "p + of_nat x \<noteq> (q + of_nat y :: u64)"
  using assms unat_offset by metis

section \<open>Copying memory\<close>

text \<open>What both copy functions have to establish.\<close>

lemma copied_ensures:
  assumes "\<And>a. m' a = (if unat (a - d) < unat n then a_mem A (s + (a - d)) else a_mem A a)"
  shows "memcpy_ensures A d s n (d, m')"
proof -
  have "m' (d + of_nat k) = a_mem A (s + of_nat k)" if "k < unat n" for k
    using assms [of "d + of_nat k"] that less_trans [OF that unat_lt_64] by (simp add: unat_of_nat_64)
  then have "logic_memcmp (cstr m' d) (cstr (a_mem A) s) (uint n) = 0"
    by (simp add: logic_memcmp_zero uint_int all_below)
  moreover have "\<exists>i. 0 \<le> i \<and> i \<le> uint n - 1 \<and> a = d + word_of_int i" if "m' a \<noteq> a_mem A a" for a
    using that assms [of a] by (intro exI [of _ "int (unat (a - d))"]) (auto split: if_splits)
  ultimately show ?thesis by (simp add: memcpy_ensures_def assigns_def)
qed

lemma memcpy_contract:
  assumes "memcpy_requires A dest src n"
  shows "memcpy_ensures A dest src n (memcpy dest src n (a_mem A))"
proof -
  have sep: "dest + of_nat y \<noteq> src + of_nat x" if "x < unat n" "y < unat n" for x y
  proof -
    have "int x < uint n" "int y < uint n" using that by simp_all
    then have "dest + word_of_int (int y) \<noteq> src + word_of_int (int x)"
      using assms unfolding memcpy_requires_def separated_def
      by (meson int_one_le_iff_zero_less of_nat_0_le_iff zle_diff1_eq)
    then show ?thesis by simp
  qed
  have "unat n \<le> 2 ^ 64" using unat_lt_64 [of n] by simp
  moreover have "src + 0 + of_nat x \<noteq> dest + 0 + of_nat y" if "y < x" "x < unat n" for x y
    using sep [of x y] that by simp
  ultimately show ?thesis
    using memcpy_up_at [of "unat n" src 0 dest "a_mem A"] unfolding memcpy_def
    by (intro copied_ensures) simp
qed

text \<open>The answer of \<^verbatim>\<open>memoverlap\<close> makes the direction of the copy the right one.\<close>

lemma overlap_up:
  assumes "unat d + unat n < 2 ^ 64" and "unat s + unat n < 2 ^ 64" and "memoverlap d s n \<le> 0"
    and "y < x" and "x < unat n"
  shows "s + of_nat x \<noteq> d + of_nat y"
proof (rule offset_neq)
  have "unat (d + n) = unat d + unat n" "unat (s + n) = unat s + unat n"
    using assms(1,2) by (simp_all add: unat_add_64)
  then show "unat s + x \<noteq> unat d + y"
    using assms(3-5) by (auto simp: memoverlap_def word_le_nat_alt word_less_nat_alt split: if_splits)
qed (use assms in simp_all)

lemma overlap_down:
  assumes "unat d + unat n < 2 ^ 64" and "unat s + unat n < 2 ^ 64" and "\<not> memoverlap d s n \<le> 0"
    and "x < y" and "y < unat n"
  shows "s + of_nat x \<noteq> d + of_nat y"
proof (rule offset_neq)
  show "unat s + x \<noteq> unat d + y"
    using assms(3-5) by (auto simp: memoverlap_def word_le_nat_alt word_less_nat_alt split: if_splits)
qed (use assms in simp_all)

lemma memmove_contract:
  assumes "memmove_requires A dest src n"
  shows "memmove_ensures A dest src n (memmove dest src n (a_mem A))"
proof -
  let ?m = "a_mem A"
  have d: "valid A dest 0 (int (unat n) - 1)" and s: "valid_read A src 1 (int (unat n) - 1)"
    using assms by (auto simp: memmove_requires_def valid_or_empty_def valid_read_or_empty_def)
  have ends: "unat dest + unat n < 2 ^ 64" "unat src + unat n < 2 ^ 64" if "1 < unat n"
    using range_okD(3) [OF d, of "unat n - 1"] range_okD(3) [OF s, of "unat n - 1"] that by auto
  have up: "src + of_nat x \<noteq> dest + of_nat y"
    if "memoverlap dest src n \<le> 0" "y < x" "x < unat n" for x y
    using overlap_up [OF ends that] that by simp
  have down: "src + of_nat x \<noteq> dest + of_nat y"
    if "\<not> memoverlap dest src n \<le> 0" "x < y" "y < unat n" for x y
    using overlap_down [OF ends that] that by simp
  have n1: "unat (n - 1) = unat n - 1" if "n \<noteq> 0" using that by (rule unat_minus_one)
  have n64: "unat n < 2 ^ 64" by (rule unat_lt_64)
  have "snd (memmove dest src n ?m) a = (if unat (a - dest) < unat n then ?m (src + (a - dest)) else ?m a)" for a
  proof (cases "n = 0")
    case False
    then have pos: "0 < unat n" by (simp add: unat_gt_0)
    show ?thesis
    proof (cases "memoverlap dest src n \<le> 0")
      case True
      then show ?thesis using False memcpy_up_at [of "unat n" src 0 dest ?m a] up n64
        by (simp add: memmove_def)
    next
      case ov: False
      have "(let m = memmove_down dest src (unat (n - 1)) ?m in m(dest := m src)) a
          = (if unat (a - dest) \<le> unat (n - 1) then ?m (src + (a - dest)) else ?m a)"
        using n1 [OF False] n64 pos down [OF ov] by (intro memmove_down_at) auto
      moreover have "unat (a - dest) \<le> unat (n - 1) \<longleftrightarrow> unat (a - dest) < unat n"
        using n1 [OF False] pos by linarith
      ultimately show ?thesis using False ov by (simp add: memmove_def Let_def)
    qed
  qed (simp add: memmove_def)
  then have "memcpy_ensures A dest src n (dest, snd (memmove dest src n ?m))" by (rule copied_ensures)
  moreover have "fst (memmove dest src n ?m) = dest" by (simp add: memmove_def)
  ultimately show ?thesis by (cases "memmove dest src n ?m") (simp add: memmove_ensures_def memcpy_ensures_def)
qed

section \<open>Comparison\<close>

lemma first_diff_eq: "s1 (int t) \<noteq> s2 (int t) \<Longrightarrow> (\<And>j. j < t \<Longrightarrow> s1 (int j) = s2 (int j)) \<Longrightarrow> first_diff s1 s2 = t"
  unfolding first_diff_def by (rule Least_equality) (auto simp: not_less [symmetric])

lemma diff_at_bytes:
  assumes "m (p + of_nat t) \<noteq> m (q + of_nat t)" and "\<And>j. j < t \<Longrightarrow> m (p + of_nat j) = m (q + of_nat j)"
  shows "diff_at (cstr m p) (cstr m q) = chr_diff (m (p + of_nat t)) (m (q + of_nat t))"
  using first_diff_eq [of "cstr m p" t "cstr m q"] assms by (simp add: diff_at_def chr_diff_def of_nat_unat)

lemma strlen_of_terminated: "terminated m p k \<Longrightarrow> logic_strlen (cstr m p) = int k"
  by (simp add: strlen_terminated)

lemma memcmp_logic: "memcmp s1 s2 n m = logic_memcmp (cstr m s1) (cstr m s2) (uint n)"
proof (cases "\<exists>t<unat n. m (s1 + of_nat t) \<noteq> m (s2 + of_nat t)")
  case True
  then obtain k where k: "k < unat n" "m (s1 + of_nat k) \<noteq> m (s2 + of_nat k)" by blast
  obtain t where t: "t \<le> k" "m (s1 + of_nat t) \<noteq> m (s2 + of_nat t)"
      "\<And>j. j < t \<Longrightarrow> \<not> m (s1 + of_nat j) \<noteq> m (s2 + of_nat j)"
    using first_index [of "\<lambda>t. m (s1 + of_nat t) \<noteq> m (s2 + of_nat t)"] k(2) by blast
  have "memcmp s1 s2 n m = chr_diff (m (s1 + of_nat t)) (m (s2 + of_nat t))"
    using memcmp_loop_diff [of t m s1 0 s2 "unat n"] t k(1) by (simp add: memcmp_def)
  moreover have "\<not> (\<forall>j<unat n. m (s1 + of_nat j) = m (s2 + of_nat j))" using True by blast
  ultimately show ?thesis
    using diff_at_bytes [of m s1 t s2] t by (auto simp: logic_memcmp_def all_below)
next
  case False
  then show ?thesis
    using memcmp_loop_eq [of "unat n" m s1 0 s2] by (simp add: memcmp_def logic_memcmp_def all_below)
qed

text \<open>The index at which a comparison of strings stops.\<close>

definition stops :: "mem \<Rightarrow> u64 \<Rightarrow> u64 \<Rightarrow> nat \<Rightarrow> bool" where
  "stops m p q t \<longleftrightarrow> m (p + of_nat t) \<noteq> m (q + of_nat t) \<or> m (p + of_nat t) = 0"

lemma strcmp_at_stop:
  assumes "stops m p q t" and "\<And>j. j < t \<Longrightarrow> \<not> stops m p q j" and "terminated m p k" and "terminated m q l"
  shows "chr_diff (m (p + of_nat t)) (m (q + of_nat t)) = logic_strcmp (cstr m p) (cstr m q)"
    and "t \<le> k" and "m (p + of_nat t) = m (q + of_nat t) \<Longrightarrow> t = k"
proof -
  have len: "logic_strlen (cstr m p) = int k" "logic_strlen (cstr m q) = int l"
    using assms(3,4) by (simp_all add: strlen_terminated)
  show tk: "t \<le> k" using assms(2) [of k] assms(3) by (force simp: stops_def terminated_def)
  show eqk: "t = k" if "m (p + of_nat t) = m (q + of_nat t)"
    using that assms(1,3) tk by (metis le_neq_implies_less stops_def terminated_def)
  show "chr_diff (m (p + of_nat t)) (m (q + of_nat t)) = logic_strcmp (cstr m p) (cstr m q)"
  proof (cases "m (p + of_nat t) = m (q + of_nat t)")
    case True
    have "terminated m q t" using assms(1,2) True by (auto simp: stops_def terminated_def)
    then have "l = t" using assms(4) terminated_unique by blast
    moreover have "m (p + of_nat j) = m (q + of_nat j)" if "j \<le> t" for j
      using assms(2) [of j] that True by (cases "j = t") (auto simp: stops_def)
    ultimately have "logic_strcmp (cstr m p) (cstr m q) = 0"
      using eqk [OF True] len by (simp add: logic_strcmp_zero) (metis cstr_nat nonneg_int_cases of_nat_le_iff)
    then show ?thesis using True by (simp add: chr_diff_def)
  next
    case False
    then have "\<not> (\<forall>i. 0 \<le> i \<and> i \<le> int k \<longrightarrow> cstr m p i = cstr m q i)"
      using tk by (metis cstr_nat of_nat_0_le_iff of_nat_le_iff)
    then have "logic_strcmp (cstr m p) (cstr m q) = diff_at (cstr m p) (cstr m q)"
      using len by (auto simp: logic_strcmp_def)
    then show ?thesis using False assms(2) by (simp add: diff_at_bytes stops_def)
  qed
qed

lemma strcmp_logic:
  assumes "terminated m p k" and "terminated m q l"
  shows "strcmp p q m = Some (logic_strcmp (cstr m p) (cstr m q))"
proof -
  have "stops m p q k" using assms(1) by (simp add: stops_def terminated_def)
  then obtain t where t: "stops m p q t" "\<And>j. j < t \<Longrightarrow> \<not> stops m p q j" by (rule first_index) blast
  have "strcmp p q m = Some (chr_diff (m (p + of_nat t)) (m (q + of_nat t)))"
    using strcmp_loop_steps [of t m p 0 q] t by (simp add: strcmp_def stops_def)
  then show ?thesis using strcmp_at_stop(1) [OF t assms] by simp
qed

lemma strncmp_logic:
  assumes "terminated m p k" and "terminated m q l"
  shows "strncmp p q n m = logic_strncmp (cstr m p) (cstr m q) (uint n)"
proof (cases "\<exists>t<unat n. stops m p q t")
  case True
  then obtain j where j: "j < unat n" "stops m p q j" by blast
  obtain t where t: "t \<le> j" "stops m p q t" "\<forall>j<t. \<not> stops m p q j"
    using first_index [of "stops m p q" j] j(2) by blast
  note stop = strcmp_at_stop [OF t(2) _ assms]
  have "strncmp p q n m = chr_diff (m (p + of_nat t)) (m (q + of_nat t))"
    using strncmp_loop_diff [of t m p 0 q "unat n"] t j by (simp add: strncmp_def stops_def)
  moreover have "logic_strncmp (cstr m p) (cstr m q) (uint n) = logic_strcmp (cstr m p) (cstr m q)"
  proof (cases "m (p + of_nat t) = m (q + of_nat t)")
    case eq: True
    then have "logic_strcmp (cstr m p) (cstr m q) = 0" using stop(1) t(3) by (simp add: chr_diff_def)
    then show ?thesis
      using stop(3) t(3) eq t(1) j(1) strlen_of_terminated [OF assms(1)] by (simp add: logic_strncmp_def)
  next
    case False
    then have nz: "logic_strcmp (cstr m p) (cstr m q) = diff_at (cstr m p) (cstr m q)"
      using stop(1) t(3) by (simp add: diff_at_bytes stops_def)
    moreover have "diff_at (cstr m p) (cstr m q) \<noteq> 0"
      using False diff_at_nonzero [of "int t" "cstr m p" "cstr m q"] by simp
    moreover have "\<not> (\<forall>j<unat n. m (p + of_nat j) = m (q + of_nat j))"
      using False t(1) j(1) by (meson le_less_trans)
    ultimately show ?thesis by (simp add: logic_strncmp_def all_below)
  qed
  ultimately show ?thesis using stop(1) t(3) by simp
next
  case False
  then have "\<forall>j<unat n. m (p + of_nat j) = m (q + of_nat j)" by (auto simp: stops_def)
  then show ?thesis
    using strncmp_loop_eq [of "unat n" m p 0 q] by (simp add: strncmp_def logic_strncmp_def all_below)
qed

section \<open>Strings of a contract\<close>

lemma valid_read_stringE:
  assumes "valid_read_string A s"
  obtains k where "terminated (a_mem A) s k" and "acsl_strlen A s = int k" and "unat s + k + 1 < 2 ^ 64"
    and "valid_read A s 0 (int k)" and "0 < unat s"
proof -
  obtain k where k: "acsl_strlen A s = int k"
    using assms nonneg_int_cases unfolding valid_read_string_def by blast
  then have r: "valid_read A s 0 (int k)" using assms by (simp add: valid_read_string_def)
  show ?thesis
    using that [of k] k r range_okD(3) [OF r, of k] range_okD(4) [OF r, of 0] by (simp add: strlen_terminated)
qed

text \<open>A pointer into a string is a string.\<close>

lemma valid_read_string_suffix:
  assumes "terminated (a_mem A) s k" and "valid_read A s 0 (int k)" and "t \<le> k"
  shows "valid_read_string A (s + of_nat t)"
proof -
  have "terminated (a_mem A) (s + of_nat t) (k - t)"
    using assms(1,3) by (auto simp: terminated_def add.assoc simp flip: of_nat_add)
  then have len: "acsl_strlen A (s + of_nat t) = int (k - t)" by (rule strlen_of_terminated)
  have "0 < uint (s + of_nat t) + int x \<and> uint (s + of_nat t) + int x + 1 < 2 ^ 64 \<and>
      a_valid_read A (s + of_nat t + of_nat x) \<and> a_base A (s + of_nat t + of_nat x) = a_base A (s + of_nat t)"
    if "x \<le> k - t" for x
  proof -
    have le: "0 \<le> int (t + x)" "int (t + x) \<le> int k" using that assms(3) by auto
    note at = range_okD [OF assms(2) le]
    have "unat (s + of_nat t) = unat s + t" using at(3) by (intro unat_offset) simp
    moreover have "a_base A (s + of_nat t) = a_base A s" using range_okD(2) [OF assms(2), of t] assms(3) by simp
    moreover have "0 < int (unat s + (t + x))" using at(4) by linarith
    ultimately show ?thesis using at(1-3) by (simp add: add.assoc)
  qed
  then have "valid_read A (s + of_nat t) 0 (int (k - t))"
    unfolding range_ok_def by (metis nonneg_int_cases of_int_of_nat_eq of_nat_le_iff)
  then show ?thesis using len by (simp add: valid_read_string_def)
qed

section \<open>Searching\<close>

lemma c_char: "scast (c :: u32) = (ucast c :: u8)"
  by (rule bit_word_eqI) (simp add: bit_simps)

lemma sint_ucast_8:
  assumes "- 128 \<le> sint (c :: u32)" and "sint c \<le> 127"
  shows "sint (ucast c :: u8) = sint c"
proof -
  have "sint (ucast c :: u8) = sint (word_of_int (sint c) :: u8)" by (simp add: c_char)
  also have "\<dots> = signed_take_bit 7 (sint c)" by (simp add: sint_sbintrunc' del: of_int_sint)
  also have "\<dots> = sint c" using assms by (intro signed_take_bit_int_eq_self) auto
  finally show ?thesis .
qed

lemma strchr_in_string:
  fixes c :: u32
  assumes "terminated m s k"
  shows "logic_strchr (cstr m s) (sint c) \<longleftrightarrow> (\<exists>t\<le>k. m (s + of_nat t) = ucast c)"
proof -
  have "(\<exists>i. 0 \<le> i \<and> i \<le> int k \<and> cstr m s i = x) \<longleftrightarrow> (\<exists>t\<le>k. m (s + of_nat t) = x)" for x
    by (metis cstr_nat nonneg_int_cases of_nat_0_le_iff of_nat_le_iff)
  then show ?thesis by (simp add: logic_strchr_def strlen_of_terminated [OF assms] c_char)
qed

lemma strchr_contract:
  assumes "strchr_requires A s"
  shows "\<exists>r. strchr s c (a_mem A) = Some r \<and> strchr_ensures A s c r"
proof -
  let ?m = "a_mem A" and ?c = "ucast c :: u8"
  obtain k where k: "terminated ?m s k" "acsl_strlen A s = int k" "unat s + k + 1 < 2 ^ 64"
      "valid_read A s 0 (int k)" "0 < unat s"
    using assms unfolding strchr_requires_def by (rule valid_read_stringE)
  have "?m (s + of_nat k) = ?c \<or> ?m (s + of_nat k) = 0" using k(1) by (simp add: terminated_def)
  then obtain t where t: "t \<le> k" "?m (s + of_nat t) = ?c \<or> ?m (s + of_nat t) = 0"
      "\<forall>j<t. \<not> (?m (s + of_nat j) = ?c \<or> ?m (s + of_nat j) = 0)"
    using first_index [of "\<lambda>t. ?m (s + of_nat t) = ?c \<or> ?m (s + of_nat t) = 0" k] by blast
  have at: "unat (s + of_nat t) = unat s + t" using k(3) t(1) by (intro unat_offset) simp
  have res: "strchr s c ?m = Some (if ?m (s + of_nat t) = ?c then s + of_nat t else 0)"
    using strchr_loop_steps [of t ?m s 0 ?c] t by (simp add: strchr_def)
  have "t = k" if "?m (s + of_nat t) \<noteq> ?c"
    using that t k(1) by (metis le_neq_implies_less terminated_def)
  then have found: "logic_strchr (cstr ?m s) (sint c) \<longleftrightarrow> ?m (s + of_nat t) = ?c"
    using strchr_in_string [OF k(1), of c] t by (metis le_neq_implies_less)
  have "?m p \<noteq> ?c" if "s \<le> p" "p < s + of_nat t" for p
  proof -
    have "unat (p - s) < t"
      using that at by (simp add: word_le_nat_alt word_less_nat_alt unat_sub_64)
    then show ?thesis using t(3) by (metis add.commute diff_add_cancel of_nat_unat_id)
  qed
  then have "strchr_ensures A s c (if ?m (s + of_nat t) = ?c then s + of_nat t else 0)"
    using found at k(2) t(1) valid_read_string_suffix [OF k(1,4) t(1)] range_okD(2) [OF k(4), of t]
    by (simp add: strchr_ensures_def)
  then show ?thesis using res by blast
qed

lemma strrchr_contract:
  assumes "strrchr_requires A s" and "- 128 \<le> sint c" and "sint c \<le> 127"
  shows "\<exists>r. strrchr s c (a_mem A) = Some r \<and> strrchr_ensures A s c r"
proof -
  let ?m = "a_mem A" and ?c = "ucast c :: u8"
  obtain k where k: "terminated ?m s k" "acsl_strlen A s = int k" "unat s + k + 1 < 2 ^ 64"
      "valid_read A s 0 (int k)" "0 < unat s"
    using assms(1) unfolding strrchr_requires_def by (rule valid_read_stringE)
  have c: "sint ?c = sint c"
    using assms(2,3) by (simp add: sint_ucast_8)
  have k1: "unat (of_nat k + 1 :: u64) = Suc k"
    using k(3) unat_of_nat_64 [of "Suc k"] by (simp add: add.commute)
  have res: "strrchr s c ?m = Some (rsearch ?m s ?c (Suc k))"
    using strlen_eq [OF k(1)] k1 by (simp add: strrchr_def)
  show ?thesis
  proof (cases rule: rsearch_cases [of ?m s ?c "Suc k"])
    case (found j)
    then have "logic_strchr (cstr ?m s) (sint c)" using strchr_in_string [OF k(1), of c] by auto
    then show ?thesis
      using res found valid_read_string_suffix [OF k(1,4), of j] range_okD(2) [OF k(4), of j] c
      by (simp add: strrchr_ensures_def)
  next
    case absent
    then have "\<not> logic_strchr (cstr ?m s) (sint c)" using strchr_in_string [OF k(1), of c] by auto
    then show ?thesis using res absent by (simp add: strrchr_ensures_def)
  qed
qed

lemma memchr_in_array:
  fixes n :: u64
  assumes "unat n \<le> 2 ^ 31"
  shows "logic_memchr (cstr m s) c (uint n) \<longleftrightarrow> (\<exists>t<unat n. sint (m (s + of_nat t)) = c)"
proof -
  have "c_int (int t)" if "t < unat n" for t using that assms by (simp add: c_int_def)
  moreover have "(\<exists>i. P i \<and> 0 \<le> i \<and> i < int k) \<longleftrightarrow> (\<exists>t<k. P (int t))" for P k
    by (metis nonneg_int_cases of_nat_0_le_iff of_nat_less_iff)
  from this [of "\<lambda>i. c_int i \<and> sint (cstr m s i) = c"]
  have "logic_memchr (cstr m s) c (uint n) \<longleftrightarrow> (\<exists>t<unat n. c_int (int t) \<and> sint (m (s + of_nat t)) = c)"
    by (simp add: logic_memchr_def conj_ac)
  ultimately show ?thesis by blast
qed

lemma memchr_contract:
  assumes "valid_read_or_empty A s n" and "- 128 \<le> sint c" and "sint c \<le> 127" and "unat n \<le> 2 ^ 31"
  shows "memchr_ensures A s c n (memchr s c n (a_mem A))"
proof -
  let ?m = "a_mem A" and ?c = "ucast c :: u8"
  have r: "valid_read A s 1 (int (unat n) - 1)" using assms(1) by (simp add: valid_read_or_empty_def)
  have eq: "?m a = ?c \<longleftrightarrow> sint (?m a) = sint c" for a
    using sint_ucast_8 [OF assms(2,3)] by (metis signed_word_eqI)
  show ?thesis
  proof (cases "\<exists>t<unat n. ?m (s + of_nat t) = ?c")
    case True
    then obtain j where j: "j < unat n" "?m (s + of_nat j) = ?c" by blast
    obtain t where t: "t \<le> j" "?m (s + of_nat t) = ?c" "\<forall>i<t. \<not> ?m (s + of_nat i) = ?c"
      using first_index [of "\<lambda>t. ?m (s + of_nat t) = ?c" j] j(2) by blast
    have res: "memchr s c n ?m = s + of_nat t"
      using memchr_loop_found [of t ?m s 0 ?c "unat n"] t j(1) by (simp add: memchr_def)
    have base: "a_base A (s + of_nat t) = a_base A s"
      using range_okD(2) [OF r, of t] t(1) j(1) by (cases "t = 0") auto
    have first: "s + of_nat t \<le> s + of_nat i" if i: "i < unat n" "uint (?m (s + of_nat i)) = sint c" for i
    proof (cases "i = t")
      case False
      have "?m (s + of_nat i) = word_of_int (sint c)" using i(2) by (metis word_of_int_uint)
      then have "?m (s + of_nat i) = ?c" by (simp add: c_char)
      then have lt: "t < i" using False t(3) by (metis linorder_neqE_nat)
      have "unat s + i + 1 < 2 ^ 64" using range_okD(3) [OF r, of i] i(1) lt by simp
      then show ?thesis using lt by (simp add: word_le_nat_alt unat_offset)
    qed simp
    have "logic_memchr (cstr ?m s) (sint c) (uint n)" using memchr_in_array [OF assms(4)] eq j by blast
    moreover have "\<forall>i. 0 \<le> i \<and> i < uint n \<longrightarrow> uint (?m (s + word_of_int i)) = sint c \<longrightarrow>
        memchr s c n ?m \<le> s + word_of_int i"
      using first res unfolding uint_int by (metis nonneg_int_cases of_int_of_nat_eq of_nat_less_iff)
    ultimately show ?thesis using res base t(2) eq by (simp add: memchr_ensures_def)
  next
    case False
    then have "memchr s c n ?m = 0"
      using memchr_loop_absent [of "unat n" ?m s 0 ?c] by (simp add: memchr_def)
    then show ?thesis using False memchr_in_array [OF assms(4)] eq by (auto simp: memchr_ensures_def)
  qed
qed

text \<open>\<open>occurs m h q l\<close>: the \<open>l\<close> bytes at \<open>q\<close> stand at \<open>h\<close>.\<close>

definition occurs :: "mem \<Rightarrow> u64 \<Rightarrow> u64 \<Rightarrow> nat \<Rightarrow> bool" where
  "occurs m h q l \<longleftrightarrow> (\<forall>j<l. m (h + of_nat j) = m (q + of_nat j))"

lemma strstr_match_occurs:
  assumes "terminated m q l"
  shows "\<exists>t. strstr_match m h q 0 = Some (of_nat t) \<and> (m (q + of_nat t) = 0 \<longleftrightarrow> occurs m h q l)"
proof -
  let ?P = "\<lambda>t. m (h + of_nat t) = 0 \<or> m (h + of_nat t) \<noteq> m (q + of_nat t)"
  have "?P l" using assms by (auto simp: terminated_def)
  then obtain t where t: "t \<le> l" "?P t" "\<forall>j<t. \<not> ?P j" using first_index [of ?P l] by blast
  have "strstr_match m h q 0 = Some (of_nat t)"
    using strstr_match_steps [of t m h 0 q] t by (metis add_0)
  moreover have "m (q + of_nat t) = 0 \<longleftrightarrow> occurs m h q l"
  proof
    assume "m (q + of_nat t) = 0"
    then have "t = l" using t(1) assms by (metis le_neq_implies_less terminated_def)
    then show "occurs m h q l" using t(3) by (simp add: occurs_def)
  next
    assume "occurs m h q l"
    then have "\<not> t < l" using t(2) assms by (metis occurs_def terminated_def)
    then show "m (q + of_nat t) = 0" using t(1) assms by (simp add: terminated_def)
  qed
  ultimately show ?thesis by blast
qed

lemma strstr_loop_steps:
  assumes "terminated m q l" and "\<And>j. j < t \<Longrightarrow> m (h + (i + of_nat j)) \<noteq> 0 \<and> \<not> occurs m (h + (i + of_nat j)) q l"
    and "m (h + (i + of_nat t)) = 0 \<or> occurs m (h + (i + of_nat t)) q l"
  shows "strstr_loop m h q i = Some (if m (h + (i + of_nat t)) = 0 then 0 else h + (i + of_nat t))"
  using assms(2,3)
proof (induction t arbitrary: i)
  case 0
  obtain u where "strstr_match m (h + i) q 0 = Some (of_nat u)"
      "m (q + of_nat u) = 0 \<longleftrightarrow> occurs m (h + i) q l"
    using strstr_match_occurs [OF assms(1)] by blast
  then show ?case using 0 by (auto simp: strstr_loop.simps [of m h q i])
next
  case (Suc t)
  have "strstr_loop m h q (i + 1)
      = Some (if m (h + (i + 1 + of_nat t)) = 0 then 0 else h + (i + 1 + of_nat t))"
    using Suc.prems(1) [of "Suc _"] Suc.prems(2) by (intro Suc.IH) (force simp: algebra_simps)+
  moreover obtain u where "strstr_match m (h + i) q 0 = Some (of_nat u)"
      "m (q + of_nat u) = 0 \<longleftrightarrow> occurs m (h + i) q l"
    using strstr_match_occurs [OF assms(1)] by blast
  ultimately show ?case
    using Suc.prems(1) [of 0] by (simp add: strstr_loop.simps [of m h q i] algebra_simps)
qed

text \<open>Where \<^verbatim>\<open>strstr\<close> stops: at the first occurrence of the needle, or at the end.\<close>

lemma strstr_first:
  assumes "terminated m h k" and "terminated m q l"
  obtains (found) t where "t \<le> k" and "strstr h q m = Some (h + of_nat t)" and "occurs m (h + of_nat t) q l"
      and "\<And>j. j < t \<Longrightarrow> \<not> occurs m (h + of_nat j) q l"
    | (absent) "strstr h q m = Some 0" and "\<And>j. j \<le> k \<Longrightarrow> \<not> occurs m (h + of_nat j) q l"
proof (cases "l = 0")
  case True
  then show ?thesis using assms(2) by (intro found [of 0]) (auto simp: strstr_def occurs_def terminated_def)
next
  case False
  let ?P = "\<lambda>t. m (h + of_nat t) = 0 \<or> occurs m (h + of_nat t) q l"
  have "?P k" using assms(1) by (simp add: terminated_def)
  then obtain t where t: "t \<le> k" "?P t" "\<forall>j<t. \<not> ?P j" using first_index [of ?P k] by blast
  have q0: "m q \<noteq> 0" using assms(2) False by (auto simp: terminated_def dest: spec [of _ 0])
  have res: "strstr h q m = Some (if m (h + of_nat t) = 0 then 0 else h + of_nat t)"
    using strstr_loop_steps [OF assms(2), of t h 0] t q0 by (simp add: strstr_def)
  show ?thesis
  proof (cases "m (h + of_nat t) = 0")
    case True
    then have "t = k" using t(1) assms(1) by (metis le_neq_implies_less terminated_def)
    moreover have "\<not> occurs m (h + of_nat t) q l" using True q0 False by (force simp: occurs_def)
    ultimately show ?thesis using True res t(3) by (intro absent) (auto simp: le_less)
  next
    case nz: False
    then show ?thesis using t res by (intro found [of t]) auto
  qed
qed

lemma strstr_contract:
  assumes "strstr_requires A h q"
  shows "\<exists>r. strstr h q (a_mem A) = Some r \<and> strstr_ensures A h q r"
proof -
  let ?m = "a_mem A"
  have h: "valid_read_string A h" and q: "valid_read_string A q" using assms by (auto simp: strstr_requires_def)
  obtain k where k: "terminated ?m h k" "acsl_strlen A h = int k" "unat h + k + 1 < 2 ^ 64"
      "valid_read A h 0 (int k)" "0 < unat h" using h by (rule valid_read_stringE)
  obtain l where l: "terminated ?m q l" "acsl_strlen A q = int l" using q by (rule valid_read_stringE)
  show ?thesis
    using k(1) l(1)
  proof (cases rule: strstr_first)
    case (found t)
    have "unat (h + of_nat t) = unat h + t" using k(3) found(1) by (intro unat_offset) simp
    moreover have "valid_read A (h + of_nat t) 0 0"
      using valid_read_string_suffix [OF k(1,4) found(1)] by (auto simp: valid_read_string_def range_ok_def)
    moreover have "logic_memcmp (cstr ?m (h + of_nat t)) (cstr ?m q) (int l) = 0"
      using found(3) by (simp add: logic_memcmp_zero all_below occurs_def)
    ultimately show ?thesis using found(2) l(2) by (simp add: strstr_ensures_def)
  next
    case absent
    then show ?thesis by (simp add: strstr_ensures_def)
  qed
qed

section \<open>Copying strings\<close>

lemma separated_nat:
  assumes "separated p (int n) q (int k)" and "x \<le> n" and "y \<le> k"
  shows "p + of_nat x \<noteq> q + of_nat y"
proof -
  have "p + word_of_int (int x) \<noteq> q + word_of_int (int y)"
    using assms unfolding separated_def by (metis of_nat_0_le_iff of_nat_le_iff)
  then show ?thesis by simp
qed

text \<open>A string copied to \<open>d\<close>: its bytes, a null byte, and nothing else.\<close>

definition str_copied :: "mem \<Rightarrow> u64 \<Rightarrow> u64 \<Rightarrow> nat \<Rightarrow> mem \<Rightarrow> bool" where
  "str_copied m d s k m' \<longleftrightarrow>
     (\<forall>j<k. m' (d + of_nat j) = m (s + of_nat j)) \<and> m' (d + of_nat k) = 0 \<and>
     (\<forall>a. m' a \<noteq> m a \<longrightarrow> (\<exists>j\<le>k. a = d + of_nat j))"

lemma str_copiedI:
  assumes "k < 2 ^ 64" and "\<And>x y. y < x \<Longrightarrow> x < k \<Longrightarrow> s + of_nat x \<noteq> d + of_nat y"
  shows "str_copied m d s k ((memcpy_up d s k 0 m)(d + of_nat k := 0))"
proof -
  have at: "memcpy_up d s k 0 m a = (if unat (a - d) < k then m (s + (a - d)) else m a)" for a
    using memcpy_up_at [of k s 0 d m a] assms by simp
  have "of_nat j \<noteq> (of_nat k :: u64)" if "j < k" for j using that assms(1) by simp
  moreover have "unat (of_nat j :: u64) = j" if "j < k" for j using that assms(1) by (intro unat_of_nat_64) simp
  moreover have "\<exists>j\<le>k. a = d + of_nat j" if "unat (a - d) < k" for a
    using that by (intro exI [of _ "unat (a - d)"]) simp
  ultimately show ?thesis by (auto simp: str_copied_def at split: if_splits)
qed

lemma str_copied_assigns: "str_copied m d s k m' \<Longrightarrow> assigns m m' d 0 (int k)"
  unfolding str_copied_def assigns_def by (metis of_int_of_nat_eq of_nat_0_le_iff of_nat_le_iff)

lemma strcpy_copies:
  assumes "terminated m src k" and "\<And>x y. x \<le> k \<Longrightarrow> y \<le> k \<Longrightarrow> d + of_nat y \<noteq> src + of_nat x"
  shows "\<exists>m'. strcpy_loop d src 0 m = Some m' \<and> str_copied m d src k m'"
proof -
  have "src + of_nat x \<noteq> d + of_nat y" if "y < x" "x \<le> k" for x y
    using assms(2) [of x y] that by (metis le_trans less_imp_le)
  then have "strcpy_loop d src 0 m = Some ((memcpy_up d src k 0 m)(d + of_nat k := 0))"
    and "str_copied m d src k ((memcpy_up d src k 0 m)(d + of_nat k := 0))"
    using strcpy_loop_steps [of k m src 0 d] str_copiedI [OF terminated_less [OF assms(1)], of src d m] assms(1)
    by (auto simp: terminated_def)
  then show ?thesis by blast
qed

lemma strcpy_contract:
  assumes "strcpy_requires A dest src"
  shows "\<exists>r. strcpy dest src (a_mem A) = Some r \<and> strcpy_ensures A dest src r"
proof -
  let ?m = "a_mem A"
  have src: "valid_read_string A src" using assms by (simp add: strcpy_requires_def)
  obtain k where k: "terminated ?m src k" "acsl_strlen A src = int k" using src by (rule valid_read_stringE)
  have sep: "dest + of_nat y \<noteq> src + of_nat x" if "x \<le> k" "y \<le> k" for x y
    using assms separated_nat [of dest k src k y x] that k(2) by (simp add: strcpy_requires_def)
  obtain m' where m': "strcpy_loop dest src 0 ?m = Some m'" "str_copied ?m dest src k m'"
    using strcpy_copies [OF k(1), of dest] sep by blast
  have unch: "m' (src + of_nat j) = ?m (src + of_nat j)" if "j \<le> k" for j
    using m'(2) sep that unfolding str_copied_def by metis
  have "terminated m' src k" "terminated m' dest k"
    using k(1) unch m'(2) by (auto simp: terminated_def str_copied_def)
  moreover have "m' (dest + of_nat j) = m' (src + of_nat j)" if "j \<le> k" for j
    using m'(2) unch [OF that] k(1) that by (cases "j = k") (auto simp: str_copied_def terminated_def)
  ultimately have "logic_strcmp (cstr m' dest) (cstr m' src) = 0"
    by (simp add: logic_strcmp_zero strlen_of_terminated) (metis cstr_nat nonneg_int_cases of_nat_le_iff)
  then show ?thesis
    using m' str_copied_assigns k(2) by (auto simp: strcpy_def strcpy_ensures_def)
qed

text \<open>The bytes after \<^verbatim>\<open>strncpy\<close>: the string up to \<open>N\<close> bytes, null bytes up to \<open>N\<close>.\<close>

lemma strncpy_bytes:
  assumes "terminated m src k" and "N < 2 ^ 64"
    and sep: "\<And>x y. x < N \<Longrightarrow> y < N \<Longrightarrow> d + of_nat y \<noteq> src + of_nat x"
  defines "m' \<equiv> strncpy_loop d src N 0 m"
  shows "j < k \<Longrightarrow> j < N \<Longrightarrow> m' (d + of_nat j) = m (src + of_nat j)"
    and "k \<le> j \<Longrightarrow> j < N \<Longrightarrow> m' (d + of_nat j) = 0"
    and "m' a \<noteq> m a \<Longrightarrow> \<exists>j<N. a = d + of_nat j"
proof -
  have k64: "k < 2 ^ 64" using assms(1) by (rule terminated_less)
  define t where "t = min k N"
  have t: "t \<le> k" "t \<le> N" "t < N \<Longrightarrow> t = k" "t \<le> 2 ^ 64" using k64 by (auto simp: t_def)
  have nz: "m (src + (0 + of_nat j)) \<noteq> 0" if "j < t" for j using that t(1) assms(1) by (simp add: terminated_def)
  have z: "m (src + (0 + of_nat t)) = 0" if "t < N" using t(3) [OF that] assms(1) by (simp add: terminated_def)
  have nc: "src + (0 + of_nat x) \<noteq> d + (0 + of_nat y)" if "y \<le> x" "x \<le> t" "x < N" for x y
    using sep [of x y] that by force
  have loop: "m' = memset_loop d 0 (N - t) (0 + of_nat t) (memcpy_up d src t 0 m)"
    unfolding m'_def by (rule strncpy_loop_steps) (fact nz t(2) z nc)+
  have cp: "memcpy_up d src t 0 m a = (if unat (a - d) < t then m (src + (a - d)) else m a)" for a
  proof -
    have "src + 0 + of_nat x \<noteq> d + 0 + of_nat y" if "y < x" "x < t" for x y
      using nc [of y x] that t(2) by (simp add: add.assoc)
    then show ?thesis using memcpy_up_at [of t src 0 d m a] t(4) by simp
  qed
  have at: "m' a = (if unat (a - (d + of_nat t)) < N - t then 0
      else if unat (a - d) < t then m (src + (a - d)) else m a)" for a
    unfolding loop using assms(2) by (subst memset_loop_at) (auto simp: cp)
  show "m' (d + of_nat j) = m (src + of_nat j)" if "j < k" "j < N"
  proof -
    have j: "j < t" using that by (simp add: t_def)
    have u: "unat (of_nat j :: u64) = j" "unat (of_nat t :: u64) = t"
      using j t(2) assms(2) by (auto intro: unat_of_nat_64)
    have "unat (of_nat j - of_nat t :: u64) = 2 ^ 64 + j - t" using j u by (simp add: unat_sub_if')
    then have "\<not> unat (of_nat j - of_nat t :: u64) < N - t" using assms(2) by simp
    then show ?thesis using at [of "d + of_nat j"] j u by simp
  qed
  show "m' (d + of_nat j) = 0" if "k \<le> j" "j < N"
  proof -
    have "of_nat j - of_nat t = (of_nat (j - t) :: u64)" using that by (simp add: of_nat_diff t_def)
    moreover have "unat (of_nat (j - t) :: u64) = j - t" using that assms(2) by (intro unat_of_nat_64) simp
    moreover have "j - t < N - t" using that by (simp add: t_def)
    ultimately show ?thesis using at [of "d + of_nat j"] by simp
  qed
  show "\<exists>j<N. a = d + of_nat j" if "m' a \<noteq> m a"
  proof (cases "unat (a - d) < t")
    case True
    then show ?thesis using t by (intro exI [of _ "unat (a - d)"]) simp
  next
    case False
    then have "unat (a - (d + of_nat t)) < N - t" using at [of a] that by (auto split: if_splits)
    then show ?thesis by (intro exI [of _ "t + unat (a - (d + of_nat t))"]) simp
  qed
qed

text \<open>Equal bytes up to the null byte make equal strings.\<close>

lemma strcmp_zeroI:
  assumes "terminated m p k" and "\<And>j. j \<le> k \<Longrightarrow> m (q + of_nat j) = m (p + of_nat j)"
  shows "logic_strcmp (cstr m q) (cstr m p) = 0"
proof -
  have "terminated m q k" using assms by (simp add: terminated_def)
  then show ?thesis using assms
    by (simp add: logic_strcmp_zero strlen_of_terminated) (metis cstr_nat nonneg_int_cases of_nat_le_iff)
qed

lemma strncpy_contract:
  assumes "strncpy_requires A dest src n"
  shows "strncpy_ensures A dest src n (strncpy dest src n (a_mem A))"
proof -
  let ?m = "a_mem A"
  have src: "valid_read_string A src" using assms by (simp add: strncpy_requires_def)
  obtain k where k: "terminated ?m src k" "acsl_strlen A src = int k" using src by (rule valid_read_stringE)
  have sep: "dest + of_nat y \<noteq> src + of_nat x" if "x < unat n" "y < unat n" for x y
    using assms separated_nat [of dest "unat n - 1" src "unat n - 1" y x] that
    by (simp add: strncpy_requires_def of_nat_diff)
  define m' where "m' = strncpy_loop dest src (unat n) 0 ?m"
  have pre: "m' (dest + of_nat j) = ?m (src + of_nat j)" if "j < k" "j < unat n" for j
    unfolding m'_def using strncpy_bytes(1) [OF k(1) unat_lt_64] sep that by blast
  have zero: "m' (dest + of_nat j) = 0" if "k \<le> j" "j < unat n" for j
    unfolding m'_def using strncpy_bytes(2) [OF k(1) unat_lt_64] sep that by blast
  have out: "\<exists>j<unat n. a = dest + of_nat j" if "m' a \<noteq> ?m a" for a
    using strncpy_bytes(3) [OF k(1) unat_lt_64] sep that unfolding m'_def by blast
  have src_unch: "m' (src + of_nat j) = ?m (src + of_nat j)" if "j < unat n" for j
    using out sep that by metis
  have "assigns ?m m' dest 0 (uint n - 1)"
    unfolding assigns_def using out by (metis of_int_of_nat_eq of_nat_0_le_iff of_nat_less_iff uint_int zle_diff1_eq)
  moreover have "logic_strcmp (cstr m' dest) (cstr m' src) = 0" if lt: "k < unat n"
  proof (rule strcmp_zeroI)
    show "terminated m' src k" using k(1) lt src_unch by (auto simp: terminated_def)
    show "m' (dest + of_nat j) = m' (src + of_nat j)" if "j \<le> k" for j
      using that src_unch [of j] pre [of j] zero [of k] lt k(1) by (cases "j = k") (auto simp: terminated_def)
  qed
  moreover have "logic_memcmp (cstr m' dest) (cstr m' src) (uint n) = 0" if "unat n \<le> k"
    using that pre src_unch by (simp add: logic_memcmp_zero all_below)
  ultimately show ?thesis using k(2) by (simp add: strncpy_ensures_def strncpy_def m'_def)
qed

lemma strcat_contract:
  assumes "strcat_requires A dest src"
    and "separated dest (acsl_strlen A dest + acsl_strlen A src) src (acsl_strlen A src)"
  shows "\<exists>r. strcat dest src (a_mem A) = Some r \<and> strcat_ensures A dest src r"
proof -
  let ?m = "a_mem A"
  have src: "valid_read_string A src" using assms(1) by (simp add: strcat_requires_def)
  obtain k where k: "terminated ?m src k" "acsl_strlen A src = int k" using src by (rule valid_read_stringE)
  obtain l where l: "acsl_strlen A dest = int l"
    using assms(1) nonneg_int_cases unfolding strcat_requires_def valid_string_def by blast
  then have tl: "terminated ?m dest l" by (simp add: strlen_terminated)
  have sep: "dest + of_nat y \<noteq> src + of_nat x" if "x \<le> k" "y \<le> l + k" for x y
    using assms(2) separated_nat [of dest "l + k" src k y x] that k(2) l by simp
  obtain m' where m': "strcpy_loop (dest + of_nat l) src 0 ?m = Some m'"
      "str_copied ?m (dest + of_nat l) src k m'"
    using strcpy_copies [OF k(1), of "dest + of_nat l"] sep [of _ "l + _"] by (auto simp: add.assoc)
  have "unat dest + (l + k) + 1 < 2 ^ 64"
    using assms(1) range_okD(3) [of A "a_valid A" dest 0 "int (l + k)" "l + k"] l k(2)
    by (simp add: strcat_requires_def)
  then have fresh: "dest + of_nat j \<noteq> dest + of_nat l + of_nat i" if "j < l" "i \<le> k" for i j
    using that offset_neq [of dest j dest "l + i"] by (simp add: add.assoc)
  have keep: "m' (dest + of_nat j) = ?m (dest + of_nat j)" if "j < l" for j
    using m'(2) fresh that unfolding str_copied_def by metis
  have "m' (dest + of_nat (l + k)) = 0" using m'(2) by (simp add: str_copied_def add.assoc)
  moreover have "m' (dest + of_nat j) \<noteq> 0" if "j < l + k" for j
  proof (cases "j < l")
    case True
    then show ?thesis using keep tl by (simp add: terminated_def)
  next
    case False
    define i where "i = j - l"
    have i: "j = l + i" "i < k" using that False by (auto simp: i_def)
    then have "m' (dest + of_nat j) = ?m (src + of_nat i)"
      using m'(2) by (simp add: str_copied_def add.assoc)
    then show ?thesis using k(1) i(2) by (simp add: terminated_def)
  qed
  ultimately have "terminated m' dest (l + k)" by (simp add: terminated_def)
  moreover have "assigns ?m m' dest (int l) (int l + int k)"
    unfolding assigns_def
  proof (intro allI impI)
    fix a assume "m' a \<noteq> ?m a"
    then obtain j where "j \<le> k" "a = dest + of_nat l + of_nat j" using m'(2) unfolding str_copied_def by blast
    then show "\<exists>i\<ge>int l. i \<le> int l + int k \<and> a = dest + word_of_int i"
      by (intro exI [of _ "int (l + j)"]) (simp add: add.assoc)
  qed
  ultimately show ?thesis
    using m'(1) strlen_eq [OF tl] k(2) l strlen_of_terminated [of m' dest "l + k"]
    by (simp add: strcat_def strcat_ensures_def terminated_def) (simp add: cstr_def)
qed

end
