(* ===== verification/Libc_String_Props.thy ===== *)
theory Libc_String_Props
  imports Libc_String_Correct
begin

text \<open>
  The properties of \<^verbatim>\<open>string.c\<close>: which functions meet their contracts on all the arguments the
  contracts allow, and the calls that the contracts allow and on which the functions break them.
\<close>

section \<open>A state for the examples\<close>

text \<open>A memory in which every byte is readable, writable and initialized, in one block.\<close>

definition flat :: "mem \<Rightarrow> acsl_state" where
  "flat m = \<lparr>a_mem = m, a_valid = (\<lambda>_. True), a_valid_read = (\<lambda>_. True), a_initialized = (\<lambda>_. True),
     a_dangling = (\<lambda>_. False), a_base = (\<lambda>_. 1), a_block_length = (\<lambda>_. 2 ^ 64 - 2)\<rparr>"

lemma flat_sel [simp]: "a_mem (flat m) = m" "a_initialized (flat m) = (\<lambda>_. True)"
    "a_dangling (flat m) = (\<lambda>_. False)"
  by (simp_all add: flat_def)

lemma flat_range: "0 < uint p + lo \<Longrightarrow> uint p + hi + 1 < 2 ^ 64 \<Longrightarrow> valid (flat m) p lo hi \<and> valid_read (flat m) p lo hi"
  by (auto simp: range_ok_def flat_def)

lemma flat_string: "terminated m p k \<Longrightarrow> 0 < unat p \<Longrightarrow> unat p + k + 1 < 2 ^ 64 \<Longrightarrow>
    valid_read_string (flat m) p \<and> valid_string (flat m) p"
  using flat_range [of p 0 "int k" m]
  by (simp add: valid_read_string_def valid_string_def strlen_of_terminated)

lemma flat_block: "0 < unat p \<Longrightarrow> 0 < unat n \<Longrightarrow> unat p + unat n < 2 ^ 64 \<Longrightarrow>
    valid_or_empty (flat m) p n \<and> valid_read_or_empty (flat m) p n"
  using flat_range [of p 0 "uint n - 1" m] flat_range [of p 1 "uint n - 1" m] flat_range [of p 0 0 m]
  by (simp add: valid_or_empty_def valid_read_or_empty_def)

section \<open>Functions that meet their contracts\<close>

text \<open>
  C11: \<^verbatim>\<open>memcpy\<close> and \<^verbatim>\<open>memmove\<close> meet their contracts: they copy the \<open>n\<close> bytes of the source as
  they were before the call, change nothing else and return the destination; \<^verbatim>\<open>memmove\<close> also when
  the areas overlap in either direction.
\<close>

theorem memmove_meets_contract:
  "(memcpy_requires A dest src n \<longrightarrow> memcpy_ensures A dest src n (memcpy dest src n (a_mem A))) \<and>
   (memmove_requires A dest src n \<longrightarrow> memmove_ensures A dest src n (memmove dest src n (a_mem A)))"
  using memcpy_contract memmove_contract by blast

theorem memmove_meets_contract_witness:
  "memcpy_ensures (flat (\<lambda>_. 7)) 8 32 16 (memcpy 8 32 16 (\<lambda>_. 7)) \<and>
   memmove_ensures (flat (\<lambda>_. 7)) 8 10 16 (memmove 8 10 16 (\<lambda>_. 7))"
proof -
  have "memmove_requires (flat (\<lambda>_. 7)) 8 10 16" "valid_or_empty (flat (\<lambda>_. 7)) 8 16"
      "valid_read_or_empty (flat (\<lambda>_. 7)) 32 16"
    by (simp_all add: memmove_requires_def flat_block)
  moreover have "separated 8 15 32 15"
    unfolding separated_def
  proof (intro allI impI)
    fix i j :: int
    assume h: "0 \<le> i \<and> i \<le> 15 \<and> 0 \<le> j \<and> j \<le> 15"
    then have "(8 :: u64) + of_nat (nat i) \<noteq> 32 + of_nat (nat j)" by (intro offset_neq) auto
    then show "(8 :: u64) + word_of_int i \<noteq> 32 + word_of_int j" using h by (simp add: of_nat_nat)
  qed
  ultimately show ?thesis
    using memmove_meets_contract [of "flat (\<lambda>_. 7)" 8 32 16] memmove_meets_contract [of "flat (\<lambda>_. 7)" 8 10 16]
    by (simp add: memcpy_requires_def)
qed

lemma strnlen_eq:
  "uint (strnlen s n m) =
     (if 0 \<le> logic_strlen (cstr m s) \<and> logic_strlen (cstr m s) < uint n then logic_strlen (cstr m s) else uint n)"
proof (cases m s rule: string_cases)
  case (string k)
  let ?t = "min k (unat n)"
  have "strnlen s n m = 0 + of_nat ?t"
    unfolding strnlen_def by (rule strnlen_loop_steps) (use string(2) in \<open>auto simp: terminated_def min_def split: if_splits\<close>)
  moreover have "unat (of_nat ?t :: u64) = ?t" using string(3) by (intro unat_of_nat_64) auto
  ultimately show ?thesis using string(1) by (simp add: min_def)
next
  case endless
  have "strnlen s n m = 0 + of_nat (unat n)"
    unfolding strnlen_def by (rule strnlen_loop_steps) (use endless(2) in auto)
  then show ?thesis using endless(1) by simp
qed

text \<open>
  C14: \<^verbatim>\<open>strlen\<close> returns the length of the string of the axiomatic, for every memory and pointer; it
  does not return exactly when there is no null byte. \<^verbatim>\<open>strnlen\<close> always returns, the length or its
  bound, and meets its contract.
\<close>

theorem strlen_correct:
  "(strlen s m = Some r \<longleftrightarrow> logic_strlen (cstr m s) = uint r) \<and>
   (strlen s m = None \<longleftrightarrow> logic_strlen (cstr m s) < 0) \<and>
   strnlen_ensures (flat m) s n (strnlen s n m)"
proof (cases m s rule: string_cases)
  case (string k)
  then have "strlen s m = Some (of_nat k)" and "unat (of_nat k :: u64) = k"
    by (simp_all add: strlen_eq unat_of_nat_64)
  then have "strlen s m = Some r \<longleftrightarrow> k = unat r" "strlen s m \<noteq> None" by auto
  then show ?thesis using string(1) strnlen_eq [of s n m] by (auto simp: strnlen_ensures_def word_unat_eq_iff split: if_splits)
next
  case endless
  then have "strlen s m = None" by (simp add: strlen_def strlen_loop_endless)
  then show ?thesis using endless(1) strnlen_eq [of s n m] by (auto simp: strnlen_ensures_def word_unat_eq_iff)
qed

lemma strncmp_value:
  "(\<exists>t<unat n. stops m p q t \<and> (\<forall>j<t. \<not> stops m p q j) \<and>
      strncmp p q n m = chr_diff (m (p + of_nat t)) (m (q + of_nat t))) \<or>
   (\<forall>t<unat n. \<not> stops m p q t) \<and> strncmp p q n m = 0"
proof (cases "\<exists>t<unat n. stops m p q t")
  case True
  then obtain j where j: "j < unat n" "stops m p q j" by blast
  obtain t where t: "t \<le> j" "stops m p q t" "\<forall>j<t. \<not> stops m p q j"
    using first_index [of "stops m p q" j] j(2) by blast
  have "strncmp p q n m = chr_diff (m (p + of_nat t)) (m (q + of_nat t))"
    using strncmp_loop_diff [of t m p 0 q "unat n"] t j by (simp add: strncmp_def stops_def)
  then show ?thesis using t j(1) by (intro disjI1 exI [of _ t]) simp
next
  case False
  then show ?thesis using strncmp_loop_eq [of "unat n" m p 0 q] by (auto simp: strncmp_def stops_def)
qed

lemma strncmp_unterminated:
  "strncmp_requires (flat ((\<lambda>_. 1)(8 := 2))) 8 16 1 \<and>
   \<not> strncmp_ensures (flat ((\<lambda>_. 1)(8 := 2))) 8 16 1 (strncmp 8 16 1 ((\<lambda>_. 1)(8 := 2)))"
proof -
  let ?m = "(\<lambda>_. 1)(8 := 2) :: mem"
  have "logic_strlen (cstr ?m s) = - 1" for s by (auto simp: logic_strlen_def)
  then have "logic_strncmp (cstr ?m 8) (cstr ?m 16) 1 = 0" by (auto simp: logic_strncmp_zero logic_strcmp_zero)
  moreover have "strncmp 8 16 1 ?m = 1" by (simp add: strncmp_def chr_diff_def)
  moreover have "strncmp_requires (flat ?m) 8 16 1"
    using flat_range [of 8 0 0 ?m] flat_range [of 16 0 0 ?m]
    by (simp add: strncmp_requires_def valid_read_nstring_def initialized_def)
  ultimately show ?thesis by (simp add: strncmp_ensures_def)
qed

text \<open>
  C13: \<^verbatim>\<open>memcmp\<close> on any two areas, and \<^verbatim>\<open>strcmp\<close> and \<^verbatim>\<open>strncmp\<close> on two null-terminated strings,
  return what the axiomatics prescribe: the difference of the first two bytes that differ, as
  unsigned characters, and 0 exactly on equal areas or strings. On any arguments \<^verbatim>\<open>strncmp\<close> returns
  the difference at the first of the \<open>n\<close> positions at which the bytes differ or are both null, and
  0 if there is none. The contract of \<^verbatim>\<open>strncmp\<close> also allows areas without a null byte among the
  first \<open>n\<close>; there it is not always met (\<^verbatim>\<open>strncmp_zero\<close> makes the logic function 0 on two areas
  of negative length, whatever they hold), as the last clause states.
\<close>

theorem comparisons_meet_contracts:
  "memcmp_ensures A s1 s2 n (memcmp s1 s2 n (a_mem A)) \<and>
   (strcmp_requires A s1 s2 \<longrightarrow>
      (\<exists>r. strcmp s1 s2 (a_mem A) = Some r \<and> strcmp_ensures A s1 s2 r) \<and>
      strncmp_ensures A s1 s2 n (strncmp s1 s2 n (a_mem A))) \<and>
   ((\<exists>t<unat n. stops (a_mem A) s1 s2 t \<and> (\<forall>j<t. \<not> stops (a_mem A) s1 s2 j) \<and>
      strncmp s1 s2 n (a_mem A) = chr_diff (a_mem A (s1 + of_nat t)) (a_mem A (s2 + of_nat t))) \<or>
    (\<forall>t<unat n. \<not> stops (a_mem A) s1 s2 t) \<and> strncmp s1 s2 n (a_mem A) = 0) \<and>
   (\<exists>B p q k. strncmp_requires B p q k \<and> \<not> strncmp_ensures B p q k (strncmp p q k (a_mem B)))"
proof (intro conjI impI)
  show "memcmp_ensures A s1 s2 n (memcmp s1 s2 n (a_mem A))" by (simp add: memcmp_ensures_def memcmp_logic)
next
  assume "strcmp_requires A s1 s2"
  then obtain k l where "terminated (a_mem A) s1 k" "terminated (a_mem A) s2 l"
    by (auto simp: strcmp_requires_def elim!: valid_read_stringE)
  then show "\<exists>r. strcmp s1 s2 (a_mem A) = Some r \<and> strcmp_ensures A s1 s2 r"
    and "strncmp_ensures A s1 s2 n (strncmp s1 s2 n (a_mem A))"
    by (simp_all add: strcmp_ensures_def strncmp_ensures_def strcmp_logic strncmp_logic)
next
  show "\<exists>B p q k. strncmp_requires B p q k \<and> \<not> strncmp_ensures B p q k (strncmp p q k (a_mem B))"
    using strncmp_unterminated flat_sel(1) by metis
qed (rule strncmp_value)

theorem comparisons_meet_contracts_witness:
  "\<exists>r. strcmp 8 16 ((\<lambda>_. 0)(8 := 97, 16 := 98)) = Some r \<and>
       strcmp_ensures (flat ((\<lambda>_. 0)(8 := 97, 16 := 98))) 8 16 r"
proof -
  have "terminated ((\<lambda>_. 0)(8 := 97, 16 := 98)) 8 1" "terminated ((\<lambda>_. 0)(8 := 97, 16 := 98)) 16 1"
    by (simp_all add: terminated_def)
  then have "strcmp_requires (flat ((\<lambda>_. 0)(8 := 97, 16 := 98))) 8 16"
    using flat_string [of _ 8 1] flat_string [of _ 16 1] by (simp add: strcmp_requires_def)
  then show ?thesis using comparisons_meet_contracts [of "flat ((\<lambda>_. 0)(8 := 97, 16 := 98))" 8 16] by simp
qed

text \<open>
  \<^verbatim>\<open>strchr\<close> meets its contract for every character: it returns the first occurrence of
  \<^verbatim>\<open>(char)c\<close>, the terminator included, and \<^verbatim>\<open>NULL\<close> when there is none. \<^verbatim>\<open>strrchr\<close> and
  \<^verbatim>\<open>memchr\<close> meet theirs when \<open>c\<close> is the value of a \<^verbatim>\<open>char\<close> (and, for \<^verbatim>\<open>memchr\<close>, the area has
  at most \<open>2^31\<close> bytes).
\<close>

theorem searches_meet_contracts:
  "(strchr_requires A s \<longrightarrow> (\<exists>r. strchr s c (a_mem A) = Some r \<and> strchr_ensures A s c r)) \<and>
   (strrchr_requires A s \<and> - 128 \<le> sint c \<and> sint c \<le> 127 \<longrightarrow>
      (\<exists>r. strrchr s c (a_mem A) = Some r \<and> strrchr_ensures A s c r)) \<and>
   (valid_read_or_empty A s n \<and> - 128 \<le> sint c \<and> sint c \<le> 127 \<and> unat n \<le> 2 ^ 31 \<longrightarrow>
      memchr_ensures A s c n (memchr s c n (a_mem A)))"
  using strchr_contract strrchr_contract memchr_contract by blast

theorem searches_meet_contracts_witness:
  "(\<exists>r. strchr 8 97 ((\<lambda>_. 0)(8 := 97)) = Some r \<and> strchr_ensures (flat ((\<lambda>_. 0)(8 := 97))) 8 97 r) \<and>
   (\<exists>r. strrchr 8 97 ((\<lambda>_. 0)(8 := 97)) = Some r \<and> strrchr_ensures (flat ((\<lambda>_. 0)(8 := 97))) 8 97 r) \<and>
   memchr_ensures (flat ((\<lambda>_. 0)(8 := 97))) 8 97 4 (memchr 8 97 4 ((\<lambda>_. 0)(8 := 97)))"
proof -
  have "terminated ((\<lambda>_. 0)(8 := 97)) 8 1" by (simp add: terminated_def)
  then have "strchr_requires (flat ((\<lambda>_. 0)(8 := 97))) 8" "strrchr_requires (flat ((\<lambda>_. 0)(8 := 97))) 8"
    using flat_string [of _ 8 1] by (simp_all add: strchr_requires_def strrchr_requires_def)
  then show ?thesis
    using searches_meet_contracts [of "flat ((\<lambda>_. 0)(8 := 97))" 8 97 4] by (simp add: flat_block)
qed

text \<open>
  C12: \<^verbatim>\<open>strstr\<close> returns on any two strings, meets its contract, and returns the first position at
  which the needle occurs in the haystack, \<^verbatim>\<open>NULL\<close> exactly when it occurs nowhere.
\<close>

theorem strstr_correct:
  assumes "strstr_requires A h q" and "terminated (a_mem A) h k" and "terminated (a_mem A) q l"
  shows "\<exists>r. strstr h q (a_mem A) = Some r \<and> strstr_ensures A h q r \<and>
     (r = 0 \<and> (\<forall>j\<le>k. \<not> occurs (a_mem A) (h + of_nat j) q l) \<or>
      (\<exists>t\<le>k. r = h + of_nat t \<and> occurs (a_mem A) (h + of_nat t) q l \<and>
        (\<forall>j<t. \<not> occurs (a_mem A) (h + of_nat j) q l)))"
proof -
  obtain r where r: "strstr h q (a_mem A) = Some r" "strstr_ensures A h q r"
    using strstr_contract [OF assms(1)] by blast
  show ?thesis
    using assms(2,3)
  proof (cases rule: strstr_first)
    case (found t)
    then show ?thesis using r by (intro exI [of _ r]) (simp, blast)
  next
    case absent
    then show ?thesis using r by simp
  qed
qed

lemma terminated_rec [simp]: "terminated m p 0 \<longleftrightarrow> m p = 0"
    "terminated m p (Suc k) \<longleftrightarrow> m p \<noteq> 0 \<and> terminated m (p + 1) k"
  by (auto simp: terminated_def All_less_Suc2 algebra_simps)

theorem strstr_correct_witness:
  "strstr_ensures (flat ((\<lambda>_. 0)(8 := 97, 9 := 98, 16 := 98))) 8 16
     (the (strstr 8 16 ((\<lambda>_. 0)(8 := 97, 9 := 98, 16 := 98))))"
proof -
  let ?m = "(\<lambda>_. 0)(8 := 97, 9 := 98, 16 := 98) :: mem"
  have t: "terminated ?m 8 (Suc (Suc 0))" "terminated ?m 16 (Suc 0)" by simp_all
  have "strstr_requires (flat ?m) 8 16"
    using flat_string [OF t(1)] flat_string [OF t(2)] by (simp add: strstr_requires_def)
  then show ?thesis using strstr_correct [of "flat ?m" 8 16 "Suc (Suc 0)" "Suc 0"] t by auto
qed

text \<open>
  \<^verbatim>\<open>strcpy\<close>, \<^verbatim>\<open>strncpy\<close> and \<^verbatim>\<open>strcat\<close> meet their contracts, \<^verbatim>\<open>strcat\<close> under the separation of
  its arguments that the header names as missing: they return, the result is the string (the
  prefix, the concatenation) and nothing past it is written.
\<close>

theorem string_copies_meet_contracts:
  "(strcpy_requires A d s \<longrightarrow> (\<exists>r. strcpy d s (a_mem A) = Some r \<and> strcpy_ensures A d s r)) \<and>
   (strncpy_requires A d s n \<longrightarrow> strncpy_ensures A d s n (strncpy d s n (a_mem A))) \<and>
   (strcat_requires A d s \<and> separated d (acsl_strlen A d + acsl_strlen A s) s (acsl_strlen A s) \<longrightarrow>
      (\<exists>r. strcat d s (a_mem A) = Some r \<and> strcat_ensures A d s r))"
  using strcpy_contract strncpy_contract strcat_contract by blast

lemma separatedI:
  assumes "\<And>x y. x \<le> n \<Longrightarrow> y \<le> k \<Longrightarrow> p + of_nat x \<noteq> q + of_nat y"
  shows "separated p (int n) q (int k)"
  unfolding separated_def using assms by (metis nonneg_int_cases of_int_of_nat_eq of_nat_le_iff)

theorem string_copies_meet_contracts_witness:
  "(\<exists>r. strcpy 16 8 ((\<lambda>_. 0)(8 := 97)) = Some r \<and> strcpy_ensures (flat ((\<lambda>_. 0)(8 := 97))) 16 8 r) \<and>
   strncpy_ensures (flat ((\<lambda>_. 0)(8 := 97))) 16 8 4 (strncpy 16 8 4 ((\<lambda>_. 0)(8 := 97))) \<and>
   (\<exists>r. strcat 16 8 ((\<lambda>_. 0)(8 := 97)) = Some r \<and> strcat_ensures (flat ((\<lambda>_. 0)(8 := 97))) 16 8 r)"
proof -
  let ?m = "(\<lambda>_. 0)(8 := 97) :: mem"
  have t: "terminated ?m 8 1" "terminated ?m 16 0" by (simp_all add: terminated_def)
  have len: "acsl_strlen (flat ?m) 8 = 1" "acsl_strlen (flat ?m) 16 = 0"
    using strlen_of_terminated [OF t(1)] strlen_of_terminated [OF t(2)] by simp_all
  have sep: "(16 :: u64) + of_nat x \<noteq> 8 + of_nat y" if "x \<le> 4" "y \<le> 4" for x y
    using that by (intro offset_neq) auto
  have "strcpy_requires (flat ?m) 16 8" "strncpy_requires (flat ?m) 16 8 4"
      "strcat_requires (flat ?m) 16 8" "separated 16 (0 + 1) 8 1"
    using flat_string [OF t(1)] flat_string [OF t(2)] flat_range [of 16 0 1 ?m] flat_range [of 16 0 3 ?m]
      separatedI [of 1 1 16 8] separatedI [of 3 3 16 8] sep len
    by (simp_all add: strcpy_requires_def strncpy_requires_def strcat_requires_def)
  then show ?thesis
    using string_copies_meet_contracts [of "flat ?m" 16 8 4] len by simp
qed

section \<open>Calls that break the contracts\<close>

text \<open>
  The contracts of \<^verbatim>\<open>memset\<close>, \<^verbatim>\<open>memchr\<close> and \<^verbatim>\<open>strrchr\<close> compare a signed \<^verbatim>\<open>char\<close> with the
  \<^verbatim>\<open>int\<close> argument without converting it, so the functions break them on arguments that the
  \<^verbatim>\<open>requires\<close> clauses allow: \<^verbatim>\<open>memset(s, 255, n)\<close>, \<^verbatim>\<open>memchr(s, 200, n)\<close> on an area that has
  the byte 200, and \<^verbatim>\<open>strrchr("a", 0x161)\<close>. The predicate \<^verbatim>\<open>valid_read_or_empty(s, 1)\<close> holds of
  an empty block, of which no byte can be read.
\<close>

theorem char_contracts_broken:
  fixes m :: mem
  shows "memset_requires (flat m) 8 4 \<and> \<not> memset_ensures (flat m) 8 255 4 (memset 8 255 4 m) \<and>
    memchr_requires (flat (\<lambda>_. 200)) 8 200 1 0 \<and>
    \<not> memchr_ensures (flat (\<lambda>_. 200)) 8 200 1 (memchr 8 200 1 (\<lambda>_. 200)) \<and>
    strrchr_requires (flat ((\<lambda>_. 0)(8 := 97))) 8 \<and>
    (\<exists>r. strrchr 8 0x161 ((\<lambda>_. 0)(8 := 97)) = Some r \<and>
       \<not> strrchr_ensures (flat ((\<lambda>_. 0)(8 := 97))) 8 0x161 r) \<and>
    valid_read_or_empty ((flat m)\<lparr>a_valid_read := \<lambda>_. False, a_base := \<lambda>_. 8, a_block_length := \<lambda>_. 0\<rparr>) 8 1"
proof -
  have at: "snd (memset 8 255 4 m) 8 = 255" using memset_loop_at [of 4 8 255 0 m 8] by (simp add: memset_def)
  have "\<not> logic_memset (cstr (snd (memset 8 255 4 m)) 8) 255 4"
    unfolding logic_memset_def by (auto simp: at cstr_def intro!: exI [of _ 0])
  then have 1: "memset_requires (flat m) 8 4 \<and> \<not> memset_ensures (flat m) 8 255 4 (memset 8 255 4 m)"
    using flat_block [of 8 4 m] by (auto simp: memset_requires_def memset_ensures_def split: prod.splits)
  have 2: "memchr_requires (flat (\<lambda>_. 200)) 8 200 1 0 \<and>
      \<not> memchr_ensures (flat (\<lambda>_. 200)) 8 200 1 (memchr 8 200 1 (\<lambda>_. 200))"
    using flat_block [of 8 1 "\<lambda>_. 200"]
    by (simp add: memchr_requires_def memchr_ensures_def initialized_def non_escaping_def logic_memchr_def
        cstr_def memchr_def)
  let ?m = "(\<lambda>_. 0)(8 := 97) :: mem"
  have t: "terminated ?m 8 (Suc 0)" by simp
  have "rsearch ?m 8 0x161 2 = 8" by (simp only: numeral_2_eq_2) simp
  then have res: "strrchr 8 0x161 ?m = Some 8" using strlen_eq [OF t] by (simp add: strrchr_def)
  have found: "logic_strchr (cstr ?m 8) (sint (0x161 :: u32))"
  proof -
    have "?m (8 + of_nat 0) = ucast (0x161 :: u32)" by simp
    then show ?thesis using strchr_in_string [OF t, of "0x161"] by blast
  qed
  have 3: "strrchr_requires (flat ?m) 8 \<and>
      (\<exists>r. strrchr 8 0x161 ?m = Some r \<and> \<not> strrchr_ensures (flat ?m) 8 0x161 r)"
    using res found flat_string [OF t] by (simp add: strrchr_requires_def strrchr_ensures_def)
  have 4: "valid_read_or_empty ((flat m)\<lparr>a_valid_read := \<lambda>_. False, a_base := \<lambda>_. 8, a_block_length := \<lambda>_. 0\<rparr>) 8 1"
    by (simp add: valid_read_or_empty_def empty_block_def range_ok_def)
  show ?thesis using 1 2 3 4 by blast
qed

text \<open>
  On areas without a null byte, which \<^verbatim>\<open>valid_read_nstring\<close> allows, \<^verbatim>\<open>strncmp\<close> breaks its
  contract under every interpretation of \<^verbatim>\<open>strcmp\<close> and \<^verbatim>\<open>strncmp\<close> over \<open>logic_strlen\<close>: the axiom
  \<^verbatim>\<open>strncmp_zero\<close> takes the negative length of both areas for a length below \<open>n\<close> and makes the
  logic function 0, while the function returns the difference of two distinct bytes.
\<close>

theorem strncmp_contract_broken:
  assumes "axiomatic_StrCmp logic_strlen sc" and "axiomatic_StrNCmp logic_strlen sc snc"
    and "\<forall>a. m a \<noteq> 0" and "m s1 \<noteq> m s2" and "0 < unat s1" and "0 < unat s2"
    and "unat s1 + 1 < 2 ^ 64" and "unat s2 + 1 < 2 ^ 64"
  shows "strncmp_requires (flat m) s1 s2 1 \<and> strncmp s1 s2 1 m \<noteq> snc (cstr m s1) (cstr m s2) 1"
proof -
  have l: "logic_strlen (cstr m s) = - 1" for s
    using assms(3) by (auto simp: logic_strlen_def)
  have "sc (cstr m s1) (cstr m s2) = 0" using assms(1) l by (auto simp: axiomatic_StrCmp_def)
  then have "snc (cstr m s1) (cstr m s2) 1 = 0" using assms(2) l by (simp add: axiomatic_StrNCmp_def)
  moreover have "strncmp s1 s2 1 m = chr_diff (m s1) (m s2)" using assms(4) by (simp add: strncmp_def)
  moreover have "chr_diff (m s1) (m s2) \<noteq> 0" using assms(4) by (simp add: chr_diff_def word_unat_eq_iff)
  moreover have "strncmp_requires (flat m) s1 s2 1"
    using flat_range [of s1 0 0 m] flat_range [of s2 0 0 m] assms(5-8)
    by (simp add: strncmp_requires_def valid_read_nstring_def initialized_def)
  ultimately show ?thesis by simp
qed

theorem strncmp_contract_broken_witness:
  "strncmp_requires (flat ((\<lambda>_. 1)(8 := 2))) 8 16 1 \<and>
   strncmp 8 16 1 ((\<lambda>_. 1)(8 := 2)) \<noteq> logic_strncmp (cstr ((\<lambda>_. 1)(8 := 2)) 8) (cstr ((\<lambda>_. 1)(8 := 2)) 16) 1"
  by (rule strncmp_contract_broken [where sc = logic_strcmp])
    (simp_all add: axiomatic_StrCmp_def axiomatic_StrNCmp_def logic_strcmp_zero logic_strncmp_zero)

text \<open>
  \<^verbatim>\<open>strcat(s, s)\<close> on a string that is not empty never returns, although the \<^verbatim>\<open>requires\<close> clauses
  allow it (the header notes that the separation clause is missing): the copy overwrites the
  terminator it is looking for.
\<close>

theorem strcat_self_diverges:
  assumes "terminated m s k" and "0 < k"
  shows "strcat s s m = None"
proof -
  have "strcpy_loop d src i m = Some m' \<Longrightarrow>
      \<forall>n. d = src + of_nat n \<and> 0 < n \<and> (\<forall>j<n. m (src + i + of_nat j) \<noteq> 0) \<longrightarrow> False" for d src i m m'
  proof (rule strcpy_loop.raw_induct [where P = "\<lambda>d src i m m'.
      \<forall>n. d = src + of_nat n \<and> 0 < n \<and> (\<forall>j<n. m (src + i + of_nat j) \<noteq> 0) \<longrightarrow> False"], goal_cases)
    case (1 f d src i m m')
    show ?case
    proof (intro allI impI)
      fix n
      assume n: "d = src + of_nat n \<and> 0 < n \<and> (\<forall>j<n. m (src + i + of_nat j) \<noteq> 0)"
      let ?m = "m(d + i := m (src + i))"
      have "m (src + i + of_nat 0) \<noteq> 0" using n by blast
      then have nz: "m (src + i) \<noteq> 0" by simp
      then have step: "f d src (i + 1) ?m = Some m'" using 1(3) by simp
      have "?m (src + (i + 1) + of_nat j) \<noteq> 0" if "j < n" for j
      proof (cases "Suc j = n")
        case True
        then have "src + (i + 1) + of_nat j = d + i" using n by (auto simp: algebra_simps)
        then show ?thesis using nz by simp
      next
        case False
        then have "m (src + i + of_nat (Suc j)) \<noteq> 0" using n that by (metis Suc_lessI)
        then show ?thesis using nz by (simp add: algebra_simps)
      qed
      then show False using 1(2) [OF step] n by blast
    qed
  qed
  from this [of "s + of_nat k" s 0 m] have "strcpy_loop (s + of_nat k) s 0 m = None"
    using assms by (cases "strcpy_loop (s + of_nat k) s 0 m") (auto simp: terminated_def)
  then show ?thesis using strlen_eq [OF assms(1)] by (simp add: strcat_def)
qed

theorem strcat_self_diverges_witness: "strcat 8 8 ((\<lambda>_. 0)(8 := 97)) = None"
  by (rule strcat_self_diverges [of _ _ "Suc 0"]) simp_all

text \<open>
  \<^verbatim>\<open>strcasecmp\<close> orders strings the wrong way round: when the first letters that differ are both
  before the ends of the strings, it returns the lower-case character of the second string minus
  that of the first, so a string that sorts before the other compares as greater.
\<close>

theorem strcasecmp_reversed:
  assumes "\<forall>j<t. m (s1 + of_nat j) \<noteq> 0 \<and> m (s2 + of_nat j) \<noteq> 0 \<and>
      char_equal_ignore_case (m (s1 + of_nat j)) (m (s2 + of_nat j)) = 0"
    and "97 \<le> uint (m (s1 + of_nat t))" and "uint (m (s1 + of_nat t)) < uint (m (s2 + of_nat t))"
    and "uint (m (s2 + of_nat t)) \<le> 122"
  shows "\<exists>r. strcasecmp s1 s2 m = Some r \<and> 0 < r"
proof -
  have loop: "strcasecmp_loop m s1 s2 i = strcasecmp_loop m s1 s2 (i + of_nat t)"
    if "\<forall>j<t. m (s1 + (i + of_nat j)) \<noteq> 0 \<and> m (s2 + (i + of_nat j)) \<noteq> 0 \<and>
      char_equal_ignore_case (m (s1 + (i + of_nat j))) (m (s2 + (i + of_nat j))) = 0" for i t
    using that
  proof (induction t arbitrary: i)
    case (Suc t)
    have "strcasecmp_loop m s1 s2 (i + 1) = strcasecmp_loop m s1 s2 (i + 1 + of_nat t)"
      using Suc.prems by (intro Suc.IH) (auto simp: All_less_Suc2 algebra_simps)
    moreover have "strcasecmp_loop m s1 s2 i = strcasecmp_loop m s1 s2 (i + 1)"
      using Suc.prems by (simp add: strcasecmp_loop.simps [of m s1 s2 i] All_less_Suc2)
    ultimately show ?case by (simp add: algebra_simps)
  qed simp
  let ?a = "m (s1 + of_nat t)" and ?b = "m (s2 + of_nat t)"
  have nz: "?a \<noteq> 0" "?b \<noteq> 0" using assms(2-4) by auto
  have sint: "sint ?a = uint ?a" "sint ?b = uint ?b"
    using assms(2-4) by (simp_all add: sint_uint signed_take_bit_int_eq_self)
  have "char_equal_ignore_case ?a ?b = uint ?b - uint ?a"
    using assms(2-4) sint by (auto simp: char_equal_ignore_case_def chr_diff_def of_nat_unat Let_def)
  then have "strcasecmp_loop m s1 s2 (of_nat t) = Some (uint ?b - uint ?a)"
    using nz assms(3) by (simp add: strcasecmp_loop.simps [of m s1 s2 "of_nat t"] Let_def)
  then show ?thesis using loop [of t 0] assms(1,3) by (simp add: strcasecmp_def)
qed

theorem strcasecmp_reversed_witness: "\<exists>r. strcasecmp 8 16 ((\<lambda>_. 0)(8 := 97, 16 := 98)) = Some r \<and> 0 < r"
  by (rule strcasecmp_reversed [of 0]) simp_all

end
