(* ===== verification/Printf.thy ===== *)
theory Printf
  imports Prelude
begin

text \<open>
  \<^verbatim>\<open>e_acsl_printf.h\<close>: the printing functions of the runtime. A conversion function is given as the
  bytes it writes to its buffer before the terminating null byte; the loops over digits and over
  terminated strings are partial functions. The state is the memory of the program and the
  sequence of \<^verbatim>\<open>write\<close> calls; an output function \<^verbatim>\<open>putf\<close> also owns the value its argument \<^verbatim>\<open>putp\<close>
  stands for (a file descriptor, or the current pointer of \<^verbatim>\<open>rtl_sprintf\<close>). \<open>None\<close> is undefined
  behaviour (signed overflow, a buffer overrun, an argument of another type) or a loop that never
  ends.
\<close>

section \<open>Output\<close>

record io =
  io_mem :: mem
  io_out :: "(u64 \<times> u8 list) list"

type_synonym sink = "u64 \<times> io"
type_synonym putcf = "u8 \<Rightarrow> sink \<Rightarrow> sink"

definition write_fd :: "u64 \<Rightarrow> u8 list \<Rightarrow> io \<Rightarrow> io" where
  "write_fd fd bs st = st\<lparr>io_out := io_out st @ [(fd, bs)]\<rparr>"

definition charc_stdout :: putcf where
  "charc_stdout c k = (fst k, write_fd 1 [c] (snd k))"

definition charc_stderr :: putcf where
  "charc_stderr c k = (fst k, write_fd 2 [c] (snd k))"

definition charc_file :: putcf where
  "charc_file c k = (fst k, write_fd (fst k) [c] (snd k))"

text \<open>The escape sequences of \<^verbatim>\<open>_charc_literal\<close>: a backslash (92) and a letter.\<close>

definition charc_literal :: putcf where
  "charc_literal c k = (fst k, write_fd (fst k)
     (if c = 13 then [92, 114] else if c = 12 then [92, 102] else if c = 8 then [92, 98]
      else if c = 7 then [92, 97] else if c = 10 then [92, 110] else if c = 9 then [92, 116]
      else if c = 0 then [92, 48] else [c]) (snd k))"

definition putcp :: putcf where
  "putcp c k = (fst k + 1, (snd k)\<lparr>io_mem := (io_mem (snd k))(fst k := c)\<rparr>)"

section \<open>Numbers\<close>

text \<open>The first loop of \<^verbatim>\<open>uli2a\<close> and \<^verbatim>\<open>ui2a\<close>, and the second; both at the width of the number.\<close>

partial_function (option) scale_loop :: "'w::len word \<Rightarrow> 'w word \<Rightarrow> 'w word \<Rightarrow> 'w word option" where
  "scale_loop num b d =
     (if d = 0 then None
      else if num div d \<ge> b then scale_loop num b (d * b)
      else Some d)"

definition digit_char :: "bool \<Rightarrow> u32 \<Rightarrow> u8" where
  "digit_char uc dgt = ucast (dgt + (if sint dgt < 10 then 48 else (if uc then 65 else 97) - 10))"

partial_function (option) digits_loop ::
  "'w::len word \<Rightarrow> 'w word \<Rightarrow> bool \<Rightarrow> nat \<Rightarrow> 'w word \<Rightarrow> u8 list option" where
  "digits_loop num b uc n d =
     (if d = 0 then Some []
      else if b = 0 then None
      else do {
        let dgt = (ucast (num div d) :: u32);
        let num = num mod d;
        let d = d div b;
        if n \<noteq> 0 \<or> 0 < sint dgt \<or> d = 0 then do {
          cs \<leftarrow> digits_loop num b uc (n + 1) d;
          Some (digit_char uc dgt # cs) }
        else digits_loop num b uc n d })"

definition u2a :: "'w::len word \<Rightarrow> 'w word \<Rightarrow> bool \<Rightarrow> u8 list option" where
  "u2a num b uc = do { d \<leftarrow> scale_loop num b 1; digits_loop num b uc 0 d }"

definition uli2a :: "u64 \<Rightarrow> u32 \<Rightarrow> bool \<Rightarrow> u8 list option" where
  "uli2a num b uc = u2a num (ucast b) uc"

definition ui2a :: "u32 \<Rightarrow> u32 \<Rightarrow> bool \<Rightarrow> u8 list option" where
  "ui2a num b uc = u2a num b uc"

text \<open>\<^verbatim>\<open>addr2a\<close> counts the decimal digits, then puts a dash before each group of five.\<close>

partial_function (option) addr_scale :: "u64 \<Rightarrow> u64 \<Rightarrow> u32 \<Rightarrow> (u64 \<times> u32) option" where
  "addr_scale addr d digits =
     (if d = 0 then None
      else if addr div d \<ge> 10 then addr_scale addr (d * 10) (digits + 1)
      else Some (d, digits))"

partial_function (option) addr_digits :: "u64 \<Rightarrow> u32 \<Rightarrow> nat \<Rightarrow> u64 \<Rightarrow> u8 list option" where
  "addr_digits addr digits n d =
     (if d = 0 then Some []
      else do {
        let dgt = (ucast (addr div d) :: u32);
        let addr = addr mod d;
        let d = d div 10;
        let digits = digits - 1;
        let dash = (if digits mod 5 = 0 \<and> d \<noteq> 0 then [45] else []);
        if n \<noteq> 0 \<or> 0 < sint dgt \<or> d = 0 then do {
          cs \<leftarrow> addr_digits addr digits (n + 1) d;
          Some (digit_char False dgt # dash @ cs) }
        else do {
          cs \<leftarrow> addr_digits addr digits n d;
          Some (dash @ cs) } })"

definition addr2a :: "u64 \<Rightarrow> u8 list option" where
  "addr2a addr = do {
     (d, digits) \<leftarrow> addr_scale addr 1 1;
     cs \<leftarrow> addr_digits addr digits 0 d;
     Some (48 # 120 # cs) }"

definition ptr2a :: "u64 \<Rightarrow> u8 list option" where
  "ptr2a p = do { cs \<leftarrow> uli2a p 16 False; Some (48 # 120 # cs) }"

text \<open>The negation of the smallest number overflows.\<close>

definition li2a :: "u64 \<Rightarrow> u8 list option" where
  "li2a num =
     (if sint num < 0 then
        (if sint num = - (2 ^ 63) then None
         else do { cs \<leftarrow> uli2a (- num) 10 False; Some (45 # cs) })
      else uli2a num 10 False)"

definition i2a :: "u32 \<Rightarrow> u8 list option" where
  "i2a num =
     (if sint num < 0 then
        (if sint num = - (2 ^ 31) then None
         else do { cs \<leftarrow> ui2a (- num) 10 False; Some (45 # cs) })
      else ui2a num 10 False)"

section \<open>Bit fields\<close>

text \<open>
  The two loops over bits; \<open>rd i\<close> is the bit \<^verbatim>\<open>i\<close>, \<open>None\<close> where the shift is undefined, and \<open>g\<close>
  the group size of the upward loop. \<open>bits_up\<close> has the bits left to print, \<open>bits_down\<close> the index
  above the next one.
\<close>

definition bit_char :: "bool \<Rightarrow> u8" where
  "bit_char b = (if b then 49 else 48)"

fun bits_up :: "(nat \<Rightarrow> bool option) \<Rightarrow> nat \<Rightarrow> nat \<Rightarrow> nat \<Rightarrow> nat \<Rightarrow> u8 list option" where
  "bits_up rd g sz i 0 = Some []"
| "bits_up rd g sz i (Suc k) = do {
     b \<leftarrow> rd i;
     cs \<leftarrow> bits_up rd g sz (i + 1) k;
     Some (bit_char b # (if i \<noteq> 0 \<and> i + 1 < sz \<and> (i + 1) mod g = 0 then [32] else []) @ cs) }"

fun bits_down :: "(nat \<Rightarrow> bool option) \<Rightarrow> nat \<Rightarrow> nat \<Rightarrow> u8 list option" where
  "bits_down rd sz 0 = Some []"
| "bits_down rd sz (Suc i) = do {
     b \<leftarrow> rd i;
     cs \<leftarrow> bits_down rd sz i;
     Some (bit_char b # (if i \<noteq> 0 \<and> i + 1 < sz \<and> i mod 4 = 0 then [32] else []) @ cs) }"

definition bits2a :: "u64 \<Rightarrow> nat \<Rightarrow> bool \<Rightarrow> u8 list option" where
  "bits2a v sz l2r =
     (let rd = (\<lambda>i. if i < 64 then Some (bit v i) else None)
      in if l2r then bits_up rd 8 sz 0 sz else bits_down rd sz sz)"

definition pbits2a :: "mem \<Rightarrow> u64 \<Rightarrow> nat \<Rightarrow> bool \<Rightarrow> u8 list option" where
  "pbits2a m p sz l2r =
     (let rd = (\<lambda>i. Some (bit (m (p + of_nat (i div 8))) (i mod 8)))
      in if l2r then bits_up rd 4 sz 0 sz else bits_down rd sz sz)"

section \<open>Reading numbers\<close>

definition a2d :: "u8 \<Rightarrow> int" where
  "a2d ch =
     (if 48 \<le> ch \<and> ch \<le> 57 then int (unat ch) - 48
      else if 97 \<le> ch \<and> ch \<le> 102 then int (unat ch) - 97 + 10
      else if 65 \<le> ch \<and> ch \<le> 70 then int (unat ch) - 65 + 10
      else - 1)"

text \<open>The result is the first character that is not part of the number, \<^verbatim>\<open>*src\<close> and \<^verbatim>\<open>*nump\<close>.\<close>

partial_function (option) a2i_loop :: "mem \<Rightarrow> int \<Rightarrow> u8 \<Rightarrow> u64 \<Rightarrow> int \<Rightarrow> (u8 \<times> u64 \<times> int) option" where
  "a2i_loop m b ch p num =
     (if a2d ch \<ge> 0 then
        (if a2d ch > b then Some (ch, p, num)
         else if num * b + a2d ch \<ge> 2 ^ 31 then None
         else a2i_loop m b (m p) (p + 1) (num * b + a2d ch))
      else Some (ch, p, num))"

definition a2i :: "mem \<Rightarrow> u8 \<Rightarrow> u64 \<Rightarrow> int \<Rightarrow> (u8 \<times> u64 \<times> int) option" where
  "a2i m ch src b = a2i_loop m b ch src 0"

section \<open>Padding\<close>

text \<open>
  \<^verbatim>\<open>putchw\<close> reads a terminated string: \<open>rd st i\<close> is its character \<open>i\<close> in the state \<open>st\<close>, since the
  output may go to the memory the string is in.
\<close>

type_synonym reader = "io \<Rightarrow> nat \<Rightarrow> u8"

fun pad_count :: "(nat \<Rightarrow> u8) \<Rightarrow> nat \<Rightarrow> nat \<Rightarrow> nat" where
  "pad_count s i 0 = 0"
| "pad_count s i (Suc n) = (if s i \<noteq> 0 then pad_count s (i + 1) n else Suc n)"

fun put_times :: "putcf \<Rightarrow> u8 \<Rightarrow> nat \<Rightarrow> sink \<Rightarrow> sink" where
  "put_times putf c 0 k = k"
| "put_times putf c (Suc n) k = put_times putf c n (putf c k)"

partial_function (option) put_string :: "putcf \<Rightarrow> reader \<Rightarrow> nat \<Rightarrow> sink \<Rightarrow> sink option" where
  "put_string putf rd i k =
     (if rd (snd k) i = 0 then Some k else put_string putf rd (i + 1) (putf (rd (snd k) i) k))"

definition putchw :: "putcf \<Rightarrow> nat \<Rightarrow> bool \<Rightarrow> reader \<Rightarrow> sink \<Rightarrow> sink option" where
  "putchw putf n z rd k =
     put_string putf rd 0 (put_times putf (if z then 48 else 32) (pad_count (rd (snd k)) 0 n) k)"

text \<open>The local buffer \<^verbatim>\<open>char bf[256]\<close>, with the bytes a conversion wrote and their terminator.\<close>

definition in_bf :: "u8 list option \<Rightarrow> reader option" where
  "in_bf bs = do {
     cs \<leftarrow> bs;
     if length cs + 1 \<le> 256 then Some (\<lambda>_ i. (cs @ [0]) ! i) else None }"

definition in_memory :: "u64 \<Rightarrow> reader" where
  "in_memory p st i = io_mem st (p + of_nat i)"

section \<open>Format strings\<close>

text \<open>
  The variable arguments with their types. \<^verbatim>\<open>double\<close> is a parameter: \<open>fp_to_int\<close> is the conversion
  to \<^verbatim>\<open>int\<close>, \<open>None\<close> out of range, and \<open>fp_thousandths x n\<close> the value of \<^verbatim>\<open>(x - n) * 1000\<close>.
\<close>

datatype 'd va_arg = VInt u32 | VLong u64 | VPtr u64 | VDouble 'd

record 'd fp_ops =
  fp_to_int :: "'d \<Rightarrow> u32 option"
  fp_thousandths :: "'d \<Rightarrow> u32 \<Rightarrow> 'd"

fun va_int :: "'d va_arg list \<Rightarrow> (u32 \<times> 'd va_arg list) option" where
  "va_int (VInt x # va) = Some (x, va)"
| "va_int _ = None"

fun va_long :: "'d va_arg list \<Rightarrow> (u64 \<times> 'd va_arg list) option" where
  "va_long (VLong x # va) = Some (x, va)"
| "va_long _ = None"

fun va_ptr :: "'d va_arg list \<Rightarrow> (u64 \<times> 'd va_arg list) option" where
  "va_ptr (VPtr x # va) = Some (x, va)"
| "va_ptr _ = None"

fun va_double :: "'d va_arg list \<Rightarrow> ('d \<times> 'd va_arg list) option" where
  "va_double (VDouble x # va) = Some (x, va)"
| "va_double _ = None"

text \<open>The flag, the width and the length modifier; \<open>sp_char\<close> is the conversion specifier.\<close>

record spec =
  sp_lz :: bool
  sp_w :: nat
  sp_lng :: bool
  sp_char :: u8
  sp_next :: u64

definition parse_spec :: "mem \<Rightarrow> u64 \<Rightarrow> spec option" where
  "parse_spec m fmt = do {
     let ch = m fmt;
     let fmt = fmt + 1;
     let lz = (ch = 48);
     let (ch, fmt) = (if lz then (m fmt, fmt + 1) else (ch, fmt));
     (ch, fmt, w) \<leftarrow> (if 48 \<le> ch \<and> ch \<le> 57 then a2i m ch fmt 10 else Some (ch, fmt, 0));
     let lng = (ch = 108);
     let (ch, fmt) = (if lng then (m fmt, fmt + 1) else (ch, fmt));
     Some \<lparr>sp_lz = lz, sp_w = nat w, sp_lng = lng, sp_char = ch, sp_next = fmt\<rparr> }"

definition put_bf :: "putcf \<Rightarrow> nat \<Rightarrow> bool \<Rightarrow> u8 list option \<Rightarrow> 'v \<Rightarrow> sink \<Rightarrow> ('v \<times> sink) option" where
  "put_bf putf w lz bs va k = do { rd \<leftarrow> in_bf bs; k \<leftarrow> putchw putf w lz rd k; Some (va, k) }"

definition bits_width :: "nat \<Rightarrow> nat" where
  "bits_width w = (if w > 64 then 64 else if w \<noteq> 0 then w else 8)"

definition pbits_width :: "nat \<Rightarrow> nat" where
  "pbits_width w = (if w \<noteq> 0 then w else 8)"

text \<open>The \<^verbatim>\<open>switch\<close> on the specifier, with the characters as numbers.\<close>

definition conversion ::
  "'d fp_ops \<Rightarrow> putcf \<Rightarrow> spec \<Rightarrow> 'd va_arg list \<Rightarrow> sink \<Rightarrow> ('d va_arg list \<times> sink) option" where
  "conversion fp putf sp va k =
     (let w = sp_w sp; lz = sp_lz sp; ch = sp_char sp; m = io_mem (snd k) in
      if ch = 0 then Some (va, k)
      else if ch = 117 then \<comment> \<open>u\<close>
        (if sp_lng sp then do { (x, va) \<leftarrow> va_long va; put_bf putf w lz (uli2a x 10 False) va k }
         else do { (x, va) \<leftarrow> va_int va; put_bf putf w lz (ui2a x 10 False) va k })
      else if ch = 100 then \<comment> \<open>d\<close>
        (if sp_lng sp then do { (x, va) \<leftarrow> va_long va; put_bf putf w lz (li2a x) va k }
         else do { (x, va) \<leftarrow> va_int va; put_bf putf w lz (i2a x) va k })
      else if ch = 112 then \<comment> \<open>p\<close>
        do { (x, va) \<leftarrow> va_ptr va; put_bf putf w lz (ptr2a x) va k }
      else if ch = 97 then \<comment> \<open>a\<close>
        do { (x, va) \<leftarrow> va_long va; put_bf putf w lz (addr2a x) va k }
      else if ch = 98 then \<comment> \<open>b\<close>
        do { (x, va) \<leftarrow> va_long va; put_bf putf 0 False (bits2a x (bits_width w) True) va k }
      else if ch = 66 then \<comment> \<open>B\<close>
        do { (x, va) \<leftarrow> va_long va; put_bf putf 0 False (bits2a x (bits_width w) False) va k }
      else if ch = 118 then \<comment> \<open>v\<close>
        do { (x, va) \<leftarrow> va_ptr va; put_bf putf 0 False (pbits2a m x (pbits_width w) True) va k }
      else if ch = 86 then \<comment> \<open>V\<close>
        do { (x, va) \<leftarrow> va_ptr va; put_bf putf 0 False (pbits2a m x (pbits_width w) False) va k }
      else if ch = 120 \<or> ch = 88 then \<comment> \<open>x, X\<close>
        (if sp_lng sp then do { (x, va) \<leftarrow> va_long va; put_bf putf w lz (uli2a x 16 (ch = 88)) va k }
         else do { (x, va) \<leftarrow> va_int va; put_bf putf w lz (ui2a x 16 (ch = 88)) va k })
      else if ch = 102 then \<comment> \<open>f\<close>
        do {
          (x, va) \<leftarrow> va_double va;
          n \<leftarrow> fp_to_int fp x;
          (va, k) \<leftarrow> put_bf putf w lz (i2a n) va k;
          let k = putf 46 k;
          n \<leftarrow> fp_to_int fp (fp_thousandths fp x n);
          put_bf putf w lz (i2a n) va k }
      else if ch = 99 then \<comment> \<open>c\<close>
        do { (x, va) \<leftarrow> va_int va; Some (va, putf (ucast x) k) }
      else if ch = 115 then \<comment> \<open>s\<close>
        do { (p, va) \<leftarrow> va_ptr va; k \<leftarrow> putchw putf w False (in_memory p) k; Some (va, k) }
      else if ch = 37 then Some (va, putf ch k)
      else Some (va, k))"

partial_function (option) format_rtl ::
  "'d fp_ops \<Rightarrow> putcf \<Rightarrow> u64 \<Rightarrow> 'd va_arg list \<Rightarrow> sink \<Rightarrow> sink option" where
  "format_rtl fp putf fmt va k =
     (let ch = io_mem (snd k) fmt in
      if ch = 0 then Some k
      else if ch \<noteq> 37 then format_rtl fp putf (fmt + 1) va (putf ch k)
      else do {
        sp \<leftarrow> parse_spec (io_mem (snd k)) (fmt + 1);
        r \<leftarrow> conversion fp putf sp va k;
        format_rtl fp putf (sp_next sp) (fst r) (snd r) })"

section \<open>The printing functions\<close>

text \<open>Each returns 1 when it returns; the results are the new states.\<close>

definition rtl_printf :: "'d fp_ops \<Rightarrow> u64 \<Rightarrow> 'd va_arg list \<Rightarrow> io \<Rightarrow> (int \<times> io) option" where
  "rtl_printf fp fmt va st = do { k \<leftarrow> format_rtl fp charc_stdout fmt va (0, st); Some (1, snd k) }"

definition rtl_eprintf :: "'d fp_ops \<Rightarrow> u64 \<Rightarrow> 'd va_arg list \<Rightarrow> io \<Rightarrow> (int \<times> io) option" where
  "rtl_eprintf fp fmt va st = do { k \<leftarrow> format_rtl fp charc_stderr fmt va (0, st); Some (1, snd k) }"

definition rtl_dprintf :: "'d fp_ops \<Rightarrow> u32 \<Rightarrow> u64 \<Rightarrow> 'd va_arg list \<Rightarrow> io \<Rightarrow> (int \<times> io) option" where
  "rtl_dprintf fp fd fmt va st = do { k \<leftarrow> format_rtl fp charc_file fmt va (scast fd, st); Some (1, snd k) }"

definition rtl_sprintf :: "'d fp_ops \<Rightarrow> u64 \<Rightarrow> u64 \<Rightarrow> 'd va_arg list \<Rightarrow> io \<Rightarrow> (int \<times> io) option" where
  "rtl_sprintf fp s fmt va st = do {
     k \<leftarrow> format_rtl fp putcp fmt va (s, st);
     Some (1, snd (putcp 0 k)) }"

end
