(* ===== verification/Libc_Replacements.thy ===== *)
theory Libc_Replacements
  imports Printf Libc_String Bittree_MModel Segment_MModel
begin

text \<open>
  \<^verbatim>\<open>e_acsl_libc_replacements.h\<close>: the replacements of library functions that check their arguments
  against the memory model before they call the function. The file is compiled with either memory
  model, so the queries it makes are an argument: a record of functions, with one instance for
  each model. \<open>m\<close> is the memory of the program, \<open>st\<close> the state of the memory model. The library
  functions themselves are those of \<^verbatim>\<open>Libc_String\<close>.
\<close>

section \<open>The queries\<close>

record 's mm_api =
  api_allocated :: "u64 \<Rightarrow> u64 \<Rightarrow> u64 \<Rightarrow> 's \<Rightarrow> bool outcome option"
  api_readonly :: "u64 \<Rightarrow> 's \<Rightarrow> bool outcome option"
  api_writeable :: "u64 \<Rightarrow> u64 \<Rightarrow> u64 \<Rightarrow> 's \<Rightarrow> bool outcome option"
  api_block_length :: "u64 \<Rightarrow> 's \<Rightarrow> u64 outcome option"
  api_offset :: "u64 \<Rightarrow> 's \<Rightarrow> u64 outcome option"

definition bt_api :: "bool \<Rightarrow> 'a mm_state_scheme mm_api" where
  "bt_api weak =
     \<lparr>api_allocated = (\<lambda>a n b s. map_option Inr (allocated_bt weak a n b s)), api_readonly = readonly_bt,
      api_writeable = writeable_bt weak, api_block_length = block_length_bt, api_offset = offset_bt\<rparr>"

definition seg_api :: "build \<Rightarrow> 'a seg_state_scheme mm_api" where
  "seg_api bld =
     \<lparr>api_allocated = (\<lambda>a n b s. map_option Inr (allocated_seg bld a n b s)),
      api_readonly = (\<lambda>a s. Some (Inr (readonly_seg a s))),
      api_writeable = (\<lambda>a n b s. map_option Inr (writeable_seg bld a n b s)),
      api_block_length = block_length_seg, api_offset = offset_seg\<rparr>"

section \<open>String validation\<close>

text \<open>
  The loop over the characters: \<open>z i\<close> says that character \<^verbatim>\<open>i\<close> is null, \<open>k\<close> counts the characters
  that are left in the block.
\<close>

fun scan_chars :: "(nat \<Rightarrow> bool) \<Rightarrow> int \<Rightarrow> nat \<Rightarrow> nat \<Rightarrow> nat option" where
  "scan_chars z n i 0 = None"
| "scan_chars z n i (Suc k) = (if z i \<or> n = int i then Some i else scan_chars z n (i + 1) k)"

text \<open>\<^verbatim>\<open>valid_nstring\<close> and \<^verbatim>\<open>valid_nwstring\<close>, which differ in the size \<open>w\<close> of a character only.\<close>

definition valid_nchars ::
  "'s mm_api \<Rightarrow> u64 \<Rightarrow> (nat \<Rightarrow> bool) \<Rightarrow> u64 \<Rightarrow> int \<Rightarrow> bool \<Rightarrow> 's \<Rightarrow> int outcome option" where
  "valid_nchars api w z s n wrtbl st =
     (if n = 0 then Some (Inr n)
      else
        andthen (api_allocated api s 1 s st) (\<lambda>alc.
        if alc then
          andthen (if wrtbl then api_readonly api s st else Some (Inr False)) (\<lambda>ro.
          if ro then Some (Inr (- 2))
          else
            andthen (api_block_length api s st) (\<lambda>len.
            andthen (api_offset api s st) (\<lambda>off.
            let size = sint ((len - off) div w) in
            Some (Inr (case scan_chars z n 0 (nat size) of
                Some i \<Rightarrow> int i
              | None \<Rightarrow> if n = size then n else if n > size then - 3 else - 4)))))
        else Some (Inr (- 1))))"

definition valid_nstring :: "'s mm_api \<Rightarrow> mem \<Rightarrow> u64 \<Rightarrow> int \<Rightarrow> bool \<Rightarrow> 's \<Rightarrow> int outcome option" where
  "valid_nstring api m s = valid_nchars api 1 (\<lambda>i. m (s + of_nat i) = 0) s"

definition valid_nwstring :: "'s mm_api \<Rightarrow> mem \<Rightarrow> u64 \<Rightarrow> int \<Rightarrow> bool \<Rightarrow> 's \<Rightarrow> int outcome option" where
  "valid_nwstring api m s = valid_nchars api 4 (\<lambda>i. load_le 4 m (s + 4 * of_nat i) = 0) s"

definition rt_valid_string :: "'s mm_api \<Rightarrow> mem \<Rightarrow> u64 \<Rightarrow> bool \<Rightarrow> 's \<Rightarrow> int outcome option" where
  "rt_valid_string api m s = valid_nstring api m s (- 1)"

definition rt_valid_wstring :: "'s mm_api \<Rightarrow> mem \<Rightarrow> u64 \<Rightarrow> bool \<Rightarrow> 's \<Rightarrow> int outcome option" where
  "rt_valid_wstring api m s = valid_nwstring api m s (- 1)"

definition validate_string ::
  "'s mm_api \<Rightarrow> mem \<Rightarrow> u64 \<Rightarrow> int \<Rightarrow> bool \<Rightarrow> string \<Rightarrow> string \<Rightarrow> 's \<Rightarrow> int outcome option" where
  "validate_string api m s n wrtbl fn desc st =
     andthen (valid_nstring api m s n wrtbl st) (\<lambda>size.
     Some (if size = - 1 then Inl (fn @ '': '' @ desc @ ''string unallocated'')
       else if size = - 2 then Inl (fn @ '': '' @ desc @ ''string is not writable'')
       else if size = - 3 then Inl (fn @ '': '' @ desc @ ''string has insufficient length'')
       else if size = - 4 then Inl (fn @ '': '' @ desc @ ''string not NUL-terminated'')
       else if 0 \<le> size then Inr size
       else Inl ''unexpected return value''))"

definition validate_writeable_string ::
  "'s mm_api \<Rightarrow> mem \<Rightarrow> u64 \<Rightarrow> int \<Rightarrow> string \<Rightarrow> string \<Rightarrow> 's \<Rightarrow> int outcome option" where
  "validate_writeable_string api m s n fn desc = validate_string api m s n True fn desc"

definition validate_allocated_string ::
  "'s mm_api \<Rightarrow> mem \<Rightarrow> u64 \<Rightarrow> int \<Rightarrow> string \<Rightarrow> string \<Rightarrow> 's \<Rightarrow> int outcome option" where
  "validate_allocated_string api m s n fn desc = validate_string api m s n False fn desc"

section \<open>Memory spaces\<close>

definition disjoint_spaces :: "u64 \<Rightarrow> u64 \<Rightarrow> u64 \<Rightarrow> u64 \<Rightarrow> bool" where
  "disjoint_spaces s1 s1_sz s2 s2_sz \<longleftrightarrow> s1 + s1_sz \<le> s2 \<or> s2 + s2_sz \<le> s1"

text \<open>The text of \<^verbatim>\<open>%lu\<close> in a message, by the runtime's own conversion.\<close>

definition show_lu :: "u64 \<Rightarrow> string" where
  "show_lu x = (case uli2a x 10 False of Some cs \<Rightarrow> map (\<lambda>c. char_of (unat c)) cs | None \<Rightarrow> [])"

definition validate_allocated_space ::
  "'s mm_api \<Rightarrow> u64 \<Rightarrow> u64 \<Rightarrow> string \<Rightarrow> string \<Rightarrow> 's \<Rightarrow> unit outcome option" where
  "validate_allocated_space api p sz fn space st =
     andthen (api_allocated api p sz p st) (\<lambda>a.
     Some (if \<not> a then Inl (fn @ '': unallocated (or insufficient) space in '' @ space) else Inr ()))"

definition validate_writeable_space ::
  "'s mm_api \<Rightarrow> u64 \<Rightarrow> u64 \<Rightarrow> string \<Rightarrow> string \<Rightarrow> 's \<Rightarrow> unit outcome option" where
  "validate_writeable_space api p sz fn space st =
     andthen (api_writeable api p sz p st) (\<lambda>w.
     if \<not> w then
       andthen (api_writeable api p 1 p st) (\<lambda>w1.
       Some (if w1 then Inl (fn @ '': insufficient space in '' @ space @ '', at least '' @ show_lu sz @ '' bytes required'')
         else Inl (fn @ '': '' @ space @ '' space unallocated or cannot be written'')))
     else Some (Inr ()))"

definition validate_overlapping_spaces :: "u64 \<Rightarrow> u64 \<Rightarrow> u64 \<Rightarrow> u64 \<Rightarrow> string \<Rightarrow> unit outcome option" where
  "validate_overlapping_spaces s1 s1_sz s2 s2_sz fn =
     Some (if \<not> disjoint_spaces s1 s1_sz s2 s2_sz then Inl (fn @ '': overlapping memory areas'') else Inr ())"

text \<open>The call of a library function: it returns unless its loop never ends.\<close>

definition call :: "'v option \<Rightarrow> 'v outcome option" where
  "call r = map_option Inr r"

section \<open>Strings\<close>

definition builtin_strlen :: "'s mm_api \<Rightarrow> u64 \<Rightarrow> mem \<Rightarrow> 's \<Rightarrow> u64 outcome option" where
  "builtin_strlen api s m st =
     andthen (validate_allocated_string api m s (- 1) ''strlen'' ''input '' st) (\<lambda>n. Some (Inr (word_of_int n)))"

definition builtin_strcpy :: "'s mm_api \<Rightarrow> u64 \<Rightarrow> u64 \<Rightarrow> mem \<Rightarrow> 's \<Rightarrow> (u64 \<times> mem) outcome option" where
  "builtin_strcpy api dest src m st =
     andthen (validate_allocated_string api m src (- 1) ''strlen'' ''source string '' st) (\<lambda>n.
     let size = word_of_int n in
     andthen (validate_writeable_space api dest (size + 1) ''strlen'' ''destination string'' st) (\<lambda>_.
     andthen (validate_overlapping_spaces dest (size + 1) src (size + 1) ''strcpy'') (\<lambda>_.
     call (strcpy dest src m))))"

definition builtin_strncpy :: "'s mm_api \<Rightarrow> u64 \<Rightarrow> u64 \<Rightarrow> u64 \<Rightarrow> mem \<Rightarrow> 's \<Rightarrow> (u64 \<times> mem) outcome option" where
  "builtin_strncpy api dest src n m st =
     andthen (validate_allocated_string api m src (sint n) ''strncpy'' ''source string '' st) (\<lambda>_.
     andthen (validate_writeable_space api dest n ''strncpy'' ''destination string '' st) (\<lambda>_.
     andthen (validate_overlapping_spaces dest n src n ''strncpy'') (\<lambda>_.
     call (Some (strncpy dest src n m)))))"

definition builtin_strcmp :: "'s mm_api \<Rightarrow> u64 \<Rightarrow> u64 \<Rightarrow> mem \<Rightarrow> 's \<Rightarrow> int outcome option" where
  "builtin_strcmp api s1 s2 m st =
     andthen (validate_allocated_string api m s1 (- 1) ''strcmp'' ''string 1 '' st) (\<lambda>_.
     andthen (validate_allocated_string api m s2 (- 1) ''strcmp'' ''string 2 '' st) (\<lambda>_.
     call (strcmp s1 s2 m)))"

definition builtin_strncmp :: "'s mm_api \<Rightarrow> u64 \<Rightarrow> u64 \<Rightarrow> u64 \<Rightarrow> mem \<Rightarrow> 's \<Rightarrow> int outcome option" where
  "builtin_strncmp api s1 s2 n m st =
     andthen (validate_allocated_string api m s1 (sint n) ''strncmp'' ''string 1 '' st) (\<lambda>_.
     andthen (validate_allocated_string api m s2 (sint n) ''strncmp'' ''string 2 '' st) (\<lambda>_.
     call (Some (strncmp s1 s2 n m))))"

text \<open>In \<^verbatim>\<open>builtin_strcat\<close> the required size is computed as a \<^verbatim>\<open>long\<close>, in \<^verbatim>\<open>builtin_strncat\<close> as a \<^verbatim>\<open>size_t\<close>.\<close>

definition builtin_strcat :: "'s mm_api \<Rightarrow> u64 \<Rightarrow> u64 \<Rightarrow> mem \<Rightarrow> 's \<Rightarrow> (u64 \<times> mem) outcome option" where
  "builtin_strcat api dest src m st =
     andthen (validate_allocated_string api m src (- 1) ''strcat'' ''source string '' st) (\<lambda>src_sz.
     andthen (validate_writeable_string api m dest (- 1) ''strcat'' ''destination string '' st) (\<lambda>dest_sz.
     andthen (api_block_length api dest st) (\<lambda>len.
     andthen (api_offset api dest st) (\<lambda>off.
     let avail_sz = len - off; need = src_sz + dest_sz + 1 in
     if need \<ge> 2 ^ 63 then None
     else if \<not> avail_sz \<ge> word_of_int need then
       Some (Inl (''strcat: insufficient space in destination string, available: '' @ show_lu avail_sz @
         '' bytes, requires at least '' @ show_lu (word_of_int need) @ '' bytes''))
     else
       andthen (validate_overlapping_spaces src (word_of_int (src_sz + 1)) dest (word_of_int (dest_sz + 1)) ''strcat'') (\<lambda>_.
       call (strcat dest src m))))))"

definition builtin_strncat :: "'s mm_api \<Rightarrow> u64 \<Rightarrow> u64 \<Rightarrow> u64 \<Rightarrow> mem \<Rightarrow> 's \<Rightarrow> (u64 \<times> mem) outcome option" where
  "builtin_strncat api dest src n m st =
     andthen (validate_allocated_string api m src (sint n) ''strncat'' ''source string '' st) (\<lambda>_.
     andthen (validate_writeable_string api m dest (- 1) ''strcat'' ''destination string '' st) (\<lambda>dest_sz.
     andthen (api_block_length api dest st) (\<lambda>len.
     andthen (api_offset api dest st) (\<lambda>off.
     let avail_sz = len - off; need = n + word_of_int dest_sz + 1 in
     if \<not> avail_sz \<ge> need then
       Some (Inl (''strncat: insufficient space in destination string, available: '' @ show_lu avail_sz @
         '' bytes, requires at least '' @ show_lu need @ '' bytes''))
     else
       andthen (validate_overlapping_spaces src n dest (word_of_int dest_sz) ''strcat'') (\<lambda>_.
       call (strncat dest src n m))))))"

section \<open>Memory areas\<close>

definition builtin_memcpy :: "'s mm_api \<Rightarrow> u64 \<Rightarrow> u64 \<Rightarrow> u64 \<Rightarrow> mem \<Rightarrow> 's \<Rightarrow> (u64 \<times> mem) outcome option" where
  "builtin_memcpy api dest src n m st =
     andthen (validate_allocated_space api src n ''memcpy'' ''source space '' st) (\<lambda>_.
     andthen (validate_writeable_space api dest n ''memcpy'' ''destination space '' st) (\<lambda>_.
     andthen (validate_overlapping_spaces src n dest n ''memcpy'') (\<lambda>_.
     call (Some (memcpy dest src n m)))))"

definition builtin_memset :: "'s mm_api \<Rightarrow> u64 \<Rightarrow> u32 \<Rightarrow> u64 \<Rightarrow> mem \<Rightarrow> 's \<Rightarrow> (u64 \<times> mem) outcome option" where
  "builtin_memset api s c n m st =
     andthen (validate_writeable_space api s n ''memset'' ''space '' st) (\<lambda>_.
     call (Some (memset s c n m)))"

definition builtin_memcmp :: "'s mm_api \<Rightarrow> u64 \<Rightarrow> u64 \<Rightarrow> u64 \<Rightarrow> mem \<Rightarrow> 's \<Rightarrow> int outcome option" where
  "builtin_memcmp api s1 s2 n m st =
     andthen (validate_allocated_space api s1 n ''memcmp'' ''space 1 '' st) (\<lambda>_.
     andthen (validate_allocated_space api s2 n ''memcmp'' ''space 1 '' st) (\<lambda>_.
     andthen (validate_overlapping_spaces s1 n s2 n ''memcpy'') (\<lambda>_.
     call (Some (memcmp s1 s2 n m)))))"

definition builtin_memmove :: "'s mm_api \<Rightarrow> u64 \<Rightarrow> u64 \<Rightarrow> u64 \<Rightarrow> mem \<Rightarrow> 's \<Rightarrow> (u64 \<times> mem) outcome option" where
  "builtin_memmove api dest src n m st =
     andthen (validate_allocated_space api src n ''memcmp'' ''source space '' st) (\<lambda>_.
     andthen (validate_writeable_space api dest n ''memcmp'' ''destination space '' st) (\<lambda>_.
     call (Some (memmove dest src n m))))"

end
