(* ===== verification/Libc_Replacements_Correct.thy ===== *)
theory Libc_Replacements_Correct
  imports Libc_Replacements Libc_String_Loops Bittree_Tracker Segment_Tracker
begin

text \<open>
  The checks of \<^verbatim>\<open>e_acsl_libc_replacements.h\<close>. The locale states what they rely on: the queries
  answer by the map of tracked blocks. Both memory models provide it, so every lemma of the locale
  holds for the library compiled with either of them.
\<close>

section \<open>Scanning\<close>

lemma scan_chars_Some:
  assumes "i \<le> j" and "j < i + k" and "z j \<or> n = int j" and "\<And>x. i \<le> x \<Longrightarrow> x < j \<Longrightarrow> \<not> z x \<and> n \<noteq> int x"
  shows "scan_chars z n i k = Some j"
  using assms
proof (induction k arbitrary: i)
  case (Suc k)
  show ?case
  proof (cases "i = j")
    case False
    then show ?thesis using Suc.prems Suc.IH [of "i + 1"] by auto
  qed (use Suc.prems in auto)
qed simp

lemma scan_chars_None:
  "(\<And>x. i \<le> x \<Longrightarrow> x < i + k \<Longrightarrow> \<not> z x \<and> n \<noteq> int x) \<Longrightarrow> scan_chars z n i k = None"
  by (induction k arbitrary: i) auto

text \<open>A string that ends within the \<open>avail\<close> bytes of its block, and one that does not.\<close>

lemma scan_string:
  "terminated m s k \<Longrightarrow> k < avail \<Longrightarrow> scan_chars (\<lambda>i. m (s + of_nat i) = 0) (- 1) 0 avail = Some k"
  by (rule scan_chars_Some) (auto simp: terminated_def)

lemma scan_no_string:
  assumes "\<And>k. terminated m s k \<Longrightarrow> avail \<le> k"
  shows "scan_chars (\<lambda>i. m (s + of_nat i) = 0) (- 1) 0 avail = None"
proof (rule scan_chars_None)
  fix x assume "x < 0 + avail"
  then show "\<not> m (s + of_nat x) = 0 \<and> (- 1 :: int) \<noteq> int x"
    using ex_terminated [of m s x] assms by fastforce
qed

lemma andthen_simps [simp]:
  "andthen (Some (Inl e)) f = Some (Inl e)" "andthen (Some (Inr v)) f = f v" "andthen None f = None"
  by (simp_all add: andthen_def)

section \<open>Ranges\<close>

text \<open>Two ranges that do not meet, as the overlap check means it.\<close>

definition apart :: "u64 \<Rightarrow> nat \<Rightarrow> u64 \<Rightarrow> nat \<Rightarrow> bool" where
  "apart a k b l \<longleftrightarrow> unat a + k \<le> unat b \<or> unat b + l \<le> unat a"

lemma apart_commute: "apart a k b l \<longleftrightarrow> apart b l a k"
  by (auto simp: apart_def)

lemma disjoint_spaces_apart:
  assumes "unat a + k < 2 ^ 64" and "unat b + l < 2 ^ 64"
  shows "disjoint_spaces a (of_nat k) b (of_nat l) \<longleftrightarrow> apart a k b l"
proof -
  have u: "unat (of_nat k :: u64) = k" "unat (of_nat l :: u64) = l" using assms by (simp_all add: unat_of_nat_64)
  have "unat (a + of_nat k) = unat a + k" "unat (b + of_nat l) = unat b + l"
    using assms u by (simp_all add: unat_add_64)
  then show ?thesis by (simp add: disjoint_spaces_def apart_def word_le_nat_alt)
qed

lemma apart_distinct:
  assumes "apart a k b l" and "unat a + k < 2 ^ 64" and "unat b + l < 2 ^ 64" and "x < k" and "y < l"
  shows "a + of_nat x \<noteq> (b + of_nat y :: u64)"
proof
  assume e: "a + of_nat x = b + of_nat y"
  have u: "unat (of_nat x :: u64) = x" "unat (of_nat y :: u64) = y" using assms(2-5) by (simp_all add: unat_of_nat_64)
  have "unat (a + of_nat x) = unat a + x" "unat (b + of_nat y) = unat b + y"
    using assms(2-5) u by (simp_all add: unat_add_64)
  then show False using e assms(1,4,5) by (auto simp: apart_def)
qed

lemma memcpy_apart:
  assumes "apart src k dest k" and "unat src + k < 2 ^ 64" and "unat dest + k < 2 ^ 64"
  shows "memcpy_up dest src k 0 m a = (if inside dest k a then m (src + (a - dest)) else m a)"
  using memcpy_up_at [of k src 0 dest m a] apart_distinct [OF assms] assms(2) by (auto simp: inside_def)

lemma strcpy_apart:
  assumes "terminated m src k" and "apart src (k + 1) dest (k + 1)"
    and "unat src + (k + 1) < 2 ^ 64" and "unat dest + (k + 1) < 2 ^ 64"
  shows "\<exists>m'. strcpy dest src m = Some (dest, m') \<and>
    (\<forall>a. m' a = (if inside dest (k + 1) a then m (src + (a - dest)) else m a))"
proof -
  have d: "src + of_nat x \<noteq> dest + of_nat y" if "x < k + 1" "y < k + 1" for x y
    using apart_distinct [OF assms(2-4) that] .
  have loop: "strcpy_loop dest src 0 m = Some ((memcpy_up dest src k 0 m)(dest + of_nat k := 0))"
    using strcpy_loop_steps [of k m src 0 dest] assms(1) d by (auto simp: terminated_def)
  have "memcpy_up dest src k 0 m a = (if inside dest k a then m (src + (a - dest)) else m a)" for a
    using memcpy_up_at [of k src 0 dest m a] d assms(3) by (auto simp: inside_def)
  moreover have "inside dest (k + 1) a \<longleftrightarrow> inside dest k a \<or> a = dest + of_nat k" for a
  proof -
    have "unat (a - dest) = k \<longleftrightarrow> a = dest + of_nat k"
      using assms(3) by (auto simp: unat_of_nat_64 algebra_simps)
    then show ?thesis by (auto simp: inside_def)
  qed
  moreover have "m (src + (dest + of_nat k - dest)) = 0" using assms(1) by (simp add: terminated_def)
  ultimately show ?thesis using loop by (auto simp: strcpy_def)
qed

section \<open>The interface\<close>

locale checked_memory =
  fixes q_env :: "'e \<Rightarrow> bool"
    and q_api :: "'e \<Rightarrow> 's mm_api"
    and q_rep :: "'s \<Rightarrow> block_map \<Rightarrow> bool"
    and q_dom :: "'s \<Rightarrow> u64 \<Rightarrow> bool"
    and q_ro :: "'s \<Rightarrow> u64 \<Rightarrow> bool"
  assumes q_separate: "q_rep st B \<Longrightarrow> separate B"
    and q_bound: "q_rep st B \<Longrightarrow> B p = Some n \<Longrightarrow> unat p + n < 2 ^ 64 \<and> n < 2 ^ 63"
    and q_allocated: "q_env e \<Longrightarrow> q_rep st B \<Longrightarrow> q_dom st a \<Longrightarrow> sz < 2 ^ 63 \<Longrightarrow>
      api_allocated (q_api e) a (of_nat sz) a st = Some (Inr (accessible B a sz a))"
    and q_writeable: "q_env e \<Longrightarrow> q_rep st B \<Longrightarrow> q_dom st a \<Longrightarrow> sz < 2 ^ 63 \<Longrightarrow>
      api_writeable (q_api e) a (of_nat sz) a st = Some (Inr (accessible B a sz a \<and> \<not> q_ro st a))"
    and q_readonly: "q_env e \<Longrightarrow> q_rep st B \<Longrightarrow> covered B a \<Longrightarrow> api_readonly (q_api e) a st = Some (Inr (q_ro st a))"
    and q_length: "q_env e \<Longrightarrow> q_rep st B \<Longrightarrow> B p = Some n \<Longrightarrow> inside p n a \<Longrightarrow>
      api_block_length (q_api e) a st = Some (Inr (of_nat n))"
    and q_offset: "q_env e \<Longrightarrow> q_rep st B \<Longrightarrow> B p = Some n \<Longrightarrow> inside p n a \<Longrightarrow>
      api_offset (q_api e) a st = Some (Inr (a - p))"
begin

lemma available:
  assumes "q_rep st B" and "B p = Some n" and "inside p n a"
  shows "(of_nat n :: u64) - (a - p) = of_nat (n - unat (a - p))" and "unat (a - p) < n"
    and "sint (of_nat (n - unat (a - p)) :: u64) = int (n - unat (a - p))"
    and "unat (of_nat (n - unat (a - p)) :: u64) = n - unat (a - p)"
proof -
  have n: "n < 2 ^ 63" using q_bound [OF assms(1,2)] by simp
  show o: "unat (a - p) < n" using assms(3) by (simp add: inside_def)
  then show "(of_nat n :: u64) - (a - p) = of_nat (n - unat (a - p))" by (simp add: of_nat_diff)
  show "sint (of_nat (n - unat (a - p)) :: u64) = int (n - unat (a - p))"
    using n by (simp add: signed_of_nat signed_take_bit_int_eq_self)
  show "unat (of_nat (n - unat (a - p)) :: u64) = n - unat (a - p)"
    using n by (intro unat_of_nat_64) simp
qed

lemma nstring_covered:
  assumes "q_env e" and "q_rep st B" and "q_dom st s" and "B p = Some n" and "inside p n s" and "k \<noteq> 0"
  shows "valid_nstring (q_api e) m s k w st = Some (Inr
    (if w \<and> q_ro st s then - 2
     else (let avail = n - unat (s - p) in case scan_chars (\<lambda>i. m (s + of_nat i) = 0) k 0 avail of
       Some i \<Rightarrow> int i | None \<Rightarrow> if k = int avail then k else if k > int avail then - 3 else - 4)))"
proof -
  note av = available [OF assms(2,4,5)]
  have acc: "accessible B s 1 s"
    using accessible_iff [OF q_separate [OF assms(2)] assms(4,5), of 1 s] assms(5) av(2) by simp
  have cov: "covered B s" using assms(4,5) unfolding covered_def by blast
  have alc: "api_allocated (q_api e) s 1 s st = Some (Inr True)"
    using q_allocated [OF assms(1-3), of 1] acc by simp
  have sz: "sint ((of_nat n - (s - p)) div 1 :: u64) = int (n - unat (s - p))" using av(3) unfolding av(1) by simp
  show ?thesis
    unfolding valid_nstring_def valid_nchars_def alc q_readonly [OF assms(1,2) cov] q_length [OF assms(1,2,4,5)]
      q_offset [OF assms(1,2,4,5)] andthen_simps
    using assms(6) by (simp add: sz Let_def del: div_by_1)
qed

lemma nstring_uncovered:
  assumes "q_env e" and "q_rep st B" and "q_dom st s" and "\<not> covered B s" and "k \<noteq> 0"
  shows "valid_nstring (q_api e) m s k w st = Some (Inr (- 1))"
proof -
  have "\<not> accessible B s 1 s" using assms(4) accessible_covered by blast
  then show ?thesis
    using q_allocated [OF assms(1-3), of 1] assms(5) by (simp add: valid_nstring_def valid_nchars_def)
qed

text \<open>
  The check of a terminated string succeeds with its length iff the string, with its terminator,
  lies in one block; otherwise it aborts.
\<close>

lemma validate_string_ok:
  assumes "q_env e" and "q_rep st B" and "q_dom st s" and "terminated m s k" and "accessible B s (k + 1) s"
    and "\<not> (w \<and> q_ro st s)"
  shows "validate_string (q_api e) m s (- 1) w fn desc st = Some (Inr (int k))"
proof -
  obtain p n where p: "B p = Some n" "inside p n s" "unat (s - p) + (k + 1) \<le> n"
    using assms(5) unfolding accessible_def by blast
  have "k < n - unat (s - p)" using p(3) by simp
  then show ?thesis
    using nstring_covered [OF assms(1-3) p(1,2), of "- 1" m w] scan_string [OF assms(4)] assms(6)
    by (simp add: validate_string_def Let_def)
qed

lemma validate_string_fails:
  assumes "q_env e" and "q_rep st B" and "q_dom st s"
    and "\<And>k. terminated m s k \<Longrightarrow> \<not> accessible B s (k + 1) s \<or> w \<and> q_ro st s"
  shows "\<exists>msg. validate_string (q_api e) m s (- 1) w fn desc st = Some (Inl msg)"
proof (cases "covered B s")
  case True
  then obtain p n where p: "B p = Some n" "inside p n s" by (auto simp: covered_def)
  note av = available(2) [OF assms(2) p]
  have "scan_chars (\<lambda>i. m (s + of_nat i) = 0) (- 1) 0 (n - unat (s - p)) = None" if "\<not> (w \<and> q_ro st s)"
  proof (rule scan_no_string)
    fix k assume "terminated m s k"
    then have "\<not> accessible B s (k + 1) s" using assms(4) that by blast
    then show "n - unat (s - p) \<le> k"
      using accessible_iff [OF q_separate [OF assms(2)] p, of "k + 1" s] p(2) by simp
  qed
  then show ?thesis
    using nstring_covered [OF assms(1-3) p, of "- 1" m w] by (auto simp: validate_string_def Let_def)
next
  case False
  then show ?thesis using nstring_uncovered [OF assms(1-3)] by (simp add: validate_string_def)
qed

lemma validate_string_cases:
  assumes "q_env e" and "q_rep st B" and "q_dom st s"
  obtains (ok) k where "terminated m s k" and "accessible B s (k + 1) s" and "\<not> (w \<and> q_ro st s)"
      and "validate_string (q_api e) m s (- 1) w fn desc st = Some (Inr (int k))"
    | (fails) msg where "validate_string (q_api e) m s (- 1) w fn desc st = Some (Inl msg)"
      and "\<And>k. terminated m s k \<Longrightarrow> \<not> accessible B s (k + 1) s \<or> w \<and> q_ro st s"
proof (cases "\<exists>k. terminated m s k \<and> accessible B s (k + 1) s \<and> \<not> (w \<and> q_ro st s)")
  case True
  then show ?thesis using ok validate_string_ok [OF assms] by blast
next
  case False
  then show ?thesis using fails validate_string_fails [OF assms, of m w fn desc] by blast
qed

lemma accessible_fits:
  assumes "q_rep st B" and "accessible B a k b"
  shows "unat a + k < 2 ^ 64" and "k < 2 ^ 63"
proof -
  obtain p n where p: "B p = Some n" "inside p n a" "unat (a - p) + k \<le> n"
    using assms(2) unfolding accessible_def by blast
  have b: "unat p + n < 2 ^ 64" "n < 2 ^ 63" using q_bound [OF assms(1) p(1)] by simp_all
  have "unat (p + (a - p)) = unat p + unat (a - p)"
    using b(1) p(2) by (intro unat_add_64) (simp add: inside_def)
  then show "unat a + k < 2 ^ 64" "k < 2 ^ 63" using b p(3) by simp_all
qed

lemma allocated_space:
  assumes "q_env e" and "q_rep st B" and "q_dom st p" and "k < 2 ^ 63"
  shows "accessible B p k p \<Longrightarrow> validate_allocated_space (q_api e) p (of_nat k) fn d st = Some (Inr ())"
    and "\<not> accessible B p k p \<Longrightarrow> \<exists>msg. validate_allocated_space (q_api e) p (of_nat k) fn d st = Some (Inl msg)"
  using q_allocated [OF assms] by (simp_all add: validate_allocated_space_def)

lemma writeable_space:
  assumes "q_env e" and "q_rep st B" and "q_dom st p" and "k < 2 ^ 63"
  shows "accessible B p k p \<Longrightarrow> \<not> q_ro st p \<Longrightarrow> validate_writeable_space (q_api e) p (of_nat k) fn d st = Some (Inr ())"
    and "\<not> (accessible B p k p \<and> \<not> q_ro st p) \<Longrightarrow>
      \<exists>msg. validate_writeable_space (q_api e) p (of_nat k) fn d st = Some (Inl msg)"
  using q_writeable [OF assms] q_writeable [OF assms(1-3), of 1]
  by (simp_all add: validate_writeable_space_def)

text \<open>\<^verbatim>\<open>memcpy\<close> is called iff source and destination are tracked, the latter writable, and they do not meet.\<close>

lemma memcpy_checked:
  assumes "q_env e" and "q_rep st B" and "q_dom st dest" and "q_dom st src" and "k < 2 ^ 63"
  defines "ok \<equiv> accessible B src k src \<and> accessible B dest k dest \<and> \<not> q_ro st dest \<and> apart src k dest k"
  shows "ok \<Longrightarrow> \<exists>m'. builtin_memcpy (q_api e) dest src (of_nat k) m st = Some (Inr (dest, m')) \<and>
      (\<forall>a. m' a = (if inside dest k a then m (src + (a - dest)) else m a))"
    and "\<not> ok \<Longrightarrow> \<exists>msg. builtin_memcpy (q_api e) dest src (of_nat k) m st = Some (Inl msg)"
proof -
  note al = allocated_space [OF assms(1,2,4,5)] and wr = writeable_space [OF assms(1,2,3,5)]
  have ap: "disjoint_spaces src (of_nat k) dest (of_nat k) \<longleftrightarrow> apart src k dest k"
    if "accessible B src k src" "accessible B dest k dest"
    using disjoint_spaces_apart accessible_fits(1) [OF assms(2)] that by blast
  have k: "unat (of_nat k :: u64) = k" using assms(5) by (intro unat_of_nat_64) simp
  show "\<exists>m'. builtin_memcpy (q_api e) dest src (of_nat k) m st = Some (Inr (dest, m')) \<and>
      (\<forall>a. m' a = (if inside dest k a then m (src + (a - dest)) else m a))" if ok
  proof -
    have o: "accessible B src k src" "accessible B dest k dest" "\<not> q_ro st dest" "apart src k dest k"
      using that by (simp_all add: ok_def)
    have "memcpy_up dest src k 0 m a = (if inside dest k a then m (src + (a - dest)) else m a)" for a
      using memcpy_apart [OF o(4)] accessible_fits(1) [OF assms(2)] o(1,2) by blast
    then show ?thesis
      using o al(1) wr(1) ap by (simp add: builtin_memcpy_def validate_overlapping_spaces_def call_def memcpy_def k)
  qed
  show "\<exists>msg. builtin_memcpy (q_api e) dest src (of_nat k) m st = Some (Inl msg)" if nok: "\<not> ok"
  proof (cases "accessible B src k src")
    case src: True
    note a1 = al(1) [OF src, of "''memcpy''" "''source space ''"]
    show ?thesis
    proof (cases "accessible B dest k dest \<and> \<not> q_ro st dest")
      case True
      then have "\<not> apart src k dest k" using nok src by (simp add: ok_def)
      then show ?thesis using a1 True wr(1) ap [OF src] by (simp add: builtin_memcpy_def validate_overlapping_spaces_def)
    next
      case False
      then obtain msg where "validate_writeable_space (q_api e) dest (of_nat k) ''memcpy'' ''destination space '' st = Some (Inl msg)"
        using wr(2) by blast
      then show ?thesis using a1 by (simp add: builtin_memcpy_def)
    qed
  next
    case False
    then obtain msg where "validate_allocated_space (q_api e) src (of_nat k) ''memcpy'' ''source space '' st = Some (Inl msg)"
      using al(2) by blast
    then show ?thesis by (simp add: builtin_memcpy_def)
  qed
qed

text \<open>\<^verbatim>\<open>strcpy\<close> is called iff the source is a string in one block and the copy fits the writable destination, apart from it.\<close>

lemma strcpy_checked:
  fixes m :: mem
  assumes "q_env e" and "q_rep st B" and "q_dom st dest" and "q_dom st src"
  defines "ok \<equiv> \<lambda>k. terminated m src k \<and> accessible B src (k + 1) src \<and> accessible B dest (k + 1) dest \<and>
      \<not> q_ro st dest \<and> apart src (k + 1) dest (k + 1)"
  shows "ok k \<Longrightarrow> \<exists>m'. builtin_strcpy (q_api e) dest src m st = Some (Inr (dest, m')) \<and>
      (\<forall>a. m' a = (if inside dest (k + 1) a then m (src + (a - dest)) else m a))"
    and "(\<And>k. \<not> ok k) \<Longrightarrow> \<exists>msg. builtin_strcpy (q_api e) dest src m st = Some (Inl msg)"
proof -
  have word: "word_of_int (int k) + (1 :: u64) = of_nat (k + 1)" for k by simp
  have unfold: "builtin_strcpy (q_api e) dest src m st =
      andthen (validate_writeable_space (q_api e) dest (of_nat (k + 1)) ''strlen'' ''destination string'' st) (\<lambda>_.
      andthen (validate_overlapping_spaces dest (of_nat (k + 1)) src (of_nat (k + 1)) ''strcpy'') (\<lambda>_.
      call (strcpy dest src m)))"
    if "validate_string (q_api e) m src (- 1) False ''strlen'' ''source string '' st = Some (Inr (int k))" for k
    using that unfolding builtin_strcpy_def validate_allocated_string_def Let_def by (simp only: word andthen_simps)
  have ap: "disjoint_spaces dest (of_nat (k + 1)) src (of_nat (k + 1)) \<longleftrightarrow> apart src (k + 1) dest (k + 1)"
    if "accessible B src (k + 1) src" "accessible B dest (k + 1) dest" for k
    using disjoint_spaces_apart [of dest "k + 1" src "k + 1"] accessible_fits(1) [OF assms(2)] that apart_commute by blast
  show "\<exists>m'. builtin_strcpy (q_api e) dest src m st = Some (Inr (dest, m')) \<and>
      (\<forall>a. m' a = (if inside dest (k + 1) a then m (src + (a - dest)) else m a))" if k: "ok k"
  proof -
    have o: "terminated m src k" "accessible B src (k + 1) src" "accessible B dest (k + 1) dest"
        "\<not> q_ro st dest" "apart src (k + 1) dest (k + 1)"
      using k by (simp_all add: ok_def)
    note f = accessible_fits [OF assms(2) o(2)] accessible_fits [OF assms(2) o(3)]
    obtain m' where m': "strcpy dest src m = Some (dest, m')"
        "\<forall>a. m' a = (if inside dest (k + 1) a then m (src + (a - dest)) else m a)"
      using strcpy_apart [OF o(1,5) f(1,3)] by blast
    then show ?thesis
      using unfold [OF validate_string_ok [OF assms(1,2,4) o(1,2)]] writeable_space(1) [OF assms(1-3) f(4) o(3,4)] ap [OF o(2,3)] o(5)
      by (simp add: validate_overlapping_spaces_def call_def)
  qed
  show "\<exists>msg. builtin_strcpy (q_api e) dest src m st = Some (Inl msg)" if nok: "\<And>k. \<not> ok k"
    using assms(1,2,4)
  proof (cases rule: validate_string_cases [where m = m and w = False and fn = "''strlen''" and desc = "''source string ''"])
    case (ok k)
    note u = unfold [OF ok(4)] and kb = accessible_fits(2) [OF assms(2) ok(2)]
    show ?thesis
    proof (cases "accessible B dest (k + 1) dest \<and> \<not> q_ro st dest")
      case True
      then have "\<not> apart src (k + 1) dest (k + 1)" using nok [of k] ok(1,2) by (simp add: ok_def)
      then show ?thesis
        using u True writeable_space(1) [OF assms(1-3) kb] ap [OF ok(2)] by (simp add: validate_overlapping_spaces_def)
    next
      case False
      then obtain msg where
        "validate_writeable_space (q_api e) dest (of_nat (k + 1)) ''strlen'' ''destination string'' st = Some (Inl msg)"
        using writeable_space(2) [OF assms(1-3) kb] by blast
      then show ?thesis using u by simp
    qed
  next
    case (fails msg)
    then show ?thesis by (simp add: builtin_strcpy_def validate_allocated_string_def)
  qed
qed

text \<open>With a count of \<^verbatim>\<open>SIZE_MAX\<close> the size check of \<^verbatim>\<open>strncat\<close> wraps around and passes always.\<close>

lemma strncat_unchecked:
  assumes "q_env e" and "q_rep st B" and "q_dom st dest" and "q_dom st src" and "\<not> q_ro st dest"
    and src: "terminated m src k" "accessible B src (k + 1) src"
    and dest: "terminated m dest l" "accessible B dest (l + 1) dest"
    and ap: "apart src (k + 1) dest (l + k + 1)" and fit: "unat dest + (l + k + 1) < 2 ^ 64" and "src \<noteq> 0"
  shows "\<exists>m'. builtin_strncat (q_api e) dest src (- 1) m st = Some (Inr (dest, m')) \<and>
    (\<forall>j\<le>k. m' (dest + of_nat (l + j)) = m (src + of_nat j))"
proof -
  note fs = accessible_fits [OF assms(2) src(2)] and fd = accessible_fits [OF assms(2) dest(2)]
  obtain p n where p: "B p = Some n" "inside p n dest" "unat (dest - p) + (l + 1) \<le> n"
    using dest(2) unfolding accessible_def by blast
  note av = available [OF assms(2) p(1,2)]
  have room: "(of_nat l :: u64) \<le> of_nat n - (dest - p)"
    unfolding av(1) using av(4) p(3) fd(2) by (simp add: word_le_nat_alt unat_of_nat_64)
  have o: "src + - 1 \<le> dest \<or> dest + of_nat l \<le> src"
  proof -
    have "unat (src + - 1) = unat src - 1" using assms(12) unat_minus_one [of src] by simp
    moreover have "unat (dest + of_nat l) = unat dest + l" using fd by (simp add: unat_add_64 unat_of_nat_64)
    ultimately show ?thesis using ap by (auto simp: apart_def word_le_nat_alt)
  qed
  have big: "unat (- 1 :: u64) = 2 ^ 64 - 1" by (rule unat_minus_1_64)
  have run: "builtin_strncat (q_api e) dest src (- 1) m st = call (strncat dest src (- 1) m)"
    using validate_string_ok [OF assms(1,2,4) src, of False] validate_string_ok [OF assms(1-3) dest, of True] assms(5)
      q_length [OF assms(1,2) p(1,2)] q_offset [OF assms(1,2) p(1,2)] room o
    by (simp add: builtin_strncat_def validate_allocated_string_def validate_writeable_string_def
        validate_overlapping_spaces_def disjoint_spaces_def Let_def)
  have ne: "src + of_nat x \<noteq> dest + of_nat l + of_nat y" if "x < k + 1" "y < k + 1" for x y
    using apart_distinct [OF ap fs(1) fit, of x "l + y"] that by (simp add: add.assoc)
  have "strncat_loop (dest + of_nat l) src (unat (- 1 :: u64)) 0 m = (memcpy_up (dest + of_nat l) src k 0 m)(dest + of_nat l + of_nat k := 0)"
    using strncat_loop_steps [of k m src 0 "unat (- 1 :: u64)" "dest + of_nat l"] src(1) fs(2) ne
    by (auto simp: terminated_def big)
  moreover have "memcpy_up (dest + of_nat l) src k 0 m (dest + of_nat l + of_nat j) = m (src + of_nat j)" if "j < k" for j
    using memcpy_up_at [of k src 0 "dest + of_nat l" m "dest + of_nat l + of_nat j"] ne that fs(2)
    by (simp add: unat_of_nat_64 algebra_simps)
  moreover have "dest + of_nat l + of_nat j \<noteq> dest + of_nat l + of_nat k" if "j < k" for j
    using that fs(2) by simp
  ultimately show ?thesis
    using run strlen_eq [OF dest(1)] src(1)
    by (auto simp: strncat_def call_def terminated_def le_less add.assoc)
qed

text \<open>\<^verbatim>\<open>strcat\<close> is called when the room suffices and the source does not meet the present destination string.\<close>

lemma strcat_runs:
  assumes "q_env e" and "q_rep st B" and "q_dom st dest" and "q_dom st src" and "\<not> q_ro st dest"
    and src: "terminated m src k" "accessible B src (k + 1) src"
    and dest: "terminated m dest l" "accessible B dest (k + l + 1) dest" and ap: "apart src (k + 1) dest (l + 1)"
  shows "builtin_strcat (q_api e) dest src m st = call (strcat dest src m)"
proof -
  obtain p n where p: "B p = Some n" "inside p n dest" "unat (dest - p) + (k + l + 1) \<le> n"
    using dest(2) unfolding accessible_def by blast
  have dl: "accessible B dest (l + 1) dest"
    using accessible_iff [OF q_separate [OF assms(2)] p(1,2), of "l + 1" dest] p(2,3) by simp
  note fs = accessible_fits [OF assms(2) src(2)] and fd = accessible_fits [OF assms(2) dl]
    and fa = accessible_fits [OF assms(2) dest(2)] and av = available [OF assms(2) p(1,2)]
  have w: "word_of_int (int j + 1) = (of_nat (j + 1) :: u64)" for j by simp
  have need: "word_of_int (int k + int l + 1) = (of_nat (k + l + 1) :: u64)" by simp
  have room: "(of_nat (k + l + 1) :: u64) \<le> of_nat n - (dest - p)"
    unfolding av(1) using av(4) p(3) fa(2) by (simp add: word_le_nat_alt unat_of_nat_64 del: of_nat_add of_nat_Suc)
  have small: "\<not> int k + int l + 1 \<ge> 2 ^ 63" using fa(2) by (simp flip: of_nat_add of_nat_Suc)
  have d: "disjoint_spaces src (of_nat (k + 1)) dest (of_nat (l + 1))"
    using disjoint_spaces_apart [OF fs(1) fd(1)] ap by simp
  have vs: "validate_string (q_api e) m src (- 1) False fn desc st = Some (Inr (int k))" for fn desc
    by (rule validate_string_ok [OF assms(1,2,4) src]) simp
  have vd: "validate_string (q_api e) m dest (- 1) True fn desc st = Some (Inr (int l))" for fn desc
    by (rule validate_string_ok [OF assms(1-3) dest(1) dl]) (simp add: assms(5))
  show ?thesis
    unfolding builtin_strcat_def validate_allocated_string_def validate_writeable_string_def vs vd andthen_simps
      q_length [OF assms(1,2) p(1,2)] q_offset [OF assms(1,2) p(1,2)] validate_overlapping_spaces_def Let_def w need
    by (simp only: small room d if_False if_True not_True_eq_False andthen_simps)
qed

text \<open>\<^verbatim>\<open>memcmp\<close> of an area with itself is refused.\<close>

lemma memcmp_refused:
  assumes "q_env e" and "q_rep st B" and "q_dom st p" and "accessible B p k p" and "0 < k"
  shows "\<exists>msg. builtin_memcmp (q_api e) p p (of_nat k) m st = Some (Inl msg)"
proof -
  note f = accessible_fits [OF assms(2,4)]
  have "\<not> disjoint_spaces p (of_nat k) p (of_nat k)"
    using disjoint_spaces_apart [OF f(1) f(1)] assms(5) by (simp add: apart_def)
  then show ?thesis
    using allocated_space(1) [OF assms(1-3) f(2) assms(4)]
    by (simp add: builtin_memcmp_def validate_overlapping_spaces_def)
qed

lemma strlen_checked:
  assumes "q_env e" and "q_rep st B" and "q_dom st s"
  shows "terminated m s k \<Longrightarrow> accessible B s (k + 1) s \<Longrightarrow> builtin_strlen (q_api e) s m st = Some (Inr (of_nat k))"
    and "(\<And>k. terminated m s k \<Longrightarrow> \<not> accessible B s (k + 1) s) \<Longrightarrow> \<exists>msg. builtin_strlen (q_api e) s m st = Some (Inl msg)"
proof -
  show "builtin_strlen (q_api e) s m st = Some (Inr (of_nat k))" if "terminated m s k" "accessible B s (k + 1) s"
    using validate_string_ok [OF assms that, of False] by (simp add: builtin_strlen_def validate_allocated_string_def)
  show "\<exists>msg. builtin_strlen (q_api e) s m st = Some (Inl msg)" if "\<And>k. terminated m s k \<Longrightarrow> \<not> accessible B s (k + 1) s"
    using validate_string_fails [OF assms, of m False "''strlen''" "''input ''"] that
    by (auto simp: builtin_strlen_def validate_allocated_string_def)
qed

end

section \<open>The bittree model\<close>

definition bt_q_rep :: "'a mm_state_scheme \<Rightarrow> block_map \<Rightarrow> bool" where
  "bt_q_rep s B \<longleftrightarrow> bt_mm_rep s B \<and> (\<forall>p n. B p = Some n \<longrightarrow> n < 2 ^ 63)"

definition bt_ro :: "'a mm_state_scheme \<Rightarrow> u64 \<Rightarrow> bool" where
  "bt_ro s a \<longleftrightarrow> (\<exists>b k. bt_find s a = Some b \<and> b \<noteq> NULL \<and> blocks s b = Some k \<and> b_is_readonly k)"

lemma bt_found:
  assumes "bt_mm_rep s B" and "B p = Some n" and "inside p n a"
  obtains b k where "bt_find s a = Some b" and "b \<noteq> NULL" and "blocks s b = Some k" and "b_ptr k = p" and "b_size k = of_nat n"
    and "bt_ro s a = b_is_readonly k" and "no_wrap k"
proof -
  obtain M where M: "mm_inv s M" "B = bt_sizes s M" "\<forall>b\<in>ran M. \<forall>k. blocks s b = Some k \<longrightarrow> b_size k \<noteq> 0"
    using bt_mm_repE [OF assms(1)] by blast
  obtain b k where h: "holds s M b k a" "b_ptr k = p" "unat (b_size k) = n"
    using rep_holds [OF M(1,3), of a p n] assms(2,3) M(2) by blast
  have bk: "b \<in> ran M" "blocks s b = Some k" using h(1) by (simp_all add: holds_def)
  from M(1) show ?thesis
  proof (cases rule: find_cases [where x = a])
    case none
    then show ?thesis using h(1) by blast
  next
    case (some c l)
    then have "c = b" using holds_unique [OF M(1) h(1)] by metis
    then show ?thesis
      using that [of b k] some(1,2) h bk(2) inv_block(2) [OF M(1) bk] by (auto simp: bt_ro_def)
  qed
qed

lemma bt_allocated_rep:
  assumes "bt_mm_rep s B" and "sz < 2 ^ 63"
  shows "allocated_bt False a (of_nat sz) b s = Some (accessible B a sz b)"
proof -
  obtain M where M: "mm_inv s M" "B = bt_sizes s M" "\<forall>b\<in>ran M. \<forall>k. blocks s b = Some k \<longrightarrow> b_size k \<noteq> 0"
    using bt_mm_repE [OF assms(1)] by blast
  have "allocated_bt False a (of_nat sz) b s = valid_read_bt False a (of_nat sz) b s"
    by (simp add: allocated_bt_def valid_read_bt_def)
  then show ?thesis using valid_read_spec [OF M(1)] rep_accessible [OF M(1,3)] assms(2) M(2) by simp
qed

lemma bt_readonly_rep:
  assumes "bt_mm_rep s B" and "covered B a"
  shows "readonly_bt a s = Some (Inr (bt_ro s a))"
proof -
  obtain p n where "B p = Some n" "inside p n a" using assms(2) by (auto simp: covered_def)
  with assms(1) show ?thesis by (elim bt_found) (auto simp: readonly_bt_def with_block_def)
qed

lemma bt_writeable_rep:
  assumes "bt_mm_rep s B" and "sz < 2 ^ 63"
  shows "writeable_bt False a (of_nat sz) b s = Some (Inr (accessible B a sz b \<and> \<not> bt_ro s a))"
  using bt_allocated_rep [OF assms, of a b] bt_readonly_rep [OF assms(1), of a] accessible_covered [of B a sz b]
  by (cases "accessible B a sz b") (simp_all add: writeable_bt_def)

interpretation btq: checked_memory Not bt_api bt_q_rep bt_dom bt_ro
proof (unfold_locales, goal_cases)
  case (1 st B)
  then show ?case using btm.rep_separate by (auto simp: bt_q_rep_def)
next
  case (2 st B p n)
  then have b: "bt_mm_rep st B" "n < 2 ^ 63" by (auto simp: bt_q_rep_def)
  have "inside p n p" using btm.rep_pos [OF b(1) 2(2)] by simp
  with b(1) 2(2) obtain k where "b_ptr k = p" "b_size k = of_nat n" "no_wrap k" by (rule bt_found) blast
  then show ?case using b(2) by (auto simp: no_wrap_def unat_of_nat_64)
next
  case (3 e st B a sz)
  then show ?case using bt_allocated_rep by (auto simp: bt_api_def bt_q_rep_def)
next
  case (4 e st B a sz)
  then show ?case using bt_writeable_rep by (auto simp: bt_api_def bt_q_rep_def)
next
  case (5 e st B a)
  then show ?case using bt_readonly_rep by (auto simp: bt_api_def bt_q_rep_def)
next
  case (6 e st B p n a)
  then have "bt_mm_rep st B" by (simp add: bt_q_rep_def)
  then show ?case using 6(3,4) by (rule bt_found) (auto simp: bt_api_def block_length_bt_def with_block_def)
next
  case (7 e st B p n a)
  then have "bt_mm_rep st B" by (simp add: bt_q_rep_def)
  then show ?case using 7(3,4) by (rule bt_found) (auto simp: bt_api_def offset_bt_def with_block_def)
qed

section \<open>The segment model\<close>

definition seg_ro :: "'a seg_state_scheme \<Rightarrow> u64 \<Rightarrow> bool" where
  "seg_ro s a = readonly_seg a s"

interpretation segq: checked_memory plain seg_api seg_rep seg_dom seg_ro
proof (unfold_locales, goal_cases)
  case (1 st B)
  then show ?case by (rule seg_repD(2))
next
  case (2 st B p n)
  note t = seg_trackedD [OF seg_repD(3) [OF 2]]
  have "unat (p + of_nat n) = unat p + n" using static_block_on(2) [OF t(1), of n] by simp
  then show ?case using unat_lt_64 [of "p + of_nat n"] t(3) by simp
next
  case (3 e st B a sz)
  then show ?case using rep_allocated [of st B a e sz a] by (simp add: seg_api_def seg_dom_def plain_def)
next
  case (4 e st B a sz)
  then show ?case
    using rep_allocated [of st B a e sz a] by (simp add: seg_api_def seg_dom_def plain_def writeable_seg_def seg_ro_def)
next
  case (5 e st B a)
  then show ?case by (simp add: seg_api_def seg_ro_def)
next
  case (6 e st B p n a)
  then show ?case using rep_predicate [of st B p n a LengthQ] by (simp add: seg_api_def block_length_seg_def predicate_def)
next
  case (7 e st B p n a)
  then show ?case using rep_predicate [of st B p n a OffsetQ] by (simp add: seg_api_def offset_seg_def predicate_def)
qed

end
