(* ===== verification/Segment_Checked.thy ===== *)
theory Segment_Checked
  imports Libc_Replacements_Correct Segment_Heap_Correct
begin

text \<open>
  The checked library over the whole memory of the segment model: the tracked blocks are those of
  the static segments, encoded as in \<^verbatim>\<open>shadow_alloca\<close>, and those of the heap, encoded as in
  \<^verbatim>\<open>set_heap_segment\<close>. A heap block is padded to a multiple of 32 bytes; a pointer into the padding
  is not in the domain, since an access of no bytes there passes for one to the block.
\<close>

definition memory_rep :: "'a seg_state_scheme \<Rightarrow> block_map \<Rightarrow> bool" where
  "memory_rep s B \<longleftrightarrow> (\<exists>S H. seg_rep s S \<and> heap_rep s H \<and> B = S ++ H)"

definition in_padding :: "'a seg_state_scheme \<Rightarrow> u64 \<Rightarrow> bool" where
  "in_padding s a \<longleftrightarrow> (\<exists>H p n. heap_rep s H \<and> H p = Some n \<and> inside p (asz n) a \<and> \<not> inside p n a)"

definition memory_dom :: "'a seg_state_scheme \<Rightarrow> u64 \<Rightarrow> bool" where
  "memory_dom s a \<longleftrightarrow> (IS_ON_HEAP (layout s) a \<longrightarrow> heap_addr (layout s) a) \<and> \<not> in_padding s a"

lemma inside_asz: "inside p n a \<Longrightarrow> inside p (asz n) a"
  using asz_bounds(1) [of n] by (simp add: inside_def)

lemma static_off_heap:
  assumes "seg_rep s S" and "S p = Some n" and "inside p n a"
  shows "\<not> IS_ON_HEAP (layout s) a"
  using static_not_heap [OF seg_repD(1) [OF assms(1)]]
    inside_static(1) [OF seg_trackedD(1) [OF seg_repD(3) [OF assms(1,2)]] assms(3)] by blast

lemma heap_block_on:
  assumes "heap_rep s H" and "H p = Some n" and "inside p (asz n) a"
  shows "IS_ON_HEAP (layout s) a"
proof -
  note b = heap_blockD [OF heap_trackedD(1) [OF heap_repD(3) [OF assms(1,2)]]]
  have "unat (a - p) < asz n" using assms(3) by (simp add: inside_def)
  then have "unat a = unat p + unat (a - p)" using b(7) unat_add_64 [of p "a - p"] by simp
  then have "heap_addr (layout s) a"
    using b(5,6) \<open>unat (a - p) < asz n\<close> by (simp add: heap_addr_def word_le_nat_alt word_less_nat_alt)
  then show ?thesis by (rule heap_addr_on)
qed

lemma heap_base_on: "heap_rep s H \<Longrightarrow> H p = Some n \<Longrightarrow> IS_ON_HEAP (layout s) p"
  using heap_block_on heap_base_covered(1) by blast

lemma static_base_off: "seg_rep s S \<Longrightarrow> S p = Some n \<Longrightarrow> \<not> IS_ON_HEAP (layout s) p"
  using static_off_heap [of s S p n p] seg_trackedD(2) seg_repD(3) by fastforce

lemma union_static:
  assumes "seg_rep s S" and "heap_rep s H" and "S p = Some n"
  shows "(S ++ H) p = Some n"
  using static_base_off [OF assms(1,3)] heap_base_on [OF assms(2)] assms(3) by (cases "H p") (auto simp: map_add_Some_iff)

lemma union_cases:
  assumes "seg_rep s S" and "heap_rep s H" and "(S ++ H) p = Some n"
  shows "S p = Some n \<or> H p = Some n"
  using assms(3) by (auto simp: map_add_Some_iff)

text \<open>The map decides accesses off the heap by its static part and on the heap by its heap part.\<close>

lemma accessible_off_heap:
  assumes "seg_rep s S" and "heap_rep s H" and "\<not> IS_ON_HEAP (layout s) a"
  shows "accessible (S ++ H) a sz a \<longleftrightarrow> accessible S a sz a"
  unfolding accessible_def
  using union_cases [OF assms(1,2)] union_static [OF assms(1,2)] heap_block_on [OF assms(2) _ inside_asz] assms(3) by metis

lemma accessible_on_heap:
  assumes "seg_rep s S" and "heap_rep s H" and "IS_ON_HEAP (layout s) a" and "\<not> in_padding s a"
  shows "accessible (S ++ H) a sz a \<longleftrightarrow> heap_accessible H a sz a"
proof -
  have p: "inside p n a" if "H p = Some n" "inside p (asz n) a" for p n
    using assms(2,4) that unfolding in_padding_def by blast
  show ?thesis
    unfolding accessible_def heap_accessible_def
    using union_cases [OF assms(1,2)] static_off_heap [OF assms(1)] assms(3) p inside_asz map_add_find_right by metis
qed

lemma memory_allocated:
  assumes "plain bld" and "memory_rep s B" and "memory_dom s a" and "sz < 2 ^ 63"
  shows "allocated_seg bld a (of_nat sz) a s = Some (accessible B a sz a)"
proof -
  have w: "\<not> weak_validity bld" using assms(1) by (simp add: plain_def)
  obtain S H where r: "seg_rep s S" "heap_rep s H" "B = S ++ H" using assms(2) by (auto simp: memory_rep_def)
  show ?thesis
  proof (cases "IS_ON_HEAP (layout s) a")
    case True
    then have d: "heap_addr (layout s) a" "\<not> in_padding s a" using assms(3) by (simp_all add: memory_dom_def)
    show ?thesis
      using rep_heap_allocated [OF r(2) d(1,1) w assms(4)] accessible_on_heap [OF r(1,2) True d(2)] True r(3)
      by (simp add: allocated_seg_def TRY_SEGMENT_WEAK_def)
  next
    case False
    then show ?thesis using rep_allocated [OF r(1) False w assms(4)] accessible_off_heap [OF r(1,2) False] r(3) by simp
  qed
qed

lemma memory_predicate:
  assumes "memory_rep s B" and "B p = Some n" and "inside p n a"
  shows "predicate a q s = Some (Inr (case q of BaseQ \<Rightarrow> p | OffsetQ \<Rightarrow> a - p | LengthQ \<Rightarrow> of_nat n))"
proof -
  obtain S H where r: "seg_rep s S" "heap_rep s H" "B = S ++ H" using assms(1) by (auto simp: memory_rep_def)
  then consider "S p = Some n" | "H p = Some n" using union_cases [OF r(1,2)] assms(2) by blast
  then show ?thesis
  proof cases
    case 1
    then show ?thesis using rep_predicate [OF r(1) _ assms(3)] by blast
  next
    case 2
    note i = inside_asz [OF assms(3)]
    show ?thesis
      using rep_heap_info [OF r(2) 2 i] heap_block_on [OF r(2) 2 i]
      by (simp add: predicate_def TRY_SEGMENT_def TRY_SEGMENT_WEAK_def)
  qed
qed

interpretation memq: checked_memory plain seg_api memory_rep memory_dom seg_ro
proof (unfold_locales, goal_cases)
  case (1 st B)
  then obtain S H where r: "seg_rep st S" "heap_rep st H" "B = S ++ H" by (auto simp: memory_rep_def)
  show ?case
    unfolding separate_def r(3)
    using union_cases [OF r(1,2)] separateD [OF seg_repD(2) [OF r(1)]] heap_sep [OF r(2)] inside_asz
      static_off_heap [OF r(1)] heap_block_on [OF r(2)] by metis
next
  case (2 st B p n)
  then obtain S H where r: "seg_rep st S" "heap_rep st H" "B = S ++ H" by (auto simp: memory_rep_def)
  then consider "S p = Some n" | "H p = Some n" using union_cases [OF r(1,2)] 2(2) by blast
  then show ?case
  proof cases
    case 1
    then show ?thesis using segq.q_bound [OF r(1)] by blast
  next
    case 2
    show ?thesis using heap_blockD [OF heap_trackedD(1) [OF heap_repD(3) [OF r(2) 2]]] asz_bounds(1) [of n] by simp
  qed
next
  case (3 e st B a sz)
  then show ?case using memory_allocated by (simp add: seg_api_def)
next
  case (4 e st B a sz)
  then show ?case using memory_allocated [OF 4] by (simp add: seg_api_def writeable_seg_def seg_ro_def)
next
  case (5 e st B a)
  then show ?case by (simp add: seg_api_def seg_ro_def)
next
  case (6 e st B p n a)
  then show ?case using memory_predicate [OF 6(2-4), of LengthQ] by (simp add: seg_api_def block_length_seg_def predicate_def)
next
  case (7 e st B p n a)
  then show ?case using memory_predicate [OF 7(2-4), of OffsetQ] by (simp add: seg_api_def offset_seg_def predicate_def)
qed

section \<open>Allocation\<close>

text \<open>\<^verbatim>\<open>malloc\<close> adds a block of the heap and leaves the static blocks alone.\<close>

lemma seg_rep_frame:
  assumes rep: "seg_rep s S" and L: "layout s' = layout s"
    and m: "\<And>a. IS_ON_STATIC (layout s) a \<Longrightarrow> seg_mem s' (PRIMARY_SHADOW (layout s) a) = seg_mem s (PRIMARY_SHADOW (layout s) a)"
    and m2: "\<And>a. IS_ON_STATIC (layout s) a \<Longrightarrow> seg_mem s' (SECONDARY_SHADOW (layout s) a) = seg_mem s (SECONDARY_SHADOW (layout s) a)"
  shows "seg_rep s' S"
proof -
  note r = seg_repD [OF rep]
  have "seg_tracked s' p n" if "S p = Some n" for p n
  proof -
    note t = seg_trackedD [OF r(3) [OF that]]
    have "encoded (seg_mem s') (PRIMARY_SHADOW (layout s) p) (SECONDARY_SHADOW (layout s) p) n"
      by (rule encoded_cong [OF t(4)])
        (use static_block_shadow [OF r(1) t(1)] static_block_on(1) [OF t(1)] m m2 less_imp_le in metis)+
    then show ?thesis using t L by (simp add: seg_tracked_def)
  qed
  then show ?thesis using r m unfolding seg_rep_def L by auto
qed

lemma static_shadow_off_heap:
  assumes "layout_ok L" and "IS_ON_STATIC L a"
  shows "\<not> IS_ON (PRIMARY_SHADOW L a) (primary (lay_heap L))" and "\<not> IS_ON (SECONDARY_SHADOW L a) (primary (lay_heap L))"
proof -
  have h: "primary (lay_heap L) = all_segments L ! 1" by (simp add: all_segments_def)
  have s: "static_pos L a \<ge> 3" by (simp add: static_pos_def)
  note d = layout_ok_disjoint [OF assms(1)] and on = static_shadow_on [OF assms] and l = static_pos_less [of L a]
  show "\<not> IS_ON (PRIMARY_SHADOW L a) (primary (lay_heap L))" using d [OF on(1), of 1] s l unfolding h by auto
  show "\<not> IS_ON (SECONDARY_SHADOW L a) (primary (lay_heap L))" using d [OF on(2), of 1] s l unfolding h by auto
qed

lemma heap_mem_shadow:
  assumes "heap_block L p n" and "heap_mem L p n m a \<noteq> m a"
  shows "inside (HEAP_SHADOW L p) (asz n) a"
proof -
  have "x < asz n" if "x div 32 < asz n div 32" for x using that asz_32(3) [of n] by linarith
  then show ?thesis
    using assms(2) heap_blockD(8) [OF assms(1)] unfolding heap_mem_at [OF assms(1)] inside_def by (auto split: if_splits)
qed

lemma memory_malloc:
  assumes rep: "memory_rep s B" and run: "mspaces_run s" and bld: "\<not> temporal (rt_build E)"
    and pa: "public_malloc pa s (of_nat (asz n)) = p" and bl: "heap_block (layout s) p n"
    and ap: "\<And>H. heap_rep s H \<Longrightarrow> apart_from (heap_sizes H) p (asz n)"
    and least: "heap_mspace_least (spaces s) = mspace_least_addr (rt_mspaces E) (heap_mspace (spaces s))"
    and room: "p + of_nat (asz n) < heap_end (spaces s)"
  shows "\<exists>s'. malloc_seg E pa (of_nat n) s = Inr (p, s') \<and> memory_rep s' (B(p \<mapsto> n))"
proof -
  obtain S H where r: "seg_rep s S" "heap_rep s H" "B = S ++ H" using rep by (auto simp: memory_rep_def)
  note L = heap_repD(1) [OF r(2)]
  define s' where "s' = s\<lparr>seg_stats := update_heap_allocation (of_nat n) (seg_stats s), seg_mem := heap_mem (layout s) p n (seg_mem s)\<rparr>"
  note m = malloc_rep [OF r(2) run bld pa bl ap [OF r(2)] least room, folded s'_def]
  have off: "heap_mem (layout s) p n (seg_mem s) a = seg_mem s a" if "\<not> IS_ON a (primary (lay_heap (layout s)))" for a
    using heap_mem_shadow [OF bl] block_shadow_on [OF L bl] that by blast
  have "seg_rep s' S"
    by (rule seg_rep_frame [OF r(1)]) (simp_all add: s'_def off static_shadow_off_heap [OF L])
  then have "memory_rep s' (B(p \<mapsto> n))" using m(2) r(3) unfolding memory_rep_def by (metis map_add_upd)
  then show ?thesis using m(1) by blast
qed

end
