(* ===== verification/Libc_Replacements_Props.thy ===== *)
theory Libc_Replacements_Props
  imports Segment_Checked Bittree_Props Segment_Heap_Props
begin

text \<open>
  The properties of the checked library functions, each for the library compiled with the bittree
  model and with the segment model, over states that track the same blocks.
\<close>

section \<open>Concrete states\<close>

text \<open>A bittree that tracks one writable block.\<close>

definition ex_single :: "u64 \<Rightarrow> u64 \<Rightarrow> mm_state" where
  "ex_single p n = \<lparr>nodes = [7 \<mapsto> node_of NULL (Lf 7 p 1)], blocks = [1 \<mapsto> ex_block p n], bt_root = 7,
     stats = \<lparr>heap_allocation_size = 0, heap_allocated_blocks = 0\<rparr>\<rparr>"

lemma ex_single_rep:
  assumes "p \<noteq> 0" and "0 < unat n" and "unat n < 2 ^ 63" and "unat p + unat n < 2 ^ 64" and "init_ok (ex_block p n)"
  shows "bt_q_rep (ex_single p n) [p \<mapsto> unat n]"
proof -
  have r: "ran [p \<mapsto> 1] = {1 :: loc}" by auto
  have b [simp]: "blocks (ex_single p n) 1 = Some (ex_block p n)" "blocks (ex_single p n) (Suc 0) = Some (ex_block p n)"
    by (simp_all add: ex_single_def)
  have "bt_index (ex_single p n) [p \<mapsto> 1]"
    unfolding bt_index_def
    by (intro exI [of _ "Some (Lf 7 p 1)"]) (simp add: bt_rep_def ex_single_def leaf_blocks_def)
  moreover have "bt_apart (ex_single p n) [p \<mapsto> 1]"
    unfolding bt_apart_def blocks_apart_def r using assms(4) by (simp add: no_wrap_def)
  ultimately have "mm_inv (ex_single p n) [p \<mapsto> 1]" using assms(1,5) unfolding mm_inv_def r by simp
  moreover have "bt_sizes (ex_single p n) [p \<mapsto> 1] = [p \<mapsto> unat n]" by (auto simp: bt_sizes_def)
  moreover have "n \<noteq> 0" using assms(2) by auto
  ultimately have "bt_mm_rep (ex_single p n) [p \<mapsto> unat n]"
    unfolding bt_mm_rep_def by (intro exI [of _ "[p \<mapsto> 1]"]) (simp add: r)
  then show ?thesis using assms(3) by (simp add: bt_q_rep_def)
qed

text \<open>A block of 24 bytes, as in \<^const>\<open>ex_seg1\<close>.\<close>

definition ex_mm1 :: mm_state where "ex_mm1 = ex_single 0x110040 24"

lemma ex_mm1_rep: "bt_q_rep ex_mm1 [0x110040 \<mapsto> 24]"
  using ex_single_rep [of "0x110040" 24] by (simp add: ex_mm1_def init_ok_def needed_bytes_def)

lemma ex_writable: "\<not> bt_ro ex_mm1 a" "\<not> seg_ro ex_seg1 0x110040" "\<not> seg_ro ex_seg1 0x110050" "\<not> seg_ro ex_seg1 0x110041"
  by (auto simp: bt_ro_def ex_mm1_def ex_single_def seg_ro_def readonly_seg_def ex_seg1_layout IS_ON_GLOBAL_def IS_ON_def
      ex_layout_def ex_partition_def ex_app_def set_application_segment_def split: if_splits)

lemma ex_domain: "seg_dom ex_seg1 0x110040" "seg_dom ex_seg1 0x110050" "seg_dom ex_seg1 0x110041"
  by (simp_all add: seg_dom_def ex_seg1_layout IS_ON_HEAP_def IS_ON_def ex_layout_def ex_partition_def ex_app_def
      set_application_segment_def)

lemma ex_access: "i + k \<le> 24 \<Longrightarrow> i < 24 \<Longrightarrow> accessible [0x110040 \<mapsto> 24] (0x110040 + of_nat i) k (0x110040 + of_nat i)"
  unfolding accessible_def by (intro exI [of _ "0x110040"] exI [of _ 24]) (simp add: inside_def unat_of_nat_64)

text \<open>Ten letters at the start of the block, zero bytes elsewhere.\<close>

definition ex_letters :: mem where
  "ex_letters a = (if unat (a - 0x110040) < 10 then 65 else 0)"

lemma ex_letters_string: "terminated ex_letters 0x110040 10" "terminated ex_letters 0x110050 0"
  by (auto simp: terminated_def ex_letters_def unat_of_nat_64)

text \<open>The heap after \<^verbatim>\<open>malloc(40)\<close>.\<close>

lemma ex_tracked_memory: "memory_rep ex_tracked [0x100040 \<mapsto> 40]"
proof -
  have "\<exists>s'. malloc_seg ex_env ex_heap_alloc (of_nat 40) ex_seg = Inr (0x100040, s') \<and> memory_rep s' (Map.empty(0x100040 \<mapsto> 40))"
  proof (rule memory_malloc)
    show "memory_rep ex_seg Map.empty"
      unfolding memory_rep_def using ex_empty_rep ex_heap_rep by (intro exI [of _ Map.empty]) simp
    show "apart_from (heap_sizes H) 0x100040 (asz 40)" if "heap_rep ex_seg H" for H
    proof -
      have "load64 (\<lambda>_. 0) a = 0" for a by (rule bit_word_eqI) simp
      then have "H p = None" for p
        using heap_word [OF that _ heap_base_covered(1) [OF that]] heap_base_covered(3) [OF that]
        by (cases "H p") (auto simp: ex_seg_def)
      then have "H = Map.empty" by auto
      then show ?thesis using ex_heap_apart by simp
    qed
  qed (use ex_heap_block in \<open>simp_all add: ex_env_def ex_build_def ex_seg_def ex_heap_alloc_def asz_40\<close>)
  then show ?thesis using ex_tracked(1) by auto
qed

lemma ex_tracked_domain:
  assumes "inside 0x100040 40 a"
  shows "memory_dom ex_tracked a"
proof -
  have "\<not> in_padding ex_tracked a"
  proof
    assume "in_padding ex_tracked a"
    then obtain H p n where h: "heap_rep ex_tracked H" "H p = Some n" "inside p (asz n) a" "\<not> inside p n a"
      by (auto simp: in_padding_def)
    have "heap_info a BaseQ ex_tracked = p" "heap_info a LengthQ ex_tracked = of_nat n"
      using rep_heap_info [OF h(1-3)] by simp_all
    moreover have "heap_info a BaseQ ex_tracked = 0x100040" "heap_info a LengthQ ex_tracked = of_nat 40"
      using rep_heap_info [OF ex_tracked(2) fun_upd_same inside_asz [OF assms]] by simp_all
    moreover have "n < 2 ^ 62" using heap_blockD(4) [OF heap_trackedD(1) [OF heap_repD(3) [OF h(1,2)]]] .
    ultimately have "p = 0x100040" "n = 40" using unat_of_nat_64 [of n] by auto
    then show False using h(4) assms by simp
  qed
  moreover have "IS_ON_HEAP ex_layout a \<longrightarrow> heap_addr ex_layout a"
  proof -
    have "unat (a - 0x100040) < 40" using assms by (simp add: inside_def)
    then have "unat (0x100040 + (a - 0x100040)) = 0x100040 + unat (a - 0x100040)" by (subst unat_add_64) simp_all
    then have "unat a = 0x100040 + unat (a - 0x100040)" by simp
    then show ?thesis using \<open>unat (a - 0x100040) < 40\<close>
      by (simp add: heap_addr_def HEAP_START_def ex_layout_def ex_partition_def ex_app_def set_application_segment_def
          word_le_nat_alt word_less_nat_alt)
  qed
  ultimately show ?thesis by (simp add: memory_dom_def ex_tracked(3))
qed

section \<open>Properties\<close>

text \<open>
  The checked \<^verbatim>\<open>strlen\<close> returns exactly on the strings that lie, terminator included, in one
  tracked block; it returns the length that \<^verbatim>\<open>strlen\<close> computes, with either memory model. On any
  other argument it aborts, in particular it never reads an untracked byte.
\<close>

theorem builtin_strlen_correct:
  assumes "bt_q_rep t B" and "seg_rep s B" and "plain bld" and "seg_dom s p"
  shows "(terminated m p k \<and> accessible B p (k + 1) p \<longrightarrow>
      builtin_strlen (bt_api False) p m t = Some (Inr (of_nat k)) \<and>
      builtin_strlen (seg_api bld) p m s = Some (Inr (of_nat k)) \<and> strlen p m = Some (of_nat k)) \<and>
    ((\<nexists>k. terminated m p k \<and> accessible B p (k + 1) p) \<longrightarrow>
      (\<exists>msg. builtin_strlen (bt_api False) p m t = Some (Inl msg)) \<and>
      (\<exists>msg. builtin_strlen (seg_api bld) p m s = Some (Inl msg)))"
proof -
  have e: "\<not> False" and d: "bt_dom t p" by (simp_all add: bt_dom_def)
  show ?thesis
    using btq.strlen_checked [OF e assms(1) d, of m] segq.strlen_checked [OF assms(3,2,4), of m] strlen_eq by blast
qed

theorem builtin_strlen_correct_witness:
  "builtin_strlen (bt_api False) 0x110040 ex_letters ex_mm1 = Some (Inr 10) \<and>
    builtin_strlen (seg_api ex_build) 0x110040 ex_letters ex_seg1 = Some (Inr 10)"
proof -
  have "accessible [0x110040 \<mapsto> 24] 0x110040 (10 + 1) 0x110040" using ex_access [of 0 "10 + 1"] by simp
  then have "terminated ex_letters 0x110040 10 \<and> accessible [0x110040 \<mapsto> 24] 0x110040 (10 + 1) 0x110040"
    using ex_letters_string(1) by (rule conjI [rotated])
  with builtin_strlen_correct [OF ex_mm1_rep ex_seg1_rep ex_plain ex_domain(1), of ex_letters 10] show ?thesis
    by simp
qed

text \<open>
  C24: the checked \<^verbatim>\<open>memcpy\<close> of fewer than \<open>2^63\<close> bytes returns exactly if the source lies in one
  tracked block, the destination in one that is writable, and the two areas do not meet; then it
  copies the bytes and changes nothing else. Otherwise it aborts. This holds with the bittree model
  and with the segment model, both built without temporal analysis and weak validity, for blocks of
  static memory and of the heap. In the segment model the two pointers are not in the padding of a
  heap block, where a copy of no bytes passes for one inside the block.
\<close>

theorem builtin_memcpy_correct:
  assumes "bt_q_rep t B" and "memory_rep s B" and "plain bld" and "memory_dom s dest" and "memory_dom s src"
    and "k < 2 ^ 63" and "bt_ro t dest = ro" and "seg_ro s dest = ro"
  shows "if accessible B src k src \<and> accessible B dest k dest \<and> \<not> ro \<and> apart src k dest k
    then \<forall>r \<in> {builtin_memcpy (bt_api False) dest src (of_nat k) m t, builtin_memcpy (seg_api bld) dest src (of_nat k) m s}.
      \<exists>m'. r = Some (Inr (dest, m')) \<and> (\<forall>a. m' a = (if inside dest k a then m (src + (a - dest)) else m a))
    else \<forall>r \<in> {builtin_memcpy (bt_api False) dest src (of_nat k) m t, builtin_memcpy (seg_api bld) dest src (of_nat k) m s}.
      \<exists>msg. r = Some (Inl msg)"
proof -
  have e: "\<not> False" and d: "bt_dom t dest" "bt_dom t src" by (simp_all add: bt_dom_def)
  note bt = btq.memcpy_checked [OF e assms(1) d assms(6), of m, unfolded assms(7)]
    and seg = memq.memcpy_checked [OF assms(3,2,4,5,6), of m, unfolded assms(8)]
  show ?thesis
  proof (cases "accessible B src k src \<and> accessible B dest k dest \<and> \<not> ro \<and> apart src k dest k")
    case True
    then show ?thesis using bt(1) seg(1) by (subst if_P) simp_all
  next
    case False
    then show ?thesis using bt(2) seg(2) by (subst if_not_P) simp_all
  qed
qed

text \<open>In the heap block of 40 bytes: eight bytes are copied; a copy that would leave the block aborts.\<close>

theorem builtin_memcpy_correct_witness:
  "(\<exists>m'. builtin_memcpy (seg_api ex_build) 0x100050 0x100040 8 (\<lambda>_. 65) ex_tracked = Some (Inr (0x100050, m')) \<and> m' 0x100057 = 65) \<and>
   (\<exists>msg. builtin_memcpy (seg_api ex_build) 0x100050 0x100040 32 (\<lambda>_. 65) ex_tracked = Some (Inl msg))"
proof -
  have B: "bt_q_rep (ex_single 0x100040 40) [0x100040 \<mapsto> 40]" using ex_single_rep [of "0x100040" 40] by (simp add: init_ok_def needed_bytes_def)
  have d: "memory_dom ex_tracked 0x100050" "memory_dom ex_tracked 0x100040"
    by (rule ex_tracked_domain, simp add: inside_def)+
  have ro: "bt_ro (ex_single 0x100040 40) 0x100050 = False" "seg_ro ex_tracked 0x100050 = False"
    by (auto simp: bt_ro_def ex_single_def seg_ro_def readonly_seg_def ex_tracked(3) IS_ON_GLOBAL_def IS_ON_def
        ex_layout_def ex_partition_def ex_app_def set_application_segment_def split: if_splits)
  have acc: "accessible [0x100040 \<mapsto> 40] 0x100040 8 0x100040" "accessible [0x100040 \<mapsto> 40] 0x100050 8 0x100050"
    "\<not> accessible [0x100040 \<mapsto> 40] 0x100050 32 0x100050"
    by (auto simp: accessible_def inside_def split: if_splits)
  have ap: "apart 0x100040 8 0x100050 8" by (simp add: apart_def)
  note c = builtin_memcpy_correct [OF B ex_tracked_memory ex_plain d _ ro]
  show ?thesis using c [of 8 "\<lambda>_. 65"] c [of 32 "\<lambda>_. 65"] acc ap by auto
qed

text \<open>
  The checked \<^verbatim>\<open>strcpy\<close> returns exactly if the source is a string inside one tracked block and
  the string with its terminator fits the writable block of the destination, apart from the source;
  then it copies the string and its terminator and changes nothing else. Otherwise it aborts, with
  either memory model.
\<close>

theorem builtin_strcpy_correct:
  assumes "bt_q_rep t B" and "seg_rep s B" and "plain bld" and "seg_dom s dest" and "seg_dom s src"
    and "bt_ro t dest = ro" and "seg_ro s dest = ro"
    and "r \<in> {builtin_strcpy (bt_api False) dest src m t, builtin_strcpy (seg_api bld) dest src m s}"
  shows "(\<exists>k m'. terminated m src k \<and> accessible B src (k + 1) src \<and> accessible B dest (k + 1) dest \<and> \<not> ro \<and>
        apart src (k + 1) dest (k + 1) \<and> r = Some (Inr (dest, m')) \<and>
        (\<forall>a. m' a = (if inside dest (k + 1) a then m (src + (a - dest)) else m a))) \<or>
    (\<nexists>k. terminated m src k \<and> accessible B src (k + 1) src \<and> accessible B dest (k + 1) dest \<and> \<not> ro \<and>
        apart src (k + 1) dest (k + 1)) \<and> (\<exists>msg. r = Some (Inl msg))"
proof -
  have e: "\<not> False" and d: "bt_dom t dest" "bt_dom t src" by (simp_all add: bt_dom_def)
  note bt = btq.strcpy_checked [OF e assms(1) d, of m, unfolded assms(6)]
    and seg = segq.strcpy_checked [OF assms(3,2,4,5), of m, unfolded assms(7)]
  show ?thesis
  proof (cases "\<exists>k. terminated m src k \<and> accessible B src (k + 1) src \<and> accessible B dest (k + 1) dest \<and> \<not> ro \<and>
        apart src (k + 1) dest (k + 1)")
    case True
    then show ?thesis using bt(1) seg(1) assms(8) by blast
  next
    case False
    then show ?thesis using bt(2) seg(2) assms(8) by blast
  qed
qed

theorem builtin_strcpy_correct_witness:
  "\<exists>msg. builtin_strcpy (seg_api ex_build) 0x110050 0x110040 ex_letters ex_seg1 = Some (Inl msg)"
proof -
  have "\<not> accessible [0x110040 \<mapsto> 24] 0x110050 11 0x110050"
    by (auto simp: accessible_def inside_def split: if_splits)
  then have "\<nexists>k. terminated ex_letters 0x110040 k \<and> accessible [0x110040 \<mapsto> 24] 0x110050 (k + 1) 0x110050"
    using terminated_unique [OF ex_letters_string(1)] by fastforce
  then show ?thesis
    using builtin_strcpy_correct [OF ex_mm1_rep ex_seg1_rep ex_plain ex_domain(2,1), of False
        "builtin_strcpy (seg_api ex_build) 0x110050 0x110040 ex_letters ex_seg1" ex_letters] ex_writable
    by blast
qed

text \<open>
  The size checks wrap around. With the count \<^verbatim>\<open>SIZE_MAX\<close> the checked \<^verbatim>\<open>strncat\<close> accepts any two
  strings that are apart and appends the whole source, also when it does not fit the block of the
  destination: the bytes behind the block are overwritten. In the segment model the checked
  \<^verbatim>\<open>memset\<close> of \<open>2^64 - i\<close> bytes at offset \<open>i\<close> of a writable block is accepted too.
\<close>

theorem size_checks_wrap:
  assumes "bt_q_rep t B" and "seg_rep s B" and "plain bld" and "seg_dom s dest" and "seg_dom s src"
    and "\<not> bt_ro t dest" and "\<not> seg_ro s dest" and "terminated m src k" and "accessible B src (k + 1) src"
    and "terminated m dest l" and "accessible B dest (l + 1) dest" and "apart src (k + 1) dest (l + k + 1)"
    and "unat dest + (l + k + 1) < 2 ^ 64" and "src \<noteq> 0" and "B p = Some n" and "dest = p + of_nat i" and "0 < i" and "i < n"
  shows "(\<exists>m'. builtin_strncat (bt_api False) dest src (- 1) m t = Some (Inr (dest, m')) \<and>
      (\<forall>j\<le>k. m' (dest + of_nat (l + j)) = m (src + of_nat j))) \<and>
    (\<exists>m'. builtin_strncat (seg_api bld) dest src (- 1) m s = Some (Inr (dest, m')) \<and>
      (\<forall>j\<le>k. m' (dest + of_nat (l + j)) = m (src + of_nat j))) \<and>
    builtin_memset (seg_api bld) dest c (- of_nat i) m s = Some (Inr (memset dest c (- of_nat i) m))"
proof (intro conjI)
  have e: "\<not> False" and d: "bt_dom t dest" "bt_dom t src" by (simp_all add: bt_dom_def)
  show "\<exists>m'. builtin_strncat (bt_api False) dest src (- 1) m t = Some (Inr (dest, m')) \<and>
      (\<forall>j\<le>k. m' (dest + of_nat (l + j)) = m (src + of_nat j))"
    by (rule btq.strncat_unchecked [OF e assms(1) d assms(6,8-14)])
  show "\<exists>m'. builtin_strncat (seg_api bld) dest src (- 1) m s = Some (Inr (dest, m')) \<and>
      (\<forall>j\<le>k. m' (dest + of_nat (l + j)) = m (src + of_nat j))"
    by (rule segq.strncat_unchecked [OF assms(3,2,4,5,7-14)])
  have "allocated_seg bld dest (- of_nat i) dest s = Some True"
    unfolding assms(16) by (rule allocated_size_wraps [OF assms(2,15,17,18)])
  then show "builtin_memset (seg_api bld) dest c (- of_nat i) m s = Some (Inr (memset dest c (- of_nat i) m))"
    using assms(7)
    by (simp add: builtin_memset_def validate_writeable_space_def seg_api_def writeable_seg_def seg_ro_def call_def)
qed

theorem size_checks_wrap_witness:
  "\<exists>m'. builtin_strncat (seg_api ex_build) 0x110050 0x110040 (- 1) ex_letters ex_seg1 = Some (Inr (0x110050, m')) \<and>
    m' 0x110059 = 65 \<and> \<not> covered [0x110040 \<mapsto> 24] 0x110059"
proof -
  have a: "accessible [0x110040 \<mapsto> 24] 0x110040 (10 + 1) 0x110040" "accessible [0x110040 \<mapsto> 24] 0x110050 (0 + 1) 0x110050"
    using ex_access [of 0 11] ex_access [of 16 1] by simp_all
  have ap: "apart 0x110040 (10 + 1) 0x110050 (0 + 10 + 1)" by (simp add: apart_def)
  have fit: "unat (0x110050 :: u64) + (0 + 10 + 1) < 2 ^ 64" "(0x110040 :: u64) \<noteq> 0" "[0x110040 \<mapsto> 24] 0x110040 = Some 24"
    "(0x110050 :: u64) = 0x110040 + of_nat 16" "(0 :: nat) < 16" "(16 :: nat) < 24"
    by simp_all
  obtain m' where "builtin_strncat (seg_api ex_build) 0x110050 0x110040 (- 1) ex_letters ex_seg1 = Some (Inr (0x110050, m'))"
      "\<forall>j\<le>10. m' (0x110050 + of_nat (0 + j)) = ex_letters (0x110040 + of_nat j)"
    using size_checks_wrap [OF ex_mm1_rep ex_seg1_rep ex_plain ex_domain(2,1) ex_writable(1,3) ex_letters_string(1) a(1)
        ex_letters_string(2) a(2) ap fit] by blast
  moreover from this(2) have "m' (0x110050 + of_nat (0 + 9)) = ex_letters (0x110040 + of_nat 9)" by (rule allE [of _ 9]) simp
  ultimately show ?thesis by (simp add: ex_letters_def covered_def inside_def)
qed

text \<open>
  The overlap checks are not those of the standard. \<^verbatim>\<open>memcmp\<close>, whose arguments may overlap, is
  refused for an area and itself; \<^verbatim>\<open>strcat\<close>, which must not write over its source, is called when
  the source lies behind the destination string but inside the area the copy will take.
\<close>

theorem overlap_checks_differ:
  assumes "bt_q_rep t B" and "seg_rep s B" and "plain bld" and "seg_dom s dest" and "seg_dom s src"
    and "\<not> bt_ro t dest" and "\<not> seg_ro s dest" and "terminated m src k" and "accessible B src (k + 1) src"
    and "terminated m dest l" and "accessible B dest (k + l + 1) dest"
    and "unat dest + l + 1 \<le> unat src" and "unat src \<le> unat dest + l + k"
  shows "builtin_strcat (bt_api False) dest src m t = call (strcat dest src m) \<and>
    builtin_strcat (seg_api bld) dest src m s = call (strcat dest src m) \<and>
    \<not> apart src (k + 1) (dest + of_nat l) (k + 1) \<and>
    (\<exists>msg. builtin_memcmp (bt_api False) src src (of_nat (k + 1)) m t = Some (Inl msg)) \<and>
    (\<exists>msg. builtin_memcmp (seg_api bld) src src (of_nat (k + 1)) m s = Some (Inl msg))"
proof (intro conjI)
  have e: "\<not> False" and d: "bt_dom t dest" "bt_dom t src" by (simp_all add: bt_dom_def)
  have ap: "apart src (k + 1) dest (l + 1)" using assms(12) by (simp add: apart_def)
  show "builtin_strcat (bt_api False) dest src m t = call (strcat dest src m)"
    by (rule btq.strcat_runs [OF e assms(1) d assms(6,8-11) ap])
  show "builtin_strcat (seg_api bld) dest src m s = call (strcat dest src m)"
    by (rule segq.strcat_runs [OF assms(3,2,4,5,7,8-11) ap])
  have "unat (dest + of_nat l) = unat dest + l"
    using segq.accessible_fits(1) [OF assms(2,11)] by (simp add: unat_add_64 unat_of_nat_64)
  then show "\<not> apart src (k + 1) (dest + of_nat l) (k + 1)" using assms(12,13) by (simp add: apart_def)
  show "\<exists>msg. builtin_memcmp (bt_api False) src src (of_nat (k + 1)) m t = Some (Inl msg)"
    by (rule btq.memcmp_refused [OF e assms(1) d(2) assms(9)]) simp
  show "\<exists>msg. builtin_memcmp (seg_api bld) src src (of_nat (k + 1)) m s = Some (Inl msg)"
    by (rule segq.memcmp_refused [OF assms(3,2,5,9)]) simp
qed

theorem overlap_checks_differ_witness:
  "\<exists>msg. builtin_memcmp (seg_api ex_build) 0x110041 0x110041 2 (\<lambda>a. if a = 0x110041 then 65 else 0) ex_seg1 = Some (Inl msg)"
proof -
  let ?m = "\<lambda>a :: u64. if a = 0x110041 then 65 else 0 :: u8"
  have t: "terminated ?m 0x110041 1" "terminated ?m 0x110040 0" by (auto simp: terminated_def)
  have a: "accessible [0x110040 \<mapsto> 24] 0x110041 (1 + 1) 0x110041" "accessible [0x110040 \<mapsto> 24] 0x110040 (1 + 0 + 1) 0x110040"
    using ex_access [of 1 2] ex_access [of 0 2] by (simp_all add: numeral_2_eq_2)
  show ?thesis
    using overlap_checks_differ [OF ex_mm1_rep ex_seg1_rep ex_plain ex_domain(1,3) ex_writable(1,2) t(1) a(1) t(2) a(2)] by simp
qed

end
