(* ===== verification/Printf_Correct.thy ===== *)
theory Printf_Correct
  imports Printf
begin

text \<open>
  The conversions of \<^verbatim>\<open>e_acsl_printf.h\<close>: the digit loops end and give the positional notation of
  the number, which \<^verbatim>\<open>a2i\<close> reads back; \<^verbatim>\<open>putchw\<close> pads to the field width.
\<close>

section \<open>Positional notation\<close>

fun positional :: "nat \<Rightarrow> nat \<Rightarrow> nat \<Rightarrow> nat list" where
  "positional B 0 N = [N]"
| "positional B (Suc j) N = N div B ^ Suc j # positional B j (N mod B ^ Suc j)"

definition value_of :: "nat \<Rightarrow> nat list \<Rightarrow> nat" where
  "value_of B ds = foldl (\<lambda>v d. v * B + d) 0 ds"

lemma length_positional [simp]: "length (positional B j N) = Suc j"
  by (induction j arbitrary: N) auto

lemma positional_less: "0 < B \<Longrightarrow> N < B ^ Suc j \<Longrightarrow> x \<in> set (positional B j N) \<Longrightarrow> x < B"
proof (induction j arbitrary: N)
  case (Suc j)
  have "N div B ^ Suc j < B" using Suc.prems(2) by (simp add: less_mult_imp_div_less)
  moreover have "N mod B ^ Suc j < B ^ Suc j" using Suc.prems(1) by simp
  ultimately show ?case using Suc.IH [OF Suc.prems(1), of "N mod B ^ Suc j"] Suc.prems(3) by auto
qed simp

lemma foldl_positional: "foldl (\<lambda>v d. v * B + d) a (positional B j N) = a * B ^ Suc j + N"
proof (induction j arbitrary: a N)
  case (Suc j)
  have "a * B ^ Suc (Suc j) + N = a * B ^ Suc (Suc j) + (N div B ^ Suc j * B ^ Suc j + N mod B ^ Suc j)"
    by (simp only: div_mult_mod_eq)
  also have "\<dots> = (a * B + N div B ^ Suc j) * B ^ Suc j + N mod B ^ Suc j" by (simp add: algebra_simps)
  also have "\<dots> = foldl (\<lambda>v d. v * B + d) a (positional B (Suc j) N)" by (simp add: Suc.IH)
  finally show ?case by simp
qed simp

lemma value_of_positional: "value_of B (positional B j N) = N"
  by (simp add: value_of_def foldl_positional)

lemma hd_positional: "hd (positional B j N) = N div B ^ j"
  by (cases j) auto

section \<open>The digit loops\<close>

lemma sint_small_32: "x < 2 ^ 31 \<Longrightarrow> sint (of_nat x :: u32) = int x"
  by (simp add: signed_of_nat signed_take_bit_int_eq_self)

lemma ucast_as_nat: "(ucast (w :: 'a::len word) :: 'b::len word) = of_nat (unat w)"
  by simp

lemma scale_loop_power:
  fixes num b :: "'w::len word"
  assumes "2 \<le> unat b" and "unat d = unat b ^ k" and "k = 0 \<or> unat b ^ k \<le> unat num"
  shows "\<exists>j e. scale_loop num b d = Some e \<and> unat e = unat b ^ j \<and> unat num < unat b ^ Suc j \<and>
    (j = 0 \<or> unat b ^ j \<le> unat num)"
  using assms(2,3)
proof (induction "unat num - unat d" arbitrary: d k rule: less_induct)
  case less
  have nz: "d \<noteq> 0" using less.prems(1) assms(1) by auto
  show ?case
  proof (cases "num div d \<ge> b")
    case True
    then have "unat b \<le> unat num div unat d" by (simp add: word_le_nat_alt unat_div)
    then have le: "unat d * unat b \<le> unat num"
      using nz by (simp add: less_eq_div_iff_mult_less_eq unat_gt_0 mult.commute)
    then have u: "unat (d * b) = unat b ^ Suc k"
      using less.prems(1) le_less_trans [OF le unsigned_less [of num]]
      by (simp add: unat_word_ariths mult.commute take_bit_nat_eq_self)
    have "unat d < unat d * unat b" using assms(1) nz by (simp add: unat_gt_0)
    moreover have "unat d * unat b = unat b ^ Suc k" using less.prems(1) by (simp add: mult.commute)
    ultimately have "unat num - unat (d * b) < unat num - unat d" using le u by linarith
    moreover have "unat b ^ Suc k \<le> unat num" using le less.prems(1) by (simp add: mult.commute)
    ultimately have "\<exists>j e. scale_loop num b (d * b) = Some e \<and> unat e = unat b ^ j \<and> unat num < unat b ^ Suc j \<and>
        (j = 0 \<or> unat b ^ j \<le> unat num)"
      using less.hyps [OF _ u] by blast
    then show ?thesis using True nz by (simp add: scale_loop.simps [of num b d])
  next
    case False
    then have "unat num div unat d < unat b" by (simp add: word_le_nat_alt unat_div not_le)
    then have "unat num < unat b * unat d" using nz by (simp add: div_less_iff_less_mult unat_gt_0)
    then show ?thesis
      using False nz less.prems
      by (intro exI [of _ k] exI [of _ d]) (simp add: scale_loop.simps [of num b d])
  qed
qed

definition digit_text :: "bool \<Rightarrow> nat list \<Rightarrow> u8 list" where
  "digit_text uc ds = map (\<lambda>x. digit_char uc (of_nat x)) ds"

text \<open>Once a digit is out, the loop prints all remaining positions.\<close>

lemma digits_loop_rest:
  fixes num b :: "'w::len word"
  assumes "2 \<le> unat b" and "0 < n" and "unat d = unat b ^ j"
  shows "digits_loop num b uc n d = Some (digit_text uc (positional (unat b) j (unat num)))"
  using assms(2,3)
proof (induction j arbitrary: n num d)
  case 0
  then have d: "d = 1" by (simp add: word_unat_eq_iff)
  have b: "b \<noteq> 0" "1 div b = 0" using assms(1) by (auto simp: word_unat_eq_iff unat_div)
  show ?case
    using 0 b by (simp add: d digits_loop.simps [of num b uc n 1] digits_loop.simps [of _ b uc _ 0] digit_text_def
        ucast_as_nat del: of_nat_unat)
next
  case (Suc j)
  have nz: "d \<noteq> 0" "b \<noteq> 0" using Suc.prems assms(1) by auto
  have e: "unat (d div b) = unat b ^ j" using Suc.prems(2) assms(1) by (simp add: unat_div)
  have m: "unat (num mod d) = unat num mod unat b ^ Suc j" using Suc.prems(2) by (simp add: unat_mod)
  have q: "(ucast (num div d) :: u32) = of_nat (unat num div unat b ^ Suc j)"
    using Suc.prems(2) by (simp add: ucast_as_nat unat_div del: of_nat_unat)
  show ?case
    using Suc.prems(1) nz Suc.IH [OF _ e, of "n + 1" "num mod d"]
    by (simp add: digits_loop.simps [of num b uc n d] m q digit_text_def)
qed

lemma u2a_positional:
  fixes num b :: "'w::len word"
  assumes "2 \<le> unat b" and "unat b < 2 ^ 31"
  shows "\<exists>j. u2a num b uc = Some (digit_text uc (positional (unat b) j (unat num))) \<and> unat num < unat b ^ Suc j \<and>
    (j = 0 \<or> unat b ^ j \<le> unat num)"
proof -
  obtain j e where e: "scale_loop num b 1 = Some e" "unat e = unat b ^ j" "unat num < unat b ^ Suc j"
      "j = 0 \<or> unat b ^ j \<le> unat num"
    using scale_loop_power [OF assms(1), of 1 0 num] by auto
  have "digits_loop num b uc 0 e = digits_loop num b uc 1 e"
  proof (cases j)
    case 0
    then have "e = 1" using e(2) by (simp add: word_unat_eq_iff)
    moreover have "1 div b = 0" using assms(1) by (auto simp: word_unat_eq_iff unat_div)
    ultimately show ?thesis
      by (simp add: digits_loop.simps [of num b uc _ 1] digits_loop.simps [of _ b uc _ 0] Let_def)
  next
    case (Suc i)
    have "unat num div unat e < unat b" "0 < unat num div unat e"
      using e(2-4) Suc assms(1) by (simp_all add: less_mult_imp_div_less div_greater_zero_iff)
    then have "0 < sint (ucast (num div e) :: u32)"
      using assms(2) sint_small_32 [of "unat num div unat e"] 
      by (simp add: ucast_as_nat unat_div del: of_nat_unat)
    moreover have "unat (e div b) = unat b ^ i" using e(2) Suc assms(1) by (simp add: unat_div)
    then have "digits_loop (num mod e) b uc 1 (e div b) = digits_loop (num mod e) b uc 2 (e div b)"
      using digits_loop_rest [OF assms(1), of 1 "e div b" i "num mod e" uc]
        digits_loop_rest [OF assms(1), of 2 "e div b" i "num mod e" uc] by simp
    ultimately show ?thesis
      by (simp add: digits_loop.simps [of num b uc _ e] Let_def numeral_2_eq_2)
  qed
  then show ?thesis
    using e digits_loop_rest [OF assms(1) _ e(2), of 1 num uc] by (auto simp: u2a_def)
qed

section \<open>Numerals\<close>

text \<open>The reference notation: the digits of a number to a base, without leading zeros.\<close>

fun numeral_of :: "nat \<Rightarrow> nat \<Rightarrow> nat list" where
  "numeral_of B N = (if N < B \<or> B < 2 then [N] else numeral_of B (N div B) @ [N mod B])"

declare numeral_of.simps [simp del]

lemma positional_snoc: "positional B (Suc j) N = positional B j (N div B) @ [N mod B]"
proof (induction j arbitrary: N)
  case (Suc j)
  have "N div B ^ Suc (Suc j) = N div B div B ^ Suc j" by (simp add: div_mult2_eq)
  moreover have "N mod B ^ Suc (Suc j) div B = N div B mod B ^ Suc j"
    using mod_mult2_eq [of N B "B ^ Suc j"] by (cases "B = 0") (simp_all add: power_0_left)
  moreover have "N mod B ^ Suc (Suc j) mod B = N mod B" by (simp add: mod_mult_cong mod_mod_cancel)
  ultimately show ?case using Suc.IH [of "N mod B ^ Suc (Suc j)"] by simp
qed simp

lemma positional_numeral:
  assumes "2 \<le> B" and "N < B ^ Suc j" and "j = 0 \<or> B ^ j \<le> N"
  shows "positional B j N = numeral_of B N"
  using assms(2,3)
proof (induction j arbitrary: N)
  case 0
  then show ?case by (simp add: numeral_of.simps)
next
  case (Suc j)
  have "B ^ j \<le> N div B" "N div B < B ^ Suc j"
    using Suc.prems assms(1) by (simp_all add: less_eq_div_iff_mult_less_eq div_less_iff_less_mult mult.commute)
  then have "positional B j (N div B) = numeral_of B (N div B)" using Suc.IH by simp
  moreover have "\<not> N < B"
    using Suc.prems(2) assms(1) le_trans [of B "B ^ Suc j" N] self_le_power [of B "Suc j"] by simp
  ultimately show ?case
    using assms(1) unfolding positional_snoc by (simp add: numeral_of.simps [of B N])
qed

section \<open>Reading back\<close>

lemma digit_char_nat:
  assumes "x < 16"
  shows "unat (digit_char uc (of_nat x)) = (if x < 10 then x + 48 else if uc then x + 55 else x + 87)"
proof -
  have s: "sint (of_nat x :: u32) = int x" using assms by (intro sint_small_32) simp
  have e: "ucast (of_nat x + of_nat y :: u32) = (of_nat (x + y) :: u8)" if "y < 100" for y
    using assms that by (simp add: ucast_as_nat unat_of_nat take_bit_nat_eq_self del: of_nat_unat of_nat_add flip: of_nat_add)
  have "digit_char uc (of_nat x) = of_nat (if x < 10 then x + 48 else if uc then x + 55 else x + 87)"
    using e [of 48] e [of 55] e [of 87] s by (simp add: digit_char_def)
  then show ?thesis using assms by (simp add: unat_of_nat take_bit_nat_eq_self)
qed

lemma digit_char_read:
  assumes "x < 16"
  shows "a2d (digit_char uc (of_nat x)) = int x" and "digit_char uc (of_nat x) = 48 \<longleftrightarrow> x = 0"
    and "digit_char uc (of_nat x) \<noteq> 0"
  using digit_char_nat [OF assms, of uc] assms
  by (auto simp: a2d_def word_le_nat_alt word_unat_eq_iff of_nat_diff simp del: of_nat_unat split: if_splits)

definition text_at :: "mem \<Rightarrow> u64 \<Rightarrow> u8 list \<Rightarrow> bool" where
  "text_at m p cs \<longleftrightarrow> (\<forall>i<length cs. m (p + of_nat i) = cs ! i)"

lemma text_at_Nil [simp]: "text_at m p []"
  by (simp add: text_at_def)

lemma text_at_Cons: "text_at m p (c # cs) \<longleftrightarrow> m p = c \<and> text_at m (p + 1) cs"
  unfolding text_at_def by (auto simp: less_Suc_eq_0_disj add.assoc)

lemma text_at_append: "text_at m p (cs @ ds) \<longleftrightarrow> text_at m p cs \<and> text_at m (p + of_nat (length cs)) ds"
  by (induction cs arbitrary: p) (auto simp: text_at_Cons ac_simps)

lemma a2i_loop_reads:
  assumes "B \<le> 16" and "\<And>x. x \<in> set ds \<Longrightarrow> x < B" and "text_at m p (tl (digit_text uc ds) @ [c])"
    and "ds \<noteq> []" and "a2d c < 0 \<or> int B < a2d c" and "foldl (\<lambda>v d. v * B + d) v ds < 2 ^ 31"
  shows "a2i_loop m (int B) (hd (digit_text uc ds)) p (int v) =
    Some (c, p + of_nat (length ds), int (foldl (\<lambda>v d. v * B + d) v ds))"
  using assms(2-6)
proof (induction ds arbitrary: p v)
  case (Cons x ds)
  have x: "a2d (digit_char uc (of_nat x)) = int x" and lt: "x < B"
    using digit_char_read(1) [of x uc] Cons.prems(1) [of x] assms(1) by auto
  have grow: "w \<le> foldl (\<lambda>v d. v * B + d) w ds" for w
  proof (cases "B = 0")
    case False
    then show ?thesis
    proof (induction ds arbitrary: w)
      case (Cons y ys)
      have "w \<le> w * B + y" using Cons.prems by (simp add: trans_le_add1)
      then show ?case using Cons.IH [of "w * B + y"] Cons.prems by simp
    qed simp
  qed (use lt in simp)
  have small: "v * B + x < 2 ^ 31" using Cons.prems(5) grow [of "v * B + x"] by simp
  then have small': "int v * int B + int x < 2147483648" by (simp flip: of_nat_mult of_nat_add)
  have step: "a2i_loop m (int B) (digit_char uc (of_nat x)) p (int v) =
      a2i_loop m (int B) (m p) (p + 1) (int (v * B + x))"
    using x lt small' by (simp add: a2i_loop.simps [of m "int B" "digit_char uc (of_nat x)"] not_less)
  show ?case
  proof (cases ds)
    case Nil
    then have "m p = c" using Cons.prems(2) by (simp add: digit_text_def text_at_Cons)
    then show ?thesis
      using Nil step Cons.prems(4) by (auto simp: digit_text_def a2i_loop.simps [of m "int B" c])
  next
    case more: (Cons y ys)
    then have "m p = hd (digit_text uc ds)" "text_at m (p + 1) (tl (digit_text uc ds) @ [c])"
      using Cons.prems(2) by (simp_all add: digit_text_def text_at_Cons)
    then have "a2i_loop m (int B) (m p) (p + 1) (int (v * B + x)) =
        Some (c, p + 1 + of_nat (length ds), int (foldl (\<lambda>v d. v * B + d) (v * B + x) ds))"
      using Cons.IH [of "p + 1" "v * B + x"] Cons.prems(1,4,5) more by simp
    then show ?thesis using step by (simp add: digit_text_def add.assoc)
  qed
qed simp

section \<open>The number conversions\<close>

definition number_text :: "nat \<Rightarrow> bool \<Rightarrow> nat \<Rightarrow> u8 list" where
  "number_text B uc N = digit_text uc (numeral_of B N)"

lemma u2a_text:
  fixes num b :: "'w::len word"
  assumes "2 \<le> unat b" and "unat b < 2 ^ 31"
  shows "u2a num b uc = Some (number_text (unat b) uc (unat num))"
proof -
  obtain j where "u2a num b uc = Some (digit_text uc (positional (unat b) j (unat num)))"
      "unat num < unat b ^ Suc j" "j = 0 \<or> unat b ^ j \<le> unat num"
    using u2a_positional [OF assms] by blast
  then show ?thesis using positional_numeral [OF assms(1)] by (simp add: number_text_def)
qed

lemma uli2a_text: "2 \<le> B \<Longrightarrow> B < 2 ^ 31 \<Longrightarrow> uli2a num (of_nat B) uc = Some (number_text B uc (unat num))"
  using u2a_text [of "of_nat B" num uc]
  by (simp add: uli2a_def unat_of_nat take_bit_nat_eq_self ucast_as_nat del: of_nat_unat)

lemma ui2a_text: "2 \<le> B \<Longrightarrow> B < 2 ^ 31 \<Longrightarrow> ui2a num (of_nat B) uc = Some (number_text B uc (unat num))"
  using u2a_text [of "of_nat B" num uc] by (simp add: ui2a_def unat_of_nat take_bit_nat_eq_self)

lemma ex_exponent:
  assumes "2 \<le> (B :: nat)"
  shows "\<exists>j. N < B ^ Suc j \<and> (j = 0 \<or> B ^ j \<le> N)"
proof (cases "N = 0")
  case False
  define j where "j = (LEAST j. N < B ^ Suc j)"
  have "N < B ^ Suc N" using less_exp [of "Suc N"] power_mono [of 2 B "Suc N"] assms by linarith
  then have "N < B ^ Suc j" unfolding j_def by (rule LeastI)
  moreover have "j = 0 \<or> B ^ j \<le> N"
    using not_less_Least [of "j - 1" "\<lambda>j. N < B ^ Suc j", folded j_def] by (cases j) (auto simp: not_less)
  ultimately show ?thesis by blast
qed (use assms in \<open>auto intro: exI [of _ 0]\<close>)

lemma numeral_facts:
  assumes "2 \<le> B"
  shows "value_of B (numeral_of B N) = N" and "x \<in> set (numeral_of B N) \<Longrightarrow> x < B" and "numeral_of B N \<noteq> []"
    and "N \<noteq> 0 \<Longrightarrow> hd (numeral_of B N) \<noteq> 0" and "N < 2 ^ k \<Longrightarrow> 0 < k \<Longrightarrow> length (numeral_of B N) \<le> k"
proof -
  obtain j where j: "N < B ^ Suc j" "j = 0 \<or> B ^ j \<le> N" using ex_exponent [OF assms] by blast
  note e = positional_numeral [OF assms j, symmetric]
  show "value_of B (numeral_of B N) = N" unfolding e by (rule value_of_positional)
  show "x < B" if "x \<in> set (numeral_of B N)" using positional_less [OF _ j(1)] that assms unfolding e by simp
  show "numeral_of B N \<noteq> []" unfolding e by (metis length_positional list.size(3) nat.distinct(1))
  show "hd (numeral_of B N) \<noteq> 0" if "N \<noteq> 0"
    using j(2) that assms unfolding e hd_positional by (auto simp: div_eq_0_iff)
  show "length (numeral_of B N) \<le> k" if "N < 2 ^ k" "0 < k"
  proof -
    have "j < k" if "j \<noteq> 0"
    proof -
      have "(2 :: nat) ^ j < 2 ^ k" using j(2) that \<open>N < 2 ^ k\<close> power_mono [of 2 B j] assms by linarith
      then show ?thesis by simp
    qed
    then show ?thesis using that(2) unfolding e by (cases j) auto
  qed
qed

lemma number_text_facts:
  assumes "2 \<le> B" and "B \<le> 16"
  shows "0 \<notin> set (number_text B uc N)" and "number_text B uc N \<noteq> []"
    and "N \<noteq> 0 \<Longrightarrow> hd (number_text B uc N) \<noteq> 48" and "N < 2 ^ k \<Longrightarrow> 0 < k \<Longrightarrow> length (number_text B uc N) \<le> k"
    and "c \<in> set (number_text B uc N) \<Longrightarrow> 0 \<le> a2d c \<and> a2d c < int B"
proof -
  note n = numeral_facts [OF assms(1)]
  have lt: "x < 16" if "x \<in> set (numeral_of B N)" for x using n(2) [OF that] assms(2) by simp
  show "0 \<notin> set (number_text B uc N)"
    using digit_char_read(3) [OF lt, of _ uc] by (auto simp: number_text_def digit_text_def)
  show "number_text B uc N \<noteq> []" using n(3) by (simp add: number_text_def digit_text_def)
  show "hd (number_text B uc N) \<noteq> 48" if "N \<noteq> 0"
    using n(3,4) [of N] that digit_char_read(2) [OF lt, of "hd (numeral_of B N)" uc]
    by (simp add: number_text_def digit_text_def hd_map)
  show "length (number_text B uc N) \<le> k" if "N < 2 ^ k" "0 < k"
    using n(5) [OF that] by (simp add: number_text_def digit_text_def)
  show "0 \<le> a2d c \<and> a2d c < int B" if "c \<in> set (number_text B uc N)"
    using that digit_char_read(1) [OF lt] n(2) by (auto simp: number_text_def digit_text_def)
qed

lemma a2i_number_text:
  assumes "2 \<le> B" and "B \<le> 16" and "text_at m p (number_text B uc N @ [c])" and "a2d c < 0 \<or> int B < a2d c"
    and "N < 2 ^ 31"
  shows "a2i m (m p) (p + 1) (int B) = Some (c, p + of_nat (length (number_text B uc N)) + 1, int N)"
proof -
  note n = numeral_facts [OF assms(1)]
  obtain d ds where ds: "digit_text uc (numeral_of B N) = d # ds"
    using n(3) by (cases "digit_text uc (numeral_of B N)") (auto simp: digit_text_def)
  have "m p = hd (digit_text uc (numeral_of B N))" "text_at m (p + 1) (tl (digit_text uc (numeral_of B N)) @ [c])"
    using assms(3) ds by (simp_all add: number_text_def text_at_Cons)
  moreover have "foldl (\<lambda>v d. v * B + d) 0 (numeral_of B N) = N" using n(1) by (simp add: value_of_def)
  ultimately show ?thesis
    using a2i_loop_reads [OF assms(2) n(2), of _ _ m "p + 1" uc c 0] n(3) assms(4,5)
    by (simp add: a2i_def number_text_def digit_text_def add.commute add.left_commute)
qed

section \<open>Padding\<close>

lemma pad_count_text:
  assumes "0 \<notin> set cs" and "i \<le> length cs"
  shows "pad_count (\<lambda>i. (cs @ [0]) ! i) i n = n - (length cs - i)"
  using assms(2)
proof (induction n arbitrary: i)
  case (Suc n)
  have "(cs @ [0]) ! i \<noteq> 0 \<longleftrightarrow> i < length cs"
    using assms(1) Suc.prems by (cases "i < length cs") (auto simp: nth_append dest: nth_mem)
  then show ?case using Suc by (cases "i < length cs") auto
qed simp

lemma put_times_fold: "put_times putf c n k = fold putf (replicate n c) k"
  by (induction n arbitrary: k) auto

lemma put_string_text:
  assumes "0 \<notin> set cs" and "i \<le> length cs"
  shows "put_string putf (\<lambda>_ i. (cs @ [0]) ! i) i k = Some (fold putf (drop i cs) k)"
  using assms(2)
proof (induction "length cs - i" arbitrary: i k)
  case 0
  then show ?case by (simp add: put_string.simps [of putf _ i] nth_append)
next
  case (Suc n)
  then have i: "i < length cs" by simp
  have "cs ! i \<noteq> 0" using assms(1) nth_mem [OF i] by auto
  then show ?case
    using Suc(1) [of "i + 1"] Suc(2) i by (simp add: put_string.simps [of putf _ i] nth_append Cons_nth_drop_Suc [symmetric])
qed

lemma put_bf_text:
  assumes "0 \<notin> set cs" and "length cs \<le> 255"
  shows "put_bf putf w lz (Some cs) va k =
    Some (va, fold putf (replicate (w - length cs) (if lz then 48 else 32) @ cs) k)"
  using assms pad_count_text [OF assms(1), of 0 w] put_string_text [OF assms(1), of 0 putf]
  by (simp add: put_bf_def in_bf_def putchw_def put_times_fold)

end
