(* ===== verification/Printf_Format.thy ===== *)
theory Printf_Format
  imports Printf_Correct
begin

text \<open>
  What a format string means: a list of directives, each with the bytes that encode it in the
  format, the argument it takes and the text it stands for. \<open>format_renders\<close> is the refinement:
  the formatter of \<^verbatim>\<open>e_acsl_printf.h\<close> outputs the texts in order.
\<close>

section \<open>Directives\<close>

datatype radix = Unsigned | Signed | Hex | HEX

text \<open>
  A literal character; \<^verbatim>\<open>%%\<close>; a number: zero flag, width (0 for none), length modifier and the
  argument (its low half without the modifier); a pointer; a character; a string: width, address and
  text.
\<close>

datatype directive =
    Lit u8
  | Percent
  | Number bool nat bool radix u64
  | Pointer bool nat u64
  | Character u32
  | Str nat u64 "u8 list"

fun radix_char :: "radix \<Rightarrow> u8" where
  "radix_char Unsigned = 117"
| "radix_char Signed = 100"
| "radix_char Hex = 120"
| "radix_char HEX = 88"

abbreviation width_text :: "nat \<Rightarrow> u8 list" where
  "width_text w \<equiv> (if w = 0 then [] else number_text 10 False w)"

definition encode_spec :: "bool \<Rightarrow> nat \<Rightarrow> bool \<Rightarrow> u8 \<Rightarrow> u8 list" where
  "encode_spec lz w lng c = 37 # (if lz then [48] else []) @ width_text w @ (if lng then [108] else []) @ [c]"

fun encode :: "directive \<Rightarrow> u8 list" where
  "encode (Lit c) = [c]"
| "encode Percent = encode_spec False 0 False 37"
| "encode (Number lz w lng r x) = encode_spec lz w lng (radix_char r)"
| "encode (Pointer lz w x) = encode_spec lz w False 112"
| "encode (Character x) = encode_spec False 0 False 99"
| "encode (Str w p cs) = encode_spec False w False 115"

fun dir_args :: "directive \<Rightarrow> 'd va_arg list" where
  "dir_args (Number lz w lng r x) = [if lng then VLong x else VInt (ucast x)]"
| "dir_args (Pointer lz w x) = [VPtr x]"
| "dir_args (Character x) = [VInt x]"
| "dir_args (Str w p cs) = [VPtr p]"
| "dir_args _ = []"

definition signed_text :: "int \<Rightarrow> u8 list" where
  "signed_text i = (if i < 0 then 45 # number_text 10 False (nat (- i)) else number_text 10 False (nat i))"

fun radix_text :: "radix \<Rightarrow> nat \<Rightarrow> int \<Rightarrow> u8 list" where
  "radix_text Unsigned n i = number_text 10 False n"
| "radix_text Signed n i = signed_text i"
| "radix_text Hex n i = number_text 16 False n"
| "radix_text HEX n i = number_text 16 True n"

definition padded :: "bool \<Rightarrow> nat \<Rightarrow> u8 list \<Rightarrow> u8 list" where
  "padded lz w cs = replicate (w - length cs) (if lz then 48 else 32) @ cs"

fun render :: "directive \<Rightarrow> u8 list" where
  "render (Lit c) = [c]"
| "render Percent = [37]"
| "render (Number lz w lng r x) = padded lz w
     (if lng then radix_text r (unat x) (sint x) else radix_text r (unat (ucast x :: u32)) (sint (ucast x :: u32)))"
| "render (Pointer lz w x) = padded lz w (48 # 120 # number_text 16 False (unat x))"
| "render (Character x) = [ucast x]"
| "render (Str w p cs) = padded False w cs"

text \<open>The smallest signed number has no negation, a width must be an \<^verbatim>\<open>int\<close>, and a string must be in memory.\<close>

fun printable :: "mem \<Rightarrow> directive \<Rightarrow> bool" where
  "printable m (Lit c) = (c \<noteq> 0 \<and> c \<noteq> 37)"
| "printable m Percent = True"
| "printable m (Number lz w lng r x) = (w < 2 ^ 31 \<and> (r = Signed \<longrightarrow>
     (if lng then sint x \<noteq> - (2 ^ 63) else sint (ucast x :: u32) \<noteq> - (2 ^ 31))))"
| "printable m (Pointer lz w x) = (w < 2 ^ 31)"
| "printable m (Character x) = True"
| "printable m (Str w p cs) = (w < 2 ^ 31 \<and> text_at m p (cs @ [0]) \<and> 0 \<notin> set cs)"

section \<open>Signed numbers\<close>

lemma unat_of_sint:
  fixes x :: "'w::len word"
  shows "0 \<le> sint x \<Longrightarrow> unat x = nat (sint x)"
    and "sint x < 0 \<Longrightarrow> unat (- x) = nat (- sint x)"
proof -
  have r: "- (2 ^ (LENGTH('w) - 1)) \<le> sint x" "sint x < 2 ^ (LENGTH('w) - 1)"
    using sint_greater_eq [of x] sint_less [of x] by simp_all
  have half: "(2 :: int) ^ (LENGTH('w) - 1) < 2 ^ LENGTH('w)" by (rule power_strict_increasing) simp_all
  have e: "uint (word_of_int i :: 'w word) = i" if "0 \<le> i" "i \<le> 2 ^ (LENGTH('w) - 1)" for i
    using that(1) le_less_trans [OF that(2) half] by (simp add: uint_word_of_int)
  show "unat x = nat (sint x)" if "0 \<le> sint x"
    using e [OF that] r(2) by (simp add: unat_eq_nat_uint)
  show "unat (- x) = nat (- sint x)" if "sint x < 0"
    using e [of "- sint x"] that r(1) by (simp add: unat_eq_nat_uint)
qed

lemma li2a_text: "sint x \<noteq> - (2 ^ 63) \<Longrightarrow> li2a x = Some (signed_text (sint x))"
  using unat_of_sint [of x] uli2a_text [of 10] by (auto simp: li2a_def signed_text_def not_less)

lemma i2a_text: "sint x \<noteq> - (2 ^ 31) \<Longrightarrow> i2a x = Some (signed_text (sint x))"
  using unat_of_sint [of x] ui2a_text [of 10] by (auto simp: i2a_def signed_text_def not_less)

lemma radix_text_facts:
  assumes "n < 2 ^ 64" and "- (2 ^ 64) < i" and "i < 2 ^ 64"
  shows "0 \<notin> set (radix_text r n i)" and "length (radix_text r n i) \<le> 255"
proof -
  have len: "length (number_text B uc k) \<le> 254" if "2 \<le> B" "B \<le> 16" "k < 2 ^ 64" for B uc k
    using number_text_facts(4) [OF that, of uc] by simp
  have k: "nat i < 2 ^ 64" "nat (- i) < 2 ^ 64" using assms(2,3) by (simp_all add: nat_less_iff)
  show "0 \<notin> set (radix_text r n i)"
    using number_text_facts(1) [of 10] number_text_facts(1) [of 16] by (cases r) (simp_all add: signed_text_def)
  note l = len [OF _ _ assms(1), of 10] len [OF _ _ assms(1), of 16] len [OF _ _ k(1), of 10] len [OF _ _ k(2), of 10]
  show "length (radix_text r n i) \<le> 255"
    using l by (cases r) (simp_all add: signed_text_def le_trans [of _ 254 255])
qed

section \<open>Parsing\<close>

text \<open>Specifiers that end a width: they are no digits, and the hexadecimal digit ten is none of them.\<close>

definition conv_char :: "u8 \<Rightarrow> bool" where
  "conv_char c \<longleftrightarrow> \<not> (48 \<le> c \<and> c \<le> 57) \<and> c \<noteq> 108 \<and> (a2d c < 0 \<or> 10 < a2d c)"

lemma conv_char_simps [simp]: "conv_char (radix_char r)" "conv_char 37" "conv_char 112" "conv_char 99" "conv_char 115"
  by (cases r; simp add: conv_char_def a2d_def) (simp_all add: conv_char_def a2d_def)

text \<open>The part of the parser after the flag.\<close>

definition parse_width :: "mem \<Rightarrow> bool \<Rightarrow> u8 \<Rightarrow> u64 \<Rightarrow> spec option" where
  "parse_width m lz ch fmt = do {
     (ch, fmt, w) \<leftarrow> (if 48 \<le> ch \<and> ch \<le> 57 then a2i m ch fmt 10 else Some (ch, fmt, 0));
     let lng = (ch = 108);
     let (ch, fmt) = (if lng then (m fmt, fmt + 1) else (ch, fmt));
     Some \<lparr>sp_lz = lz, sp_w = nat w, sp_lng = lng, sp_char = ch, sp_next = fmt\<rparr> }"

lemma parse_spec_width:
  "parse_spec m fmt = (if m fmt = 48 then parse_width m True (m (fmt + 1)) (fmt + 2) else parse_width m False (m fmt) (fmt + 1))"
  by (simp add: parse_spec_def parse_width_def Let_def add.assoc)

lemma digit_range: "0 \<le> a2d c \<Longrightarrow> a2d c < 10 \<Longrightarrow> 48 \<le> c \<and> c \<le> 57"
  by (auto simp: a2d_def word_le_nat_alt simp del: of_nat_unat split: if_splits)

lemma parse_width_text:
  assumes "w < 2 ^ 31" and "conv_char c" and "text_at m p (width_text w @ (if lng then [108] else []) @ [c])"
  shows "parse_width m lz (m p) (p + 1) = Some \<lparr>sp_lz = lz, sp_w = w, sp_lng = lng, sp_char = c,
    sp_next = p + of_nat (length (width_text w) + (if lng then 2 else 1))\<rparr>"
proof (cases "w = 0")
  case True
  then show ?thesis
    using assms(2,3) by (auto simp: text_at_Cons parse_width_def Let_def conv_char_def split: if_splits)
next
  case False
  let ?c = "if lng then 108 else c" and ?t = "number_text 10 False w"
  note n = number_text_facts [of 10, where uc = False and N = w]
  have t: "text_at m p (?t @ [?c])" using assms(3) False by (cases lng) (simp_all add: text_at_append text_at_Cons)
  have c: "a2d ?c < 0 \<or> 10 < a2d ?c" using assms(2) by (cases lng) (simp_all add: a2d_def [of 108] conv_char_def)
  have rd: "a2i m (m p) (p + 1) 10 = Some (?c, p + of_nat (length ?t) + 1, int w)"
    using a2i_number_text [of 10 m p False w ?c] t c assms(1) by simp
  have "m p = hd ?t" using t n(2) by (cases ?t) (auto simp: text_at_Cons)
  then have "48 \<le> m p \<and> m p \<le> 57" using n(2,5) digit_range [of "m p"] hd_in_set [of ?t] by auto
  moreover have "m (p + of_nat (length ?t) + 1) = c" if lng
    using assms(3) False that by (simp add: text_at_append text_at_Cons)
  ultimately show ?thesis using rd False assms(2) by (auto simp: parse_width_def Let_def add.assoc conv_char_def)
qed

lemma parse_spec_text:
  assumes "w < 2 ^ 31" and "conv_char c" and "text_at m p (encode_spec lz w lng c)"
  shows "parse_spec m (p + 1) = Some \<lparr>sp_lz = lz, sp_w = w, sp_lng = lng, sp_char = c,
    sp_next = p + of_nat (length (encode_spec lz w lng c))\<rparr>"
proof (cases lz)
  case True
  then have "m (p + 1) = 48" "text_at m (p + 2) (width_text w @ (if lng then [108] else []) @ [c])"
    using assms(3) by (simp_all add: encode_spec_def text_at_Cons add.assoc)
  then show ?thesis
    using parse_width_text [OF assms(1,2), of m "p + 2" lng True] True
    by (simp add: parse_spec_width encode_spec_def add.assoc)
next
  case False
  then have t: "text_at m (p + 1) (width_text w @ (if lng then [108] else []) @ [c])"
    using assms(3) by (simp add: encode_spec_def text_at_Cons)
  have "m (p + 1) \<noteq> 48"
  proof (cases "w = 0")
    case True
    then show ?thesis using t assms(2) by (auto simp: text_at_Cons conv_char_def split: if_splits)
  next
    case nz: False
    note n = number_text_facts [of 10, where uc = False and N = w]
    have "m (p + 1) = hd (number_text 10 False w)"
      using t n(2) nz by (cases "number_text 10 False w") (auto simp: text_at_Cons)
    then show ?thesis using n(3) nz by simp
  qed
  then show ?thesis
    using parse_width_text [OF assms(1,2) t, of False] False
    by (simp add: parse_spec_width encode_spec_def add.assoc)
qed

section \<open>Rendering\<close>

definition keeps_memory :: "putcf \<Rightarrow> bool" where
  "keeps_memory putf \<longleftrightarrow> (\<forall>c k. io_mem (snd (putf c k)) = io_mem (snd k))"

lemma fold_keeps: "keeps_memory putf \<Longrightarrow> io_mem (snd (fold putf cs k)) = io_mem (snd k)"
  by (induction cs arbitrary: k) (auto simp: keeps_memory_def)

lemma charc_keep: "keeps_memory charc_stdout" "keeps_memory charc_stderr" "keeps_memory charc_file" "keeps_memory charc_literal"
  by (simp_all add: keeps_memory_def charc_stdout_def charc_stderr_def charc_file_def charc_literal_def write_fd_def)

lemma sint_bounds:
  "- (2 ^ 64) < sint (x :: u64)" "sint (x :: u64) < 2 ^ 64" "- (2 ^ 64) < sint (y :: u32)" "sint (y :: u32) < 2 ^ 64"
  "unat y < 2 ^ 64"
  using sint_greater_eq [of x] sint_less [of x] sint_greater_eq [of y] sint_less [of y] unsigned_less [of y, where ?'a = nat]
  by simp_all

abbreviation spec_of :: "bool \<Rightarrow> nat \<Rightarrow> bool \<Rightarrow> u8 \<Rightarrow> u64 \<Rightarrow> spec" where
  "spec_of lz w lng c q \<equiv> \<lparr>sp_lz = lz, sp_w = w, sp_lng = lng, sp_char = c, sp_next = q\<rparr>"

lemma conversion_number:
  assumes "printable m (Number lz w lng r x)"
  shows "conversion fp putf (spec_of lz w lng (radix_char r) q) (dir_args (Number lz w lng r x) @ va) k =
    Some (va, fold putf (render (Number lz w lng r x)) k)"
proof -
  have p: "put_bf putf w lz (Some (radix_text r n i)) va k = Some (va, fold putf (padded lz w (radix_text r n i)) k)"
    if "n < 2 ^ 64" "- (2 ^ 64) < i" "i < 2 ^ 64" for n i
    unfolding padded_def by (rule put_bf_text [OF radix_text_facts [OF that]])
  note l = p [of "unat x" "sint x", OF unat_lt_64 sint_bounds(1,2)]
    and s = p [of "unat (ucast x :: u32)" "sint (ucast x :: u32)", OF sint_bounds(5,3,4)]
  show ?thesis
    using l s assms uli2a_text [of 10 x False] uli2a_text [of 16 x] ui2a_text [of 10 "ucast x" False]
      ui2a_text [of 16 "ucast x"] li2a_text [of x] i2a_text [of "ucast x"]
    by (cases r; cases lng) (simp_all add: conversion_def Let_def)
qed

lemma conversion_pointer:
  "conversion fp putf (spec_of lz w False 112 q) (VPtr x # va) k = Some (va, fold putf (render (Pointer lz w x)) k)"
proof -
  note n = number_text_facts [of 16, where uc = False and N = "unat x"]
  have "length (48 # 120 # number_text 16 False (unat x)) \<le> 255" "0 \<notin> set (48 # 120 # number_text 16 False (unat x))"
    using n(1) n(4) [of 64, OF _ _ unat_lt_64] by simp_all
  from put_bf_text [OF this(2,1), of putf w lz va k] show ?thesis
    using uli2a_text [of 16 x False] by (simp add: conversion_def Let_def ptr2a_def padded_def)
qed

text \<open>A string in memory is read like one in the buffer, as long as the output does not change memory.\<close>

lemma put_string_memory:
  assumes "keeps_memory putf" and "text_at (io_mem (snd k)) p (cs @ [0])" and "0 \<notin> set cs" and "i \<le> length cs"
  shows "put_string putf (in_memory p) i k = Some (fold putf (drop i cs) k)"
  using assms(2,4)
proof (induction "length cs - i" arbitrary: i k)
  case 0
  then have "in_memory p (snd k) i = 0" by (auto simp: in_memory_def text_at_def nth_append)
  then show ?case using 0 by (simp add: put_string.simps [of putf _ i])
next
  case (Suc n)
  then have i: "i < length cs" by simp
  then have c: "in_memory p (snd k) i = cs ! i" using Suc.prems(1) by (auto simp: in_memory_def text_at_def nth_append)
  have "text_at (io_mem (snd (putf (cs ! i) k))) p (cs @ [0])" using Suc.prems(1) fold_keeps [OF assms(1), of "[cs ! i]"] by simp
  then have "put_string putf (in_memory p) (i + 1) (putf (cs ! i) k) = Some (fold putf (drop (i + 1) cs) (putf (cs ! i) k))"
    using Suc(1) [of "i + 1"] Suc(2) i by simp
  moreover have "cs ! i \<noteq> 0" using assms(3) nth_mem [OF i] by auto
  ultimately show ?case
    using i c by (simp add: put_string.simps [of putf _ i] Cons_nth_drop_Suc [symmetric])
qed

lemma pad_count_cong: "(\<And>j. i \<le> j \<Longrightarrow> j < i + n \<Longrightarrow> (\<forall>l<j. i \<le> l \<longrightarrow> f l \<noteq> 0) \<Longrightarrow> f j = g j) \<Longrightarrow> pad_count f i n = pad_count g i n"
proof (induction n arbitrary: i)
  case (Suc n)
  have e: "f i = g i" using Suc.prems [of i] by simp
  show ?case
  proof (cases "f i = 0")
    case False
    have "f j = g j" if "i + 1 \<le> j" "j < i + 1 + n" "\<forall>l<j. i + 1 \<le> l \<longrightarrow> f l \<noteq> 0" for j
    proof -
      have "\<forall>l<j. i \<le> l \<longrightarrow> f l \<noteq> 0" using that(3) False by (metis Suc_eq_plus1 Suc_leI le_neq_implies_less)
      then show ?thesis using Suc.prems [of j] that(1,2) by simp
    qed
    then show ?thesis using Suc.IH [of "i + 1"] e False by simp
  qed (use e in simp)
qed simp

lemma conversion_string:
  assumes "keeps_memory putf" and "printable (io_mem (snd k)) (Str w p cs)"
  shows "conversion fp putf (spec_of False w False 115 q) (VPtr p # va) k = Some (va, fold putf (render (Str w p cs)) k)"
proof -
  have t: "text_at (io_mem (snd k)) p (cs @ [0])" "0 \<notin> set cs" using assms(2) by simp_all
  have rd: "in_memory p (snd k) j = (cs @ [0]) ! j" if "j \<le> length cs" for j
    using t(1) that by (simp add: in_memory_def text_at_def)
  have "pad_count (in_memory p (snd k)) 0 w = pad_count (\<lambda>i. (cs @ [0]) ! i) 0 w"
  proof (rule pad_count_cong)
    fix j assume h: "\<forall>l<j. 0 \<le> l \<longrightarrow> in_memory p (snd k) l \<noteq> 0"
    have "j \<le> length cs"
    proof (rule ccontr)
      assume "\<not> j \<le> length cs"
      then show False using h rd [of "length cs"] by (auto simp: nth_append)
    qed
    then show "in_memory p (snd k) j = (cs @ [0]) ! j" by (rule rd)
  qed
  then have pc: "pad_count (in_memory p (snd k)) 0 w = w - length cs" using pad_count_text [OF t(2), of 0 w] by simp
  let ?k = "fold putf (replicate (w - length cs) 32) k"
  have "text_at (io_mem (snd ?k)) p (cs @ [0])" unfolding fold_keeps [OF assms(1)] by (rule t(1))
  then have "put_string putf (in_memory p) 0 ?k = Some (fold putf cs ?k)"
    using put_string_memory [OF assms(1) _ t(2), of ?k p 0] by simp
  then show ?thesis by (simp add: conversion_def Let_def putchw_def put_times_fold pc padded_def del: fold_replicate)
qed

lemma conversion_directive:
  assumes "keeps_memory putf" and "printable (io_mem (snd k)) d" and "encode d = encode_spec lz w lng c"
    and "text_at (io_mem (snd k)) fmt (encode d)"
  shows "\<exists>sp. parse_spec (io_mem (snd k)) (fmt + 1) = Some sp \<and> sp_next sp = fmt + of_nat (length (encode d)) \<and>
    conversion fp putf sp (dir_args d @ va) k = Some (va, fold putf (render d) k)"
  using assms(2-4)
proof (cases d)
  case (Number lz w lng r x)
  then have t: "text_at (io_mem (snd k)) fmt (encode_spec lz w lng (radix_char r))" "w < 2 ^ 31" using assms by simp_all
  show ?thesis
    using parse_spec_text [OF t(2) _ t(1)] conversion_number [OF assms(2) [unfolded Number], of fp putf] Number by simp
next
  case Percent
  then have t: "text_at (io_mem (snd k)) fmt (encode_spec False 0 False 37)" using assms by simp
  show ?thesis using parse_spec_text [OF _ _ t] Percent by (simp add: conversion_def Let_def)
next
  case (Pointer lz w x)
  then have t: "text_at (io_mem (snd k)) fmt (encode_spec lz w False 112)" "w < 2 ^ 31" using assms by simp_all
  show ?thesis using parse_spec_text [OF t(2) _ t(1)] conversion_pointer [of fp putf] Pointer by simp
next
  case (Character x)
  then have t: "text_at (io_mem (snd k)) fmt (encode_spec False 0 False 99)" using assms by simp
  show ?thesis using parse_spec_text [OF _ _ t] Character by (simp add: conversion_def Let_def)
next
  case (Str w p cs)
  then have t: "text_at (io_mem (snd k)) fmt (encode_spec False w False 115)" "w < 2 ^ 31" using assms by simp_all
  show ?thesis using parse_spec_text [OF t(2) _ t(1)] conversion_string [OF assms(1) assms(2) [unfolded Str], of fp] Str by simp
qed (auto simp: encode_spec_def)

lemma format_renders:
  assumes "keeps_memory putf" and "\<And>d. d \<in> set ds \<Longrightarrow> printable (io_mem (snd k)) d"
    and "text_at (io_mem (snd k)) fmt (concat (map encode ds) @ [0])"
  shows "format_rtl fp putf fmt (concat (map dir_args ds) @ va) k = Some (fold putf (concat (map render ds)) k)"
  using assms(2,3)
proof (induction ds arbitrary: fmt k)
  case Nil
  then show ?case by (simp add: format_rtl.simps [of fp putf fmt] text_at_Cons)
next
  case (Cons d ds)
  let ?m = "io_mem (snd k)" and ?k = "fold putf (render d) k"
  have pr: "printable ?m d" using Cons.prems(1) by simp
  have t: "text_at ?m fmt (encode d)" "text_at ?m (fmt + of_nat (length (encode d))) (concat (map encode ds) @ [0])"
    using Cons.prems(2) by (simp_all add: text_at_append)
  have IH: "format_rtl fp putf (fmt + of_nat (length (encode d))) (concat (map dir_args ds) @ va) ?k =
      Some (fold putf (concat (map render ds)) ?k)"
    using Cons.IH [of ?k] Cons.prems(1) t(2) fold_keeps [OF assms(1)] by simp
  have "format_rtl fp putf fmt (dir_args d @ concat (map dir_args ds) @ va) k =
      format_rtl fp putf (fmt + of_nat (length (encode d))) (concat (map dir_args ds) @ va) ?k"
  proof (cases "\<exists>lz w lng c. encode d = encode_spec lz w lng c")
    case True
    then obtain lz w lng c where e: "encode d = encode_spec lz w lng c" by blast
    then have "?m fmt = 37" using t(1) by (simp add: encode_spec_def text_at_Cons)
    then show ?thesis
      using conversion_directive [OF assms(1) pr e t(1), of fp "concat (map dir_args ds) @ va"]
      by (auto simp: format_rtl.simps [of fp putf fmt] Let_def)
  next
    case False
    then obtain c where "d = Lit c" by (cases d) auto
    then show ?thesis using t(1) pr by (simp add: format_rtl.simps [of fp putf fmt] text_at_Cons)
  qed
  then show ?case using IH by simp
qed

end
