(* ===== verification/Printf_Props.thy ===== *)
theory Printf_Props
  imports Printf_Format
begin

text \<open>The properties of the printing functions, over the lemmas of \<^verbatim>\<open>Printf_Format\<close>.\<close>

section \<open>Writing to a file\<close>

lemma fold_charc_stdout:
  "fold charc_stdout cs (p, st) = (p, st\<lparr>io_out := io_out st @ map (\<lambda>c. (1, [c])) cs\<rparr>)"
  by (induction cs arbitrary: st) (simp_all add: charc_stdout_def write_fd_def)

text \<open>
  C22: \<^verbatim>\<open>rtl_printf\<close> implements format strings: for a format made of literal characters, \<^verbatim>\<open>%%\<close>
  and the conversions u, d, x, X, p, c and s with any flag, width and length modifier they admit, and
  the arguments they name, it returns and writes to file descriptor 1, one by one, exactly the characters the
  format stands for.
\<close>

theorem printf_renders:
  assumes "\<And>d. d \<in> set ds \<Longrightarrow> printable (io_mem st) d" and "text_at (io_mem st) fmt (concat (map encode ds) @ [0])"
  shows "rtl_printf fp fmt (concat (map dir_args ds)) st =
    Some (1, st\<lparr>io_out := io_out st @ map (\<lambda>c. (1, [c])) (concat (map render ds))\<rparr>)"
  using format_renders [OF charc_keep(1), of ds "(0, st)" fmt fp "[]"] assms
  by (simp add: rtl_printf_def fold_charc_stdout)

definition ex_io :: "u8 list \<Rightarrow> io" where
  "ex_io cs = \<lparr>io_mem = (\<lambda>a. if unat a < length cs then cs ! unat a else 0), io_out = []\<rparr>"

lemma ex_io_text: "length cs < 2 ^ 64 \<Longrightarrow> text_at (io_mem (ex_io cs)) 0 (cs @ [0])"
  by (auto simp: text_at_def ex_io_def unat_of_nat_64 nth_append)

definition ex_fp :: "unit fp_ops" where
  "ex_fp = \<lparr>fp_to_int = (\<lambda>_. None), fp_thousandths = (\<lambda>_ _. ())\<rparr>"

lemma replicate_2: "replicate 2 x = [x, x]"
  by (simp add: numeral_2_eq_2)

theorem printf_renders_witness:
  "rtl_printf ex_fp 0 [VInt 42] (ex_io [120, 61, 37, 52, 100]) =
    Some (1, (ex_io [120, 61, 37, 52, 100])\<lparr>io_out := map (\<lambda>c. (1, [c])) [120, 61, 32, 32, 52, 50]\<rparr>)"
proof -
  let ?ds = "[Lit 120, Lit 61, Number False 4 False Signed 42]"
  have e: "number_text 10 False 4 = [52]" "number_text 10 False 42 = [52, 50]"
    by (simp_all add: number_text_def digit_text_def numeral_of.simps [of 10 4] numeral_of.simps [of 10 42] digit_char_def)
  have "concat (map encode ?ds) = [120, 61, 37, 52, 100]" by (simp add: encode_spec_def e)
  then have t: "text_at (io_mem (ex_io [120, 61, 37, 52, 100])) 0 (concat (map encode ?ds) @ [0])"
    using ex_io_text [of "[120, 61, 37, 52, 100]"] by simp
  have r: "concat (map render ?ds) = [120, 61, 32, 32, 52, 50]"
    by (simp add: e padded_def signed_text_def replicate_2)
  have "printable (io_mem (ex_io [120, 61, 37, 52, 100])) d" if "d \<in> set ?ds" for d using that by auto
  from printf_renders [OF this t, of ex_fp] show ?thesis unfolding r by (simp add: ex_io_def)
qed

text \<open>
  C23: for every base from 2 to 16 the conversions \<^verbatim>\<open>uli2a\<close> and \<^verbatim>\<open>ui2a\<close> return; the text fits the
  buffer, has no leading zero, and read back by \<^verbatim>\<open>a2i\<close> from memory, up to a character that is no
  digit, gives the number again (when it is in the range of the \<^verbatim>\<open>int\<close> that \<^verbatim>\<open>a2i\<close> stores).
\<close>

theorem number_roundtrip:
  assumes "2 \<le> B" and "B \<le> 16"
  shows "\<exists>cs. uli2a x (of_nat B) uc = Some cs \<and> cs \<noteq> [] \<and> length cs \<le> 64 \<and> (x \<noteq> 0 \<longrightarrow> hd cs \<noteq> 48) \<and>
      (unat x < 2 ^ 32 \<longrightarrow> ui2a (ucast x) (of_nat B) uc = Some cs) \<and>
      (\<forall>m p c. text_at m p (cs @ [c]) \<longrightarrow> a2d c < 0 \<longrightarrow> unat x < 2 ^ 31 \<longrightarrow>
         a2i m (m p) (p + 1) (int B) = Some (c, p + of_nat (length cs) + 1, int (unat x)))"
proof (intro exI [of _ "number_text B uc (unat x)"] conjI allI impI)
  have B: "B < 2 ^ 31" using assms(2) by simp
  note n = number_text_facts [OF assms]
  show "uli2a x (of_nat B) uc = Some (number_text B uc (unat x))" by (rule uli2a_text [OF assms(1) B])
  show "number_text B uc (unat x) \<noteq> []" by (rule n(2))
  show "length (number_text B uc (unat x)) \<le> 64" using n(4) [of "unat x" 64 uc, OF unat_lt_64] by simp
  show "hd (number_text B uc (unat x)) \<noteq> 48" if "x \<noteq> 0" using n(3) that by (simp add: word_unat_eq_iff)
  show "ui2a (ucast x) (of_nat B) uc = Some (number_text B uc (unat x))" if "unat x < 2 ^ 32"
    using ui2a_text [OF assms(1) B, of "ucast x" uc] that
    by (simp add: ucast_as_nat unat_of_nat take_bit_nat_eq_self del: of_nat_unat)
  show "a2i m (m p) (p + 1) (int B) = Some (c, p + of_nat (length (number_text B uc (unat x))) + 1, int (unat x))"
    if "text_at m p (number_text B uc (unat x) @ [c])" "a2d c < 0" "unat x < 2 ^ 31" for m p c
    using a2i_number_text [OF assms that(1) _ that(3)] that(2) by simp
qed

theorem number_roundtrip_witness:
  "\<exists>cs. uli2a 255 16 True = Some cs \<and> cs \<noteq> [] \<and> hd cs \<noteq> 48"
  using number_roundtrip [of 16 255 True] by auto

lemma bits_up_length: "(\<And>i. rd i \<noteq> None) \<Longrightarrow> \<exists>cs. bits_up rd g sz i k = Some cs \<and> k \<le> length cs"
proof (induction k arbitrary: i)
  case (Suc k)
  obtain b where "rd i = Some b" using Suc.prems by blast
  moreover obtain cs where "bits_up rd g sz (i + 1) k = Some cs" "k \<le> length cs" using Suc by blast
  ultimately show ?case by auto
qed simp

lemma bits_down_length: "(\<And>i. rd i \<noteq> None) \<Longrightarrow> \<exists>cs. bits_down rd sz k = Some cs \<and> k \<le> length cs"
proof (induction k)
  case (Suc k)
  obtain b where "rd k = Some b" using Suc.prems by blast
  moreover obtain cs where "bits_down rd sz k = Some cs" "k \<le> length cs" using Suc by blast
  ultimately show ?case by auto
qed simp

lemma pbits2a_overruns:
  assumes "256 \<le> w"
  shows "put_bf putf 0 False (pbits2a m p (pbits_width w) l2r) va k = None"
proof -
  define rd :: "nat \<Rightarrow> bool option" where "rd = (\<lambda>i. Some (bit (m (p + of_nat (i div 8))) (i mod 8)))"
  have rd: "\<And>i. rd i \<noteq> None" by (simp add: rd_def)
  have "\<exists>cs. pbits2a m p w l2r = Some cs \<and> w \<le> length cs"
    using bits_up_length [of rd 4 w 0 w, OF rd] bits_down_length [of rd w w, OF rd]
    by (auto simp: pbits2a_def Let_def rd_def [symmetric])
  then show ?thesis using assms by (auto simp: put_bf_def in_bf_def pbits_width_def)
qed

lemma width_swallows_specifier:
  assumes "49 \<le> d" and "d \<le> 57" and "a2d c < 0" and "c \<noteq> 108" and "text_at m p [d, 97, c]"
  shows "parse_spec m p =
    Some \<lparr>sp_lz = False, sp_w = 10 * (unat d - 48) + 10, sp_lng = False, sp_char = c, sp_next = p + 3\<rparr>"
proof -
  have r: "49 \<le> unat d" "unat d \<le> 57" using assms(1,2) by (simp_all add: word_le_nat_alt)
  have d: "a2d d = int (unat d) - 48" "48 \<le> d" using assms(1,2) by (auto simp: a2d_def word_le_nat_alt)
  have a: "a2d 97 = 10" by (simp add: a2d_def)
  have m: "m p = d" "m (p + 1) = 97" "m (p + 2) = c" using assms(5) by (simp_all add: text_at_Cons add.assoc)
  have "a2i m d (p + 1) 10 = Some (c, p + 3, (int (unat d) - 48) * 10 + 10)"
    using d r a m assms(3)
    by (simp add: a2i_def a2i_loop.simps [of m 10 d] a2i_loop.simps [of m 10 97] a2i_loop.simps [of m 10 c] add.assoc
        del: of_nat_unat)
  moreover have "d \<noteq> 48" using assms(1) by auto
  moreover have "nat ((int (unat d) - 48) * 10 + 10) = 10 * (unat d - 48) + 10"
    using r by (simp add: nat_eq_iff of_nat_diff del: of_nat_unat)
  ultimately show ?thesis using d m assms(2,4) by (simp add: parse_spec_def Let_def del: of_nat_unat)
qed

text \<open>
  Three defects of the formatter. A width before the conversion \<^verbatim>\<open>a\<close> swallows the specifier,
  since \<^verbatim>\<open>a2i\<close> takes a digit equal to the base; a format that ends in \<^verbatim>\<open>%\<close> makes the formatter
  go on reading after the terminating null byte; and the width of \<^verbatim>\<open>v\<close> and \<^verbatim>\<open>V\<close> is not bounded by
  the size of the buffer, so that 256 bits or more overrun it.
\<close>

theorem format_defects:
  assumes "49 \<le> d" and "d \<le> 57" and "a2d c < 0" and "c \<noteq> 108"
  shows "(text_at m p [d, 97, c] \<longrightarrow> parse_spec m p =
      Some \<lparr>sp_lz = False, sp_w = 10 * (unat d - 48) + 10, sp_lng = False, sp_char = c, sp_next = p + 3\<rparr>) \<and>
    (text_at (io_mem (snd k)) fmt [37, 0] \<longrightarrow> format_rtl fp putf fmt va k = format_rtl fp putf (fmt + 2) va k) \<and>
    ((sp_char sp = 118 \<or> sp_char sp = 86) \<and> 256 \<le> sp_w sp \<longrightarrow> conversion fp putf sp va k = None)"
proof (intro conjI impI)
  show "parse_spec m p =
      Some \<lparr>sp_lz = False, sp_w = 10 * (unat d - 48) + 10, sp_lng = False, sp_char = c, sp_next = p + 3\<rparr>"
    if "text_at m p [d, 97, c]"
    using width_swallows_specifier [OF assms that] .
  show "format_rtl fp putf fmt va k = format_rtl fp putf (fmt + 2) va k" if "text_at (io_mem (snd k)) fmt [37, 0]"
    using that by (simp add: text_at_Cons format_rtl.simps [of fp putf fmt] parse_spec_def conversion_def Let_def add.assoc)
  show "conversion fp putf sp va k = None" if "(sp_char sp = 118 \<or> sp_char sp = 86) \<and> 256 \<le> sp_w sp"
  proof (cases "va_ptr va")
    case (Some q)
    then show ?thesis
      using that pbits2a_overruns [of "sp_w sp" putf _ _ _ _ k] by (cases q) (auto simp: conversion_def Let_def)
  qed (use that in \<open>auto simp: conversion_def Let_def\<close>)
qed

theorem format_defects_witness:
  "parse_spec (io_mem (ex_io [53, 97, 33])) 0 =
     Some \<lparr>sp_lz = False, sp_w = 60, sp_lng = False, sp_char = 33, sp_next = 3\<rparr>"
  using format_defects [of 53 33 "io_mem (ex_io [53, 97, 33])" 0 undefined 0 ex_fp]
  by (simp add: a2d_def text_at_Cons ex_io_def)

end
