(* ===== verification/Runtime_Assert.thy ===== *)
theory Runtime_Assert
  imports Printf_Props
begin

text \<open>
  \<^verbatim>\<open>e_acsl_assert.h\<close>: how the runtime reports a violated annotation. The string literals of the
  functions are in memory, at the addresses of a record; the signal mask around \<^verbatim>\<open>vabort\<close>'s output
  and the trace of debug builds are not part of the state.
\<close>

section \<open>Definitions\<close>

datatype ending = Returned | Aborted | Exited u32

record assert_build =
  no_assert_fail :: bool
  fail_exitcode :: "u32 option"

record assert_literals =
  lit_failed :: u64
  lit_warning :: u64
  lit_ok :: u64
  lit_FAIL :: u64
  lit_vassert :: u64

definition exec_abort :: "io \<Rightarrow> ending \<times> io" where
  "exec_abort st = (Aborted, st)"

definition vabort :: "'d fp_ops \<Rightarrow> u64 \<Rightarrow> 'd va_arg list \<Rightarrow> io \<Rightarrow> (ending \<times> io) option" where
  "vabort fp fmt va st = do {
     k \<leftarrow> format_rtl fp charc_stderr fmt va (0, st);
     Some (exec_abort (snd k)) }"

text \<open>\<open>buf\<close> is the address of the local buffer, which holds the format with the position appended.\<close>

definition vassert_fail ::
  "'d fp_ops \<Rightarrow> assert_literals \<Rightarrow> u64 \<Rightarrow> bool \<Rightarrow> u32 \<Rightarrow> u64 \<Rightarrow> u64 \<Rightarrow> 'd va_arg list \<Rightarrow> io \<Rightarrow> (ending \<times> io) option" where
  "vassert_fail fp L buf expr line file fmt va st =
     (if \<not> expr then do {
        (_, st) \<leftarrow> rtl_sprintf fp buf (lit_vassert L) [VPtr fmt, VPtr file, VInt line] st;
        k \<leftarrow> format_rtl fp charc_stderr buf va (0, st);
        Some (exec_abort (snd k)) }
      else Some (Returned, st))"

definition runtime_assert ::
  "assert_build \<Rightarrow> 'd fp_ops \<Rightarrow> assert_literals \<Rightarrow> bool \<Rightarrow> bool \<Rightarrow> u64 \<Rightarrow> u64 \<Rightarrow> u64 \<Rightarrow> u32 \<Rightarrow> io
    \<Rightarrow> (ending \<times> io) option" where
  "runtime_assert bld fp L sound_verdict predicate kind fct pred_txt line st =
     (if sound_verdict then
        (if \<not> predicate then do {
           (_, st) \<leftarrow> rtl_eprintf fp (lit_failed L) [VPtr kind, VInt line, VPtr fct, VPtr pred_txt] st;
           Some (if no_assert_fail bld then (Returned, st)
             else case fail_exitcode bld of Some c \<Rightarrow> (Exited c, st) | None \<Rightarrow> exec_abort st) }
         else Some (Returned, st))
      else do {
        (_, st) \<leftarrow> rtl_eprintf fp (lit_warning L)
          [VPtr (if predicate then lit_ok L else lit_FAIL L), VInt line, VPtr fct, VPtr pred_txt] st;
        Some (Returned, st) })"

section \<open>The messages\<close>

definition bytes :: "string \<Rightarrow> u8 list" where
  "bytes s = map (\<lambda>c. of_nat (of_char c)) s"

abbreviation lits :: "string \<Rightarrow> directive list" where
  "lits s \<equiv> map Lit (bytes s)"

abbreviation newline :: string where
  "newline \<equiv> [CHR 0x0A]"

definition failed_format :: "u64 \<Rightarrow> u8 list \<Rightarrow> u32 \<Rightarrow> u64 \<Rightarrow> u8 list \<Rightarrow> u64 \<Rightarrow> u8 list \<Rightarrow> directive list" where
  "failed_format kind ks line fct fs pred_txt ps =
     [Str 0 kind ks] @ lits '' failed at line '' @ [Number False 0 False Signed (ucast line)] @ lits '' (function '' @
     [Str 0 fct fs] @ lits ('').'' @ newline @ ''The failing predicate is:'' @ newline) @ [Str 0 pred_txt ps] @
     lits (''.'' @ newline)"

definition warning_format :: "u64 \<Rightarrow> u8 list \<Rightarrow> u32 \<Rightarrow> u64 \<Rightarrow> u8 list \<Rightarrow> u64 \<Rightarrow> u8 list \<Rightarrow> directive list" where
  "warning_format v vs line fct fs pred_txt ps =
     lits ''warning: no sound verdict (guess: '' @ [Str 0 v vs] @ lits '') at line '' @
     [Number False 0 False Signed (ucast line)] @ lits '' (function '' @ [Str 0 fct fs] @
     lits ('').'' @ newline @ ''The considered predicate is:'' @ newline) @ [Str 0 pred_txt ps] @ lits (''.'' @ newline)"

definition literals_in :: "mem \<Rightarrow> assert_literals \<Rightarrow> bool" where
  "literals_in m L \<longleftrightarrow>
     text_at m (lit_failed L) (bytes (''%s failed at line %d (function %s).'' @ newline @
       ''The failing predicate is:'' @ newline @ ''%s.'' @ newline) @ [0]) \<and>
     text_at m (lit_warning L) (bytes (''warning: no sound verdict (guess: %s) at line %d (function %s).'' @ newline @
       ''The considered predicate is:'' @ newline @ ''%s.'' @ newline) @ [0]) \<and>
     text_at m (lit_ok L) (bytes ''ok'' @ [0]) \<and> text_at m (lit_FAIL L) (bytes ''FAIL'' @ [0])"

lemma concat_lits [simp]: "concat (map encode (lits s)) = bytes s" "concat (map render (lits s)) = bytes s"
  "concat (map dir_args (lits s)) = []"
  by (simp_all add: bytes_def comp_def concat_map_singleton)

lemma encode_failed:
  "concat (map encode (failed_format kind ks line fct fs pred_txt ps)) =
    bytes (''%s failed at line %d (function %s).'' @ newline @ ''The failing predicate is:'' @ newline @ ''%s.'' @ newline)"
  unfolding failed_format_def map_append concat_append concat_lits by (simp add: encode_spec_def bytes_def)

lemma encode_warning:
  "concat (map encode (warning_format v vs line fct fs pred_txt ps)) =
    bytes (''warning: no sound verdict (guess: %s) at line %d (function %s).'' @ newline @
      ''The considered predicate is:'' @ newline @ ''%s.'' @ newline)"
  unfolding warning_format_def map_append concat_append concat_lits by (simp add: encode_spec_def bytes_def)

lemma fold_charc_stderr:
  "fold charc_stderr cs (p, st) = (p, st\<lparr>io_out := io_out st @ map (\<lambda>c. (2, [c])) cs\<rparr>)"
  by (induction cs arbitrary: st) (simp_all add: charc_stderr_def write_fd_def)

lemma eprintf_renders:
  assumes "\<And>d. d \<in> set ds \<Longrightarrow> printable (io_mem st) d" and "text_at (io_mem st) fmt (concat (map encode ds) @ [0])"
  shows "rtl_eprintf fp fmt (concat (map dir_args ds)) st =
    Some (1, st\<lparr>io_out := io_out st @ map (\<lambda>c. (2, [c])) (concat (map render ds))\<rparr>)"
  using format_renders [OF charc_keep(2), of ds "(0, st)" fmt fp "[]"] assms
  by (simp add: rtl_eprintf_def fold_charc_stderr)

lemma lits_printable: "d \<in> set (lits s) \<Longrightarrow> 0 \<notin> set (bytes s) \<Longrightarrow> 37 \<notin> set (bytes s) \<Longrightarrow> printable m d"
  by auto

lemma ucast_round [simp]: "(ucast (ucast (x :: u32) :: u64) :: u32) = x"
  by (rule bit_word_eqI) (auto simp: bit_ucast_iff)

lemma bytes_append: "bytes (s @ t) = bytes s @ bytes t"
  by (simp add: bytes_def)

lemma failed_printable:
  assumes "sint line \<noteq> - (2 ^ 31)" and "text_at m kind (ks @ [0])" "0 \<notin> set ks" and "text_at m fct (fs @ [0])" "0 \<notin> set fs"
    and "text_at m pred_txt (ps @ [0])" "0 \<notin> set ps"
  shows "d \<in> set (failed_format kind ks line fct fs pred_txt ps) \<Longrightarrow> printable m d"
    and "d \<in> set (warning_format kind ks line fct fs pred_txt ps) \<Longrightarrow> printable m d"
  using assms unfolding failed_format_def warning_format_def by (auto simp: bytes_def)

text \<open>The texts that are printed.\<close>

definition failed_text :: "u8 list \<Rightarrow> u32 \<Rightarrow> u8 list \<Rightarrow> u8 list \<Rightarrow> u8 list" where
  "failed_text ks line fs ps = ks @ bytes '' failed at line '' @ signed_text (sint line) @ bytes '' (function '' @ fs @
     bytes ('').'' @ newline @ ''The failing predicate is:'' @ newline) @ ps @ bytes (''.'' @ newline)"

definition warning_text :: "bool \<Rightarrow> u32 \<Rightarrow> u8 list \<Rightarrow> u8 list \<Rightarrow> u8 list" where
  "warning_text p line fs ps = bytes ''warning: no sound verdict (guess: '' @ bytes (if p then ''ok'' else ''FAIL'') @
     bytes '') at line '' @ signed_text (sint line) @ bytes '' (function '' @ fs @
     bytes ('').'' @ newline @ ''The considered predicate is:'' @ newline) @ ps @ bytes (''.'' @ newline)"

definition on_stderr :: "u8 list \<Rightarrow> io \<Rightarrow> io" where
  "on_stderr cs st = st\<lparr>io_out := io_out st @ map (\<lambda>c. (2, [c])) cs\<rparr>"

text \<open>
  C25: \<^verbatim>\<open>runtime_assert\<close>, when its verdict is sound, does nothing for a true predicate; for a false one it
  prints kind, line, function and text of the annotation on the error stream and ends the program,
  by a signal or the configured exit code, unless the build lets failures pass. With an unsound
  verdict it prints a warning with its guess and always returns.
\<close>

theorem runtime_assert_correct:
  fixes fp :: "'d fp_ops"
  assumes "literals_in (io_mem st) L" and "sint line \<noteq> - (2 ^ 31)"
    and "text_at (io_mem st) kind (ks @ [0])" "0 \<notin> set ks" and "text_at (io_mem st) fct (fs @ [0])" "0 \<notin> set fs"
    and "text_at (io_mem st) pred_txt (ps @ [0])" "0 \<notin> set ps"
  shows "runtime_assert bld fp L sound p kind fct pred_txt line st =
    (if sound \<and> p then Some (Returned, st)
     else if sound then
       Some (if no_assert_fail bld then Returned else case fail_exitcode bld of Some c \<Rightarrow> Exited c | None \<Rightarrow> Aborted,
         on_stderr (failed_text ks line fs ps) st)
     else Some (Returned, on_stderr (warning_text p line fs ps) st))"
proof -
  let ?v = "if p then lit_ok L else lit_FAIL L" and ?vs = "bytes (if p then ''ok'' else ''FAIL'')"
  let ?f = "failed_format kind ks line fct fs pred_txt ps" and ?w = "warning_format ?v ?vs line fct fs pred_txt ps"
  have lit: "text_at (io_mem st) (lit_failed L) (concat (map encode ?f) @ [0])"
      "text_at (io_mem st) (lit_warning L) (concat (map encode ?w) @ [0])" "text_at (io_mem st) ?v (?vs @ [0])"
    using assms(1) unfolding encode_failed encode_warning literals_in_def by simp_all
  have v0: "0 \<notin> set ?vs" by (simp add: bytes_def)
  have args: "concat (map dir_args ?f) = [VPtr kind, VInt line, VPtr fct, VPtr pred_txt :: 'd va_arg]"
      "concat (map dir_args ?w) = [VPtr ?v, VInt line, VPtr fct, VPtr pred_txt :: 'd va_arg]"
    unfolding failed_format_def warning_format_def map_append concat_append concat_lits by simp_all
  have shown: "concat (map render ?f) = failed_text ks line fs ps" "concat (map render ?w) = warning_text p line fs ps"
    unfolding failed_format_def warning_format_def failed_text_def warning_text_def map_append concat_append concat_lits
    by (simp_all add: padded_def)
  have pr: "rtl_eprintf fp (lit_failed L) [VPtr kind, VInt line, VPtr fct, VPtr pred_txt] st =
      Some (1, on_stderr (failed_text ks line fs ps) st)"
    using eprintf_renders [OF failed_printable(1) [OF assms(2-8)] lit(1), of fp] unfolding args shown on_stderr_def .
  have wr: "rtl_eprintf fp (lit_warning L) [VPtr ?v, VInt line, VPtr fct, VPtr pred_txt] st =
      Some (1, on_stderr (warning_text p line fs ps) st)"
    using eprintf_renders [OF failed_printable(2) [OF assms(2) lit(3) v0 assms(5-8)] lit(2), of fp]
    unfolding args shown on_stderr_def .
  show ?thesis
    unfolding runtime_assert_def pr wr by (simp add: exec_abort_def split: option.split)
qed

definition ex_lits :: assert_literals where
  "ex_lits = \<lparr>lit_failed = 0x1000, lit_warning = 0x2000, lit_ok = 0x3000, lit_FAIL = 0x3100, lit_vassert = 0x3200\<rparr>"

text \<open>A memory with several texts, each in the area that starts at its address.\<close>

fun ex_place :: "(u64 \<times> u8 list) list \<Rightarrow> mem" where
  "ex_place [] a = 0"
| "ex_place ((p, cs) # ts) a = (if unat (a - p) < length cs then cs ! unat (a - p) else ex_place ts a)"

lemma text_at_here: "length cs < 2 ^ 64 \<Longrightarrow> text_at (ex_place ((p, cs) # ts)) p cs"
  by (simp add: text_at_def unat_of_nat_64)

lemma text_at_later:
  assumes "text_at (ex_place ts) q ds" and "unat p + length cs \<le> unat q" and "unat q + length ds < 2 ^ 64"
  shows "text_at (ex_place ((p, cs) # ts)) q ds"
proof -
  have "\<not> unat (q + of_nat i - p) < length cs" if "i < length ds" for i
  proof -
    have u: "unat (q + of_nat i) = unat q + i" using assms(3) that by (simp add: unat_add_64 unat_of_nat_64)
    then have "p \<le> q + of_nat i" using assms(2) by (simp add: word_le_nat_alt)
    then show ?thesis using u assms(2) by (simp add: unat_sub_64)
  qed
  then show ?thesis using assms(1) by (simp add: text_at_def)
qed

definition ex_failed :: "u8 list" where
  "ex_failed = bytes (''%s failed at line %d (function %s).'' @ newline @
     ''The failing predicate is:'' @ newline @ ''%s.'' @ newline) @ [0]"

definition ex_warning :: "u8 list" where
  "ex_warning = bytes (''warning: no sound verdict (guess: %s) at line %d (function %s).'' @ newline @
     ''The considered predicate is:'' @ newline @ ''%s.'' @ newline) @ [0]"

definition ex_assert_io :: io where
  "ex_assert_io = \<lparr>io_mem = ex_place [(0x1000, ex_failed), (0x2000, ex_warning), (0x3000, bytes ''ok'' @ [0]),
     (0x3100, bytes ''FAIL'' @ [0]), (0x4000, bytes ''Assertion'' @ [0]), (0x4100, bytes ''main'' @ [0]), (0x4200, bytes ''x'' @ [0])],
     io_out = []\<rparr>"

lemma ex_lengths: "length ex_failed = 67" "length ex_warning = 98"
  by (simp_all add: ex_failed_def ex_warning_def bytes_def)

lemma ex_assert_texts:
  "literals_in (io_mem ex_assert_io) ex_lits"
  "text_at (io_mem ex_assert_io) 0x4000 (bytes ''Assertion'' @ [0])"
  "text_at (io_mem ex_assert_io) 0x4100 (bytes ''main'' @ [0])" "text_at (io_mem ex_assert_io) 0x4200 (bytes ''x'' @ [0])"
proof -
  have a: "text_at (io_mem ex_assert_io) 0x1000 ex_failed"
    unfolding ex_assert_io_def io.simps by (rule text_at_here) (simp add: ex_lengths)
  have b: "text_at (io_mem ex_assert_io) 0x2000 ex_warning"
    unfolding ex_assert_io_def io.simps by (intro text_at_later text_at_here) (simp_all add: ex_lengths)
  have c: "text_at (io_mem ex_assert_io) 0x3000 (bytes ''ok'' @ [0])" "text_at (io_mem ex_assert_io) 0x3100 (bytes ''FAIL'' @ [0])"
    unfolding ex_assert_io_def io.simps by (intro text_at_later text_at_here; simp add: ex_lengths bytes_def)+
  show "literals_in (io_mem ex_assert_io) ex_lits"
    unfolding literals_in_def using a b c unfolding ex_failed_def ex_warning_def by (simp add: ex_lits_def)
  show "text_at (io_mem ex_assert_io) 0x4000 (bytes ''Assertion'' @ [0])"
    "text_at (io_mem ex_assert_io) 0x4100 (bytes ''main'' @ [0])" "text_at (io_mem ex_assert_io) 0x4200 (bytes ''x'' @ [0])"
    unfolding ex_assert_io_def io.simps by (intro text_at_later text_at_here; simp add: ex_lengths bytes_def)+
qed

theorem runtime_assert_correct_witness:
  "\<exists>st. runtime_assert \<lparr>no_assert_fail = False, fail_exitcode = None\<rparr> ex_fp ex_lits True False 0x4000 0x4100 0x4200 7 ex_assert_io =
    Some (Aborted, st)"
proof -
  have z: "0 \<notin> set (bytes ''Assertion'')" "0 \<notin> set (bytes ''main'')" "0 \<notin> set (bytes ''x'')" by (simp_all add: bytes_def)
  have l: "sint (7 :: u32) \<noteq> - (2 ^ 31)" by simp
  show ?thesis
    using runtime_assert_correct [OF ex_assert_texts(1) l ex_assert_texts(2) z(1) ex_assert_texts(3) z(2) ex_assert_texts(4) z(3),
        of "\<lparr>no_assert_fail = False, fail_exitcode = None\<rparr>" ex_fp True False]
    by simp
qed

end
