(* ===== verification/Runtime_String.thy ===== *)
theory Runtime_String
  imports Libc_String_Loops
begin

text \<open>
  \<^verbatim>\<open>e_acsl_string.h\<close>: the string helpers of the runtime, over the library functions of
  \<^verbatim>\<open>Libc_String\<close>, and what they compute. \<^verbatim>\<open>private_malloc\<close> and \<^verbatim>\<open>private_realloc\<close> are parameters, as is
  the address of the static array \<^verbatim>\<open>zeroblock\<close>.
\<close>

section \<open>Definitions\<close>

definition nstrcat :: "u64 \<Rightarrow> u64 \<Rightarrow> mem \<Rightarrow> (u64 \<times> mem) option" where
  "nstrcat dest src m = do {
     d \<leftarrow> strlen dest m;
     l \<leftarrow> strlen src m;
     Some (dest, snd (memcpy (dest + d) src (l + 1) m)) }"

definition nstrdup :: "(u64 \<Rightarrow> u64) \<Rightarrow> u64 \<Rightarrow> mem \<Rightarrow> (u64 \<times> mem) option" where
  "nstrdup mall s m =
     (if s \<noteq> 0 then do {
        l \<leftarrow> strlen s m;
        let len = l + 1;
        let n = mall len;
        Some (if n = 0 then (0, m) else memcpy n s len m) }
      else Some (0, m))"

text \<open>A failing \<^verbatim>\<open>private_realloc\<close> makes \<^verbatim>\<open>nstrcat\<close> read the null pointer.\<close>

definition sappend ::
  "(u64 \<Rightarrow> u64) \<Rightarrow> (u64 \<Rightarrow> u64 \<Rightarrow> mem \<Rightarrow> u64 \<times> mem) \<Rightarrow> u64 \<Rightarrow> u64 \<Rightarrow> u64 \<Rightarrow> mem \<Rightarrow> (u64 \<times> mem) option" where
  "sappend mall reall dest src delim m =
     (if dest = 0 \<and> src \<noteq> 0 then nstrdup mall src m
      else if src \<noteq> 0 \<and> dest \<noteq> 0 then do {
        ldelim \<leftarrow> (if delim \<noteq> 0 then strlen delim m else Some 0);
        ls \<leftarrow> strlen src m;
        ld \<leftarrow> strlen dest m;
        let len = ls + ld + 1;
        let len = (if ldelim \<noteq> 0 then len + ldelim else len);
        let (dest, m) = reall dest len m;
        if dest = 0 then None
        else do {
          (dest, m) \<leftarrow> (if ldelim \<noteq> 0 then nstrcat dest delim m else Some (dest, m));
          nstrcat dest src m } }
      else Some (dest, m))"

definition endswith :: "u64 \<Rightarrow> u64 \<Rightarrow> mem \<Rightarrow> int option" where
  "endswith str pat m =
     (if str \<noteq> 0 \<and> pat \<noteq> 0 then do {
        slen \<leftarrow> strlen str m;
        plen \<leftarrow> strlen pat m;
        Some (if slen \<ge> plen then strncmp (str + (slen - plen)) pat plen m else 1) }
      else Some 1)"

definition ZERO_BLOCK_SIZE :: u64 where "ZERO_BLOCK_SIZE = 1024"

fun zeroed_loop :: "u64 \<Rightarrow> u64 \<Rightarrow> nat \<Rightarrow> mem \<Rightarrow> u64 option" where
  "zeroed_loop zb pc 0 m = Some pc"
| "zeroed_loop zb pc (Suc i) m =
     (if memcmp pc zb ZERO_BLOCK_SIZE m \<noteq> 0 then None else zeroed_loop zb (pc + ZERO_BLOCK_SIZE) i m)"

text \<open>\<open>zeroed_loop\<close> is \<open>None\<close> when the loop returns 0.\<close>

definition zeroed_out :: "u64 \<Rightarrow> u64 \<Rightarrow> u64 \<Rightarrow> mem \<Rightarrow> bool" where
  "zeroed_out zb p sz m =
     (let lim = sz div ZERO_BLOCK_SIZE; rem = sz mod ZERO_BLOCK_SIZE
      in case zeroed_loop zb p (unat lim) m of
           None \<Rightarrow> False
         | Some pc \<Rightarrow> memcmp pc zb rem m = 0)"

partial_function (option) charcount_loop :: "mem \<Rightarrow> u8 \<Rightarrow> u64 \<Rightarrow> int \<Rightarrow> int option" where
  "charcount_loop m c s n = do {
     q \<leftarrow> strchr s (scast c) m;
     if q = 0 then Some n
     else if n = 2 ^ 31 - 1 then None
     else charcount_loop m c (q + 1) (n + 1) }"

definition charcount :: "u64 \<Rightarrow> u8 \<Rightarrow> mem \<Rightarrow> int option" where
  "charcount s c m = charcount_loop m c s 0"

section \<open>Comparison loops\<close>

lemma chr_diff_0 [simp]: "chr_diff a b = 0 \<longleftrightarrow> a = b"
  by (simp add: chr_diff_def word_uint_eq_iff)

lemma memcmp_loop_0:
  "memcmp_loop m s1 s2 k i = 0 \<longleftrightarrow> (\<forall>j<k. m (s1 + (i + of_nat j)) = m (s2 + (i + of_nat j)))"
proof (induction k arbitrary: i)
  case (Suc k)
  then show ?case
    by (cases "m (s1 + i) = m (s2 + i)") (auto simp: All_less_Suc2 add.assoc)
qed simp

lemma memcmp_0: "memcmp s1 s2 n m = 0 \<longleftrightarrow> (\<forall>j<unat n. m (s1 + of_nat j) = m (s2 + of_nat j))"
  using memcmp_loop_0 [of m s1 s2 "unat n" 0] by (simp add: memcmp_def)

text \<open>On strings without a null byte in the range, \<^verbatim>\<open>strncmp\<close> is \<^verbatim>\<open>memcmp\<close>.\<close>

lemma strncmp_loop_0:
  "(\<And>j. j < k \<Longrightarrow> m (s2 + (i + of_nat j)) \<noteq> 0) \<Longrightarrow>
    strncmp_loop m s1 s2 k i = 0 \<longleftrightarrow> (\<forall>j<k. m (s1 + (i + of_nat j)) = m (s2 + (i + of_nat j)))"
proof (induction k arbitrary: i)
  case (Suc k)
  have "m (s2 + i) \<noteq> 0" using Suc.prems [of 0] by simp
  moreover have "m (s2 + (i + 1 + of_nat j)) \<noteq> 0" if "j < k" for j using Suc.prems [of "Suc j"] that by (simp add: add.assoc)
  ultimately show ?case
    using Suc.IH [of "i + 1"] by (cases "m (s1 + i) = m (s2 + i)") (auto simp: All_less_Suc2 add.assoc)
qed simp

section \<open>Correctness\<close>

lemma endswith_eq_0:
  assumes "terminated m str k" and "terminated m pat l" and "str \<noteq> 0" and "pat \<noteq> 0"
  shows "\<exists>r. endswith str pat m = Some r \<and>
    (r = 0 \<longleftrightarrow> l \<le> k \<and> (\<forall>j<l. m (str + of_nat (k - l + j)) = m (pat + of_nat j)))"
proof (cases "l \<le> k")
  case True
  have k: "k < 2 ^ 64" "l < 2 ^ 64" using terminated_less assms(1,2) by blast+
  have "strncmp (str + (of_nat k - of_nat l)) pat (of_nat l) m = 0 \<longleftrightarrow>
      (\<forall>j<l. m (str + of_nat (k - l + j)) = m (pat + of_nat j))"
    using strncmp_loop_0 [of l m pat 0 "str + (of_nat k - of_nat l)"] assms(2) True k
    by (simp add: strncmp_def terminated_def unat_of_nat_64 of_nat_diff add.assoc diff_add_eq)
  moreover have "(of_nat l :: u64) \<le> of_nat k" using True k by (simp add: word_le_nat_alt unat_of_nat_64)
  ultimately show ?thesis using strlen_eq [OF assms(1)] strlen_eq [OF assms(2)] assms(3,4) True by (simp add: endswith_def)
next
  case False
  have k: "k < 2 ^ 64" "l < 2 ^ 64" using terminated_less assms(1,2) by blast+
  then have "\<not> (of_nat l :: u64) \<le> of_nat k" using False by (simp add: word_le_nat_alt unat_of_nat_64)
  then show ?thesis using strlen_eq [OF assms(1)] strlen_eq [OF assms(2)] assms(3,4) False by (simp add: endswith_def)
qed

lemma zeroed_loop_spec:
  assumes "\<And>i. i < 1024 \<Longrightarrow> m (zb + of_nat i) = 0"
  shows "zeroed_loop zb p k m = (if \<forall>i<1024 * k. m (p + of_nat i) = 0 then Some (p + of_nat (1024 * k)) else None)"
proof (induction k arbitrary: p)
  case (Suc k)
  have z: "memcmp p zb ZERO_BLOCK_SIZE m = 0 \<longleftrightarrow> (\<forall>i<1024. m (p + of_nat i) = 0)"
    using assms by (simp add: memcmp_0 ZERO_BLOCK_SIZE_def)
  have "(\<forall>i<1024 * Suc k. m (p + of_nat i) = 0) \<longleftrightarrow>
      (\<forall>i<1024. m (p + of_nat i) = 0) \<and> (\<forall>i<1024 * k. m (p + 1024 + of_nat i) = 0)" (is "?L \<longleftrightarrow> ?A \<and> ?B")
  proof
    assume L: ?L
    have "m (p + 1024 + of_nat i) = 0" if "i < 1024 * k" for i
      using L [rule_format, of "1024 + i"] that by (simp add: add.assoc)
    then show "?A \<and> ?B" using L by simp
  next
    assume AB: "?A \<and> ?B"
    have "m (p + of_nat i) = 0" if "i < 1024 * Suc k" for i
    proof (cases "i < 1024")
      case False
      then have "m (p + 1024 + of_nat (i - 1024)) = 0" using AB [THEN conjunct2, rule_format, of "i - 1024"] that by simp
      moreover have "p + 1024 + of_nat (i - 1024) = p + of_nat i" using False by (simp add: of_nat_diff not_less)
      ultimately show ?thesis by simp
    qed (use AB in simp)
    then show ?L by blast
  qed
  then show ?case using Suc.IH [of "p + 1024"] z by (simp add: ZERO_BLOCK_SIZE_def add.assoc)
qed simp

lemma zeroed_out_iff:
  assumes "\<And>i. i < 1024 \<Longrightarrow> m (zb + of_nat i) = 0"
  shows "zeroed_out zb p sz m \<longleftrightarrow> (\<forall>i<unat sz. m (p + of_nat i) = 0)"
proof -
  define q r where "q = unat sz div 1024" and "r = unat sz mod 1024"
  have sz: "unat sz = 1024 * q + r" "r < 1024" by (simp_all add: q_def r_def)
  have u: "unat (sz div ZERO_BLOCK_SIZE) = q" "unat (sz mod ZERO_BLOCK_SIZE) = r"
    by (simp_all add: ZERO_BLOCK_SIZE_def q_def r_def unat_div unat_mod)
  have last: "memcmp (p + of_nat (1024 * q)) zb (sz mod ZERO_BLOCK_SIZE) m = 0 \<longleftrightarrow> (\<forall>i<r. m (p + of_nat (1024 * q + i)) = 0)"
    using assms sz(2) unfolding memcmp_0 u by (auto simp: add.assoc)
  have "(\<forall>i<unat sz. m (p + of_nat i) = 0) \<longleftrightarrow>
      (\<forall>i<1024 * q. m (p + of_nat i) = 0) \<and> (\<forall>i<r. m (p + of_nat (1024 * q + i)) = 0)" (is "?L \<longleftrightarrow> ?A \<and> ?B")
  proof
    assume L: ?L
    show "?A \<and> ?B" using L sz(1) by (auto simp del: of_nat_add of_nat_mult)
  next
    assume AB: "?A \<and> ?B"
    have "m (p + of_nat i) = 0" if "i < unat sz" for i
      using AB [THEN conjunct2, rule_format, of "i - 1024 * q"] AB that sz(1) by (cases "i < 1024 * q") auto
    then show ?L by blast
  qed
  then show ?thesis
    using zeroed_loop_spec [of m zb p q] assms last unfolding zeroed_out_def Let_def u by (auto split: option.split)
qed

definition occurrences :: "mem \<Rightarrow> u8 \<Rightarrow> u64 \<Rightarrow> nat \<Rightarrow> nat" where
  "occurrences m c s k = card {j. j < k \<and> m (s + of_nat j) = c}"

lemma occurrences_split:
  assumes "t < k" and "m (s + of_nat t) = c" and "\<And>j. j < t \<Longrightarrow> m (s + of_nat j) \<noteq> c"
  shows "occurrences m c s k = Suc (occurrences m c (s + of_nat (t + 1)) (k - (t + 1)))"
proof -
  let ?A = "{j. j < k - (t + 1) \<and> m (s + of_nat (t + 1) + of_nat j) = c}"
  have "{j. j < k \<and> m (s + of_nat j) = c} = insert t ((\<lambda>j. t + 1 + j) ` ?A)"
  proof (intro set_eqI iffI)
    fix j assume j: "j \<in> {j. j < k \<and> m (s + of_nat j) = c}"
    then have "t \<le> j" using assms(3) [of j] by force
    show "j \<in> insert t ((\<lambda>j. t + 1 + j) ` ?A)"
    proof (cases "j = t")
      case False
      then have "j = t + 1 + (j - (t + 1))" using \<open>t \<le> j\<close> by simp
      moreover have "j - (t + 1) \<in> ?A"
        using j False \<open>t \<le> j\<close> by (auto simp: of_nat_diff)
      ultimately show ?thesis by blast
    qed simp
  next
    fix j assume "j \<in> insert t ((\<lambda>j. t + 1 + j) ` ?A)"
    then show "j \<in> {j. j < k \<and> m (s + of_nat j) = c}" using assms(1,2) by (auto simp: algebra_simps)
  qed
  moreover have "t \<notin> (\<lambda>j. t + 1 + j) ` ?A" by auto
  moreover have "card ((\<lambda>j. t + 1 + j) ` ?A) = card ?A" by (rule card_image) (auto simp: inj_on_def)
  ultimately show ?thesis by (simp add: occurrences_def)
qed

lemma terminated_suffix: "terminated m s k \<Longrightarrow> t \<le> k \<Longrightarrow> terminated m (s + of_nat t) (k - t)"
  by (auto simp: terminated_def add.assoc simp flip: of_nat_add)

lemma charcount_loop_counts:
  assumes "terminated m s k" and "c \<noteq> 0" and "s \<noteq> 0" and "unat s + k < 2 ^ 64" and "0 \<le> n"
    and "n + int (occurrences m c s k) < 2 ^ 31"
  shows "charcount_loop m c s n = Some (n + int (occurrences m c s k))"
  using assms
proof (induction k arbitrary: s n rule: less_induct)
  case (less k)
  have cc: "ucast (scast c :: u32) = c" by (rule bit_word_eqI) (auto simp: bit_ucast_iff bit_signed_iff)
  show ?case
  proof (cases "\<exists>j<k. m (s + of_nat j) = c")
    case True
    then obtain j where "j < k" "m (s + of_nat j) = c" by blast
    then obtain t where t: "t \<le> j" "m (s + of_nat t) = c" "\<And>j. j < t \<Longrightarrow> m (s + of_nat j) \<noteq> c"
      using first_index [of "\<lambda>t. m (s + of_nat t) = c" j] by blast
    have tk: "t < k" using t(1) \<open>j < k\<close> by simp
    have fnd: "strchr s (scast c) m = Some (s + of_nat t)"
      using strchr_loop_steps [of t m s 0 c] t tk less.prems(1) by (auto simp: strchr_def cc terminated_def)
    note oc = occurrences_split [of t k m s c, OF tk t(2,3)]
    have u: "unat (s + of_nat t) = unat s + t" "unat (s + of_nat (t + 1)) = unat s + (t + 1)"
      using less.prems(4) tk by (simp_all add: unat_add_64 unat_of_nat_64 del: of_nat_add of_nat_Suc)
    have nz: "s + of_nat t \<noteq> 0" "s + of_nat (t + 1) \<noteq> 0"
      using u less.prems(3) unat_gt_0 [of s] by (metis add_is_0 unat_0 unat_eq_zero, metis add_is_0 unat_0 one_neq_zero)
    have "charcount_loop m c (s + of_nat (t + 1)) (n + 1) = Some (n + 1 + int (occurrences m c (s + of_nat (t + 1)) (k - (t + 1))))"
    proof (rule less.IH)
      show "terminated m (s + of_nat (t + 1)) (k - (t + 1))" using terminated_suffix [OF less.prems(1), of "t + 1"] tk by simp
    qed (use tk less.prems(2,4-6) nz(2) u(2) oc in simp_all)
    then show ?thesis
      using fnd nz(1) oc less.prems(6) by (simp add: charcount_loop.simps [of m c s n] ac_simps)
  next
    case False
    then have "strchr s (scast c) m = Some 0"
      using strchr_loop_steps [of k m s 0 c] less.prems(1,2) by (auto simp: strchr_def cc terminated_def)
    moreover have "occurrences m c s k = 0" using False by (simp add: occurrences_def)
    ultimately show ?thesis by (simp add: charcount_loop.simps [of m c s n])
  qed
qed

text \<open>
  The string helpers compute what their comments say. For two strings \<^verbatim>\<open>endswith\<close> returns, and
  returns 0 iff the first ends with the second; \<^verbatim>\<open>zeroed_out\<close> is true iff all bytes of the area are
  zero, for every size; \<^verbatim>\<open>charcount\<close> returns the number of occurrences of a character that is not
  null, when it is in the range of \<^verbatim>\<open>int\<close>.
\<close>

theorem string_helpers_correct:
  assumes "terminated m str k" and "terminated m pat l" and "str \<noteq> 0" and "pat \<noteq> 0"
    and "\<And>i. i < 1024 \<Longrightarrow> m (zb + of_nat i) = 0"
    and "c \<noteq> 0" and "unat str + k < 2 ^ 64" and "occurrences m c str k < 2 ^ 31"
  shows "(\<exists>r. endswith str pat m = Some r \<and>
      (r = 0 \<longleftrightarrow> l \<le> k \<and> (\<forall>j<l. m (str + of_nat (k - l + j)) = m (pat + of_nat j)))) \<and>
    (zeroed_out zb p sz m \<longleftrightarrow> (\<forall>i<unat sz. m (p + of_nat i) = 0)) \<and>
    charcount str c m = Some (int (occurrences m c str k))"
proof (intro conjI)
  show "\<exists>r. endswith str pat m = Some r \<and>
      (r = 0 \<longleftrightarrow> l \<le> k \<and> (\<forall>j<l. m (str + of_nat (k - l + j)) = m (pat + of_nat j)))"
    by (rule endswith_eq_0 [OF assms(1-4)])
  show "zeroed_out zb p sz m \<longleftrightarrow> (\<forall>i<unat sz. m (p + of_nat i) = 0)"
    using zeroed_out_iff [of m zb p sz] assms(5) by blast
  show "charcount str c m = Some (int (occurrences m c str k))"
    using charcount_loop_counts [OF assms(1,6,3,7), of 0] assms(8) by (simp add: charcount_def)
qed

definition ex_text :: mem where
  "ex_text a = (if a = 16 then 97 else if a = 17 then 98 else if a = 32 then 98 else 0)"

theorem string_helpers_correct_witness: "endswith 16 32 ex_text = Some 0 \<and> zeroed_out 4096 18 12 ex_text"
proof -
  have two: "j = 0 \<or> j = 1" if "j < 2" for j :: nat using that by linarith
  have t: "terminated ex_text 16 2" "terminated ex_text 32 1"
    by (auto simp: terminated_def ex_text_def dest!: two)
  have z: "ex_text (4096 + of_nat i) = 0" if "i < 1024" for i
  proof -
    have "unat (4096 + of_nat i :: u64) = 4096 + i" using that by (simp add: unat_add_64 unat_of_nat_64)
    then have "4096 + of_nat i \<noteq> (16 :: u64)" "4096 + of_nat i \<noteq> (17 :: u64)" "4096 + of_nat i \<noteq> (32 :: u64)"
      by (auto simp: word_unat_eq_iff)
    then show ?thesis by (simp add: ex_text_def)
  qed
  have "occurrences ex_text 97 16 2 \<le> card {..<2 :: nat}"
    unfolding occurrences_def by (rule card_mono) auto
  then have o: "occurrences ex_text 97 16 2 < 2 ^ 31" by simp
  have p: "ex_text (18 + of_nat i) = 0" if "i < 12" for i
  proof -
    have "unat (18 + of_nat i :: u64) = 18 + i" using that by (simp add: unat_add_64 unat_of_nat_64)
    then have "18 + of_nat i \<noteq> (16 :: u64)" "18 + of_nat i \<noteq> (17 :: u64)" "18 + of_nat i \<noteq> (32 :: u64)"
      using that by (auto simp: word_unat_eq_iff)
    then show ?thesis by (simp add: ex_text_def)
  qed
  have "\<forall>i<unat (12 :: u64). ex_text (18 + of_nat i) = 0" using p by simp
  moreover have "ex_text (16 + of_nat (2 - 1 + 0)) = ex_text (32 + of_nat 0)" by (simp add: ex_text_def)
  ultimately show ?thesis
    using string_helpers_correct [of ex_text 16 2 32 1 4096 97 18 12, OF t _ _ z _ _ o] by auto
qed

end
