(* ===== verification/Libc_Builtin.thy ===== *)
theory Libc_Builtin
  imports Memory_Model "HOL-Library.Stream" "HOL-Library.State_Monad"
begin

text \<open>
  \<^verbatim>\<open>__fc_builtin.c\<close>: the sources of nondeterminism the library stubs are written with. The volatile
  variable \<^verbatim>\<open>Frama_C_entropy_source\<close> is a stream of \<^verbatim>\<open>int\<close> values, one for each time it is read; the
  functions run in a state monad over it and the memory.
\<close>

section \<open>Definitions\<close>

record libc_state =
  entropy :: "u32 stream"
  lmem :: mem

definition read_entropy :: "('a libc_state_scheme, int) state" where
  "read_entropy = State (\<lambda>s. (sint (shd (entropy s)), s\<lparr>entropy := stl (entropy s)\<rparr>))"

text \<open>The assignment of the variable to itself reads it once; what is written is not seen again.\<close>

definition Frama_C_update_entropy :: "('a libc_state_scheme, unit) state" where
  "Frama_C_update_entropy = do { _ \<leftarrow> read_entropy; State_Monad.return () }"

definition store_byte :: "u64 \<Rightarrow> u8 \<Rightarrow> ('a libc_state_scheme, unit) state" where
  "store_byte p c = State_Monad.update (\<lambda>s. s\<lparr>lmem := (lmem s)(p := c)\<rparr>)"

text \<open>The loop of \<^verbatim>\<open>Frama_C_make_unknown\<close>, with the number of iterations left.\<close>

fun make_unknown_loop :: "u64 \<Rightarrow> nat \<Rightarrow> u64 \<Rightarrow> ('a libc_state_scheme, unit) state" where
  "make_unknown_loop p 0 i = State_Monad.return ()"
| "make_unknown_loop p (Suc k) i = do {
     x \<leftarrow> read_entropy;
     store_byte (p + i) (word_of_int x);
     make_unknown_loop p k (i + 1) }"

definition Frama_C_make_unknown :: "u64 \<Rightarrow> u64 \<Rightarrow> ('a libc_state_scheme, unit) state" where
  "Frama_C_make_unknown p l = do { Frama_C_update_entropy; make_unknown_loop p (unat l) 0 }"

definition Frama_C_nondet :: "int \<Rightarrow> int \<Rightarrow> ('a libc_state_scheme, int) state" where
  "Frama_C_nondet a b = do {
     Frama_C_update_entropy;
     x \<leftarrow> read_entropy;
     State_Monad.return (if x \<noteq> 0 then a else b) }"

definition Frama_C_nondet_ptr :: "u64 \<Rightarrow> u64 \<Rightarrow> ('a libc_state_scheme, u64) state" where
  "Frama_C_nondet_ptr a b = do {
     Frama_C_update_entropy;
     x \<leftarrow> read_entropy;
     State_Monad.return (if x \<noteq> 0 then a else b) }"

definition Frama_C_interval :: "int \<Rightarrow> int \<Rightarrow> ('a libc_state_scheme, int) state" where
  "Frama_C_interval lo hi = do {
     Frama_C_update_entropy;
     aux \<leftarrow> read_entropy;
     State_Monad.return (if aux \<ge> lo \<and> aux \<le> hi then aux else lo) }"

text \<open>Here the \<^verbatim>\<open>int\<close> is converted to a \<^verbatim>\<open>char\<close>, which is signed.\<close>

definition Frama_C_char_interval :: "int \<Rightarrow> int \<Rightarrow> ('a libc_state_scheme, int) state" where
  "Frama_C_char_interval lo hi = do {
     Frama_C_update_entropy;
     x \<leftarrow> read_entropy;
     let aux = sint (word_of_int x :: u8);
     State_Monad.return (if aux \<ge> lo \<and> aux \<le> hi then aux else lo) }"

section \<open>Running the functions\<close>

lemma run_read_entropy [simp]: "run_state read_entropy s = (sint (shd (entropy s)), s\<lparr>entropy := stl (entropy s)\<rparr>)"
  by (simp add: read_entropy_def)

lemma run_update_entropy [simp]: "run_state Frama_C_update_entropy s = ((), s\<lparr>entropy := stl (entropy s)\<rparr>)"
  by (simp add: Frama_C_update_entropy_def)

lemma run_bind [simp]: "run_state (State_Monad.bind x f) s = (let (a, s') = run_state x s in run_state (f a) s')"
  by (simp add: State_Monad.bind_def)

lemma run_store_byte [simp]: "run_state (store_byte p c) s = ((), s\<lparr>lmem := (lmem s)(p := c)\<rparr>)"
  by (simp add: store_byte_def State_Monad.update_def State_Monad.get_def State_Monad.set_def)

text \<open>The value a call draws is the second of the stream; the call moves the stream on by two.\<close>

abbreviation drawn :: "'a libc_state_scheme \<Rightarrow> int" where
  "drawn s \<equiv> sint (shd (stl (entropy s)))"

abbreviation after_draw :: "'a libc_state_scheme \<Rightarrow> 'a libc_state_scheme" where
  "after_draw s \<equiv> s\<lparr>entropy := stl (stl (entropy s))\<rparr>"

lemma run_nondet [simp]: "run_state (Frama_C_nondet a b) s = (if drawn s \<noteq> 0 then a else b, after_draw s)"
  by (simp add: Frama_C_nondet_def)

lemma run_nondet_ptr [simp]: "run_state (Frama_C_nondet_ptr a b) s = (if drawn s \<noteq> 0 then a else b, after_draw s)"
  by (simp add: Frama_C_nondet_ptr_def)

lemma run_interval:
  "run_state (Frama_C_interval lo hi) s = (if lo \<le> drawn s \<and> drawn s \<le> hi then drawn s else lo, after_draw s)"
  by (simp add: Frama_C_interval_def)

lemma run_char_interval:
  "run_state (Frama_C_char_interval lo hi) s =
     (let c = sint (word_of_int (drawn s) :: u8) in if lo \<le> c \<and> c \<le> hi then c else lo, after_draw s)"
  by (simp add: Frama_C_char_interval_def Let_def)

lemma run_make_unknown_loop:
  assumes "k \<le> 2 ^ 64"
  shows "run_state (make_unknown_loop p k i) s = ((), s\<lparr>entropy := sdrop k (entropy s),
     lmem := (\<lambda>a. if inside (p + i) k a then word_of_int (sint (entropy s !! unat (a - (p + i)))) else lmem s a)\<rparr>)"
  using assms
proof (induction k arbitrary: i s)
  case 0
  then show ?case by (simp add: inside_def)
next
  case (Suc k)
  have e: "unat (a - (p + (i + 1))) = unat (a - (p + i)) - 1" if "a \<noteq> p + i" for a
  proof -
    have "a - (p + i) \<noteq> 0" using that by simp
    then have "1 \<le> a - (p + i)" by (metis word_gt_0 inc_le add_0)
    then have "unat (a - (p + i) - 1) = unat (a - (p + i)) - 1" by (simp add: unat_sub_64)
    then show ?thesis by (simp add: algebra_simps)
  qed
  have at: "\<not> inside (p + (i + 1)) k (p + i)"
  proof -
    have "p + i - (p + (i + 1)) = (- 1 :: u64)" by simp
    then have "unat (p + i - (p + (i + 1))) = 2 ^ 64 - 1" using unat_minus_1_64 by metis
    then show ?thesis using Suc.prems by (simp add: inside_def)
  qed
  have "(if inside (p + (i + 1)) k a then word_of_int (sint (stl (entropy s) !! unat (a - (p + (i + 1)))))
        else ((lmem s)(p + i := word_of_int (sint (shd (entropy s))))) a) =
      (if inside (p + i) (Suc k) a then word_of_int (sint (entropy s !! unat (a - (p + i)))) else lmem s a)" (is "?L a = ?R a") for a
  proof (cases "a = p + i")
    case True
    then show ?thesis using at by (simp add: inside_def)
  next
    case False
    then have "0 < unat (a - (p + i))" by (metis eq_iff_diff_eq_0 unat_gt_0)
    then obtain j where j: "unat (a - (p + i)) = Suc j" using gr0_implies_Suc by blast
    then show ?thesis using e [OF False] False by (simp add: inside_def)
  qed
  then have "?L = ?R" by blast
  then show ?case using Suc.prems by (simp add: Suc.IH add.assoc cong: if_cong)
qed

section \<open>Contracts\<close>

lemma sint_word_of_int_range:
  assumes "- (2 ^ (LENGTH('w) - 1)) \<le> v" and "v < 2 ^ (LENGTH('w) - 1)"
  shows "sint (word_of_int v :: 'w::len word) = v"
  using assms by (simp add: signed_of_int signed_take_bit_int_eq_self)

text \<open>What a call that draws one value can return.\<close>

lemma drawn_results: "{f (drawn (s\<lparr>entropy := e\<rparr>)) |e. True} = f ` {- (2 ^ 31)..<2 ^ 31}"
proof (intro set_eqI iffI)
  fix y assume "y \<in> {f (drawn (s\<lparr>entropy := e\<rparr>)) |e. True}"
  then obtain e :: "u32 stream" where "y = f (sint (shd (stl e)))" by auto
  moreover have "- (2 ^ 31) \<le> sint (shd (stl e))" "sint (shd (stl e)) < 2 ^ 31"
    using sint_greater_eq [of "shd (stl e)"] sint_less [of "shd (stl e)"] by simp_all
  ultimately show "y \<in> f ` {- (2 ^ 31)..<2 ^ 31}" by auto
next
  fix y assume "y \<in> f ` {- (2 ^ 31)..<2 ^ 31}"
  then obtain v where v: "- (2 ^ 31) \<le> v" "v < 2 ^ 31" "y = f v" by auto
  then have "y = f (drawn (s\<lparr>entropy := sconst (word_of_int v)\<rparr>))" using sint_word_of_int_range [of v, where ?'w = 32] by simp
  then show "y \<in> {f (drawn (s\<lparr>entropy := e\<rparr>)) |e. True}" by blast
qed

lemma interval_results:
  assumes "lo \<le> hi" and "- (2 ^ 31) \<le> lo" and "hi < 2 ^ 31"
  shows "{fst (run_state (Frama_C_interval lo hi) (s\<lparr>entropy := e\<rparr>)) |e. True} = {lo..hi}"
proof -
  let ?f = "\<lambda>v. if lo \<le> v \<and> v \<le> hi then v else lo"
  have "?f ` {- (2 ^ 31)..<2 ^ 31} = {lo..hi}" using assms by (auto simp: image_def)
  then show ?thesis unfolding run_interval fst_conv drawn_results [of ?f] .
qed

lemma char_interval_results:
  assumes "lo \<le> hi" and "- 128 \<le> lo" and "hi \<le> 127"
  shows "{fst (run_state (Frama_C_char_interval lo hi) (s\<lparr>entropy := e\<rparr>)) |e. True} = {lo..hi}"
proof -
  let ?f = "\<lambda>v. let c = sint (word_of_int v :: u8) in if lo \<le> c \<and> c \<le> hi then c else lo"
  have "?f v = v" if "v \<in> {lo..hi}" for v
    using that assms sint_word_of_int_range [of v, where ?'w = 8] by (simp add: Let_def)
  then have "{lo..hi} \<subseteq> ?f ` {lo..hi}" by (metis (no_types, lifting) image_eqI subsetI)
  moreover have "{lo..hi} \<subseteq> {- (2 ^ 31)..<2 ^ 31}" using assms by auto
  moreover have "?f ` X \<subseteq> {lo..hi}" for X using assms(1) by (auto simp: Let_def)
  ultimately have "?f ` {- (2 ^ 31)..<2 ^ 31} = {lo..hi}" by blast
  then show ?thesis unfolding run_char_interval fst_conv drawn_results [of ?f] .
qed

lemma nondet_results: "{if drawn (s\<lparr>entropy := e\<rparr>) \<noteq> 0 then a else b |e. True} = {a, b}"
proof -
  have "(\<lambda>v :: int. if v \<noteq> 0 then a else b) ` {- (2 ^ 31)..<2 ^ 31} = {a, b}"
  proof
    show "{a, b} \<subseteq> (\<lambda>v :: int. if v \<noteq> 0 then a else b) ` {- (2 ^ 31)..<2 ^ 31}"
      by (auto intro: image_eqI [of _ _ 1] image_eqI [of _ _ 0])
  qed auto
  then show ?thesis unfolding drawn_results [of "\<lambda>v. if v \<noteq> 0 then a else b"] .
qed

lemma make_unknown_results:
  assumes "l < 2 ^ 64"
  shows "{lmem (snd (run_state (Frama_C_make_unknown p (of_nat l)) (s\<lparr>entropy := e\<rparr>))) |e. True} =
    {m. \<forall>z. \<not> inside p l z \<longrightarrow> m z = lmem s z}"
proof -
  have run: "lmem (snd (run_state (Frama_C_make_unknown p (of_nat l)) (s\<lparr>entropy := e\<rparr>))) =
      (\<lambda>a. if inside p l a then word_of_int (sint (stl e !! unat (a - p))) else lmem s a)" for e
    using assms run_make_unknown_loop [of l p 0 "s\<lparr>entropy := stl e\<rparr>"]
    by (simp add: Frama_C_make_unknown_def unat_of_nat_64 cong: if_cong)
  have "m \<in> {lmem (snd (run_state (Frama_C_make_unknown p (of_nat l)) (s\<lparr>entropy := e\<rparr>))) |e. True}"
    if m: "\<forall>z. \<not> inside p l z \<longrightarrow> m z = lmem s z" for m
  proof -
    let ?e = "0 ## smap (\<lambda>i. ucast (m (p + of_nat i)) :: u32) nats"
    have "scast (ucast c :: u32) = c" for c :: u8 by (rule bit_word_eqI) (auto simp: bit_signed_iff bit_unsigned_iff)
    then have "word_of_int (sint (stl ?e !! unat (a - p))) = m a" for a by simp
    then have "lmem (snd (run_state (Frama_C_make_unknown p (of_nat l)) (s\<lparr>entropy := ?e\<rparr>))) = m"
      unfolding run using m by auto
    then show ?thesis by (intro CollectI exI [of _ ?e]) simp
  qed
  then show ?thesis unfolding run by auto
qed

text \<open>
  C26: the nondeterministic builtins keep their contracts and lose no behaviour: an interval call
  returns a value within its bounds, and every value within the bounds is returned for some value
  of the entropy source; a choice returns one of its two arguments and may return either;
  \<^verbatim>\<open>Frama_C_make_unknown\<close> writes the given range only, and any contents are possible.
\<close>

theorem builtins_exact:
  assumes "lo \<le> hi" and "- (2 ^ 31) \<le> lo" and "hi < 2 ^ 31" and "cl \<le> ch" and "- 128 \<le> cl" and "ch \<le> 127" and "unat p + l < 2 ^ 64"
  shows "{fst (run_state (Frama_C_interval lo hi) (s\<lparr>entropy := e\<rparr>)) |e. True} = {lo..hi} \<and>
    {fst (run_state (Frama_C_char_interval cl ch) (s\<lparr>entropy := e\<rparr>)) |e. True} = {cl..ch} \<and>
    {fst (run_state (Frama_C_nondet a b) (s\<lparr>entropy := e\<rparr>)) |e. True} = {a, b} \<and>
    {fst (run_state (Frama_C_nondet_ptr x y) (s\<lparr>entropy := e\<rparr>)) |e. True} = {x, y} \<and>
    {lmem (snd (run_state (Frama_C_make_unknown p (of_nat l)) (s\<lparr>entropy := e\<rparr>))) |e. True} =
      {m. \<forall>z. \<not> inside p l z \<longrightarrow> m z = lmem s z}"
proof (intro conjI)
  show "{fst (run_state (Frama_C_nondet a b) (s\<lparr>entropy := e\<rparr>)) |e. True} = {a, b}"
    "{fst (run_state (Frama_C_nondet_ptr x y) (s\<lparr>entropy := e\<rparr>)) |e. True} = {x, y}"
    unfolding run_nondet run_nondet_ptr fst_conv by (rule nondet_results)+
  show "{lmem (snd (run_state (Frama_C_make_unknown p (of_nat l)) (s\<lparr>entropy := e\<rparr>))) |e. True} =
      {m. \<forall>z. \<not> inside p l z \<longrightarrow> m z = lmem s z}"
    using assms(7) by (intro make_unknown_results) simp
qed (rule interval_results [OF assms(1-3)], rule char_interval_results [OF assms(4-6)])

theorem builtins_exact_witness:
  "{fst (run_state (Frama_C_interval 0 10) \<lparr>entropy = e, lmem = (\<lambda>_. 0)\<rparr>) |e. True} = {0..10}"
  using builtins_exact [of 0 10 0 1 4096 4 "\<lparr>entropy = sconst 0, lmem = (\<lambda>_. 0)\<rparr>"] by simp

end
