(* ===== verification/Ctype.thy ===== *)
theory Ctype
  imports Libc_Builtin
begin

text \<open>
  \<^verbatim>\<open>ctype.c\<close> and the contracts of \<^verbatim>\<open>ctype.h\<close>. A character is an \<^verbatim>\<open>int\<close>, as in the code; a function without
  a definition by ranges draws its result from the entropy source.
\<close>

section \<open>Classification\<close>

definition ISDIGIT :: "int \<Rightarrow> bool" where "ISDIGIT c \<longleftrightarrow> c \<ge> 48 \<and> c \<le> 57"

definition ISXDIGIT :: "int \<Rightarrow> bool" where
  "ISXDIGIT c \<longleftrightarrow> ISDIGIT c \<or> (c \<ge> 97 \<and> c \<le> 102) \<or> (c \<ge> 65 \<and> c \<le> 70)"

definition ISLOWER :: "int \<Rightarrow> bool" where "ISLOWER c \<longleftrightarrow> c \<ge> 97 \<and> c \<le> 122"

definition ISUPPER :: "int \<Rightarrow> bool" where "ISUPPER c \<longleftrightarrow> c \<ge> 65 \<and> c \<le> 90"

definition ISALPHA :: "int \<Rightarrow> bool" where "ISALPHA c \<longleftrightarrow> ISUPPER c \<or> ISLOWER c"

definition ISALNUM :: "int \<Rightarrow> bool" where "ISALNUM c \<longleftrightarrow> ISALPHA c \<or> ISDIGIT c"

definition ISSPACE :: "int \<Rightarrow> bool" where
  "ISSPACE c \<longleftrightarrow> c = 32 \<or> c = 12 \<or> c = 10 \<or> c = 13 \<or> c = 9 \<or> c = 11"

definition ISBLANK :: "int \<Rightarrow> bool" where "ISBLANK c \<longleftrightarrow> c = 32 \<or> c = 9"

text \<open>A truth value of C.\<close>

abbreviation c_bool :: "bool \<Rightarrow> int" where "c_bool b \<equiv> of_bool b"

definition isalnum :: "int \<Rightarrow> int" where "isalnum c = c_bool (ISALNUM c)"
definition isalpha :: "int \<Rightarrow> int" where "isalpha c = c_bool (ISALPHA c)"
definition isblank :: "int \<Rightarrow> int" where "isblank c = c_bool (ISBLANK c \<or> ISSPACE c)"
definition isdigit :: "int \<Rightarrow> int" where "isdigit c = c_bool (ISDIGIT c)"
definition islower :: "int \<Rightarrow> int" where "islower c = c_bool (ISLOWER c)"
definition isspace :: "int \<Rightarrow> int" where "isspace c = c_bool (ISSPACE c)"
definition isupper :: "int \<Rightarrow> int" where "isupper c = c_bool (ISUPPER c)"
definition isxdigit :: "int \<Rightarrow> int" where "isxdigit c = c_bool (ISXDIGIT c)"

definition iscntrl :: "int \<Rightarrow> ('a libc_state_scheme, int) state" where "iscntrl c = Frama_C_nondet 0 1"
definition isgraph :: "int \<Rightarrow> ('a libc_state_scheme, int) state" where "isgraph c = Frama_C_nondet 0 1"
definition isprint :: "int \<Rightarrow> ('a libc_state_scheme, int) state" where "isprint c = Frama_C_nondet 0 1"
definition ispunct :: "int \<Rightarrow> ('a libc_state_scheme, int) state" where "ispunct c = Frama_C_nondet 0 1"

section \<open>Case conversion\<close>

definition tolower :: "int \<Rightarrow> int" where
  "tolower c = (if c \<ge> 65 \<and> c \<le> 90 then c + 0x20 else c)"

definition toupper :: "int \<Rightarrow> int" where
  "toupper c = (if c \<ge> 97 \<and> c \<le> 122 then c - 0x20 else c)"

section \<open>Contracts\<close>

definition EOF :: int where "EOF = - 1"

definition uchar_or_eof :: "int \<Rightarrow> bool" where
  "uchar_or_eof c \<longleftrightarrow> (0 \<le> c \<and> c \<le> 255) \<or> c = EOF"

text \<open>
  The two behaviours of a contract: the characters that must match and those that must not. They
  are declared disjoint; a contract that is complete decides every character.
\<close>

record char_contract =
  must_match :: "int \<Rightarrow> bool"
  must_not_match :: "int \<Rightarrow> bool"

definition disjoint_behaviors :: "char_contract \<Rightarrow> bool" where
  "disjoint_behaviors C \<longleftrightarrow> (\<forall>c. uchar_or_eof c \<longrightarrow> \<not> (must_match C c \<and> must_not_match C c))"

definition complete_behaviors :: "char_contract \<Rightarrow> bool" where
  "complete_behaviors C \<longleftrightarrow> (\<forall>c. uchar_or_eof c \<longrightarrow> must_match C c \<or> must_not_match C c)"

text \<open>A result the contract allows.\<close>

definition permits :: "char_contract \<Rightarrow> int \<Rightarrow> int \<Rightarrow> bool" where
  "permits C c r \<longleftrightarrow> (must_match C c \<longrightarrow> r < 0 \<or> r > 0) \<and> (must_not_match C c \<longrightarrow> r = 0)"

definition isalnum_spec :: char_contract where
  "isalnum_spec = \<lparr>must_match = (\<lambda>c. 65 \<le> c \<and> c \<le> 90 \<or> 97 \<le> c \<and> c \<le> 122 \<or> 48 \<le> c \<and> c \<le> 57),
     must_not_match = (\<lambda>c. c = EOF \<or> 0 \<le> c \<and> c \<le> 47 \<or> 58 \<le> c \<and> c \<le> 64 \<or> 91 \<le> c \<and> c \<le> 96 \<or> 123 \<le> c \<and> c \<le> 127)\<rparr>"

definition isalpha_spec :: char_contract where
  "isalpha_spec = \<lparr>must_match = (\<lambda>c. 65 \<le> c \<and> c \<le> 90 \<or> 97 \<le> c \<and> c \<le> 122),
     must_not_match = (\<lambda>c. c = EOF \<or> 0 \<le> c \<and> c \<le> 64 \<or> 91 \<le> c \<and> c \<le> 96 \<or> 123 \<le> c \<and> c \<le> 127)\<rparr>"

definition isblank_spec :: char_contract where
  "isblank_spec = \<lparr>must_match = (\<lambda>c. c = 32 \<or> c = 9), must_not_match = (\<lambda>c. c \<noteq> 32 \<and> c \<noteq> 9)\<rparr>"

definition iscntrl_spec :: char_contract where
  "iscntrl_spec = \<lparr>must_match = (\<lambda>c. 0 \<le> c \<and> c \<le> 31 \<or> c = 127), must_not_match = (\<lambda>c. c = EOF \<or> 32 \<le> c \<and> c \<le> 126)\<rparr>"

definition isdigit_spec :: char_contract where
  "isdigit_spec = \<lparr>must_match = (\<lambda>c. 48 \<le> c \<and> c \<le> 57), must_not_match = (\<lambda>c. c < 48 \<or> c > 57)\<rparr>"

definition isgraph_spec :: char_contract where
  "isgraph_spec = \<lparr>must_match = (\<lambda>c. 33 \<le> c \<and> c \<le> 126),
     must_not_match = (\<lambda>c. c = EOF \<or> 0 \<le> c \<and> c \<le> 32 \<or> c = 127)\<rparr>"

definition islower_spec :: char_contract where
  "islower_spec = \<lparr>must_match = (\<lambda>c. 97 \<le> c \<and> c \<le> 122),
     must_not_match = (\<lambda>c. c = EOF \<or> 0 \<le> c \<and> c < 97 \<or> 122 < c \<and> c < 127)\<rparr>"

definition isprint_spec :: char_contract where
  "isprint_spec = \<lparr>must_match = (\<lambda>c. 32 \<le> c \<and> c \<le> 126),
     must_not_match = (\<lambda>c. c = EOF \<or> 0 \<le> c \<and> c \<le> 31 \<or> c = 127)\<rparr>"

definition ispunct_spec :: char_contract where
  "ispunct_spec =
     \<lparr>must_match = (\<lambda>c. 33 \<le> c \<and> c \<le> 47 \<or> 58 \<le> c \<and> c \<le> 64 \<or> 91 \<le> c \<and> c \<le> 96 \<or> 123 \<le> c \<and> c \<le> 126),
      must_not_match = (\<lambda>c. c = EOF \<or> 0 \<le> c \<and> c \<le> 32 \<or> 48 \<le> c \<and> c \<le> 57 \<or> 65 \<le> c \<and> c \<le> 90 \<or>
        97 \<le> c \<and> c \<le> 122 \<or> c = 127)\<rparr>"

definition isspace_spec :: char_contract where
  "isspace_spec = \<lparr>must_match = (\<lambda>c. 9 \<le> c \<and> c \<le> 13 \<or> c = 32),
     must_not_match = (\<lambda>c. c = EOF \<or> 0 \<le> c \<and> c \<le> 8 \<or> 14 \<le> c \<and> c < 32 \<or> 32 < c \<and> c \<le> 127)\<rparr>"

definition isupper_spec :: char_contract where
  "isupper_spec = \<lparr>must_match = (\<lambda>c. 65 \<le> c \<and> c \<le> 90),
     must_not_match = (\<lambda>c. c = EOF \<or> 0 \<le> c \<and> c < 65 \<or> 90 < c \<and> c \<le> 127)\<rparr>"

definition isxdigit_spec :: char_contract where
  "isxdigit_spec = \<lparr>must_match = (\<lambda>c. 48 \<le> c \<and> c \<le> 57 \<or> 65 \<le> c \<and> c \<le> 70 \<or> 97 \<le> c \<and> c \<le> 102),
     must_not_match = (\<lambda>c. \<not> (48 \<le> c \<and> c \<le> 57 \<or> 65 \<le> c \<and> c \<le> 70 \<or> 97 \<le> c \<and> c \<le> 102))\<rparr>"

definition tolower_spec :: "int \<Rightarrow> int \<Rightarrow> bool" where
  "tolower_spec c r \<longleftrightarrow> uchar_or_eof r \<and> (65 \<le> c \<and> c \<le> 90 \<longrightarrow> r = c + 32) \<and>
     (c = EOF \<or> 0 \<le> c \<and> c < 65 \<or> 90 < c \<and> c \<le> 127 \<longrightarrow> r = c)"

definition toupper_spec :: "int \<Rightarrow> int \<Rightarrow> bool" where
  "toupper_spec c r \<longleftrightarrow> uchar_or_eof r \<and> (97 \<le> c \<and> c \<le> 122 \<longrightarrow> r = c - 32) \<and>
     (c = EOF \<or> 0 \<le> c \<and> c < 97 \<or> 122 < c \<and> c \<le> 127 \<longrightarrow> r = c)"

lemmas class_defs = ISDIGIT_def ISXDIGIT_def ISLOWER_def ISUPPER_def ISALPHA_def ISALNUM_def ISSPACE_def ISBLANK_def
lemmas spec_defs = isalnum_spec_def isalpha_spec_def isblank_spec_def iscntrl_spec_def isdigit_spec_def isgraph_spec_def
  islower_spec_def isprint_spec_def ispunct_spec_def isspace_spec_def isupper_spec_def isxdigit_spec_def

lemma contracts_disjoint:
  "disjoint_behaviors isalnum_spec" "disjoint_behaviors isalpha_spec" "disjoint_behaviors isblank_spec" "disjoint_behaviors iscntrl_spec"
  "disjoint_behaviors isdigit_spec" "disjoint_behaviors isgraph_spec" "disjoint_behaviors islower_spec" "disjoint_behaviors isprint_spec"
  "disjoint_behaviors ispunct_spec" "disjoint_behaviors isspace_spec" "disjoint_behaviors isupper_spec" "disjoint_behaviors isxdigit_spec"
  by (auto simp: disjoint_behaviors_def spec_defs EOF_def)

lemma contracts_complete: "\<forall>C \<in> {isblank_spec, isdigit_spec, isxdigit_spec}. complete_behaviors C"
  by (auto simp: complete_behaviors_def spec_defs)

text \<open>The functions that are defined by ranges keep their contracts, \<^verbatim>\<open>isblank\<close> on the characters that are no line break.\<close>

lemma permits_of_bool: "permits C c (c_bool b) \<longleftrightarrow> (must_match C c \<longrightarrow> b) \<and> (must_not_match C c \<longrightarrow> \<not> b)"
  by (auto simp: permits_def)

lemma isblank_contract: "permits isblank_spec c (isblank c) \<longleftrightarrow> c \<notin> {10..13}"
  unfolding permits_of_bool spec_defs isblank_def class_defs char_contract.simps atLeastAtMost_iff by presburger

lemma ranges_contract:
  assumes "uchar_or_eof c"
  shows "permits isalnum_spec c (isalnum c)" "permits isalpha_spec c (isalpha c)" "permits isdigit_spec c (isdigit c)"
    "permits islower_spec c (islower c)" "permits isspace_spec c (isspace c)" "permits isupper_spec c (isupper c)"
    "permits isxdigit_spec c (isxdigit c)"
  unfolding permits_of_bool spec_defs class_defs EOF_def isalnum_def isalpha_def isdigit_def islower_def isspace_def
    isupper_def isxdigit_def char_contract.simps by presburger+

lemma case_contract:
  assumes "uchar_or_eof c"
  shows "tolower_spec c (tolower c)" "toupper_spec c (toupper c)"
  using assms by (auto simp: tolower_spec_def toupper_spec_def tolower_def toupper_def uchar_or_eof_def EOF_def)

text \<open>The functions that draw their result take both truth values, so that they break each definite behaviour.\<close>

lemma truth_results: "{fst (run_state (Frama_C_nondet 0 1) (s\<lparr>entropy := e\<rparr>)) |e. True} = {0, 1}"
  unfolding run_nondet fst_conv by (rule nondet_results)

lemma drawn_contract:
  assumes "{g e |e. True} = {0, 1}"
  shows "(\<forall>e. permits C c (g e)) \<longleftrightarrow> \<not> must_match C c \<and> \<not> must_not_match C c"
proof -
  have "0 \<in> {g e |e. True}" "1 \<in> {g e |e. True}" unfolding assms by simp_all
  then obtain d e where "g d = 0" "g e = 1" unfolding mem_Collect_eq by metis
  then have "permits C c (g d) \<longleftrightarrow> \<not> must_match C c" "permits C c (g e) \<longleftrightarrow> \<not> must_not_match C c"
    by (simp_all add: permits_def)
  then show ?thesis by (auto simp: permits_def)
qed

text \<open>
  C27: on every argument the header allows, seven classification functions and the case
  conversions return what their contracts say. \<^verbatim>\<open>isblank\<close> meets its contract except on the four line
  breaks, for which it returns a nonzero value. \<^verbatim>\<open>iscntrl\<close>, \<^verbatim>\<open>isgraph\<close>, \<^verbatim>\<open>isprint\<close> and \<^verbatim>\<open>ispunct\<close>
  return 0 or 1 whatever the argument, and both are drawn: they meet their contracts exactly on the
  characters that these leave open, and break every \<^verbatim>\<open>definitely_match\<close> and \<^verbatim>\<open>definitely_not_match\<close>
  behaviour. The declared behaviours are disjoint, those of \<^verbatim>\<open>isblank\<close>, \<^verbatim>\<open>isdigit\<close> and \<^verbatim>\<open>isxdigit\<close>
  complete.
\<close>

theorem ctype_contracts:
  assumes "uchar_or_eof c"
  shows "(\<forall>(C, f) \<in> {(isalnum_spec, isalnum), (isalpha_spec, isalpha), (isdigit_spec, isdigit), (islower_spec, islower),
        (isspace_spec, isspace), (isupper_spec, isupper), (isxdigit_spec, isxdigit)}. permits C c (f c)) \<and>
    (permits isblank_spec c (isblank c) \<longleftrightarrow> c \<notin> {10..13}) \<and>
    tolower_spec c (tolower c) \<and> toupper_spec c (toupper c) \<and>
    (\<forall>(C, f) \<in> {(iscntrl_spec, iscntrl), (isgraph_spec, isgraph), (isprint_spec, isprint), (ispunct_spec, ispunct)}.
       {fst (run_state (f c) (s\<lparr>entropy := e\<rparr>)) |e. True} = {0, 1} \<and>
       ((\<forall>e. permits C c (fst (run_state (f c) (s\<lparr>entropy := e\<rparr>)))) \<longleftrightarrow> \<not> must_match C c \<and> \<not> must_not_match C c)) \<and>
    (\<forall>C \<in> {isalnum_spec, isalpha_spec, isblank_spec, iscntrl_spec, isdigit_spec, isgraph_spec, islower_spec, isprint_spec,
       ispunct_spec, isspace_spec, isupper_spec, isxdigit_spec}. disjoint_behaviors C) \<and>
    (\<forall>C \<in> {isblank_spec, isdigit_spec, isxdigit_spec}. complete_behaviors C)"
proof (intro conjI)
  show "\<forall>(C, f) \<in> {(iscntrl_spec, iscntrl), (isgraph_spec, isgraph), (isprint_spec, isprint), (ispunct_spec, ispunct)}.
       {fst (run_state (f c) (s\<lparr>entropy := e\<rparr>)) |e. True} = {0, 1} \<and>
       ((\<forall>e. permits C c (fst (run_state (f c) (s\<lparr>entropy := e\<rparr>)))) \<longleftrightarrow> \<not> must_match C c \<and> \<not> must_not_match C c)"
    unfolding iscntrl_def isgraph_def isprint_def ispunct_def
    using truth_results [of s] drawn_contract [OF truth_results [of s]] by blast
qed (use ranges_contract case_contract assms contracts_disjoint contracts_complete isblank_contract in auto)

theorem ctype_contracts_witness:
  "permits isdigit_spec 55 (isdigit 55) \<and> \<not> permits isblank_spec 10 (isblank 10) \<and>
    (\<exists>e. \<not> permits isprint_spec 65 (fst (run_state (isprint 65) \<lparr>entropy = e, lmem = \<lambda>_. 0\<rparr>)))"
proof -
  have c: "uchar_or_eof 55" "uchar_or_eof 10" "uchar_or_eof 65" by (simp_all add: uchar_or_eof_def)
  have "must_match isprint_spec 65" by (simp add: isprint_spec_def)
  then have "\<not> (\<forall>e. permits isprint_spec 65 (fst (run_state (isprint 65) (\<lparr>entropy = sconst 0, lmem = \<lambda>_. 0\<rparr>\<lparr>entropy := e\<rparr>))))"
    using ctype_contracts [OF c(3), of "\<lparr>entropy = sconst 0, lmem = \<lambda>_. 0\<rparr>"] by blast
  then show ?thesis
    using ctype_contracts [OF c(1), THEN conjunct1] ctype_contracts [OF c(2), THEN conjunct2, THEN conjunct1] by simp
qed

end
