(* ===== verification/Format_Parse.thy ===== *)
theory Format_Parse
  imports Ctype Libc_Replacements Runtime_String
begin

text \<open>
  The first half of \<^verbatim>\<open>e_acsl_format.h\<close>: abbreviated types, the classes of format characters and the
  parser that turns a format string into an array of directives. \<open>None\<close> is undefined behaviour: an
  access outside an array, an overflow of \<^verbatim>\<open>int\<close>, a loop that does not end. The private allocator is
  taken to succeed, as the code does; messages are without their final line break.
\<close>

abbreviation ch :: "char \<Rightarrow> u8" where "ch c \<equiv> of_char c"
abbreviation INT_MIN :: int where "INT_MIN \<equiv> - (2 ^ 31)"
abbreviation INT_MAX :: int where "INT_MAX \<equiv> 2 ^ 31 - 1"

definition text_of :: "u8 list \<Rightarrow> string" where "text_of = map (\<lambda>c. char_of (unat c))"

text \<open>The text of \<^verbatim>\<open>%d\<close> in a message.\<close>

definition show_d :: "int \<Rightarrow> string" where
  "show_d i = (case i2a (word_of_int i) of Some cs \<Rightarrow> text_of cs | None \<Rightarrow> '''')"

text \<open>The text of \<^verbatim>\<open>%s\<close> in a message, for a string in memory.\<close>

definition show_s :: "mem \<Rightarrow> u64 \<Rightarrow> string" where
  "show_s m a = (case strlen a m of Some n \<Rightarrow> text_of (map (\<lambda>i. m (a + of_nat i)) [0..<unat n]) | None \<Rightarrow> '''')"

definition quoted :: "string \<Rightarrow> string" where "quoted s = [CHR 0x27] @ s @ [CHR 0x27]"
definition double_quoted :: "string \<Rightarrow> string" where "double_quoted s = [CHR 0x22] @ s @ [CHR 0x22]"

definition FMT_ERROR :: string where "FMT_ERROR = ''Format error: ''"
definition INT_ERROR :: string where "INT_ERROR = ''Internal error: ''"

section \<open>Abbreviated types\<close>

datatype abbrev_t = IChar | IUChar | IShort | IUShort | IInt | IUInt | ILong | IULong | ILongLong | IULongLong
  | FFloat | FDouble | FLongDouble | PChar | PUChar | PShort | PUShort | PInt | PUInt | PLong | PULong | PLongLong
  | PULongLong | PVoid

definition abbreviated_types :: "(u8 \<times> string \<times> int \<times> abbrev_t) list" where
  "abbreviated_types =
     [(ch CHR ''c'', ''char'', 1, IChar), (ch CHR ''C'', ''unsigned char'', 1, IUChar),
      (ch CHR ''h'', ''short'', 2, IShort), (ch CHR ''H'', ''unsigned short'', 2, IUShort),
      (ch CHR ''d'', ''int'', 4, IInt), (ch CHR ''D'', ''unsigned int'', 4, IUInt),
      (ch CHR ''l'', ''long'', 8, ILong), (ch CHR ''L'', ''unsigned long'', 8, IULong),
      (ch CHR ''r'', ''long long'', 8, ILongLong), (ch CHR ''R'', ''unsigned long long'', 8, IULongLong),
      (ch CHR ''f'', ''float'', 4, FFloat), (ch CHR ''e'', ''double'', 8, FDouble), (ch CHR ''E'', ''long double'', 16, FLongDouble),
      (ch CHR ''s'', ''char*'', 8, PChar), (ch CHR ''S'', ''unsigned char*'', 8, PUChar),
      (ch CHR ''q'', ''short*'', 8, PShort), (ch CHR ''Q'', ''unsigned short*'', 8, PUShort),
      (ch CHR ''i'', ''int*'', 8, PInt), (ch CHR ''I'', ''unsigned int*'', 8, PUInt),
      (ch CHR ''z'', ''long*'', 8, PLong), (ch CHR ''Z'', ''unsigned long*'', 8, PULong),
      (ch CHR ''w'', ''long long*'', 8, PLongLong), (ch CHR ''W'', ''unsigned long long*'', 8, PULongLong),
      (ch CHR ''p'', ''void*'', 8, PVoid)]"

text \<open>The value of an enumerator, and the row of the table for a value.\<close>

definition abbr_char :: "abbrev_t \<Rightarrow> u8" where
  "abbr_char t = (case find (\<lambda>(_, _, _, alias). alias = t) abbreviated_types of Some (c, _) \<Rightarrow> c | None \<Rightarrow> 0)"

definition abbr_row :: "u8 \<Rightarrow> (u8 \<times> string \<times> int \<times> abbrev_t) option" where
  "abbr_row c = find (\<lambda>(d, _). d = c) abbreviated_types"

text \<open>\<open>None\<close> is the null pointer.\<close>

definition abbr2str :: "u8 \<Rightarrow> string option" where
  "abbr2str c = map_option (\<lambda>(_, name, _). name) (abbr_row c)"

definition abbr2size :: "u8 \<Rightarrow> int" where
  "abbr2size c = (case abbr_row c of Some (_, _, n, _) \<Rightarrow> n | None \<Rightarrow> 0)"

definition size2abbri :: "int \<Rightarrow> bool \<Rightarrow> abbrev_t outcome" where
  "size2abbri sz sign =
     (if sz \<le> 4 then Inr (if sign then IInt else IUInt)
      else if sz = 8 then Inr (if sign then ILong else IULong)
      else if sz = 8 then Inr (if sign then ILongLong else IULongLong)
      else Inl (INT_ERROR @ ''integral type corresponding to size '' @ show_d sz @ '' unknown''))"

definition size2abbrf :: "int \<Rightarrow> abbrev_t outcome" where
  "size2abbrf sz =
     (if sz = 4 then Inr FFloat
      else if sz = 8 then Inr FDouble
      else if sz = 16 then Inr FLongDouble
      else Inl (INT_ERROR @ ''floating point type corresponding to size '' @ show_d sz @ '' unknown''))"

fun abbr2ptr :: "abbrev_t \<Rightarrow> abbrev_t outcome" where
  "abbr2ptr IInt = Inr PInt"
| "abbr2ptr IUInt = Inr PUInt"
| "abbr2ptr ILong = Inr PLong"
| "abbr2ptr IULong = Inr PULong"
| "abbr2ptr ILongLong = Inr PLongLong"
| "abbr2ptr IULongLong = Inr PULongLong"
| "abbr2ptr t = Inl (INT_ERROR @ ''Unexpected abbreviated type '' @ text_of [abbr_char t])"

section \<open>Character classes\<close>

definition length_chars :: "u8 list" where "length_chars = map of_char ''hljztL''"
definition flag_chars :: "u8 list" where "flag_chars = map of_char (''-+ #0'' @ [CHR 0x27])"
definition specifier_chars :: "u8 list" where "specifier_chars = map of_char ''diouxXfFeEgGaAcspn''"
definition period_chars :: "u8 list" where "period_chars = map of_char ''.''"

definition specifier_id :: u8 where "specifier_id = ch CHR ''s''"
definition length_id :: u8 where "length_id = ch CHR ''l''"
definition flag_id :: u8 where "flag_id = ch CHR ''f''"
definition period_id :: u8 where "period_id = ch CHR ''r''"

text \<open>
  The array of 256 characters. It is indexed with a signed \<^verbatim>\<open>char\<close>: from 128 on the index is negative
  and the access outside the array.
\<close>

type_synonym char_map = "u8 \<Rightarrow> u8"

definition class_is :: "char_map \<Rightarrow> u8 \<Rightarrow> u8 \<Rightarrow> bool option" where
  "class_is cm cls c = (if c < 128 then Some (cm c = cls) else None)"

definition set_class :: "u8 \<Rightarrow> u8 list \<Rightarrow> char_map \<Rightarrow> char_map" where
  "set_class cls cs cm = fold (\<lambda>c cm. cm(c := cls)) cs cm"

definition set_format_char_map :: "char_map \<Rightarrow> char_map" where
  "set_format_char_map cm =
     (if cm 0 \<noteq> ch CHR ''i'' then
        (set_class period_id period_chars (set_class flag_id flag_chars
          (set_class length_id length_chars (set_class specifier_id specifier_chars (\<lambda>_. 0)))))(0 := ch CHR ''i'')
      else cm)"

section \<open>Directives\<close>

record format_directive =
  fd_format :: u64
  directive_text :: "u8 list"
  arg_index :: int
  arg_expl :: bool
  flags_specified :: bool
  flag_minus :: bool
  flag_plus :: bool
  flag_space :: bool
  flag_hash :: bool
  flag_zero :: bool
  flag_apostroph :: bool
  field_width :: int
  precision :: int
  length_bytes :: int
  length_mod :: u8
  length_extended :: bool
  specifier :: u8

text \<open>What \<^verbatim>\<open>private_calloc\<close> returns.\<close>

definition zero_directive :: format_directive where
  "zero_directive = \<lparr>fd_format = 0, directive_text = replicate 16 0, arg_index = 0, arg_expl = False, flags_specified = False,
     flag_minus = False, flag_plus = False, flag_space = False, flag_hash = False, flag_zero = False, flag_apostroph = False,
     field_width = 0, precision = 0, length_bytes = 0, length_mod = 0, length_extended = False, specifier = 0\<rparr>"

definition is_digit :: "u8 \<Rightarrow> bool" where "is_digit c \<longleftrightarrow> isdigit (sint c) \<noteq> 0"

text \<open>The loop that reads a decimal number, which the parser has three times.\<close>

partial_function (option) fetch_number :: "mem \<Rightarrow> u64 \<Rightarrow> int \<Rightarrow> (u64 \<times> int) option" where
  "fetch_number m p n =
     (if is_digit (m p) then
        (let n = n * 10 + (sint (m p) - 48) in if n > INT_MAX then None else fetch_number m (p + 1) n)
      else Some (p, n))"

definition fetch_format_argno ::
  "mem \<Rightarrow> u64 \<Rightarrow> format_directive \<Rightarrow> format_directive option \<Rightarrow> int \<Rightarrow> (u64 \<times> format_directive) outcome option" where
  "fetch_format_argno m fmt dir prev ind =
     (if m fmt \<noteq> ch CHR ''0'' then do {
        (ret, argno) \<leftarrow> fetch_number m fmt 0;
        let (ret, dir) =
          (if m ret = ch CHR ''$'' then (ret + 1, dir\<lparr>arg_index := argno - 1, arg_expl := True\<rparr>)
           else (fmt, dir\<lparr>arg_index := ind, arg_expl := False\<rparr>));
        Some (if (case prev of Some pd \<Rightarrow> arg_expl pd \<noteq> arg_expl dir | None \<Rightarrow> False) then
            Inl (FMT_ERROR @ double_quoted (show_s m (fd_format dir)) @
              '':  numbered and non-numbered directives cannot be mixed'')
          else Inr (ret, dir)) }
      else Some (Inr (fmt, dir)))"

definition set_format_flag :: "u8 \<Rightarrow> format_directive \<Rightarrow> format_directive outcome" where
  "set_format_flag c dir =
     (let dir = dir\<lparr>flags_specified := True\<rparr>;
          set = (\<lambda>old new name. if \<not> old then Inr new else Inl (FMT_ERROR @ ''flag '' @ name @ '' has already been set''))
      in if c = ch CHR ''#'' then set (flag_hash dir) (dir\<lparr>flag_hash := True\<rparr>) ''hash''
      else if c = ch CHR ''-'' then set (flag_minus dir) (dir\<lparr>flag_minus := True\<rparr>) ''minus''
      else if c = ch CHR ''+'' then set (flag_plus dir) (dir\<lparr>flag_plus := True\<rparr>) ''plus''
      else if c = ch CHR '' '' then set (flag_space dir) (dir\<lparr>flag_space := True\<rparr>) ''space''
      else if c = ch (CHR 0x27) then set (flag_apostroph dir) (dir\<lparr>flag_apostroph := True\<rparr>) ''apostroph''
      else if c = ch CHR ''0'' then set (flag_zero dir) (dir\<lparr>flag_zero := True\<rparr>) ''zero''
      else Inr dir)"

partial_function (option) fetch_format_flags ::
  "char_map \<Rightarrow> mem \<Rightarrow> u64 \<Rightarrow> format_directive \<Rightarrow> (u64 \<times> format_directive) outcome option" where
  "fetch_format_flags cm m fmt dir = do {
     f \<leftarrow> class_is cm flag_id (m fmt);
     if f then
       (case set_format_flag (m fmt) dir of
          Inl e \<Rightarrow> Some (Inl e)
        | Inr dir \<Rightarrow> fetch_format_flags cm m (fmt + 1) dir)
     else Some (Inr (fmt, dir)) }"

definition fetch_format_field_width ::
  "mem \<Rightarrow> u64 \<Rightarrow> format_directive \<Rightarrow> (u64 \<times> format_directive) outcome option" where
  "fetch_format_field_width m fmt dir =
     (let dir = dir\<lparr>field_width := INT_MIN\<rparr> in
      if m fmt = ch CHR ''*'' then Some (Inr (fmt + 1, dir\<lparr>field_width := - 1\<rparr>))
      else if is_digit (m fmt) then
        (if m fmt = ch CHR ''0'' then
           Some (Inl (FMT_ERROR @ ''field width in format cannot start with zero ('' @ show_s m (fd_format dir) @ '')''))
         else do {
           (fmt, len) \<leftarrow> fetch_number m fmt 0;
           Some (Inr (fmt, dir\<lparr>field_width := len\<rparr>)) })
      else Some (Inr (fmt, dir)))"

definition fetch_format_precision ::
  "char_map \<Rightarrow> mem \<Rightarrow> u64 \<Rightarrow> format_directive \<Rightarrow> (u64 \<times> format_directive) outcome option" where
  "fetch_format_precision cm m fmt dir = do {
     let dir = dir\<lparr>precision := INT_MIN\<rparr>;
     period \<leftarrow> class_is cm period_id (m fmt);
     if period then
       (let fmt = fmt + 1 in
        if m fmt = ch CHR ''*'' then Some (Inr (fmt + 1, dir\<lparr>precision := - 1\<rparr>))
        else do {
          (fmt, n) \<leftarrow> fetch_number m fmt 0;
          Some (Inr (fmt, dir\<lparr>precision := n\<rparr>)) })
     else Some (Inr (fmt, dir)) }"

text \<open>The switch over the length modifier: bytes, whether it is repeated, and the position of its last character.\<close>

definition length_modifier :: "mem \<Rightarrow> u64 \<Rightarrow> int \<times> bool \<times> u64" where
  "length_modifier m fmt =
     (let c = m fmt in
      if c = ch CHR ''h'' then (if m (fmt + 1) = ch CHR ''h'' then (1, True, fmt + 1) else (2, False, fmt))
      else if c = ch CHR ''l'' then (if m (fmt + 1) = ch CHR ''l'' then (8, True, fmt + 1) else (8, False, fmt))
      else if c = ch CHR ''j'' then (8, False, fmt)
      else if c = ch CHR ''z'' then (8, False, fmt)
      else if c = ch CHR ''t'' then (8, False, fmt)
      else if c = ch CHR ''L'' then (16, False, fmt)
      else (0, False, fmt))"

text \<open>
  The assertion on the modifier stands before the modifier is stored and cannot fail. The specifier
  is checked unless it is the terminating null character.
\<close>

definition fetch_format_length ::
  "char_map \<Rightarrow> mem \<Rightarrow> u64 \<Rightarrow> format_directive \<Rightarrow> (u64 \<times> format_directive) outcome option" where
  "fetch_format_length cm m fmt dir = do {
     let (bytes, ext, fmt) = length_modifier m fmt;
     let dir = dir\<lparr>length_bytes := bytes, length_mod := 0, length_extended := ext\<rparr>;
     let (dir, fmt) = (if bytes \<noteq> 0 then (dir\<lparr>length_mod := m fmt\<rparr>, fmt + 1) else (dir, fmt));
     let dir = dir\<lparr>specifier := m fmt\<rparr>;
     if specifier dir \<noteq> 0 then do {
       s \<leftarrow> class_is cm specifier_id (specifier dir);
       Some (if \<not> s then
           (if specifier dir = ch CHR ''%'' then
              Inl (FMT_ERROR @ ''in directive '' @ quoted (show_s m (fd_format dir)) @
                ''.the complete conversion specification for '' @ quoted ''%'' @ '' is '' @ quoted ''%%'')
            else Inl (FMT_ERROR @ ''illegal format specifier '' @ quoted (text_of [specifier dir])))
         else Inr (fmt + 1, dir)) }
     else Some (Inr (fmt + 1, dir)) }"

section \<open>The parser\<close>

text \<open>What \<^verbatim>\<open>strncpy\<close> leaves in an array: the string up to its terminator, then null characters.\<close>

definition strncpy_text :: "mem \<Rightarrow> u64 \<Rightarrow> nat \<Rightarrow> u8 list" where
  "strncpy_text m src n =
     (let cs = takeWhile (\<lambda>c. c \<noteq> 0) (map (\<lambda>i. m (src + of_nat i)) [0..<n]) in cs @ replicate (n - length cs) 0)"

text \<open>The copy of the directive into its array of 16 characters, and the terminator at index \<^verbatim>\<open>len + 1\<close>.\<close>

definition save_text :: "mem \<Rightarrow> u64 \<Rightarrow> u64 \<Rightarrow> format_directive \<Rightarrow> format_directive option" where
  "save_text m fmt_start fmt dir =
     (let fmt_len = sint (fmt - fmt_start); max_len = 16 - 1;
          len = (if max_len > fmt_len then fmt_len else max_len)
      in if 0 \<le> len \<and> len + 1 < 16 then
           Some (dir\<lparr>directive_text :=
             (strncpy_text m fmt_start (nat len) @ drop (nat len) (directive_text dir))[nat len + 1 := 0]\<rparr>)
         else None)"

definition fetch_directive ::
  "char_map \<Rightarrow> mem \<Rightarrow> u64 \<Rightarrow> u64 \<Rightarrow> format_directive option \<Rightarrow> int \<Rightarrow> (u64 \<times> format_directive) outcome option" where
  "fetch_directive cm m format_string fmt prev i =
     (let dir = zero_directive\<lparr>fd_format := format_string\<rparr>; fmt_start = fmt - 1 in
      andthen (fetch_format_argno m fmt dir prev i) (\<lambda>(fmt, dir).
      andthen (fetch_format_flags cm m fmt dir) (\<lambda>(fmt, dir).
      andthen (fetch_format_field_width m fmt dir) (\<lambda>(fmt, dir).
      andthen (fetch_format_precision cm m fmt dir) (\<lambda>(fmt, dir).
      andthen (fetch_format_length cm m fmt dir) (\<lambda>(fmt, dir). do {
        dir \<leftarrow> save_text m fmt_start fmt dir;
        Some (Inr (fmt, dir)) }))))))"

text \<open>The loop over the format string. A directive is stored at the index \<open>i\<close> of the array.\<close>

partial_function (option) directives_loop ::
  "char_map \<Rightarrow> mem \<Rightarrow> u64 \<Rightarrow> u64 \<Rightarrow> nat \<Rightarrow> format_directive option \<Rightarrow> format_directive option list
    \<Rightarrow> format_directive option list outcome option" where
  "directives_loop cm m format_string fmt i prev dirs =
     (let c = m fmt; fmt = fmt + 1 in
      if c = 0 then Some (Inr dirs)
      else if c = ch CHR ''%'' then
        (if m fmt = ch CHR ''%'' then directives_loop cm m format_string (fmt + 1) i prev dirs
         else do {
           r \<leftarrow> fetch_directive cm m format_string fmt prev (int i);
           (case r of
              Inl e \<Rightarrow> Some (Inl e)
            | Inr (fmt, dir) \<Rightarrow>
                if i < length dirs then directives_loop cm m format_string fmt (i + 1) (Some dir) (dirs[i := Some dir])
                else None) })
      else directives_loop cm m format_string fmt i prev dirs)"

definition get_format_directives ::
  "char_map \<Rightarrow> mem \<Rightarrow> u64 \<Rightarrow> (char_map \<times> format_directive option list) outcome option" where
  "get_format_directives cm m fmt = do {
     n \<leftarrow> charcount fmt (ch CHR ''%'') m;
     let sz = n + 1;
     if sz > INT_MAX then None
     else do {
       let cm = set_format_char_map cm;
       andthen (directives_loop cm m fmt fmt 0 None (replicate (nat sz) None)) (\<lambda>dirs. Some (Inr (cm, dirs))) } }"

text \<open>The pointers \<^verbatim>\<open>private_free\<close> is called with, before the array itself is released.\<close>

definition release_directives :: "mem \<Rightarrow> u64 \<Rightarrow> format_directive option list \<Rightarrow> format_directive option list option" where
  "release_directives m fmt dirs = do {
     n \<leftarrow> charcount fmt (ch CHR ''%'') m;
     let formats = n + 1;
     if formats > INT_MAX \<or> nat formats > length dirs then None
     else Some (map (\<lambda>i. dirs ! i) [0..<nat formats]) }"

end
