(* ===== verification/Format_Check.thy ===== *)
theory Format_Check
  imports Format_Parse
begin

text \<open>
  The second half of \<^verbatim>\<open>e_acsl_format.h\<close>: the checks of a directive, of its argument, and the checked
  printing functions. The queries of the memory model are those of \<^verbatim>\<open>Libc_Replacements\<close>. A variadic
  argument list is given by the values that \<^verbatim>\<open>va_arg(ap, void*)\<close> returns one after the other; the
  library functions that do the printing are parameters.
\<close>

section \<open>Well-formedness of a directive\<close>

text \<open>\<^verbatim>\<open>strchr\<close> finds the null character too, at the end of the string.\<close>

definition validate_application :: "format_directive \<Rightarrow> string \<Rightarrow> string \<Rightarrow> string \<Rightarrow> unit outcome option" where
  "validate_application dir allowed kind desc =
     Some (if specifier dir \<in> set (map of_char allowed @ [0]) then Inr ()
       else Inl (FMT_ERROR @ ''wrong application of '' @ desc @ '' ['' @ kind @ ''] to format specifier ['' @
         text_of [specifier dir] @ '']''))"

definition validate_flags :: "format_directive \<Rightarrow> unit outcome option" where
  "validate_flags dir =
     andthen (if flag_apostroph dir then validate_application dir ''idufFgG'' [CHR 0x5C] ''flag'' else Some (Inr ())) (\<lambda>_.
     andthen (if flag_hash dir then validate_application dir ''oxXaAeEfFgG'' ''#'' ''flag'' else Some (Inr ())) (\<lambda>_.
     andthen (if flag_zero dir then validate_application dir ''diouxXaAeEfFgG'' ''0'' ''flag'' else Some (Inr ())) (\<lambda>_.
     Some (if flags_specified dir \<and> specifier dir = ch CHR ''n''
       then Inl (FMT_ERROR @ ''one of more flags with [n] specifier'') else Inr ()))))"

definition validate_length :: "char_map \<Rightarrow> format_directive \<Rightarrow> unit outcome option" where
  "validate_length cm dir =
     (let md = length_mod dir in
      if md \<noteq> 0 then do {
        l \<leftarrow> class_is cm length_id md;
        if \<not> l then Some (Inl (FMT_ERROR @ ''bad length specifier ['' @ text_of [md] @ '']''))
        else
          let lm_kind = text_of (if length_extended dir then [md, md] else [md]); desc = ''length modifier'' in
          if md = ch CHR ''l'' \<and> \<not> length_extended dir then validate_application dir ''diouxXncsfFeEgGaA'' lm_kind desc
          else if md \<in> {ch CHR ''l'', ch CHR ''h'', ch CHR ''j'', ch CHR ''z'', ch CHR ''t''} then
            validate_application dir ''diouxXn'' lm_kind desc
          else if md = ch CHR ''L'' then validate_application dir ''aAeEfFgG'' lm_kind desc
          else Some (Inl (INT_ERROR @ ''unexpected length modifier '' @ text_of [md])) }
      else Some (Inr ()))"

definition validate_applications :: "char_map \<Rightarrow> format_directive \<Rightarrow> unit outcome option" where
  "validate_applications cm dir =
     andthen (validate_flags dir) (\<lambda>_.
     andthen (if precision dir \<noteq> INT_MIN then validate_application dir ''diouxXaAeEfFgGs'' ''.'' ''precision''
       else Some (Inr ())) (\<lambda>_.
     andthen (Some (if specifier dir = ch CHR ''n'' \<and> field_width dir \<noteq> INT_MIN
       then Inl (FMT_ERROR @ ''field width used with [n] specifier'') else Inr ())) (\<lambda>_.
     validate_length cm dir)))"

section \<open>Expected types\<close>

definition infer_integral_abbr :: "format_directive \<Rightarrow> bool \<Rightarrow> abbrev_t outcome" where
  "infer_integral_abbr dir sg =
     (let md = length_mod dir in
      if md = ch CHR ''l'' then
        Inr (if length_extended dir then (if sg then ILongLong else IULongLong) else (if sg then ILong else IULong))
      else if md = ch CHR ''h'' then Inr IInt
      else if md = ch CHR ''j'' then size2abbri 8 sg
      else if md = ch CHR ''z'' then size2abbri 8 sg
      else if md = ch CHR ''t'' then size2abbri 8 sg
      else if md = 0 then Inr (if sg then IInt else IUInt)
      else Inl (INT_ERROR @ ''unexpected length modifier: '' @ quoted (text_of [md])))"

definition infer_n_abbr :: "format_directive \<Rightarrow> abbrev_t outcome" where
  "infer_n_abbr dir =
     (let md = length_mod dir;
          pointer = (\<lambda>sz sg. case size2abbri sz sg of Inl e \<Rightarrow> Inl e | Inr c \<Rightarrow> abbr2ptr c)
      in if md = ch CHR ''h'' then Inr (if length_extended dir then PChar else PShort)
      else if md = ch CHR ''l'' then Inr (if length_extended dir then PLongLong else PLong)
      else if md = ch CHR ''j'' then pointer 8 True
      else if md = ch CHR ''z'' then pointer 8 False
      else if md = ch CHR ''t'' then pointer 8 True
      else if md = 0 then Inr PInt
      else Inl (INT_ERROR @ ''unexpected length modifier '' @ quoted (text_of [md])))"

text \<open>The text of the directive in a message, and the position of its argument.\<close>

definition shown :: "format_directive \<Rightarrow> string" where
  "shown dir = text_of (takeWhile (\<lambda>c. c \<noteq> 0) (directive_text dir))"

definition position :: "format_directive \<Rightarrow> string" where
  "position dir = show_d (arg_index dir + 1)"

text \<open>
  An argument of an unknown type is an error too, but its name is the null pointer, which the
  message then dereferences.
\<close>

definition validate_format_type ::
  "mem \<Rightarrow> abbrev_t \<Rightarrow> u64 \<Rightarrow> format_directive \<Rightarrow> string \<Rightarrow> unit outcome option" where
  "validate_format_type m expected_t fmtdesc dir func =
     (let actual_t = m (fmtdesc + word_of_int (arg_index dir)) in
      if actual_t \<noteq> abbr_char expected_t then do {
        expected \<leftarrow> abbr2str (abbr_char expected_t);
        actual \<leftarrow> abbr2str actual_t;
        Some (Inl (func @ '': directive '' @ position dir @ '' ('' @ quoted (shown dir) @ '') expects argument of type '' @
          quoted expected @ '' but the corresponding argument has type '' @ quoted actual)) }
      else Some (Inr ()))"

section \<open>Arguments\<close>

definition validate_format_string_argument ::
  "'s mm_api \<Rightarrow> mem \<Rightarrow> u64 \<Rightarrow> format_directive \<Rightarrow> string \<Rightarrow> bool \<Rightarrow> 's \<Rightarrow> int outcome option" where
  "validate_format_string_argument api m s dir func wide st =
     (let limit = (if precision dir \<ge> 0 then precision dir else - 1);
          loc = position dir @ '' ('' @ quoted (shown dir) @ '')''
      in andthen (if wide then valid_nwstring api m s limit False st else valid_nstring api m s limit False st) (\<lambda>n.
         Some (if n = - 1 then Inl (func @ '': attempt to access unallocated memory via directive '' @ loc)
           else if n = - 2 then Inl (INT_ERROR @ func @ '': writeable check unexpectedly failed in directive '' @ loc)
           else if n = - 3 then Inl (func @ '': attempt to access partially unallocated memory via directive '' @ loc)
           else if n = - 4 then Inl (func @ '': unterminated string in directive '' @ loc)
           else Inr n)))"

definition validate_overlapping_buffer ::
  "u64 \<Rightarrow> u64 \<Rightarrow> u64 \<Rightarrow> u64 \<Rightarrow> string \<Rightarrow> format_directive \<Rightarrow> unit outcome option" where
  "validate_overlapping_buffer buffer buf_sz arg arg_sz func dir =
     Some (if buffer \<noteq> 0 \<and> \<not> disjoint_spaces buffer buf_sz arg arg_sz
       then Inl (func @ '': output buffer overlaps with argument '' @ position dir @ '' ('' @ shown dir @ '')'') else Inr ())"

text \<open>\<^verbatim>\<open>wint_t\<close> is an unsigned, \<^verbatim>\<open>wchar_t\<close> a signed integer of four bytes.\<close>

definition UNSIGNED :: "int \<Rightarrow> int \<Rightarrow> bool" where
  "UNSIGNED n not_n \<longleftrightarrow> n \<ge> 0 \<and> not_n \<ge> 0"

definition wint_unsigned :: bool where "wint_unsigned = UNSIGNED 1 (uint (NOT 1 :: u32))"
definition wchar_unsigned :: bool where "wchar_unsigned = UNSIGNED 1 (sint (NOT 1 :: u32))"

text \<open>The conversions of \<^verbatim>\<open>long\<close> to \<^verbatim>\<open>int\<close> and of \<^verbatim>\<open>int\<close> to \<^verbatim>\<open>size_t\<close>.\<close>

definition to_int :: "int \<Rightarrow> int" where "to_int n = sint (word_of_int n :: u32)"
definition to_size :: "int \<Rightarrow> u64" where "to_size n = word_of_int n"

text \<open>The body of the loop of \<^verbatim>\<open>validate_format\<close>: the switch over the specifier.\<close>

definition validate_argument ::
  "'s mm_api \<Rightarrow> mem \<Rightarrow> u64 \<Rightarrow> string \<Rightarrow> u64 \<Rightarrow> u64 \<Rightarrow> format_directive \<Rightarrow> u64 \<Rightarrow> 's \<Rightarrow> unit outcome option" where
  "validate_argument api m fmtdesc func buffer buf_size dir addr st =
     (let c = specifier dir; argno = arg_index dir;
          validate_type = (\<lambda>t. validate_format_type m t fmtdesc dir func)
      in if c \<in> {ch CHR ''d'', ch CHR ''i''} then
           andthen (Some (infer_integral_abbr dir True)) validate_type
         else if c \<in> {ch CHR ''o'', ch CHR ''u'', ch CHR ''x'', ch CHR ''X''} then
           andthen (Some (infer_integral_abbr dir False)) validate_type
         else if c \<in> {ch CHR ''f'', ch CHR ''F'', ch CHR ''e'', ch CHR ''E'', ch CHR ''g'', ch CHR ''G'', ch CHR ''a'', ch CHR ''A''} then
           validate_type (if length_mod dir = ch CHR ''L'' then FLongDouble else FDouble)
         else if c = ch CHR ''c'' then
           andthen (Some (if length_mod dir = ch CHR ''l'' then size2abbri 4 (\<not> wint_unsigned) else Inr IInt)) validate_type
         else if c = ch CHR ''s'' then
           (let wide = (length_mod dir = ch CHR ''l'') in
            andthen (Some (if wide then (case size2abbri 4 (\<not> wchar_unsigned) of Inl e \<Rightarrow> Inl e | Inr t \<Rightarrow> abbr2ptr t)
              else Inr PChar)) (\<lambda>expected_t.
            andthen (validate_type expected_t) (\<lambda>_.
            andthen (validate_format_string_argument api m addr dir func wide st) (\<lambda>n.
            validate_overlapping_buffer buffer buf_size addr (to_size (to_int n)) func dir))))
         else if c = ch CHR ''p'' then
           andthen (validate_type PVoid) (\<lambda>_.
           andthen (api_allocated api addr 1 addr st) (\<lambda>a.
           if \<not> a then Some (Inl (func @ '': argument '' @ position dir @ '' of directive '' @ shown dir @ '' not allocated''))
           else validate_overlapping_buffer buffer buf_size addr 1 func dir))
         else if c = ch CHR ''n'' then
           andthen (Some (infer_n_abbr dir)) (\<lambda>expected_t.
           andthen (validate_type expected_t) (\<lambda>_.
           let n = (if length_bytes dir = 0 then 4 else length_bytes dir) in
           andthen (api_writeable api addr (to_size n) addr st) (\<lambda>w.
           if \<not> w then
             Some (Inl (func @ '': argument '' @ show_d argno @ '' of directive '' @ shown dir @ '' not allocated or writeable''))
           else validate_overlapping_buffer buffer buf_size addr (to_size n) func dir)))
         else Some (Inl (INT_ERROR @ ''Unexpected format specifier '' @ quoted (text_of [c]))))"

text \<open>The loop runs up to the null pointer at the end of the array; \<open>args\<close> is an array of \<^verbatim>\<open>arglen\<close> values.\<close>

fun validate_directives ::
  "'s mm_api \<Rightarrow> char_map \<Rightarrow> mem \<Rightarrow> u64 \<Rightarrow> u64 list \<Rightarrow> string \<Rightarrow> u64 \<Rightarrow> u64 \<Rightarrow> format_directive option list \<Rightarrow> 's
    \<Rightarrow> unit outcome option" where
  "validate_directives api cm m fmtdesc args func buffer buf_size [] st = None"
| "validate_directives api cm m fmtdesc args func buffer buf_size (None # dirs) st = Some (Inr ())"
| "validate_directives api cm m fmtdesc args func buffer buf_size (Some dir # dirs) st =
     andthen (validate_applications cm dir) (\<lambda>_.
     let argno = arg_index dir in
     if argno \<ge> int (length args) then
       Some (Inl (func @ '': directive '' @ position dir @ '' ('' @ shown dir @ '') in format '' @
         double_quoted (show_s m (fd_format dir)) @ '' has no argument''))
     else if argno < 0 then None
     else
       andthen (validate_argument api m fmtdesc func buffer buf_size dir (args ! nat argno) st) (\<lambda>_.
       validate_directives api cm m fmtdesc args func buffer buf_size dirs st))"

definition validate_format ::
  "'s mm_api \<Rightarrow> mem \<Rightarrow> u64 \<Rightarrow> u64 \<Rightarrow> u64 list \<Rightarrow> string \<Rightarrow> u64 \<Rightarrow> u64 \<Rightarrow> char_map \<Rightarrow> 's \<Rightarrow> char_map outcome option" where
  "validate_format api m fmtdesc fmt ap func buffer buf_size cm st =
     andthen (rt_valid_string api m fmt False st) (\<lambda>r.
     if r < 0 then Some (Inl (func @ '': invalid format string (unallocated or unterminated)''))
     else
       andthen (get_format_directives cm m fmt) (\<lambda>(cm, dirs). do {
         n \<leftarrow> strlen fmtdesc m;
         let arglen = to_int (uint n);
         if arglen < 0 \<or> nat arglen > length ap then None
         else
           andthen (validate_directives api cm m fmtdesc (take (nat arglen) ap) func buffer buf_size dirs st) (\<lambda>_. do {
           _ \<leftarrow> release_directives m fmt dirs;
           Some (Inr cm) }) }))"

section \<open>Printing functions\<close>

text \<open>The result of a checked function: that of the library function, and the character map.\<close>

definition finish :: "'r option \<Rightarrow> char_map \<Rightarrow> ('r \<times> char_map) outcome option" where
  "finish r cm = map_option (\<lambda>v. Inr (v, cm)) r"

definition builtin_printf ::
  "(u64 \<Rightarrow> u64 list \<Rightarrow> 'r option) \<Rightarrow> 's mm_api \<Rightarrow> mem \<Rightarrow> u64 \<Rightarrow> u64 \<Rightarrow> u64 list \<Rightarrow> char_map \<Rightarrow> 's
    \<Rightarrow> ('r \<times> char_map) outcome option" where
  "builtin_printf vprintf api m fmtdesc fmt ap cm st =
     andthen (validate_format api m fmtdesc fmt ap ''printf'' 0 0 cm st) (\<lambda>cm. finish (vprintf fmt ap) cm)"

definition builtin_fprintf ::
  "(u64 \<Rightarrow> u64 \<Rightarrow> u64 list \<Rightarrow> 'r option) \<Rightarrow> (u64 \<Rightarrow> int) \<Rightarrow> (int \<Rightarrow> int) \<Rightarrow> 's mm_api \<Rightarrow> mem \<Rightarrow> u64 \<Rightarrow> u64 \<Rightarrow> u64 \<Rightarrow> u64 list
    \<Rightarrow> char_map \<Rightarrow> 's \<Rightarrow> ('r \<times> char_map) outcome option" where
  "builtin_fprintf vfprintf fileno fcntl_getfd api m fmtdesc stream fmt ap cm st =
     andthen (api_allocated api stream 1 stream st) (\<lambda>a.
     if \<not> a then Some (Inl ''fprintf: attempt to write to an invalid stream'')
     else
       let fd = fileno stream in
       if fd = - 1 then Some (Inl ''fprintf: attempt to write to an invalid stream'')
       else if fcntl_getfd fd = - 1 then Some (Inl ''fprintf: attempt to write to a closed stream'')
       else
         andthen (validate_format api m fmtdesc fmt ap ''fprintf'' 0 0 cm st) (\<lambda>cm. finish (vfprintf stream fmt ap) cm))"

definition builtin_dprintf ::
  "(int \<Rightarrow> u64 \<Rightarrow> u64 list \<Rightarrow> 'r option) \<Rightarrow> (int \<Rightarrow> int) \<Rightarrow> 's mm_api \<Rightarrow> mem \<Rightarrow> u64 \<Rightarrow> int \<Rightarrow> u64 \<Rightarrow> u64 list \<Rightarrow> char_map \<Rightarrow> 's
    \<Rightarrow> ('r \<times> char_map) outcome option" where
  "builtin_dprintf vdprintf fcntl_getfd api m fmtdesc fd fmt ap cm st =
     (if fcntl_getfd fd = - 1 then
        Some (Inl (''dprintf: attempt to write to a closed file descriptor '' @ show_d fd))
      else andthen (validate_format api m fmtdesc fmt ap ''dprintf'' 0 0 cm st) (\<lambda>cm. finish (vdprintf fd fmt ap) cm))"

text \<open>
  \<^verbatim>\<open>vsnprintf\<close> is called for the length before the format has been checked. Its result may be negative.
\<close>

definition builtin_sprintf ::
  "(u64 \<Rightarrow> u64 \<Rightarrow> u64 list \<Rightarrow> 'r option) \<Rightarrow> (u64 \<Rightarrow> u64 \<Rightarrow> u64 \<Rightarrow> u64 list \<Rightarrow> int option) \<Rightarrow> 's mm_api \<Rightarrow> mem \<Rightarrow> u64 \<Rightarrow> u64 \<Rightarrow> u64
    \<Rightarrow> u64 list \<Rightarrow> char_map \<Rightarrow> 's \<Rightarrow> ('r \<times> char_map) outcome option" where
  "builtin_sprintf vsprintf vsnprintf api m fmtdesc buffer fmt ap cm st = do {
     len \<leftarrow> vsnprintf 0 0 fmt ap;
     if len + 1 > INT_MAX then None
     else
       andthen (api_writeable api buffer (to_size (len + 1)) buffer st) (\<lambda>w.
       if \<not> w then
         Some (Inl (''sprintf: output buffer is unallocated or has insufficient length to store '' @ show_d (len + 1) @
           '' characters or not writeable''))
       else
         andthen (validate_format api m fmtdesc fmt ap ''sprintf'' buffer (to_size (len + 1)) cm st) (\<lambda>cm.
         finish (vsprintf buffer fmt ap) cm)) }"

definition builtin_snprintf ::
  "(u64 \<Rightarrow> u64 \<Rightarrow> u64 \<Rightarrow> u64 list \<Rightarrow> 'r option) \<Rightarrow> 's mm_api \<Rightarrow> mem \<Rightarrow> u64 \<Rightarrow> u64 \<Rightarrow> u64 \<Rightarrow> u64 \<Rightarrow> u64 list \<Rightarrow> char_map \<Rightarrow> 's
    \<Rightarrow> ('r \<times> char_map) outcome option" where
  "builtin_snprintf vsnprintf api m fmtdesc buffer sz fmt ap cm st =
     andthen (validate_format api m fmtdesc fmt ap ''snprintf'' buffer sz cm st) (\<lambda>cm.
     andthen (if sz > 0 then api_writeable api buffer sz buffer st else Some (Inr True)) (\<lambda>w.
     if \<not> w then
       Some (Inl (''sprintf: output buffer is unallocated or has insufficient length to store '' @ show_d (to_int (uint sz)) @
         '' characters and ''))
     else finish (vsnprintf buffer sz fmt ap) cm))"

definition builtin_syslog ::
  "(int \<Rightarrow> u64 \<Rightarrow> u64 list \<Rightarrow> 'r option) \<Rightarrow> 's mm_api \<Rightarrow> mem \<Rightarrow> u64 \<Rightarrow> int \<Rightarrow> u64 \<Rightarrow> u64 list \<Rightarrow> char_map \<Rightarrow> 's
    \<Rightarrow> ('r \<times> char_map) outcome option" where
  "builtin_syslog vsyslog api m fmtdesc priority fmt ap cm st =
     andthen (validate_format api m fmtdesc fmt ap ''syslog'' 0 0 cm st) (\<lambda>cm. finish (vsyslog priority fmt ap) cm)"

end
