(* ===== verification/Format_Grammar.thy ===== *)
theory Format_Grammar
  imports Format_Check Printf_Correct
begin

text \<open>
  The grammar of format strings, as texts of abstract conversion specifications, and the parser of
  \<^verbatim>\<open>e_acsl_format.h\<close> on them: every specification is read back field by field.
\<close>

section \<open>Conversion specifications\<close>

datatype count = Star | Count nat

datatype modifier = No_Mod | Mod_hh | Mod_h | Mod_l | Mod_ll | Mod_j | Mod_z | Mod_t | Mod_L

record conv_spec =
  cs_argno :: "nat option"
  cs_flags :: "u8 list"
  cs_width :: "count option"
  cs_precision :: "count option"
  cs_modifier :: modifier
  cs_conversion :: u8

abbreviation decimal :: "nat \<Rightarrow> u8 list" where
  "decimal n \<equiv> number_text 10 False n"

fun count_text :: "count \<Rightarrow> u8 list" where
  "count_text Star = [ch CHR ''*'']"
| "count_text (Count n) = decimal n"

fun modifier_text :: "modifier \<Rightarrow> u8 list" where
  "modifier_text No_Mod = []"
| "modifier_text Mod_hh = map of_char ''hh''"
| "modifier_text Mod_h = map of_char ''h''"
| "modifier_text Mod_l = map of_char ''l''"
| "modifier_text Mod_ll = map of_char ''ll''"
| "modifier_text Mod_j = map of_char ''j''"
| "modifier_text Mod_z = map of_char ''z''"
| "modifier_text Mod_t = map of_char ''t''"
| "modifier_text Mod_L = map of_char ''L''"

definition tail_text :: "conv_spec \<Rightarrow> u8 list" where
  "tail_text cs = modifier_text (cs_modifier cs) @ [cs_conversion cs]"

definition precision_tail :: "conv_spec \<Rightarrow> u8 list" where
  "precision_tail cs = (case cs_precision cs of Some n \<Rightarrow> ch CHR ''.'' # count_text n | None \<Rightarrow> []) @ tail_text cs"

definition width_tail :: "conv_spec \<Rightarrow> u8 list" where
  "width_tail cs = (case cs_width cs of Some n \<Rightarrow> count_text n | None \<Rightarrow> []) @ precision_tail cs"

definition flags_tail :: "conv_spec \<Rightarrow> u8 list" where
  "flags_tail cs = cs_flags cs @ width_tail cs"

text \<open>The text behind the percent sign.\<close>

definition spec_text :: "conv_spec \<Rightarrow> u8 list" where
  "spec_text cs = (case cs_argno cs of Some n \<Rightarrow> decimal n @ [ch CHR ''$''] | None \<Rightarrow> []) @ flags_tail cs"

fun count_ok :: "nat \<Rightarrow> count \<Rightarrow> bool" where
  "count_ok lo Star = True"
| "count_ok lo (Count n) = (lo \<le> n \<and> n < 2 ^ 31)"

definition spec_ok :: "conv_spec \<Rightarrow> bool" where
  "spec_ok cs \<longleftrightarrow>
     (case cs_argno cs of Some n \<Rightarrow> 1 \<le> n \<and> n < 2 ^ 31 | None \<Rightarrow> True) \<and>
     distinct (cs_flags cs) \<and> set (cs_flags cs) \<subseteq> set flag_chars \<and>
     (case cs_width cs of Some n \<Rightarrow> count_ok 1 n | None \<Rightarrow> True) \<and>
     (case cs_precision cs of Some n \<Rightarrow> count_ok 0 n | None \<Rightarrow> True) \<and>
     cs_conversion cs \<in> set specifier_chars"

section \<open>The directive of a specification\<close>

fun modifier_bytes :: "modifier \<Rightarrow> int" where
  "modifier_bytes No_Mod = 0"
| "modifier_bytes Mod_hh = 1"
| "modifier_bytes Mod_h = 2"
| "modifier_bytes Mod_L = 16"
| "modifier_bytes _ = 8"

definition count_value :: "count option \<Rightarrow> int" where
  "count_value n = (case n of None \<Rightarrow> INT_MIN | Some Star \<Rightarrow> - 1 | Some (Count n) \<Rightarrow> int n)"

text \<open>The directive that describes a specification whose argument has the index \<open>k\<close>.\<close>

definition spec_directive :: "u64 \<Rightarrow> int \<Rightarrow> conv_spec \<Rightarrow> format_directive" where
  "spec_directive fmt k cs =
     \<lparr>fd_format = fmt,
      directive_text = (let t = ch CHR ''%'' # spec_text cs in t @ replicate (16 - length t) 0),
      arg_index = k, arg_expl = (cs_argno cs \<noteq> None), flags_specified = (cs_flags cs \<noteq> []),
      flag_minus = (ch CHR ''-'' \<in> set (cs_flags cs)), flag_plus = (ch CHR ''+'' \<in> set (cs_flags cs)),
      flag_space = (ch CHR '' '' \<in> set (cs_flags cs)), flag_hash = (ch CHR ''#'' \<in> set (cs_flags cs)),
      flag_zero = (ch CHR ''0'' \<in> set (cs_flags cs)), flag_apostroph = (ch (CHR 0x27) \<in> set (cs_flags cs)),
      field_width = count_value (cs_width cs), precision = count_value (cs_precision cs),
      length_bytes = modifier_bytes (cs_modifier cs),
      length_mod = (case modifier_text (cs_modifier cs) of [] \<Rightarrow> 0 | c # _ \<Rightarrow> c),
      length_extended = (cs_modifier cs \<in> {Mod_hh, Mod_ll}), specifier = cs_conversion cs\<rparr>"

section \<open>Argument indices\<close>

text \<open>
  The argument a specification refers to: the one it numbers, or the next one, where every \<^verbatim>\<open>*\<close> up to
  the specification takes one as well.
\<close>

definition stars :: "conv_spec \<Rightarrow> nat" where
  "stars cs = (if cs_width cs = Some Star then 1 else 0) + (if cs_precision cs = Some Star then 1 else 0)"

definition argument_index :: "conv_spec list \<Rightarrow> nat \<Rightarrow> int" where
  "argument_index css j = (case cs_argno (css ! j) of Some n \<Rightarrow> int n - 1
     | None \<Rightarrow> int j + int (sum_list (map stars (take (Suc j) css))))"

text \<open>
  The index that the parser stores for the specification at position \<open>i\<close>: it does not count the
  \<^verbatim>\<open>*\<close>, and a specification whose first flag is \<^verbatim>\<open>0\<close> gets the index 0, wherever it stands.
\<close>

definition zero_first :: "conv_spec \<Rightarrow> bool" where
  "zero_first cs \<longleftrightarrow> cs_flags cs \<noteq> [] \<and> hd (cs_flags cs) = ch CHR ''0''"

definition parsed_index :: "int \<Rightarrow> conv_spec \<Rightarrow> int" where
  "parsed_index i cs = (case cs_argno cs of Some n \<Rightarrow> int n - 1 | None \<Rightarrow> if zero_first cs then 0 else i)"

text \<open>The specifications for which the two agree.\<close>

definition bound_right :: "conv_spec list \<Rightarrow> nat \<Rightarrow> bool" where
  "bound_right css j \<longleftrightarrow> cs_argno (css ! j) \<noteq> None \<or>
     list_all (\<lambda>cs. stars cs = 0) (take (Suc j) css) \<and> (zero_first (css ! j) \<longrightarrow> j = 0)"

lemma parsed_index_right: "parsed_index (int j) (css ! j) = argument_index css j \<longleftrightarrow> bound_right css j"
proof -
  define n where "n = sum_list (map stars (take (Suc j) css))"
  have "n = 0 \<longleftrightarrow> list_all (\<lambda>cs. stars cs = 0) (take (Suc j) css)" by (auto simp: n_def list_all_iff)
  then show ?thesis
    unfolding bound_right_def parsed_index_def argument_index_def n_def [symmetric] by (auto split: option.split)
qed

section \<open>Numbers\<close>

declare numeral_of.simps [simp del]

lemma unat_digit: "d < 10 \<Longrightarrow> unat (48 + of_nat d :: u8) = 48 + d"
  by (simp add: unat_word_ariths unat_of_nat)

lemma decimal_digits: "decimal n = map (\<lambda>d. 48 + of_nat d) (numeral_of 10 n)"
proof -
  have "digit_char False (of_nat d) = 48 + of_nat d" if "d < 10" for d
  proof -
    have "unat (digit_char False (of_nat d)) = d + 48" using digit_char_nat [of d False] that by presburger
    also have "\<dots> = unat (48 + of_nat d :: u8)" using unat_digit [OF that] by presburger
    finally show ?thesis by (simp only: word_unat_eq_iff)
  qed
  moreover have "d < 10" if "d \<in> set (numeral_of 10 n)" for d by (rule numeral_facts(2) [OF _ that]) simp
  ultimately show ?thesis unfolding number_text_def digit_text_def by (simp only: map_eq_conv) blast
qed

lemma sint_ascii: "unat (c :: u8) < 128 \<Longrightarrow> sint c = int (unat c)" and sint_not_ascii: "128 \<le> unat c \<Longrightarrow> sint c < 0"
proof -
  have u: "int (unat c) = uint c" by simp
  show "sint c = int (unat c)" if "unat c < 128"
  proof -
    have "- (2 ^ 7) \<le> uint c" "uint c < 2 ^ 7" using that unfolding u [symmetric] by (simp_all del: of_nat_unat)
    then show ?thesis unfolding u sint_uint by (simp add: signed_take_bit_int_eq_self)
  qed
  show "sint c < 0" if "128 \<le> unat c"
  proof -
    have "uint c < 256" using uint_lt2p [of c] by simp
    moreover have "128 \<le> uint c" using that unfolding u [symmetric] by (simp del: of_nat_unat)
    ultimately have "uint c div 128 = 1" by linarith
    then have "bit (uint c) 7" by (simp add: bit_iff_odd)
    then show ?thesis by (simp add: sint_uint)
  qed
qed

lemma is_digit_iff: "is_digit c \<longleftrightarrow> 48 \<le> unat c \<and> unat c \<le> 57"
  using sint_ascii [of c] sint_not_ascii [of c]
  by (cases "unat c < 128") (auto simp: is_digit_def isdigit_def ISDIGIT_def simp del: of_nat_unat)

lemma digit_facts: "d < 10 \<Longrightarrow> is_digit (48 + of_nat d) \<and> sint (48 + of_nat d :: u8) = 48 + int d"
proof -
  assume d: "d < 10"
  then show ?thesis using unat_digit [OF d] sint_ascii [of "48 + of_nat d"] by (simp add: is_digit_iff)
qed

lemma foldl_mono: "v \<le> foldl (\<lambda>v d. v * 10 + d) (v :: nat) ds"
proof (induction ds arbitrary: v)
  case (Cons d ds)
  show ?case using order_trans [OF _ Cons.IH [of "v * 10 + d"], of v] by simp
qed simp

lemma fetch_number_digits:
  assumes "text_at m p (map (\<lambda>d. 48 + of_nat d) ds @ [c])" and "\<And>d. d \<in> set ds \<Longrightarrow> d < 10" and "\<not> is_digit c"
    and "foldl (\<lambda>v d. v * 10 + d) v ds < 2 ^ 31"
  shows "fetch_number m p (int v) = Some (p + of_nat (length ds), int (foldl (\<lambda>v d. v * 10 + d) v ds))"
  using assms(1,2,4)
proof (induction ds arbitrary: p v)
  case Nil
  then show ?case using assms(3) by (simp add: fetch_number.simps [of m p] text_at_Cons)
next
  case (Cons d ds)
  have d: "m p = 48 + of_nat d" "d < 10" using Cons.prems(1,2) by (simp_all add: text_at_Cons)
  have lt: "v * 10 + d < 2 ^ 31" using foldl_mono [of "v * 10 + d" ds] Cons.prems(3) by simp
  have "int v * 10 + int d \<le> INT_MAX" using lt by simp
  moreover have "fetch_number m (p + 1) (int (v * 10 + d)) =
      Some (p + 1 + of_nat (length ds), int (foldl (\<lambda>v d. v * 10 + d) (v * 10 + d) ds))"
    by (rule Cons.IH) (use Cons.prems in \<open>simp_all add: text_at_Cons\<close>)
  ultimately show ?case using digit_facts [OF d(2)] by (simp add: fetch_number.simps [of m p] d(1) Let_def ac_simps)
qed

lemma fetch_number_decimal:
  assumes "text_at m p (decimal n @ [c])" and "\<not> is_digit c" and "n < 2 ^ 31"
  shows "fetch_number m p 0 = Some (p + of_nat (length (decimal n)), int n)"
  using fetch_number_digits [of m p "numeral_of 10 n" c 0] assms numeral_facts(2) [of 10 _ n] numeral_facts(1) [of 10 n]
  by (simp add: decimal_digits value_of_def)

lemma fetch_number_none: "\<not> is_digit (m p) \<Longrightarrow> fetch_number m p n = Some (p, n)"
  by (simp add: fetch_number.simps [of m p])

lemma decimal_nonempty: "decimal n \<noteq> []" and decimal_hd_digit: "is_digit (hd (decimal n))"
  and decimal_hd_nonzero: "n \<noteq> 0 \<Longrightarrow> hd (decimal n) \<noteq> 48"
proof -
  show ne: "decimal n \<noteq> []" by (rule number_text_facts(2)) simp_all
  have ne': "numeral_of 10 n \<noteq> []" using ne by (simp add: decimal_digits)
  have "hd (decimal n) = 48 + of_nat (hd (numeral_of 10 n))" using ne' by (simp add: decimal_digits hd_map)
  moreover have "hd (numeral_of 10 n) < 10" using numeral_facts(2) [of 10 "hd (numeral_of 10 n)" n] ne' by simp
  ultimately show "is_digit (hd (decimal n))" using digit_facts by simp
  show "hd (decimal n) \<noteq> 48" if "n \<noteq> 0" using number_text_facts(3) [of 10 n False] that by simp
qed

lemma decimal_at:
  assumes "text_at m p (decimal n @ xs)"
  shows "is_digit (m p)" and "m p \<noteq> 42" and "m p \<noteq> 36" and "m p \<noteq> 37" and "n \<noteq> 0 \<Longrightarrow> m p \<noteq> 48"
proof -
  have e: "m p = hd (decimal n)" using assms decimal_nonempty [of n] by (cases "decimal n") (simp_all add: text_at_Cons)
  then show d: "is_digit (m p)" using decimal_hd_digit by simp
  then show "m p \<noteq> 42" "m p \<noteq> 36" "m p \<noteq> 37" by (auto simp: is_digit_iff)
  show "m p \<noteq> 48" if "n \<noteq> 0" using e decimal_hd_nonzero [OF that] by simp
qed

section \<open>Character classes\<close>

definition char_table :: char_map where "char_table = set_format_char_map (\<lambda>_. 0)"

lemmas char_sets = specifier_chars_def length_chars_def flag_chars_def period_chars_def
lemmas class_ids = specifier_id_def length_id_def flag_id_def period_id_def

lemma char_table_eq:
  "char_table c = (if c = 0 then 105 else if c \<in> set period_chars then 114 else if c \<in> set flag_chars then 102
     else if c \<in> set length_chars then 108 else if c \<in> set specifier_chars then 115 else 0)"
  by (simp add: char_table_def set_format_char_map_def set_class_def char_sets class_ids)

lemma char_class:
  assumes "c < 128"
  shows "class_is char_table specifier_id c = Some (c \<in> set specifier_chars)"
    and "class_is char_table length_id c = Some (c \<in> set length_chars)"
    and "class_is char_table flag_id c = Some (c \<in> set flag_chars)"
    and "class_is char_table period_id c = Some (c \<in> set period_chars)"
proof -
  have "char_table c = 115 \<longleftrightarrow> c \<in> set specifier_chars" "char_table c = 108 \<longleftrightarrow> c \<in> set length_chars"
    "char_table c = 102 \<longleftrightarrow> c \<in> set flag_chars" "char_table c = 114 \<longleftrightarrow> c \<in> set period_chars"
    unfolding char_table_eq by (auto simp: char_sets)
  then show "class_is char_table specifier_id c = Some (c \<in> set specifier_chars)"
    "class_is char_table length_id c = Some (c \<in> set length_chars)" "class_is char_table flag_id c = Some (c \<in> set flag_chars)"
    "class_is char_table period_id c = Some (c \<in> set period_chars)"
    using assms by (simp_all add: class_is_def class_ids)
qed

section \<open>Fetching the parts\<close>

definition flag_set :: "format_directive \<Rightarrow> u8 \<Rightarrow> bool" where
  "flag_set dir c \<longleftrightarrow> c = ch CHR ''#'' \<and> flag_hash dir \<or> c = ch CHR ''-'' \<and> flag_minus dir \<or> c = ch CHR ''+'' \<and> flag_plus dir \<or>
     c = ch CHR '' '' \<and> flag_space dir \<or> c = ch (CHR 0x27) \<and> flag_apostroph dir \<or> c = ch CHR ''0'' \<and> flag_zero dir"

definition with_flags :: "u8 list \<Rightarrow> format_directive \<Rightarrow> format_directive" where
  "with_flags fl dir = dir\<lparr>flags_specified := flags_specified dir \<or> fl \<noteq> [],
     flag_minus := flag_minus dir \<or> ch CHR ''-'' \<in> set fl, flag_plus := flag_plus dir \<or> ch CHR ''+'' \<in> set fl,
     flag_space := flag_space dir \<or> ch CHR '' '' \<in> set fl, flag_hash := flag_hash dir \<or> ch CHR ''#'' \<in> set fl,
     flag_zero := flag_zero dir \<or> ch CHR ''0'' \<in> set fl, flag_apostroph := flag_apostroph dir \<or> ch (CHR 0x27) \<in> set fl\<rparr>"

lemma set_format_flag_new:
  "c \<in> set flag_chars \<Longrightarrow> \<not> flag_set dir c \<Longrightarrow> set_format_flag c dir = Inr (with_flags [c] dir)"
  by (auto simp: flag_chars_def set_format_flag_def flag_set_def with_flags_def)

lemma with_flags_Cons: "with_flags fl (with_flags [c] dir) = with_flags (c # fl) dir"
  by (auto simp: with_flags_def)

lemma flag_set_with: "flag_set (with_flags [c] dir) d \<Longrightarrow> d \<noteq> c \<Longrightarrow> flag_set dir d"
  by (auto simp: flag_set_def with_flags_def)

lemma fetch_flags:
  assumes "text_at m p (fl @ [c])" and "set fl \<subseteq> set flag_chars" and "distinct fl" and "\<And>d. d \<in> set fl \<Longrightarrow> \<not> flag_set dir d"
    and "c < 128" and "c \<notin> set flag_chars"
  shows "fetch_format_flags char_table m p dir = Some (Inr (p + of_nat (length fl), with_flags fl dir))"
  using assms(1-4)
proof (induction fl arbitrary: p dir)
  case Nil
  then show ?case
    using assms(5,6) char_class(3) [of c] by (simp add: fetch_format_flags.simps [of _ m p] text_at_Cons with_flags_def)
next
  case (Cons d fl)
  have d: "m p = d" "d \<in> set flag_chars" "\<not> flag_set dir d" using Cons.prems by (simp_all add: text_at_Cons)
  then have "d < 128" by (auto simp: flag_chars_def)
  moreover have "fetch_format_flags char_table m (p + 1) (with_flags [d] dir) =
      Some (Inr (p + 1 + of_nat (length fl), with_flags fl (with_flags [d] dir)))"
  proof (rule Cons.IH)
    fix x assume "x \<in> set fl"
    then show "\<not> flag_set (with_flags [d] dir) x" using Cons.prems(3,4) flag_set_with [of d dir x] by auto
  qed (use Cons.prems in \<open>simp_all add: text_at_Cons\<close>)
  ultimately show ?case
    using d set_format_flag_new [OF d(2,3)] char_class(3) [of d]
    by (simp add: fetch_format_flags.simps [of _ m p] with_flags_Cons ac_simps)
qed

lemma conversion_facts:
  assumes "c \<in> set specifier_chars"
  shows "c < 128" "c \<noteq> 0" "c \<notin> set length_chars" "\<not> is_digit c" "c \<noteq> 37" "c \<noteq> 36" "c \<noteq> 42" "c \<notin> set flag_chars" "c \<noteq> 46"
  using assms by (auto simp: char_sets is_digit_iff)

lemma fetch_length:
  assumes "text_at m p (tail_text cs)" and "cs_conversion cs \<in> set specifier_chars"
  shows "fetch_format_length char_table m p dir = Some (Inr (p + of_nat (length (tail_text cs)),
    dir\<lparr>length_bytes := modifier_bytes (cs_modifier cs),
      length_mod := (case modifier_text (cs_modifier cs) of [] \<Rightarrow> 0 | c # _ \<Rightarrow> c),
      length_extended := (cs_modifier cs \<in> {Mod_hh, Mod_ll}), specifier := cs_conversion cs\<rparr>))"
proof -
  note c = conversion_facts [OF assms(2)]
  have l: "cs_conversion cs \<noteq> 104" "cs_conversion cs \<noteq> 108" "cs_conversion cs \<noteq> 106" "cs_conversion cs \<noteq> 122"
    "cs_conversion cs \<noteq> 116" "cs_conversion cs \<noteq> 76"
    using c(3) by (auto simp: length_chars_def)
  show ?thesis
    using assms(1) c(1,2) l char_class(1) [OF c(1)] assms(2)
    by (cases "cs_modifier cs")
      (simp_all add: tail_text_def text_at_Cons fetch_format_length_def length_modifier_def add.assoc)
qed

end
