(* ===== verification/Format_Roundtrip.thy ===== *)
theory Format_Roundtrip
  imports Format_Grammar Libc_Replacements_Correct
begin

text \<open>
  The parser on a whole specification and on a whole format string: the directives it returns are
  those of the specifications, in order.
\<close>

section \<open>First characters\<close>

definition tail_chars :: "u8 set" where "tail_chars = set length_chars \<union> set specifier_chars"

lemma tail_first: "cs_conversion cs \<in> set specifier_chars \<Longrightarrow> \<exists>c t. tail_text cs = c # t \<and> c \<in> tail_chars"
  by (cases "cs_modifier cs") (auto simp: tail_text_def tail_chars_def length_chars_def)

lemma precision_first:
  "cs_conversion cs \<in> set specifier_chars \<Longrightarrow> \<exists>c t. precision_tail cs = c # t \<and> c \<in> insert 46 tail_chars"
  using tail_first [of cs] by (auto simp: precision_tail_def split: option.split)

lemma tail_char_facts:
  assumes "c \<in> insert 46 tail_chars"
  shows "c < 128" "\<not> is_digit c" "c \<noteq> 42" "c \<noteq> 36" "c \<noteq> 37" "c \<noteq> 0" "c \<notin> set flag_chars" "c \<noteq> 48"
  using assms by (auto simp: tail_chars_def char_sets is_digit_iff)

lemma text_at_first: "text_at m p xs \<Longrightarrow> xs = c # t \<Longrightarrow> m p = c"
  by (simp add: text_at_Cons)

lemma text_at_prefix: "text_at m p (xs @ ys) \<Longrightarrow> ys = c # t \<Longrightarrow> text_at m p (xs @ [c])"
  by (simp add: text_at_append text_at_Cons)

section \<open>One specification\<close>

lemma fetch_precision:
  assumes "text_at m p (precision_tail cs)" and "spec_ok cs"
  shows "fetch_format_precision char_table m p dir = Some (Inr (p + of_nat (length (precision_tail cs) - length (tail_text cs)),
    dir\<lparr>precision := count_value (cs_precision cs)\<rparr>))"
proof -
  have conv: "cs_conversion cs \<in> set specifier_chars" using assms(2) by (simp add: spec_ok_def)
  obtain c t where ct: "tail_text cs = c # t" "c \<in> tail_chars" using tail_first [OF conv] by blast
  then have cf: "c < 128" "\<not> is_digit c" "c \<noteq> 46" using tail_char_facts [of c] by (auto simp: tail_chars_def char_sets)
  show ?thesis
  proof (cases "cs_precision cs")
    case None
    then have "m p = c" using assms(1) ct by (simp add: precision_tail_def text_at_Cons)
    then show ?thesis
      using None cf char_class(4) [of c] by (simp add: fetch_format_precision_def precision_tail_def count_value_def period_chars_def)
  next
    case (Some n)
    have dot: "m p = 46" "text_at m (p + 1) (count_text n @ tail_text cs)"
      using assms(1) Some by (simp_all add: precision_tail_def text_at_Cons)
    have per: "class_is char_table period_id 46 = Some True" using char_class(4) [of 46] by (simp add: period_chars_def)
    show ?thesis
    proof (cases n)
      case Star
      then show ?thesis
        using Some dot per by (simp add: fetch_format_precision_def precision_tail_def count_value_def text_at_Cons add.assoc)
    next
      case (Count k)
      have "text_at m (p + 1) (decimal k @ [c])" using text_at_prefix [OF dot(2) ct(1)] Count by simp
      then have num: "fetch_number m (p + 1) 0 = Some (p + 1 + of_nat (length (decimal k)), int k)"
        using fetch_number_decimal cf(2) assms(2) Some Count by (simp add: spec_ok_def)
      have "m (p + 1) \<noteq> 42" using decimal_at(2) dot(2) Count by simp
      then show ?thesis
        using Some Count dot(1) per num
        by (simp add: fetch_format_precision_def precision_tail_def count_value_def add.assoc Let_def)
    qed
  qed
qed

lemma fetch_width:
  assumes "text_at m p (width_tail cs)" and "spec_ok cs"
  shows "fetch_format_field_width m p dir = Some (Inr (p + of_nat (length (width_tail cs) - length (precision_tail cs)),
    dir\<lparr>field_width := count_value (cs_width cs)\<rparr>))"
proof -
  have conv: "cs_conversion cs \<in> set specifier_chars" using assms(2) by (simp add: spec_ok_def)
  obtain c t where ct: "precision_tail cs = c # t" "c \<in> insert 46 tail_chars" using precision_first [OF conv] by blast
  note cf = tail_char_facts [OF ct(2)]
  show ?thesis
  proof (cases "cs_width cs")
    case None
    then have "m p = c" using assms(1) ct by (simp add: width_tail_def text_at_Cons)
    then show ?thesis using None cf by (simp add: fetch_format_field_width_def width_tail_def count_value_def)
  next
    case (Some n)
    have w: "text_at m p (count_text n @ precision_tail cs)" using assms(1) Some by (simp add: width_tail_def)
    show ?thesis
    proof (cases n)
      case Star
      then show ?thesis
        using Some w by (simp add: fetch_format_field_width_def width_tail_def count_value_def text_at_Cons)
    next
      case (Count k)
      have k: "k \<noteq> 0" "k < 2 ^ 31" using assms(2) Some Count by (simp_all add: spec_ok_def)
      have "text_at m p (decimal k @ [c])" using text_at_prefix [OF w ct(1)] Count by simp
      then have num: "fetch_number m p 0 = Some (p + of_nat (length (decimal k)), int k)"
        using fetch_number_decimal cf(2) k(2) by blast
      have "is_digit (m p)" "m p \<noteq> 48" "m p \<noteq> 42" using decimal_at(1,2,5) w Count k(1) by simp_all
      then show ?thesis
        using Some Count num by (simp add: fetch_format_field_width_def width_tail_def count_value_def)
    qed
  qed
qed

lemma fetch_argno:
  assumes "text_at m p (spec_text cs)" and "spec_ok cs"
    and "case prev of Some pd \<Rightarrow> arg_expl pd = (cs_argno cs \<noteq> None) | None \<Rightarrow> True" and "arg_index dir = 0" and "\<not> arg_expl dir"
  shows "fetch_format_argno m p dir prev i = Some (Inr (p + of_nat (length (spec_text cs) - length (flags_tail cs)),
    dir\<lparr>arg_index := parsed_index i cs, arg_expl := (cs_argno cs \<noteq> None)\<rparr>))"
proof (cases "cs_argno cs")
  case (Some n)
  have n: "n \<noteq> 0" "n < 2 ^ 31" using assms(2) Some by (simp_all add: spec_ok_def)
  have t: "text_at m p ((decimal n @ [36]) @ flags_tail cs)" using assms(1) Some by (simp add: spec_text_def)
  then have "text_at m p (decimal n @ [36])" by (simp add: text_at_append text_at_Cons)
  moreover have "\<not> is_digit 36" by (simp add: is_digit_iff)
  ultimately have num: "fetch_number m p 0 = Some (p + of_nat (length (decimal n)), int n)" using fetch_number_decimal n(2) by blast
  have dollar: "m (p + of_nat (length (decimal n))) = 36" using t by (simp add: text_at_append text_at_Cons)
  have "m p \<noteq> 48" using decimal_at(5) [of m p n] t n(1) by simp
  then show ?thesis
    using num dollar Some assms(3) by (auto simp: fetch_format_argno_def spec_text_def parsed_index_def zero_first_def add.assoc split: option.splits)
next
  case None
  have t: "text_at m p (flags_tail cs)" using assms(1) None by (simp add: spec_text_def)
  have ok: "set (cs_flags cs) \<subseteq> set flag_chars" "cs_conversion cs \<in> set specifier_chars" using assms(2) by (simp_all add: spec_ok_def)
  obtain c r where ct: "precision_tail cs = c # r" "c \<in> insert 46 tail_chars" using precision_first [OF ok(2)] by blast
  note cf = tail_char_facts [OF ct(2)]
  show ?thesis
  proof (cases "cs_flags cs \<noteq> [] \<and> hd (cs_flags cs) = 48")
    case True
    then have "m p = 48" using t by (cases "cs_flags cs") (simp_all add: flags_tail_def text_at_Cons)
    then show ?thesis using True None assms(4,5) by (simp add: fetch_format_argno_def spec_text_def parsed_index_def zero_first_def)
  next
    case False
    have "m p \<noteq> 48 \<and> (\<exists>r n. fetch_number m p 0 = Some (r, n) \<and> m r \<noteq> 36)"
    proof (cases "cs_flags cs")
      case (Cons d fl)
      then have "m p = d" "d \<in> set flag_chars" "d \<noteq> 48" using t ok(1) False by (auto simp: flags_tail_def text_at_Cons)
      then have "m p \<noteq> 48" "\<not> is_digit (m p)" "m p \<noteq> 36" by (auto simp: flag_chars_def is_digit_iff)
      then show ?thesis using fetch_number_none by blast
    next
      case Nil
      then have w: "text_at m p (width_tail cs)" using t by (simp add: flags_tail_def)
      show ?thesis
      proof (cases "\<exists>k. cs_width cs = Some (Count k)")
        case True
        then obtain k where k: "cs_width cs = Some (Count k)" by blast
        then have t': "text_at m p (decimal k @ precision_tail cs)" using w by (simp add: width_tail_def)
        have kb: "k \<noteq> 0" "k < 2 ^ 31" using assms(2) k by (simp_all add: spec_ok_def)
        have "text_at m p (decimal k @ [c])" by (rule text_at_prefix [OF t' ct(1)])
        then have "fetch_number m p 0 = Some (p + of_nat (length (decimal k)), int k)" using fetch_number_decimal cf(2) kb(2) by blast
        moreover have "m (p + of_nat (length (decimal k))) = c" using t' ct(1) by (simp add: text_at_append text_at_Cons)
        ultimately show ?thesis using decimal_at(5) [OF t'] kb(1) cf(4) by blast
      next
        case False
        then have "cs_width cs = None \<or> cs_width cs = Some Star" by (metis count.exhaust option.exhaust)
        then have "m p = 42 \<or> m p = c" using w ct(1) by (auto simp: width_tail_def text_at_Cons)
        moreover have "\<not> is_digit 42" by (simp add: is_digit_iff)
        ultimately have "\<not> is_digit (m p)" "m p \<noteq> 48" "m p \<noteq> 36" using cf by auto
        then show ?thesis using fetch_number_none by blast
      qed
    qed
    then obtain r n where r: "m p \<noteq> 48" "fetch_number m p 0 = Some (r, n)" "m r \<noteq> 36" by blast
    then show ?thesis
      using False None assms(3) by (auto simp: fetch_format_argno_def spec_text_def parsed_index_def zero_first_def split: option.splits)
  qed
qed

lemma spec_text_without:
  assumes "spec_ok cs" and "x \<notin> set flag_chars \<union> set length_chars \<union> set specifier_chars \<union> {36, 42, 46}" and "\<not> is_digit x"
  shows "x \<notin> set (spec_text cs)"
proof -
  have d: "x \<notin> set (decimal n)" for n
  proof -
    have "is_digit y" if y: "y \<in> set (decimal n)" for y
    proof -
      obtain k where k: "y = 48 + of_nat k" "k \<in> set (numeral_of 10 n)" using y unfolding decimal_digits set_map by blast
      show ?thesis using digit_facts numeral_facts(2) [OF _ k(2)] k(1) by simp
    qed
    then show ?thesis using assms(3) by blast
  qed
  then have c: "x \<notin> set (count_text n)" for n using assms(2) by (cases n) simp_all
  have md: "x \<notin> set (modifier_text md)" for md using assms(2) by (cases md) (simp_all add: length_chars_def)
  have "x \<notin> set (cs_flags cs)" "cs_conversion cs \<noteq> x" using assms(1,2) by (auto simp: spec_ok_def)
  then show ?thesis
    using c d md assms(2)
    by (auto simp: spec_text_def flags_tail_def width_tail_def precision_tail_def tail_text_def split: option.split)
qed

lemma spec_text_nonzero: "spec_ok cs \<Longrightarrow> 0 \<notin> set (spec_text cs)"
  by (rule spec_text_without) (simp_all add: char_sets is_digit_iff)

lemma spec_text_no_percent: "spec_ok cs \<Longrightarrow> 37 \<notin> set (spec_text cs)"
  by (rule spec_text_without) (simp_all add: char_sets is_digit_iff)

lemma strncpy_text_nonzero:
  assumes "text_at m p xs" and "0 \<notin> set xs"
  shows "strncpy_text m p (length xs) = xs"
proof -
  have "map (\<lambda>i. m (p + of_nat i)) [0..<length xs] = xs" using assms(1) by (intro nth_equalityI) (simp_all add: text_at_def)
  moreover have "takeWhile (\<lambda>c. c \<noteq> 0) xs = xs" using assms(2) unfolding takeWhile_eq_all_conv by blast
  ultimately show ?thesis unfolding strncpy_text_def Let_def by (simp only: diff_self_eq_0 replicate_0 append_Nil2)
qed

lemma save_spec_text:
  assumes "text_at m q xs" and "0 \<notin> set xs" and "length xs \<le> 14" and "directive_text dir = replicate 16 0"
  shows "save_text m q (q + of_nat (length xs)) dir = Some (dir\<lparr>directive_text := xs @ replicate (16 - length xs) 0\<rparr>)"
proof -
  have s: "sint (of_nat (length xs) :: u64) = int (length xs)"
    using assms(3) by (simp add: signed_of_nat signed_take_bit_int_eq_self)
  have u: "(xs @ replicate (16 - length xs) 0)[length xs + 1 := 0] = xs @ replicate (16 - length xs) 0"
  proof (rule nth_equalityI)
    fix i assume "i < length ((xs @ replicate (16 - length xs) 0)[length xs + 1 := 0])"
    then show "(xs @ replicate (16 - length xs) 0)[length xs + 1 := 0] ! i = (xs @ replicate (16 - length xs) 0) ! i"
      by (cases "i = length xs + 1") (simp_all add: nth_append)
  qed simp
  show ?thesis using assms(3,4) by (simp add: save_text_def s strncpy_text_nonzero [OF assms(1,2)] u [unfolded Suc_eq_plus1 [symmetric]] Let_def)
qed

lemma tail_lengths:
  "length (tail_text cs) \<le> length (precision_tail cs)" "length (precision_tail cs) \<le> length (width_tail cs)"
  "length (flags_tail cs) = length (cs_flags cs) + length (width_tail cs)" "length (flags_tail cs) \<le> length (spec_text cs)"
  by (simp_all add: precision_tail_def width_tail_def flags_tail_def spec_text_def)

lemma text_at_drop: "text_at m p (xs @ ys) \<Longrightarrow> text_at m (p + of_nat (length (xs @ ys) - length ys)) ys"
  by (simp add: text_at_append)

lemma fetch_directive_fields:
  assumes "text_at m q (37 # spec_text cs)" and "spec_ok cs"
    and "case prev of Some pd \<Rightarrow> arg_expl pd = (cs_argno cs \<noteq> None) | None \<Rightarrow> True"
  shows "fetch_directive char_table m fmt (q + 1) prev i = do {
    dir \<leftarrow> save_text m q (q + 1 + of_nat (length (spec_text cs))) ((spec_directive fmt (parsed_index i cs) cs)\<lparr>directive_text := replicate 16 0\<rparr>);
    Some (Inr (q + 1 + of_nat (length (spec_text cs)), dir)) }"
proof -
  let ?dir = "zero_directive\<lparr>fd_format := fmt\<rparr>"
  have t0: "text_at m (q + 1) (spec_text cs)" using assms(1) by (simp add: text_at_Cons)
  define p1 where "p1 = q + 1 + of_nat (length (spec_text cs) - length (flags_tail cs))"
  define p2 where "p2 = p1 + of_nat (length (cs_flags cs))"
  define p3 where "p3 = p2 + of_nat (length (width_tail cs) - length (precision_tail cs))"
  define p4 where "p4 = p3 + of_nat (length (precision_tail cs) - length (tail_text cs))"
  have t1: "text_at m p1 (flags_tail cs)" using t0 text_at_drop unfolding p1_def spec_text_def by blast
  have t2: "text_at m p2 (width_tail cs)" using t1 unfolding p2_def flags_tail_def text_at_append by blast
  have t3: "text_at m p3 (precision_tail cs)" using t2 text_at_drop unfolding p3_def width_tail_def by blast
  have t4: "text_at m p4 (tail_text cs)" using t3 text_at_drop unfolding p4_def precision_tail_def by blast
  have conv: "cs_conversion cs \<in> set specifier_chars" and fl: "set (cs_flags cs) \<subseteq> set flag_chars" "distinct (cs_flags cs)"
    using assms(2) by (simp_all add: spec_ok_def)
  have fin: "p4 + of_nat (length (tail_text cs)) = q + 1 + of_nat (length (spec_text cs))"
    using tail_lengths [of cs] by (simp add: p1_def p2_def p3_def p4_def of_nat_diff)
  define d1 where "d1 = ?dir\<lparr>arg_index := parsed_index i cs, arg_expl := (cs_argno cs \<noteq> None)\<rparr>"
  have a: "fetch_format_argno m (q + 1) ?dir prev i = Some (Inr (p1, d1))"
    unfolding p1_def d1_def by (rule fetch_argno [OF t0 assms(2,3)]) (simp_all add: zero_directive_def)
  have b: "fetch_format_flags char_table m p1 d1 = Some (Inr (p2, with_flags (cs_flags cs) d1))"
  proof -
    have "\<exists>c r. width_tail cs = c # r \<and> c < 128 \<and> c \<notin> set flag_chars"
    proof -
      obtain c r where cr: "precision_tail cs = c # r" "c \<in> insert 46 tail_chars" using precision_first [OF conv] by blast
      note cf = tail_char_facts [OF cr(2)]
      have dig: "hd (decimal k) < 128 \<and> hd (decimal k) \<notin> set flag_chars" if "k \<noteq> 0" for k
        using decimal_hd_digit [of k] decimal_hd_nonzero [OF that] by (auto simp: is_digit_iff flag_chars_def word_less_nat_alt)
      show ?thesis
      proof (cases "cs_width cs")
        case (Some n)
        show ?thesis
        proof (cases n)
          case (Count k)
          then have "k \<noteq> 0" using assms(2) Some by (simp add: spec_ok_def)
          then show ?thesis using dig [of k] decimal_nonempty [of k] Some Count by (cases "decimal k") (simp_all add: width_tail_def)
        qed (use Some in \<open>simp add: width_tail_def flag_chars_def\<close>)
      qed (use cr cf in \<open>simp add: width_tail_def\<close>)
    qed
    then obtain c r where cr: "width_tail cs = c # r" "c < 128" "c \<notin> set flag_chars" by blast
    have "text_at m p1 (cs_flags cs @ [c])" using text_at_prefix [OF _ cr(1)] t1 unfolding flags_tail_def by blast
    moreover have "\<not> flag_set d1 d" for d by (simp add: flag_set_def d1_def zero_directive_def)
    ultimately show ?thesis using fetch_flags fl cr(2,3) unfolding p2_def by blast
  qed
  have c: "fetch_format_field_width m p2 d = Some (Inr (p3, d\<lparr>field_width := count_value (cs_width cs)\<rparr>))" for d
    unfolding p3_def by (rule fetch_width [OF t2 assms(2)])
  have d: "fetch_format_precision char_table m p3 d = Some (Inr (p4, d\<lparr>precision := count_value (cs_precision cs)\<rparr>))" for d
    unfolding p4_def by (rule fetch_precision [OF t3 assms(2)])
  show ?thesis
    unfolding fetch_directive_def Let_def a andthen_simps b prod.case c d fetch_length [OF t4 conv] fin
    by (simp add: d1_def with_flags_def zero_directive_def spec_directive_def Let_def)
qed

lemma fetch_directive_spec:
  assumes "text_at m q (37 # spec_text cs)" and "spec_ok cs" and "length (spec_text cs) \<le> 13"
    and "case prev of Some pd \<Rightarrow> arg_expl pd = (cs_argno cs \<noteq> None) | None \<Rightarrow> True"
  shows "fetch_directive char_table m fmt (q + 1) prev i =
    Some (Inr (q + 1 + of_nat (length (spec_text cs)), spec_directive fmt (parsed_index i cs) cs))"
proof -
  let ?t = "37 # spec_text cs"
  have "0 \<notin> set ?t" "length ?t \<le> 14" using spec_text_nonzero [OF assms(2)] assms(3) by simp_all
  then have "save_text m q (q + 1 + of_nat (length (spec_text cs))) ((spec_directive fmt (parsed_index i cs) cs)\<lparr>directive_text := replicate 16 0\<rparr>) =
      Some (spec_directive fmt (parsed_index i cs) cs)"
    using save_spec_text [OF assms(1), of "(spec_directive fmt (parsed_index i cs) cs)\<lparr>directive_text := replicate 16 0\<rparr>"]
    by (simp add: add.assoc spec_directive_def Let_def)
  then show ?thesis unfolding fetch_directive_fields [OF assms(1,2,4)] by simp
qed

text \<open>The array overrun: a directive of 15 or more characters is not stored.\<close>

lemma fetch_directive_overrun:
  assumes "text_at m q (37 # spec_text cs)" and "spec_ok cs" and "14 \<le> length (spec_text cs)" and "length (spec_text cs) < 2 ^ 31"
    and "case prev of Some pd \<Rightarrow> arg_expl pd = (cs_argno cs \<noteq> None) | None \<Rightarrow> True"
  shows "fetch_directive char_table m fmt (q + 1) prev i = None"
proof -
  have "sint (q + 1 + of_nat (length (spec_text cs)) - q :: u64) = sint (of_nat (length (spec_text cs) + 1) :: u64)"
    by (simp add: algebra_simps)
  also have "\<dots> = int (length (spec_text cs) + 1)"
    using assms(4) by (simp add: signed_of_nat signed_take_bit_int_eq_self del: of_nat_add of_nat_Suc)
  finally show ?thesis
    unfolding fetch_directive_fields [OF assms(1,2,5)] save_text_def Let_def using assms(3) by simp
qed

section \<open>Whole formats\<close>

datatype fmt_item = Plain u8 | Double_Percent | Conv conv_spec

fun item_text :: "fmt_item \<Rightarrow> u8 list" where
  "item_text (Plain c) = [c]"
| "item_text Double_Percent = map of_char ''%%''"
| "item_text (Conv cs) = ch CHR ''%'' # spec_text cs"

definition format_text :: "fmt_item list \<Rightarrow> u8 list" where "format_text items = concat (map item_text items)"

text \<open>The parser's array has room for directives of up to 14 characters.\<close>

fun item_ok :: "fmt_item \<Rightarrow> bool" where
  "item_ok (Plain c) = (c \<noteq> 0 \<and> c \<noteq> ch CHR ''%'')"
| "item_ok Double_Percent = True"
| "item_ok (Conv cs) = (spec_ok cs \<and> length (spec_text cs) \<le> 13)"

fun conversions :: "fmt_item list \<Rightarrow> conv_spec list" where
  "conversions [] = []"
| "conversions (Conv cs # items) = cs # conversions items"
| "conversions (_ # items) = conversions items"

text \<open>Numbered and unnumbered specifications are not mixed.\<close>

definition format_ok :: "bool \<Rightarrow> fmt_item list \<Rightarrow> bool" where
  "format_ok ex items \<longleftrightarrow> list_all item_ok items \<and> list_all (\<lambda>cs. (cs_argno cs \<noteq> None) = ex) (conversions items)"

fun spec_directives :: "u64 \<Rightarrow> nat \<Rightarrow> conv_spec list \<Rightarrow> format_directive list" where
  "spec_directives fmt i [] = []"
| "spec_directives fmt i (cs # css) = spec_directive fmt (parsed_index (int i) cs) cs # spec_directives fmt (i + 1) css"

lemma length_spec_directives [simp]: "length (spec_directives fmt i css) = length css"
  by (induction css arbitrary: i) simp_all

lemma format_text_simps [simp]: "format_text [] = []" "format_text (it # items) = item_text it @ format_text items"
  by (simp_all add: format_text_def)

lemma format_ok_Cons:
  "format_ok ex (Conv cs # items) \<longleftrightarrow> spec_ok cs \<and> length (spec_text cs) \<le> 13 \<and> (cs_argno cs \<noteq> None) = ex \<and> format_ok ex items"
  "format_ok ex (Plain c # items) \<longleftrightarrow> c \<noteq> 0 \<and> c \<noteq> 37 \<and> format_ok ex items"
  "format_ok ex (Double_Percent # items) \<longleftrightarrow> format_ok ex items"
  by (auto simp: format_ok_def)

lemma directives_loop_format:
  assumes "text_at m q (format_text items @ [0])" and "format_ok ex items"
    and "case prev of Some pd \<Rightarrow> arg_expl pd = ex | None \<Rightarrow> True" and "i + length (conversions items) \<le> length dirs"
  shows "directives_loop char_table m fmt q i prev dirs =
    Some (Inr (take i dirs @ map Some (spec_directives fmt i (conversions items)) @ drop (i + length (conversions items)) dirs))"
  using assms
proof (induction items arbitrary: q i prev dirs)
  case Nil
  then show ?case by (simp add: directives_loop.simps [of _ m fmt q] text_at_Cons)
next
  case (Cons it items)
  show ?case
  proof (cases it)
    case (Plain c)
    then have "m q = c" "c \<noteq> 0" "c \<noteq> 37" "text_at m (q + 1) (format_text items @ [0])"
      using Cons.prems(1,2) by (simp_all add: format_ok_Cons text_at_Cons)
    then show ?thesis
      using Plain Cons.IH [of "q + 1" prev i dirs] Cons.prems(2-4)
      by (simp add: directives_loop.simps [of _ m fmt q] format_ok_Cons)
  next
    case Double_Percent
    then have "m q = 37" "m (q + 1) = 37" "text_at m (q + 1 + 1) (format_text items @ [0])"
      using Cons.prems(1) by (simp_all add: text_at_Cons)
    then show ?thesis
      using Double_Percent Cons.IH [of "q + 1 + 1" prev i dirs] Cons.prems(2-4)
      by (simp add: directives_loop.simps [of _ m fmt q] format_ok_Cons)
  next
    case (Conv cs)
    let ?d = "spec_directive fmt (parsed_index (int i) cs) cs"
    have ok: "spec_ok cs" "length (spec_text cs) \<le> 13" "(cs_argno cs \<noteq> None) = ex" "format_ok ex items"
      using Cons.prems(2) Conv by (simp_all add: format_ok_Cons)
    have t: "text_at m q (37 # spec_text cs)" "text_at m (q + 1 + of_nat (length (spec_text cs))) (format_text items @ [0])"
      using Cons.prems(1) Conv by (simp_all add: text_at_Cons text_at_append)
    obtain c r where cr: "spec_text cs = c # r" by (cases "spec_text cs") (auto simp: spec_text_def flags_tail_def width_tail_def
        precision_tail_def tail_text_def)
    have c: "m (q + 1) \<noteq> 37" using t(1) spec_text_no_percent [OF ok(1)] cr by (auto simp: text_at_Cons)
    have f: "fetch_directive char_table m fmt (q + 1) prev (int i) = Some (Inr (q + 1 + of_nat (length (spec_text cs)), ?d))"
      using fetch_directive_spec [OF t(1) ok(1,2)] Cons.prems(3) ok(3) by (simp split: option.splits)
    have i: "i < length dirs" using Cons.prems(4) Conv by simp
    have IH: "directives_loop char_table m fmt (q + 1 + of_nat (length (spec_text cs))) (i + 1) (Some ?d) (dirs[i := Some ?d]) =
        Some (Inr (take (i + 1) (dirs[i := Some ?d]) @ map Some (spec_directives fmt (i + 1) (conversions items)) @
          drop (i + 1 + length (conversions items)) (dirs[i := Some ?d])))"
      using Cons.IH [OF t(2) ok(4), of "Some ?d" "i + 1" "dirs[i := Some ?d]"] Cons.prems(4) Conv ok(3)
      by (simp add: spec_directive_def)
    have "take (i + 1) (dirs[i := Some ?d]) = take i dirs @ [Some ?d]" using i by (simp add: take_Suc_conv_app_nth)
    then show ?thesis
      using Conv t(1) c f i IH by (simp add: directives_loop.simps [of _ m fmt q] text_at_Cons)
  qed
qed

section \<open>The array\<close>

lemma conversions_counted: "length (conversions items) \<le> length (filter (\<lambda>c. c = 37) (format_text items))"
proof (induction items)
  case (Cons it items)
  then show ?case by (cases it) simp_all
qed simp

lemma format_text_nonzero: "list_all item_ok items \<Longrightarrow> 0 \<notin> set (format_text items)"
proof (induction items)
  case (Cons it items)
  then show ?case using spec_text_nonzero by (cases it) simp_all
qed simp

lemma text_terminated:
  assumes "text_at m p (xs @ [0])" and "0 \<notin> set xs"
  shows "terminated m p (length xs)"
proof -
  have at: "m (p + of_nat j) = (xs @ [0]) ! j" if "j \<le> length xs" for j using assms(1) that by (simp add: text_at_def)
  have "m (p + of_nat j) \<noteq> 0" if "j < length xs" for j using at [of j] that assms(2) nth_mem [OF that] by (metis append_eq_conv_conj less_imp_le nth_append_left)
  moreover have "m (p + of_nat (length xs)) = 0" using at [of "length xs"] by simp
  ultimately show ?thesis by (simp add: terminated_def)
qed

lemma occurrences_text:
  assumes "text_at m p (xs @ [0])"
  shows "occurrences m c p (length xs) = length (filter (\<lambda>x. x = c) xs)"
proof -
  have "m (p + of_nat j) = xs ! j" if "j < length xs" for j using assms that by (simp add: text_at_def nth_append)
  then have "{j. j < length xs \<and> m (p + of_nat j) = c} = {j. j < length xs \<and> xs ! j = c}" by auto
  then show ?thesis by (simp add: occurrences_def length_filter_conv_card)
qed

text \<open>The character map before the first call, and after it.\<close>

definition map_ready :: "char_map \<Rightarrow> bool" where
  "map_ready cm \<longleftrightarrow> cm 0 \<noteq> ch CHR ''i'' \<or> cm = char_table"

lemma map_ready_set: "map_ready cm \<Longrightarrow> set_format_char_map cm = char_table"
proof -
  have "char_table 0 = 105" by (simp add: char_table_eq)
  then show "map_ready cm \<Longrightarrow> set_format_char_map cm = char_table"
    by (auto simp: map_ready_def set_format_char_map_def char_table_def)
qed

lemma map_ready_table: "map_ready char_table" "map_ready (\<lambda>_. 0)"
  by (simp_all add: map_ready_def)

text \<open>A format of length below \<^verbatim>\<open>INT_MAX\<close> in memory.\<close>

definition format_at :: "mem \<Rightarrow> u64 \<Rightarrow> bool \<Rightarrow> fmt_item list \<Rightarrow> bool" where
  "format_at m fmt ex items \<longleftrightarrow> fmt \<noteq> 0 \<and> text_at m fmt (format_text items @ [0]) \<and> format_ok ex items \<and>
     unat fmt + length (format_text items) < 2 ^ 64 \<and> length (format_text items) < 2 ^ 31 - 1"

definition percents :: "fmt_item list \<Rightarrow> nat" where
  "percents items = length (filter (\<lambda>c. c = 37) (format_text items))"

lemma charcount_format: "format_at m fmt ex items \<Longrightarrow> charcount fmt 37 m = Some (int (percents items))"
proof -
  assume f: "format_at m fmt ex items"
  then have t: "text_at m fmt (format_text items @ [0])" and nz: "0 \<notin> set (format_text items)"
    using format_text_nonzero by (simp_all add: format_at_def format_ok_def)
  have oc: "occurrences m 37 fmt (length (format_text items)) = percents items"
    using occurrences_text [OF t] by (simp add: percents_def)
  have "percents items \<le> length (format_text items)" by (simp add: percents_def)
  then have "charcount_loop m 37 fmt 0 = Some (0 + int (percents items))"
    using charcount_loop_counts [OF text_terminated [OF t nz], of 37 0] f oc by (simp add: format_at_def)
  then show ?thesis by (simp add: charcount_def)
qed

lemma get_directives_format:
  assumes "format_at m fmt ex items" and "map_ready cm"
  shows "get_format_directives cm m fmt = Some (Inr (char_table,
    map Some (spec_directives fmt 0 (conversions items)) @ replicate (percents items + 1 - length (conversions items)) None))"
proof -
  have t: "text_at m fmt (format_text items @ [0])" "format_ok ex items" and len: "length (format_text items) < 2 ^ 31 - 1"
    using assms(1) by (simp_all add: format_at_def)
  have n: "length (conversions items) \<le> percents items" using conversions_counted by (simp add: percents_def)
  have "percents items \<le> length (format_text items)" by (simp add: percents_def)
  then have "\<not> int (percents items) + 1 > INT_MAX" using len by simp
  moreover have "directives_loop char_table m fmt fmt 0 None (replicate (percents items + 1) None) =
      Some (Inr (map Some (spec_directives fmt 0 (conversions items)) @
        replicate (percents items + 1 - length (conversions items)) None))"
    using directives_loop_format [OF t, of None 0 "replicate (percents items + 1) None"] n
    unfolding drop_replicate add_0 by simp
  moreover have "nat (int (percents items) + 1) = percents items + 1" by simp
  ultimately show ?thesis
    using map_ready_set [OF assms(2)] charcount_format [OF assms(1)] by (simp add: get_format_directives_def)
qed

end
