(* ===== verification/Format_Correct.thy ===== *)
theory Format_Correct
  imports Segment_Checked Format_Roundtrip
begin

text \<open>
  What the checks of \<^verbatim>\<open>e_acsl_format.h\<close> accept, over the queries of either memory model: a table of
  applications, the expected type of a conversion, and the memory a pointer argument must denote.
\<close>

section \<open>Applications\<close>

fun modifier_applies :: "modifier \<Rightarrow> u8 \<Rightarrow> bool" where
  "modifier_applies No_Mod c = True"
| "modifier_applies Mod_l c = (c \<in> set (map of_char ''diouxXncsfFeEgGaA''))"
| "modifier_applies Mod_L c = (c \<in> set (map of_char ''aAeEfFgG''))"
| "modifier_applies _ c = (c \<in> set (map of_char ''diouxXn''))"

definition applies :: "conv_spec \<Rightarrow> bool" where
  "applies cs \<longleftrightarrow> (let c = cs_conversion cs; fl = set (cs_flags cs) in
     (ch (CHR 0x27) \<in> fl \<longrightarrow> c \<in> set (map of_char ''idufFgG'')) \<and>
     (ch CHR ''#'' \<in> fl \<longrightarrow> c \<in> set (map of_char ''oxXaAeEfFgG'')) \<and>
     (ch CHR ''0'' \<in> fl \<longrightarrow> c \<in> set (map of_char ''diouxXaAeEfFgG'')) \<and>
     (c = ch CHR ''n'' \<longrightarrow> cs_flags cs = [] \<and> cs_width cs = None) \<and>
     (cs_precision cs \<noteq> None \<longrightarrow> c \<in> set (map of_char ''diouxXaAeEfFgGs'')) \<and>
     modifier_applies (cs_modifier cs) c)"

lemma count_value_given: "count_value n \<noteq> INT_MIN \<longleftrightarrow> n \<noteq> None"
  by (auto simp: count_value_def split: option.split count.split)

text \<open>A check in a sequence of checks: it passes, or it aborts with a message.\<close>

definition decides :: "unit outcome option \<Rightarrow> bool \<Rightarrow> bool" where
  "decides r b \<longleftrightarrow> (if b then r = Some (Inr ()) else \<exists>msg. r = Some (Inl msg))"

lemma decides_andthen: "decides r a \<Longrightarrow> (a \<Longrightarrow> decides (f ()) b) \<Longrightarrow> decides (andthen r f) (a \<and> b)"
  by (auto simp: decides_def split: if_splits)

lemma decides_cong: "decides r a \<Longrightarrow> (a \<longleftrightarrow> b) \<Longrightarrow> decides r b"
  by simp

lemma decides_return [simp]: "decides (Some (Inr ())) b \<longleftrightarrow> b" "decides (Some (Inl e)) b \<longleftrightarrow> \<not> b"
  by (simp_all add: decides_def)

lemma decides_application:
  "specifier d \<noteq> 0 \<Longrightarrow> decides (validate_application d al k ds) (specifier d \<in> set (map of_char al))"
  by (auto simp: validate_application_def decides_def)

lemma decides_guarded:
  "specifier d \<noteq> 0 \<Longrightarrow>
    decides (if g then validate_application d al k ds else Some (Inr ())) (g \<longrightarrow> specifier d \<in> set (map of_char al))"
  using decides_application by simp

lemma decides_flags:
  assumes "specifier d \<noteq> 0"
  shows "decides (validate_flags d)
    ((flag_apostroph d \<longrightarrow> specifier d \<in> set (map of_char ''idufFgG'')) \<and>
     (flag_hash d \<longrightarrow> specifier d \<in> set (map of_char ''oxXaAeEfFgG'')) \<and>
     (flag_zero d \<longrightarrow> specifier d \<in> set (map of_char ''diouxXaAeEfFgG'')) \<and>
     \<not> (flags_specified d \<and> specifier d = ch CHR ''n''))"
  unfolding validate_flags_def by (intro decides_andthen decides_guarded [OF assms]) (simp_all add: decides_def)

lemma decides_length:
  assumes "spec_ok cs" and "d = spec_directive fmt i cs"
  shows "decides (validate_length char_table d) (modifier_applies (cs_modifier cs) (cs_conversion cs))"
proof -
  have c: "cs_conversion cs \<noteq> 0" using assms(1) conversion_facts(2) by (simp add: spec_ok_def)
  show ?thesis
    using c unfolding assms(2)
    by (cases "cs_modifier cs")
      (simp_all add: validate_length_def spec_directive_def char_class(2) length_chars_def validate_application_def decides_def)
qed

lemma decides_applications:
  assumes "spec_ok cs"
  shows "decides (validate_applications char_table (spec_directive fmt i cs)) (applies cs)"
proof -
  let ?d = "spec_directive fmt i cs"
  have c: "specifier ?d \<noteq> 0" using assms conversion_facts(2) by (simp add: spec_ok_def spec_directive_def)
  have dec: "decides (validate_applications char_table ?d)
    (((flag_apostroph ?d \<longrightarrow> specifier ?d \<in> set (map of_char ''idufFgG'')) \<and>
     (flag_hash ?d \<longrightarrow> specifier ?d \<in> set (map of_char ''oxXaAeEfFgG'')) \<and>
     (flag_zero ?d \<longrightarrow> specifier ?d \<in> set (map of_char ''diouxXaAeEfFgG'')) \<and>
     \<not> (flags_specified ?d \<and> specifier ?d = ch CHR ''n'')) \<and>
     (precision ?d \<noteq> INT_MIN \<longrightarrow> specifier ?d \<in> set (map of_char ''diouxXaAeEfFgGs'')) \<and>
     \<not> (specifier ?d = ch CHR ''n'' \<and> field_width ?d \<noteq> INT_MIN) \<and>
     modifier_applies (cs_modifier cs) (cs_conversion cs))"
    unfolding validate_applications_def
    by (intro decides_andthen decides_flags [OF c] decides_guarded [OF c] decides_length [OF assms refl]) (simp add: decides_def)
  have v: "precision ?d \<noteq> INT_MIN \<longleftrightarrow> cs_precision cs \<noteq> None" "field_width ?d \<noteq> INT_MIN \<longleftrightarrow> cs_width cs \<noteq> None"
    using count_value_given by (simp_all add: spec_directive_def)
  have p: "specifier ?d = cs_conversion cs" "flags_specified ?d = (cs_flags cs \<noteq> [])"
    "flag_apostroph ?d = (ch (CHR 0x27) \<in> set (cs_flags cs))" "flag_hash ?d = (ch CHR ''#'' \<in> set (cs_flags cs))"
    "flag_zero ?d = (ch CHR ''0'' \<in> set (cs_flags cs))"
    by (simp_all add: spec_directive_def)
  show ?thesis by (rule decides_cong [OF dec]) (use v in \<open>auto simp only: p applies_def Let_def\<close>)
qed

section \<open>Types\<close>

text \<open>The type a conversion expects, after the default promotions.\<close>

fun integer_type :: "modifier \<Rightarrow> bool \<Rightarrow> abbrev_t" where
  "integer_type Mod_hh sg = IInt"
| "integer_type Mod_h sg = IInt"
| "integer_type Mod_l sg = (if sg then ILong else IULong)"
| "integer_type Mod_ll sg = (if sg then ILongLong else IULongLong)"
| "integer_type Mod_j sg = (if sg then ILong else IULong)"
| "integer_type Mod_z sg = (if sg then ILong else IULong)"
| "integer_type Mod_t sg = (if sg then ILong else IULong)"
| "integer_type _ sg = (if sg then IInt else IUInt)"

fun counter_type :: "modifier \<Rightarrow> abbrev_t" where
  "counter_type Mod_hh = PChar"
| "counter_type Mod_h = PShort"
| "counter_type Mod_l = PLong"
| "counter_type Mod_ll = PLongLong"
| "counter_type Mod_j = PLong"
| "counter_type Mod_z = PULong"
| "counter_type Mod_t = PLong"
| "counter_type _ = PInt"

definition expected_type :: "conv_spec \<Rightarrow> abbrev_t" where
  "expected_type cs = (let c = cs_conversion cs; md = cs_modifier cs in
     if c \<in> set (map of_char ''di'') then integer_type md True
     else if c \<in> set (map of_char ''ouxX'') then integer_type md False
     else if c = ch CHR ''c'' then (if md = Mod_l then IUInt else IInt)
     else if c = ch CHR ''s'' then (if md = Mod_l then PInt else PChar)
     else if c = ch CHR ''p'' then PVoid
     else if c = ch CHR ''n'' then counter_type md
     else if md = Mod_L then FLongDouble else FDouble)"

lemma abbr_roundtrip: "\<exists>name n. abbr_row (abbr_char t) = Some (abbr_char t, name, n, t)"
  by (cases t) (simp_all add: abbr_row_def abbr_char_def abbreviated_types_def)

text \<open>The types of the arguments, as the instrumentation passes them, are known ones.\<close>

definition known_type :: "u8 \<Rightarrow> bool" where "known_type c \<longleftrightarrow> abbr_row c \<noteq> None"

lemma decides_type:
  assumes "known_type (m (fmtdesc + word_of_int (arg_index d)))"
  shows "decides (validate_format_type m t fmtdesc d func) (m (fmtdesc + word_of_int (arg_index d)) = abbr_char t)"
proof -
  obtain e where "abbr2str (abbr_char t) = Some e" using abbr_roundtrip [of t] by (auto simp: abbr2str_def)
  moreover obtain a where "abbr2str (m (fmtdesc + word_of_int (arg_index d))) = Some a"
    using assms by (auto simp: abbr2str_def known_type_def)
  ultimately show ?thesis by (simp add: validate_format_type_def decides_def)
qed

lemma wide_types: "\<not> wint_unsigned = False" "\<not> wchar_unsigned = True"
proof -
  have "uint (NOT 1 :: u32) \<ge> 0" by simp
  then show "\<not> wint_unsigned = False" by (simp add: wint_unsigned_def UNSIGNED_def)
  have "sint (NOT 1 :: u32) = - 2" by simp
  then show "\<not> wchar_unsigned = True" by (simp add: wchar_unsigned_def UNSIGNED_def)
qed

section \<open>Strings of a limited length\<close>

lemma scan_chars_range: "scan_chars z n i k = Some j \<Longrightarrow> i \<le> j \<and> j < i + k \<and> (z j \<or> n = int j)"
  by (induction k arbitrary: i) (fastforce split: if_splits)+

lemma scan_chars_none: "scan_chars z n i k = None \<Longrightarrow> i \<le> x \<Longrightarrow> x < i + k \<Longrightarrow> \<not> z x \<and> n \<noteq> int x"
proof (induction k arbitrary: i)
  case (Suc k)
  then show ?case by (cases "x = i") (auto split: if_splits)
qed simp

text \<open>
  The characters, \<open>w\<close> bytes each, that a conversion with the limit \<open>k\<close> reads at \<open>s\<close>: up to a null
  character, or as many as the precision allows. \<open>- 1\<close> is no limit.
\<close>

definition chars_ok :: "block_map \<Rightarrow> nat \<Rightarrow> (nat \<Rightarrow> bool) \<Rightarrow> u64 \<Rightarrow> int \<Rightarrow> bool" where
  "chars_ok B w z s k \<longleftrightarrow>
     k = 0 \<or> (\<exists>i. z i \<and> accessible B s (w * (i + 1)) s) \<or> 0 < k \<and> accessible B s (w * nat k) s"

context checked_memory
begin

lemma nchars_valid:
  assumes "q_env e" and "q_rep st B" and "q_dom st s" and "0 < w" and "w < 2 ^ 63" and "- 1 \<le> k"
  shows "\<exists>n. valid_nchars (q_api e) (of_nat w) z s k False st = Some (Inr n) \<and> n \<in> {- 1, - 3, - 4} \<union> {0..} \<and>
    (0 \<le> n \<longleftrightarrow> chars_ok B w z s k)"
proof (cases "k = 0")
  case True
  then show ?thesis by (simp add: valid_nchars_def chars_ok_def)
next
  case k0: False
  show ?thesis
  proof (cases "covered B s")
    case False
    then have "\<not> accessible B s x s" for x using accessible_covered by blast
    then show ?thesis
      using q_allocated [OF assms(1-3), of 1] k0 by (simp add: valid_nchars_def chars_ok_def)
  next
    case True
    then obtain p n where p: "B p = Some n" "inside p n s" by (auto simp: covered_def)
    note av = available [OF assms(2) p] and acc = accessible_iff [OF q_separate [OF assms(2)] p, of _ s]
    define avail where "avail = n - unat (s - p)"
    have sz: "sint ((of_nat n - (s - p)) div of_nat w :: u64) = int (avail div w)"
    proof -
      have "avail < 2 ^ 63" using q_bound [OF assms(2) p(1)] unfolding avail_def by linarith
      moreover have "avail div w \<le> avail" by simp
      ultimately have lt: "avail div w < 2 ^ 63" by linarith
      have "(of_nat avail :: u64) div of_nat w = of_nat (avail div w)"
      proof -
        have "unat (of_nat (avail div w) :: u64) = avail div w" "unat (of_nat w :: u64) = w"
          using lt assms(5) by (simp_all add: unat_of_nat_64)
        then show ?thesis using av(4) by (simp only: word_unat_eq_iff unat_div avail_def)
      qed
      then show ?thesis
        using av(1) lt by (simp add: avail_def signed_of_nat signed_take_bit_int_eq_self)
    qed
    have ok: "accessible B s (w * x) s \<longleftrightarrow> x \<le> avail div w" for x
    proof -
      have "accessible B s (w * x) s \<longleftrightarrow> w * x \<le> avail" unfolding acc avail_def using p(2) av(2) by linarith
      then show ?thesis using assms(4) by (simp add: less_eq_div_iff_mult_less_eq mult.commute)
    qed
    have res: "valid_nchars (q_api e) (of_nat w) z s k False st = Some (Inr (case scan_chars z k 0 (avail div w) of
        Some i \<Rightarrow> int i | None \<Rightarrow> if k = int (avail div w) then k else if k > int (avail div w) then - 3 else - 4))"
    proof -
      have "accessible B s 1 s" unfolding acc using p(2) av(2) by simp
      then have "api_allocated (q_api e) s 1 s st = Some (Inr True)" using q_allocated [OF assms(1-3), of 1] by simp
      then show ?thesis
        using k0 by (simp add: valid_nchars_def q_length [OF assms(1,2) p] q_offset [OF assms(1,2) p] sz Let_def)
    qed
    show ?thesis
    proof (cases "scan_chars z k 0 (avail div w)")
      case (Some i)
      then have i: "i < avail div w" "z i \<or> k = int i" using scan_chars_range [of z k 0] by fastforce+
      then have "chars_ok B w z s k" unfolding chars_ok_def ok using k0 by fastforce
      then show ?thesis using res Some by simp
    next
      case None
      note no = scan_chars_none [OF None]
      have "\<not> accessible B s (w * (i + 1)) s" if "z i" for i unfolding ok using no [of i] that by auto
      then have "\<not> (\<exists>i. z i \<and> accessible B s (w * (i + 1)) s)" by blast
      moreover have "\<not> nat k < avail div w" if "0 < k" using no [of "nat k"] that by auto
      then have "0 < k \<and> accessible B s (w * nat k) s \<longleftrightarrow> k = int (avail div w)"
        unfolding ok using k0 assms(6) by linarith
      ultimately have "chars_ok B w z s k \<longleftrightarrow> k = int (avail div w)" unfolding chars_ok_def using k0 by blast
      then show ?thesis using res None by auto
    qed
  qed
qed

end

section \<open>Arguments\<close>

text \<open>The memory a pointer argument must denote; \<open>ro\<close> are the addresses in read-only blocks.\<close>

definition counter_size :: "modifier \<Rightarrow> nat" where
  "counter_size md = (if md = No_Mod then 4 else nat (modifier_bytes md))"

definition char_limit :: "conv_spec \<Rightarrow> int" where
  "char_limit cs = (case cs_precision cs of Some (Count k) \<Rightarrow> int k | _ \<Rightarrow> - 1)"

definition pointer_ok :: "block_map \<Rightarrow> (u64 \<Rightarrow> bool) \<Rightarrow> mem \<Rightarrow> conv_spec \<Rightarrow> u64 \<Rightarrow> bool" where
  "pointer_ok B ro m cs a \<longleftrightarrow>
     (cs_conversion cs = ch CHR ''s'' \<longrightarrow>
       (if cs_modifier cs = Mod_l then chars_ok B 4 (\<lambda>i. load_le 4 m (a + 4 * of_nat i) = 0) a (char_limit cs)
        else chars_ok B 1 (\<lambda>i. m (a + of_nat i) = 0) a (char_limit cs))) \<and>
     (cs_conversion cs = ch CHR ''p'' \<longrightarrow> accessible B a 1 a) \<and>
     (cs_conversion cs = ch CHR ''n'' \<longrightarrow> accessible B a (counter_size (cs_modifier cs)) a \<and> \<not> ro a)"

definition takes_pointer :: "conv_spec \<Rightarrow> bool" where
  "takes_pointer cs \<longleftrightarrow> cs_conversion cs \<in> set (map of_char ''spn'')"

definition pointer_type :: "u8 \<Rightarrow> bool" where
  "pointer_type c \<longleftrightarrow> c \<in> set (map of_char ''sSqQiIzZwWp'')"

lemma pointer_expected: "takes_pointer cs \<Longrightarrow> pointer_type (abbr_char (expected_type cs))"
proof -
  have "pointer_type (abbr_char (counter_type md))" for md
    by (cases md) (simp_all add: pointer_type_def abbr_char_def abbreviated_types_def)
  moreover have "pointer_type (abbr_char PVoid)" "pointer_type (abbr_char PChar)" "pointer_type (abbr_char PInt)"
    by (simp_all add: pointer_type_def abbr_char_def abbreviated_types_def)
  ultimately show "takes_pointer cs \<Longrightarrow> pointer_type (abbr_char (expected_type cs))"
    by (auto simp: takes_pointer_def expected_type_def)
qed

lemma limit_eq: "(if precision (spec_directive fmt i cs) \<ge> 0 then precision (spec_directive fmt i cs) else - 1) = char_limit cs"
  by (auto simp: spec_directive_def count_value_def char_limit_def split: option.split count.split)

lemma char_limit_ge: "- 1 \<le> char_limit cs"
  by (simp add: char_limit_def split: option.split count.split)

lemma decides_some: "decides (andthen (Some (Inr v)) f) b \<longleftrightarrow> decides (f v) b"
  by simp

lemma no_buffer: "validate_overlapping_buffer 0 n a k func d = Some (Inr ())"
  by (simp add: validate_overlapping_buffer_def)

lemma specifier_cases:
  assumes "c \<in> set specifier_chars"
  obtains (signed) "c \<in> set (map of_char ''di'')" | (unsigned) "c \<in> set (map of_char ''ouxX'')"
    | (floating) "c \<in> set (map of_char ''fFeEgGaA'')" | (char) "c = ch CHR ''c''" | (str) "c = ch CHR ''s''"
    | (ptr) "c = ch CHR ''p''" | (counter) "c = ch CHR ''n''"
  using assms by (auto simp: specifier_chars_def)

lemma spec_directive_sel:
  "specifier (spec_directive fmt i cs) = cs_conversion cs" "arg_index (spec_directive fmt i cs) = i"
  "length_mod (spec_directive fmt i cs) = (case modifier_text (cs_modifier cs) of [] \<Rightarrow> 0 | c # _ \<Rightarrow> c)"
  "length_bytes (spec_directive fmt i cs) = modifier_bytes (cs_modifier cs)"
  "length_extended (spec_directive fmt i cs) = (cs_modifier cs \<in> {Mod_hh, Mod_ll})"
  by (simp_all add: spec_directive_def)

lemma modifier_is_l: "length_mod (spec_directive fmt i cs) = ch CHR ''l'' \<longleftrightarrow> cs_modifier cs \<in> {Mod_l, Mod_ll}"
  "length_mod (spec_directive fmt i cs) = ch CHR ''L'' \<longleftrightarrow> cs_modifier cs = Mod_L"
  by (cases "cs_modifier cs"; simp add: spec_directive_sel)+

lemma infer_integral_type:
  "cs_modifier cs \<noteq> Mod_L \<Longrightarrow> infer_integral_abbr (spec_directive fmt i cs) sg = Inr (integer_type (cs_modifier cs) sg)"
  by (cases "cs_modifier cs") (simp_all add: infer_integral_abbr_def spec_directive_sel size2abbri_def)

lemma infer_counter_type:
  "cs_modifier cs \<noteq> Mod_L \<Longrightarrow> infer_n_abbr (spec_directive fmt i cs) = Inr (counter_type (cs_modifier cs))"
  by (cases "cs_modifier cs") (simp_all add: infer_n_abbr_def spec_directive_sel size2abbri_def)

lemma applies_modifier:
  assumes "applies cs"
  shows "cs_conversion cs \<in> set (map of_char ''diouxXn'') \<Longrightarrow> cs_modifier cs \<noteq> Mod_L"
    and "cs_conversion cs \<in> set (map of_char ''cs'') \<Longrightarrow> cs_modifier cs \<in> {No_Mod, Mod_l}"
proof -
  have md: "modifier_applies (cs_modifier cs) (cs_conversion cs)" using assms unfolding applies_def Let_def by blast
  show "cs_modifier cs \<noteq> Mod_L" if "cs_conversion cs \<in> set (map of_char ''diouxXn'')" using md that by auto
  show "cs_modifier cs \<in> {No_Mod, Mod_l}" if "cs_conversion cs \<in> set (map of_char ''cs'')"
    using md that by (cases "cs_modifier cs") auto
qed

context checked_memory
begin

lemma string_argument:
  assumes "q_env e" and "q_rep st B" and "q_dom st a" and "wide \<longleftrightarrow> cs_modifier cs = Mod_l" and "cs_conversion cs = ch CHR ''s''"
  shows "if pointer_ok B (q_ro st) m cs a
    then \<exists>n. validate_format_string_argument (q_api e) m a (spec_directive fmt i cs) func wide st = Some (Inr n)
    else \<exists>msg. validate_format_string_argument (q_api e) m a (spec_directive fmt i cs) func wide st = Some (Inl msg)"
proof -
  define w :: nat where "w = (if wide then 4 else 1)"
  define z where "z = (if wide then (\<lambda>i. load_le 4 m (a + 4 * of_nat i) = 0) else (\<lambda>i. m (a + of_nat i) = 0))"
  have w: "0 < w" "w < 2 ^ 63" by (simp_all add: w_def)
  obtain n where n: "valid_nchars (q_api e) (of_nat w) z a (char_limit cs) False st = Some (Inr n)"
      "n \<in> {- 1, - 3, - 4} \<union> {0..}" "0 \<le> n \<longleftrightarrow> chars_ok B w z a (char_limit cs)"
    using nchars_valid [OF assms(1-3) w char_limit_ge] by blast
  have ok: "pointer_ok B (q_ro st) m cs a \<longleftrightarrow> 0 \<le> n"
    unfolding n(3) using assms(4,5) by (simp add: pointer_ok_def w_def z_def)
  have call: "(if wide then valid_nwstring (q_api e) m a (char_limit cs) False st
      else valid_nstring (q_api e) m a (char_limit cs) False st) = Some (Inr n)"
    using n(1) by (simp add: valid_nwstring_def valid_nstring_def w_def z_def split: if_splits)
  show ?thesis
    unfolding validate_format_string_argument_def Let_def limit_eq call ok using n(2) by auto
qed

lemma decides_argument:
  assumes "q_env e" and "q_rep st B" and "pointer_type (m (fmtdesc + word_of_int i)) \<Longrightarrow> q_dom st a" and "spec_ok cs" and "applies cs"
    and "known_type (m (fmtdesc + word_of_int i))"
  shows "decides (validate_argument (q_api e) m fmtdesc func 0 bs (spec_directive fmt i cs) a st)
    (m (fmtdesc + word_of_int i) = abbr_char (expected_type cs) \<and> pointer_ok B (q_ro st) m cs a)"
proof -
  let ?d = "spec_directive fmt i cs" and ?a = "m (fmtdesc + word_of_int i)"
  have ty: "decides (validate_format_type m t fmtdesc ?d func) (?a = abbr_char t)" for t
    using decides_type [of m fmtdesc ?d] assms(6) by (simp add: spec_directive_sel)
  have conv: "cs_conversion cs \<in> set specifier_chars" using assms(4) by (simp add: spec_ok_def)
  note md = applies_modifier [OF assms(5)]
  have dom: "q_dom st a" if "?a = abbr_char (expected_type cs)" "takes_pointer cs"
    using assms(3) that pointer_expected by simp
  from conv show ?thesis
  proof (cases rule: specifier_cases)
    case signed
    then have "cs_modifier cs \<noteq> Mod_L" using md(1) by auto
    then have "validate_argument (q_api e) m fmtdesc func 0 bs ?d a st = validate_format_type m (expected_type cs) fmtdesc ?d func"
      using signed by (auto simp: validate_argument_def spec_directive_sel(1) infer_integral_type expected_type_def)
    moreover have "pointer_ok B (q_ro st) m cs a" using signed by (auto simp: pointer_ok_def)
    ultimately show ?thesis using ty by simp
  next
    case unsigned
    then have "cs_modifier cs \<noteq> Mod_L" using md(1) by auto
    then have "validate_argument (q_api e) m fmtdesc func 0 bs ?d a st = validate_format_type m (expected_type cs) fmtdesc ?d func"
      using unsigned by (auto simp: validate_argument_def spec_directive_sel(1) infer_integral_type expected_type_def)
    moreover have "pointer_ok B (q_ro st) m cs a" using unsigned by (auto simp: pointer_ok_def)
    ultimately show ?thesis using ty by simp
  next
    case floating
    then have "validate_argument (q_api e) m fmtdesc func 0 bs ?d a st = validate_format_type m (expected_type cs) fmtdesc ?d func"
      by (auto simp: validate_argument_def spec_directive_sel(1) modifier_is_l(2) [simplified] expected_type_def)
    moreover have "pointer_ok B (q_ro st) m cs a" using floating by (auto simp: pointer_ok_def)
    ultimately show ?thesis using ty by simp
  next
    case char
    then have "cs_modifier cs \<in> {No_Mod, Mod_l}" using md(2) by auto
    then have "validate_argument (q_api e) m fmtdesc func 0 bs ?d a st = validate_format_type m (expected_type cs) fmtdesc ?d func"
      using char wide_types
      by (auto simp: validate_argument_def spec_directive_sel(1) modifier_is_l(1) [simplified] expected_type_def size2abbri_def)
    moreover have "pointer_ok B (q_ro st) m cs a" using char by (simp add: pointer_ok_def)
    ultimately show ?thesis using ty by simp
  next
    case str
    let ?w = "cs_modifier cs = Mod_l"
    have "cs_modifier cs \<in> {No_Mod, Mod_l}" using md(2) str by auto
    then have e: "validate_argument (q_api e) m fmtdesc func 0 bs ?d a st =
        andthen (validate_format_type m (expected_type cs) fmtdesc ?d func) (\<lambda>_.
        andthen (validate_format_string_argument (q_api e) m a ?d func ?w st) (\<lambda>n. Some (Inr ())))"
      using str wide_types
      by (auto simp: validate_argument_def spec_directive_sel(1) modifier_is_l(1) [simplified] expected_type_def size2abbri_def no_buffer)
    show ?thesis unfolding e
    proof (rule decides_andthen [OF ty])
      assume "?a = abbr_char (expected_type cs)"
      then have "q_dom st a" using dom str by (simp add: takes_pointer_def)
      then show "decides (andthen (validate_format_string_argument (q_api e) m a ?d func ?w st) (\<lambda>n. Some (Inr ())))
          (pointer_ok B (q_ro st) m cs a)"
        using string_argument [OF assms(1,2) _ refl str, of a m fmt i func] by (auto simp: decides_def split: if_splits)
    qed
  next
    case ptr
    have "\<exists>msg. validate_argument (q_api e) m fmtdesc func 0 bs ?d a st =
        andthen (validate_format_type m (expected_type cs) fmtdesc ?d func) (\<lambda>_.
        andthen (api_allocated (q_api e) a 1 a st) (\<lambda>al. if \<not> al then Some (Inl msg) else Some (Inr ())))"
      using ptr by (auto simp: validate_argument_def spec_directive_sel(1) expected_type_def no_buffer cong: if_cong)
    then obtain msg where e: "validate_argument (q_api e) m fmtdesc func 0 bs ?d a st =
        andthen (validate_format_type m (expected_type cs) fmtdesc ?d func) (\<lambda>_.
        andthen (api_allocated (q_api e) a 1 a st) (\<lambda>al. if \<not> al then Some (Inl msg) else Some (Inr ())))" by blast
    show ?thesis unfolding e
    proof (rule decides_andthen [OF ty])
      assume "?a = abbr_char (expected_type cs)"
      then have "q_dom st a" using dom ptr by (simp add: takes_pointer_def)
      then show "decides (andthen (api_allocated (q_api e) a 1 a st) (\<lambda>al. if \<not> al then Some (Inl msg) else Some (Inr ())))
          (pointer_ok B (q_ro st) m cs a)"
        using q_allocated [OF assms(1,2), of a 1] ptr by (simp add: pointer_ok_def decides_def)
    qed
  next
    case counter
    have nl: "cs_modifier cs \<noteq> Mod_L" using md(1) counter by auto
    let ?n = "counter_size (cs_modifier cs)"
    have n: "to_size (if length_bytes ?d = 0 then 4 else length_bytes ?d) = of_nat ?n" "?n < 2 ^ 63"
      using nl by (cases "cs_modifier cs"; simp add: spec_directive_sel counter_size_def to_size_def)+
    have "\<exists>msg. validate_argument (q_api e) m fmtdesc func 0 bs ?d a st =
        andthen (validate_format_type m (expected_type cs) fmtdesc ?d func) (\<lambda>_.
        andthen (api_writeable (q_api e) a (of_nat ?n) a st) (\<lambda>w. if \<not> w then Some (Inl msg) else Some (Inr ())))"
      using counter
      by (auto simp: validate_argument_def spec_directive_sel(1) expected_type_def infer_counter_type [OF nl] Let_def n(1) no_buffer cong: if_cong)
    then obtain msg where e: "validate_argument (q_api e) m fmtdesc func 0 bs ?d a st =
        andthen (validate_format_type m (expected_type cs) fmtdesc ?d func) (\<lambda>_.
        andthen (api_writeable (q_api e) a (of_nat ?n) a st) (\<lambda>w. if \<not> w then Some (Inl msg) else Some (Inr ())))" by blast
    show ?thesis unfolding e
    proof (rule decides_andthen [OF ty])
      assume "?a = abbr_char (expected_type cs)"
      then have "q_dom st a" using dom counter by (simp add: takes_pointer_def)
      then show "decides (andthen (api_writeable (q_api e) a (of_nat ?n) a st) (\<lambda>w. if \<not> w then Some (Inl msg) else Some (Inr ())))
          (pointer_ok B (q_ro st) m cs a)"
        using q_writeable [OF assms(1,2) _ n(2), of a] counter by (auto simp: pointer_ok_def decides_def)
    qed
  qed
qed

end

section \<open>The check of a call\<close>

text \<open>What a conversion demands of the argument with index \<open>k\<close>; the types of the arguments are described at \<open>fmtdesc\<close>.\<close>

definition accepts ::
  "block_map \<Rightarrow> (u64 \<Rightarrow> bool) \<Rightarrow> mem \<Rightarrow> u64 \<Rightarrow> u64 list \<Rightarrow> int \<Rightarrow> conv_spec \<Rightarrow> bool" where
  "accepts B ro m fmtdesc args k cs \<longleftrightarrow> applies cs \<and> k < int (length args) \<and>
     m (fmtdesc + word_of_int k) = abbr_char (expected_type cs) \<and> pointer_ok B ro m cs (args ! nat k)"

text \<open>What the check demands: each conversion of the argument whose index the parser has stored.\<close>

fun all_accepted ::
  "block_map \<Rightarrow> (u64 \<Rightarrow> bool) \<Rightarrow> mem \<Rightarrow> u64 \<Rightarrow> u64 list \<Rightarrow> nat \<Rightarrow> conv_spec list \<Rightarrow> bool" where
  "all_accepted B ro m fmtdesc args i [] = True"
| "all_accepted B ro m fmtdesc args i (cs # css) =
     (accepts B ro m fmtdesc args (parsed_index (int i) cs) cs \<and> all_accepted B ro m fmtdesc args (i + 1) css)"

lemma all_accepted_iff:
  "all_accepted B ro m fmtdesc args i css \<longleftrightarrow>
    (\<forall>j<length css. accepts B ro m fmtdesc args (parsed_index (int (i + j)) (css ! j)) (css ! j))"
proof (induction css arbitrary: i)
  case (Cons cs css)
  have "(\<forall>j<length (cs # css). P j) \<longleftrightarrow> P 0 \<and> (\<forall>j<length css. P (Suc j))" for P
    by (simp add: All_less_Suc2)
  then show ?case using Cons.IH [of "i + 1"] by (simp add: ac_simps)
qed simp

lemma all_accepted_right:
  assumes "\<And>j. j < length css \<Longrightarrow> bound_right css j"
  shows "all_accepted B ro m fmtdesc args 0 css \<longleftrightarrow>
    (\<forall>j<length css. accepts B ro m fmtdesc args (argument_index css j) (css ! j))"
proof -
  have "parsed_index (int j) (css ! j) = argument_index css j" if "j < length css" for j
    using assms [OF that] parsed_index_right by blast
  then show ?thesis unfolding all_accepted_iff add_0 by (metis (no_types, lifting))
qed

lemma parsed_index_nonneg: "spec_ok cs \<Longrightarrow> 0 \<le> parsed_index (int i) cs"
  by (auto simp: spec_ok_def parsed_index_def split: option.splits)

lemma accepts_ro:
  assumes "\<And>a. a \<in> set args \<Longrightarrow> ro a = ro' a" and "0 \<le> k"
  shows "accepts B ro m fmtdesc args k cs = accepts B ro' m fmtdesc args k cs"
proof (cases "k < int (length args)")
  case True
  then have "nat k < length args" using assms(2) by (simp add: nat_less_iff)
  then show ?thesis using assms(1) nth_mem by (simp add: accepts_def pointer_ok_def)
qed (simp add: accepts_def)

lemma all_accepted_ro:
  assumes "\<And>a. a \<in> set args \<Longrightarrow> ro a = ro' a" and "\<And>cs. cs \<in> set css \<Longrightarrow> spec_ok cs"
  shows "all_accepted B ro m fmtdesc args i css = all_accepted B ro' m fmtdesc args i css"
proof -
  have "accepts B ro m fmtdesc args (parsed_index (int (i + j)) (css ! j)) (css ! j) =
      accepts B ro' m fmtdesc args (parsed_index (int (i + j)) (css ! j)) (css ! j)" if "j < length css" for j
    by (rule accepts_ro [OF assms(1) parsed_index_nonneg [OF assms(2) [OF nth_mem [OF that]]]])
  then show ?thesis unfolding all_accepted_iff by blast
qed

text \<open>The type descriptors at \<open>fmtdesc\<close>: one known type per argument; \<open>D\<close> holds of the pointers among them.\<close>

definition described :: "(u64 \<Rightarrow> bool) \<Rightarrow> mem \<Rightarrow> u64 \<Rightarrow> u64 list \<Rightarrow> bool" where
  "described D m fmtdesc args \<longleftrightarrow> terminated m fmtdesc (length args) \<and> length args < 2 ^ 31 \<and>
     (\<forall>k<length args. known_type (m (fmtdesc + of_nat k)) \<and> (pointer_type (m (fmtdesc + of_nat k)) \<longrightarrow> D (args ! k)))"

lemma conversions_ok: "format_ok ex items \<Longrightarrow> cs \<in> set (conversions items) \<Longrightarrow> spec_ok cs"
proof (induction items)
  case (Cons it items)
  then show ?case by (cases it) (auto simp: format_ok_Cons)
qed simp

context checked_memory
begin

lemma decides_directives:
  assumes "q_env e" and "q_rep st B" and "described (q_dom st) m fmtdesc args" and "\<And>cs. cs \<in> set css \<Longrightarrow> spec_ok cs"
  shows "decides (validate_directives (q_api e) char_table m fmtdesc args func 0 bs
      (map Some (spec_directives fmt i css) @ None # rest) st) (all_accepted B (q_ro st) m fmtdesc args i css)"
  using assms(4)
proof (induction css arbitrary: i)
  case (Cons cs css)
  let ?d = "spec_directive fmt (parsed_index (int i) cs) cs" and ?k = "parsed_index (int i) cs"
  let ?rest = "validate_directives (q_api e) char_table m fmtdesc args func 0 bs
      (map Some (spec_directives fmt (i + 1) css) @ None # rest) st"
  have ok: "spec_ok cs" using Cons.prems by simp
  have k: "0 \<le> ?k" "word_of_int ?k = (of_nat (nat ?k) :: u64)" using parsed_index_nonneg [OF ok] by simp_all
  have IH: "decides ?rest (all_accepted B (q_ro st) m fmtdesc args (i + 1) css)" using Cons by simp
  show ?case
  proof (cases "?k < int (length args)")
    case True
    then have nk: "nat ?k < length args" using k(1) by linarith
    have step: "validate_directives (q_api e) char_table m fmtdesc args func 0 bs
        (map Some (spec_directives fmt i (cs # css)) @ None # rest) st =
        andthen (validate_applications char_table ?d) (\<lambda>_.
        andthen (validate_argument (q_api e) m fmtdesc func 0 bs ?d (args ! nat ?k) st) (\<lambda>_. ?rest))"
      using True k(1) by (simp add: spec_directive_sel(2) Let_def)
    have arg: "decides (validate_argument (q_api e) m fmtdesc func 0 bs ?d (args ! nat ?k) st)
        (m (fmtdesc + word_of_int ?k) = abbr_char (expected_type cs) \<and> pointer_ok B (q_ro st) m cs (args ! nat ?k))"
      if "applies cs"
      by (rule decides_argument [OF assms(1,2) _ ok that]) (use assms(3) nk k(2) in \<open>auto simp: described_def\<close>)
    have "decides (andthen (validate_applications char_table ?d) (\<lambda>_.
        andthen (validate_argument (q_api e) m fmtdesc func 0 bs ?d (args ! nat ?k) st) (\<lambda>_. ?rest)))
      (applies cs \<and> (m (fmtdesc + word_of_int ?k) = abbr_char (expected_type cs) \<and> pointer_ok B (q_ro st) m cs (args ! nat ?k)) \<and>
        all_accepted B (q_ro st) m fmtdesc args (i + 1) css)"
      by (intro decides_andthen decides_applications ok arg IH)
    then show ?thesis unfolding step by (rule decides_cong) (use True in \<open>auto simp: accepts_def\<close>)
  next
    case False
    have "decides (andthen (validate_applications char_table ?d) (\<lambda>_. Some (Inl msg))) (applies cs \<and> False)" for msg
      by (intro decides_andthen decides_applications ok) simp
    then show ?thesis using False by (simp add: spec_directive_sel(2) accepts_def Let_def)
  qed
qed simp

lemma format_string_valid:
  assumes "q_env e" and "q_rep st B" and "q_dom st s" and "terminated m s k" and "accessible B s (k + 1) s"
  shows "rt_valid_string (q_api e) m s False st = Some (Inr (int k))"
proof -
  obtain p n where p: "B p = Some n" "inside p n s" "unat (s - p) + (k + 1) \<le> n"
    using assms(5) unfolding accessible_def by blast
  have "scan_chars (\<lambda>i. m (s + of_nat i) = 0) (- 1) 0 (n - unat (s - p)) = Some k" using p(3) by (intro scan_string [OF assms(4)]) simp
  then show ?thesis using nstring_covered [OF assms(1-3) p(1,2), of "- 1" m False] by (simp add: rt_valid_string_def Let_def)
qed

lemma validate_format_decides:
  assumes "q_env e" and "q_rep st B" and "q_dom st fmt" and "format_at m fmt ex items" and "map_ready cm"
    and "accessible B fmt (length (format_text items) + 1) fmt" and "described (q_dom st) m fmtdesc ap"
  shows "if all_accepted B (q_ro st) m fmtdesc ap 0 (conversions items)
    then validate_format (q_api e) m fmtdesc fmt ap func 0 bs cm st = Some (Inr char_table)
    else \<exists>msg. validate_format (q_api e) m fmtdesc fmt ap func 0 bs cm st = Some (Inl msg)"
proof -
  let ?k = "length (conversions items)" and ?n = "percents items"
  let ?dirs = "map Some (spec_directives fmt 0 (conversions items)) @ replicate (?n + 1 - ?k) None"
  have t: "text_at m fmt (format_text items @ [0])" "format_ok ex items" using assms(4) by (simp_all add: format_at_def)
  then have tm: "terminated m fmt (length (format_text items))" using format_text_nonzero text_terminated by (simp add: format_ok_def)
  have kn: "?k \<le> ?n" using conversions_counted by (simp add: percents_def)
  then have dirs: "?dirs = map Some (spec_directives fmt 0 (conversions items)) @ None # replicate (?n - ?k) None" by (simp add: Suc_diff_le)
  have d: "terminated m fmtdesc (length ap)" "length ap < 2 ^ 31" using assms(7) by (simp_all add: described_def)
  have desc: "strlen fmtdesc m = Some (of_nat (length ap))" by (rule strlen_eq [OF d(1)])
  have n: "to_int (uint (of_nat (length ap) :: u64)) = int (length ap)"
    using d(2) by (simp add: to_int_def uint_nat unat_of_nat_64 signed_of_nat signed_take_bit_int_eq_self del: of_nat_unat)
  have rel: "\<exists>fs. release_directives m fmt ?dirs = Some fs"
  proof -
    have "?n \<le> length (format_text items)" by (simp add: percents_def)
    then have "\<not> int ?n + 1 > INT_MAX" using assms(4) by (simp add: format_at_def)
    then show ?thesis using charcount_format [OF assms(4)] kn by (simp add: release_directives_def nat_add_distrib)
  qed
  have dec: "decides (validate_directives (q_api e) char_table m fmtdesc ap func 0 bs ?dirs st)
      (all_accepted B (q_ro st) m fmtdesc ap 0 (conversions items))"
    unfolding dirs by (rule decides_directives [OF assms(1,2,7)]) (rule conversions_ok [OF t(2)])
  have step: "validate_format (q_api e) m fmtdesc fmt ap func 0 bs cm st =
      andthen (validate_directives (q_api e) char_table m fmtdesc ap func 0 bs ?dirs st) (\<lambda>_. do {
        _ \<leftarrow> release_directives m fmt ?dirs;
        Some (Inr char_table) })"
    unfolding validate_format_def format_string_valid [OF assms(1-3) tm assms(6)] andthen_simps
      get_directives_format [OF assms(4,5)] desc using n by simp
  show ?thesis using dec rel unfolding step by (auto simp: decides_def split: if_splits)
qed

end

end
