(* ===== verification/Format_Props.thy ===== *)
theory Format_Props
  imports Format_Correct Libc_Replacements_Props
begin

text \<open>The properties of format string validation.\<close>

section \<open>Parsing\<close>

lemma nth_spec_directives:
  "j < length css \<Longrightarrow> spec_directives fmt i css ! j = spec_directive fmt (parsed_index (int (i + j)) (css ! j)) (css ! j)"
proof (induction css arbitrary: i j)
  case (Cons cs css)
  then show ?case by (cases j) (simp_all add: add.assoc)
qed simp

text \<open>
  C28: parsing inverts printing. For every format string built of plain characters, \<^verbatim>\<open>%%\<close> and conversion
  specifications of at most 14 characters (an optional argument number, distinct flags, width,
  precision, length modifier and specifier, numbered and unnumbered ones not mixed), and with the
  character map as it is before or after the first call, \<^verbatim>\<open>get_format_directives\<close> returns the
  directives of the specifications in order, followed by null pointers; \<^verbatim>\<open>release_directives\<close> then
  releases every entry of the array. Every field of a directive but one is that of the specification.
  The index of the argument is the right one exactly if the specification is numbered, or no \<^verbatim>\<open>*\<close> has
  been used up to it and it does not begin with the flag \<^verbatim>\<open>0\<close> (except in the first place); otherwise it
  is 0 if it begins with that flag, and else the number of specifications before it.
\<close>

theorem format_roundtrip:
  assumes "format_at m fmt ex items" and "map_ready cm"
  shows "\<exists>dirs. get_format_directives cm m fmt = Some (Inr (char_table, dirs)) \<and>
    (\<forall>j<length (conversions items). \<exists>k. dirs ! j = Some (spec_directive fmt k (conversions items ! j)) \<and>
      (k = argument_index (conversions items) j \<longleftrightarrow> bound_right (conversions items) j) \<and>
      (\<not> bound_right (conversions items) j \<longrightarrow> k = (if zero_first (conversions items ! j) then 0 else int j))) \<and>
    length (conversions items) < length dirs \<and> (\<forall>j<length dirs. length (conversions items) \<le> j \<longrightarrow> dirs ! j = None) \<and>
    release_directives m fmt dirs = Some dirs"
proof -
  let ?k = "length (conversions items)" and ?n = "percents items"
  define dirs where "dirs = map Some (spec_directives fmt 0 (conversions items)) @ replicate (?n + 1 - ?k) None"
  have kn: "?k \<le> ?n" using conversions_counted by (simp add: percents_def)
  then have len: "length dirs = ?n + 1" by (simp add: dirs_def)
  have "?n \<le> length (format_text items)" by (simp add: percents_def)
  then have "\<not> int ?n + 1 > INT_MAX" using assms(1) by (simp add: format_at_def)
  moreover have "map (\<lambda>i. dirs ! i) [0..<?n + 1] = dirs" unfolding len [symmetric] by (rule map_nth)
  ultimately have "release_directives m fmt dirs = Some dirs"
    using charcount_format [OF assms(1)] len by (simp add: release_directives_def nat_add_distrib)
  moreover have "\<exists>k. dirs ! j = Some (spec_directive fmt k (conversions items ! j)) \<and>
      (k = argument_index (conversions items) j \<longleftrightarrow> bound_right (conversions items) j) \<and>
      (\<not> bound_right (conversions items) j \<longrightarrow> k = (if zero_first (conversions items ! j) then 0 else int j))" if "j < ?k" for j
  proof (intro exI conjI)
    show "dirs ! j = Some (spec_directive fmt (parsed_index (int j) (conversions items ! j)) (conversions items ! j))"
      using that nth_spec_directives [OF that, of fmt 0] by (simp add: dirs_def nth_append)
    show "\<not> bound_right (conversions items) j \<longrightarrow>
        parsed_index (int j) (conversions items ! j) = (if zero_first (conversions items ! j) then 0 else int j)"
      by (simp add: bound_right_def parsed_index_def)
  qed (rule parsed_index_right)
  moreover have "dirs ! j = None" if "j < length dirs" "?k \<le> j" for j using that by (simp add: dirs_def nth_append)
  moreover have "get_format_directives cm m fmt = Some (Inr (char_table, dirs))"
    unfolding dirs_def by (rule get_directives_format [OF assms])
  ultimately show ?thesis using kn len by auto
qed

text \<open>A memory with a text, and a format: \<^verbatim>\<open>%-d %0lx\<close>.\<close>

definition mem_of :: "u64 \<Rightarrow> u8 list \<Rightarrow> mem" where
  "mem_of p xs a = (if unat (a - p) < length xs then xs ! unat (a - p) else 0)"

lemma text_at_mem_of: "length xs < 2 ^ 64 \<Longrightarrow> text_at (mem_of p xs) p (xs @ [0])"
  by (auto simp: text_at_def mem_of_def unat_of_nat_64 nth_append)

definition ex_items :: "fmt_item list" where
  "ex_items = [Conv \<lparr>cs_argno = None, cs_flags = [45], cs_width = None, cs_precision = None, cs_modifier = No_Mod, cs_conversion = 100\<rparr>,
     Plain 32,
     Conv \<lparr>cs_argno = None, cs_flags = [48], cs_width = None, cs_precision = None, cs_modifier = Mod_l, cs_conversion = 120\<rparr>]"

lemma ex_format_text: "format_text ex_items = map of_char ''%-d %0lx''"
  by (simp add: ex_items_def spec_text_def flags_tail_def width_tail_def precision_tail_def tail_text_def)

lemma ex_format_at: "format_at (mem_of 4096 (format_text ex_items)) 4096 False ex_items"
proof -
  have "text_at (mem_of 4096 (format_text ex_items)) 4096 (format_text ex_items @ [0])"
    by (rule text_at_mem_of) (simp add: ex_format_text)
  moreover have "format_ok False ex_items"
    by (simp add: ex_items_def format_ok_Cons spec_ok_def flag_chars_def specifier_chars_def spec_text_def flags_tail_def
        width_tail_def precision_tail_def tail_text_def) (simp add: format_ok_def)
  ultimately show ?thesis by (simp add: format_at_def ex_format_text)
qed

text \<open>The first directive has the argument 0; the second, which begins with the flag \<^verbatim>\<open>0\<close>, has it too instead of 1.\<close>

theorem format_roundtrip_witness:
  "\<exists>dirs d e. get_format_directives (\<lambda>_. 0) (mem_of 4096 (format_text ex_items)) 4096 = Some (Inr (char_table, dirs)) \<and>
    dirs ! 0 = Some d \<and> flag_minus d \<and> \<not> flag_zero d \<and> specifier d = 100 \<and> arg_index d = 0 \<and>
    dirs ! 1 = Some e \<and> flag_zero e \<and> specifier e = 120 \<and> arg_index e = 0 \<and> argument_index (conversions ex_items) 1 = 1"
proof -
  have n: "length (conversions ex_items) = 2" by (simp add: ex_items_def)
  have ix: "argument_index (conversions ex_items) 0 = 0" "argument_index (conversions ex_items) 1 = 1"
    "bound_right (conversions ex_items) 0" "\<not> bound_right (conversions ex_items) 1" "zero_first (conversions ex_items ! 1)"
    by (simp_all add: ex_items_def argument_index_def bound_right_def stars_def zero_first_def)
  obtain dirs where dirs: "get_format_directives (\<lambda>_. 0) (mem_of 4096 (format_text ex_items)) 4096 = Some (Inr (char_table, dirs))"
      "\<forall>j<length (conversions ex_items). \<exists>k. dirs ! j = Some (spec_directive 4096 k (conversions ex_items ! j)) \<and>
      (k = argument_index (conversions ex_items) j \<longleftrightarrow> bound_right (conversions ex_items) j) \<and>
      (\<not> bound_right (conversions ex_items) j \<longrightarrow> k = (if zero_first (conversions ex_items ! j) then 0 else int j))"
    using format_roundtrip [OF ex_format_at map_ready_table(2)] by blast
  have "dirs ! 0 = Some (spec_directive 4096 0 (conversions ex_items ! 0))" using dirs(2) [rule_format, of 0] n ix by auto
  moreover have "dirs ! 1 = Some (spec_directive 4096 0 (conversions ex_items ! 1))" using dirs(2) [rule_format, of 1] n ix by auto
  ultimately show ?thesis using dirs(1) ix(2) by (auto simp: spec_directive_def ex_items_def)
qed

section \<open>Validation\<close>

text \<open>
  C29: let every conversion of a format, as the previous property describes formats, be bound to the
  right argument: it is numbered, or no \<^verbatim>\<open>*\<close> occurs up to it and the flag \<^verbatim>\<open>0\<close> does not stand first in
  it (except in the first conversion). Then the checked \<^verbatim>\<open>printf\<close> calls \<^verbatim>\<open>vprintf\<close> exactly if every conversion
  is well formed and its argument is there and has the type it expects, every string argument is
  terminated, or long enough for the precision, inside one tracked block, every pointer printed
  points into a tracked block and every counter is in a tracked, writable one; otherwise it aborts.
  This holds with both memory models, built without temporal analysis and weak validity, with format
  and arguments in static memory or on the heap, when the format lies in a tracked block and the
  descriptors that the instrumentation passes have one known type per argument. In the segment model
  no pointer argument lies in the padding of a heap block.
\<close>

theorem builtin_printf_correct:
  assumes "bt_q_rep t B" and "memory_rep s B" and "plain bld" and "format_at m fmt ex items" and "map_ready cm"
    and "accessible B fmt (length (format_text items) + 1) fmt" and "memory_dom s fmt" and "described (memory_dom s) m fmtdesc ap"
    and "\<And>a. a \<in> set ap \<Longrightarrow> seg_ro s a = bt_ro t a"
    and "\<And>j. j < length (conversions items) \<Longrightarrow> bound_right (conversions items) j"
    and "r \<in> {builtin_printf vprintf (bt_api False) m fmtdesc fmt ap cm t,
      builtin_printf vprintf (seg_api bld) m fmtdesc fmt ap cm s}"
  shows "if \<forall>j<length (conversions items).
      accepts B (bt_ro t) m fmtdesc ap (argument_index (conversions items) j) (conversions items ! j)
    then r = finish (vprintf fmt ap) char_table else \<exists>msg. r = Some (Inl msg)"
proof -
  have e: "\<not> False" and d: "bt_dom t fmt" by (simp_all add: bt_dom_def)
  have "described (bt_dom t) m fmtdesc ap" using assms(8) by (simp add: described_def bt_dom_def)
  note bt = btq.validate_format_decides [OF e assms(1) d assms(4,5,6) this, of "''printf''" 0]
    and seg = memq.validate_format_decides [OF assms(3,2,7,4,5,6,8), of "''printf''" 0]
  have ro: "all_accepted B (seg_ro s) m fmtdesc ap 0 (conversions items) = all_accepted B (bt_ro t) m fmtdesc ap 0 (conversions items)"
    using assms(4,9) conversions_ok by (intro all_accepted_ro) (auto simp: format_at_def)
  have "if all_accepted B (bt_ro t) m fmtdesc ap 0 (conversions items)
      then r = finish (vprintf fmt ap) char_table else \<exists>msg. r = Some (Inl msg)"
  proof (cases "all_accepted B (bt_ro t) m fmtdesc ap 0 (conversions items)")
    case True
    then have "validate_format (bt_api False) m fmtdesc fmt ap ''printf'' 0 0 cm t = Some (Inr char_table)"
      "validate_format (seg_api bld) m fmtdesc fmt ap ''printf'' 0 0 cm s = Some (Inr char_table)"
      using bt seg unfolding ro by simp_all
    then show ?thesis using True assms(11) by (auto simp: builtin_printf_def)
  next
    case False
    then obtain m1 m2 where "validate_format (bt_api False) m fmtdesc fmt ap ''printf'' 0 0 cm t = Some (Inl m1)"
      "validate_format (seg_api bld) m fmtdesc fmt ap ''printf'' 0 0 cm s = Some (Inl m2)"
      using bt seg unfolding ro by auto
    then show ?thesis using False assms(11) by (auto simp: builtin_printf_def)
  qed
  moreover have "all_accepted B (bt_ro t) m fmtdesc ap 0 (conversions items) \<longleftrightarrow>
      (\<forall>j<length (conversions items). accepts B (bt_ro t) m fmtdesc ap (argument_index (conversions items) j) (conversions items ! j))"
    by (rule all_accepted_right) (rule assms(10))
  ultimately show ?thesis by simp
qed

text \<open>The call \<^verbatim>\<open>printf("%s", p)\<close>, format and string in a block of the heap.\<close>

definition ex_call :: mem where
  "ex_call a = (if a = 0x100040 then 37 else if a = 0x100041 then 115 else if a = 0x100050 then 65 else if a = 8192 then 115 else 0)"

definition ex_s :: conv_spec where
  "ex_s = \<lparr>cs_argno = None, cs_flags = [], cs_width = None, cs_precision = None, cs_modifier = No_Mod, cs_conversion = 115\<rparr>"

lemmas spec_texts = spec_text_def flags_tail_def width_tail_def precision_tail_def tail_text_def

lemma ex_call_format: "format_at ex_call 0x100040 False [Conv ex_s]"
  by (simp add: format_at_def ex_s_def spec_texts text_at_Cons ex_call_def format_ok_Cons spec_ok_def specifier_chars_def)
    (simp add: format_ok_def)

lemma ex_heap_access: "i + k \<le> 40 \<Longrightarrow> i < 40 \<Longrightarrow> accessible [0x100040 \<mapsto> 40] (0x100040 + of_nat i) k (0x100040 + of_nat i)"
  unfolding accessible_def by (intro exI [of _ "0x100040"] exI [of _ 40]) (simp add: inside_def unat_of_nat_64)

theorem builtin_printf_correct_witness:
  "builtin_printf (\<lambda>fmt ap. Some (length ap)) (seg_api ex_build) ex_call 8192 0x100040 [0x100050] (\<lambda>_. 0) ex_tracked =
    Some (Inr (1, char_table))"
proof -
  have B: "bt_q_rep (ex_single 0x100040 40) [0x100040 \<mapsto> 40]"
    using ex_single_rep [of "0x100040" 40] by (simp add: init_ok_def needed_bytes_def)
  have dom: "memory_dom ex_tracked 0x100050" "memory_dom ex_tracked 0x100040"
    by (rule ex_tracked_domain, simp add: inside_def)+
  have acc: "accessible [0x100040 \<mapsto> 40] 0x100040 (length (format_text [Conv ex_s]) + 1) 0x100040"
    using ex_heap_access [of 0 3] by (simp add: ex_s_def spec_texts numeral_3_eq_3)
  have "known_type 115" by (simp add: known_type_def abbr_row_def abbreviated_types_def)
  then have d: "described (memory_dom ex_tracked) ex_call 8192 [0x100050]"
    using dom(1) by (simp add: described_def terminated_def ex_call_def)
  have ro: "seg_ro ex_tracked a = bt_ro (ex_single 0x100040 40) a" if "a \<in> set [0x100050 :: u64]" for a
    using that by (auto simp: bt_ro_def ex_single_def seg_ro_def readonly_seg_def ex_tracked(3) IS_ON_GLOBAL_def IS_ON_def
        ex_layout_def ex_partition_def ex_app_def set_application_segment_def split: if_splits)
  have "accessible [0x100040 \<mapsto> 40] 0x100050 (1 * (1 + 1)) 0x100050" using ex_heap_access [of 16 "1 * (1 + 1)"] by simp
  moreover have "ex_call (0x100050 + of_nat 1) = 0" by (simp add: ex_call_def)
  ultimately have str: "chars_ok [0x100040 \<mapsto> 40] 1 (\<lambda>i. ex_call (0x100050 + of_nat i) = 0) 0x100050 (char_limit ex_s)"
    unfolding chars_ok_def by blast
  have right: "bound_right (conversions [Conv ex_s]) j" if "j < length (conversions [Conv ex_s])" for j
    using that by (simp add: bound_right_def ex_s_def stars_def zero_first_def)
  have ix: "argument_index (conversions [Conv ex_s]) 0 = 0" by (simp add: argument_index_def ex_s_def stars_def)
  have "applies ex_s" by (simp add: applies_def ex_s_def)
  moreover have "ex_call (8192 + word_of_int 0) = abbr_char (expected_type ex_s)"
    by (simp add: ex_call_def ex_s_def expected_type_def abbr_char_def abbreviated_types_def)
  moreover have "pointer_ok [0x100040 \<mapsto> 40] (bt_ro (ex_single 0x100040 40)) ex_call ex_s 0x100050"
  proof -
    have "cs_conversion ex_s = 115" "cs_modifier ex_s = No_Mod" by (simp_all add: ex_s_def)
    then show ?thesis using str by (simp add: pointer_ok_def)
  qed
  ultimately have "accepts [0x100040 \<mapsto> 40] (bt_ro (ex_single 0x100040 40)) ex_call 8192 [0x100050]
      (argument_index (conversions [Conv ex_s]) 0) ex_s"
    unfolding ix accepts_def by simp
  then show ?thesis
    using builtin_printf_correct [OF B ex_tracked_memory ex_plain ex_call_format map_ready_table(2) acc dom(2) d ro right,
        of "builtin_printf (\<lambda>fmt ap. Some (length ap)) (seg_api ex_build) ex_call 8192 0x100040 [0x100050] (\<lambda>_. 0) ex_tracked"
          "\<lambda>fmt ap. Some (length ap)"]
    by (simp add: finish_def)
qed

section \<open>Defects of the parser\<close>

lemma fetch_dollar:
  assumes "text_at m q (map of_char ''%$d'')"
  shows "\<exists>d. fetch_directive char_table m fmt (q + 1) None i = Some (Inr (q + 3, d)) \<and> arg_index d = - 1 \<and> specifier d = 100 \<and>
    length_mod d = 0 \<and> \<not> flag_zero d \<and> \<not> flag_hash d \<and> \<not> flag_apostroph d \<and> precision d = INT_MIN"
proof -
  define r where "r = q + 1 + 1"
  have b: "m q = 37" "m (q + 1) = 36" "m r = 100" using assms by (simp_all add: text_at_Cons r_def)
  have d: "\<not> is_digit 36" "\<not> is_digit 100" by (simp_all add: is_digit_iff)
  have a: "fetch_format_argno m (q + 1) dir None i = Some (Inr (r, dir\<lparr>arg_index := - 1, arg_expl := True\<rparr>))" for dir
    using b d by (simp add: fetch_format_argno_def fetch_number.simps [of m "q + 1"] r_def)
  have f: "fetch_format_flags char_table m (r) dir = Some (Inr (r, dir))" for dir
    using b char_class(3) [of 100] by (simp add: fetch_format_flags.simps [of _ m "r"] flag_chars_def)
  have w: "fetch_format_field_width m (r) dir = Some (Inr (r, dir\<lparr>field_width := INT_MIN\<rparr>))" for dir
    using b d by (simp add: fetch_format_field_width_def)
  have p: "fetch_format_precision char_table m (r) dir = Some (Inr (r, dir\<lparr>precision := INT_MIN\<rparr>))" for dir
    using b char_class(4) [of 100] by (simp add: fetch_format_precision_def period_chars_def)
  have l: "fetch_format_length char_table m (r) dir = Some (Inr (r + 1,
      dir\<lparr>length_bytes := 0, length_mod := 0, length_extended := False, specifier := 100\<rparr>))" for dir
    using b char_class(1) [of 100] by (simp add: fetch_format_length_def length_modifier_def specifier_chars_def)
  have s: "save_text m q (r + 1) dir = Some (dir\<lparr>directive_text :=
      (strncpy_text m q 3 @ drop 3 (directive_text dir))[4 := 0]\<rparr>)" for dir
  proof -
    have "sint (r + 1 - q) = 3" by (simp add: r_def algebra_simps)
    then show ?thesis by (simp add: save_text_def)
  qed
  show ?thesis
    unfolding fetch_directive_def Let_def a andthen_simps prod.case f w p l add_diff_cancel_right' s
    by (simp add: zero_directive_def add.assoc r_def)
qed

lemma fetch_at_end:
  assumes "m q = 37" and "m (q + 1) = 0" and "case prev of Some pd \<Rightarrow> \<not> arg_expl pd | None \<Rightarrow> True"
  shows "\<exists>d. fetch_directive char_table m fmt (q + 1) prev i = Some (Inr (q + 2, d)) \<and> specifier d = 0 \<and> \<not> arg_expl d"
proof -
  have d: "\<not> is_digit 0" by (simp add: is_digit_iff)
  have a: "fetch_format_argno m (q + 1) dir prev i = Some (Inr (q + 1, dir\<lparr>arg_index := i, arg_expl := False\<rparr>))" for dir
    using assms d by (auto simp: fetch_format_argno_def fetch_number.simps [of m "q + 1"] split: option.splits)
  have f: "fetch_format_flags char_table m (q + 1) dir = Some (Inr (q + 1, dir))" for dir
    using assms(2) char_class(3) [of 0] by (simp add: fetch_format_flags.simps [of _ m "q + 1"] flag_chars_def)
  have w: "fetch_format_field_width m (q + 1) dir = Some (Inr (q + 1, dir\<lparr>field_width := INT_MIN\<rparr>))" for dir
    using assms(2) d by (simp add: fetch_format_field_width_def)
  have p: "fetch_format_precision char_table m (q + 1) dir = Some (Inr (q + 1, dir\<lparr>precision := INT_MIN\<rparr>))" for dir
    using assms(2) char_class(4) [of 0] by (simp add: fetch_format_precision_def period_chars_def)
  have l: "fetch_format_length char_table m (q + 1) dir = Some (Inr (q + 1 + 1,
      dir\<lparr>length_bytes := 0, length_mod := 0, length_extended := False, specifier := 0\<rparr>))" for dir
    using assms(2) by (simp add: fetch_format_length_def length_modifier_def)
  have s: "save_text m q (q + 1 + 1) dir = Some (dir\<lparr>directive_text :=
      (strncpy_text m q 2 @ drop 2 (directive_text dir))[3 := 0]\<rparr>)" for dir
  proof -
    have "sint (q + 1 + 1 - q) = 2" by (simp add: algebra_simps)
    then show ?thesis by (simp add: save_text_def)
  qed
  show ?thesis
    unfolding fetch_directive_def Let_def a andthen_simps prod.case f w p l add_diff_cancel_right' s
    by (simp add: zero_directive_def add.assoc)
qed

text \<open>
  Four defects of the parser. A specification that begins with the flag \<^verbatim>\<open>0\<close> is bound to the first
  argument, wherever it stands in the format, so that a correct call is rejected or a wrong one
  accepted. A specification of 15 or more characters is copied with its terminator past the end
  of the array. \<^verbatim>\<open>%$d\<close> yields the index -1, with which the array of arguments is accessed. When the
  format ends in a percent sign, the terminator is taken for a specifier and parsing goes on behind
  the string.
\<close>

theorem format_parser_defects:
  "(\<forall>cm m fmt items j. format_at m fmt False items \<longrightarrow> map_ready cm \<longrightarrow> j < length (conversions items) \<longrightarrow>
      cs_flags (conversions items ! j) \<noteq> [] \<longrightarrow> hd (cs_flags (conversions items ! j)) = 48 \<longrightarrow>
      (\<exists>dirs d. get_format_directives cm m fmt = Some (Inr (char_table, dirs)) \<and> dirs ! j = Some d \<and> arg_index d = 0)) \<and>
    (\<forall>m q cs fmt i. text_at m q (37 # spec_text cs) \<longrightarrow> spec_ok cs \<longrightarrow> 14 \<le> length (spec_text cs) \<longrightarrow> length (spec_text cs) < 2 ^ 31 \<longrightarrow>
      fetch_directive char_table m fmt (q + 1) None i = None) \<and>
    (\<forall>(api :: 's mm_api) m q fmt fmtdesc args func buf bs dirs st. text_at m q (map of_char ''%$d'') \<longrightarrow>
      (\<exists>d. fetch_directive char_table m fmt (q + 1) None 0 = Some (Inr (q + 3, d)) \<and> arg_index d = - 1 \<and>
        validate_directives api char_table m fmtdesc args func buf bs (Some d # dirs) st = None)) \<and>
    (\<forall>m q fmt i dirs. m q = 37 \<longrightarrow> m (q + 1) = 0 \<longrightarrow> i < length dirs \<longrightarrow>
      (\<exists>d. directives_loop char_table m fmt q i None dirs =
        directives_loop char_table m fmt (q + 2) (i + 1) (Some d) (dirs[i := Some d])))"
proof (intro conjI allI impI)
  fix cm m fmt items j
  assume a: "format_at m fmt False items" "map_ready cm" "j < length (conversions items)"
    "cs_flags (conversions items ! j) \<noteq> []" "hd (cs_flags (conversions items ! j)) = 48"
  have "list_all (\<lambda>cs. (cs_argno cs \<noteq> None) = False) (conversions items)" using a(1) by (simp add: format_at_def format_ok_def)
  then have n: "cs_argno (conversions items ! j) = None" using a(3) by (simp add: list_all_length)
  have "spec_directives fmt 0 (conversions items) ! j =
      spec_directive fmt (parsed_index (int (0 + j)) (conversions items ! j)) (conversions items ! j)"
    by (rule nth_spec_directives [OF a(3)])
  then show "\<exists>dirs d. get_format_directives cm m fmt = Some (Inr (char_table, dirs)) \<and> dirs ! j = Some d \<and> arg_index d = 0"
    using get_directives_format [OF a(1,2)] a(3-5) n by (simp add: nth_append spec_directive_sel(2) parsed_index_def zero_first_def)
next
  fix m q cs fmt i
  assume "text_at m q (37 # spec_text cs)" "spec_ok cs" "14 \<le> length (spec_text cs)" "length (spec_text cs) < 2 ^ 31"
  then show "fetch_directive char_table m fmt (q + 1) None i = None" by (intro fetch_directive_overrun) simp_all
next
  fix api :: "'s mm_api" and m q fmt fmtdesc args func buf bs dirs st
  assume "text_at m q (map of_char ''%$d'')"
  then obtain d where d: "fetch_directive char_table m fmt (q + 1) None 0 = Some (Inr (q + 3, d))" "arg_index d = - 1" "specifier d = 100"
    "length_mod d = 0" "\<not> flag_zero d" "\<not> flag_hash d" "\<not> flag_apostroph d" "precision d = INT_MIN"
    using fetch_dollar by blast
  then have "validate_applications char_table d = Some (Inr ())"
    by (simp add: validate_applications_def validate_flags_def validate_length_def)
  then have "validate_directives api char_table m fmtdesc args func buf bs (Some d # dirs) st = None" using d(2) by simp
  then show "\<exists>d. fetch_directive char_table m fmt (q + 1) None 0 = Some (Inr (q + 3, d)) \<and> arg_index d = - 1 \<and>
        validate_directives api char_table m fmtdesc args func buf bs (Some d # dirs) st = None"
    using d(1,2) by blast
next
  fix m :: mem and q fmt i and dirs :: "format_directive option list"
  assume "m q = 37" "m (q + 1) = 0" "i < length dirs"
  then show "\<exists>d. directives_loop char_table m fmt q i None dirs =
        directives_loop char_table m fmt (q + 2) (i + 1) (Some d) (dirs[i := Some d])"
    using fetch_at_end [of m q None fmt "int i"] by (auto simp: directives_loop.simps [of _ m fmt q])
qed

theorem format_parser_defects_witness:
  "\<exists>dirs d. get_format_directives (\<lambda>_. 0) (mem_of 4096 (format_text ex_items)) 4096 = Some (Inr (char_table, dirs)) \<and>
    dirs ! 1 = Some d \<and> arg_index d = 0"
proof -
  have "1 < length (conversions ex_items)" "cs_flags (conversions ex_items ! 1) \<noteq> []" "hd (cs_flags (conversions ex_items ! 1)) = 48"
    by (simp_all add: ex_items_def)
  then show ?thesis using format_parser_defects [THEN conjunct1] ex_format_at map_ready_table(2) by blast
qed

end
