(* ===== verification/Wchar.thy ===== *)
theory Wchar
  imports Memory_Model
begin

text \<open>
  \<^verbatim>\<open>wchar.c\<close>: wide strings. A \<^verbatim>\<open>wchar_t\<close> is four bytes of the byte memory, given by its bit pattern;
  a loop with an explicit bound is a recursion over the iterations left, a loop that searches the
  terminator may run forever.
\<close>

section \<open>Definitions\<close>

abbreviation wget :: "mem \<Rightarrow> u64 \<Rightarrow> u64 \<Rightarrow> u64" where
  "wget m p i \<equiv> load_le 4 m (p + 4 * i)"

abbreviation wset :: "mem \<Rightarrow> u64 \<Rightarrow> u64 \<Rightarrow> u64 \<Rightarrow> mem" where
  "wset m p i v \<equiv> store_le 4 m (p + 4 * i) v"

fun wmemcpy_loop :: "u64 \<Rightarrow> u64 \<Rightarrow> nat \<Rightarrow> u64 \<Rightarrow> mem \<Rightarrow> mem" where
  "wmemcpy_loop dest src 0 i m = m"
| "wmemcpy_loop dest src (Suc k) i m = wmemcpy_loop dest src k (i + 1) (wset m dest i (wget m src i))"

definition wmemcpy :: "u64 \<Rightarrow> u64 \<Rightarrow> u64 \<Rightarrow> mem \<Rightarrow> u64 \<times> mem" where
  "wmemcpy dest src n m = (dest, wmemcpy_loop dest src (unat n) 0 m)"

fun wmemset_loop :: "u64 \<Rightarrow> u64 \<Rightarrow> nat \<Rightarrow> u64 \<Rightarrow> mem \<Rightarrow> mem" where
  "wmemset_loop dest v 0 i m = m"
| "wmemset_loop dest v (Suc k) i m = wmemset_loop dest v k (i + 1) (wset m dest i v)"

definition wmemset :: "u64 \<Rightarrow> u32 \<Rightarrow> u64 \<Rightarrow> mem \<Rightarrow> u64 \<times> mem" where
  "wmemset dest v len m = (dest, wmemset_loop dest (ucast v) (unat len) 0 m)"

text \<open>The loop that \<^verbatim>\<open>wcscpy\<close> and \<^verbatim>\<open>wcscat\<close> share, with the final null character.\<close>

partial_function (option) wcscpy_loop :: "u64 \<Rightarrow> u64 \<Rightarrow> u64 \<Rightarrow> mem \<Rightarrow> mem option" where
  "wcscpy_loop dest src i m =
     (if wget m src i \<noteq> 0 then wcscpy_loop dest src (i + 1) (wset m dest i (wget m src i))
      else Some (wset m dest i 0))"

definition wcscpy :: "u64 \<Rightarrow> u64 \<Rightarrow> mem \<Rightarrow> (u64 \<times> mem) option" where
  "wcscpy dest src m = do { m \<leftarrow> wcscpy_loop dest src 0 m; Some (dest, m) }"

partial_function (option) wcslen_loop :: "mem \<Rightarrow> u64 \<Rightarrow> u64 \<Rightarrow> u64 option" where
  "wcslen_loop m str i = (if wget m str i \<noteq> 0 then wcslen_loop m str (i + 1) else Some i)"

definition wcslen :: "u64 \<Rightarrow> mem \<Rightarrow> u64 option" where
  "wcslen str m = wcslen_loop m str 0"

text \<open>The first loop of \<^verbatim>\<open>wcsncpy\<close> stores before it tests; it returns the index it stops at.\<close>

fun wcsncpy_loop :: "u64 \<Rightarrow> u64 \<Rightarrow> nat \<Rightarrow> u64 \<Rightarrow> mem \<Rightarrow> u64 \<times> mem" where
  "wcsncpy_loop dest src 0 i m = (i, m)"
| "wcsncpy_loop dest src (Suc k) i m =
     (let m = wset m dest i (wget m src i) in if wget m src i = 0 then (i, m) else wcsncpy_loop dest src k (i + 1) m)"

definition wcsncpy :: "u64 \<Rightarrow> u64 \<Rightarrow> u64 \<Rightarrow> mem \<Rightarrow> u64 \<times> mem" where
  "wcsncpy dest src n m =
     (let (i, m) = wcsncpy_loop dest src (unat n) 0 m in (dest, wmemset_loop dest 0 (unat (n - i)) i m))"

definition wcscat :: "u64 \<Rightarrow> u64 \<Rightarrow> mem \<Rightarrow> (u64 \<times> mem) option" where
  "wcscat dest src m = do {
     n \<leftarrow> wcslen dest m;
     m \<leftarrow> wcscpy_loop (dest + 4 * n) src 0 m;
     Some (dest, m) }"

fun wcsncat_loop :: "u64 \<Rightarrow> u64 \<Rightarrow> nat \<Rightarrow> u64 \<Rightarrow> mem \<Rightarrow> mem" where
  "wcsncat_loop d src 0 i m = wset m d i 0"
| "wcsncat_loop d src (Suc k) i m =
     (if wget m src i = 0 then wset m d i 0 else wcsncat_loop d src k (i + 1) (wset m d i (wget m src i)))"

definition wcsncat :: "u64 \<Rightarrow> u64 \<Rightarrow> u64 \<Rightarrow> mem \<Rightarrow> (u64 \<times> mem) option" where
  "wcsncat dest src n m = do {
     dest_len \<leftarrow> wcslen dest m;
     Some (dest, wcsncat_loop (dest + 4 * dest_len) src (unat n) 0 m) }"

section \<open>Writing a sequence of wide characters\<close>

fun wput :: "u64 \<Rightarrow> u64 list \<Rightarrow> mem \<Rightarrow> mem" where
  "wput d [] m = m"
| "wput d (v # vs) m = wput (d + 4) vs (store_le 4 m d v)"

abbreviation wat :: "mem \<Rightarrow> u64 \<Rightarrow> nat \<Rightarrow> u64" where
  "wat m p i \<equiv> wget m p (of_nat i)"

definition wchars :: "mem \<Rightarrow> u64 \<Rightarrow> nat \<Rightarrow> nat \<Rightarrow> u64 list" where
  "wchars m s a k = map (\<lambda>j. wat m s (a + j)) [0..<k]"

definition wterminated :: "mem \<Rightarrow> u64 \<Rightarrow> nat \<Rightarrow> bool" where
  "wterminated m s k \<longleftrightarrow> wat m s k = 0 \<and> (\<forall>j<k. wat m s j \<noteq> 0)"

text \<open>The bytes of \<open>n\<close> characters at \<open>s\<close> and of \<open>k\<close> characters at \<open>d\<close> are distinct.\<close>

definition wseparated :: "u64 \<Rightarrow> nat \<Rightarrow> u64 \<Rightarrow> nat \<Rightarrow> bool" where
  "wseparated s n d k \<longleftrightarrow> (\<forall>x<4 * n. \<forall>y<4 * k. s + of_nat x \<noteq> d + of_nat y)"

lemma wseparated_mono: "wseparated s n d k \<Longrightarrow> n' \<le> n \<Longrightarrow> k' \<le> k \<Longrightarrow> wseparated s n' d k'"
  unfolding wseparated_def by (meson le_less_trans less_le_trans mult_le_mono2)

lemma load_store_apart:
  assumes "\<And>x y. x < 4 \<Longrightarrow> y < 4 \<Longrightarrow> p + of_nat x \<noteq> q + of_nat y"
  shows "load_le 4 (store_le 4 m q v) p = load_le 4 m p"
proof (rule load_le_cong)
  fix i :: nat assume i: "i < 4"
  have "\<not> unat (p + of_nat i - q) < 4"
  proof
    assume "unat (p + of_nat i - q) < 4"
    moreover have "p + of_nat i = q + of_nat (unat (p + of_nat i - q))" by simp
    ultimately show False using assms i by blast
  qed
  then show "store_le 4 m q v (p + of_nat i) = m (p + of_nat i)" by (simp add: store_le_at)
qed

lemma wat_wset_separated:
  assumes "wseparated s n d k" and "j < n" and "i < k"
  shows "wat (wset m d (of_nat i) v) s j = wat m s j"
proof (rule load_store_apart)
  fix x y :: nat assume "x < 4" "y < 4"
  then have "4 * j + x < 4 * n" "4 * i + y < 4 * k" using assms(2,3) by simp_all
  then have "s + of_nat (4 * j + x) \<noteq> d + of_nat (4 * i + y)" using assms(1) unfolding wseparated_def by blast
  then show "s + 4 * of_nat j + of_nat x \<noteq> d + 4 * of_nat i + of_nat y" by (simp add: add.assoc)
qed

lemma wchars_wset: "wseparated s n d k \<Longrightarrow> a + l \<le> n \<Longrightarrow> i < k \<Longrightarrow> wchars (wset m d (of_nat i) v) s a l = wchars m s a l"
  unfolding wchars_def by (rule map_cong [OF refl]) (simp add: wat_wset_separated del: of_nat_add)

lemma wchars_Suc: "wchars m s a (Suc k) = wat m s a # wchars m s (Suc a) k"
  by (simp add: wchars_def map_upt_Suc del: upt_Suc of_nat_add)

lemma wput_append: "wput d (xs @ ys) m = wput (d + 4 * of_nat (length xs)) ys (wput d xs m)"
  by (induction xs arbitrary: d m) (simp_all add: algebra_simps)

lemma wput_at:
  assumes "4 * length vs \<le> 2 ^ 64"
  shows "\<not> inside d (4 * length vs) a \<Longrightarrow> wput d vs m a = m a"
    and "j < length vs \<Longrightarrow> wat (wput d vs m) d j = take_bit 32 (vs ! j)"
proof -
  have out: "\<not> inside d (4 * length vs) a \<Longrightarrow> wput d vs m a = m a" if "4 * length vs \<le> 2 ^ 64" for d m and vs :: "u64 list" and a
    using that
  proof (induction vs arbitrary: d m)
    case (Cons v vs)
    have n: "4 + 4 * length vs \<le> unat (a - d)" using Cons.prems(1) by (simp add: inside_def)
    then have "4 \<le> a - d" by (simp add: word_le_nat_alt)
    then have "unat (a - d - 4) = unat (a - d) - 4" by (simp add: unat_sub_64)
    then have "\<not> inside (d + 4) (4 * length vs) a" using n by (simp add: inside_def diff_diff_eq)
    then show ?case using Cons.IH [of "d + 4"] Cons.prems(2) n by (simp add: store_le_at)
  qed simp
  show "\<not> inside d (4 * length vs) a \<Longrightarrow> wput d vs m a = m a" using out assms by blast
  show "j < length vs \<Longrightarrow> wat (wput d vs m) d j = take_bit 32 (vs ! j)" using assms
  proof (induction vs arbitrary: d m j)
    case (Cons v vs)
    show ?case
    proof (cases j)
      case 0
      have "load_le 4 (wput (d + 4) vs (store_le 4 m d v)) d = load_le 4 (store_le 4 m d v) d"
      proof (rule load_le_cong)
        fix i :: nat assume i: "i < 4"
        have "d + of_nat i - (d + 4) = (of_nat i - 4 :: u64)" by simp
        moreover have "unat (of_nat i - 4 :: u64) = i + 2 ^ 64 - 4" using i by (simp add: unat_sub_if' unat_of_nat_64)
        ultimately have "unat (d + of_nat i - (d + 4)) = i + 2 ^ 64 - 4" by (simp only:)
        then have "\<not> inside (d + 4) (4 * length vs) (d + of_nat i)" using Cons.prems(2) i by (simp add: inside_def)
        then show "wput (d + 4) vs (store_le 4 m d v) (d + of_nat i) = store_le 4 m d v (d + of_nat i)"
          using out Cons.prems(2) by simp
      qed
      then show ?thesis using 0 by (simp add: load_le_store_le_same)
    next
      case (Suc i)
      then show ?thesis using Cons.IH [of i "d + 4"] Cons.prems by (simp add: algebra_simps)
    qed
  qed simp
qed

section \<open>The loops\<close>

lemma wmemcpy_loop_wput:
  "wseparated s n d n \<Longrightarrow> a + k \<le> n \<Longrightarrow> wmemcpy_loop d s k (of_nat a) m = wput (d + 4 * of_nat a) (wchars m s a k) m"
proof (induction k arbitrary: a m)
  case (Suc k)
  have "wmemcpy_loop d s k (of_nat (Suc a)) (wset m d (of_nat a) (wat m s a)) =
      wput (d + 4 * of_nat (Suc a)) (wchars (wset m d (of_nat a) (wat m s a)) s (Suc a) k) (wset m d (of_nat a) (wat m s a))"
    by (rule Suc.IH) (use Suc.prems in simp_all)
  moreover have "wchars (wset m d (of_nat a) (wat m s a)) s (Suc a) k = wchars m s (Suc a) k"
    using wchars_wset [OF Suc.prems(1)] Suc.prems(2) by simp
  ultimately show ?case by (simp add: wchars_Suc algebra_simps)
qed (simp add: wchars_def)

lemma wmemset_loop_wput: "wmemset_loop d v k i m = wput (d + 4 * i) (replicate k v) m"
  by (induction k arbitrary: i m) (simp_all add: algebra_simps)

lemma wcslen_eq:
  assumes "wterminated m s k"
  shows "wcslen s m = Some (of_nat k)"
proof -
  have "wcslen_loop m s (of_nat a) = Some (of_nat k)" if "a \<le> k" for a
    using that
  proof (induction "k - a" arbitrary: a)
    case 0
    then have "a = k" by simp
    then show ?case using assms by (simp add: wcslen_loop.simps [of m s "of_nat k"] wterminated_def)
  next
    case (Suc x)
    have "a < k" using Suc.hyps(2) by simp
    then have "wat m s a \<noteq> 0" using assms by (simp add: wterminated_def)
    moreover have "wcslen_loop m s (of_nat (Suc a)) = Some (of_nat k)" by (rule Suc.hyps(1)) (use Suc.hyps(2) in simp_all)
    ultimately show ?case by (simp add: wcslen_loop.simps [of m s "of_nat a"] add.commute)
  qed
  from this [of 0] show ?thesis by (simp add: wcslen_def)
qed

lemma wcscpy_loop_wput:
  assumes "wterminated m s k" and "wseparated s (k + 1) d (k + 1)" and "a \<le> k"
  shows "wcscpy_loop d s (of_nat a) m = Some (wput (d + 4 * of_nat a) (wchars m s a (k - a) @ [0]) m)"
  using assms(1,3)
proof (induction "k - a" arbitrary: a m)
  case 0
  then have "a = k" by simp
  then show ?case using 0 by (simp add: wcscpy_loop.simps [of d s "of_nat k"] wterminated_def wchars_def)
next
  case (Suc x)
  let ?m = "wset m d (of_nat a) (wat m s a)"
  have a: "a < k" "k - a = Suc (k - Suc a)" using Suc.hyps(2) by simp_all
  have keep: "wat ?m s j = wat m s j" if "j \<le> k" for j using wat_wset_separated [OF assms(2), of j a] that a(1) by simp
  have "wterminated ?m s k" using Suc.prems(1) keep unfolding wterminated_def by simp
  then have "wcscpy_loop d s (of_nat (Suc a)) ?m = Some (wput (d + 4 * of_nat (Suc a)) (wchars ?m s (Suc a) (k - Suc a) @ [0]) ?m)"
    using Suc.hyps(1) [of "Suc a" ?m] Suc.hyps(2) a(1) by simp
  moreover have "wchars ?m s (Suc a) (k - Suc a) = wchars m s (Suc a) (k - Suc a)"
    using wchars_wset [OF assms(2)] a(1) by simp
  moreover have "wat m s a \<noteq> 0" using Suc.prems(1) a(1) by (simp add: wterminated_def)
  ultimately show ?case by (simp add: wcscpy_loop.simps [of d s "of_nat a"] a(2) wchars_Suc algebra_simps)
qed

lemma wcsncat_loop_wput:
  assumes "wterminated m s k" and "wseparated s (k + 1) d (k + 1)" and "a \<le> k"
  shows "wcsncat_loop d s l (of_nat a) m = wput (d + 4 * of_nat a) (wchars m s a (min l (k - a)) @ [0]) m"
  using assms(1,3)
proof (induction l arbitrary: a m)
  case 0
  then show ?case by (simp add: wchars_def)
next
  case (Suc l)
  let ?m = "wset m d (of_nat a) (wat m s a)"
  show ?case
  proof (cases "a = k")
    case True
    then show ?thesis using Suc.prems by (simp add: wterminated_def wchars_def)
  next
    case False
    then have a: "a < k" "min (Suc l) (k - a) = Suc (min l (k - Suc a))" using Suc.prems(2) by simp_all
    have keep: "wat ?m s j = wat m s j" if "j \<le> k" for j using wat_wset_separated [OF assms(2), of j a] that a(1) by simp
    have "wterminated ?m s k" using Suc.prems(1) keep unfolding wterminated_def by simp
    then have "wcsncat_loop d s l (of_nat (Suc a)) ?m = wput (d + 4 * of_nat (Suc a)) (wchars ?m s (Suc a) (min l (k - Suc a)) @ [0]) ?m"
      using Suc.IH [of ?m "Suc a"] a(1) by simp
    moreover have "wchars ?m s (Suc a) (min l (k - Suc a)) = wchars m s (Suc a) (min l (k - Suc a))"
      using wchars_wset [OF assms(2)] a(1) by simp
    moreover have "wat m s a \<noteq> 0" using Suc.prems(1) a(1) by (simp add: wterminated_def)
    ultimately show ?thesis by (simp add: a(2) wchars_Suc algebra_simps)
  qed
qed

text \<open>The two loops of \<^verbatim>\<open>wcsncpy\<close>: the first stops behind \<open>n\<close> characters or at the null character, which it copies.\<close>

lemma wcsncpy_loop_wput:
  assumes "wterminated m s k" and "wseparated s (max n (k + 1)) d (max n (k + 1))" and "a \<le> k" and "a + l \<le> n"
  shows "wcsncpy_loop d s l (of_nat a) m = (if k - a < l then (of_nat k, wput (d + 4 * of_nat a) (wchars m s a (k - a) @ [0]) m)
    else (of_nat (a + l), wput (d + 4 * of_nat a) (wchars m s a l) m))"
  using assms(1,3,4)
proof (induction l arbitrary: a m)
  case 0
  then show ?case by (simp add: wchars_def)
next
  case (Suc l)
  let ?m = "wset m d (of_nat a) (wat m s a)"
  have keep: "wat ?m s j = wat m s j" if "j \<le> k" for j
    using wat_wset_separated [OF assms(2), of j a] that Suc.prems(2) by simp
  show ?case
  proof (cases "a = k")
    case True
    then have "wat m s a = 0" "wat ?m s a = 0" using Suc.prems(1) keep by (simp_all add: wterminated_def)
    then show ?thesis using True by (simp add: wchars_def Let_def)
  next
    case False
    then have a: "a < k" "k - a = Suc (k - Suc a)" using Suc.prems(2) by simp_all
    have nz: "wat ?m s a \<noteq> 0" using Suc.prems(1) keep [of a] a(1) by (simp add: wterminated_def)
    have "wterminated ?m s k" using Suc.prems(1) keep unfolding wterminated_def by simp
    then have IH: "wcsncpy_loop d s l (of_nat (Suc a)) ?m =
        (if k - Suc a < l then (of_nat k, wput (d + 4 * of_nat (Suc a)) (wchars ?m s (Suc a) (k - Suc a) @ [0]) ?m)
         else (of_nat (Suc a + l), wput (d + 4 * of_nat (Suc a)) (wchars ?m s (Suc a) l) ?m))"
      using Suc.IH [of ?m "Suc a"] a(1) Suc.prems(3) by simp
    have c1: "wchars ?m s (Suc a) (k - Suc a) = wchars m s (Suc a) (k - Suc a)"
      using wchars_wset [OF assms(2)] a(1) by simp
    have c2: "wchars ?m s (Suc a) l = wchars m s (Suc a) l" using wchars_wset [OF assms(2)] Suc.prems(3) a(1) by simp
    have "wcsncpy_loop d s (Suc l) (of_nat a) m = wcsncpy_loop d s l (of_nat (Suc a)) ?m"
      using nz by (simp add: Let_def add.commute)
    then show ?thesis
      unfolding IH c1 c2 by (simp add: a(2) wchars_Suc algebra_simps)
  qed
qed

lemma store_le_again: "store_le 4 (store_le 4 m d v) d w = store_le 4 m d w"
  by (rule ext) (simp add: store_le_at)

lemma wcsncpy_wput:
  assumes "wterminated m src k" and "wseparated src (max n (k + 1)) dest (max n (k + 1))" and "n < 2 ^ 64"
  shows "wcsncpy dest src (of_nat n) m = (dest, wput dest (wchars m src 0 (min n k) @ replicate (n - k) 0) m)"
proof -
  have n: "unat (of_nat n :: u64) = n" using assms(3) by (rule unat_of_nat_64)
  note loop = wcsncpy_loop_wput [OF assms(1,2), of 0 n]
  show ?thesis
  proof (cases "k < n")
    case True
    let ?c = "wchars m src 0 k"
    have "(of_nat n - of_nat k :: u64) = of_nat (n - k)" using True by (simp add: of_nat_diff)
    moreover have "unat (of_nat (n - k) :: u64) = n - k" using assms(3) by (intro unat_of_nat_64) simp
    ultimately have u: "unat (of_nat n - of_nat k :: u64) = n - k" by (simp only:)
    obtain z where z: "n - k = Suc z" using True by (metis Suc_diff_Suc)
    have "wput (dest + 4 * of_nat k) (replicate (Suc z) 0) (wput dest (?c @ [0]) m) = wput dest (?c @ replicate (Suc z) 0) m"
      by (simp add: wput_append store_le_again wchars_def)
    then show ?thesis using loop True by (simp add: wcsncpy_def n u z wmemset_loop_wput del: replicate_Suc)
  next
    case False
    then show ?thesis using loop by (simp add: wcsncpy_def n)
  qed
qed

text \<open>
  C30: the wide string functions return, and write exactly the characters they should. \<^verbatim>\<open>wcslen\<close> returns
  the length; \<^verbatim>\<open>wmemcpy\<close>, \<^verbatim>\<open>wcscpy\<close> and \<^verbatim>\<open>wcscat\<close> write the characters of the source, \<^verbatim>\<open>wcsncpy\<close> at most
  \<open>n\<close> of them, filled up with null characters, \<^verbatim>\<open>wcsncat\<close> at most \<open>n\<close> of them and a null character.
  Writing a sequence of characters sets these characters and changes no other byte.
\<close>

theorem wide_functions_write:
  assumes "wterminated m src k" and "wterminated m dest l" and "n < 2 ^ 64"
    and "wseparated src (max n (k + 1)) dest (max n (k + 1))" and "wseparated src (k + 1) (dest + 4 * of_nat l) (k + 1)"
  shows "wcslen src m = Some (of_nat k) \<and>
    wmemcpy dest src (of_nat n) m = (dest, wput dest (wchars m src 0 n) m) \<and>
    wmemset dest v (of_nat n) m = (dest, wput dest (replicate n (ucast v)) m) \<and>
    wcscpy dest src m = Some (dest, wput dest (wchars m src 0 k @ [0]) m) \<and>
    wcsncpy dest src (of_nat n) m = (dest, wput dest (wchars m src 0 (min n k) @ replicate (n - k) 0) m) \<and>
    wcscat dest src m = Some (dest, wput (dest + 4 * of_nat l) (wchars m src 0 k @ [0]) m) \<and>
    wcsncat dest src (of_nat n) m = Some (dest, wput (dest + 4 * of_nat l) (wchars m src 0 (min n k) @ [0]) m) \<and>
    (\<forall>d vs. 4 * length vs \<le> 2 ^ 64 \<longrightarrow> (\<forall>a. \<not> inside d (4 * length vs) a \<longrightarrow> wput d vs m a = m a) \<and>
      (\<forall>j<length vs. wat (wput d vs m) d j = take_bit 32 (vs ! j)))"
proof (intro conjI)
  have n: "unat (of_nat n :: u64) = n" using assms(3) by (rule unat_of_nat_64)
  have sep: "wseparated src (k + 1) dest (k + 1)" "wseparated src n dest n"
    by (rule wseparated_mono [OF assms(4)]; simp)+
  show "wmemcpy dest src (of_nat n) m = (dest, wput dest (wchars m src 0 n) m)"
    using wmemcpy_loop_wput [OF sep(2), of 0 n m] by (simp add: wmemcpy_def n)
  show "wmemset dest v (of_nat n) m = (dest, wput dest (replicate n (ucast v)) m)"
    by (simp add: wmemset_def wmemset_loop_wput n)
  show "wcscpy dest src m = Some (dest, wput dest (wchars m src 0 k @ [0]) m)"
    using wcscpy_loop_wput [OF assms(1) sep(1), of 0] by (simp add: wcscpy_def)
  show "wcscat dest src m = Some (dest, wput (dest + 4 * of_nat l) (wchars m src 0 k @ [0]) m)"
    using wcscpy_loop_wput [OF assms(1,5), of 0] wcslen_eq [OF assms(2)] by (simp add: wcscat_def)
  show "wcsncat dest src (of_nat n) m = Some (dest, wput (dest + 4 * of_nat l) (wchars m src 0 (min n k) @ [0]) m)"
    using wcsncat_loop_wput [OF assms(1,5), of 0 n] wcslen_eq [OF assms(2)] by (simp add: wcsncat_def n)
qed (use wcslen_eq [OF assms(1)] wcsncpy_wput [OF assms(1,4,3)] wput_at in auto)

definition ex_wide :: mem where
  "ex_wide a = (if a = 16 then 65 else 0)"

lemma load_le_4:
  "load_le 4 m a = ucast (m a) OR push_bit 8 (ucast (m (a + 1)) OR push_bit 8 (ucast (m (a + 2)) OR push_bit 8 (ucast (m (a + 3)))))"
proof -
  have "(4 :: nat) = Suc (Suc (Suc (Suc 0)))" by simp
  then show ?thesis by (simp only: load_le.simps) (simp add: add.assoc)
qed

theorem wide_functions_write_witness:
  "wcscpy 64 16 ex_wide = Some (64, wput 64 [65, 0] ex_wide)"
proof -
  have w: "wterminated ex_wide 16 1" "wterminated ex_wide 64 0"
    by (simp_all add: wterminated_def ex_wide_def load_le_4)
  have c: "16 + of_nat x \<noteq> (64 + of_nat y :: u64)" if "x < 8" "y < 8" for x y
  proof -
    have "unat (16 + of_nat x :: u64) = 16 + x" "unat (64 + of_nat y :: u64) = 64 + y"
      using that by (simp_all add: unat_add_64 unat_of_nat_64)
    moreover have "16 + x \<noteq> 64 + y" using that by simp
    ultimately show ?thesis by metis
  qed
  have s: "wseparated 16 (max 0 (1 + 1)) 64 (max 0 (1 + 1))" "wseparated 16 (1 + 1) (64 + 4 * of_nat 0) (1 + 1)"
    using c by (simp_all add: wseparated_def)
  show ?thesis
    using wide_functions_write [OF w _ s] by (simp add: wchars_def ex_wide_def load_le_4)
qed

end
