(* ===== verification/Libc_Stdlib.thy ===== *)
theory Libc_Stdlib
  imports Format_Grammar Printf_Format
begin

text \<open>
  \<^verbatim>\<open>stdlib.c\<close>: \<^verbatim>\<open>abs\<close>, \<^verbatim>\<open>atoi\<close>, \<^verbatim>\<open>calloc\<close>, \<^verbatim>\<open>posix_memalign\<close> and the environment. \<open>None\<close> is undefined
  behaviour (an overflow of \<^verbatim>\<open>int\<close>) or a loop that does not end; \<^verbatim>\<open>malloc\<close> is a parameter, the
  environment draws from the entropy source.
\<close>

section \<open>Numbers\<close>

definition in_int :: "int \<Rightarrow> int option" where
  "in_int n = (if - (2 ^ 31) \<le> n \<and> n < 2 ^ 31 then Some n else None)"

definition c_abs :: "int \<Rightarrow> int option" where
  "c_abs i = (if i < 0 then in_int (- i) else Some i)"

partial_function (option) skip_spaces :: "mem \<Rightarrow> u64 \<Rightarrow> int \<Rightarrow> (u64 \<times> int) option" where
  "skip_spaces m up c =
     (if isspace c \<noteq> 0 then skip_spaces m (up + 1) (uint (m (up + 1))) else Some (up, c))"

text \<open>The loop over the digits: the number is accumulated as a negative one, in two steps.\<close>

partial_function (option) atoi_loop :: "mem \<Rightarrow> u64 \<Rightarrow> int \<Rightarrow> int option" where
  "atoi_loop m up n =
     (let up = up + 1; c = uint (m up) in
      if isdigit c \<noteq> 0 then do {
        n \<leftarrow> in_int (n * 10);
        n \<leftarrow> in_int (n + (48 - c));
        atoi_loop m up n }
      else Some n)"

definition atoi :: "u64 \<Rightarrow> mem \<Rightarrow> int option" where
  "atoi p m = do {
     let c = uint (m p);
     (up, c, neg, ok) \<leftarrow>
       (if isdigit c = 0 then do {
          (up, c) \<leftarrow> skip_spaces m p c;
          let neg = (c = 45);
          let (up, c) = (if c = 45 \<or> c = 43 then (up + 1, uint (m (up + 1))) else (up, c));
          Some (up, c, neg, isdigit c \<noteq> 0) }
        else Some (p, c, False, True));
     if \<not> ok then Some 0
     else do {
       n \<leftarrow> atoi_loop m up (48 - c);
       if neg then Some n else in_int (- n) } }"

section \<open>Allocation\<close>

definition calloc :: "(u64 \<Rightarrow> mem \<Rightarrow> u64 \<times> mem) \<Rightarrow> u64 \<Rightarrow> u64 \<Rightarrow> mem \<Rightarrow> u64 \<times> mem" where
  "calloc mal nmemb sz m =
     (let l = nmemb * sz in
      if sz \<noteq> 0 \<and> l div sz \<noteq> nmemb then (0, m)
      else
        let (p, m) = mal l m in
        if p \<noteq> 0 then (p, snd (memset p 0 l m)) else (p, m))"

definition ENOMEM :: int where "ENOMEM = 12"

definition posix_memalign :: "(u64 \<Rightarrow> mem \<Rightarrow> u64 \<times> mem) \<Rightarrow> u64 \<Rightarrow> u64 \<Rightarrow> u64 \<Rightarrow> mem \<Rightarrow> int \<times> mem" where
  "posix_memalign mal memptr alignment sz m =
     (let (p, m) = mal sz m; m = store64 m memptr p in
      if load64 m memptr = 0 then (ENOMEM, m) else (0, m))"

section \<open>Reading numbers\<close>

lemma uint_digit: "d < 10 \<Longrightarrow> uint (48 + of_nat d :: u8) = 48 + int d"
proof -
  assume "d < 10"
  then have "int (unat (48 + of_nat d :: u8)) = 48 + int d" using unat_digit by simp
  then show ?thesis by simp
qed

lemma isdigit_uint: "isdigit (uint (c :: u8)) \<noteq> 0 \<longleftrightarrow> is_digit c"
proof -
  have u: "uint c = int (unat c)" by simp
  show ?thesis unfolding u is_digit_iff isdigit_def ISDIGIT_def by (auto simp del: of_nat_unat)
qed

lemma in_int_neg: "v \<le> 2 ^ 31 \<Longrightarrow> in_int (- int v) = Some (- int v)"
  by (simp add: in_int_def)

abbreviation digits_value :: "nat \<Rightarrow> nat list \<Rightarrow> nat" where
  "digits_value \<equiv> foldl (\<lambda>v d. v * 10 + d)"

lemma atoi_loop_digits:
  assumes "text_at m (p + 1) (map (\<lambda>d. 48 + of_nat d) ds @ [c])" and "\<And>d. d \<in> set ds \<Longrightarrow> d < 10" and "\<not> is_digit c"
    and "v \<le> 2 ^ 31"
  shows "atoi_loop m p (- int v) = (if digits_value v ds \<le> 2 ^ 31 then Some (- int (digits_value v ds)) else None)"
  using assms(1,2,4)
proof (induction ds arbitrary: p v)
  case Nil
  then show ?case using assms(3) isdigit_uint [of c] by (simp add: atoi_loop.simps [of m p] text_at_Cons Let_def)
next
  case (Cons d ds)
  have d: "m (p + 1) = 48 + of_nat d" "d < 10" using Cons.prems(1,2) by (simp_all add: text_at_Cons)
  have dig: "isdigit (uint (m (p + 1))) \<noteq> 0" using isdigit_uint [of "m (p + 1)"] digit_facts [OF d(2)] d(1) by simp
  have neg: "- int v * 10 = - int (v * 10)" "- int (v * 10) + (48 - uint (m (p + 1))) = - int (v * 10 + d)"
    using uint_digit [OF d(2)] d(1) by simp_all
  show ?case
  proof (cases "v * 10 + d \<le> 2 ^ 31")
    case True
    have "atoi_loop m (p + 1) (- int (v * 10 + d)) =
        (if digits_value (v * 10 + d) ds \<le> 2 ^ 31 then Some (- int (digits_value (v * 10 + d) ds)) else None)"
      by (rule Cons.IH) (use Cons.prems True in \<open>simp_all add: text_at_Cons\<close>)
    moreover have "in_int (- int (v * 10)) = Some (- int (v * 10))" "in_int (- int (v * 10 + d)) = Some (- int (v * 10 + d))"
      using True by (intro in_int_neg; simp)+
    ultimately show ?thesis
      unfolding atoi_loop.simps [of m p] Let_def neg using dig neg(2) by (simp del: of_nat_add of_nat_mult)
  next
    case False
    have "atoi_loop m p (- int v) = None"
    proof (cases "v * 10 \<le> 2 ^ 31")
      case True
      then have "in_int (- int (v * 10)) = Some (- int (v * 10))" by (rule in_int_neg)
      moreover have "in_int (- int (v * 10 + d)) = None" using False by (simp add: in_int_def)
      ultimately show ?thesis
        unfolding atoi_loop.simps [of m p] Let_def neg using dig neg(2) by (simp del: of_nat_add of_nat_mult)
    next
      case False
      then have "in_int (- int (v * 10)) = None" by (simp add: in_int_def)
      then show ?thesis unfolding atoi_loop.simps [of m p] Let_def neg using dig by (simp del: of_nat_mult)
    qed
    moreover have "\<not> digits_value v (d # ds) \<le> 2 ^ 31"
      using False foldl_mono [of "v * 10 + d" ds] by simp
    ultimately show ?thesis by simp
  qed
qed

text \<open>The digits of a number, from the first one on.\<close>

lemma atoi_loop_decimal:
  assumes "text_at m p (decimal n @ [c])" and "\<not> is_digit c"
  shows "atoi_loop m p (48 - uint (m p)) = (if n \<le> 2 ^ 31 then Some (- int n) else None)"
proof -
  obtain d ds where ds: "numeral_of 10 n = d # ds" using decimal_nonempty [of n] by (cases "numeral_of 10 n") (auto simp: decimal_digits)
  have lt: "x < 10" if "x \<in> set (d # ds)" for x using numeral_facts(2) [of 10 x n] that ds by simp
  have t: "m p = 48 + of_nat d" "text_at m (p + 1) (map (\<lambda>d. 48 + of_nat d) ds @ [c])"
    using assms(1) unfolding decimal_digits ds by (simp_all add: text_at_Cons)
  have "48 - uint (m p) = - int d" using uint_digit [of d] lt t(1) by simp
  moreover have "digits_value d ds = n" using numeral_facts(1) [of 10 n] unfolding ds by (simp add: value_of_def)
  moreover have "d \<le> 2 ^ 31" using lt [of d] by simp
  ultimately show ?thesis using atoi_loop_digits [OF t(2) _ assms(2), of d] lt by simp
qed

lemma skip_spaces_run:
  assumes "text_at m p (ws @ [c])" and "\<And>w. w \<in> set ws \<Longrightarrow> isspace (uint w) \<noteq> 0" and "isspace (uint c) = 0"
  shows "skip_spaces m p (uint (m p)) = Some (p + of_nat (length ws), uint c)"
  using assms(1,2)
proof (induction ws arbitrary: p)
  case Nil
  then show ?case using assms(3) by (simp add: skip_spaces.simps [of m p] text_at_Cons)
next
  case (Cons w ws)
  have "skip_spaces m (p + 1) (uint (m (p + 1))) = Some (p + 1 + of_nat (length ws), uint c)"
    by (rule Cons.IH) (use Cons.prems in \<open>simp_all add: text_at_Cons\<close>)
  moreover have "m p = w" "isspace (uint w) \<noteq> 0" using Cons.prems by (simp_all add: text_at_Cons)
  ultimately show ?case by (simp add: skip_spaces.simps [of m p] add.assoc)
qed

lemma space_no_digit: "isspace c \<noteq> 0 \<Longrightarrow> isdigit c = 0" "isdigit c \<noteq> 0 \<Longrightarrow> isspace c = 0"
  by (auto simp: isspace_def isdigit_def ISSPACE_def ISDIGIT_def split: if_splits)

lemma atoi_signed:
  assumes "text_at m p (ws @ signed_text i @ [c])" and "\<And>w. w \<in> set ws \<Longrightarrow> isspace (uint w) \<noteq> 0" and "\<not> is_digit c"
  shows "atoi p m = (if - (2 ^ 31) \<le> i \<and> i < 2 ^ 31 then Some i else None)"
proof -
  define q where "q = p + of_nat (length ws)"
  have t: "text_at m p ws" "text_at m q (signed_text i @ [c])" using assms(1) by (simp_all add: text_at_append q_def)
  show ?thesis
  proof (cases "i < 0")
    case True
    have s: "m q = 45" "text_at m (q + 1) (decimal (nat (- i)) @ [c])"
      using t(2) True by (simp_all add: signed_text_def text_at_Cons)
    have "text_at m p (ws @ [45])" using t(1) s(1) by (simp add: q_def text_at_append text_at_Cons)
    moreover have "isspace (uint (45 :: u8)) = 0" by (simp add: isspace_def ISSPACE_def)
    ultimately have "skip_spaces m p (uint (m p)) = Some (q, uint (45 :: u8))"
      unfolding q_def using skip_spaces_run assms(2) by blast
    then have "skip_spaces m p (uint (m p)) = Some (q, 45)" by simp
    moreover have "isdigit (uint (m p)) = 0"
    proof (cases ws)
      case Nil
      then show ?thesis using s(1) by (simp add: q_def isdigit_def ISDIGIT_def)
    next
      case (Cons w ws')
      then show ?thesis using t(1) assms(2) space_no_digit(1) by (simp add: text_at_Cons)
    qed
    moreover have "isdigit (uint (m (q + 1))) \<noteq> 0" using decimal_at(1) [OF s(2)] isdigit_uint by blast
    ultimately have "atoi p m = atoi_loop m (q + 1) (48 - uint (m (q + 1)))" by (simp add: atoi_def)
    then show ?thesis using atoi_loop_decimal [OF s(2) assms(3)] True by (auto simp: nat_le_iff)
  next
    case False
    then have s: "text_at m q (decimal (nat i) @ [c])" using t(2) by (simp add: signed_text_def)
    have dig: "isdigit (uint (m q)) \<noteq> 0" using decimal_at(1) [OF s] isdigit_uint by blast
    then have sg: "uint (m q) \<noteq> 45" "uint (m q) \<noteq> 43" by (auto simp: isdigit_def ISDIGIT_def)
    have "atoi p m = do { n \<leftarrow> atoi_loop m q (48 - uint (m q)); in_int (- n) }"
    proof (cases ws)
      case Nil
      then show ?thesis using dig by (simp add: q_def atoi_def)
    next
      case (Cons w ws')
      then have "isdigit (uint (m p)) = 0" using t(1) assms(2) space_no_digit(1) by (simp add: text_at_Cons)
      moreover have "text_at m p (ws @ [m q])" using t(1) by (simp add: text_at_append q_def text_at_Cons)
      then have "skip_spaces m p (uint (m p)) = Some (q, uint (m q))"
        using skip_spaces_run [of m p ws "m q"] assms(2) space_no_digit(2) [OF dig] by (simp add: q_def)
      ultimately show ?thesis using dig sg by (simp add: atoi_def)
    qed
    then show ?thesis using atoi_loop_decimal [OF s assms(3)] False by (auto simp: in_int_def nat_le_iff)
  qed
qed

text \<open>
  C34: \<^verbatim>\<open>atoi\<close> reads back what the run-time library prints. For white space, the decimal text of a number
  with its sign, and a character that is no digit, it returns the number if it is in the range of
  \<^verbatim>\<open>int\<close>, the smallest one included, and overflows otherwise; so it inverts the conversion \<^verbatim>\<open>i2a\<close> of
  \<^verbatim>\<open>e_acsl_printf.h\<close>. \<^verbatim>\<open>abs\<close> returns the absolute value, and overflows for \<^verbatim>\<open>INT_MIN\<close> only.
\<close>

theorem atoi_roundtrip:
  assumes "text_at m p (ws @ signed_text i @ [c])" and "\<And>w. w \<in> set ws \<Longrightarrow> isspace (uint w) \<noteq> 0" and "\<not> is_digit c"
    and "i2a x = Some cs" and "sint x \<noteq> - (2 ^ 31)" and "text_at m q (cs @ [0])"
  shows "atoi p m = (if - (2 ^ 31) \<le> i \<and> i < 2 ^ 31 then Some i else None) \<and>
    atoi q m = Some (sint x) \<and>
    c_abs (sint (y :: u32)) = (if sint y = - (2 ^ 31) then None else Some \<bar>sint y\<bar>)"
proof (intro conjI)
  show "atoi p m = (if - (2 ^ 31) \<le> i \<and> i < 2 ^ 31 then Some i else None)" by (rule atoi_signed [OF assms(1-3)])
  have r: "- (2 ^ 31) \<le> sint z" "sint z < 2 ^ 31" for z :: u32
    using sint_greater_eq [of z] sint_less [of z] by simp_all
  have "cs = signed_text (sint x)" using i2a_text [OF assms(5)] assms(4) by simp
  then have "text_at m q ([] @ signed_text (sint x) @ [0])" using assms(6) by simp
  moreover have "\<not> is_digit 0" by (simp add: is_digit_iff)
  ultimately show "atoi q m = Some (sint x)" using atoi_signed [of m q "[]" "sint x" 0] r by simp
  show "c_abs (sint y) = (if sint y = - (2 ^ 31) then None else Some \<bar>sint y\<bar>)"
    using r [of y] by (auto simp: c_abs_def in_int_def)
qed

definition ex_minus :: mem where
  "ex_minus a = (if a = 16 then 32 else if a = 17 then 45 else if a = 18 then 55 else if a = 32 then 55 else 0)"

lemma decimal_7: "decimal 7 = [55]"
  by (simp add: decimal_digits numeral_of.simps [of 10 7])

theorem atoi_roundtrip_witness: "atoi 16 ex_minus = Some (- 7) \<and> atoi 32 ex_minus = Some 7"
proof -
  have t: "text_at ex_minus 16 ([32] @ signed_text (- 7) @ [0])" "text_at ex_minus 32 ([55] @ [0])"
    by (simp_all add: signed_text_def decimal_7 text_at_Cons ex_minus_def)
  have s: "isspace (uint w) \<noteq> 0" if "w \<in> set [32 :: u8]" for w using that by (simp add: isspace_def ISSPACE_def)
  have i: "i2a (7 :: u32) = Some [55]" using i2a_text [of 7] by (simp add: signed_text_def decimal_7)
  have "\<not> is_digit 0" by (simp add: is_digit_iff)
  then show ?thesis using atoi_roundtrip [OF t(1) s _ i _ t(2), of 0] by simp
qed

section \<open>Allocation\<close>

lemma product_check:
  assumes "sz \<noteq> (0 :: u64)"
  shows "nmemb * sz div sz = nmemb \<longleftrightarrow> unat nmemb * unat sz < 2 ^ 64"
proof
  have pos: "0 < unat sz" using assms by (simp add: unat_gt_0)
  assume "unat nmemb * unat sz < 2 ^ 64"
  then have "unat (nmemb * sz div sz) = unat nmemb" using pos by (simp add: unat_div unat_mult_64)
  then show "nmemb * sz div sz = nmemb" by (simp only: word_unat_eq_iff)
next
  have pos: "0 < unat sz" using assms by (simp add: unat_gt_0)
  assume e: "nmemb * sz div sz = nmemb"
  have "unat nmemb * unat sz \<le> unat (nmemb * sz)"
    using arg_cong [OF e, of unat] pos by (simp add: unat_div div_le_dividend less_eq_div_iff_mult_less_eq [symmetric])
  then show "unat nmemb * unat sz < 2 ^ 64" using unat_lt_64 le_less_trans by blast
qed

text \<open>
  \<^verbatim>\<open>calloc\<close> meets its contract. If the product of the sizes is not representable, it returns null and
  does not allocate; otherwise it returns what \<^verbatim>\<open>malloc\<close> returns for the product, and if that is not
  null, exactly the bytes of the block are zeroed. \<^verbatim>\<open>posix_memalign\<close> stores the block it gets and
  returns 0 iff there is one.
\<close>

theorem calloc_correct:
  fixes mal :: "u64 \<Rightarrow> mem \<Rightarrow> u64 \<times> mem"
  shows "(if unat nmemb * unat sz < 2 ^ 64 then
      \<exists>p m1. mal (of_nat (unat nmemb * unat sz)) m = (p, m1) \<and> fst (calloc mal nmemb sz m) = p \<and>
        (\<forall>a. snd (calloc mal nmemb sz m) a = (if p \<noteq> 0 \<and> inside p (unat nmemb * unat sz) a then 0 else m1 a))
    else calloc mal nmemb sz m = (0, m)) \<and>
    (\<exists>p m1. mal sz m = (p, m1) \<and> posix_memalign mal memptr al sz m = (if p = 0 then ENOMEM else 0, store64 m1 memptr p))"
proof (intro conjI)
  have "load64 (store64 m1 memptr p) memptr = p" for m1 p using load_le_store_le_same [of 8] by (simp add: take_bit_word_eq_self)
  then show "\<exists>p m1. mal sz m = (p, m1) \<and> posix_memalign mal memptr al sz m = (if p = 0 then ENOMEM else 0, store64 m1 memptr p)"
    by (cases "mal sz m") (simp add: posix_memalign_def)
  show "if unat nmemb * unat sz < 2 ^ 64 then
      \<exists>p m1. mal (of_nat (unat nmemb * unat sz)) m = (p, m1) \<and> fst (calloc mal nmemb sz m) = p \<and>
        (\<forall>a. snd (calloc mal nmemb sz m) a = (if p \<noteq> 0 \<and> inside p (unat nmemb * unat sz) a then 0 else m1 a))
    else calloc mal nmemb sz m = (0, m)"
  proof (cases "unat nmemb * unat sz < 2 ^ 64")
    case True
    have l: "nmemb * sz = of_nat (unat nmemb * unat sz)" by simp
    have u: "unat (nmemb * sz) = unat nmemb * unat sz" using True by (rule unat_mult_64)
    have ok: "\<not> (sz \<noteq> 0 \<and> nmemb * sz div sz \<noteq> nmemb)" using product_check [of sz nmemb] True by blast
    obtain p m1 where p: "mal (nmemb * sz) m = (p, m1)" by (cases "mal (nmemb * sz) m")
    have c: "calloc mal nmemb sz m = (if p \<noteq> 0 then (p, snd (memset p 0 (nmemb * sz) m1)) else (p, m1))"
      unfolding calloc_def Let_def p using ok by (simp only: if_False split_conv)
    have "snd (calloc mal nmemb sz m) a = (if p \<noteq> 0 \<and> inside p (unat nmemb * unat sz) a then 0 else m1 a)" for a
      using memset_loop_at [of "unat nmemb * unat sz" p 0 0 m1 a] True
      by (simp add: c memset_def u inside_def)
    moreover have "fst (calloc mal nmemb sz m) = p" by (simp add: c)
    ultimately show ?thesis using True p unfolding l by auto
  next
    case False
    then have "sz \<noteq> 0" by auto
    then have "nmemb * sz div sz \<noteq> nmemb" using product_check False by blast
    then show ?thesis using False \<open>sz \<noteq> 0\<close> by (simp add: calloc_def Let_def)
  qed
qed

end
