(* ===== verification/Libc_Env.thy ===== *)
theory Libc_Env
  imports Libc_Builtin Libc_String_Loops
begin

text \<open>
  The environment of \<^verbatim>\<open>stdlib.c\<close>. \<^verbatim>\<open>__fc_env\<close> is a list of pointers, null before the first call, and
  \<^verbatim>\<open>__fc_env_strings\<close> a buffer of the memory, whose address is a parameter. A call that does not return
  because a name has no end has the result \<open>None\<close>. The annotations of the functions are not code.
\<close>

section \<open>Definitions\<close>

abbreviation C_ARG_MAX :: nat where "C_ARG_MAX \<equiv> 4096"

abbreviation FC_INITENV_LEN :: int where "FC_INITENV_LEN \<equiv> 64"

record env_state = libc_state +
  fc_env :: "u64 list"
  env_init :: bool

definition set_env :: "int \<Rightarrow> u64 \<Rightarrow> ('a env_state_scheme, unit) state" where
  "set_env i p = State_Monad.update (\<lambda>s. s\<lparr>fc_env := (fc_env s)[nat i := p]\<rparr>)"

definition some_string :: "u64 \<Rightarrow> ('a env_state_scheme, u64) state" where
  "some_string strings = do {
     i \<leftarrow> Frama_C_interval 0 (FC_INITENV_LEN - 1);
     State_Monad.return (strings + word_of_int i) }"

text \<open>The loop of \<^verbatim>\<open>__fc_initenv\<close>, with the number of iterations left.\<close>

fun initenv_loop :: "u64 \<Rightarrow> nat \<Rightarrow> int \<Rightarrow> ('a env_state_scheme, unit) state" where
  "initenv_loop strings 0 i = State_Monad.return ()"
| "initenv_loop strings (Suc k) i = do {
     p \<leftarrow> some_string strings;
     set_env i p;
     initenv_loop strings k (i + 1) }"

definition fc_initenv :: "u64 \<Rightarrow> ('a env_state_scheme, unit) state" where
  "fc_initenv strings = do {
     s \<leftarrow> State_Monad.get;
     if \<not> env_init s then do {
       Frama_C_make_unknown strings (word_of_int (FC_INITENV_LEN - 1));
       initenv_loop strings C_ARG_MAX 0;
       State_Monad.update (\<lambda>s. s\<lparr>env_init := True\<rparr>) }
     else State_Monad.return () }"

definition getenv :: "u64 \<Rightarrow> u64 \<Rightarrow> ('a env_state_scheme, u64) state" where
  "getenv strings name = do {
     fc_initenv strings;
     b \<leftarrow> Frama_C_nondet 0 1;
     if b \<noteq> 0 then do {
       i \<leftarrow> Frama_C_interval 0 (int C_ARG_MAX - 1);
       s \<leftarrow> State_Monad.get;
       State_Monad.return (fc_env s ! nat i) }
     else State_Monad.return 0 }"

definition putenv :: "u64 \<Rightarrow> u64 \<Rightarrow> ('a env_state_scheme, int option) state" where
  "putenv strings str = do {
     s \<leftarrow> State_Monad.get;
     case strchr str 61 (lmem s) of
       None \<Rightarrow> State_Monad.return None
     | Some separator \<Rightarrow> do {
         fc_initenv strings;
         b \<leftarrow> Frama_C_nondet 0 1;
         if b \<noteq> 0 then do {
           b \<leftarrow> Frama_C_nondet 0 1;
           if b \<noteq> 0 then do {
             r \<leftarrow> Frama_C_interval (- (2 ^ 31)) (2 ^ 31 - 1);
             State_Monad.return (Some r) }
           else do {
             i \<leftarrow> Frama_C_interval 0 (int C_ARG_MAX - 1);
             set_env i str;
             State_Monad.return (Some 0) } }
         else State_Monad.return (Some 0) } }"

text \<open>The check of a name that starts \<^verbatim>\<open>setenv\<close> and \<^verbatim>\<open>unsetenv\<close>: whether the name is rejected.\<close>

definition bad_name :: "u64 \<Rightarrow> mem \<Rightarrow> bool option" where
  "bad_name name m = do {
     p \<leftarrow> strchr name 61 m;
     if p \<noteq> 0 then Some True
     else do {
       namelen \<leftarrow> strlen name m;
       Some (namelen = 0) } }"

definition setenv :: "u64 \<Rightarrow> u64 \<Rightarrow> u64 \<Rightarrow> int \<Rightarrow> ('a env_state_scheme, int option) state" where
  "setenv strings name val overwrite = do {
     s \<leftarrow> State_Monad.get;
     case bad_name name (lmem s) of
       None \<Rightarrow> State_Monad.return None
     | Some True \<Rightarrow> State_Monad.return (Some (- 1))
     | Some False \<Rightarrow> do {
         fc_initenv strings;
         b \<leftarrow> Frama_C_nondet 0 1;
         if b \<noteq> 0 then State_Monad.return (Some (- 1))
         else do {
           b \<leftarrow> Frama_C_nondet 0 1;
           (if b \<noteq> 0 then Frama_C_make_unknown strings (word_of_int (FC_INITENV_LEN - 1)) else State_Monad.return ());
           i \<leftarrow> Frama_C_interval 0 (int C_ARG_MAX - 1);
           p \<leftarrow> some_string strings;
           set_env i p;
           State_Monad.return (Some 0) } } }"

definition unsetenv :: "u64 \<Rightarrow> u64 \<Rightarrow> ('a env_state_scheme, int option) state" where
  "unsetenv strings name = do {
     s \<leftarrow> State_Monad.get;
     case bad_name name (lmem s) of
       None \<Rightarrow> State_Monad.return None
     | Some True \<Rightarrow> State_Monad.return (Some (- 1))
     | Some False \<Rightarrow> do {
         fc_initenv strings;
         b \<leftarrow> Frama_C_nondet 0 1;
         if b \<noteq> 0 then do {
           i \<leftarrow> Frama_C_interval 0 (int C_ARG_MAX - 1);
           set_env i 0;
           State_Monad.return (Some 0) }
         else State_Monad.return (Some 0) } }"

section \<open>Contracts of computations\<close>

text \<open>\<open>ensures P c Q\<close>: from a state with \<open>P\<close> the computation ends in one with \<open>P\<close>, with a result in \<open>Q\<close>.\<close>

definition ensures :: "('s \<Rightarrow> bool) \<Rightarrow> ('s, 'a) state \<Rightarrow> ('a \<Rightarrow> bool) \<Rightarrow> bool" where
  "ensures P c Q \<longleftrightarrow> (\<forall>s. P s \<longrightarrow> (case run_state c s of (r, s') \<Rightarrow> Q r \<and> P s'))"

named_theorems wp

lemma ensures_return [wp]: "Q r \<Longrightarrow> ensures P (State_Monad.return r) Q"
  by (simp add: ensures_def)

lemma ensures_bind: "ensures P c R \<Longrightarrow> (\<And>r. R r \<Longrightarrow> ensures P (f r) Q) \<Longrightarrow> ensures P (State_Monad.bind c f) Q"
proof -
  assume c: "ensures P c R" and f: "\<And>r. R r \<Longrightarrow> ensures P (f r) Q"
  show ?thesis
    unfolding ensures_def
  proof (intro allI impI)
    fix s
    assume "P s"
    obtain r s1 where r: "run_state c s = (r, s1)" by (cases "run_state c s")
    then have "R r" "P s1" using c \<open>P s\<close> by (auto simp: ensures_def)
    then show "case run_state (State_Monad.bind c f) s of (r, s') \<Rightarrow> Q r \<and> P s'"
      using f [of r] by (simp add: ensures_def r)
  qed
qed

lemma ensures_get: "(\<And>s. P s \<Longrightarrow> ensures P (f s) Q) \<Longrightarrow> ensures P (State_Monad.bind State_Monad.get f) Q"
  by (simp add: ensures_def State_Monad.get_def split: prod.splits)

lemma ensures_if [wp]: "(b \<Longrightarrow> ensures P c Q) \<Longrightarrow> (\<not> b \<Longrightarrow> ensures P d Q) \<Longrightarrow> ensures P (if b then c else d) Q"
  by simp

lemma ensures_update [wp]: "(\<And>s. P s \<Longrightarrow> P (f s)) \<Longrightarrow> ensures P (State_Monad.update f) (\<lambda>_. True)"
  by (simp add: ensures_def State_Monad.update_def State_Monad.get_def State_Monad.set_def)

lemma ensures_weaken: "ensures P c Q \<Longrightarrow> (\<And>r. Q r \<Longrightarrow> Q' r) \<Longrightarrow> ensures P c Q'"
  by (auto simp: ensures_def split: prod.splits)

section \<open>The invariant\<close>

text \<open>
  What holds between two calls: there are \<^verbatim>\<open>ARG_MAX\<close> entries, each null, in the buffer, or one of the
  strings \<open>ps\<close> the program has put, the memory outside the buffer is \<open>m\<close>, and the last byte of the
  buffer, which is not overwritten, is null.
\<close>

definition env_entry :: "u64 \<Rightarrow> u64 set \<Rightarrow> u64 \<Rightarrow> bool" where
  "env_entry strings ps e \<longleftrightarrow> e = 0 \<or> inside strings 64 e \<or> e \<in> ps"

definition env_inv :: "u64 \<Rightarrow> u64 set \<Rightarrow> mem \<Rightarrow> 'a env_state_scheme \<Rightarrow> bool" where
  "env_inv strings ps m s \<longleftrightarrow> length (fc_env s) = C_ARG_MAX \<and> (\<forall>e \<in> set (fc_env s). env_entry strings ps e) \<and>
     (\<forall>a. \<not> inside strings 63 a \<longrightarrow> lmem s a = m a) \<and> m (strings + 63) = 0"

lemma env_inv_entropy [simp]: "env_inv strings ps m (s\<lparr>entropy := e\<rparr>) = env_inv strings ps m s"
  by (simp add: env_inv_def)

lemma ensures_interval: "lo \<le> hi \<Longrightarrow> ensures (env_inv strings ps m) (Frama_C_interval lo hi) (\<lambda>i. lo \<le> i \<and> i \<le> hi)"
  by (simp add: ensures_def run_interval)

lemma ensures_nondet: "ensures (env_inv strings ps m) (Frama_C_nondet a b) (\<lambda>_. True)"
  by (simp add: ensures_def)

lemma buffer_offset: "0 \<le> i \<Longrightarrow> i < 64 \<Longrightarrow> inside strings 64 (strings + word_of_int i)"
proof -
  assume i: "0 \<le> i" "i < 64"
  then have "uint (word_of_int i :: u64) = i" by (simp add: uint_word_of_int)
  then have "unat (word_of_int i :: u64) < 64" using i by (simp add: unat_eq_nat_uint del: uint_word_of_int)
  then show ?thesis by (simp add: inside_def)
qed

lemma ensures_set_env: "env_entry strings ps p \<Longrightarrow> ensures (env_inv strings ps m) (set_env i p) (\<lambda>_. True)"
  unfolding set_env_def
  by (rule ensures_update) (auto simp: env_inv_def dest!: set_update_subset_insert [THEN subsetD])

lemma ensures_some_string: "ensures (env_inv strings ps m) (some_string strings) (env_entry strings ps)"
  unfolding some_string_def
  by (rule ensures_bind [OF ensures_interval]) (auto intro!: ensures_return simp: env_entry_def buffer_offset)

lemma ensures_make_unknown:
  "ensures (env_inv strings ps m) (Frama_C_make_unknown strings (word_of_int (FC_INITENV_LEN - 1))) (\<lambda>_. True)"
  by (simp add: ensures_def Frama_C_make_unknown_def run_make_unknown_loop env_inv_def inside_def)

lemma ensures_initenv_loop: "ensures (env_inv strings ps m) (initenv_loop strings k i) (\<lambda>_. True)"
proof (induction k arbitrary: i)
  case 0
  then show ?case by (simp add: ensures_return)
next
  case (Suc k)
  then show ?case by (auto intro!: ensures_bind [OF ensures_some_string] ensures_bind [OF ensures_set_env])
qed

lemma ensures_initenv: "ensures (env_inv strings ps m) (fc_initenv strings) (\<lambda>_. True)"
  unfolding fc_initenv_def
  by (intro ensures_get ensures_if ensures_bind [OF ensures_make_unknown] ensures_bind [OF ensures_initenv_loop] ensures_update ensures_return)
    (simp_all add: env_inv_def)

lemmas env_steps = ensures_get ensures_if ensures_return ensures_bind [OF ensures_initenv] ensures_bind [OF ensures_nondet]
  ensures_bind [OF ensures_interval] ensures_bind [OF ensures_some_string] ensures_bind [OF ensures_set_env]

lemma env_inv_entry: "env_inv strings ps m s \<Longrightarrow> 0 \<le> i \<Longrightarrow> i \<le> int C_ARG_MAX - 1 \<Longrightarrow> env_entry strings ps (fc_env s ! nat i)"
  by (auto simp: env_inv_def)

lemma ensures_getenv: "ensures (env_inv strings ps m) (getenv strings name) (env_entry strings ps)"
  unfolding getenv_def by (intro env_steps) (auto intro: env_inv_entry simp: env_entry_def [of _ _ 0])

lemma ensures_putenv: "ensures (env_inv strings (insert str ps) m) (putenv strings str) (\<lambda>_. True)"
  unfolding putenv_def
  by (rule ensures_get) (auto intro!: env_steps simp: env_entry_def split: option.splits)

lemma ensures_setenv: "ensures (env_inv strings ps m) (setenv strings name val ov) (\<lambda>r. r \<in> {None, Some 0, Some (- 1)})"
proof -
  have u: "ensures (env_inv strings ps m) (if b then Frama_C_make_unknown strings (word_of_int (FC_INITENV_LEN - 1)) else State_Monad.return ())
      (\<lambda>_. True)" for b
    by (intro ensures_if ensures_make_unknown ensures_return TrueI)
  show ?thesis
    unfolding setenv_def
    by (rule ensures_get) (auto intro!: env_steps ensures_bind [OF u] split: option.splits bool.splits)
qed

lemma ensures_unsetenv: "ensures (env_inv strings ps m) (unsetenv strings name) (\<lambda>r. r \<in> {None, Some 0, Some (- 1)})"
  unfolding unsetenv_def
  by (rule ensures_get) (auto intro!: env_steps simp: env_entry_def split: option.splits bool.splits)

section \<open>Programs that use the environment\<close>

text \<open>
  The states a program can reach by calls of the four functions, with any drawn values, and by its own
  writes outside the buffer.
\<close>

inductive env_reach :: "u64 \<Rightarrow> u64 set \<Rightarrow> env_state \<Rightarrow> bool" for strings :: u64 where
  start: "fc_env s = replicate C_ARG_MAX 0 \<Longrightarrow> \<not> env_init s \<Longrightarrow> (\<And>a. inside strings 64 a \<Longrightarrow> lmem s a = 0) \<Longrightarrow> env_reach strings {} s"
| getenv: "env_reach strings ps s \<Longrightarrow> run_state (getenv strings name) s = (p, s') \<Longrightarrow> env_reach strings ps s'"
| putenv: "env_reach strings ps s \<Longrightarrow> run_state (putenv strings str) s = (Some r, s') \<Longrightarrow> env_reach strings (insert str ps) s'"
| setenv: "env_reach strings ps s \<Longrightarrow> run_state (setenv strings name val ov) s = (Some r, s') \<Longrightarrow> env_reach strings ps s'"
| unsetenv: "env_reach strings ps s \<Longrightarrow> run_state (unsetenv strings name) s = (Some r, s') \<Longrightarrow> env_reach strings ps s'"
| other: "env_reach strings ps s \<Longrightarrow> \<not> inside strings 64 a \<Longrightarrow> env_reach strings ps (s\<lparr>lmem := (lmem s)(a := c)\<rparr>)"

lemma ensuresD: "ensures P c Q \<Longrightarrow> P s \<Longrightarrow> run_state c s = (r, s') \<Longrightarrow> Q r \<and> P s'"
  by (fastforce simp: ensures_def)

lemma env_inv_refl: "env_inv strings ps m s \<Longrightarrow> env_inv strings ps (lmem s) s"
  by (simp add: env_inv_def inside_def)

lemma env_inv_put: "env_inv strings ps m s \<Longrightarrow> env_inv strings (insert p ps) m s"
  by (auto simp: env_inv_def env_entry_def)

lemma env_reach_inv: "env_reach strings ps s \<Longrightarrow> env_inv strings ps (lmem s) s"
proof (induction rule: env_reach.induct)
  case (start s)
  then show ?case by (simp add: env_inv_def env_entry_def inside_def)
next
  case (getenv ps s name p s')
  then show ?case using ensuresD [OF ensures_getenv] env_inv_refl by blast
next
  case (putenv ps s str r s')
  then show ?case using ensuresD [OF ensures_putenv] env_inv_refl env_inv_put by blast
next
  case (setenv ps s name val ov r s')
  then show ?case using ensuresD [OF ensures_setenv] env_inv_refl by blast
next
  case (unsetenv ps s name r s')
  then show ?case using ensuresD [OF ensures_unsetenv] env_inv_refl by blast
next
  case (other ps s a c)
  then show ?case by (auto simp: env_inv_def inside_def)
qed

lemma buffer_terminated:
  assumes "m (strings + 63) = 0" and "inside strings 64 p"
  shows "\<exists>k<64. terminated m p k \<and> inside strings 64 (p + of_nat k)"
proof -
  define d where "d = unat (p - strings)"
  have d: "d < 64" using assms(2) by (simp add: d_def inside_def)
  have p: "p = strings + of_nat d" by (simp add: d_def)
  have "p + of_nat (63 - d) = strings + of_nat (d + (63 - d))" unfolding p by (simp add: add.assoc)
  moreover have "d + (63 - d) = 63" using d by simp
  ultimately have "m (p + of_nat (63 - d)) = 0" using assms(1) by (simp only: of_nat_numeral)
  then obtain k where k: "k \<le> 63 - d" "terminated m p k" using ex_terminated by blast
  have "p + of_nat k - strings = of_nat (d + k)" unfolding p by simp
  moreover have "unat (of_nat (d + k) :: u64) = d + k" using k d by (intro unat_of_nat_64) simp
  ultimately have "unat (p + of_nat k - strings) = d + k" by (simp only:)
  then have "inside strings 64 (p + of_nat k)" using k(1) d unfolding inside_def by linarith
  then show ?thesis using k d by (intro exI [of _ k]) simp
qed

lemma bad_name_iff:
  assumes "terminated m name k" and "\<And>j. j \<le> k \<Longrightarrow> name + of_nat j \<noteq> 0"
  shows "bad_name name m = Some (k = 0 \<or> (\<exists>j<k. m (name + of_nat j) = 61))"
proof -
  have t: "m (name + of_nat k) = 0" "\<And>j. j < k \<Longrightarrow> m (name + of_nat j) \<noteq> 0" using assms(1) by (simp_all add: terminated_def)
  have l: "strlen name m = Some (of_nat k)" by (rule strlen_eq [OF assms(1)])
  have z: "(of_nat k :: u64) = 0 \<longleftrightarrow> k = 0"
    using terminated_less [OF assms(1)] unat_of_nat_64 [of k] by (cases "k = 0") (auto simp: word_unat_eq_iff)
  show ?thesis
  proof (cases "\<exists>j<k. m (name + of_nat j) = 61")
    case True
    then obtain i where i: "i < k" "m (name + of_nat i) = 61" by blast
    obtain j where "j \<le> i" and j: "m (name + of_nat j) = 61" "\<And>i. i < j \<Longrightarrow> m (name + of_nat i) \<noteq> 61"
      using i(2) by (rule first_index [of "\<lambda>i. m (name + of_nat i) = 61"]) blast
    then have lt: "j < k" using i(1) by simp
    then have "strchr name 61 m = Some (name + of_nat j)"
      using strchr_loop_steps [of j m name 0 61] t(2) j by (simp add: strchr_def)
    then show ?thesis using assms(2) [of j] lt True by (simp add: bad_name_def)
  next
    case False
    then have "strchr name 61 m = Some 0" using strchr_loop_steps [of k m name 0 61] t by (simp add: strchr_def)
    then show ?thesis using False l z by (auto simp: bad_name_def)
  qed
qed

section \<open>The first call\<close>

text \<open>The first call of \<^verbatim>\<open>__fc_initenv\<close> gives every entry a pointer into the buffer; a later call has no effect.\<close>

lemma run_some_string: "\<exists>p e. run_state (some_string strings) s = (p, s\<lparr>entropy := e\<rparr>) \<and> inside strings 64 p"
proof -
  have "\<exists>e. after_draw s = s\<lparr>entropy := e\<rparr>" by blast
  then show ?thesis by (auto simp: some_string_def run_interval buffer_offset)
qed

lemma initenv_loop_fills:
  assumes "length (fc_env s) = i + k" and "\<And>j. j < i \<Longrightarrow> inside strings 64 (fc_env s ! j)"
  shows "\<exists>s'. run_state (initenv_loop strings k (int i)) s = ((), s') \<and> length (fc_env s') = i + k \<and>
    (\<forall>j<i + k. inside strings 64 (fc_env s' ! j))"
  using assms
proof (induction k arbitrary: i s)
  case (Suc k)
  obtain p e where p: "run_state (some_string strings) s = (p, s\<lparr>entropy := e\<rparr>)" "inside strings 64 p"
    using run_some_string by blast
  let ?s = "s\<lparr>entropy := e, fc_env := (fc_env s)[i := p]\<rparr>"
  have "\<exists>s'. run_state (initenv_loop strings k (int (i + 1))) ?s = ((), s') \<and> length (fc_env s') = i + 1 + k \<and>
      (\<forall>j<i + 1 + k. inside strings 64 (fc_env s' ! j))"
  proof (rule Suc.IH)
    fix j assume "j < i + 1"
    then show "inside strings 64 (fc_env ?s ! j)" using Suc.prems p(2) by (cases "j = i") simp_all
  qed (use Suc.prems in simp)
  then show ?case using p(1) by (simp add: set_env_def State_Monad.update_def State_Monad.get_def State_Monad.set_def ac_simps)
qed simp

lemma initenv_first:
  assumes "\<not> env_init s" and "length (fc_env s) = C_ARG_MAX"
  shows "\<exists>s'. run_state (fc_initenv strings) s = ((), s') \<and> env_init s' \<and> (\<forall>e \<in> set (fc_env s'). inside strings 64 e)"
proof -
  obtain s1 where s1: "run_state (Frama_C_make_unknown strings (word_of_int (FC_INITENV_LEN - 1))) s = ((), s1)" "fc_env s1 = fc_env s"
    by (simp add: Frama_C_make_unknown_def run_make_unknown_loop)
  obtain s2 where s2: "run_state (initenv_loop strings C_ARG_MAX (int 0)) s1 = ((), s2)" "length (fc_env s2) = 0 + C_ARG_MAX"
      "\<forall>j<0 + C_ARG_MAX. inside strings 64 (fc_env s2 ! j)"
    using initenv_loop_fills [of s1 0 C_ARG_MAX strings] s1(2) assms(2) by auto
  have "run_state (fc_initenv strings) s = ((), s2\<lparr>env_init := True\<rparr>)"
    using assms(1) s1(1) s2(1) by (simp add: fc_initenv_def State_Monad.get_def State_Monad.update_def State_Monad.set_def)
  then show ?thesis using s2(2,3) by (auto simp: in_set_conv_nth)
qed

lemma initenv_later: "env_init s \<Longrightarrow> run_state (fc_initenv strings) s = ((), s)"
  by (simp add: fc_initenv_def State_Monad.get_def)

lemma getenv_state:
  assumes "run_state (getenv strings name) s = (p, s')"
  shows "\<exists>e. s' = (snd (run_state (fc_initenv strings) s))\<lparr>entropy := e\<rparr>"
  using assms
  by (auto simp: getenv_def run_interval State_Monad.get_def split: prod.splits if_splits)

section \<open>Safety\<close>


definition ex_environment :: env_state where
  "ex_environment = \<lparr>entropy = sconst 0, lmem = (\<lambda>a. if a = 100 then 65 else 0), fc_env = replicate C_ARG_MAX 0, env_init = False\<rparr>"


end
