(* ===== verification/Segment_Temporal.thy ===== *)
theory Segment_Temporal
  imports Segment_Heap_Props
begin

text \<open>
  Temporal analysis over the segment model. A heap block has the time stamp of its allocation in the
  third word of its shadow, a pointer variable the time stamp of the block it was made to point to in
  its referent shadow; a use of the pointer compares them. The states are related to a map from blocks
  to lengths and stamps and a map from variables to stamps, on which the operations are simple.
\<close>

section \<open>Layouts with temporal shadows\<close>

definition temporal_ok :: "memory_layout \<Rightarrow> bool" where
  "temporal_ok L \<longleftrightarrow> layout_wf L \<and> validate_shadow_layout True L = Inr () \<and>
     (\<forall>p \<in> set (mem_partitions L).
        shadows (application p) (temporal_primary p) 1 \<and> shadows (application p) (temporal_secondary p) 1)"

definition partition_segments :: "memory_partition \<Rightarrow> memory_segment list" where
  "partition_segments p = [application p, primary p, secondary p, temporal_primary p, temporal_secondary p]"

definition t_segments :: "memory_layout \<Rightarrow> memory_segment list" where
  "t_segments L = concat (map partition_segments (mem_partitions L))"

lemma t_segments_simps [simp]:
  "length (t_segments L) = 20"
  "t_segments L ! 0 = application (lay_heap L)" "t_segments L ! 1 = primary (lay_heap L)" "t_segments L ! Suc 0 = primary (lay_heap L)"
  "t_segments L ! 2 = secondary (lay_heap L)" "t_segments L ! 3 = temporal_primary (lay_heap L)"
  "t_segments L ! 5 = application (lay_stack L)" "t_segments L ! 9 = temporal_secondary (lay_stack L)"
  "t_segments L ! 10 = application (lay_global L)" "t_segments L ! 14 = temporal_secondary (lay_global L)"
  "t_segments L ! 15 = application (lay_tls L)" "t_segments L ! 19 = temporal_secondary (lay_tls L)"
  by (simp_all add: t_segments_def mem_partitions_def partition_segments_def)

lemma layout_segments_t: "layout_segments True L = map (\<lambda>sg. (seg_start sg, seg_end sg)) (t_segments L)"
  by (simp add: layout_segments_def t_segments_def mem_partitions_def partition_segments_def)

lemma temporal_ordered: "temporal_ok L \<Longrightarrow> i < 20 \<Longrightarrow> seg_start (t_segments L ! i) < seg_end (t_segments L ! i)"
  unfolding temporal_ok_def validate_iff check_segment_None layout_segments_t by simp

lemma temporal_apart:
  assumes "temporal_ok L" and "i < 20" and "j < 20" and "i \<noteq> j"
  shows "seg_end (t_segments L ! i) < seg_start (t_segments L ! j) \<or> seg_start (t_segments L ! i) > seg_end (t_segments L ! j)"
  using assms unfolding temporal_ok_def validate_iff check_segment_None layout_segments_t by simp

lemma temporal_disjoint:
  assumes "temporal_ok L" and "IS_ON a (t_segments L ! i)" and "IS_ON a (t_segments L ! j)" and "i < 20" and "j < 20"
  shows "i = j"
proof (rule ccontr)
  assume "i \<noteq> j"
  from temporal_apart [OF assms(1,4,5) this] show False using assms(2,3) by (auto simp: IS_ON_def)
qed

text \<open>The segments without the temporal ones are laid out well, too.\<close>

lemma all_segments_t: "i < 12 \<Longrightarrow> all_segments L ! i = t_segments L ! (5 * (i div 3) + i mod 3)"
proof -
  assume "i < 12"
  then have "i \<in> set [0, 1, 2, 3, 4, 5, 6, 7, 8, 9, 10, 11]" by simp presburger
  then show ?thesis by (auto simp: all_segments_def t_segments_def mem_partitions_def partition_segments_def)
qed

lemma temporal_layout_ok: "temporal_ok L \<Longrightarrow> layout_ok L"
proof -
  assume ok: "temporal_ok L"
  have s: "layout_segments False L = map (\<lambda>sg. (seg_start sg, seg_end sg)) (all_segments L)" "length (all_segments L) = 12"
    by (simp_all add: nth_layout_segments all_segments_def)
  define f where "f i = 5 * (i div 3) + i mod 3" for i :: nat
  have f: "f i < 20" if "i < 12" for i
  proof -
    have "i div 3 < 4" using that by (simp add: less_mult_imp_div_less)
    moreover have "i mod 3 < 3" by simp
    ultimately show ?thesis unfolding f_def by linarith
  qed
  have fd: "f i div 5 = i div 3" "f i mod 5 = i mod 3" for i
  proof -
    have "i mod 3 < 5" using mod_less_divisor [of 3 i] by linarith
    then show "f i div 5 = i div 3" "f i mod 5 = i mod 3" unfolding f_def by simp_all
  qed
  have "i = j" if "f i = f j" for i j
    using fd [of i] fd [of j] that div_mult_mod_eq [of i 3] div_mult_mod_eq [of j 3] by simp
  then have "seg_end (all_segments L ! i) < seg_start (all_segments L ! j) \<or> seg_start (all_segments L ! i) > seg_end (all_segments L ! j)"
    if "i < 12" "j < 12" "i \<noteq> j" for i j
    using temporal_apart [OF ok f f] all_segments_t that unfolding f_def [symmetric] by metis
  moreover have "seg_start (all_segments L ! i) < seg_end (all_segments L ! i)" if "i < 12" for i
    using temporal_ordered [OF ok f] all_segments_t that unfolding f_def [symmetric] by metis
  ultimately have "validate_shadow_layout False L = Inr ()"
    using ok unfolding temporal_ok_def validate_iff check_segment_None s by (simp add: s(2))
  then show ?thesis using ok by (simp add: layout_ok_def temporal_ok_def)
qed

text \<open>The start-up functions of the temporal build set up such shadows.\<close>

lemma init_layout_temporal:
  assumes "\<And>h. mspace_malloc1 P h \<noteq> 0"
    and "init_shadow_layout_heap_global_tls P pr True sp L0 = Inr L1"
    and "init_shadow_layout_stack P pr True L1 = Inr L"
    and "validate_shadow_layout True L = Inr ()"
  shows "temporal_ok L"
proof -
  have sh: "shadows app (temporal_primary (shadow_partition P True app r1 r2)) 1"
    "shadows app (temporal_secondary (shadow_partition P True app r1 r2)) 1"
    if "seg_end app = seg_start app + seg_size app" for app r1 r2
    using that assms(1) by (simp_all add: shadow_partition_def set_shadow_segment_shadows)
  have app: "seg_end (set_application_segment a n nm h) =
      seg_start (set_application_segment a n nm h) + seg_size (set_application_segment a n nm h)" for a n nm h
    by (simp add: set_application_segment_def)
  have "\<forall>p \<in> set (mem_partitions L).
      shadows (application p) (temporal_primary p) 1 \<and> shadows (application p) (temporal_secondary p) 1"
    using assms(2,3) sh [OF app] shadow_partition_wf(1) [OF app assms(1)]
    by (auto simp: init_shadow_layout_heap_global_tls_def init_shadow_layout_stack_def Let_def mem_partitions_def split: sum.splits)
  then show ?thesis using init_layout_wf [OF assms(1-3)] assms(4) by (simp add: temporal_ok_def)
qed

section \<open>Referent shadows\<close>

text \<open>Where the referent of the pointer variable at \<open>v\<close> is kept, and the segment of that address.\<close>

definition ref_shadow :: "memory_layout \<Rightarrow> u64 \<Rightarrow> u64" where
  "ref_shadow L v = (if IS_ON_HEAP L v then TEMPORAL_HEAP_SHADOW L v else TEMPORAL_SECONDARY_STATIC_SHADOW L v)"

definition app_index :: "memory_layout \<Rightarrow> u64 \<Rightarrow> nat" where
  "app_index L v = (if IS_ON_HEAP L v then 0 else if IS_ON_STACK L v then 5 else if IS_ON_GLOBAL L v then 10 else 15)"

definition ref_index :: "memory_layout \<Rightarrow> u64 \<Rightarrow> nat" where
  "ref_index L v = (if IS_ON_HEAP L v then 3 else app_index L v + 4)"

text \<open>A variable of four aligned bytes in the heap or in one static segment.\<close>

definition var_ok :: "memory_layout \<Rightarrow> u64 \<Rightarrow> bool" where
  "var_ok L v \<longleftrightarrow> unat v mod 4 = 0 \<and> (heap_addr L v \<or> static_block L v 4)"

lemma ref_index_less: "ref_index L v < 20" "app_index L v < 20"
  by (simp_all add: ref_index_def app_index_def)

lemma ref_index_simps: "t_segments L ! ref_index L v = (if IS_ON_HEAP L v then temporal_primary (lay_heap L)
    else if IS_ON_STACK L v then temporal_secondary (lay_stack L)
    else if IS_ON_GLOBAL L v then temporal_secondary (lay_global L) else temporal_secondary (lay_tls L))"
  by (simp add: ref_index_def app_index_def)

lemma ref_shadow_eq:
  assumes "IS_ON_HEAP L v \<or> IS_ON_STATIC L v"
  shows "ref_shadow L v = v - shadow_offset (t_segments L ! ref_index L v)"
  using assms
  by (auto simp: ref_index_simps ref_shadow_def TEMPORAL_HEAP_SHADOW_def TEMPORAL_SECONDARY_STATIC_SHADOW_def SHADOW_REGION_ADDRESS_def
      SHADOW_ACCESS_def IS_ON_STATIC_def)

lemma app_index_on:
  assumes "IS_ON_HEAP L v \<or> IS_ON_STATIC L v"
  shows "IS_ON v (t_segments L ! app_index L v)"
  using assms by (auto simp: app_index_def IS_ON_HEAP_def IS_ON_STATIC_def IS_ON_STACK_def IS_ON_GLOBAL_def IS_ON_TLS_def)

lemma ref_shadow_on:
  assumes "temporal_ok L" and "IS_ON_HEAP L v \<or> IS_ON_STATIC L v"
  shows "IS_ON (ref_shadow L v) (t_segments L ! ref_index L v)" and "ref_shadow L v \<noteq> 0"
proof -
  have sh: "shadows (t_segments L ! app_index L v) (t_segments L ! ref_index L v) 1"
    using assms(1) by (simp add: temporal_ok_def mem_partitions_def app_index_def ref_index_simps)
  note o = temporal_ordered [OF assms(1) ref_index_less(2)] temporal_ordered [OF assms(1) ref_index_less(1)]
  show "IS_ON (ref_shadow L v) (t_segments L ! ref_index L v)" "ref_shadow L v \<noteq> 0"
    unfolding ref_shadow_eq [OF assms(2)] using shadow_on(1,2) [OF sh app_index_on [OF assms(2)] o] by simp_all
qed

text \<open>The bytes of a variable lie in the same segment as its first one.\<close>

lemma app_index_unique:
  assumes "temporal_ok L" and "IS_ON_HEAP L v \<or> IS_ON_STATIC L v" and "IS_ON v (t_segments L ! k)" and "k < 20"
  shows "app_index L v = k"
  using temporal_disjoint [OF assms(1) app_index_on [OF assms(2)] assms(3) ref_index_less(2) assms(4)] .

lemma app_index_0: "app_index L v = 0 \<longleftrightarrow> IS_ON_HEAP L v"
  by (simp add: app_index_def)

lemma var_bytes:
  assumes "temporal_ok L" and "heap_aligned L" and "var_ok L v" and "i < 4"
  shows "unat (v + of_nat i) = unat v + i" and "IS_ON_HEAP L (v + of_nat i) \<or> IS_ON_STATIC L (v + of_nat i)"
    and "app_index L (v + of_nat i) = app_index L v" and "ref_shadow L (v + of_nat i) = ref_shadow L v + of_nat i"
proof -
  have ex: "\<exists>k<20. seg_start (t_segments L ! k) \<le> v \<and> unat v + 3 \<le> unat (seg_end (t_segments L ! k)) \<and> k \<in> {0, 5, 10, 15}"
  proof (cases "heap_addr L v")
    case True
    let ?e = "seg_end (application (lay_heap L))"
    have "unat v mod 4 = 0" "unat ?e mod 4 = 0" "unat v < unat ?e"
      using assms(2,3) True by (auto simp: var_ok_def heap_aligned_def heap_addr_def word_less_nat_alt)
    then have "unat v + 3 \<le> unat ?e" by presburger
    then show ?thesis using True by (intro exI [of _ 0]) (simp add: heap_addr_def HEAP_START_def)
  next
    case False
    then have "static_block L v 4" using assms(3) by (simp add: var_ok_def)
    then consider "seg_start (application (lay_stack L)) \<le> v" "unat v + 4 \<le> unat (seg_end (application (lay_stack L)))"
      | "seg_start (application (lay_global L)) \<le> v" "unat v + 4 \<le> unat (seg_end (application (lay_global L)))"
      | "seg_start (application (lay_tls L)) \<le> v" "unat v + 4 \<le> unat (seg_end (application (lay_tls L)))"
      by (auto simp: static_block_def)
    then show ?thesis
    proof cases
      case 1
      then show ?thesis by (intro exI [of _ 5]) simp
    next
      case 2
      then show ?thesis by (intro exI [of _ 10]) simp
    next
      case 3
      then show ?thesis by (intro exI [of _ 15]) simp
    qed
  qed
  then obtain k where k: "k < 20" "seg_start (t_segments L ! k) \<le> v" "unat v + 3 \<le> unat (seg_end (t_segments L ! k))" "k \<in> {0, 5, 10, 15}"
    by blast
  have u: "unat (v + of_nat j) = unat v + j" if "j < 4" for j
  proof -
    have "unat (of_nat j :: u64) = j" using that by (intro unat_of_nat_64) simp
    then show ?thesis using that k(3) unat_lt_64 [of "seg_end (t_segments L ! k)"] unat_add_64 [of v "of_nat j"] by simp
  qed
  have on: "IS_ON (v + of_nat j) (t_segments L ! k)" if "j < 4" for j
    using k(2,3) u [OF that] that by (simp add: IS_ON_def word_le_nat_alt)
  have hs: "IS_ON_HEAP L (v + of_nat j) \<or> IS_ON_STATIC L (v + of_nat j)" if "j < 4" for j
    using on [OF that] k(4) by (auto simp: IS_ON_HEAP_def IS_ON_STATIC_def IS_ON_STACK_def IS_ON_GLOBAL_def IS_ON_TLS_def)
  have ix: "app_index L (v + of_nat j) = k" if "j < 4" for j by (rule app_index_unique [OF assms(1) hs [OF that] on [OF that] k(1)])
  show "unat (v + of_nat i) = unat v + i" "IS_ON_HEAP L (v + of_nat i) \<or> IS_ON_STATIC L (v + of_nat i)"
    using u hs assms(4) by blast+
  show a: "app_index L (v + of_nat i) = app_index L v" using ix [OF assms(4)] ix [of 0] by simp
  then have "IS_ON_HEAP L (v + of_nat i) = IS_ON_HEAP L v" by (metis app_index_0)
  then have "ref_index L (v + of_nat i) = ref_index L v" using a by (simp add: ref_index_def)
  then show "ref_shadow L (v + of_nat i) = ref_shadow L v + of_nat i"
    using ref_shadow_eq [OF hs [OF assms(4)]] ref_shadow_eq [of L v] hs [of 0] by simp
qed

text \<open>The referents of different variables do not share a byte.\<close>

lemma ref_bytes_apart:
  assumes "temporal_ok L" and "heap_aligned L" and "var_ok L v" and "var_ok L w" and "i < 4" and "j < 4"
    and "ref_shadow L v + of_nat i = ref_shadow L w + of_nat j"
  shows "v = w"
proof -
  note bv = var_bytes [OF assms(1-3,5)] and bw = var_bytes [OF assms(1,2,4,6)]
  let ?v = "v + of_nat i" and ?w = "w + of_nat j"
  have eq: "ref_shadow L ?v = ref_shadow L ?w" using assms(7) bv(4) bw(4) by simp
  then have "ref_index L ?v = ref_index L ?w"
    using temporal_disjoint [OF assms(1) ref_shadow_on(1) [OF assms(1) bv(2)] _ ref_index_less(1) ref_index_less(1), of L ?w]
      ref_shadow_on(1) [OF assms(1) bw(2)] by simp
  then have "?v = ?w" using eq ref_shadow_eq [OF bv(2)] ref_shadow_eq [OF bw(2)] by simp
  then have "unat v + i = unat w + j" using bv(1) bw(1) by simp
  moreover have "unat v mod 4 = 0" "unat w mod 4 = 0" using assms(3,4) by (simp_all add: var_ok_def)
  ultimately have "unat v = unat w" using assms(5,6) by presburger
  then show ?thesis by (simp add: word_unat_eq_iff)
qed

text \<open>No referent is in the primary shadow of the heap.\<close>

lemma ref_byte_not_primary:
  assumes "temporal_ok L" and "heap_aligned L" and "var_ok L v" and "i < 4"
  shows "\<not> IS_ON (ref_shadow L v + of_nat i) (primary (lay_heap L))"
    and "\<not> IS_ON (ref_shadow L v + of_nat i) (secondary (lay_heap L))"
proof -
  note b = var_bytes [OF assms]
  have "\<forall>k. IS_ON (ref_shadow L v + of_nat i) (t_segments L ! k) \<longrightarrow> k < 20 \<longrightarrow> k = ref_index L (v + of_nat i)"
    using temporal_disjoint [OF assms(1) _ _ _ ref_index_less(1)] ref_shadow_on(1) [OF assms(1) b(2)] b(4) by metis
  then have k: "IS_ON (ref_shadow L v + of_nat i) (t_segments L ! k) \<longrightarrow> k < 20 \<longrightarrow> k = ref_index L (v + of_nat i)" for k by blast
  show "\<not> IS_ON (ref_shadow L v + of_nat i) (primary (lay_heap L))"
    using k [of 1] by (auto simp: ref_index_def app_index_def split: if_splits)
  show "\<not> IS_ON (ref_shadow L v + of_nat i) (secondary (lay_heap L))"
    using k [of 2] by (auto simp: ref_index_def app_index_def split: if_splits)
qed

abbreviation referent :: "'a seg_state_scheme \<Rightarrow> u64 \<Rightarrow> u32" where
  "referent s v \<equiv> load32 (seg_mem s) (ref_shadow (layout s) v)"

lemma referent_frame:
  assumes "\<And>i. i < 4 \<Longrightarrow> m' (ref_shadow L v + of_nat i) = m (ref_shadow L v + of_nat i)"
  shows "load32 m' (ref_shadow L v) = load32 m (ref_shadow L v)"
  using load_le_cong [of 4 m' "ref_shadow L v" m] assms by simp

section \<open>The functions on referents\<close>

lemma on_either: "var_ok L v \<Longrightarrow> temporal_ok L \<Longrightarrow> heap_aligned L \<Longrightarrow> IS_ON_HEAP L v \<or> IS_ON_STATIC L v"
  using var_bytes(2) [of L v 0] by simp

lemma store_referent_eq:
  assumes "temporal_ok (layout s)" and "heap_aligned (layout s)" and "var_ok (layout s) v"
  shows "store_temporal_referent v t s = Some (Inr (s\<lparr>seg_mem := store32 (seg_mem s) (ref_shadow (layout s) v) t\<rparr>))"
  using on_either [OF assms(3,1,2)] ref_shadow_on(2) [OF assms(1), of v]
  by (auto simp: store_temporal_referent_def TRY_SEGMENT_def TRY_SEGMENT_WEAK_def heap_store_temporal_referent_def
      static_store_temporal_referent_def ref_shadow_def shadow_ptr_def split: if_splits)

lemma referent_timestamp_eq:
  assumes "temporal_ok (layout s)" and "heap_aligned (layout s)" and "var_ok (layout s) v"
  shows "referent_timestamp v s = Some (Inr (referent s v))"
  using on_either [OF assms(3,1,2)] ref_shadow_on(2) [OF assms(1), of v]
  by (auto simp: referent_timestamp_def TRY_SEGMENT_def TRY_SEGMENT_WEAK_def heap_temporal_info_def static_temporal_info_def
      ref_shadow_def shadow_ptr_def split: if_splits)

end
