(* ===== verification/Temporal_Tracker.thy ===== *)
theory Temporal_Tracker
  imports Segment_Temporal
begin

text \<open>
  The heap functions of the temporal build and the functions of \<^verbatim>\<open>e_acsl_temporal.h\<close>, on the maps that
  a state of the segment model stands for.
\<close>

section \<open>The representation\<close>

type_synonym stamped = "u64 \<Rightarrow> (nat \<times> u32) option"

abbreviation lengths :: "stamped \<Rightarrow> block_map" where
  "lengths B \<equiv> (\<lambda>p. map_option fst (B p))"

definition t_rep :: "'a seg_state_scheme \<Rightarrow> stamped \<Rightarrow> (u64 \<Rightarrow> u32) \<Rightarrow> bool" where
  "t_rep s B R \<longleftrightarrow> temporal_ok (layout s) \<and> mspaces_run s \<and> heap_rep s (lengths B) \<and>
     (\<forall>p n t. B p = Some (n, t) \<longrightarrow> load64 (seg_mem s) (HEAP_SHADOW (layout s) p + 16) = ucast t) \<and>
     (\<forall>v. var_ok (layout s) v \<longrightarrow> referent s v = R v)"

lemma t_repD:
  assumes "t_rep s B R"
  shows "temporal_ok (layout s)" and "mspaces_run s" and "heap_rep s (lengths B)" and "heap_aligned (layout s)" and "layout_ok (layout s)"
    and "B p = Some (n, t) \<Longrightarrow> load64 (seg_mem s) (HEAP_SHADOW (layout s) p + 16) = ucast t"
    and "var_ok (layout s) v \<Longrightarrow> referent s v = R v"
  using assms heap_repD(5) temporal_layout_ok by (auto simp: t_rep_def)

lemma t_rep_block:
  assumes "t_rep s B R" and "B p = Some (n, t)"
  shows "heap_block (layout s) p n"
  using heap_trackedD(1) [OF heap_repD(3) [OF t_repD(3) [OF assms(1)]]] assms(2) by simp

section \<open>Frames\<close>

lemma heap_rep_frame:
  assumes rep: "heap_rep s H" and L: "layout s' = layout s"
    and m: "\<And>a. IS_ON a (primary (lay_heap (layout s))) \<Longrightarrow> seg_mem s' a = seg_mem s a"
  shows "heap_rep s' H"
proof -
  note r = heap_repD [OF rep]
  have ch: "heap_only (layout s) 0 0 (seg_mem s) (seg_mem s')" unfolding heap_only_def using m by blast
  have "heap_tracked s' p n" if "H p = Some n" for p n
    using heap_tracked_frame [OF r(1) ch L r(3) [OF that]] by (simp add: inside_def)
  moreover have "load64 (seg_mem s') (HEAP_SHADOW (layout s) a) = load64 (seg_mem s) (HEAP_SHADOW (layout s) a)"
    if "heap_addr (layout s) a" "unat a mod 32 = 0" for a
    using heap_load_frame [OF r(1) ch, of a] heap_segment_bytes(2) [OF r(5) that] by (simp add: inside_def)
  ultimately show ?thesis using r unfolding heap_rep_def L by auto
qed

text \<open>The stamp of a block apart from the one that is changed.\<close>

lemma stamp_frame:
  assumes "layout_ok L" and "heap_only L p (asz n) m m'" and "heap_block L q k"
    and ap: "\<And>a. inside q (asz k) a \<Longrightarrow> \<not> inside p (asz n) a"
  shows "load64 m' (HEAP_SHADOW L q + 16) = load64 m (HEAP_SHADOW L q + 16)"
proof -
  note b = heap_blockD [OF assms(3)]
  have "IS_ON_HEAP L (q + 16 + of_nat r) \<and> \<not> inside p (asz n) (q + 16 + of_nat r)" if "r < 8" for r
  proof -
    have "unat (of_nat (16 + r) :: u64) = 16 + r" using that by (intro unat_of_nat_64) simp
    moreover have "q + 16 + of_nat r - q = of_nat (16 + r)" by simp
    ultimately have "inside q (asz k) (q + 16 + of_nat r)" using that b(8) unfolding inside_def by (simp only:)
    then show ?thesis using ap heap_inside(4) [OF assms(3)] by blast
  qed
  from heap_load_frame [OF assms(1,2) this] show ?thesis unfolding HEAP_SHADOW_add .
qed

section \<open>Allocation\<close>

lemma stores_commute: "store64 (store64 m (a + 8) x) (a + 16) y = store64 (store64 m (a + 16) y) (a + 8) x"
proof
  fix b
  have e: "a + 8 = a + of_nat 8" "a + 16 = a + of_nat 16" by simp_all
  show "store64 (store64 m (a + 8) x) (a + 16) y b = store64 (store64 m (a + 16) y) (a + 8) x b"
    unfolding e using store_le_offset [of 8 8 _ a _ b] store_le_offset [of 8 16 _ a _ b] by simp
qed

definition stamped_mem :: "memory_layout \<Rightarrow> u64 \<Rightarrow> nat \<Rightarrow> u32 \<Rightarrow> mem \<Rightarrow> mem" where
  "stamped_mem L p n t m = heap_mem L p n (store64 m (HEAP_SHADOW L p + 16) (ucast t))"

lemma stamped_mem_inside:
  assumes "heap_block L p n" and "stamped_mem L p n t m a \<noteq> m a"
  shows "inside (HEAP_SHADOW L p) (asz n) a"
proof -
  note b = heap_blockD [OF assms(1)]
  have e: "HEAP_SHADOW L p + 16 = HEAP_SHADOW L p + of_nat 16" by simp
  have "x < asz n" if "x div 32 < asz n div 32" for x using that asz_32(3) [of n] by linarith
  then show ?thesis
    using assms(2) b(8) heap_mem_at [OF assms(1), of "store64 m (HEAP_SHADOW L p + 16) (ucast t)" a]
      store_le_offset [of 8 16 m "HEAP_SHADOW L p" "ucast t" a]
    unfolding stamped_mem_def inside_def e by (auto split: if_splits)
qed

lemma stamped_mem_stamp:
  assumes "heap_block L p n"
  shows "load64 (stamped_mem L p n t m) (HEAP_SHADOW L p + 16) = ucast t"
proof (rule load64_bytes)
  fix r :: nat assume r: "r < 8"
  let ?sh = "HEAP_SHADOW L p"
  have e: "?sh + 16 + of_nat r = ?sh + of_nat (16 + r)" by simp
  have "unat (of_nat (16 + r) :: u64) = 16 + r" using r by (intro unat_of_nat_64) simp
  then have u: "unat (?sh + of_nat (16 + r) - ?sh) = 16 + r" by (simp del: of_nat_add)
  have "(16 + r) mod 32 = 16 + r" using r by simp
  then have "heap_mem L p n m0 (?sh + of_nat (16 + r)) = m0 (?sh + of_nat (16 + r))" for m0
    unfolding heap_mem_at [OF assms] u by simp
  moreover have "store64 m (?sh + 16) (ucast t) (?sh + of_nat (16 + r)) = ucast (drop_bit (8 * r) (ucast t :: u64))"
    using store_le_offset [of 8 16 m ?sh "ucast t" "?sh + of_nat (16 + r)"] r unfolding u by simp
  ultimately show "stamped_mem L p n t m (?sh + 16 + of_nat r) = ucast (drop_bit (8 * r) (ucast t :: u64))"
    unfolding stamped_mem_def e by (simp only:)
qed

lemma t_set_heap_segment:
  assumes rep: "t_rep s B R" and bld: "temporal (rt_build E)" and bl: "heap_block (layout s) p n"
    and ap: "apart_from (heap_sizes (lengths B)) p (asz n)"
    and least: "heap_mspace_least (spaces s) = mspace_least_addr (rt_mspaces E) (heap_mspace (spaces s))"
    and room: "p + of_nat (asz n) < heap_end (spaces s)"
  defines "t \<equiv> temporal_timestamp s + 1"
  defines "s' \<equiv> s\<lparr>seg_stats := update_heap_allocation (of_nat n) (seg_stats s), temporal_timestamp := t,
    seg_mem := stamped_mem (layout s) p n t (seg_mem s)\<rparr>"
  shows "set_heap_segment E p (of_nat n) (of_nat (asz n)) False s = Inr s'" and "t_rep s' (B(p \<mapsto> (n, t))) R"
proof -
  note r = t_repD [OF rep] and b = heap_blockD [OF bl]
  let ?L = "layout s" and ?m = "seg_mem s" and ?m' = "stamped_mem (layout s) p n t (seg_mem s)"
  have "unat (of_nat (asz n) div HEAP_SEGMENT :: u64) = asz n div 32"
    using b(7) by (simp add: unat_div HEAP_SEGMENT_def unat_of_nat_64)
  then show "set_heap_segment E p (of_nat n) (of_nat (asz n)) False s = Inr s'"
    using least room bld
    by (simp add: set_heap_segment_def Let_def s'_def t_def stamped_mem_def heap_mem_def NEW_TEMPORAL_TIMESTAMP_def stores_commute)
  have L: "layout s' = ?L" "seg_mem s' = ?m'" by (simp_all add: s'_def)
  have in0: "inside (HEAP_SHADOW ?L p) (asz n) a" if "?m' a \<noteq> ?m a" for a using stamped_mem_inside [OF bl that] .
  then have ch: "heap_only ?L p (asz n) ?m ?m'" by (auto simp: heap_only_def)
  have "heap_only ?L p (asz n) ?m (store64 ?m (HEAP_SHADOW ?L p + 16) (ucast t))"
    using store_le_offset [of 8 16 ?m "HEAP_SHADOW ?L p" "ucast t"] b(8) by (auto simp: heap_only_def inside_def)
  then have "heap_rep s' ((lengths B)(p \<mapsto> n))"
    by (rule heap_rep_insert [OF r(3) bl ap]) (simp_all add: s'_def stamped_mem_def)
  moreover have "(lengths B)(p \<mapsto> n) = lengths (B(p \<mapsto> (n, t)))" by auto
  moreover have "load64 ?m' (HEAP_SHADOW ?L q + 16) = ucast u" if "(B(p \<mapsto> (n, t))) q = Some (k, u)" for q k u
  proof (cases "q = p")
    case True
    then show ?thesis using that stamped_mem_stamp [OF bl] by simp
  next
    case False
    then have q: "B q = Some (k, u)" using that by simp
    have "\<not> inside p (asz n) a" if "inside q (asz k) a" for a
      using apart_fromD [OF ap, of q "asz k" a] q that by (auto simp: heap_sizes_def)
    then show ?thesis using stamp_frame [OF r(5) ch t_rep_block [OF rep q]] r(6) [OF q] by simp
  qed
  moreover have "load32 ?m' (ref_shadow ?L v) = R v" if v: "var_ok ?L v" for v
  proof -
    have "?m' (ref_shadow ?L v + of_nat i) = ?m (ref_shadow ?L v + of_nat i)" if "i < 4" for i
      using ref_byte_not_primary(1) [OF r(1,4) v that] in0 block_shadow_on [OF r(5) bl] by blast
    then have "load32 ?m' (ref_shadow ?L v) = load32 ?m (ref_shadow ?L v)" by (rule referent_frame)
    then show ?thesis using r(7) [OF v] by simp
  qed
  ultimately show "t_rep s' (B(p \<mapsto> (n, t))) R" using r(1,2) by (simp add: t_rep_def L) (simp add: s'_def)
qed

lemma t_malloc:
  assumes rep: "t_rep s B R" and bl: "heap_block (layout s) p n" and pa: "public_malloc pa s (of_nat (asz n)) = p"
    and set: "set_heap_segment E p (of_nat n) (of_nat (asz n)) False s = Inr s'"
  shows "malloc_seg E pa (of_nat n) s = Inr (p, s')"
proof -
  note b = heap_blockD [OF bl]
  have "(of_nat (asz n) :: u64) \<noteq> 0" using b(7,8) unat_of_nat_64 [of "asz n"] by auto
  then show ?thesis
    using ALLOC_SIZE_eq [OF b(4)] t_repD(2) [OF rep] pa b(1) set by (simp add: malloc_seg_def Let_def mspaces_init_def)
qed

section \<open>Deallocation\<close>

lemma TEMPORAL_HEAP_SHADOW_add: "TEMPORAL_HEAP_SHADOW L (a + x) = TEMPORAL_HEAP_SHADOW L a + x"
  by (simp add: TEMPORAL_HEAP_SHADOW_def SHADOW_ACCESS_def)

lemma block_referents_on:
  assumes "temporal_ok L" and "heap_block L p n" and "inside (TEMPORAL_HEAP_SHADOW L p) (asz n) a"
  shows "IS_ON a (t_segments L ! 3)"
proof -
  let ?x = "p + (a - TEMPORAL_HEAP_SHADOW L p)"
  have "inside p (asz n) ?x" using assms(3) by (simp add: inside_def)
  then have on: "IS_ON_HEAP L ?x" by (rule heap_inside(4) [OF assms(2)])
  then have "a = ref_shadow L ?x" unfolding ref_shadow_def TEMPORAL_HEAP_SHADOW_add by simp
  moreover have "ref_index L ?x = 3" using on by (simp add: ref_index_def)
  ultimately show ?thesis using ref_shadow_on(1) [OF assms(1), of ?x] on by metis
qed

lemma referents_cleared_iff:
  assumes "temporal_ok L" and "heap_aligned L" and "heap_block L p n" and "var_ok L v" and "i < 4"
  shows "inside (TEMPORAL_HEAP_SHADOW L p) (asz n) (ref_shadow L v + of_nat i) \<longleftrightarrow> inside p (asz n) v"
proof (cases "IS_ON_HEAP L v")
  case True
  note b = heap_blockD [OF assms(3)] and u = var_bytes(1) [OF assms(1,2,4,5)]
  have "ref_shadow L v + of_nat i - TEMPORAL_HEAP_SHADOW L p = v + of_nat i - p"
    using True by (simp add: ref_shadow_def TEMPORAL_HEAP_SHADOW_def SHADOW_ACCESS_def)
  then have "inside (TEMPORAL_HEAP_SHADOW L p) (asz n) (ref_shadow L v + of_nat i) \<longleftrightarrow> inside p (asz n) (v + of_nat i)"
    unfolding inside_def by (simp only:)
  moreover note inside_range [OF b(7)]
  moreover have "unat p \<le> unat v + i \<and> unat v + i < unat p + asz n \<longleftrightarrow> unat p \<le> unat v \<and> unat v < unat p + asz n"
  proof -
    obtain A where A: "unat v = 4 * A" using assms(4) unfolding var_ok_def by (meson mod_0_imp_dvd dvdE)
    obtain P N where P: "unat p = 32 * P" "asz n = 32 * N" using b(2) asz_32(1) [of n] by (meson mod_0_imp_dvd dvdE)
    have "32 * P \<le> 4 * A + i \<longleftrightarrow> 8 * P \<le> A" "4 * A + i < 32 * P + 32 * N \<longleftrightarrow> A < 8 * P + 8 * N"
      "32 * P \<le> 4 * A \<longleftrightarrow> 8 * P \<le> A" "4 * A < 32 * P + 32 * N \<longleftrightarrow> A < 8 * P + 8 * N"
      using assms(5) by linarith+
    then show ?thesis unfolding A P by simp
  qed
  ultimately show ?thesis using u by simp
next
  case False
  note vb = var_bytes [OF assms(1,2,4,5)]
  have "app_index L v \<noteq> 0" using False by (simp add: app_index_0)
  then have "\<not> IS_ON_HEAP L (v + of_nat i)" using vb(3) app_index_0 by metis
  then have "ref_index L (v + of_nat i) \<noteq> 3" by (simp add: ref_index_def app_index_def)
  then have "\<not> IS_ON (ref_shadow L v + of_nat i) (t_segments L ! 3)"
    using temporal_disjoint [OF assms(1) _ ref_shadow_on(1) [OF assms(1) vb(2)] _ ref_index_less(1), of 3] vb(4) by auto
  then show ?thesis using block_referents_on [OF assms(1,3)] heap_inside(4) [OF assms(3)] False by blast
qed

text \<open>\<^verbatim>\<open>unset_heap_segment\<close> in the temporal build, with or without the init shadow.\<close>

definition t_freed_mem :: "memory_layout \<Rightarrow> u64 \<Rightarrow> nat \<Rightarrow> bool \<Rightarrow> mem \<Rightarrow> mem" where
  "t_freed_mem L p n init m =
     (let m = fill_bytes (fill_bytes m (HEAP_SHADOW L p) 0 (asz n)) (TEMPORAL_HEAP_SHADOW L p) 0 (asz n)
      in if init then fill_bytes m (HEAP_INIT_SHADOW L p) 0 (asz n div 8) else m)"

lemma t_freed_mem_at:
  assumes "heap_block L p n"
  shows "t_freed_mem L p n init m a =
    (if init \<and> inside (HEAP_INIT_SHADOW L p) (asz n div 8) a \<or> inside (TEMPORAL_HEAP_SHADOW L p) (asz n) a \<or>
        inside (HEAP_SHADOW L p) (asz n) a then 0 else m a)"
  using heap_blockD(7) [OF assms] by (simp add: t_freed_mem_def fill_bytes_at inside_def Let_def)

lemma t_unset:
  fixes init :: bool
  assumes rep: "t_rep s B R" and p: "B p = Some (n, t)" and bld: "temporal bld"
  defines "s' \<equiv> s\<lparr>seg_mem := t_freed_mem (layout s) p n init (seg_mem s),
      seg_stats := (seg_stats s)\<lparr>heap_allocation_size := heap_allocation_size (seg_stats s) - of_nat n\<rparr>\<rparr>"
  shows "unset_heap_segment bld p init s = s'" and "t_rep s' (B(p := None)) (\<lambda>v. if inside p (asz n) v then 0 else R v)"
proof -
  note r = t_repD [OF rep] and bl = t_rep_block [OF rep p]
  note b = heap_blockD [OF bl]
  let ?L = "layout s" and ?m = "seg_mem s" and ?m' = "t_freed_mem (layout s) p n init (seg_mem s)"
  have lp: "lengths B p = Some n" using p by simp
  have "unat (ALLOC_SIZE (of_nat n)) = asz n" "unat (ALLOC_SIZE (of_nat n) div 8) = asz n div 8"
    using ALLOC_SIZE_asz [OF b(4)] by (simp_all add: unat_div)
  then show "unset_heap_segment bld p init s = s'"
    using heap_trackedD(3) [OF heap_repD(3) [OF r(3) lp]] bld
    by (simp add: unset_heap_segment_def Let_def t_freed_mem_def s'_def)
  have at: "?m' a = (if init \<and> inside (HEAP_INIT_SHADOW ?L p) (asz n div 8) a \<or> inside (TEMPORAL_HEAP_SHADOW ?L p) (asz n) a \<or>
        inside (HEAP_SHADOW ?L p) (asz n) a then 0 else ?m a)" for a by (rule t_freed_mem_at [OF bl])
  have sec: "IS_ON a (t_segments ?L ! 2)" if "inside (HEAP_INIT_SHADOW ?L p) (asz n div 8) a" for a
    using init_shadow_on [OF r(5) bl, of "unat (a - HEAP_INIT_SHADOW ?L p)"] that by (simp add: inside_def)
  have "\<not> IS_ON a (t_segments ?L ! 1)" if "inside (HEAP_INIT_SHADOW ?L p) (asz n div 8) a \<or> inside (TEMPORAL_HEAP_SHADOW ?L p) (asz n) a" for a
    using that sec [of a] block_referents_on [OF r(1) bl, of a] temporal_disjoint [OF r(1), of a 1 2] temporal_disjoint [OF r(1), of a 1 3]
    by auto
  then have ch: "heap_only ?L p (asz n) ?m ?m'" unfolding heap_only_def at by auto
  have "heap_rep s' ((lengths B)(p := None))"
    by (rule heap_rep_remove [OF r(3) lp]) (use ch at in \<open>simp_all add: s'_def\<close>)
  moreover have "(lengths B)(p := None) = lengths (B(p := None))" by auto
  moreover have "load64 ?m' (HEAP_SHADOW ?L q + 16) = ucast u" if "(B(p := None)) q = Some (k, u)" for q k u
  proof -
    have q: "q \<noteq> p" "B q = Some (k, u)" using that by (auto split: if_splits)
    have "\<not> inside p (asz n) a" if "inside q (asz k) a" for a
      using heap_sep [OF r(3) _ lp that] q by auto
    then show ?thesis using stamp_frame [OF r(5) ch t_rep_block [OF rep q(2)]] r(6) [OF q(2)] by simp
  qed
  moreover have "load32 ?m' (ref_shadow ?L v) = (if inside p (asz n) v then 0 else R v)" if v: "var_ok ?L v" for v
  proof -
    have x: "?m' (ref_shadow ?L v + of_nat i) = (if inside p (asz n) v then 0 else ?m (ref_shadow ?L v + of_nat i))" if "i < 4" for i
      using ref_byte_not_primary [OF r(1,4) v that] block_shadow_on [OF r(5) bl] sec referents_cleared_iff [OF r(1,4) bl v that]
      unfolding at by auto
    show ?thesis
    proof (cases "inside p (asz n) v")
      case True
      have z: "load_le 4 (\<lambda>_. 0) (ref_shadow ?L v) = 0" by (rule bit_word_eqI) simp
      have "load_le 4 ?m' (ref_shadow ?L v) = load_le 4 (\<lambda>_. 0) (ref_shadow ?L v)" by (rule load_le_cong) (simp add: x True)
      then show ?thesis using z True by simp
    next
      case False
      then have "load32 ?m' (ref_shadow ?L v) = load32 ?m (ref_shadow ?L v)" using x by (intro referent_frame) simp
      then show ?thesis using r(7) [OF v] False by simp
    qed
  qed
  ultimately show "t_rep s' (B(p := None)) (\<lambda>v. if inside p (asz n) v then 0 else R v)"
    using r(1,2) by (simp add: t_rep_def s'_def)
qed

lemma t_freeable:
  assumes rep: "t_rep s B R" and p: "B p = Some (n, t)"
  shows "freeable_seg p s" and "free_seg bld p s = Inr (unset_heap_segment bld p True s)" and "heap_addr (layout s) p"
proof -
  note r = t_repD [OF rep] and b = heap_blockD [OF t_rep_block [OF rep p]]
  show "heap_addr (layout s) p" using b(5,6,8) by (simp add: heap_addr_def word_less_nat_alt)
  then show "freeable_seg p s" using rep_freeable [OF r(3)] p by simp
  then show "free_seg bld p s = Inr (unset_heap_segment bld p True s)" using b(1) by (simp add: free_seg_def)
qed

section \<open>Pointers\<close>

lemma t_store:
  fixes t :: u32
  assumes rep: "t_rep s B R" and v: "var_ok (layout s) v"
  defines "s' \<equiv> s\<lparr>seg_mem := store32 (seg_mem s) (ref_shadow (layout s) v) t\<rparr>"
  shows "store_temporal_referent v t s = Some (Inr s')" and "t_rep s' B (R(v := t))"
proof -
  note r = t_repD [OF rep]
  let ?L = "layout s" and ?m = "seg_mem s" and ?a = "ref_shadow (layout s) v"
  let ?m' = "store32 ?m ?a t"
  show "store_temporal_referent v t s = Some (Inr s')" unfolding s'_def by (rule store_referent_eq [OF r(1,4) v])
  have "\<exists>i<4. a = ?a + of_nat i" if "?m' a \<noteq> ?m a" for a
    using that by (intro exI [of _ "unat (a - ?a)"]) (simp add: store_le_at split: if_splits)
  then have ch: "?m' a = ?m a" if "\<And>i. i < 4 \<Longrightarrow> a \<noteq> ?a + of_nat i" for a using that by blast
  have np: "?m' a = ?m a" if "IS_ON a (primary (lay_heap ?L))" for a
    using ch [of a] ref_byte_not_primary(1) [OF r(1,4) v] that by blast
  have "heap_rep s' (lengths B)" by (rule heap_rep_frame [OF r(3)]) (simp_all add: s'_def np)
  moreover have "load64 ?m' (HEAP_SHADOW ?L q + 16) = ucast u" if q: "B q = Some (k, u)" for q k u
  proof -
    have "heap_only ?L 0 (asz 0) ?m ?m'" unfolding heap_only_def using np by blast
    then show ?thesis using stamp_frame [OF r(5) _ t_rep_block [OF rep q], of 0 0 ?m ?m'] r(6) [OF q] by (simp add: inside_def asz_def)
  qed
  moreover have "load32 ?m' (ref_shadow ?L w) = (R(v := t)) w" if w: "var_ok ?L w" for w
  proof (cases "w = v")
    case True
    have "ucast (take_bit 32 (ucast t :: u64)) = t"
      by (rule bit_word_eqI) (auto simp: bit_simps)
    then show ?thesis using True by (simp add: load_le_store_le_same)
  next
    case False
    have "?m' (ref_shadow ?L w + of_nat i) = ?m (ref_shadow ?L w + of_nat i)" if "i < 4" for i
      using ch ref_bytes_apart [OF r(1,4) w v that] False by blast
    then have "load32 ?m' (ref_shadow ?L w) = load32 ?m (ref_shadow ?L w)" by (rule referent_frame)
    then show ?thesis using r(7) [OF w] False by simp
  qed
  ultimately show "t_rep s' B (R(v := t))" using r(1,2) by (simp add: t_rep_def s'_def)
qed

lemma t_origin:
  assumes rep: "t_rep s B R" and p: "B p = Some (n, t)" and a: "inside p (asz n) a"
  shows "origin_timestamp a s = Some t"
proof -
  note r = t_repD [OF rep]
  have lp: "lengths B p = Some n" using p by simp
  have "IS_ON_HEAP (layout s) a" by (rule heap_inside(4) [OF t_rep_block [OF rep p] a])
  moreover have "ucast (ucast t :: u64) = t" by (rule bit_word_eqI) (auto simp: bit_simps)
  ultimately show ?thesis using heap_word [OF r(3) lp a] r(6) [OF p]
    by (simp add: origin_timestamp_def TRY_SEGMENT_WEAK_def heap_temporal_info_def)
qed

text \<open>What a use of a pointer is answered: \<open>v\<close> is the variable that holds it.\<close>

definition t_accessible :: "stamped \<Rightarrow> (u64 \<Rightarrow> u32) \<Rightarrow> u64 \<Rightarrow> nat \<Rightarrow> u64 \<Rightarrow> u64 \<Rightarrow> bool" where
  "t_accessible B R ptr sz base v \<longleftrightarrow>
     (\<exists>p n t. B p = Some (n, t) \<and> inside p (asz n) ptr \<and> inside p (asz n) base \<and> unat (ptr - p) + sz \<le> n \<and> R v = t)"

lemma t_valid_read:
  assumes rep: "t_rep s B R" and bld: "temporal bld" "\<not> weak_validity bld"
    and ptr: "heap_addr (layout s) ptr" and base: "heap_addr (layout s) base" and sz: "sz < 2 ^ 63"
    and v: "var_ok (layout s) v" "v \<noteq> 0" "v \<noteq> base"
  shows "valid_read_seg bld ptr (of_nat sz) base v s = Some (Inr (t_accessible B R ptr sz base v))"
proof -
  note r = t_repD [OF rep]
  have al: "allocated_seg bld ptr (of_nat sz) base s = Some (heap_accessible (lengths B) ptr sz base)"
    using rep_heap_allocated [OF r(3) ptr base bld(2) sz] heap_addr_on [OF ptr] by (simp add: allocated_seg_def TRY_SEGMENT_WEAK_def)
  show ?thesis
  proof (cases "heap_accessible (lengths B) ptr sz base")
    case True
    then obtain p n t where p: "B p = Some (n, t)" "inside p (asz n) ptr" "inside p (asz n) base" "unat (ptr - p) + sz \<le> n"
      by (auto simp: heap_accessible_def)
    have uniq: "q = p" if "B q = Some (k, u)" "inside q (asz k) base" for q k u
      using heap_sep [OF r(3) _ _ that(2) p(3)] that(1) p(1) by simp
    have "t_accessible B R ptr sz base v \<longleftrightarrow> R v = t"
    proof
      assume "t_accessible B R ptr sz base v"
      then obtain q k u where q: "B q = Some (k, u)" "inside q (asz k) base" "R v = u" unfolding t_accessible_def by blast
      then show "R v = t" using uniq [OF q(1,2)] p(1) by simp
    next
      assume "R v = t"
      then show "t_accessible B R ptr sz base v" using p unfolding t_accessible_def by blast
    qed
    moreover have "temporal_valid base v s = Some (Inr (R v = t))"
      using referent_timestamp_eq [OF r(1,4) v(1)] r(7) [OF v(1)] t_origin [OF rep p(1,3)] v(2,3)
      by (simp add: temporal_valid_def andthen_def)
    ultimately show ?thesis using al True bld by (simp add: valid_read_seg_def)
  next
    case False
    have "heap_accessible (lengths B) ptr sz base" if acc: "t_accessible B R ptr sz base v"
    proof -
      obtain q k u where q: "B q = Some (k, u)" "inside q (asz k) ptr" "inside q (asz k) base" "unat (ptr - q) + sz \<le> k"
        using acc unfolding t_accessible_def by blast
      have "lengths B q = Some k" using q(1) by simp
      then show ?thesis using q(2-4) unfolding heap_accessible_def by blast
    qed
    then have "\<not> t_accessible B R ptr sz base v" using False by blast
    then show ?thesis using al False by (simp add: valid_read_seg_def)
  qed
qed

section \<open>Reallocation\<close>

text \<open>\<^verbatim>\<open>realloc\<close> that extends a block in place: the old block is removed, a new one is made.\<close>

lemma t_realloc:
  assumes rep: "t_rep s B R" and bld: "temporal (rt_build E)" and p: "B p = Some (n, t)"
    and bl: "heap_block (layout s) p n'" and ap: "apart_from (heap_sizes (lengths (B(p := None)))) p (asz n')" and le: "n \<le> n'"
    and pa: "public_realloc pa s p (of_nat (asz n')) = p"
    and least: "heap_mspace_least (spaces s) = mspace_least_addr (rt_mspaces E) (heap_mspace (spaces s))"
    and room: "p + of_nat (asz n') < heap_end (spaces s)"
  obtains s' where "realloc_seg E pa p (of_nat n') s = Some (Inr (p, s'))" and "layout s' = layout s"
    and "t_rep s' (B(p \<mapsto> (n', temporal_timestamp s + 1))) (\<lambda>v. if inside p (asz n) v then 0 else R v)"
proof -
  note r = t_repD [OF rep] and b = heap_blockD [OF t_rep_block [OF rep p]] and b' = heap_blockD [OF bl]
  define s1 where "s1 = unset_heap_segment (rt_build E) p False s"
  note u = t_unset [OF rep p bld, of False]
  have s1: "t_rep s1 (B(p := None)) (\<lambda>v. if inside p (asz n) v then 0 else R v)" "layout s1 = layout s" "spaces s1 = spaces s"
    "temporal_timestamp s1 = temporal_timestamp s"
    using u unfolding s1_def by simp_all
  note m = t_set_heap_segment [OF s1(1) bld, of p n', unfolded s1(2,3,4), OF bl ap least room]
  have lp: "lengths B p = Some n" using p by simp
  have "inside p (asz n) p" using b(8) by simp
  then have q: "predicate p LengthQ s = Some (Inr (of_nat n))"
    using rep_heap_info [OF r(3) lp, of p LengthQ] heap_addr_on [OF t_freeable(3) [OF rep p]]
    by (simp add: predicate_def TRY_SEGMENT_def TRY_SEGMENT_WEAK_def)
  have nz: "(of_nat n' :: u64) \<noteq> 0" "\<not> (of_nat n :: u64) > of_nat n'"
    using b'(3,4) b(4) le unat_of_nat_64 [of n'] unat_of_nat_64 [of n] by (auto simp: word_less_nat_alt)
  define s2 where "s2 = s1\<lparr>seg_stats := update_heap_allocation (of_nat n') (seg_stats s1), temporal_timestamp := temporal_timestamp s + 1,
    seg_mem := stamped_mem (layout s) p n' (temporal_timestamp s + 1) (seg_mem s1)\<rparr>"
  have "set_heap_segment E p (of_nat n') (of_nat (asz n')) False s1 = Inr s2" using m(1) by (simp add: s2_def)
  then have "realloc_seg E pa p (of_nat n') s = Some (Inr (p, s2))"
    using t_freeable(1) [OF rep p] b'(1) nz q pa ALLOC_SIZE_eq [OF b'(4)]
    by (simp add: realloc_seg_def Let_def s1_def [symmetric])
  moreover have "layout s2 = layout s" using s1(2) by (simp add: s2_def)
  moreover have "t_rep s2 (B(p \<mapsto> (n', temporal_timestamp s + 1))) (\<lambda>v. if inside p (asz n) v then 0 else R v)"
    using m(2) by (simp add: s2_def)
  ultimately show thesis using that by blast
qed

end
