(* ===== verification/Temporal_Props.thy ===== *)
theory Temporal_Props
  imports Temporal_Tracker
begin

text \<open>
  Programs that allocate, free and move pointers, and what the temporal analysis tells of them. The
  interface is a simulation: each operation of the run-time library follows an operation on an abstract
  state, so a sequence of them does.
\<close>

section \<open>Simulations\<close>

fun run_ops :: "('op \<Rightarrow> 's \<Rightarrow> 's option) \<Rightarrow> 'op list \<Rightarrow> 's \<Rightarrow> 's option" where
  "run_ops step [] s = Some s"
| "run_ops step (x # xs) s = do { s \<leftarrow> step x s; run_ops step xs s }"

fun legal_ops :: "('op \<Rightarrow> 'a \<Rightarrow> bool) \<Rightarrow> ('op \<Rightarrow> 'a \<Rightarrow> 'a) \<Rightarrow> 'op list \<Rightarrow> 'a \<Rightarrow> bool" where
  "legal_ops legal app [] A \<longleftrightarrow> True"
| "legal_ops legal app (x # xs) A \<longleftrightarrow> legal x A \<and> legal_ops legal app xs (app x A)"

locale simulation =
  fixes step :: "'op \<Rightarrow> 's \<Rightarrow> 's option"
    and app :: "'op \<Rightarrow> 'a \<Rightarrow> 'a"
    and legal :: "'op \<Rightarrow> 'a \<Rightarrow> bool"
    and rep :: "'s \<Rightarrow> 'a \<Rightarrow> bool"
  assumes step_refines: "rep s A \<Longrightarrow> legal x A \<Longrightarrow> \<exists>s'. step x s = Some s' \<and> rep s' (app x A)"
begin

lemma history:
  "rep s A \<Longrightarrow> legal_ops legal app xs A \<Longrightarrow> \<exists>s'. run_ops step xs s = Some s' \<and> rep s' (fold app xs A)"
proof (induction xs arbitrary: s A)
  case (Cons x xs)
  obtain s1 where s1: "step x s = Some s1" "rep s1 (app x A)" using step_refines Cons.prems by fastforce
  then show ?case using Cons.IH [OF s1(2)] Cons.prems(2) by simp
qed simp

end

section \<open>Operations\<close>

text \<open>
  \<open>TMalloc p n\<close>: an allocation of \<open>n\<close> bytes for which the allocator returns \<open>p\<close>; \<open>TTake v p i\<close>: the variable
  \<open>v\<close> gets the address of byte \<open>i\<close> of the block at \<open>p\<close>; \<open>TMove v w\<close>: \<open>v\<close> gets the pointer that \<open>w\<close> holds.
\<close>

datatype t_op = TMalloc u64 nat | TFree u64 | TTake u64 u64 nat | TMove u64 u64

record t_abs =
  t_blocks :: stamped
  t_refs :: "u64 \<Rightarrow> u32"
  t_clock :: u32

fun t_apply :: "t_op \<Rightarrow> t_abs \<Rightarrow> t_abs" where
  "t_apply (TMalloc p n) A = A\<lparr>t_clock := t_clock A + 1, t_blocks := (t_blocks A)(p \<mapsto> (n, t_clock A + 1))\<rparr>"
| "t_apply (TFree p) A =
     (case t_blocks A p of
        Some (n, t) \<Rightarrow> A\<lparr>t_blocks := (t_blocks A)(p := None), t_refs := (\<lambda>v. if inside p (asz n) v then 0 else t_refs A v)\<rparr>
      | None \<Rightarrow> A)"
| "t_apply (TTake v p i) A = (case t_blocks A p of Some (n, t) \<Rightarrow> A\<lparr>t_refs := (t_refs A)(v := t)\<rparr> | None \<Rightarrow> A)"
| "t_apply (TMove v w) A = A\<lparr>t_refs := (t_refs A)(v := t_refs A w)\<rparr>"

fun t_legal :: "memory_layout \<Rightarrow> memory_spaces \<Rightarrow> t_op \<Rightarrow> t_abs \<Rightarrow> bool" where
  "t_legal L sp (TMalloc p n) A \<longleftrightarrow>
     heap_block L p n \<and> apart_from (heap_sizes (lengths (t_blocks A))) p (asz n) \<and> p + of_nat (asz n) < heap_end sp"
| "t_legal L sp (TFree p) A \<longleftrightarrow> t_blocks A p \<noteq> None"
| "t_legal L sp (TTake v p i) A \<longleftrightarrow> var_ok L v \<and> (case t_blocks A p of Some (n, t) \<Rightarrow> i < asz n | None \<Rightarrow> False)"
| "t_legal L sp (TMove v w) A \<longleftrightarrow> var_ok L v \<and> var_ok L w"

definition ok_state :: "'s outcome option \<Rightarrow> 's option" where
  "ok_state x = (case x of Some (Inr s) \<Rightarrow> Some s | _ \<Rightarrow> None)"

fun t_step :: "rt_env \<Rightarrow> 'a seg_state_scheme public_alloc \<Rightarrow> t_op \<Rightarrow> 'a seg_state_scheme \<Rightarrow> 'a seg_state_scheme option" where
  "t_step E pa (TMalloc p n) s = map_option snd (ok_state (Some (malloc_seg E (pa\<lparr>public_malloc := (\<lambda>_ _. p)\<rparr>) (of_nat n) s)))"
| "t_step E pa (TFree p) s = ok_state (Some (free_seg (rt_build E) p s))"
| "t_step E pa (TTake v p i) s = ok_state (temporal_store_nblock v (p + of_nat i) s)"
| "t_step E pa (TMove v w) s = ok_state (temporal_store_nreferent v w s)"

definition t_state :: "rt_env \<Rightarrow> memory_layout \<Rightarrow> memory_spaces \<Rightarrow> 'a seg_state_scheme \<Rightarrow> t_abs \<Rightarrow> bool" where
  "t_state E L sp s A \<longleftrightarrow> temporal (rt_build E) \<and> layout s = L \<and> spaces s = sp \<and>
     heap_mspace_least sp = mspace_least_addr (rt_mspaces E) (heap_mspace sp) \<and>
     t_rep s (t_blocks A) (t_refs A) \<and> temporal_timestamp s = t_clock A"

lemma t_step_refines:
  assumes "t_state E L sp s A" and "t_legal L sp x A"
  shows "\<exists>s'. t_step E pa x s = Some s' \<and> t_state E L sp s' (t_apply x A)"
proof -
  have st: "temporal (rt_build E)" "layout s = L" "spaces s = sp" "heap_mspace_least sp = mspace_least_addr (rt_mspaces E) (heap_mspace sp)"
    "t_rep s (t_blocks A) (t_refs A)" "temporal_timestamp s = t_clock A"
    using assms(1) by (simp_all add: t_state_def)
  show ?thesis
  proof (cases x)
    case (TMalloc p n)
    then show ?thesis
      using t_malloc [OF st(5), of p n "pa\<lparr>public_malloc := (\<lambda>_ _. p)\<rparr>"] t_set_heap_segment [OF st(5,1), of p n] assms(2) st
      by (simp add: ok_state_def t_state_def)
  next
    case (TFree p)
    then obtain n t where p: "t_blocks A p = Some (n, t)" using assms(2) by auto
    then show ?thesis
      using t_freeable(2) [OF st(5) p, of "rt_build E"] t_unset [OF st(5) p st(1), of True] st TFree by (simp add: ok_state_def t_state_def)
  next
    case (TTake v p i)
    then obtain n t where p: "t_blocks A p = Some (n, t)" "i < asz n" and v: "var_ok (layout s) v"
      using assms(2) st(2) by (auto split: option.splits)
    have "unat (of_nat i :: u64) = i" using p(2) heap_blockD(7) [OF t_rep_block [OF st(5) p(1)]] by (intro unat_of_nat_64) linarith
    then have "inside p (asz n) (p + of_nat i)" using p(2) by (simp add: inside_def)
    then show ?thesis
      using t_origin [OF st(5) p(1)] t_store [OF st(5) v, of t] st TTake p(1)
      by (simp add: temporal_store_nblock_def ok_state_def t_state_def)
  next
    case (TMove v w)
    then have v: "var_ok (layout s) v" "var_ok (layout s) w" using assms(2) st(2) by simp_all
    then show ?thesis
      using referent_timestamp_eq [OF t_repD(1,4) [OF st(5)] v(2)] t_repD(7) [OF st(5) v(2)] t_store [OF st(5) v(1), of "t_refs A w"] st TMove
      by (simp add: temporal_store_nreferent_def andthen_def ok_state_def t_state_def)
  qed
qed

interpretation temporal_sim: simulation "t_step E pa" t_apply "t_legal L sp" "t_state E L sp"
  by unfold_locales (rule t_step_refines)

section \<open>Stamps\<close>

text \<open>As long as the counter has not wrapped around, the stamps of the blocks are positive and differ.\<close>

definition stamps_ok :: "t_abs \<Rightarrow> bool" where
  "stamps_ok A \<longleftrightarrow>
     (\<forall>p n t. t_blocks A p = Some (n, t) \<longrightarrow> 0 < t \<and> t \<le> t_clock A) \<and>
     (\<forall>p n q k t. t_blocks A p = Some (n, t) \<longrightarrow> t_blocks A q = Some (k, t) \<longrightarrow> p = q)"

fun allocations :: "t_op list \<Rightarrow> nat" where
  "allocations [] = 0"
| "allocations (TMalloc p n # xs) = Suc (allocations xs)"
| "allocations (x # xs) = allocations xs"

fun assigns_to :: "u64 \<Rightarrow> t_op \<Rightarrow> bool" where
  "assigns_to v (TTake w p i) \<longleftrightarrow> w = v"
| "assigns_to v (TMove w u) \<longleftrightarrow> w = v"
| "assigns_to v x \<longleftrightarrow> False"

lemma stamps_ok_bounds: "stamps_ok A \<Longrightarrow> t_blocks A p = Some (n, t) \<Longrightarrow> 0 < t \<and> t \<le> t_clock A"
  by (simp add: stamps_ok_def)

lemma clock_step:
  assumes "unat (c :: u32) + 1 < 2 ^ 32"
  shows "c < c + 1" and "unat (c + 1) = unat c + 1"
proof -
  show "unat (c + 1) = unat c + 1" using assms by (simp add: unat_word_ariths)
  then show "c < c + 1" by (simp add: word_less_nat_alt)
qed

lemma t_clock_step: "t_clock (t_apply x A) = (case x of TMalloc p n \<Rightarrow> t_clock A + 1 | _ \<Rightarrow> t_clock A)"
  by (cases x) (auto split: option.splits)

lemma stamps_ok_step:
  assumes "stamps_ok A" and "unat (t_clock A) + allocations [x] < 2 ^ 32"
  shows "stamps_ok (t_apply x A)"
proof (cases x)
  case (TMalloc p n)
  then have c: "t_clock A < t_clock A + 1" using clock_step(1) assms(2) by simp
  have old: "t \<le> t_clock A + 1" "t \<noteq> t_clock A + 1" "0 < t" if "t_blocks A q = Some (k, t)" for q k t
    using stamps_ok_bounds [OF assms(1) that] c by auto
  have pos: "0 < t_clock A + 1" using c by (metis word_not_simps(1) word_neq_0_conv)
  have uq: "q = r" if "t_blocks A q = Some (k, t)" "t_blocks A r = Some (l, t)" for q r k l t
    using assms(1) that unfolding stamps_ok_def by blast
  show ?thesis
    unfolding stamps_ok_def TMalloc t_apply.simps
  proof (intro conjI allI impI)
    fix q k t q' k'
    let ?A = "A\<lparr>t_clock := t_clock A + 1, t_blocks := (t_blocks A)(p \<mapsto> (n, t_clock A + 1))\<rparr>"
    assume a: "t_blocks ?A q = Some (k, t)"
    show "0 < t" "t \<le> t_clock ?A" using a old(1,3) [of q k t] pos by (cases "q = p"; simp)+
    assume "t_blocks ?A q' = Some (k', t)"
    then show "q = q'"
      using a old(2) [of q k t] old(2) [of q' k' t] uq [of q k t q' k'] by (cases "q = p"; cases "q' = p"; simp)
  qed
qed (use assms(1) in \<open>auto simp: stamps_ok_def split: option.splits\<close>)

text \<open>The pointer \<open>v\<close> dangles: its stamp was given out, and no block has it.\<close>

definition dangling :: "u32 \<Rightarrow> u64 \<Rightarrow> t_abs \<Rightarrow> bool" where
  "dangling t v A \<longleftrightarrow> t \<le> t_clock A \<and> (\<forall>q k u. t_blocks A q = Some (k, u) \<longrightarrow> u \<noteq> t) \<and> t_refs A v \<in> {t, 0}"

lemma dangling_step:
  assumes "dangling t v A" and "\<not> assigns_to v x" and "unat (t_clock A) + allocations [x] < 2 ^ 32"
  shows "dangling t v (t_apply x A)"
proof (cases x)
  case (TMalloc p n)
  then have c: "t_clock A < t_clock A + 1" using clock_step(1) assms(3) by simp
  then have "t < t_clock A + 1" using assms(1) by (auto simp: dangling_def)
  then show ?thesis using assms(1) TMalloc unfolding dangling_def by auto
qed (use assms(1,2) in \<open>auto simp: dangling_def split: option.splits\<close>)

lemma clock_allocations:
  assumes "unat (t_clock A) + allocations (x # xs) < 2 ^ 32"
  shows "unat (t_clock A) + allocations [x] < 2 ^ 32" and "unat (t_clock (t_apply x A)) + allocations xs < 2 ^ 32"
proof -
  have "unat (t_clock A) + allocations [x] < 2 ^ 32 \<and> unat (t_clock (t_apply x A)) + allocations xs < 2 ^ 32"
  proof (cases x)
    case (TMalloc p n)
    then have "unat (t_clock A) + 1 < 2 ^ 32" using assms by simp
    then have "unat (t_clock A + 1) = unat (t_clock A) + 1" by (rule clock_step(2))
    then have "unat (t_clock (t_apply x A)) = unat (t_clock A) + 1" using TMalloc by simp
    then show ?thesis using assms TMalloc by (simp only: allocations.simps) linarith
  qed (use assms in \<open>simp_all split: option.splits\<close>)
  then show "unat (t_clock A) + allocations [x] < 2 ^ 32" "unat (t_clock (t_apply x A)) + allocations xs < 2 ^ 32" by blast+
qed

lemma dangling_fold:
  assumes "dangling t v A" and "\<And>x. x \<in> set xs \<Longrightarrow> \<not> assigns_to v x" and "unat (t_clock A) + allocations xs < 2 ^ 32"
  shows "dangling t v (fold t_apply xs A)"
  using assms
proof (induction xs arbitrary: A)
  case (Cons x xs)
  note c = clock_allocations [OF Cons.prems(3)]
  have "dangling t v (t_apply x A)" using dangling_step [OF Cons.prems(1) _ c(1)] Cons.prems(2) by simp
  then show ?case using Cons.IH [OF _ _ c(2)] Cons.prems(2) by simp
qed simp

lemma freed_dangles:
  assumes "stamps_ok A" and "t_blocks A p = Some (n, t)" and "t_refs A v \<in> {t, 0}" and "0 < n"
    and "legal_ops (t_legal L sp) t_apply xs A" and "TFree p \<in> set xs"
    and "\<And>x. x \<in> set xs \<Longrightarrow> \<not> assigns_to v x" and "unat (t_clock A) + allocations xs < 2 ^ 32"
  shows "dangling t v (fold t_apply xs A)"
  using assms(1-3,5-)
proof (induction xs arbitrary: A)
  case (Cons x xs)
  note c = clock_allocations [OF Cons.prems(7)]
  show ?case
  proof (cases "x = TFree p")
    case True
    have "u \<noteq> t" if "q \<noteq> p" "t_blocks A q = Some (k, u)" for q k u
      using Cons.prems(1,2) that unfolding stamps_ok_def by blast
    then have "dangling t v (t_apply x A)"
      using Cons.prems(2,3) stamps_ok_bounds [OF Cons.prems(1,2)] True by (auto simp: dangling_def)
    then show ?thesis using dangling_fold [OF _ _ c(2)] Cons.prems(6) by simp
  next
    case False
    have "q \<noteq> p" if m: "x = TMalloc q k" for q k
    proof
      assume "q = p"
      moreover have "heap_sizes (lengths (t_blocks A)) p = Some (asz n)" using Cons.prems(2) by (simp add: heap_sizes_def)
      moreover have "apart_from (heap_sizes (lengths (t_blocks A))) q (asz k)" "0 < asz k"
        using Cons.prems(4) m heap_blockD(8) [of L q k] by auto
      moreover have "0 < asz n" using assms(4) asz_bounds(1) [of n] by linarith
      ultimately show False using apart_new [of "heap_sizes (lengths (t_blocks A))" q "asz k"] by simp
    qed
    then have b: "t_blocks (t_apply x A) p = Some (n, t)" using Cons.prems(2) False by (cases x) (auto split: option.splits)
    have "\<not> assigns_to v x" using Cons.prems(6) by simp
    then have r: "t_refs (t_apply x A) v \<in> {t, 0}" using Cons.prems(3) by (cases x) (auto split: option.splits)
    show ?thesis
      using Cons.IH [OF stamps_ok_step [OF Cons.prems(1) c(1)] b r _ _ _ c(2)] Cons.prems(4-6) False by simp
  qed
qed simp

section \<open>A concrete state\<close>

definition ex_tpartition :: "u64 \<Rightarrow> u64 \<Rightarrow> memory_partition" where
  "ex_tpartition a ratio = (ex_partition a ratio)
     \<lparr>temporal_primary := ex_shadow (ex_app a) 1 (a + 0x6000), temporal_secondary := ex_shadow (ex_app a) 1 (a + 0x8000)\<rparr>"

definition ex_tlayout :: memory_layout where
  "ex_tlayout = \<lparr>lay_heap = ex_tpartition 0x100000 8, lay_stack = ex_tpartition 0x110000 1,
     lay_global = ex_tpartition 0x120000 1, lay_tls = ex_tpartition 0x130000 1, is_initialized = True\<rparr>"

definition ex_tseg :: seg_state where
  "ex_tseg = ex_seg\<lparr>layout := ex_tlayout\<rparr>"

definition ex_tenv :: rt_env where
  "ex_tenv = ex_env\<lparr>rt_build := \<lparr>temporal = True, weak_validity = False, free_valid_address = False\<rparr>\<rparr>"

definition ex_abs :: t_abs where
  "ex_abs = \<lparr>t_blocks = Map.empty, t_refs = (\<lambda>_. 0), t_clock = 2\<rparr>"

lemmas ex_t_defs = ex_tlayout_def ex_tpartition_def ex_partition_def ex_shadow_def ex_app_def set_application_segment_def

lemma ex_tlayout_ok: "temporal_ok ex_tlayout"
proof -
  have "layout_wf ex_tlayout" by (simp add: layout_wf_def shadows_def ex_t_defs Let_def)
  moreover have "validate_shadow_layout True ex_tlayout = Inr ()" by code_simp
  ultimately show ?thesis by (simp add: temporal_ok_def mem_partitions_def shadows_def ex_t_defs Let_def)
qed

lemma ex_t_state: "t_state ex_tenv ex_tlayout (spaces ex_seg) ex_tseg ex_abs"
proof -
  have z: "load_le k (\<lambda>_. 0) a = 0" for k a by (rule bit_word_eqI) simp
  have "heap_aligned ex_tlayout" by (simp add: heap_aligned_def HEAP_START_def ex_t_defs)
  then have "heap_rep ex_tseg Map.empty"
    using temporal_layout_ok [OF ex_tlayout_ok] z by (simp add: heap_rep_def ex_tseg_def ex_seg_def separate_def heap_sizes_def)
  then show ?thesis
    using ex_tlayout_ok z by (simp add: t_state_def t_rep_def ex_abs_def ex_tseg_def ex_seg_def ex_tenv_def ex_env_def)
qed

lemma ex_t_block: "heap_block ex_tlayout 0x100040 40"
  by (simp add: heap_block_def asz_40 HEAP_START_def ex_t_defs)

lemma ex_t_var: "var_ok ex_tlayout 0x110010"
  by (simp add: var_ok_def static_block_def ex_t_defs)

lemma ex_t_addr: "heap_addr ex_tlayout 0x100040"
  by (simp add: heap_addr_def HEAP_START_def ex_t_defs)

text \<open>One block, and a variable of the stack that points to it.\<close>

definition ex_ops :: "t_op list" where
  "ex_ops = [TMalloc 0x100040 40, TTake 0x110010 0x100040 8]"

lemma ex_ops_legal: "legal_ops (t_legal ex_tlayout (spaces ex_seg)) t_apply ex_ops ex_abs"
  using ex_t_block ex_t_var by (simp add: ex_ops_def ex_abs_def apart_from_def covered_def heap_sizes_def ex_seg_def asz_40)

section \<open>Properties\<close>



text \<open>
  C32: a dangling pointer is never taken for a valid one. Let a variable hold a pointer to a live block, which
  is valid. After any operations that free the block and do not assign the variable, with fewer than \<open>2\<^sup>3\<^sup>2\<close>
  allocations in all, no access through the variable is valid, although the memory may have been allocated
  again, by any number of blocks at the same address.
\<close>

theorem temporal_detects_dangling:
  assumes "t_state E L sp s A" and "stamps_ok A" and "t_blocks A p = Some (n, t)" and "t_refs A v = t"
    and "legal_ops (t_legal L sp) t_apply xs A" and "TFree p \<in> set xs" and "\<And>x. x \<in> set xs \<Longrightarrow> \<not> assigns_to v x"
    and "unat (t_clock A) + allocations xs < 2 ^ 32" and "\<not> weak_validity (rt_build E)"
    and "heap_addr L ptr" and "heap_addr L base" and "sz < 2 ^ 63" and "var_ok L v" and "v \<noteq> 0" and "v \<notin> {p, base}"
    and "k \<le> n"
  shows "valid_read_seg (rt_build E) p (of_nat k) p v s = Some (Inr True) \<and>
    (\<exists>s'. run_ops (t_step E pa) xs s = Some s' \<and> valid_read_seg (rt_build E) ptr (of_nat sz) base v s' = Some (Inr False))"
proof
  have st: "t_rep s (t_blocks A) (t_refs A)" "layout s = L" "temporal (rt_build E)" using assms(1) by (simp_all add: t_state_def)
  note b = heap_blockD [OF t_rep_block [OF st(1) assms(3)]]
  have "heap_addr (layout s) p" using b(5,6,8) by (simp add: heap_addr_def word_less_nat_alt)
  moreover have "k < 2 ^ 63" using b(4) assms(16) by simp
  moreover have "inside p (asz n) p" using b(8) by simp
  then have "t_accessible (t_blocks A) (t_refs A) p k p v" using assms(3,4,16) unfolding t_accessible_def by (intro exI [of _ p] exI [of _ n] exI [of _ t]) simp
  ultimately show "valid_read_seg (rt_build E) p (of_nat k) p v s = Some (Inr True)"
    using t_valid_read [OF st(1,3) assms(9), of p p k v] assms(13-15) st(2) by simp
  let ?A = "fold t_apply xs A"
  have r0: "t_refs A v \<in> {t, 0}" using assms(4) by simp
  have d: "dangling t v ?A" by (rule freed_dangles [OF assms(2,3) r0 b(3) assms(5-8)])
  obtain s' where s': "run_ops (t_step E pa) xs s = Some s'" "t_state E L sp s' ?A"
    using temporal_sim.history [OF assms(1,5)] by blast
  then have s1: "t_rep s' (t_blocks ?A) (t_refs ?A)" "layout s' = L" by (simp_all add: t_state_def)
  have "stamps_ok ?A"
    using assms(2,8)
  proof (induction xs arbitrary: A)
    case (Cons x xs)
    then show ?case using stamps_ok_step clock_allocations [of A x xs] by simp
  qed simp
  then have "\<not> t_accessible (t_blocks ?A) (t_refs ?A) ptr sz base v"
    using d stamps_ok_bounds unfolding t_accessible_def dangling_def by fastforce
  then show "\<exists>s'. run_ops (t_step E pa) xs s = Some s' \<and> valid_read_seg (rt_build E) ptr (of_nat sz) base v s' = Some (Inr False)"
    using s' t_valid_read [OF s1(1) st(3) assms(9), of ptr base sz v] assms(10-15) s1(2) by auto
qed

theorem temporal_detects_dangling_witness:
  "\<exists>s s'. run_ops (t_step ex_tenv ex_heap_alloc) ex_ops ex_tseg = Some s \<and>
    valid_read_seg (rt_build ex_tenv) 0x100040 40 0x100040 0x110010 s = Some (Inr True) \<and>
    run_ops (t_step ex_tenv ex_heap_alloc) [TFree 0x100040, TMalloc 0x100040 40] s = Some s' \<and>
    valid_read_seg (rt_build ex_tenv) 0x100040 4 0x100040 0x110010 s' = Some (Inr False)"
proof -
  let ?A = "fold t_apply ex_ops ex_abs" and ?xs = "[TFree 0x100040, TMalloc 0x100040 40]"
  obtain s where s: "run_ops (t_step ex_tenv ex_heap_alloc) ex_ops ex_tseg = Some s" "t_state ex_tenv ex_tlayout (spaces ex_seg) s ?A"
    using temporal_sim.history [OF ex_t_state ex_ops_legal] by blast
  have A: "t_blocks ?A = [0x100040 \<mapsto> (40, 3)]" "t_refs ?A 0x110010 = 3" "t_clock ?A = 3"
    by (auto simp: ex_ops_def ex_abs_def)
  then have "stamps_ok ?A" by (auto simp: stamps_ok_def split: if_splits)
  moreover have "legal_ops (t_legal ex_tlayout (spaces ex_seg)) t_apply ?xs ?A"
    using ex_t_block A(1) by (simp add: apart_from_def covered_def heap_sizes_def ex_seg_def asz_40)
  moreover have "\<not> assigns_to 0x110010 x" if "x \<in> set ?xs" for x using that by auto
  moreover have "\<not> weak_validity (rt_build ex_tenv)" by (simp add: ex_tenv_def)
  ultimately show ?thesis
    using temporal_detects_dangling [OF s(2) _ _ A(2) _ _ _ _ _ ex_t_addr ex_t_addr _ ex_t_var, of "0x100040" 40 ?xs 4 40 ex_heap_alloc] A s(1)
    by auto
qed

text \<open>
  C33: \<^verbatim>\<open>realloc\<close> loses the referents of the pointers that the block holds. Let a variable in a heap block point to
  another live block, which is valid. After the first block has been extended in place, which does not change
  its contents nor the other block, an access through the variable is reported as invalid: the referents of
  the old block are cleared and not carried over to the new one.
\<close>

theorem temporal_realloc_false_alarm:
  assumes "t_rep s B R" and "temporal (rt_build E)" and "\<not> weak_validity (rt_build E)" and "B p = Some (n, u)"
    and "B q = Some (k, t)" and "p \<noteq> q" and "0 < t" and "var_ok (layout s) v" and "inside p (asz n) v" and "v \<noteq> 0"
    and "R v = t" and "sz \<le> k" and "n \<le> n'" and "heap_block (layout s) p n'"
    and "apart_from (heap_sizes (lengths (B(p := None)))) p (asz n')"
    and "public_realloc pa s p (of_nat (asz n')) = p"
    and "heap_mspace_least (spaces s) = mspace_least_addr (rt_mspaces E) (heap_mspace (spaces s))"
    and "p + of_nat (asz n') < heap_end (spaces s)"
  shows "valid_read_seg (rt_build E) q (of_nat sz) q v s = Some (Inr True) \<and>
    (\<exists>s'. realloc_seg E pa p (of_nat n') s = Some (Inr (p, s')) \<and> (\<exists>u. t_rep s' (B(p \<mapsto> (n', u))) (\<lambda>v. if inside p (asz n) v then 0 else R v)) \<and>
      valid_read_seg (rt_build E) q (of_nat sz) q v s' = Some (Inr False))"
proof -
  note r = t_repD [OF assms(1)] and b = heap_blockD [OF t_rep_block [OF assms(1,5)]]
  have q: "heap_addr (layout s) q" by (rule t_freeable(3) [OF assms(1,5)])
  have sz: "sz < 2 ^ 63" using assms(12) b(4) by simp
  have iq: "inside q (asz k) q" using b(8) by simp
  have vq: "v \<noteq> q" using heap_sep [OF r(3), of p n q k q] assms(4-6,9) iq by auto
  have "t_accessible B R q sz q v" using assms(5,11,12) iq unfolding t_accessible_def by (intro exI [of _ q] exI [of _ k] exI [of _ t]) simp
  then have "valid_read_seg (rt_build E) q (of_nat sz) q v s = Some (Inr True)"
    using t_valid_read [OF assms(1-3) q q sz assms(8,10) vq] by simp
  moreover obtain s' where s': "realloc_seg E pa p (of_nat n') s = Some (Inr (p, s'))" "layout s' = layout s"
      "t_rep s' (B(p \<mapsto> (n', temporal_timestamp s + 1))) (\<lambda>v. if inside p (asz n) v then 0 else R v)"
    by (rule t_realloc [OF assms(1,2,4,14,15,13,16-18)])
  let ?B = "B(p \<mapsto> (n', temporal_timestamp s + 1))" and ?R = "\<lambda>v. if inside p (asz n) v then 0 else R v"
  have "\<not> t_accessible ?B ?R q sz q v"
  proof
    assume "t_accessible ?B ?R q sz q v"
    then obtain p' n1 t' where p': "?B p' = Some (n1, t')" "inside p' (asz n1) q" "?R v = t'" unfolding t_accessible_def by blast
    have "lengths ?B p' = Some n1" "lengths ?B q = Some k" using p'(1) assms(5,6) by auto
    from heap_sep [OF t_repD(3) [OF s'(3)] this p'(2) iq] have "p' = q" .
    then show False using p'(1,3) assms(5-7,9) by simp
  qed
  then have "valid_read_seg (rt_build E) q (of_nat sz) q v s' = Some (Inr False)"
    using t_valid_read [OF s'(3) assms(2,3), of q q sz v] q sz assms(8,10) vq s'(2) by simp
  ultimately show ?thesis using s' by blast
qed

theorem temporal_realloc_false_alarm_witness:
  "\<exists>s s'. run_ops (t_step ex_tenv ex_heap_alloc) [TMalloc 0x100040 40, TMalloc 0x100100 40, TTake 0x100048 0x100100 0] ex_tseg = Some s \<and>
    valid_read_seg (rt_build ex_tenv) 0x100100 4 0x100100 0x100048 s = Some (Inr True) \<and>
    realloc_seg ex_tenv ex_heap_alloc 0x100040 60 s = Some (Inr (0x100040, s')) \<and>
    valid_read_seg (rt_build ex_tenv) 0x100100 4 0x100100 0x100048 s' = Some (Inr False)"
proof -
  let ?xs = "[TMalloc 0x100040 40, TMalloc 0x100100 40, TTake 0x100048 0x100100 0]"
  let ?A = "fold t_apply ?xs ex_abs"
  have a60: "asz 60 = 64" by (simp add: asz_def)
  have bl: "heap_block ex_tlayout 0x100100 40" "heap_block ex_tlayout 0x100040 60"
    by (simp_all add: heap_block_def asz_40 a60 HEAP_START_def ex_t_defs)
  have v: "var_ok ex_tlayout 0x100048" by (simp add: var_ok_def heap_addr_def HEAP_START_def ex_t_defs)
  have far: "apart_from (heap_sizes (lengths [0x100040 \<mapsto> (40, 3)])) 0x100100 64"
    "apart_from (heap_sizes (lengths [0x100100 \<mapsto> (40, 4)])) 0x100040 64"
    by (auto simp: apart_from_def covered_def heap_sizes_def asz_40 inside_range split: if_splits)
  have "legal_ops (t_legal ex_tlayout (spaces ex_seg)) t_apply ?xs ex_abs"
    using ex_t_block bl(1) v far(1) by (simp add: ex_abs_def apart_from_def covered_def heap_sizes_def ex_seg_def asz_40)
  then obtain s where s: "run_ops (t_step ex_tenv ex_heap_alloc) ?xs ex_tseg = Some s" "t_state ex_tenv ex_tlayout (spaces ex_seg) s ?A"
    using temporal_sim.history [OF ex_t_state] by blast
  define B R where "B = t_blocks ?A" and "R = t_refs ?A"
  have B: "B = [0x100040 \<mapsto> (40, 3), 0x100100 \<mapsto> (40, 4)]" "R 0x100048 = 4" by (auto simp: ex_abs_def B_def R_def)
  have st: "t_rep s B R" "layout s = ex_tlayout" "spaces s = spaces ex_seg" using s(2) by (simp_all add: t_state_def B_def R_def)
  have "B(0x100040 := None) = [0x100100 \<mapsto> (40, 4)]" unfolding B(1) by auto
  then have ap: "apart_from (heap_sizes (lengths (B(0x100040 := None)))) 0x100040 (asz 60)"
    using far(2) by (simp only: a60)
  have b: "B 0x100040 = Some (40, 3)" "B 0x100100 = Some (40, 4)" using B(1) by simp_all
  have e: "temporal (rt_build ex_tenv)" "\<not> weak_validity (rt_build ex_tenv)" by (simp_all add: ex_tenv_def)
  have h: "inside 0x100040 (asz 40) (0x100048 :: u64)" "public_realloc ex_heap_alloc s 0x100040 (of_nat (asz 60)) = 0x100040"
    "heap_mspace_least (spaces s) = mspace_least_addr (rt_mspaces ex_tenv) (heap_mspace (spaces s))"
    "0x100040 + of_nat (asz 60) < heap_end (spaces s)" "heap_block (layout s) 0x100040 60" "var_ok (layout s) 0x100048"
    using st(2,3) bl(2) v by (simp_all add: inside_def asz_40 a60 ex_heap_alloc_def ex_seg_def ex_tenv_def ex_env_def)
  show ?thesis
    using temporal_realloc_false_alarm [OF st(1) e b _ _ h(6,1) _ B(2) _ _ h(5) ap h(2-4), of 4] s(1) by auto
qed

end
