(* ===== verification/Libc_Math.thy ===== *)
theory Libc_Math
  imports Libc_Builtin "HOL-Library.Signed_Division"
begin

unbundle bit_operations_syntax

text \<open>
  \<^verbatim>\<open>math.c\<close>, \<^verbatim>\<open>inttypes.c\<close> and \<^verbatim>\<open>fenv.c\<close>. A \<^verbatim>\<open>double\<close> or \<^verbatim>\<open>float\<close> is its IEEE 754 representation, which the code
  itself looks at through a union; the comparisons with zero and the negation are those of the standard:
  not-a-number compares false, negation flips the sign bit. \<open>None\<close> is an overflow or a division by zero.
\<close>

section \<open>Floating-point numbers\<close>

definition exponent64 :: "u64 \<Rightarrow> nat" where "exponent64 x = unat (take_bit 11 (drop_bit 52 x))"
definition exponent32 :: "u32 \<Rightarrow> nat" where "exponent32 x = unat (take_bit 8 (drop_bit 23 x))"
definition nan64 :: "u64 \<Rightarrow> bool" where "nan64 x \<longleftrightarrow> exponent64 x = 2047 \<and> take_bit 52 x \<noteq> 0"
definition nan32 :: "u32 \<Rightarrow> bool" where "nan32 x \<longleftrightarrow> exponent32 x = 255 \<and> take_bit 23 x \<noteq> 0"
definition zero64 :: "u64 \<Rightarrow> bool" where "zero64 x \<longleftrightarrow> take_bit 63 x = 0"
definition zero32 :: "u32 \<Rightarrow> bool" where "zero32 x \<longleftrightarrow> take_bit 31 x = 0"

definition fabs :: "u64 \<Rightarrow> u64" where
  "fabs x = (if zero64 x then 0
     else if \<not> zero64 x \<and> \<not> nan64 x \<and> \<not> bit x 63 then x
     else flip_bit 63 x)"

definition fabsf :: "u32 \<Rightarrow> u32" where
  "fabsf x = (if zero32 x then 0
     else if \<not> zero32 x \<and> \<not> nan32 x \<and> \<not> bit x 31 then x
     else flip_bit 31 x)"

text \<open>The words of the union: \<^verbatim>\<open>u.w[1]\<close> of a float, \<^verbatim>\<open>u.w[3]\<close> of a double.\<close>

definition fc_finitef :: "u32 \<Rightarrow> bool" where
  "fc_finitef f =
     (let usExp = ucast (drop_bit 16 f) AND 0x7F80 :: 16 word;
          usExp = drop_bit 7 usExp
      in \<not> usExp = 0xff)"

definition fc_finite :: "u64 \<Rightarrow> bool" where
  "fc_finite d =
     (let usExp = ucast (drop_bit 48 d) AND 0x7F80 :: 16 word;
          usExp = drop_bit 7 usExp
      in \<not> usExp = 0xff)"

section \<open>Integers\<close>

definition in_intmax :: "int \<Rightarrow> int option" where
  "in_intmax n = (if - (2 ^ 63) \<le> n \<and> n < 2 ^ 63 then Some n else None)"

definition imaxabs :: "int \<Rightarrow> int option" where
  "imaxabs c = (if c > 0 then Some c else in_intmax (- c))"

definition imaxdiv :: "int \<Rightarrow> int \<Rightarrow> (int \<times> int) option" where
  "imaxdiv numer denom =
     (if denom = 0 then None
      else do {
        quot \<leftarrow> in_intmax (numer sdiv denom);
        let rm = numer smod denom;
        Some (quot, rm) })"

section \<open>The floating-point environment\<close>

text \<open>The status word is volatile: a stream of values. The argument is not used.\<close>

definition fetestexcept :: "int \<Rightarrow> ('a libc_state_scheme, int) state" where
  "fetestexcept excepts = do { x \<leftarrow> read_entropy; State_Monad.return (0x00FF AND x) }"

section \<open>Classification\<close>

lemma exponent_field: "drop_bit 7 (w AND 0x7F80) = take_bit 8 (drop_bit 7 w)" for w :: "16 word"
proof -
  have m: "(0x7F80 :: 16 word) = push_bit 7 (mask 8)" by (simp add: mask_eq_exp_minus_1)
  show ?thesis unfolding m by (rule bit_word_eqI) (auto simp: bit_simps)
qed

lemma field_bound: "unat (take_bit k x) < 2 ^ k" for x :: "'a::len word"
  by (simp add: unsigned_take_bit_eq)

lemma field_ucast: "unat (ucast (take_bit 8 x) :: 16 word) = unat (take_bit 8 x)" for x :: "'a::len word"
proof -
  have "unat (take_bit 8 x) < 2 ^ 16" using field_bound [of 8 x] by simp
  then show ?thesis by (simp add: unsigned_ucast_eq take_bit_nat_eq_self)
qed

text \<open>The test looks at the eight highest bits of the exponent.\<close>

lemma finitef_iff: "fc_finitef f \<longleftrightarrow> exponent32 f < 255"
proof -
  have "take_bit 8 (drop_bit 7 (ucast (drop_bit 16 f) :: 16 word)) = (ucast (take_bit 8 (drop_bit 23 f)) :: 16 word)"
    by (rule bit_word_eqI) (auto simp: bit_simps)
  then have "fc_finitef f \<longleftrightarrow> (ucast (take_bit 8 (drop_bit 23 f)) :: 16 word) \<noteq> 0xff"
    unfolding fc_finitef_def Let_def exponent_field by simp
  also have "\<dots> \<longleftrightarrow> unat (take_bit 8 (drop_bit 23 f)) \<noteq> 255"
    unfolding word_unat_eq_iff field_ucast by simp
  finally show ?thesis using field_bound [of 8 "drop_bit 23 f"] by (auto simp: exponent32_def)
qed

lemma finite_iff: "fc_finite d \<longleftrightarrow> exponent64 d < 2040"
proof -
  have "take_bit 8 (drop_bit 7 (ucast (drop_bit 48 d) :: 16 word)) = (ucast (take_bit 8 (drop_bit 55 d)) :: 16 word)"
    by (rule bit_word_eqI) (auto simp: bit_simps)
  then have "fc_finite d \<longleftrightarrow> (ucast (take_bit 8 (drop_bit 55 d)) :: 16 word) \<noteq> 0xff"
    unfolding fc_finite_def Let_def exponent_field by simp
  also have "\<dots> \<longleftrightarrow> unat (take_bit 8 (drop_bit 55 d)) \<noteq> 255"
    unfolding word_unat_eq_iff field_ucast by simp
  also have "take_bit 8 (drop_bit 55 d) = drop_bit 3 (take_bit 11 (drop_bit 52 d))"
    by (rule bit_word_eqI) (auto simp: bit_simps)
  also have "unat \<dots> = exponent64 d div 8" by (simp add: exponent64_def drop_bit_eq_div unat_div)
  finally have "fc_finite d \<longleftrightarrow> exponent64 d div 8 \<noteq> 255" .
  moreover have "exponent64 d < 2 ^ 11" unfolding exponent64_def by (rule field_bound)
  ultimately show ?thesis by simp linarith
qed

lemma flip_clears: "bit x (LENGTH('a) - 1) \<Longrightarrow> flip_bit (LENGTH('a) - 1) x = take_bit (LENGTH('a) - 1) x" for x :: "'a::len word"
  by (rule bit_word_eqI) (auto simp: bit_simps)

lemma keep_clear: "\<not> bit x (LENGTH('a) - 1) \<Longrightarrow> x = take_bit (LENGTH('a) - 1) x" for x :: "'a::len word"
proof (rule bit_word_eqI)
  fix n
  assume "\<not> bit x (LENGTH('a) - 1)" "n < LENGTH('a)"
  then show "bit x n = bit (take_bit (LENGTH('a) - 1) x) n"
    by (cases "n = LENGTH('a) - 1") (auto simp: bit_simps)
qed

lemma fabs_eq: "\<not> nan64 x \<Longrightarrow> fabs x = take_bit 63 x"
  using flip_clears [of x] keep_clear [of x] by (auto simp: fabs_def zero64_def)

lemma fabsf_eq: "\<not> nan32 x \<Longrightarrow> fabsf x = take_bit 31 x"
  using flip_clears [of x] keep_clear [of x] by (auto simp: fabsf_def zero32_def)

lemma fabs_nan: "nan64 x \<Longrightarrow> nan64 (fabs x)"
proof -
  assume n: "nan64 x"
  have f: "take_bit 11 (drop_bit 52 (flip_bit 63 x)) = take_bit 11 (drop_bit 52 x)" "take_bit 52 (flip_bit 63 x) = take_bit 52 x"
    by (rule bit_word_eqI; auto simp: bit_simps)+
  have "take_bit 52 x = 0" if "take_bit 63 x = 0" using arg_cong [OF that, of "take_bit 52"] by simp
  then have "\<not> zero64 x" using n by (auto simp: zero64_def nan64_def)
  then have "fabs x = flip_bit 63 x" using n by (simp add: fabs_def)
  then show ?thesis using n f by (simp add: nan64_def exponent64_def)
qed

lemma fabsf_nan: "nan32 x \<Longrightarrow> nan32 (fabsf x)"
proof -
  assume n: "nan32 x"
  have f: "take_bit 8 (drop_bit 23 (flip_bit 31 x)) = take_bit 8 (drop_bit 23 x)" "take_bit 23 (flip_bit 31 x) = take_bit 23 x"
    by (rule bit_word_eqI; auto simp: bit_simps)+
  have "take_bit 23 x = 0" if "take_bit 31 x = 0" using arg_cong [OF that, of "take_bit 23"] by simp
  then have "\<not> zero32 x" using n by (auto simp: zero32_def nan32_def)
  then have "fabsf x = flip_bit 31 x" using n by (simp add: fabsf_def)
  then show ?thesis using n f by (simp add: nan32_def exponent32_def)
qed

lemma sdiv_fits:
  fixes a b :: int
  assumes "- (2 ^ 63) \<le> a" and "a < 2 ^ 63" and "b \<noteq> 0"
  shows "in_intmax (a sdiv b) = (if a = - (2 ^ 63) \<and> b = - 1 then None else Some (a sdiv b))"
proof -
  consider "b = 1" | "b = - 1" | "2 \<le> \<bar>b\<bar>" using assms(3) by linarith
  then show ?thesis
  proof cases
    case 1
    then have "a sdiv b = a" by simp
    then show ?thesis using assms 1 by (simp add: in_intmax_def)
  next
    case 2
    then have "a sdiv b = - a" by simp
    then show ?thesis using assms 2 by (auto simp: in_intmax_def)
  next
    case 3
    have "\<bar>a\<bar> div \<bar>b\<bar> \<le> \<bar>a\<bar> div 2" using zdiv_mono2 [of "\<bar>a\<bar>" 2 "\<bar>b\<bar>"] 3 by simp
    also have "\<dots> \<le> 2 ^ 62" using assms(1,2) by simp
    finally have le: "\<bar>a\<bar> div \<bar>b\<bar> \<le> 2 ^ 62" .
    have "0 \<le> \<bar>a\<bar> div \<bar>b\<bar>" using 3 by (intro div_int_pos_iff [THEN iffD2]) auto
    then have "\<bar>a sdiv b\<bar> \<le> 2 ^ 62" using le by (simp add: signed_divide_int_def abs_mult abs_sgn_eq)
    moreover have "b \<noteq> - 1" using 3 by auto
    ultimately show ?thesis unfolding in_intmax_def by auto
  qed
qed

lemma smod_facts:
  fixes a b :: int
  assumes "b \<noteq> 0"
  shows "a = a sdiv b * b + a smod b" and "\<bar>a smod b\<bar> < \<bar>b\<bar>" and "0 \<le> a smod b * a"
proof -
  show "a = a sdiv b * b + a smod b" using mult_sdiv_smod_eq [of b a] by (simp add: mult.commute)
  show "\<bar>a smod b\<bar> < \<bar>b\<bar>" using smod_int_range [OF assms, of a] by auto
  have "0 \<le> \<bar>a\<bar> mod \<bar>b\<bar>" using assms by simp
  moreover have "sgn a * a = \<bar>a\<bar>" by (simp add: abs_sgn mult.commute)
  moreover have "a smod b * a = sgn a * a * (\<bar>a\<bar> mod \<bar>b\<bar>)" by (simp add: signed_modulo_int_def)
  ultimately show "0 \<le> a smod b * a" by simp
qed

section \<open>Contracts of the integer functions\<close>

text \<open>The preconditions that \<^verbatim>\<open>inttypes.h\<close> gives to \<^verbatim>\<open>imaxabs\<close> and \<^verbatim>\<open>imaxdiv\<close>; the cast to \<^verbatim>\<open>intmax_t\<close> wraps around.\<close>

definition imaxabs_requires :: "u64 \<Rightarrow> bool" where
  "imaxabs_requires c \<longleftrightarrow> - c \<noteq> c"

definition imaxdiv_requires :: "u64 \<Rightarrow> u64 \<Rightarrow> bool" where
  "imaxdiv_requires numer denom \<longleftrightarrow> denom \<noteq> 0 \<and> (denom \<noteq> - 1 \<or> - numer \<noteq> numer)"

lemma own_negation: "- c = c \<longleftrightarrow> c = 0 \<or> sint c = - (2 ^ 63)" for c :: u64
proof
  assume "- c = c"
  then have "c + c = 0" by (metis add.right_inverse)
  then have "(unat c + unat c) mod 2 ^ 64 = 0" using unat_word_ariths(1) [of c c] by simp
  then obtain k where k: "unat c + unat c = 2 ^ 64 * k" by (auto simp: mod_eq_0_iff_dvd elim!: dvdE)
  moreover have "unat c < 2 ^ 64" by (rule unat_lt_64)
  ultimately have "2 ^ 64 * k < 2 ^ 64 * (2 :: nat)" by simp
  then have "k = 0 \<or> k = 1" by auto
  then have "unat c = 0 \<or> unat c = 2 ^ 63" using k by auto
  then have "c = 0 \<or> c = 2 ^ 63" by (auto simp: word_unat_eq_iff)
  then show "c = 0 \<or> sint c = - (2 ^ 63)" by auto
next
  assume "c = 0 \<or> sint c = - (2 ^ 63)"
  moreover have "c = 2 ^ 63" if "sint c = - (2 ^ 63)" using that signed_word_eqI [of c "2 ^ 63"] by simp
  ultimately have "c = 0 \<or> c = 2 ^ 63" by blast
  then show "- c = c" by auto
qed

text \<open>
  C39: \<^verbatim>\<open>isfinite\<close> and \<^verbatim>\<open>fabs\<close>. \<^verbatim>\<open>__finitef\<close> is true of exactly the floats that are no infinity and no
  not-a-number. \<^verbatim>\<open>__finite\<close> is not: it uses the mask of the single precision, sees eight of the eleven bits of the
  exponent, and is false of every double from \<open>2\<^sup>1\<^sup>0\<^sup>1\<^sup>7\<close> on, of which those below the exponent 2047 are
  finite. \<^verbatim>\<open>fabs\<close> and \<^verbatim>\<open>fabsf\<close> clear the sign bit
  of every number and return not-a-number for one. \<^verbatim>\<open>imaxabs\<close> overflows for the smallest
  integer only; \<^verbatim>\<open>imaxdiv\<close> returns unless the denominator is zero or the quotient is not representable, the truncated
  quotient and the remainder with the sign of the numerator. The preconditions of the header exclude more: they
  hold of the arguments for which the functions return, less the argument 0 of \<^verbatim>\<open>imaxabs\<close> and the
  arguments 0 and -1 of \<^verbatim>\<open>imaxdiv\<close>.
\<close>

theorem number_functions:
  shows "(fc_finitef f \<longleftrightarrow> exponent32 f \<noteq> 255) \<and>
    (fc_finite d \<longleftrightarrow> exponent64 d < 2040) \<and>
    (if nan64 d then nan64 (fabs d) else fabs d = take_bit 63 d) \<and> (if nan32 f then nan32 (fabsf f) else fabsf f = take_bit 31 f) \<and>
    imaxabs (sint (x :: u64)) = (if sint x = - (2 ^ 63) then None else Some \<bar>sint x\<bar>) \<and>
    (if sint y = 0 \<or> sint x = - (2 ^ 63) \<and> sint y = - 1 then imaxdiv (sint x) (sint (y :: u64)) = None
     else \<exists>q r. imaxdiv (sint x) (sint y) = Some (q, r) \<and> sint x = q * sint y + r \<and> \<bar>r\<bar> < \<bar>sint y\<bar> \<and> 0 \<le> r * sint x) \<and>
    (imaxabs_requires x \<longleftrightarrow> imaxabs (sint x) \<noteq> None \<and> x \<noteq> 0) \<and>
    (imaxdiv_requires x y \<longleftrightarrow> imaxdiv (sint x) (sint y) \<noteq> None \<and> \<not> (x = 0 \<and> y = - 1))"
proof (intro conjI)
  have "exponent32 f < 2 ^ 8" unfolding exponent32_def by (rule field_bound)
  then show "fc_finitef f \<longleftrightarrow> exponent32 f \<noteq> 255" using finitef_iff [of f] by auto
  show "fc_finite d \<longleftrightarrow> exponent64 d < 2040" by (rule finite_iff)
  show "if nan64 d then nan64 (fabs d) else fabs d = take_bit 63 d" using fabs_eq fabs_nan by simp
  show "if nan32 f then nan32 (fabsf f) else fabsf f = take_bit 31 f" using fabsf_eq fabsf_nan by simp
  have r: "- (2 ^ 63) \<le> sint z" "sint z < 2 ^ 63" for z :: u64
    using sint_greater_eq [of z] sint_less [of z] by simp_all
  show ia: "imaxabs (sint x) = (if sint x = - (2 ^ 63) then None else Some \<bar>sint x\<bar>)"
    using r [of x] by (auto simp: imaxabs_def in_intmax_def)
  show id: "if sint y = 0 \<or> sint x = - (2 ^ 63) \<and> sint y = - 1 then imaxdiv (sint x) (sint y) = None
     else \<exists>q r. imaxdiv (sint x) (sint y) = Some (q, r) \<and> sint x = q * sint y + r \<and> \<bar>r\<bar> < \<bar>sint y\<bar> \<and> 0 \<le> r * sint x"
  proof (cases "sint y = 0")
    case False
    then show ?thesis
      using sdiv_fits [OF r(1) [of x] r(2) [of x] False] smod_facts [OF False, of "sint x"] by (auto simp: imaxdiv_def)
  qed (simp add: imaxdiv_def)
  show "imaxabs_requires x \<longleftrightarrow> imaxabs (sint x) \<noteq> None \<and> x \<noteq> 0"
    using own_negation [of x] unfolding ia imaxabs_requires_def by auto
  have "sint y = 0 \<longleftrightarrow> y = 0" "sint y = - 1 \<longleftrightarrow> y = - 1"
    using signed_word_eqI [of y 0] signed_word_eqI [of y "- 1"] by auto
  then show "imaxdiv_requires x y \<longleftrightarrow> imaxdiv (sint x) (sint y) \<noteq> None \<and> \<not> (x = 0 \<and> y = - 1)"
    using id own_negation [of x] unfolding imaxdiv_requires_def by (auto split: if_splits)
qed

end
