(* ===== verification/Libc_Stdio.thy ===== *)
theory Libc_Stdio
  imports Libc_String_Loops Memory_Model
begin

text \<open>
  \<^verbatim>\<open>getline\<close> of \<^verbatim>\<open>stdio.c\<close>. A stream is the bytes that are left with its two indicators; at the end of
  the bytes the next read sets one of them. \<^verbatim>\<open>malloc\<close> and \<^verbatim>\<open>realloc\<close> are parameters. \<open>None\<close> is a write through a
  null pointer, or a loop that does not end.
\<close>

section \<open>Definitions\<close>

record FILE =
  f_data :: "u8 list"
  f_fails :: bool
  f_eof :: bool
  f_err :: bool

definition fgetc :: "FILE \<Rightarrow> int \<times> FILE" where
  "fgetc f =
     (if f_eof f then (- 1, f)
      else case f_data f of
        c # cs \<Rightarrow> (uint c, f\<lparr>f_data := cs\<rparr>)
      | [] \<Rightarrow> (- 1, if f_fails f then f\<lparr>f_err := True\<rparr> else f\<lparr>f_eof := True\<rparr>))"

record io_state =
  io_mem :: mem
  io_stream :: FILE
  io_errno :: int

definition EINVAL :: int where "EINVAL = 22"
definition EOVERFLOW :: int where "EOVERFLOW = 75"
definition ENOMEM_io :: int where "ENOMEM_io = 12"

definition SSIZE_MAX :: u64 where "SSIZE_MAX = 2 ^ 63 - 1"

text \<open>An assignment to \<^verbatim>\<open>(*lineptr)[i]\<close>.\<close>

definition put_char :: "u64 \<Rightarrow> u64 \<Rightarrow> u8 \<Rightarrow> io_state \<Rightarrow> io_state option" where
  "put_char lineptr i c s =
     (let b = load64 (io_mem s) lineptr
      in if b = 0 then None else Some (s\<lparr>io_mem := (io_mem s)(b + i := c)\<rparr>))"

text \<open>The inner loop; its result is the value \<^verbatim>\<open>getline\<close> returns, if it does.\<close>

partial_function (option) fill_line :: "u64 \<Rightarrow> u64 \<Rightarrow> u64 \<Rightarrow> io_state \<Rightarrow> (int option \<times> u64 \<times> io_state) option" where
  "fill_line lineptr n cur s =
     (if cur < load64 (io_mem s) n - 1 then do {
        let (v, f) = fgetc (io_stream s);
        let s = s\<lparr>io_stream := f\<rparr>;
        let c = sint (word_of_int v :: u8);
        if c = - 1 \<and> cur = 0 then Some (Some (- 1), cur, s)
        else do {
          (cur, s) \<leftarrow> (if c \<noteq> - 1 then do { s \<leftarrow> put_char lineptr cur (word_of_int c) s; Some (cur + 1, s) } else Some (cur, s));
          if c = 10 \<or> c = - 1 then do {
            s \<leftarrow> put_char lineptr cur 0 s;
            Some (Some (sint cur), cur, s) }
          else fill_line lineptr n cur s } }
      else Some (None, cur, s))"

partial_function (option) getline_loop ::
  "(u64 \<Rightarrow> u64 \<Rightarrow> mem \<Rightarrow> u64 \<times> mem) \<Rightarrow> u64 \<Rightarrow> u64 \<Rightarrow> u64 \<Rightarrow> io_state \<Rightarrow> (int \<times> io_state) option" where
  "getline_loop real lineptr n cur s =
     (if \<not> f_err (io_stream s) \<and> \<not> f_eof (io_stream s) then do {
        (r, cur, s) \<leftarrow> fill_line lineptr n cur s;
        case r of
          Some v \<Rightarrow> Some (v, s)
        | None \<Rightarrow>
            if load64 (io_mem s) n = SSIZE_MAX then Some (- 1, s\<lparr>io_errno := EOVERFLOW\<rparr>)
            else do {
              let new_size = load64 (io_mem s) n + 1;
              let (p, m) = real (load64 (io_mem s) lineptr) new_size (io_mem s);
              let m = store64 m lineptr p;
              if load64 m lineptr = 0 then Some (- 1, s\<lparr>io_mem := m, io_errno := ENOMEM_io\<rparr>)
              else getline_loop real lineptr n cur (s\<lparr>io_mem := store64 m n new_size\<rparr>) } }
      else Some (- 1, s))"

definition getline ::
  "(u64 \<Rightarrow> mem \<Rightarrow> u64 \<times> mem) \<Rightarrow> (u64 \<Rightarrow> u64 \<Rightarrow> mem \<Rightarrow> u64 \<times> mem) \<Rightarrow> u64 \<Rightarrow> u64 \<Rightarrow> u64 \<Rightarrow> io_state \<Rightarrow> (int \<times> io_state) option" where
  "getline mal real lineptr n stream s =
     (if lineptr = 0 \<or> n = 0 \<or> stream = 0 then Some (- 1, s\<lparr>io_errno := EINVAL\<rparr>)
      else if f_err (io_stream s) \<or> f_eof (io_stream s) then Some (- 1, s)
      else if load64 (io_mem s) lineptr = 0 \<or> load64 (io_mem s) n = 0 then do {
        let (p, m) = mal 2 (io_mem s);
        let m = store64 m lineptr p;
        if lineptr = 0 then Some (- 1, s\<lparr>io_mem := m, io_errno := ENOMEM_io\<rparr>)
        else getline_loop real lineptr n 0 (s\<lparr>io_mem := store64 m n 2\<rparr>) }
      else getline_loop real lineptr n 0 s)"

section \<open>The state of the loops\<close>

text \<open>The two cells the caller gives, and a buffer that does not share a byte with them.\<close>

definition cells_apart :: "u64 \<Rightarrow> u64 \<Rightarrow> bool" where
  "cells_apart lineptr n \<longleftrightarrow> (\<forall>a. inside lineptr 8 a \<longrightarrow> \<not> inside n 8 a)"

definition buffer_apart :: "u64 \<Rightarrow> u64 \<Rightarrow> u64 \<Rightarrow> nat \<Rightarrow> bool" where
  "buffer_apart lineptr n b N \<longleftrightarrow> (\<forall>i<N. \<not> inside lineptr 8 (b + of_nat i) \<and> \<not> inside n 8 (b + of_nat i))"

text \<open>\<^verbatim>\<open>realloc\<close> for sizes up to \<open>K\<close>: it returns a block apart from the cells, with the old contents, and does not write the cells.\<close>

definition realloc_ok :: "nat \<Rightarrow> u64 \<Rightarrow> u64 \<Rightarrow> (u64 \<Rightarrow> u64 \<Rightarrow> mem \<Rightarrow> u64 \<times> mem) \<Rightarrow> bool" where
  "realloc_ok K lineptr n real \<longleftrightarrow>
     (\<forall>p k m. k \<le> K \<longrightarrow>
        (case real p (of_nat k) m of (q, m') \<Rightarrow>
           q \<noteq> 0 \<and> buffer_apart lineptr n q k \<and> (\<forall>i < k - 1. m' (q + of_nat i) = m (p + of_nat i)) \<and>
           (\<forall>a. inside lineptr 8 a \<or> inside n 8 a \<longrightarrow> m' a = m a)))"

definition line_state :: "u64 \<Rightarrow> u64 \<Rightarrow> u64 \<Rightarrow> nat \<Rightarrow> u8 list \<Rightarrow> io_state \<Rightarrow> bool" where
  "line_state lineptr n b N pre s \<longleftrightarrow>
     b \<noteq> 0 \<and> load64 (io_mem s) lineptr = b \<and> load64 (io_mem s) n = of_nat N \<and> 1 \<le> N \<and> N < 2 ^ 62 \<and>
     buffer_apart lineptr n b N \<and> length pre \<le> N \<and> (\<forall>i < length pre. io_mem s (b + of_nat i) = pre ! i)"

lemma load64_frame: "(\<And>a. inside p 8 a \<Longrightarrow> m' a = m a) \<Longrightarrow> load64 m' p = load64 m p"
proof (rule load_le_cong)
  fix i :: nat
  assume m: "\<And>a. inside p 8 a \<Longrightarrow> m' a = m a" and "i < 8"
  then have "unat (of_nat i :: u64) = i" by (intro unat_of_nat_64) simp
  then show "m' (p + of_nat i) = m (p + of_nat i)" using m \<open>i < 8\<close> by (simp add: inside_def)
qed

lemma put_char_line:
  assumes "line_state lineptr n b N pre s" and "length pre < N"
  obtains s' where "put_char lineptr (of_nat (length pre)) c s = Some s'" and "line_state lineptr n b N (pre @ [c]) s'"
    and "io_stream s' = io_stream s"
proof -
  note l = assms(1) [unfolded line_state_def]
  define s' where "s' = s\<lparr>io_mem := (io_mem s)(b + of_nat (length pre) := c)\<rparr>"
  have out: "\<not> inside lineptr 8 (b + of_nat (length pre))" "\<not> inside n 8 (b + of_nat (length pre))"
    using l assms(2) by (simp_all add: buffer_apart_def)
  have "load64 (io_mem s') lineptr = load64 (io_mem s) lineptr" "load64 (io_mem s') n = load64 (io_mem s) n"
    using out by (intro load64_frame; auto simp: s'_def)+
  moreover have "b + of_nat i \<noteq> b + of_nat (length pre)" if "i < length pre" for i
  proof
    assume "b + of_nat i = b + of_nat (length pre)"
    then have "unat (of_nat i :: u64) = unat (of_nat (length pre) :: u64)" by simp
    then show False using that assms(2) l unat_of_nat_64 [of i] unat_of_nat_64 [of "length pre"] by simp
  qed
  ultimately have "line_state lineptr n b N (pre @ [c]) s'"
    using l assms(2) unfolding line_state_def by (auto simp: s'_def nth_append less_Suc_eq)
  moreover have "put_char lineptr (of_nat (length pre)) c s = Some s'" using l by (simp add: put_char_def s'_def)
  ultimately show thesis using that by (simp add: s'_def)
qed

lemma char_facts: "sint (word_of_int (uint c) :: u8) = sint c" "word_of_int (sint c) = c" "sint c = - 1 \<longleftrightarrow> c = 255" "sint c = 10 \<longleftrightarrow> c = 10"
  for c :: u8
proof -
  show "sint (word_of_int (uint c) :: u8) = sint c" "word_of_int (sint c) = c" by simp_all
  have "sint c = sint d \<longleftrightarrow> c = d" for d :: u8 using signed_word_eqI [of c d] by blast
  from this [of 255] this [of 10] show "sint c = - 1 \<longleftrightarrow> c = 255" "sint c = 10 \<longleftrightarrow> c = 10" by simp_all
qed

lemma sint_length: "k < 2 ^ 63 \<Longrightarrow> sint (of_nat k :: u64) = int k"
  by (simp add: signed_of_nat signed_take_bit_int_eq_self)

section \<open>Steps of the loops\<close>

lemma room_iff:
  assumes "line_state lineptr n b N pre s"
  shows "(of_nat (length pre) :: u64) < load64 (io_mem s) n - 1 \<longleftrightarrow> length pre + 1 < N"
proof -
  note l = assms [unfolded line_state_def]
  have "unat (of_nat (length pre) :: u64) = length pre" using l by (intro unat_of_nat_64) simp
  moreover have "unat (of_nat N - 1 :: u64) = N - 1"
    using l unat_of_nat_64 [of N] by (subst unat_sub_64) (simp_all add: word_le_nat_alt)
  ultimately show ?thesis using l by (simp add: word_less_nat_alt) linarith
qed

abbreviation open_stream :: "u8 list \<Rightarrow> io_state \<Rightarrow> bool" where
  "open_stream cs s \<equiv> f_data (io_stream s) = cs \<and> \<not> f_eof (io_stream s) \<and> \<not> f_err (io_stream s)"

text \<open>The stream after a read at the end of its bytes: the end is seen, or the failure.\<close>

definition stopped :: "FILE \<Rightarrow> FILE \<Rightarrow> bool" where
  "stopped f f' \<longleftrightarrow> f_data f' = [] \<and> f_err f' = f_fails f \<and> f_eof f' = (\<not> f_fails f)"

lemma fgetc_end: "f_data f = [] \<Longrightarrow> \<not> f_eof f \<Longrightarrow> \<not> f_err f \<Longrightarrow> \<exists>f'. fgetc f = (- 1, f') \<and> stopped f f'"
  by (simp add: fgetc_def stopped_def)

text \<open>A character of the line.\<close>

lemma step_char:
  assumes "line_state lineptr n b N pre s" and "length pre + 1 < N" and "open_stream (c # cs) s" and "c \<noteq> 255" and "c \<noteq> 10"
  obtains s' where "getline_loop real lineptr n (of_nat (length pre)) s = getline_loop real lineptr n (of_nat (length (pre @ [c]))) s'"
    and "line_state lineptr n b N (pre @ [c]) s'" and "open_stream cs s'" and "f_fails (io_stream s') = f_fails (io_stream s)"
proof -
  define s0 where "s0 = s\<lparr>io_stream := (io_stream s)\<lparr>f_data := cs\<rparr>\<rparr>"
  have g: "fgetc (io_stream s) = (uint c, (io_stream s)\<lparr>f_data := cs\<rparr>)" using assms(3) by (simp add: fgetc_def)
  have "line_state lineptr n b N pre s0" using assms(1) by (simp add: line_state_def s0_def)
  then obtain s' where s': "put_char lineptr (of_nat (length pre)) c s0 = Some s'" "line_state lineptr n b N (pre @ [c]) s'"
      "io_stream s' = io_stream s0"
    using put_char_line assms(2) by (metis add_lessD1)
  have "fill_line lineptr n (of_nat (length pre)) s = fill_line lineptr n (of_nat (length (pre @ [c]))) s'"
    using room_iff [OF assms(1)] assms(2,4,5) s'(1) g char_facts [of c]
    by (subst fill_line.simps) (simp add: s0_def add.commute)
  moreover have "open_stream cs s'" using s'(3) assms(3) by (simp add: s0_def)
  ultimately have "getline_loop real lineptr n (of_nat (length pre)) s = getline_loop real lineptr n (of_nat (length (pre @ [c]))) s'"
    using assms(3) by (simp add: getline_loop.simps [of real lineptr n "of_nat (length pre)" s] getline_loop.simps [of real lineptr n _ s'])
  moreover have "f_fails (io_stream s') = f_fails (io_stream s)" using s'(3) by (simp add: s0_def)
  ultimately show thesis using that s'(2) \<open>open_stream cs s'\<close> by blast
qed

text \<open>The end of the line: a newline, or the end of the stream.\<close>

lemma step_newline:
  assumes "line_state lineptr n b N pre s" and "length pre + 1 < N" and "open_stream (10 # cs) s"
  obtains s' where "getline_loop real lineptr n (of_nat (length pre)) s = Some (int (length pre) + 1, s')"
    and "line_state lineptr n b N (pre @ [10, 0]) s'" and "open_stream cs s'"
proof -
  define s0 where "s0 = s\<lparr>io_stream := (io_stream s)\<lparr>f_data := cs\<rparr>\<rparr>"
  have g: "fgetc (io_stream s) = (10, (io_stream s)\<lparr>f_data := cs\<rparr>)" using assms(3) by (simp add: fgetc_def)
  have "line_state lineptr n b N pre s0" using assms(1) by (simp add: line_state_def s0_def)
  then obtain s1 where s1: "put_char lineptr (of_nat (length pre)) 10 s0 = Some s1" "line_state lineptr n b N (pre @ [10]) s1"
      "io_stream s1 = io_stream s0"
    using put_char_line assms(2) by (metis add_lessD1)
  then obtain s2 where s2: "put_char lineptr (of_nat (length (pre @ [10]))) 0 s1 = Some s2" "line_state lineptr n b N ((pre @ [10]) @ [0]) s2"
      "io_stream s2 = io_stream s1"
    using put_char_line [OF s1(2)] assms(2) by (metis length_append_singleton Suc_eq_plus1)
  have "length pre + 1 < 2 ^ 63" using assms(1,2) by (simp add: line_state_def)
  then have "sint (of_nat (length pre + 1) :: u64) = int (length pre + 1)" by (rule sint_length)
  moreover have "of_nat (length pre) + 1 = (of_nat (length pre + 1) :: u64)" by simp
  ultimately have c: "sint (of_nat (length pre) + 1 :: u64) = int (length pre + 1)" by (simp only:)
  have "fill_line lineptr n (of_nat (length pre)) s = Some (Some (int (length pre) + 1), of_nat (length pre) + 1, s2)"
    using room_iff [OF assms(1)] assms(2) s1(1) s2(1) g c
    by (subst fill_line.simps) (simp add: s0_def add.commute)
  then have "getline_loop real lineptr n (of_nat (length pre)) s = Some (int (length pre) + 1, s2)"
    using assms(3) by (simp add: getline_loop.simps [of real lineptr n _ s])
  moreover have "open_stream cs s2" using s2(3) s1(3) assms(3) by (simp add: s0_def)
  ultimately show thesis using that s2(2) by simp
qed

lemma step_eof:
  assumes "line_state lineptr n b N pre s" and "length pre + 1 < N" and "open_stream [] s" and "pre \<noteq> []"
  obtains s' where "getline_loop real lineptr n (of_nat (length pre)) s = Some (int (length pre), s')"
    and "line_state lineptr n b N (pre @ [0]) s'" and "stopped (io_stream s) (io_stream s')"
proof -
  obtain f where g: "fgetc (io_stream s) = (- 1, f)" "stopped (io_stream s) f" using fgetc_end assms(3) by blast
  define s0 where "s0 = s\<lparr>io_stream := f\<rparr>"
  have "line_state lineptr n b N pre s0" using assms(1) by (simp add: line_state_def s0_def)
  then obtain s1 where s1: "put_char lineptr (of_nat (length pre)) 0 s0 = Some s1" "line_state lineptr n b N (pre @ [0]) s1"
      "io_stream s1 = io_stream s0"
    using put_char_line assms(2) by (metis add_lessD1)
  have lt: "length pre < 2 ^ 62" using assms(1,2) by (simp add: line_state_def)
  then have c: "sint (of_nat (length pre) :: u64) = int (length pre)" by (intro sint_length) simp
  have "(of_nat (length pre) :: u64) \<noteq> 0" using assms(4) lt unat_of_nat_64 [of "length pre"] by auto
  then have "fill_line lineptr n (of_nat (length pre)) s = Some (Some (int (length pre)), of_nat (length pre), s1)"
    using room_iff [OF assms(1)] assms(2) s1(1) g(1) c
    by (subst fill_line.simps) (simp add: s0_def)
  then have "getline_loop real lineptr n (of_nat (length pre)) s = Some (int (length pre), s1)"
    using assms(3) by (simp add: getline_loop.simps [of real lineptr n _ s])
  then show thesis using that s1(2,3) g(2) by (simp add: s0_def)
qed

text \<open>A full buffer is made one byte larger.\<close>

lemma step_grow:
  assumes l: "line_state lineptr n b N pre s" and full: "length pre + 1 = N" and st: "\<not> f_err (io_stream s)" "\<not> f_eof (io_stream s)"
    and r: "realloc_ok K lineptr n real" and K: "N < K" "K < 2 ^ 62" and cells: "cells_apart lineptr n"
  obtains b' s' where "getline_loop real lineptr n (of_nat (length pre)) s = getline_loop real lineptr n (of_nat (length pre)) s'"
    and "line_state lineptr n b' (N + 1) pre s'" and "io_stream s' = io_stream s"
proof -
  note ls = l [unfolded line_state_def]
  obtain q m' where q: "real b (of_nat (N + 1)) (io_mem s) = (q, m')" by (cases "real b (of_nat (N + 1)) (io_mem s)")
  then have ok: "q \<noteq> 0" "buffer_apart lineptr n q (N + 1)" "\<And>i. i < N \<Longrightarrow> m' (q + of_nat i) = io_mem s (b + of_nat i)"
      "\<And>a. inside lineptr 8 a \<or> inside n 8 a \<Longrightarrow> m' a = io_mem s a"
    using r [unfolded realloc_ok_def, THEN spec [of _ b], THEN spec [of _ "N + 1"], THEN spec [of _ "io_mem s"]] K(1)
    by (simp_all del: of_nat_add) blast
  define m where "m = store64 (store64 m' lineptr q) n (of_nat (N + 1))"
  define s' where "s' = s\<lparr>io_mem := m\<rparr>"
  have same: "load64 (store64 x a v) a = v" for x a v using load_le_store_le_same [of 8 x a v] by (simp add: take_bit_word_eq_self)
  have at: "m a = m' a" if "\<not> inside lineptr 8 a" "\<not> inside n 8 a" for a using that by (simp add: m_def store_le_at inside_def)
  have lp: "load64 (store64 m' lineptr q) lineptr = q" "load64 m n = of_nat (N + 1)" by (simp_all add: same m_def)
  moreover have "load64 m lineptr = q"
  proof -
    have "load64 m lineptr = load64 (store64 m' lineptr q) lineptr"
      using cells by (intro load64_frame) (auto simp: m_def store_le_at cells_apart_def inside_def)
    then show ?thesis using same by simp
  qed
  moreover have "m (q + of_nat i) = pre ! i" if "i < length pre" for i
  proof -
    have "\<not> inside lineptr 8 (q + of_nat i)" "\<not> inside n 8 (q + of_nat i)" using ok(2) that full by (simp_all add: buffer_apart_def)
    then show ?thesis using at ok(3) [of i] that full ls by simp
  qed
  ultimately have "line_state lineptr n q (N + 1) pre s'"
    using ls ok(1,2) K full unfolding line_state_def by (simp add: s'_def)
  moreover have "of_nat N \<noteq> SSIZE_MAX"
  proof
    assume "of_nat N = SSIZE_MAX"
    then have "unat (of_nat N :: u64) = 2 ^ 63 - 1" by (simp add: SSIZE_MAX_def)
    then show False using ls unat_of_nat_64 [of N] by simp
  qed
  moreover have "fill_line lineptr n (of_nat (length pre)) s = Some (None, of_nat (length pre), s)"
    using room_iff [OF l] full by (subst fill_line.simps) simp
  ultimately have "getline_loop real lineptr n (of_nat (length pre)) s = getline_loop real lineptr n (of_nat (length pre)) s'"
    using st ls q ok(1) lp
    by (simp add: getline_loop.simps [of real lineptr n "of_nat (length pre)" s] Let_def m_def s'_def add.commute)
  then show thesis using that \<open>line_state lineptr n q (N + 1) pre s'\<close> by (simp add: s'_def)
qed

section \<open>Lines\<close>

text \<open>The loop reads a line that ends in a newline, or at the end of the stream.\<close>

lemma make_room:
  assumes "line_state lineptr n b N pre s" and "open_stream cs s" and "realloc_ok K lineptr n real"
    and "length pre < N" and "length pre + 2 \<le> K" and "K < 2 ^ 62" and "cells_apart lineptr n"
  obtains b' N' s' where "getline_loop real lineptr n (of_nat (length pre)) s = getline_loop real lineptr n (of_nat (length pre)) s'"
    and "line_state lineptr n b' N' pre s'" and "io_stream s' = io_stream s" and "length pre + 1 < N'"
proof (cases "length pre + 1 < N")
  case True
  then show thesis using that assms(1) by blast
next
  case False
  then have "length pre + 1 = N" using assms(4) by simp
  then show thesis using step_grow [OF assms(1) _ _ _ assms(3) _ assms(6,7)] assms(2,5) that by (metis add_2_eq_Suc' add_lessD1 less_add_one Suc_eq_plus1 Suc_le_lessD add.commute)
qed

lemma getline_loop_newline:
  assumes "line_state lineptr n b N pre s" and "open_stream (cs @ 10 # rest) s" and "255 \<notin> set cs" and "10 \<notin> set cs"
    and "realloc_ok K lineptr n real" and "length pre < N" and "length pre + length cs + 2 \<le> K" and "K < 2 ^ 62" and "cells_apart lineptr n"
  shows "\<exists>b' N' s'. getline_loop real lineptr n (of_nat (length pre)) s = Some (int (length (pre @ cs)) + 1, s') \<and>
    line_state lineptr n b' N' (pre @ cs @ [10, 0]) s' \<and> open_stream rest s'"
  using assms(1-4,6,7)
proof (induction cs arbitrary: pre s b N)
  case Nil
  have k: "length pre + 2 \<le> K" using Nil.prems(6) by simp
  obtain b' N' s1 where s1: "getline_loop real lineptr n (of_nat (length pre)) s = getline_loop real lineptr n (of_nat (length pre)) s1"
      "line_state lineptr n b' N' pre s1" "io_stream s1 = io_stream s" "length pre + 1 < N'"
    by (rule make_room [OF Nil.prems(1,2) assms(5) Nil.prems(5) k assms(8,9)])
  obtain s' where "getline_loop real lineptr n (of_nat (length pre)) s1 = Some (int (length pre) + 1, s')"
      "line_state lineptr n b' N' (pre @ [10, 0]) s'" "open_stream rest s'"
    using step_newline [OF s1(2,4), of rest real] Nil.prems(2) s1(3) by auto
  then show ?case using s1(1) by auto
next
  case (Cons c cs)
  have k: "length pre + 2 \<le> K" using Cons.prems(6) by simp
  obtain b' N' s1 where s1: "getline_loop real lineptr n (of_nat (length pre)) s = getline_loop real lineptr n (of_nat (length pre)) s1"
      "line_state lineptr n b' N' pre s1" "io_stream s1 = io_stream s" "length pre + 1 < N'"
    by (rule make_room [OF Cons.prems(1,2) assms(5) Cons.prems(5) k assms(8,9)])
  obtain s2 where s2: "getline_loop real lineptr n (of_nat (length pre)) s1 = getline_loop real lineptr n (of_nat (length (pre @ [c]))) s2"
      "line_state lineptr n b' N' (pre @ [c]) s2" "open_stream (cs @ 10 # rest) s2"
    using step_char [OF s1(2,4), of c "cs @ 10 # rest" real] Cons.prems(2-4) s1(3) by auto
  have "\<exists>b' N' s'. getline_loop real lineptr n (of_nat (length (pre @ [c]))) s2 = Some (int (length ((pre @ [c]) @ cs)) + 1, s') \<and>
    line_state lineptr n b' N' ((pre @ [c]) @ cs @ [10, 0]) s' \<and> open_stream rest s'"
    by (rule Cons.IH [OF s2(2,3)]) (use Cons.prems s1(4) in \<open>simp_all\<close>)
  then show ?case using s1(1) s2(1) by auto
qed

lemma getline_loop_eof:
  assumes "line_state lineptr n b N pre s" and "open_stream cs s" and "f_fails (io_stream s) = fl" and "255 \<notin> set cs" and "10 \<notin> set cs"
    and "realloc_ok K lineptr n real" and "length pre < N" and "length pre + length cs + 2 \<le> K" and "K < 2 ^ 62" and "cells_apart lineptr n"
    and "pre @ cs \<noteq> []"
  shows "\<exists>b' N' s'. getline_loop real lineptr n (of_nat (length pre)) s = Some (int (length (pre @ cs)), s') \<and>
    line_state lineptr n b' N' (pre @ cs @ [0]) s' \<and>
    f_data (io_stream s') = [] \<and> f_err (io_stream s') = fl \<and> f_eof (io_stream s') = (\<not> fl)"
  using assms(1-5,7,8,11)
proof (induction cs arbitrary: pre s b N)
  case Nil
  have k: "length pre + 2 \<le> K" using Nil.prems(7) by simp
  obtain b' N' s1 where s1: "getline_loop real lineptr n (of_nat (length pre)) s = getline_loop real lineptr n (of_nat (length pre)) s1"
      "line_state lineptr n b' N' pre s1" "io_stream s1 = io_stream s" "length pre + 1 < N'"
    by (rule make_room [OF Nil.prems(1,2) assms(6) Nil.prems(6) k assms(9,10)])
  obtain s' where "getline_loop real lineptr n (of_nat (length pre)) s1 = Some (int (length pre), s')"
      "line_state lineptr n b' N' (pre @ [0]) s'" "stopped (io_stream s1) (io_stream s')"
    using step_eof [OF s1(2,4), of real] Nil.prems(2,8) s1(3) by auto
  then show ?case using s1(1,3) Nil.prems(3) by (auto simp: stopped_def)
next
  case (Cons c cs)
  have k: "length pre + 2 \<le> K" using Cons.prems(7) by simp
  obtain b' N' s1 where s1: "getline_loop real lineptr n (of_nat (length pre)) s = getline_loop real lineptr n (of_nat (length pre)) s1"
      "line_state lineptr n b' N' pre s1" "io_stream s1 = io_stream s" "length pre + 1 < N'"
    by (rule make_room [OF Cons.prems(1,2) assms(6) Cons.prems(6) k assms(9,10)])
  obtain s2 where s2: "getline_loop real lineptr n (of_nat (length pre)) s1 = getline_loop real lineptr n (of_nat (length (pre @ [c]))) s2"
      "line_state lineptr n b' N' (pre @ [c]) s2" "open_stream cs s2" "f_fails (io_stream s2) = f_fails (io_stream s1)"
    using step_char [OF s1(2,4), of c cs real] Cons.prems(2-5) s1(3) by auto
  have "\<exists>b' N' s'. getline_loop real lineptr n (of_nat (length (pre @ [c]))) s2 = Some (int (length ((pre @ [c]) @ cs)), s') \<and>
    line_state lineptr n b' N' ((pre @ [c]) @ cs @ [0]) s' \<and>
    f_data (io_stream s') = [] \<and> f_err (io_stream s') = fl \<and> f_eof (io_stream s') = (\<not> fl)"
    by (rule Cons.IH [OF s2(2,3)]) (use Cons.prems s1(3,4) s2(4) in \<open>simp_all\<close>)
  then show ?case using s1(1) s2(1) by auto
qed

lemma fresh_cells:
  assumes "cells_apart lineptr n"
  shows "load64 (io_mem (s\<lparr>io_mem := store64 (store64 m1 lineptr p) n 2\<rparr>)) lineptr = p"
    and "load64 (io_mem (s\<lparr>io_mem := store64 (store64 m1 lineptr p) n 2\<rparr>)) n = 2"
proof -
  have same: "load64 (store64 x a v) a = v" for x a v using load_le_store_le_same [of 8 x a v] by (simp add: take_bit_word_eq_self)
  have "load64 (store64 (store64 m1 lineptr p) n 2) lineptr = load64 (store64 m1 lineptr p) lineptr"
    using assms by (intro load64_frame) (auto simp: store_le_at cells_apart_def inside_def)
  then show "load64 (io_mem (s\<lparr>io_mem := store64 (store64 m1 lineptr p) n 2\<rparr>)) lineptr = p"
    "load64 (io_mem (s\<lparr>io_mem := store64 (store64 m1 lineptr p) n 2\<rparr>)) n = 2" using same by simp_all
qed

lemma fresh_line:
  assumes "mal 2 (io_mem s) = (p, m1)" and "p \<noteq> 0" and "buffer_apart lineptr n p 2" and "cells_apart lineptr n"
  shows "line_state lineptr n p 2 [] (s\<lparr>io_mem := store64 (store64 m1 lineptr p) n 2\<rparr>)"
  using assms(2,3) fresh_cells [OF assms(4), of m1 p s] by (simp add: line_state_def)

text \<open>A first read that yields the value of \<^verbatim>\<open>EOF\<close> ends the call.\<close>

lemma getline_loop_first:
  assumes "line_state lineptr n b N [] s" and "open_stream cs s" and "realloc_ok K lineptr n real"
    and "2 \<le> K" and "K < 2 ^ 62" and "cells_apart lineptr n" and "fgetc (io_stream s) = (v, f)" and "sint (word_of_int v :: u8) = - 1"
  shows "\<exists>s'. getline_loop real lineptr n 0 s = Some (- 1, s') \<and> io_stream s' = f"
proof -
  have N: "length ([] :: u8 list) < N" "length ([] :: u8 list) + 2 \<le> K" using assms(1,4) by (simp_all add: line_state_def)
  obtain b' N' s1 where s1: "getline_loop real lineptr n (of_nat (length ([] :: u8 list))) s =
        getline_loop real lineptr n (of_nat (length ([] :: u8 list))) s1"
      "line_state lineptr n b' N' [] s1" "io_stream s1 = io_stream s" "length ([] :: u8 list) + 1 < N'"
    by (rule make_room [OF assms(1,2,3) N assms(5,6)])
  have "fill_line lineptr n 0 s1 = Some (Some (- 1), 0, s1\<lparr>io_stream := f\<rparr>)"
    using room_iff [OF s1(2)] s1(3,4) assms(7,8) by (subst fill_line.simps) simp
  then have "getline_loop real lineptr n 0 s1 = Some (- 1, s1\<lparr>io_stream := f\<rparr>)"
    using assms(2) s1(3) by (simp add: getline_loop.simps [of real lineptr n _ s1])
  then show ?thesis using s1(1) by simp
qed

text \<open>The buffer the caller gives: none, or one apart from the cells; \<open>p\<close> is what \<^verbatim>\<open>malloc\<close> returns.\<close>

definition no_buffer_given :: "u64 \<Rightarrow> u64 \<Rightarrow> io_state \<Rightarrow> bool" where
  "no_buffer_given lineptr n s \<longleftrightarrow> load64 (io_mem s) lineptr = 0 \<or> load64 (io_mem s) n = 0"

definition buffer_ok :: "u64 \<Rightarrow> u64 \<Rightarrow> u64 \<Rightarrow> io_state \<Rightarrow> bool" where
  "buffer_ok lineptr n p s \<longleftrightarrow>
     (if no_buffer_given lineptr n s then p \<noteq> 0 \<and> buffer_apart lineptr n p 2
      else line_state lineptr n (load64 (io_mem s) lineptr) (unat (load64 (io_mem s) n)) [] s)"

lemma getline_start:
  assumes "lineptr \<noteq> 0" and "n \<noteq> 0" and "fp \<noteq> 0" and "cells_apart lineptr n"
    and "\<not> f_eof (io_stream s)" and "\<not> f_err (io_stream s)" and "mal 2 (io_mem s) = (p, m1)" and "buffer_ok lineptr n p s"
  obtains b N s0 where "getline mal real lineptr n fp s = getline_loop real lineptr n 0 s0" and "line_state lineptr n b N [] s0"
    and "io_stream s0 = io_stream s"
proof (cases "no_buffer_given lineptr n s")
  case True
  let ?s = "s\<lparr>io_mem := store64 (store64 m1 lineptr p) n 2\<rparr>"
  have "line_state lineptr n p 2 [] ?s"
    by (rule fresh_line [where mal = mal]) (use assms(4,7,8) True in \<open>simp_all add: buffer_ok_def\<close>)
  moreover have "getline mal real lineptr n fp s = getline_loop real lineptr n 0 ?s"
    using assms(1-3,5-7) True by (simp add: getline_def no_buffer_given_def)
  ultimately show thesis using that by simp
next
  case False
  have "getline mal real lineptr n fp s = getline_loop real lineptr n 0 s"
    using assms(1-3,5,6) False by (simp add: getline_def no_buffer_given_def)
  then show thesis using that assms(8) False by (simp add: buffer_ok_def)
qed

lemma getline_no_memory:
  assumes "lineptr \<noteq> 0" and "n \<noteq> 0" and "fp \<noteq> 0" and "cells_apart lineptr n"
    and "\<not> f_eof (io_stream s)" and "\<not> f_err (io_stream s)" and "mal 2 (io_mem s) = (0, m1)" and "no_buffer_given lineptr n s"
    and "f_data (io_stream s) = c # cs" and "c \<noteq> 255"
  shows "getline mal real lineptr n fp s = None"
proof -
  define s0 where "s0 = s\<lparr>io_mem := store64 (store64 m1 lineptr 0) n 2\<rparr>"
  have g: "getline mal real lineptr n fp s = getline_loop real lineptr n 0 s0"
    using assms(1-3,5-8) by (simp add: getline_def s0_def no_buffer_given_def)
  have st: "io_stream s0 = io_stream s" by (simp add: s0_def)
  have "fill_line lineptr n 0 s0 = None"
    using st assms(5,9,10) fresh_cells [OF assms(4), of m1 0 s, folded s0_def] char_facts [of c]
    by (simp add: fill_line.simps [of lineptr n 0 s0] fgetc_def put_char_def)
  then show ?thesis using st assms(5,6) by (simp add: g getline_loop.simps [of real lineptr n 0 s0])
qed

text \<open>
  C36: \<^verbatim>\<open>getline\<close>, with a buffer of the caller or without, reads a whole line of any length, as long as the
  allocator serves it; the line has no byte 255. If the stream holds a line that ends in a newline, it
  returns the number of its characters with the newline, \<^verbatim>\<open>*lineptr\<close> points to them followed by a null
  byte, and the rest of the stream is left. If the stream ends, or a read fails, in the middle of a line, the
  characters read so far are returned as a line, and the indicator of the stream tells which of the two it was;
  if this happens at the first read, the result is -1. A byte 255 cannot be told from the
  end of the stream: at the beginning of a line the result is -1 although neither the end nor an error has
  occurred. If no buffer is given and \<^verbatim>\<open>malloc\<close> fails, the code writes the first character through the null pointer,
  since it tests the wrong one.
\<close>

theorem getline_reads_line:
  assumes "lineptr \<noteq> 0" and "n \<noteq> 0" and "fp \<noteq> 0" and "cells_apart lineptr n"
    and "\<not> f_eof (io_stream s)" and "\<not> f_err (io_stream s)"
    and "255 \<notin> set line" and "10 \<notin> set line" and "length line + 2 \<le> K" and "K < 2 ^ 62" and "realloc_ok K lineptr n real"
    and "mal 2 (io_mem s) = (p, m1)"
  shows "(buffer_ok lineptr n p s \<and> f_data (io_stream s) = line @ 10 # rest \<longrightarrow>
      (\<exists>b N s'. getline mal real lineptr n fp s = Some (int (length line) + 1, s') \<and> line_state lineptr n b N (line @ [10, 0]) s' \<and>
        f_data (io_stream s') = rest \<and> \<not> f_eof (io_stream s') \<and> \<not> f_err (io_stream s'))) \<and>
    (buffer_ok lineptr n p s \<and> f_data (io_stream s) = line \<and> line \<noteq> [] \<longrightarrow>
      (\<exists>b N s'. getline mal real lineptr n fp s = Some (int (length line), s') \<and> line_state lineptr n b N (line @ [0]) s' \<and>
        stopped (io_stream s) (io_stream s'))) \<and>
    (buffer_ok lineptr n p s \<and> f_data (io_stream s) = [] \<longrightarrow>
      (\<exists>s'. getline mal real lineptr n fp s = Some (- 1, s') \<and> stopped (io_stream s) (io_stream s'))) \<and>
    (buffer_ok lineptr n p s \<and> f_data (io_stream s) = 255 # rest \<longrightarrow>
      (\<exists>s'. getline mal real lineptr n fp s = Some (- 1, s') \<and> f_data (io_stream s') = rest \<and> \<not> f_eof (io_stream s') \<and> \<not> f_err (io_stream s'))) \<and>
    (no_buffer_given lineptr n s \<and> p = 0 \<and> f_data (io_stream s) = line @ 10 # rest \<longrightarrow> getline mal real lineptr n fp s = None)"
proof (intro conjI impI; elim conjE)
  assume ok: "buffer_ok lineptr n p s"
  obtain b N s0 where g: "getline mal real lineptr n fp s = getline_loop real lineptr n 0 s0" and ls: "line_state lineptr n b N [] s0"
    and st: "io_stream s0 = io_stream s"
    by (rule getline_start [where mal = mal and s = s, OF assms(1-6,12) ok])
  have N: "length ([] :: u8 list) < N" and K: "2 \<le> K" using ls assms(9) by (simp_all add: line_state_def)
  have op: "open_stream (f_data (io_stream s)) s0" using st assms(5,6) by simp
  {
    assume "f_data (io_stream s) = line @ 10 # rest"
    then show "\<exists>b N s'. getline mal real lineptr n fp s = Some (int (length line) + 1, s') \<and> line_state lineptr n b N (line @ [10, 0]) s' \<and>
        f_data (io_stream s') = rest \<and> \<not> f_eof (io_stream s') \<and> \<not> f_err (io_stream s')"
      using getline_loop_newline [OF ls _ assms(7,8,11) N _ assms(10,4), of rest] op assms(9) g by simp
  next
    assume "f_data (io_stream s) = line" "line \<noteq> []"
    then show "\<exists>b N s'. getline mal real lineptr n fp s = Some (int (length line), s') \<and> line_state lineptr n b N (line @ [0]) s' \<and>
        stopped (io_stream s) (io_stream s')"
      using getline_loop_eof [OF ls _ refl assms(7,8,11) N _ assms(10,4)] op assms(9) g st by (simp add: stopped_def)
  next
    assume e: "f_data (io_stream s) = []"
    obtain f where f: "fgetc (io_stream s0) = (- 1, f)" "stopped (io_stream s) f" using fgetc_end [OF e assms(5,6)] st by auto
    show "\<exists>s'. getline mal real lineptr n fp s = Some (- 1, s') \<and> stopped (io_stream s) (io_stream s')"
      using getline_loop_first [OF ls op assms(11) K assms(10,4) f(1)] f(2) g by auto
  next
    assume "f_data (io_stream s) = 255 # rest"
    then have f: "fgetc (io_stream s0) = (255, (io_stream s)\<lparr>f_data := rest\<rparr>)" using st assms(5) by (simp add: fgetc_def)
    show "\<exists>s'. getline mal real lineptr n fp s = Some (- 1, s') \<and> f_data (io_stream s') = rest \<and> \<not> f_eof (io_stream s') \<and> \<not> f_err (io_stream s')"
      using getline_loop_first [OF ls op assms(11) K assms(10,4) f] assms(5,6) g by auto
  }
next
  assume "no_buffer_given lineptr n s" "p = 0" and d: "f_data (io_stream s) = line @ 10 # rest"
  moreover obtain c cs where c: "line @ 10 # rest = c # cs" "c \<noteq> 255" using assms(7) by (cases line) auto
  ultimately show "getline mal real lineptr n fp s = None" using getline_no_memory [where mal = mal and s = s, OF assms(1-6)] assms(12) by simp
qed

definition ex_realloc :: "u64 \<Rightarrow> u64 \<Rightarrow> mem \<Rightarrow> u64 \<times> mem" where
  "ex_realloc p k m = (0x1000, \<lambda>a. if inside 0x1000 (unat k) a then m (p + (a - 0x1000)) else m a)"

lemma ex_realloc_ok: "realloc_ok 100 0x10 0x20 ex_realloc"
proof -
  have u: "unat (of_nat i :: u64) = i" "unat (4080 + of_nat i :: u64) = 4080 + i" "unat (4064 + of_nat i :: u64) = 4064 + i" if "i < 100" for i
  proof -
    show "unat (of_nat i :: u64) = i" using that by (intro unat_of_nat_64) simp
    then show "unat (4080 + of_nat i :: u64) = 4080 + i" "unat (4064 + of_nat i :: u64) = 4064 + i" using that by (simp_all add: unat_add_64)
  qed
  have far: "\<not> inside 0x10 8 (0x1000 + of_nat i :: u64)" "\<not> inside 0x20 8 (0x1000 + of_nat i :: u64)" if "i < 100" for i
    unfolding inside_def using u(2,3) [OF that] by simp_all
  have "\<not> inside 0x1000 k a" if "k \<le> 100" "inside 0x10 8 a \<or> inside 0x20 8 a" for k a
  proof
    assume a: "inside 0x1000 k a"
    then have "a = 0x1000 + of_nat (unat (a - 0x1000))" "unat (a - 0x1000) < 100" using that(1) by (simp_all add: inside_def)
    then show False using far that(2) by metis
  qed
  then have cells: "a \<notin> {a. inside 0x1000 k a}" if "k \<le> 100" "inside 0x10 8 a \<or> inside 0x20 8 a" for k a using that by simp
  show ?thesis
    unfolding realloc_ok_def
  proof (intro allI impI)
    fix p :: u64 and k :: nat and m :: mem
    assume k: "k \<le> 100"
    then have uk: "unat (of_nat k :: u64) = k" by (intro unat_of_nat_64) simp
    have "buffer_apart 0x10 0x20 0x1000 k" using far k by (simp add: buffer_apart_def)
    moreover have "inside 0x1000 k (0x1000 + of_nat i)" if "i < k - 1" for i using that u(1) [of i] k by (simp add: inside_def)
    moreover have "\<forall>a. inside 0x10 8 a \<or> inside 0x20 8 a \<longrightarrow> \<not> inside 0x1000 k a" using cells [OF k] by blast
    ultimately show "case ex_realloc p (of_nat k) m of (q, m') \<Rightarrow> q \<noteq> 0 \<and> buffer_apart 0x10 0x20 q k \<and>
        (\<forall>i<k - 1. m' (q + of_nat i) = m (p + of_nat i)) \<and> (\<forall>a. inside 0x10 8 a \<or> inside 0x20 8 a \<longrightarrow> m' a = m a)"
      unfolding ex_realloc_def uk by simp
  qed
qed

theorem getline_reads_line_witness:
  "\<exists>b N s'. getline (\<lambda>_ m. (0x1000, m)) ex_realloc 0x10 0x20 0x30
      \<lparr>io_mem = \<lambda>_. 0, io_stream = \<lparr>f_data = [104, 105, 10, 33], f_fails = False, f_eof = False, f_err = False\<rparr>, io_errno = 0\<rparr> = Some (3, s') \<and>
    line_state 0x10 0x20 b N [104, 105, 10, 0] s' \<and> f_data (io_stream s') = [33]"
proof -
  let ?s = "\<lparr>io_mem = \<lambda>_. 0, io_stream = \<lparr>f_data = [104, 105, 10, 33], f_fails = False, f_eof = False, f_err = False\<rparr>, io_errno = 0\<rparr>"
  have z: "load64 (io_mem ?s) 0x10 = 0" by (rule bit_word_eqI) simp
  have c: "cells_apart 0x10 0x20" unfolding cells_apart_def inside_def
  proof (intro allI impI)
    fix a :: u64
    assume a: "unat (a - 0x10) < 8"
    show "\<not> unat (a - 0x20) < 8"
    proof
      assume "unat (a - 0x20) < 8"
      then have "unat (a - 0x20 + 0x10) = unat (a - 0x20) + 16" by (subst unat_add_64) simp_all
      then show False using a by simp
    qed
  qed
  have b: "buffer_apart 0x10 0x20 0x1000 2" using ex_realloc_ok
    by (auto simp: realloc_ok_def ex_realloc_def dest: spec [of _ 2])
  have ok: "buffer_ok 0x10 0x20 0x1000 ?s" using b z by (simp add: buffer_ok_def no_buffer_given_def)
  show ?thesis
    using getline_reads_line [OF _ _ _ c _ _ _ _ _ _ ex_realloc_ok, of "0x30" ?s "[104, 105]" "\<lambda>_ m. (0x1000, m)" "0x1000" "io_mem ?s" "[33]"] ok
    by auto
qed

end
