(* ===== verification/Libc_Glob.thy ===== *)
theory Libc_Glob
  imports Libc_Builtin
begin

text \<open>
  \<^verbatim>\<open>glob.c\<close>: \<^verbatim>\<open>glob\<close> and \<^verbatim>\<open>globfree\<close>. The list \<^verbatim>\<open>gl_pathv\<close> is an array of pointers in memory, which the code
  extends by \<^verbatim>\<open>realloc\<close>, a parameter; so are the callback \<^verbatim>\<open>errfunc\<close>, \<^verbatim>\<open>free\<close>, and the addresses of the two string
  literals. The structure \<^verbatim>\<open>pglob\<close> points to is a record. \<open>None\<close> is a list without an end.
\<close>

section \<open>Definitions\<close>

unbundle bit_operations_syntax

record glob_t =
  gl_pathc :: u64
  gl_pathv :: u64
  gl_offs :: u64

definition GLOB_ERR :: u32 where "GLOB_ERR = push_bit 0 1"
definition GLOB_DOOFFS :: u32 where "GLOB_DOOFFS = push_bit 3 1"
definition GLOB_NOCHECK :: u32 where "GLOB_NOCHECK = push_bit 4 1"
definition GLOB_APPEND :: u32 where "GLOB_APPEND = push_bit 5 1"

definition GLOB_NOSPACE :: int where "GLOB_NOSPACE = 1"
definition GLOB_ABORTED :: int where "GLOB_ABORTED = 2"
definition GLOB_NOMATCH :: int where "GLOB_NOMATCH = 3"

text \<open>Element \<open>i\<close> of an array of pointers.\<close>

abbreviation slot :: "u64 \<Rightarrow> u64 \<Rightarrow> u64" where "slot pathv i \<equiv> pathv + 8 * i"

partial_function (option) glob_prev_len :: "mem \<Rightarrow> u64 \<Rightarrow> u64 \<Rightarrow> u64 \<Rightarrow> u64 option" where
  "glob_prev_len m pathv reserve_offs prev_len =
     (if load64 m (slot pathv (reserve_offs + prev_len)) \<noteq> 0 then glob_prev_len m pathv reserve_offs (prev_len + 1)
      else Some prev_len)"

text \<open>The loops that fill the array, with the number of iterations left.\<close>

fun glob_reserve :: "u64 \<Rightarrow> nat \<Rightarrow> u64 \<Rightarrow> mem \<Rightarrow> mem" where
  "glob_reserve pathv 0 i m = m"
| "glob_reserve pathv (Suc k) i m = glob_reserve pathv k (i + 1) (store64 m (slot pathv i) 0)"

fun glob_results :: "u64 \<Rightarrow> u64 \<Rightarrow> u64 \<Rightarrow> nat \<Rightarrow> u64 \<Rightarrow> mem \<Rightarrow> mem" where
  "glob_results result pathv offs 0 i m = m"
| "glob_results result pathv offs (Suc k) i m =
     glob_results result pathv offs k (i + 1) (store64 m (slot pathv (offs + i)) result)"

type_synonym 's errfunc = "u64 \<Rightarrow> int \<Rightarrow> 's \<Rightarrow> int \<times> 's"

text \<open>The branch without results, and the one that found some.\<close>

definition glob_none ::
  "(u64 \<Rightarrow> u64 \<Rightarrow> mem \<Rightarrow> u64 \<times> mem) \<Rightarrow> u64 \<Rightarrow> u32 \<Rightarrow> u64 \<Rightarrow> u64 \<Rightarrow> u64 \<Rightarrow>
   glob_t \<Rightarrow> 'a libc_state_scheme \<Rightarrow> int \<times> glob_t \<times> 'a libc_state_scheme" where
  "glob_none real pattern flags reserve_offs prev_len path pglob s =
     (if flags AND GLOB_NOCHECK \<noteq> 0 then
        let (p, m) = real path ((reserve_offs + prev_len + 2) * 8) (lmem s);
            pglob = pglob\<lparr>gl_pathv := p\<rparr>
        in if p = 0 then (GLOB_NOSPACE, pglob, s\<lparr>lmem := m\<rparr>)
           else
             let m = glob_reserve p (unat reserve_offs) 0 m;
                 m = store64 m (slot p (reserve_offs + prev_len)) pattern;
                 m = store64 m (slot p (reserve_offs + prev_len + 1)) 0
             in (0, pglob, s\<lparr>lmem := m\<rparr>)
      else (GLOB_NOMATCH, pglob, s))"

definition glob_some ::
  "(u64 \<Rightarrow> u64 \<Rightarrow> mem \<Rightarrow> u64 \<times> mem) \<Rightarrow> u64 \<Rightarrow> u64 \<Rightarrow> u32 \<Rightarrow> 'a libc_state_scheme errfunc option \<Rightarrow> u64 \<Rightarrow> u64 \<Rightarrow> u64 \<Rightarrow>
   glob_t \<Rightarrow> 'a libc_state_scheme \<Rightarrow> int \<times> glob_t \<times> 'a libc_state_scheme" where
  "glob_some real result error_path flags errfunc reserve_offs prev_len path pglob s =
     (let (p, m) = real path ((reserve_offs + prev_len + gl_pathc pglob + 1) * 8) (lmem s);
          pglob = pglob\<lparr>gl_pathv := p\<rparr>
      in if p = 0 then (GLOB_NOSPACE, pglob, s\<lparr>lmem := m\<rparr>)
         else
           let m = glob_reserve p (unat reserve_offs) 0 m;
               m = glob_results result p (reserve_offs + prev_len) (unat (gl_pathc pglob)) 0 m;
               m = store64 m (slot p (prev_len + reserve_offs + gl_pathc pglob)) 0;
               (b, s) = run_state (Frama_C_nondet 0 1) (s\<lparr>lmem := m\<rparr>)
           in if b \<noteq> 0 then (0, pglob, s)
              else case errfunc of
                None \<Rightarrow> (0, pglob, s)
              | Some ef \<Rightarrow>
                  let (e, s) = run_state (Frama_C_interval 0 255) s;
                      (res, s) = ef error_path e s
                  in if res \<noteq> 0 \<or> flags AND GLOB_ERR \<noteq> 0 then (GLOB_ABORTED, pglob, s) else (0, pglob, s))"

definition glob ::
  "(u64 \<Rightarrow> u64 \<Rightarrow> mem \<Rightarrow> u64 \<times> mem) \<Rightarrow> u64 \<Rightarrow> u64 \<Rightarrow> u64 \<Rightarrow> u32 \<Rightarrow> 'a libc_state_scheme errfunc option \<Rightarrow>
   glob_t \<Rightarrow> 'a libc_state_scheme \<Rightarrow> (int \<times> glob_t \<times> 'a libc_state_scheme) option" where
  "glob real result error_path pattern flags errfunc pglob s = do {
     let (c, s) = run_state (Frama_C_interval 0 10) s;
     let pglob = pglob\<lparr>gl_pathc := word_of_int c\<rparr>;
     let reserve_offs = (if flags AND GLOB_DOOFFS \<noteq> 0 then gl_offs pglob else 0);
     prev_len \<leftarrow> (if flags AND GLOB_APPEND \<noteq> 0 then glob_prev_len (lmem s) (gl_pathv pglob) reserve_offs 0 else Some 0);
     let path = (if flags AND GLOB_APPEND \<noteq> 0 then gl_pathv pglob else 0);
     Some (if gl_pathc pglob = 0 then glob_none real pattern flags reserve_offs prev_len path pglob s
       else glob_some real result error_path flags errfunc reserve_offs prev_len path pglob s) }"

definition globfree :: "(u64 \<Rightarrow> mem \<Rightarrow> mem) \<Rightarrow> glob_t \<Rightarrow> mem \<Rightarrow> mem" where
  "globfree fr pglob m = (if gl_pathc pglob > 0 then fr (gl_pathv pglob) m else m)"

section \<open>Arrays of pointers\<close>

definition slots :: "mem \<Rightarrow> u64 \<Rightarrow> u64 list \<Rightarrow> bool" where
  "slots m p xs \<longleftrightarrow> (\<forall>i < length xs. load64 m (slot p (of_nat i)) = xs ! i)"

lemma slot_apart:
  assumes "unat (slot p (of_nat i) + of_nat k - slot p (of_nat j)) < 8" and "k < 8" and "i < 2 ^ 61" and "j < 2 ^ 61"
  shows "i = j"
proof -
  define t where "t = unat (slot p (of_nat i) + of_nat k - slot p (of_nat j))"
  have "of_nat t = slot p (of_nat i) + of_nat k - slot p (of_nat j)" by (simp add: t_def)
  then have "(of_nat (8 * i + k) :: u64) = of_nat (8 * j + t)" by (simp add: algebra_simps)
  then have "unat (of_nat (8 * i + k) :: u64) = unat (of_nat (8 * j + t) :: u64)" by simp
  moreover have "8 * i + k < 2 ^ 64" "8 * j + t < 2 ^ 64" "t < 8" using assms by (simp_all add: t_def)
  ultimately have "8 * i + k = 8 * j + t" by (simp only: unat_of_nat_64)
  then show ?thesis using assms(2) \<open>t < 8\<close> by presburger
qed

lemma load_store_slot:
  assumes "i < 2 ^ 61" and "j < 2 ^ 61"
  shows "load64 (store64 m (slot p (of_nat j)) v) (slot p (of_nat i)) = (if i = j then v else load64 m (slot p (of_nat i)))"
proof (cases "i = j")
  case True
  then show ?thesis using load_le_store_le_same [of 8] by (simp add: take_bit_word_eq_self)
next
  case False
  have "store64 m (slot p (of_nat j)) v (slot p (of_nat i) + of_nat k) = m (slot p (of_nat i) + of_nat k)" if "k < 8" for k
    using slot_apart [OF _ that assms] False by (auto simp: store_le_at)
  then have "load64 (store64 m (slot p (of_nat j)) v) (slot p (of_nat i)) = load64 m (slot p (of_nat i))" by (rule load_le_cong)
  then show ?thesis using False by simp
qed

text \<open>A store at an index of the array, or just behind it.\<close>

lemma slots_update:
  assumes "slots m p xs" and "length xs \<le> 2 ^ 61" and "j < length xs"
  shows "slots (store64 m (slot p (of_nat j)) v) p (xs[j := v])"
  using assms by (auto simp: slots_def load_store_slot nth_list_update)

lemma slots_extend:
  assumes "slots m p xs" and "length xs < 2 ^ 61"
  shows "slots (store64 m (slot p (of_nat (length xs))) v) p (xs @ [v])"
  unfolding slots_def
proof (intro allI impI)
  fix i assume "i < length (xs @ [v])"
  then have "i = length xs \<or> i < length xs" by auto
  then show "load64 (store64 m (slot p (of_nat (length xs))) v) (slot p (of_nat i)) = (xs @ [v]) ! i"
    using assms load_store_slot [of i "length xs" m p v] by (auto simp: slots_def nth_append)
qed

lemma slots_prefix: "slots m p (xs @ ys) \<Longrightarrow> slots m p xs"
  unfolding slots_def by (auto simp: nth_append)

lemma prev_len_eq:
  assumes "slots m p (rs @ old @ [0])" and "0 \<notin> set old" and "length rs + length old < 2 ^ 61" and "k \<le> length old"
  shows "glob_prev_len m p (of_nat (length rs)) (of_nat k) = Some (of_nat (length old))"
  using assms(4)
proof (induction "length old - k" arbitrary: k)
  case 0
  then have k: "k = length old" by simp
  have "load64 m (slot p (of_nat (length rs + length old))) = 0"
    using assms(1) by (auto simp: slots_def nth_append dest: spec [of _ "length rs + length old"])
  then show ?case by (subst glob_prev_len.simps) (simp add: k)
next
  case (Suc d)
  then have k: "k < length old" by simp
  have "load64 m (slot p (of_nat (length rs + k))) = old ! k"
    using assms(1) k by (auto simp: slots_def nth_append dest: spec [of _ "length rs + k"])
  moreover have "old ! k \<noteq> 0" using assms(2) k by (metis nth_mem)
  moreover have "glob_prev_len m p (of_nat (length rs)) (of_nat k + 1) = Some (of_nat (length old))"
    using Suc.hyps(1) [of "Suc k"] Suc.hyps(2) k by (simp add: add.commute)
  ultimately show ?case by (subst glob_prev_len.simps) simp
qed

lemma reserve_slots:
  assumes "slots m p (replicate i 0 @ rs @ xs)" and "length rs = k" and "i + k + length xs < 2 ^ 61"
  shows "slots (glob_reserve p k (of_nat i) m) p (replicate (i + k) 0 @ xs)"
  using assms
proof (induction k arbitrary: i rs m)
  case (Suc k)
  obtain r rs' where rs: "rs = r # rs'" "length rs' = k" using Suc.prems(2) by (cases rs) auto
  have "slots (store64 m (slot p (of_nat i)) 0) p (replicate (Suc i) 0 @ rs' @ xs)"
    using slots_update [OF Suc.prems(1), of i 0] Suc.prems(3) rs by (simp add: list_update_append replicate_app_Cons_same)
  then show ?case using Suc.IH [of _ "Suc i" rs'] Suc.prems(3) rs(2) by (simp add: add.commute)
qed simp

lemma result_slots:
  assumes "slots m p (xs @ replicate i r)" and "length xs + i + k < 2 ^ 61"
  shows "slots (glob_results r p (of_nat (length xs)) k (of_nat i) m) p (xs @ replicate (i + k) r)"
  using assms
proof (induction k arbitrary: i m)
  case (Suc k)
  have "slots (store64 m (slot p (of_nat (length xs + i))) r) p (xs @ replicate (Suc i) r)"
    using slots_extend [OF Suc.prems(1), of r] Suc.prems(2) by (simp add: replicate_append_same)
  then show ?case using Suc.IH [of _ "Suc i"] Suc.prems(2) by (simp add: add.commute)
qed simp

section \<open>The list after a call\<close>

definition reserved :: "u32 \<Rightarrow> glob_t \<Rightarrow> nat" where
  "reserved flags g = (if flags AND GLOB_DOOFFS \<noteq> 0 then unat (gl_offs g) else 0)"

text \<open>
  The list before a call: with \<^verbatim>\<open>GLOB_APPEND\<close> the paths \<open>old\<close> behind the reserved slots, in a block whose contents
  \<^verbatim>\<open>realloc\<close> keeps when it succeeds; otherwise nothing.
\<close>

definition glob_prior :: "(u64 \<Rightarrow> u64 \<Rightarrow> mem \<Rightarrow> u64 \<times> mem) \<Rightarrow> u32 \<Rightarrow> glob_t \<Rightarrow> mem \<Rightarrow> u64 list \<Rightarrow> bool" where
  "glob_prior real flags g m old \<longleftrightarrow>
     (if flags AND GLOB_APPEND \<noteq> 0
      then 0 \<notin> set old \<and> (\<exists>rs. length rs = reserved flags g \<and> slots m (gl_pathv g) (rs @ old @ [0])) \<and>
        (\<forall>k q m'. reserved flags g + length old < k \<and> k < 2 ^ 61 \<and> real (gl_pathv g) (of_nat k * 8) m = (q, m') \<and> q \<noteq> 0 \<longrightarrow>
           (\<forall>i \<le> reserved flags g + length old. load64 m' (slot q (of_nat i)) = load64 m (slot (gl_pathv g) (of_nat i))))
      else old = [])"

lemma some_slots: "\<exists>rs. length rs = k \<and> slots m q rs"
  by (rule exI [of _ "map (\<lambda>i. load64 m (slot q (of_nat i))) [0..<k]"]) (simp add: slots_def)

lemma prior_grown:
  assumes "glob_prior real flags g m old" and "reserved flags g + length old < k" and "k < 2 ^ 61"
    and "real (if flags AND GLOB_APPEND \<noteq> 0 then gl_pathv g else 0) (of_nat k * 8) m = (q, m')" and "q \<noteq> 0"
  obtains rs where "length rs = reserved flags g" and "slots m' q (rs @ old)"
proof (cases "flags AND GLOB_APPEND \<noteq> 0")
  case True
  note p = assms(1) [unfolded glob_prior_def if_P [OF True]]
  obtain rs where rs: "length rs = reserved flags g" "slots m (gl_pathv g) ((rs @ old) @ [0])" using p by auto
  have "slots m (gl_pathv g) (rs @ old)" by (rule slots_prefix [OF rs(2)])
  moreover have "load64 m' (slot q (of_nat i)) = load64 m (slot (gl_pathv g) (of_nat i))" if "i < length (rs @ old)" for i
    using p assms(2-5) True that rs(1) by auto
  ultimately have "slots m' q (rs @ old)" by (simp add: slots_def)
  then show thesis using that rs(1) by blast
next
  case False
  then have "old = []" using assms(1) by (simp add: glob_prior_def)
  then show thesis using that some_slots [of "reserved flags g" m' q] by auto
qed

lemma prior_len:
  assumes "glob_prior real flags g m old" and "reserved flags g + length old < 2 ^ 60"
  shows "(if flags AND GLOB_APPEND \<noteq> 0 then glob_prev_len m (gl_pathv g) (of_nat (reserved flags g)) 0 else Some 0) = Some (of_nat (length old))"
proof (cases "flags AND GLOB_APPEND \<noteq> 0")
  case True
  note p = assms(1) [unfolded glob_prior_def if_P [OF True]]
  obtain rs where rs: "length rs = reserved flags g" "slots m (gl_pathv g) (rs @ old @ [0])" using p by auto
  have "length rs + length old < 2 ^ 61" using assms(2) rs(1) by simp
  then show ?thesis using prev_len_eq [OF rs(2), of 0] p True rs(1) by simp
qed (use assms(1) in \<open>simp add: glob_prior_def\<close>)

text \<open>The two ways a list is written, into the block \<open>p\<close> that \<^verbatim>\<open>realloc\<close> returned.\<close>

lemma pattern_list:
  assumes "slots m p (rs @ old)" and "length rs + length old < 2 ^ 60"
  shows "slots (store64 (store64 (glob_reserve p (length rs) 0 m) (slot p (of_nat (length rs) + of_nat (length old))) pattern)
      (slot p (of_nat (length rs) + of_nat (length old) + 1)) 0) p (replicate (length rs) 0 @ old @ [pattern, 0])"
proof -
  let ?l = "replicate (length rs) 0 @ old"
  have r: "slots (glob_reserve p (length rs) 0 m) p ?l" using reserve_slots [of m p 0 rs old] assms by simp
  have "slots (store64 (glob_reserve p (length rs) 0 m) (slot p (of_nat (length ?l))) pattern) p (?l @ [pattern])"
    by (rule slots_extend [OF r]) (use assms(2) in simp)
  from slots_extend [OF this, of 0] show ?thesis using assms(2) by (simp add: algebra_simps)
qed

lemma result_list:
  assumes "slots m p (rs @ old)" and "length rs + length old < 2 ^ 60" and "n \<le> 10"
  shows "slots (store64 (glob_results r p (of_nat (length rs) + of_nat (length old)) n 0 (glob_reserve p (length rs) 0 m))
      (slot p (of_nat (length old) + of_nat (length rs) + of_nat n)) 0) p (replicate (length rs) 0 @ old @ replicate n r @ [0])"
proof -
  let ?l = "replicate (length rs) 0 @ old"
  have s: "slots (glob_reserve p (length rs) 0 m) p ?l" using reserve_slots [of m p 0 rs old] assms by simp
  then have "slots (glob_results r p (of_nat (length ?l)) n 0 (glob_reserve p (length rs) 0 m)) p (?l @ replicate n r)"
    using result_slots [of _ p ?l 0 r n] assms(2,3) by simp
  from slots_extend [OF this, of 0] show ?thesis using assms(2,3) by (simp add: algebra_simps)
qed

lemma run_interval_range:
  assumes "lo \<le> hi"
  obtains c s' where "run_state (Frama_C_interval lo hi) s = (c, s')" and "lo \<le> c" and "c \<le> hi" and "lmem s' = lmem s"
  using assms by (auto simp: run_interval split: if_splits)

abbreviation prior_path :: "u32 \<Rightarrow> glob_t \<Rightarrow> u64" where
  "prior_path flags g \<equiv> (if flags AND GLOB_APPEND \<noteq> 0 then gl_pathv g else 0)"

lemma unat_reserved: "unat (of_nat (reserved flags g) :: u64) = reserved flags g"
  by (auto simp: reserved_def)

text \<open>The writes stay in the slots of the list.\<close>

lemma store_slot_frame:
  assumes "i < k" and "k \<le> 2 ^ 61" and "\<not> inside q (8 * k) a"
  shows "store64 m (slot q (of_nat i)) v a = m a"
proof -
  have "\<not> unat (a - slot q (of_nat i)) < 8"
  proof
    assume t: "unat (a - slot q (of_nat i)) < 8"
    define t' where "t' = unat (a - slot q (of_nat i))"
    have "(of_nat t' :: u64) = a - slot q (of_nat i)" by (simp add: t'_def)
    then have "a - q = of_nat (8 * i + t')" by (simp add: algebra_simps)
    moreover have "8 * i + t' < 8 * k" using t assms(1) by (simp add: t'_def)
    moreover from this have "unat (of_nat (8 * i + t') :: u64) = 8 * i + t'" using assms(2) by (intro unat_of_nat_64) simp
    ultimately have "inside q (8 * k) a" unfolding inside_def by (simp only:)
    then show False using assms(3) by simp
  qed
  then show ?thesis by (simp add: store_le_at)
qed

lemma reserve_frame:
  "j + n \<le> k \<Longrightarrow> k \<le> 2 ^ 61 \<Longrightarrow> \<not> inside q (8 * k) a \<Longrightarrow> glob_reserve q n (of_nat j) m a = m a"
proof (induction n arbitrary: j m)
  case (Suc n)
  then show ?case using Suc.IH [of "Suc j"] store_slot_frame [of j k q a m 0] by (simp add: add.commute)
qed simp

lemma results_frame:
  "l + j + n \<le> k \<Longrightarrow> k \<le> 2 ^ 61 \<Longrightarrow> \<not> inside q (8 * k) a \<Longrightarrow> glob_results r q (of_nat l) n (of_nat j) m a = m a"
proof (induction n arbitrary: j m)
  case (Suc n)
  have "store64 m (slot q (of_nat (l + j))) r a = m a" using Suc.prems by (intro store_slot_frame) simp_all
  then show ?case using Suc.IH [of "Suc j"] Suc.prems by (simp add: add.commute)
qed simp

text \<open>The size of the new list, by the number \<open>n\<close> of results, and the list itself.\<close>

definition list_size :: "nat \<Rightarrow> u64 list \<Rightarrow> nat \<Rightarrow> nat" where
  "list_size k old n = k + length old + (if n = 0 then 2 else n + 1)"

definition new_list :: "nat \<Rightarrow> u64 list \<Rightarrow> u64 \<Rightarrow> u64 \<Rightarrow> nat \<Rightarrow> u64 list" where
  "new_list k old pattern result n = replicate k 0 @ old @ (if n = 0 then [pattern] else replicate n result) @ [0]"

lemma none_exact:
  assumes "glob_prior real flags g (lmem s) old" and "reserved flags g + length old < 2 ^ 60"
    and "real (prior_path flags g) (of_nat (list_size (reserved flags g) old 0) * 8) (lmem s) = (q, m)"
  shows "\<exists>m'. glob_none real pattern flags (of_nat (reserved flags g)) (of_nat (length old)) (prior_path flags g) g1 s =
      (if flags AND GLOB_NOCHECK = 0 then (GLOB_NOMATCH, g1, s)
       else if q = 0 then (GLOB_NOSPACE, g1\<lparr>gl_pathv := 0\<rparr>, s\<lparr>lmem := m\<rparr>)
       else (0, g1\<lparr>gl_pathv := q\<rparr>, s\<lparr>lmem := m'\<rparr>)) \<and>
    (q \<noteq> 0 \<longrightarrow> slots m' q (new_list (reserved flags g) old pattern result 0) \<and>
      (\<forall>a. \<not> inside q (8 * list_size (reserved flags g) old 0) a \<longrightarrow> m' a = m a))"
proof -
  let ?R = "reserved flags g" and ?L = "length old"
  have "of_nat (list_size ?R old 0) = (of_nat ?R + of_nat ?L + 2 :: u64)" by (simp add: list_size_def)
  then have p': "real (prior_path flags g) ((of_nat ?R + of_nat ?L + 2) * 8) (lmem s) = (q, m)" using assms(3) by (simp only:)
  define m' where "m' = store64 (store64 (glob_reserve q ?R 0 m) (slot q (of_nat ?R + of_nat ?L)) pattern)
      (slot q (of_nat ?R + of_nat ?L + 1)) 0"
  have run: "glob_none real pattern flags (of_nat ?R) (of_nat ?L) (prior_path flags g) g1 s =
      (if flags AND GLOB_NOCHECK = 0 then (GLOB_NOMATCH, g1, s)
       else if q = 0 then (GLOB_NOSPACE, g1\<lparr>gl_pathv := 0\<rparr>, s\<lparr>lmem := m\<rparr>)
       else (0, g1\<lparr>gl_pathv := q\<rparr>, s\<lparr>lmem := m'\<rparr>))"
    unfolding glob_none_def p' unat_reserved by (simp add: m'_def Let_def)
  have "slots m' q (new_list ?R old pattern result 0) \<and> (\<forall>a. \<not> inside q (8 * list_size ?R old 0) a \<longrightarrow> m' a = m a)" if q0: "q \<noteq> 0"
  proof (intro conjI allI impI)
    obtain rs where rs: "length rs = ?R" "slots m q (rs @ old)"
      by (rule prior_grown [OF assms(1) _ _ assms(3) q0]) (use assms(2) in \<open>simp_all add: list_size_def\<close>)
    show "slots m' q (new_list ?R old pattern result 0)"
      using pattern_list [OF rs(2), of pattern] assms(2) unfolding m'_def rs(1) by (simp add: new_list_def)
  next
    fix a assume a: "\<not> inside q (8 * list_size ?R old 0) a"
    have K: "list_size ?R old 0 \<le> 2 ^ 61" "?R + ?L + 1 < list_size ?R old 0" using assms(2) by (simp_all add: list_size_def)
    have e: "of_nat ?R + of_nat ?L = (of_nat (?R + ?L) :: u64)" "of_nat (?R + ?L) + 1 = (of_nat (?R + ?L + 1) :: u64)" by simp_all
    have f: "store64 x (slot q (of_nat (?R + ?L))) v a = x a" "store64 x (slot q (of_nat (?R + ?L + 1))) v a = x a" for x v
      by (rule store_slot_frame [OF _ K(1) a], use K(2) in linarith)+
    show "m' a = m a" unfolding m'_def e f using reserve_frame [OF _ K(1) a, of 0 ?R m] K(2) by simp
  qed
  then show ?thesis using run by blast
qed

text \<open>The error that is simulated: it is drawn, there is a callback, and this or the flag demands to stop.\<close>

definition glob_aborts :: "u32 \<Rightarrow> 'a libc_state_scheme errfunc option \<Rightarrow> u64 \<Rightarrow> 'a libc_state_scheme \<Rightarrow> bool" where
  "glob_aborts flags errfunc error_path s \<longleftrightarrow> drawn s \<noteq> 0 \<and>
     (case errfunc of None \<Rightarrow> False
      | Some ef \<Rightarrow> let (e, s) = run_state (Frama_C_interval 0 255) (after_draw s)
          in fst (ef error_path e s) \<noteq> 0 \<or> flags AND GLOB_ERR \<noteq> 0)"

lemma some_exact:
  assumes "glob_prior real flags g (lmem s) old" and "reserved flags g + length old < 2 ^ 60" and "n \<le> 10" and "n \<noteq> 0"
    and "\<forall>ef a e s. errfunc = Some ef \<longrightarrow> lmem (snd (ef a e s)) = lmem s"
    and "real (prior_path flags g) (of_nat (list_size (reserved flags g) old n) * 8) (lmem s) = (q, m)"
  shows "\<exists>m' s'. glob_some real result error_path flags errfunc (of_nat (reserved flags g)) (of_nat (length old)) (prior_path flags g)
      (g\<lparr>gl_pathc := of_nat n\<rparr>) s =
      (if q = 0 then (GLOB_NOSPACE, g\<lparr>gl_pathc := of_nat n, gl_pathv := 0\<rparr>, s\<lparr>lmem := m\<rparr>)
       else (if glob_aborts flags errfunc error_path (s\<lparr>lmem := m'\<rparr>) then GLOB_ABORTED else 0,
         g\<lparr>gl_pathc := of_nat n, gl_pathv := q\<rparr>, s')) \<and>
    (q \<noteq> 0 \<longrightarrow> lmem s' = m' \<and> slots m' q (new_list (reserved flags g) old pattern result n) \<and>
      (\<forall>a. \<not> inside q (8 * list_size (reserved flags g) old n) a \<longrightarrow> m' a = m a))"
proof -
  let ?R = "reserved flags g" and ?L = "length old"
  define path where "path = prior_path flags g"
  have "of_nat (list_size ?R old n) = (of_nat ?R + of_nat ?L + of_nat n + 1 :: u64)" using assms(4) by (simp add: list_size_def)
  then have p': "real path ((of_nat ?R + of_nat ?L + of_nat n + 1) * 8) (lmem s) = (q, m)"
    using assms(6) unfolding path_def by (simp only:)
  have un: "unat (of_nat n :: u64) = n" using assms(3) by (intro unat_of_nat_64) simp
  define g1 where "g1 = g\<lparr>gl_pathc := of_nat n\<rparr>"
  have g1: "gl_pathc g1 = of_nat n" "gl_pathc (g1\<lparr>gl_pathv := q\<rparr>) = of_nat n" by (simp_all add: g1_def)
  define m' where "m' = store64 (glob_results result q (of_nat ?R + of_nat ?L) n 0 (glob_reserve q ?R 0 m))
      (slot q (of_nat ?L + of_nat ?R + of_nat n)) 0"
  have "\<exists>s'. glob_some real result error_path flags errfunc (of_nat ?R) (of_nat ?L) path g1 s =
      (if q = 0 then (GLOB_NOSPACE, g1\<lparr>gl_pathv := 0\<rparr>, s\<lparr>lmem := m\<rparr>)
       else (if glob_aborts flags errfunc error_path (s\<lparr>lmem := m'\<rparr>) then GLOB_ABORTED else 0, g1\<lparr>gl_pathv := q\<rparr>, s')) \<and>
      lmem s' = m'"
  proof (cases "drawn s \<noteq> 0 \<and> errfunc \<noteq> None")
    case True
    then obtain ef where ef: "errfunc = Some ef" by blast
    obtain e t where e: "run_state (Frama_C_interval 0 255) (after_draw (s\<lparr>lmem := m'\<rparr>)) = (e, t)" "lmem t = m'"
      by (simp add: run_interval)
    obtain x t' where x: "ef error_path e t = (x, t')" by fastforce
    have "lmem t' = m'" using assms(5) ef x e(2) by (metis snd_conv)
    then show ?thesis
      using True ef e(1) x unfolding glob_some_def g1(1) p' prod.case unat_reserved Let_def g1(2) un run_nondet m'_def [symmetric]
      by (intro exI [of _ t']) (auto simp: glob_aborts_def)
  next
    case False
    then show ?thesis
      unfolding glob_some_def g1(1) p' prod.case unat_reserved Let_def g1(2) un run_nondet m'_def [symmetric]
      by (intro exI [of _ "after_draw (s\<lparr>lmem := m'\<rparr>)"]) (auto simp: glob_aborts_def)
  qed
  then obtain s' where s': "glob_some real result error_path flags errfunc (of_nat ?R) (of_nat ?L) path g1 s =
      (if q = 0 then (GLOB_NOSPACE, g1\<lparr>gl_pathv := 0\<rparr>, s\<lparr>lmem := m\<rparr>)
       else (if glob_aborts flags errfunc error_path (s\<lparr>lmem := m'\<rparr>) then GLOB_ABORTED else 0, g1\<lparr>gl_pathv := q\<rparr>, s'))"
      "lmem s' = m'" by blast
  have "slots m' q (new_list ?R old pattern result n) \<and> (\<forall>a. \<not> inside q (8 * list_size ?R old n) a \<longrightarrow> m' a = m a)" if q0: "q \<noteq> 0"
  proof (intro conjI allI impI)
    obtain rs where rs: "length rs = ?R" "slots m q (rs @ old)"
      by (rule prior_grown [OF assms(1) _ _ assms(6) q0]) (use assms(2,3) in \<open>simp_all add: list_size_def\<close>)
    show "slots m' q (new_list ?R old pattern result n)"
      using result_list [OF rs(2) _ assms(3), of result] assms(2,4) unfolding m'_def rs(1) by (simp add: new_list_def)
  next
    fix a assume a: "\<not> inside q (8 * list_size ?R old n) a"
    have K: "list_size ?R old n \<le> 2 ^ 61" "?L + ?R + n < list_size ?R old n" using assms(2-4) by (simp_all add: list_size_def)
    have e: "of_nat ?R + of_nat ?L = (of_nat (?R + ?L) :: u64)" "of_nat ?L + of_nat ?R + of_nat n = (of_nat (?L + ?R + n) :: u64)" by simp_all
    have f: "glob_results result q (of_nat (?R + ?L)) n 0 x a = x a" for x
      using results_frame [OF _ K(1) a, of "?R + ?L" 0 n result x] K(2) by (simp add: add.commute)
    show "m' a = m a" unfolding m'_def e store_slot_frame [OF K(2,1) a] f using reserve_frame [OF _ K(1) a, of 0 ?R m] K(2) by simp
  qed
  then show ?thesis using s' unfolding path_def g1_def by (intro exI [of _ m'] exI [of _ s']) simp
qed

text \<open>The number of results that is drawn.\<close>

definition found :: "'a libc_state_scheme \<Rightarrow> nat" where
  "found s = (if 0 \<le> drawn s \<and> drawn s \<le> 10 then nat (drawn s) else 0)"

text \<open>
  C37: \<^verbatim>\<open>glob\<close> returns, for every list it may be given, and its outcome is determined. Let \<open>n\<close> be the number of
  results drawn, between 0 and 10, and \<open>q\<close> the block that \<^verbatim>\<open>realloc\<close> returns for the new list. With no result and
  without \<^verbatim>\<open>GLOB_NOCHECK\<close> it returns \<^verbatim>\<open>GLOB_NOMATCH\<close> and leaves the list and the memory as they are. Otherwise, if
  \<open>q\<close> is null, it returns \<^verbatim>\<open>GLOB_NOSPACE\<close> and loses the list. Otherwise the list is at \<open>q\<close>: a null pointer for every
  reserved slot, the paths that were there before (with \<^verbatim>\<open>GLOB_APPEND\<close>), then the results or, if there is
  none, the pattern, and a null pointer; nothing else is written. It returns \<^verbatim>\<open>GLOB_ABORTED\<close> exactly if there are results, an error
  is drawn, and there is a callback that returns a nonzero value or \<^verbatim>\<open>GLOB_ERR\<close> is set; else 0. \<^verbatim>\<open>gl_pathc\<close> counts
  the new results only: it is neither the length of an appended list nor 1 for the pattern, and with
  no result \<^verbatim>\<open>globfree\<close> does not free the list.
\<close>

theorem glob_correct:
  assumes "glob_prior real flags g (lmem s) old" and "reserved flags g + length old < 2 ^ 60"
    and "\<forall>ef a e s. errfunc = Some ef \<longrightarrow> lmem (snd (ef a e s)) = lmem s"
    and "real (prior_path flags g) (of_nat (list_size (reserved flags g) old (found s)) * 8) (lmem s) = (q, m)"
  shows "\<exists>r g' s'. glob real result error_path pattern flags errfunc g s = Some (r, g', s') \<and> gl_pathc g' = of_nat (found s) \<and>
    gl_offs g' = gl_offs g \<and> globfree fr g' (lmem s') = (if found s = 0 then lmem s' else fr (gl_pathv g') (lmem s')) \<and>
    (if found s = 0 \<and> flags AND GLOB_NOCHECK = 0
     then r = GLOB_NOMATCH \<and> gl_pathv g' = gl_pathv g \<and> lmem s' = lmem s
     else if q = 0 then r = GLOB_NOSPACE \<and> gl_pathv g' = 0 \<and> lmem s' = m
     else r = (if found s \<noteq> 0 \<and> glob_aborts flags errfunc error_path ((after_draw s)\<lparr>lmem := lmem s'\<rparr>) then GLOB_ABORTED else 0) \<and>
       gl_pathv g' = q \<and> slots (lmem s') q (new_list (reserved flags g) old pattern result (found s)) \<and>
       (\<forall>a. \<not> inside q (8 * list_size (reserved flags g) old (found s)) a \<longrightarrow> lmem s' a = m a))"
proof -
  define n where "n = found s"
  let ?s = "after_draw s"
  have n: "n \<le> 10" by (simp add: n_def found_def nat_le_iff)
  have c: "run_state (Frama_C_interval 0 10) s = (int n, ?s)" by (simp add: run_interval n_def found_def)
  have "unat (of_nat n :: u64) = n" using n by (intro unat_of_nat_64) simp
  then have n0: "(of_nat n :: u64) = 0 \<longleftrightarrow> n = 0" by (cases "n = 0") auto
  let ?R = "of_nat (reserved flags g)" and ?L = "of_nat (length old)"
  have ro: "(if flags AND GLOB_DOOFFS \<noteq> 0 then gl_offs g else 0) = ?R" by (simp add: reserved_def)
  have g1: "gl_offs (g\<lparr>gl_pathc := x\<rparr>) = gl_offs g" "gl_pathv (g\<lparr>gl_pathc := x\<rparr>) = gl_pathv g" "gl_pathc (g\<lparr>gl_pathc := x\<rparr>) = x" for x
    by simp_all
  have ls: "lmem ?s = lmem s" "word_of_int (int n) = (of_nat n :: u64)" by simp_all
  have run: "glob real result error_path pattern flags errfunc g s =
    Some (if n = 0 then glob_none real pattern flags ?R ?L (prior_path flags g) (g\<lparr>gl_pathc := of_nat n\<rparr>) ?s
      else glob_some real result error_path flags errfunc ?R ?L (prior_path flags g) (g\<lparr>gl_pathc := of_nat n\<rparr>) ?s)"
    unfolding glob_def c Let_def prod.case ls(2) g1 ro ls(1) prior_len [OF assms(1,2)] n0 by simp
  have prior: "glob_prior real flags g (lmem ?s) old" using assms(1) by simp
  have free: "globfree fr g' m = (if n = 0 then m else fr (gl_pathv g') m)" if "gl_pathc g' = of_nat n" for g' m
    using that n0 by (simp add: globfree_def word_gt_0)
  show ?thesis
  proof (cases "n = 0")
    case True
    obtain m' where o: "glob_none real pattern flags ?R ?L (prior_path flags g) (g\<lparr>gl_pathc := of_nat n\<rparr>) ?s =
      (if flags AND GLOB_NOCHECK = 0 then (GLOB_NOMATCH, g\<lparr>gl_pathc := of_nat n\<rparr>, ?s)
       else if q = 0 then (GLOB_NOSPACE, g\<lparr>gl_pathc := of_nat n, gl_pathv := 0\<rparr>, ?s\<lparr>lmem := m\<rparr>)
       else (0, g\<lparr>gl_pathc := of_nat n, gl_pathv := q\<rparr>, ?s\<lparr>lmem := m'\<rparr>))"
      "q \<noteq> 0 \<longrightarrow> slots m' q (new_list (reserved flags g) old pattern result n) \<and>
        (\<forall>a. \<not> inside q (8 * list_size (reserved flags g) old n) a \<longrightarrow> m' a = m a)"
      using none_exact [OF prior assms(2), of q m pattern "g\<lparr>gl_pathc := of_nat n\<rparr>" result] assms(4) True by (auto simp: n_def [symmetric])
    show ?thesis
      unfolding run n_def [symmetric] if_P [OF True] o(1) using o(2) True free by (auto simp: n_def [symmetric])
  next
    case False
    obtain m' s' where o: "glob_some real result error_path flags errfunc ?R ?L (prior_path flags g) (g\<lparr>gl_pathc := of_nat n\<rparr>) ?s =
      (if q = 0 then (GLOB_NOSPACE, g\<lparr>gl_pathc := of_nat n, gl_pathv := 0\<rparr>, ?s\<lparr>lmem := m\<rparr>)
       else (if glob_aborts flags errfunc error_path (?s\<lparr>lmem := m'\<rparr>) then GLOB_ABORTED else 0,
         g\<lparr>gl_pathc := of_nat n, gl_pathv := q\<rparr>, s'))"
      "q \<noteq> 0 \<longrightarrow> lmem s' = m' \<and> slots m' q (new_list (reserved flags g) old pattern result n) \<and>
        (\<forall>a. \<not> inside q (8 * list_size (reserved flags g) old n) a \<longrightarrow> m' a = m a)"
      using some_exact [OF prior assms(2) n False assms(3), of q m result error_path pattern] assms(4) by (auto simp: n_def [symmetric])
    show ?thesis
      unfolding run n_def [symmetric] if_not_P [OF False] o(1) using o(2) False free by (auto simp: n_def [symmetric])
  qed
qed

text \<open>With three results drawn and no error, behind a path that was there before; and \<^verbatim>\<open>GLOB_NOSPACE\<close> when \<^verbatim>\<open>realloc\<close> fails.\<close>

definition ex_glob :: glob_t where "ex_glob = \<lparr>gl_pathc = 0, gl_pathv = 0x1000, gl_offs = 0\<rparr>"

definition ex_glob_state :: libc_state where
  "ex_glob_state = \<lparr>entropy = sconst 3, lmem = store64 (\<lambda>_. 0) 0x1000 0x900\<rparr>"

theorem glob_correct_witness:
  "(\<exists>g' s'. glob (\<lambda>p k m. (p, m)) 0x500 0x600 0x700 GLOB_APPEND None ex_glob ex_glob_state = Some (0, g', s') \<and> gl_pathc g' = 3 \<and>
      slots (lmem s') 0x1000 [0x900, 0x500, 0x500, 0x500, 0]) \<and>
   (\<exists>g' s'. glob (\<lambda>p k m. (0, m)) 0x500 0x600 0x700 GLOB_APPEND None ex_glob ex_glob_state = Some (GLOB_NOSPACE, g', s'))"
proof -
  have r: "reserved GLOB_APPEND ex_glob = 0" by (simp add: reserved_def GLOB_APPEND_def GLOB_DOOFFS_def)
  have f: "found ex_glob_state = 3" by (simp add: found_def ex_glob_state_def)
  have z: "load64 (\<lambda>_. 0) a = 0" for a by (rule bit_word_eqI) simp
  have l0: "load64 (lmem ex_glob_state) (slot 0x1000 (of_nat i)) = [0x900, 0] ! i" if "i < 2" for i
    using load_store_slot [of i 0 "\<lambda>_. 0" "0x1000" "0x900"] that z by (cases i) (auto simp: ex_glob_state_def)
  have sl: "slots (lmem ex_glob_state) (gl_pathv ex_glob) ([0x900] @ [0])"
    unfolding slots_def using l0 by (simp add: ex_glob_def)
  have a: "GLOB_APPEND AND GLOB_APPEND \<noteq> 0" by (simp add: GLOB_APPEND_def)
  have p: "glob_prior (\<lambda>p k m. (p, m)) GLOB_APPEND ex_glob (lmem ex_glob_state) [0x900]"
    "glob_prior (\<lambda>p k m. (0, m)) GLOB_APPEND ex_glob (lmem ex_glob_state) [0x900]"
    unfolding glob_prior_def if_P [OF a] r using sl by simp_all
  have l: "reserved GLOB_APPEND ex_glob + length [0x900 :: u64] < 2 ^ 60" unfolding r by simp
  have e: "\<forall>ef a e s. (None :: libc_state errfunc option) = Some ef \<longrightarrow> lmem (snd (ef a e s)) = lmem s" by simp
  have nl: "new_list 0 [0x900] 0x700 0x500 3 = [0x900, 0x500, 0x500, 0x500, 0]" by (simp add: new_list_def numeral_3_eq_3)
  have na: "\<not> glob_aborts GLOB_APPEND None x (t :: libc_state)" for x t by (simp add: glob_aborts_def)
  have g: "gl_pathv ex_glob = 0x1000" by (simp add: ex_glob_def)
  note c = glob_correct [OF p(1) l e, unfolded f r if_P [OF a], OF refl, of "0x500" "0x600" "0x700" "\<lambda>_ m. m", unfolded nl g]
    and d = glob_correct [OF p(2) l e, unfolded f r if_P [OF a], OF refl, of "0x500" "0x600" "0x700" "\<lambda>_ m. m"]
  have "\<exists>g' s'. glob (\<lambda>p k m. (p, m)) 0x500 0x600 0x700 GLOB_APPEND None ex_glob ex_glob_state = Some (0, g', s') \<and> gl_pathc g' = 3 \<and>
      slots (lmem s') 0x1000 [0x900, 0x500, 0x500, 0x500, 0]" using c na by auto
  moreover have "\<exists>g' s'. glob (\<lambda>p k m. (0, m)) 0x500 0x600 0x700 GLOB_APPEND None ex_glob ex_glob_state = Some (GLOB_NOSPACE, g', s')"
    using d by auto
  ultimately show ?thesis by blast
qed

end
