(* ===== verification/Libc_Buffers.thy ===== *)
theory Libc_Buffers
  imports Libc_Env
begin

text \<open>
  The functions that return a static buffer of arbitrary text: \<^verbatim>\<open>strerror\<close> and \<^verbatim>\<open>strsignal\<close> of \<^verbatim>\<open>string.c\<close>,
  \<^verbatim>\<open>ctime\<close> of \<^verbatim>\<open>time.c\<close>, and \<^verbatim>\<open>res_search\<close> of \<^verbatim>\<open>netdb.c\<close>, which fills the caller's. The addresses of the
  buffers are parameters.
\<close>

section \<open>Definitions\<close>

record message_state = libc_state +
  fc_strerror_init :: bool
  fc_strsignal_init :: bool

definition strerror :: "u64 \<Rightarrow> int \<Rightarrow> ('a message_state_scheme, u64) state" where
  "strerror fc_strerror errnum = do {
     s \<leftarrow> State_Monad.get;
     (if \<not> fc_strerror_init s then do {
        Frama_C_make_unknown fc_strerror 63;
        store_byte (fc_strerror + 63) 0;
        State_Monad.update (\<lambda>s. s\<lparr>fc_strerror_init := True\<rparr>) }
      else State_Monad.return ());
     State_Monad.return fc_strerror }"

definition strsignal :: "u64 \<Rightarrow> int \<Rightarrow> ('a message_state_scheme, u64) state" where
  "strsignal fc_strsignal signum = do {
     s \<leftarrow> State_Monad.get;
     (if \<not> fc_strsignal_init s then do {
        Frama_C_make_unknown fc_strsignal 63;
        store_byte (fc_strsignal + 63) 0;
        State_Monad.update (\<lambda>s. s\<lparr>fc_strsignal_init := True\<rparr>) }
      else State_Monad.return ());
     State_Monad.return fc_strsignal }"

definition ctime :: "u64 \<Rightarrow> u64 \<Rightarrow> ('a libc_state_scheme, u64) state" where
  "ctime fc_ctime timer = do {
     Frama_C_make_unknown fc_ctime 26;
     store_byte (fc_ctime + 25) 0;
     State_Monad.return fc_ctime }"

text \<open>The loop of \<^verbatim>\<open>res_search\<close>, with the number of iterations left; the index is an \<^verbatim>\<open>int\<close>.\<close>

fun res_search_loop :: "u64 \<Rightarrow> nat \<Rightarrow> int \<Rightarrow> ('a libc_state_scheme, unit) state" where
  "res_search_loop answer 0 i = State_Monad.return ()"
| "res_search_loop answer (Suc k) i = do {
     c \<leftarrow> Frama_C_char_interval (- 128) 127;
     store_byte (answer + word_of_int i) (word_of_int c);
     res_search_loop answer k (i + 1) }"

definition res_search :: "u64 \<Rightarrow> int \<Rightarrow> ('a libc_state_scheme, int) state" where
  "res_search answer anslen = do {
     res_search_loop answer (nat (anslen - 1)) 0;
     store_byte (answer + word_of_int (anslen - 1)) 0;
     Frama_C_interval (- 1) anslen }"

section \<open>What they return\<close>

text \<open>A string that ends in the buffer of \<open>n\<close> bytes at \<open>p\<close>.\<close>

definition ends_in :: "mem \<Rightarrow> u64 \<Rightarrow> nat \<Rightarrow> bool" where
  "ends_in m p n \<longleftrightarrow> (\<exists>k<n. terminated m p k)"

lemma last_byte_ends: "0 < n \<Longrightarrow> m (p + of_nat (n - 1)) = 0 \<Longrightarrow> ends_in m p n"
  using ex_terminated [of m p "n - 1"] unfolding ends_in_def by (metis Suc_pred' le_imp_less_Suc)

text \<open>Only the buffer is written.\<close>

definition writes_only :: "u64 \<Rightarrow> nat \<Rightarrow> mem \<Rightarrow> mem \<Rightarrow> bool" where
  "writes_only p n m m' \<longleftrightarrow> (\<forall>a. \<not> inside p n a \<longrightarrow> m' a = m a)"

lemma run_make_unknown:
  "lmem (snd (run_state (Frama_C_make_unknown p l) s)) =
     (\<lambda>a. if inside p (unat l) a then word_of_int (sint (stl (entropy s) !! unat (a - p))) else lmem s a)"
  by (simp add: Frama_C_make_unknown_def run_make_unknown_loop [OF less_imp_le [OF unat_lt_64]] cong: if_cong)

lemma run_res_search_loop:
  assumes "run_state (res_search_loop p k i) s = (r, s')" and "0 \<le> i" and "i + int k < 2 ^ 31"
  shows "writes_only (p + word_of_int i) k (lmem s) (lmem s')"
  using assms
proof (induction k arbitrary: i s)
  case 0
  then show ?case by (simp add: writes_only_def)
next
  case (Suc k)
  obtain c s1 where c: "run_state (Frama_C_char_interval (- 128) 127) s = (c, s1)" "lmem s1 = lmem s" by (simp add: run_char_interval)
  let ?q = "p + word_of_int i"
  have e: "p + word_of_int (i + 1) = ?q + 1" by (simp add: of_int_add)
  have "writes_only (?q + 1) k ((lmem s1)(?q := word_of_int c)) (lmem s')"
    using Suc.IH [of "i + 1" "s1\<lparr>lmem := (lmem s1)(?q := word_of_int c)\<rparr>"] Suc.prems c(1) unfolding e by (simp add: fun_upd_def)
  then have w: "writes_only (?q + 1) k ((lmem s)(?q := word_of_int c)) (lmem s')" unfolding c(2) .
  have "\<not> inside (?q + 1) k a \<and> a \<noteq> ?q" if a: "\<not> inside ?q (Suc k) a" for a
  proof
    show "a \<noteq> ?q" using a by (auto simp: inside_def)
    show "\<not> inside (?q + 1) k a"
    proof
      assume "inside (?q + 1) k a"
      then have "unat (a - ?q - 1) < k" by (simp add: inside_def algebra_simps)
      then have "unat (a - ?q - 1 + 1) \<le> k" using Suc.prems(2,3) unat_add_64 [of "a - ?q - 1" 1] by simp
      then show False using a by (simp add: inside_def)
    qed
  qed
  then show ?case using w unfolding writes_only_def by simp
qed

lemma filled_buffer:
  assumes "0 < n" and "n < 2 ^ 64" and "writes_only p k m m'" and "k \<le> n"
  shows "ends_in (m'(p + of_nat (n - 1) := 0)) p n" and "writes_only p n m (m'(p + of_nat (n - 1) := 0))"
proof -
  show "ends_in (m'(p + of_nat (n - 1) := 0)) p n" by (rule last_byte_ends [OF assms(1)]) simp
  have "unat (of_nat (n - 1) :: u64) = n - 1" using assms(2) by (intro unat_of_nat_64) simp
  then have q: "inside p n (p + of_nat (n - 1))" using assms(1) by (simp add: inside_def)
  have "m' a = m a \<and> a \<noteq> p + of_nat (n - 1)" if a: "\<not> inside p n a" for a
  proof
    have "\<not> inside p k a" using a assms(4) by (simp add: inside_def)
    then show "m' a = m a" using assms(3) by (simp add: writes_only_def)
    show "a \<noteq> p + of_nat (n - 1)" using q a by metis
  qed
  then show "writes_only p n m (m'(p + of_nat (n - 1) := 0))" unfolding writes_only_def by (simp add: fun_upd_apply)
qed

lemma make_unknown_writes: "writes_only p (unat l) (lmem s) (lmem (snd (run_state (Frama_C_make_unknown p l) s)))"
  unfolding run_make_unknown writes_only_def by simp

lemma fill_and_end:
  assumes "run_state (Frama_C_make_unknown p l) s = (r, s1)" and "0 < n" and "n < 2 ^ 64" and "unat l \<le> n" and "e = of_nat (n - 1)"
  shows "ends_in ((lmem s1)(p + e := 0)) p n" and "writes_only p n (lmem s) ((lmem s1)(p + e := 0))"
  using filled_buffer [OF assms(2,3) _ assms(4), of p "lmem s" "lmem s1"] make_unknown_writes [of p l s] assms(1) unfolding assms(5) by simp_all

lemma unchanged: "m (p + 63) = 0 \<Longrightarrow> ends_in m p 64" "writes_only p n m m"
  using last_byte_ends [of 64 m p] by (simp_all add: writes_only_def)

text \<open>
  The texts are strings that end in their buffer, and no other byte is written. \<^verbatim>\<open>res_search\<close>, for a
  positive length, terminates the answer.
\<close>

theorem strerror_terminated:
  fixes s :: "'a message_state_scheme"
  assumes "fc_strerror_init s \<Longrightarrow> lmem s (b + 63) = 0" and "run_state (strerror b e) s = (p, s')"
  shows "p = b \<and> ends_in (lmem s') b 64 \<and> writes_only b 64 (lmem s) (lmem s') \<and> fc_strerror_init s' \<and> lmem s' (b + 63) = 0"
proof (cases "fc_strerror_init s")
  case True
  then have "p = b" "s' = s" using assms(2) by (simp_all add: strerror_def State_Monad.get_def)
  then show ?thesis using assms(1) [OF True] True unchanged by simp
next
  case False
  obtain s1 where s1: "run_state (Frama_C_make_unknown b 63) s = ((), s1)" by (cases "run_state (Frama_C_make_unknown b 63) s") auto
  then have "run_state (strerror b e) s = (b, s1\<lparr>lmem := (lmem s1)(b + 63 := 0), fc_strerror_init := True\<rparr>)"
    using False by (simp add: strerror_def State_Monad.get_def State_Monad.update_def State_Monad.set_def)
  then have "p = b" "s' = s1\<lparr>lmem := (lmem s1)(b + 63 := 0), fc_strerror_init := True\<rparr>" using assms(2) by (simp_all only: prod.inject)
  moreover have "ends_in ((lmem s1)(b + 63 := 0)) b 64" "writes_only b 64 (lmem s) ((lmem s1)(b + 63 := 0))"
    by (rule fill_and_end [OF s1]; simp)+
  ultimately show ?thesis by simp
qed

theorem strsignal_terminated:
  fixes s :: "'a message_state_scheme"
  assumes "fc_strsignal_init s \<Longrightarrow> lmem s (b + 63) = 0" and "run_state (strsignal b g) s = (p, s')"
  shows "p = b \<and> ends_in (lmem s') b 64 \<and> writes_only b 64 (lmem s) (lmem s') \<and> fc_strsignal_init s' \<and> lmem s' (b + 63) = 0"
proof (cases "fc_strsignal_init s")
  case True
  then have "p = b" "s' = s" using assms(2) by (simp_all add: strsignal_def State_Monad.get_def)
  then show ?thesis using assms(1) [OF True] True unchanged by simp
next
  case False
  obtain s1 where s1: "run_state (Frama_C_make_unknown b 63) s = ((), s1)" by (cases "run_state (Frama_C_make_unknown b 63) s") auto
  then have "run_state (strsignal b g) s = (b, s1\<lparr>lmem := (lmem s1)(b + 63 := 0), fc_strsignal_init := True\<rparr>)"
    using False by (simp add: strsignal_def State_Monad.get_def State_Monad.update_def State_Monad.set_def)
  then have "p = b" "s' = s1\<lparr>lmem := (lmem s1)(b + 63 := 0), fc_strsignal_init := True\<rparr>" using assms(2) by (simp_all only: prod.inject)
  moreover have "ends_in ((lmem s1)(b + 63 := 0)) b 64" "writes_only b 64 (lmem s) ((lmem s1)(b + 63 := 0))"
    by (rule fill_and_end [OF s1]; simp)+
  ultimately show ?thesis by simp
qed

theorem ctime_terminated:
  assumes "run_state (ctime b t) s = (p, s')"
  shows "p = b \<and> ends_in (lmem s') b 26 \<and> writes_only b 26 (lmem s) (lmem s')"
proof -
  obtain s1 where s1: "run_state (Frama_C_make_unknown b 26) s = ((), s1)" by (cases "run_state (Frama_C_make_unknown b 26) s") auto
  then have "run_state (ctime b t) s = (b, s1\<lparr>lmem := (lmem s1)(b + 25 := 0)\<rparr>)" by (simp add: ctime_def)
  then have "p = b" "s' = s1\<lparr>lmem := (lmem s1)(b + 25 := 0)\<rparr>" using assms by simp_all
  moreover have "ends_in ((lmem s1)(b + 25 := 0)) b 26" "writes_only b 26 (lmem s) ((lmem s1)(b + 25 := 0))"
    by (rule fill_and_end [OF s1]; simp)+
  ultimately show ?thesis by simp
qed

theorem res_search_terminated:
  assumes "run_state (res_search a (int n)) s = (r, s')" and "0 < n" and "n < 2 ^ 31"
  shows "- 1 \<le> r \<and> r \<le> int n \<and> ends_in (lmem s') a n \<and> writes_only a n (lmem s) (lmem s')"
proof -
  obtain s1 where s1: "run_state (res_search_loop a (n - 1) 0) s = ((), s1)" by (cases "run_state (res_search_loop a (n - 1) 0) s") auto
  have e: "int n - 1 = int (n - 1)" "nat (int n - 1) = n - 1" using assms(2) by simp_all
  have "lmem s' = (lmem s1)(a + of_nat (n - 1) := 0)" "- 1 \<le> r \<and> r \<le> int n"
    using assms(1) s1 unfolding res_search_def e by (auto simp: run_interval split: if_splits)
  moreover have "writes_only a (n - 1) (lmem s) (lmem s1)" using run_res_search_loop [OF s1] assms(2,3) by simp
  ultimately show ?thesis using filled_buffer [of n a "n - 1" "lmem s" "lmem s1"] assms(2,3) by simp
qed

end
