(* ===== verification/Libc_Net.thy ===== *)
theory Libc_Net
  imports Libc_Buffers Libc_String_Correct
begin

text \<open>
  \<^verbatim>\<open>gethostbyname\<close> and \<^verbatim>\<open>getaddrinfo\<close> of \<^verbatim>\<open>netdb.c\<close>. The static structure \<^verbatim>\<open>__fc_ghbn\<close> is part of the state, its
  byte arrays are in memory; their addresses, \<^verbatim>\<open>malloc\<close>, \<^verbatim>\<open>inet_addr\<close> and the value read from the volatile
  \<^verbatim>\<open>net_state\<close> are parameters. \<open>None\<close> is a name without an end.
\<close>

section \<open>Definitions\<close>

record hostent =
  h_name :: u64
  h_aliases :: u64
  h_addrtype :: int
  h_length :: int
  h_addr_list :: u64

record ghbn_state = libc_state +
  host :: hostent
  h_addr_ptrs :: "u64 list"
  host_aliases :: "u64 list"
  net_errno :: int

text \<open>The addresses of the parts of \<^verbatim>\<open>__fc_ghbn\<close>, and of the local array \<^verbatim>\<open>buf\<close>.\<close>

record ghbn_addresses =
  host_at :: u64
  host_addr :: u64
  h_addr_ptrs_at :: u64
  host_aliases_at :: u64
  hostbuf :: u64
  buf_at :: u64

definition AF_INET :: int where "AF_INET = 2"
definition INADDR_NONE :: u32 where "INADDR_NONE = 0xffffffff"
definition FC_HOSTBUF_SIZE :: u64 where "FC_HOSTBUF_SIZE = 128"
definition FC_QUERYBUF_SIZE :: int where "FC_QUERYBUF_SIZE = 128"

text \<open>The loop over a name that begins with a digit: is it taken for an address?\<close>

partial_function (option) numeric_name :: "mem \<Rightarrow> u64 \<Rightarrow> bool option" where
  "numeric_name m cp =
     (if m cp = 0 then Some (m (cp - 1) \<noteq> 46)
      else if sint (m cp) < 48 \<and> sint (m cp) > 57 \<and> sint (m cp) \<noteq> 46 then Some False
      else numeric_name m (cp + 1))"

text \<open>The entry for an address; the four bytes of the local \<^verbatim>\<open>addr\<close> are copied.\<close>

definition fill_host :: "ghbn_addresses \<Rightarrow> u64 \<Rightarrow> u32 \<Rightarrow> ghbn_state \<Rightarrow> ghbn_state" where
  "fill_host at name addr s =
     (let m = store_le 4 (lmem s) (host_addr at) (ucast addr);
          m = snd (strncpy (hostbuf at) name (FC_HOSTBUF_SIZE - 1) m);
          m = m(hostbuf at + (FC_HOSTBUF_SIZE - 1) := 0);
          h = (host s)\<lparr>h_name := hostbuf at, h_aliases := host_aliases_at at, h_addr_list := h_addr_ptrs_at at\<rparr>
      in s\<lparr>lmem := m, host := h, host_aliases := (host_aliases s)[0 := 0],
           h_addr_ptrs := (h_addr_ptrs s)[0 := host_addr at, 1 := 0]\<rparr>)"

definition gethostbyname :: "(u64 \<Rightarrow> mem \<Rightarrow> u32) \<Rightarrow> ghbn_addresses \<Rightarrow> u64 \<Rightarrow> ghbn_state \<Rightarrow> (u64 \<times> ghbn_state) option" where
  "gethostbyname inet_addr at name s = do {
     let s = s\<lparr>host := (host s)\<lparr>h_addrtype := AF_INET, h_length := 4\<rparr>\<rparr>;
     numeric \<leftarrow> (if sint (lmem s name) \<ge> 48 \<and> sint (lmem s name) \<le> 57 then numeric_name (lmem s) name else Some False);
     if numeric then
       let addr = inet_addr name (lmem s)
       in if addr = INADDR_NONE then Some (0, s) else Some (host_at at, fill_host at name addr s)
     else do {
       let (n, s) = run_state (res_search (buf_at at) FC_QUERYBUF_SIZE) s;
       if n < 0 then Some (0, s)
       else do {
         let (b, s) = run_state (Frama_C_nondet 0 1) s;
         if b \<noteq> 0 then Some (0, s)
         else let addr = inet_addr name (lmem s) in Some (host_at at, fill_host at name addr s) } } }"

text \<open>
  \<^verbatim>\<open>getaddrinfo\<close>: the fields of a \<^verbatim>\<open>struct sockaddr\<close> (16 bytes) and of a \<^verbatim>\<open>struct addrinfo\<close> (48 bytes) are stored at their
  offsets. \<open>dummy\<close> is the address of the literal.
\<close>

definition EAI_BADFLAGS :: int where "EAI_BADFLAGS = - 1"
definition EAI_NONAME :: int where "EAI_NONAME = - 2"
definition EAI_AGAIN :: int where "EAI_AGAIN = - 3"
definition EAI_FAIL :: int where "EAI_FAIL = - 4"
definition EAI_FAMILY :: int where "EAI_FAMILY = - 6"
definition EAI_SOCKTYPE :: int where "EAI_SOCKTYPE = - 7"
definition EAI_SERVICE :: int where "EAI_SERVICE = - 8"
definition EAI_MEMORY :: int where "EAI_MEMORY = - 10"
definition EAI_SYSTEM :: int where "EAI_SYSTEM = - 11"
definition AF_MAX :: int where "AF_MAX = 43"
definition SOCK_SEQPACKET :: int where "SOCK_SEQPACKET = 5"
definition IPPROTO_MAX :: int where "IPPROTO_MAX = 256"
definition EIO :: int where "EIO = 5"

definition set_field :: "nat \<Rightarrow> u64 \<Rightarrow> u64 \<Rightarrow> ('a libc_state_scheme, unit) state" where
  "set_field k p v = State_Monad.update (\<lambda>s. s\<lparr>lmem := store_le k (lmem s) p v\<rparr>)"

fun sa_data_loop :: "u64 \<Rightarrow> nat \<Rightarrow> int \<Rightarrow> ('a libc_state_scheme, unit) state" where
  "sa_data_loop sa 0 i = State_Monad.return ()"
| "sa_data_loop sa (Suc k) i = do {
     c \<leftarrow> Frama_C_interval (- 128) 127;
     store_byte (sa + 2 + word_of_int i) (word_of_int c);
     sa_data_loop sa k (i + 1) }"

definition fill_addrinfo :: "u64 \<Rightarrow> u64 \<Rightarrow> u64 \<Rightarrow> u64 \<Rightarrow> ('a libc_state_scheme, int) state" where
  "fill_addrinfo dummy res ai sa = do {
     f \<leftarrow> Frama_C_interval 0 AF_MAX;
     set_field 2 sa (word_of_int f);
     sa_data_loop sa 14 0;
     set_field 4 ai 0;
     s \<leftarrow> State_Monad.get;
     set_field 4 (ai + 4) (load_le 2 (lmem s) sa);
     t \<leftarrow> Frama_C_interval 0 SOCK_SEQPACKET;
     set_field 4 (ai + 8) (word_of_int t);
     p \<leftarrow> Frama_C_interval 0 IPPROTO_MAX;
     set_field 4 (ai + 12) (word_of_int p);
     set_field 4 (ai + 16) 16;
     set_field 8 (ai + 24) sa;
     set_field 8 (ai + 32) dummy;
     set_field 8 (ai + 40) 0;
     set_field 8 res ai;
     State_Monad.return 0 }"

definition getaddrinfo ::
  "(u64 \<Rightarrow> mem \<Rightarrow> u64 \<times> mem) \<Rightarrow> u64 \<Rightarrow> u32 \<Rightarrow> u64 \<Rightarrow> u64 \<Rightarrow> u64 \<Rightarrow> ghbn_state \<Rightarrow> int \<times> ghbn_state" where
  "getaddrinfo mal dummy net_state nodename servname res s =
     (if nodename = 0 \<and> servname = 0 then (EAI_NONAME, s)
      else if net_state = 0 then (EAI_BADFLAGS, s)
      else if net_state = 1 then (EAI_AGAIN, s)
      else if net_state = 2 then (EAI_FAIL, s)
      else if net_state = 3 then (EAI_FAMILY, s)
      else if net_state = 5 then (EAI_SERVICE, s)
      else if net_state = 6 then (EAI_SOCKTYPE, s)
      else if net_state = 7 then (EAI_SYSTEM, s\<lparr>net_errno := EIO\<rparr>)
      else
        let (ai, m) = mal 48 (lmem s); s = s\<lparr>lmem := m\<rparr>
        in if ai = 0 then (EAI_MEMORY, s)
           else let (sa, m) = mal 16 (lmem s); s = s\<lparr>lmem := m\<rparr>
             in if sa = 0 then (EAI_MEMORY, s) else run_state (fill_addrinfo dummy res ai sa) s)"

section \<open>The search for digits\<close>

text \<open>The test in the loop is never true: the loop runs to the end of the name.\<close>

lemma numeric_name_eq:
  assumes "terminated m name k"
  shows "numeric_name m name = Some (m (name + of_nat k - 1) \<noteq> 46)"
proof -
  have "numeric_name m (name + of_nat i) = Some (m (name + of_nat k - 1) \<noteq> 46)" if "i \<le> k" for i
    using that
  proof (induction "k - i" arbitrary: i)
    case 0
    then show ?case using assms by (subst numeric_name.simps) (simp add: terminated_def)
  next
    case (Suc d)
    then have "m (name + of_nat i) \<noteq> 0" using assms by (simp add: terminated_def)
    then show ?case using Suc.hyps(1) [of "Suc i"] Suc.hyps(2) by (subst numeric_name.simps) (auto simp: add.commute add.left_commute)
  qed
  from this [of 0] show ?thesis by simp
qed

section \<open>The entry\<close>

text \<open>The name does not share a byte with the arrays that are written.\<close>

definition name_apart :: "ghbn_addresses \<Rightarrow> u64 \<Rightarrow> nat \<Rightarrow> bool" where
  "name_apart at name n \<longleftrightarrow>
     (\<forall>i \<le> max 127 n. \<not> inside (hostbuf at) 128 (name + of_nat i) \<and> \<not> inside (host_addr at) 4 (name + of_nat i) \<and>
        \<not> inside (buf_at at) 128 (name + of_nat i)) \<and>
     (\<forall>i<4. \<not> inside (hostbuf at) 128 (host_addr at + of_nat i))"

text \<open>The entry a caller finds: the name, cut to 127 characters, no alias, one address.\<close>

definition host_entry :: "ghbn_addresses \<Rightarrow> u8 list \<Rightarrow> u32 \<Rightarrow> ghbn_state \<Rightarrow> bool" where
  "host_entry at name addr s \<longleftrightarrow>
     host s = \<lparr>h_name = hostbuf at, h_aliases = host_aliases_at at, h_addrtype = AF_INET, h_length = 4, h_addr_list = h_addr_ptrs_at at\<rparr> \<and>
     host_aliases s ! 0 = 0 \<and> h_addr_ptrs s ! 0 = host_addr at \<and> h_addr_ptrs s ! 1 = 0 \<and>
     load_le 4 (lmem s) (host_addr at) = ucast addr \<and>
     (\<forall>i < length name. i < 127 \<longrightarrow> lmem s (hostbuf at + of_nat i) = name ! i) \<and>
     lmem s (hostbuf at + of_nat (min 127 (length name))) = 0"

lemma fill_host_entry:
  assumes "terminated (lmem s) name (length xs)" and "\<And>i. i < length xs \<Longrightarrow> lmem s (name + of_nat i) = xs ! i"
    and "name_apart at name (length xs)"
    and "h_addrtype (host s) = AF_INET" and "h_length (host s) = 4" and "length (h_addr_ptrs s) = 3" and "length (host_aliases s) = 2"
  shows "host_entry at xs addr (fill_host at name addr s)"
proof -
  define m1 where "m1 = store_le 4 (lmem s) (host_addr at) (ucast addr)"
  define m2 where "m2 = strncpy_loop (hostbuf at) name 127 0 m1"
  define m3 where "m3 = m2(hostbuf at + 127 := 0)"
  note struct_apart = assms(3) [unfolded name_apart_def]
  have off: "inside (hostbuf at) 128 (hostbuf at + of_nat i)" if "i < 128" for i
    using that unat_of_nat_64 [of i] by (simp add: inside_def)
  have m1: "m1 (name + of_nat i) = lmem s (name + of_nat i)" if "i \<le> length xs" for i
  proof -
    have "\<not> inside (host_addr at) 4 (name + of_nat i)" using struct_apart that by simp
    then show ?thesis by (simp add: m1_def store_le_at inside_def)
  qed
  have t1: "terminated m1 name (length xs)" using assms(1) m1 by (simp add: terminated_def)
  have sep: "hostbuf at + of_nat y \<noteq> name + of_nat x" if "x < 127" "y < 127" for x y
  proof
    assume "hostbuf at + of_nat y = name + of_nat x"
    moreover have "\<not> inside (hostbuf at) 128 (name + of_nat x)" using struct_apart that by simp
    ultimately show False using off [of y] that by simp
  qed
  have b: "m2 (hostbuf at + of_nat j) = (if j < length xs then m1 (name + of_nat j) else 0)" if "j < 127" for j
    using strncpy_bytes(1,2) [OF t1 _ sep, of 127 j] that by (auto simp: m2_def)
  have keep: "m3 a = m1 a" if "\<not> inside (hostbuf at) 128 a" for a
  proof -
    have "m2 a = m1 a" using strncpy_bytes(3) [OF t1 _ sep, of 127 a] off that by (fastforce simp: m2_def)
    moreover have "a \<noteq> hostbuf at + 127" using off [of 127] that by auto
    ultimately show ?thesis by (simp add: m3_def)
  qed
  have ne: "hostbuf at + of_nat j \<noteq> hostbuf at + 127" if "j < 127" for j
  proof
    assume "hostbuf at + of_nat j = hostbuf at + 127"
    then have "unat (of_nat j :: u64) = unat (127 :: u64)" by simp
    then show False using that unat_of_nat_64 [of j] by simp
  qed
  have u: "unat (FC_HOSTBUF_SIZE - 1) = 127" "FC_HOSTBUF_SIZE - 1 = 127" by (simp_all add: FC_HOSTBUF_SIZE_def)
  have f: "fill_host at name addr s = s\<lparr>lmem := m3,
      host := (host s)\<lparr>h_name := hostbuf at, h_aliases := host_aliases_at at, h_addr_list := h_addr_ptrs_at at\<rparr>,
      host_aliases := (host_aliases s)[0 := 0], h_addr_ptrs := (h_addr_ptrs s)[0 := host_addr at, 1 := 0]\<rparr>"
    unfolding fill_host_def Let_def strncpy_def u by (simp add: m1_def m2_def m3_def)
  have "load_le 4 m3 (host_addr at) = load_le 4 m1 (host_addr at)"
    using struct_apart by (intro load_le_cong keep) simp
  also have "\<dots> = ucast addr"
  proof -
    have "bit addr n \<Longrightarrow> n < 32" for n using bit_imp_le_length [of addr n] by simp
    then have "take_bit 32 (ucast addr :: u64) = ucast addr" by (intro bit_word_eqI) (auto simp: bit_simps)
    then show ?thesis unfolding m1_def by (subst load_le_store_le_same) simp_all
  qed
  finally have a: "load_le 4 m3 (host_addr at) = ucast addr" .
  have n: "m3 (hostbuf at + of_nat i) = xs ! i" if "i < length xs" "i < 127" for i
    using b [of i] ne [of i] m1 [of i] assms(2) that by (simp add: m3_def)
  have z: "m3 (hostbuf at + of_nat (min 127 (length xs))) = 0"
    using b [of "length xs"] ne [of "length xs"] by (cases "length xs < 127") (auto simp: m3_def min_def)
  show ?thesis unfolding host_entry_def f using assms(4-7) a n z by (cases "host s") simp
qed

text \<open>\<^verbatim>\<open>res_search\<close> draws values and writes its buffer.\<close>

lemma res_search_loop_frame: "\<exists>e m. snd (run_state (res_search_loop p k i) s) = s\<lparr>entropy := e, lmem := m\<rparr>"
proof (induction k arbitrary: i s)
  case 0
  show ?case by (intro exI [of _ "entropy s"] exI [of _ "lmem s"]) simp
next
  case (Suc k)
  have "\<exists>e m. snd (run_state (res_search_loop p k (i + 1)) (s\<lparr>entropy := x, lmem := y\<rparr>)) = s\<lparr>entropy := e, lmem := m\<rparr>" for x y
    using Suc.IH [of "i + 1" "s\<lparr>entropy := x, lmem := y\<rparr>"] by auto
  then show ?case by (simp add: run_char_interval)
qed

lemma run_search:
  assumes "terminated (lmem s) name (length xs)" and "name_apart at name (length xs)"
  obtains n s' where "run_state (res_search (buf_at at) FC_QUERYBUF_SIZE) s = (n, s')" and "host s' = host s"
    and "h_addr_ptrs s' = h_addr_ptrs s" and "host_aliases s' = host_aliases s"
    and "\<And>i. i \<le> length xs \<Longrightarrow> lmem s' (name + of_nat i) = lmem s (name + of_nat i)"
proof -
  obtain n s' where r: "run_state (res_search (buf_at at) FC_QUERYBUF_SIZE) s = (n, s')" by (rule prod.exhaust)
  have q: "run_state (res_search (buf_at at) (int 128)) s = (n, s')" using r by (simp add: FC_QUERYBUF_SIZE_def)
  have w: "writes_only (buf_at at) 128 (lmem s) (lmem s')" using res_search_terminated [OF q] by simp
  obtain e m where em: "snd (run_state (res_search_loop (buf_at at) 127 0) s) = s\<lparr>entropy := e, lmem := m\<rparr>"
    using res_search_loop_frame by blast
  obtain u where u: "run_state (res_search_loop (buf_at at) 127 0) s = (u, s\<lparr>entropy := e, lmem := m\<rparr>)"
    using em by (metis prod.collapse)
  have s': "s' = s\<lparr>entropy := entropy s', lmem := lmem s'\<rparr>" using r by (auto simp: res_search_def FC_QUERYBUF_SIZE_def u run_interval)
  have f: "host t = host s \<and> h_addr_ptrs t = h_addr_ptrs s \<and> host_aliases t = host_aliases s" if "t = s\<lparr>entropy := x, lmem := y\<rparr>" for t x y
    using that by simp
  have "\<And>i. i \<le> length xs \<Longrightarrow> lmem s' (name + of_nat i) = lmem s (name + of_nat i)"
    using w assms(2) by (simp add: writes_only_def name_apart_def)
  then show thesis using that r f [OF s'] by blast
qed

text \<open>
  C38: \<^verbatim>\<open>gethostbyname\<close> returns for every name that ends. The result is null or the static entry, which then holds
  the name cut to 127 characters, no alias and the one address \<^verbatim>\<open>inet_addr\<close> gives. A name that begins with a
  digit and does not end in a dot is taken for a numeric address even if it has letters, as the test
  in the loop is never true: without a lookup, it is null when \<^verbatim>\<open>inet_addr\<close> fails.
\<close>

theorem gethostbyname_correct:
  assumes "terminated (lmem s) name (length xs)" and "\<And>i. i < length xs \<Longrightarrow> lmem s (name + of_nat i) = xs ! i"
    and "name_apart at name (length xs)" and "length (h_addr_ptrs s) = 3" and "length (host_aliases s) = 2"
  shows "\<exists>r s'. gethostbyname inet_addr at name s = Some (r, s') \<and>
    (r = 0 \<or> r = host_at at \<and> (\<exists>m. host_entry at xs (inet_addr name m) s')) \<and>
    (48 \<le> sint (lmem s name) \<and> sint (lmem s name) \<le> 57 \<and> last xs \<noteq> 46 \<longrightarrow>
      entropy s' = entropy s \<and> (r = 0 \<longleftrightarrow> host_at at = 0 \<or> inet_addr name (lmem s) = INADDR_NONE))"
proof -
  define s1 where "s1 = s\<lparr>host := (host s)\<lparr>h_addrtype := AF_INET, h_length := 4\<rparr>\<rparr>"
  have s1: "lmem s1 = lmem s" "entropy s1 = entropy s" by (simp_all add: s1_def)
  have entry: "host_entry at xs addr (fill_host at name addr t)"
    if "host t = host s1" "h_addr_ptrs t = h_addr_ptrs s1" "host_aliases t = host_aliases s1"
      "\<And>i. i \<le> length xs \<Longrightarrow> lmem t (name + of_nat i) = lmem s (name + of_nat i)" for addr t
  proof (rule fill_host_entry [OF _ _ assms(3)])
    show "terminated (lmem t) name (length xs)" using assms(1) that(4) by (simp add: terminated_def)
    show "\<And>i. i < length xs \<Longrightarrow> lmem t (name + of_nat i) = xs ! i" using assms(2) that(4) by simp
  qed (use that assms(4,5) in \<open>simp_all add: s1_def\<close>)
  let ?digit = "48 \<le> sint (lmem s name) \<and> sint (lmem s name) \<le> 57"
  have k: "length xs \<noteq> 0" if "?digit"
    using that assms(1) by (auto simp: terminated_def)
  have l: "lmem s (name + of_nat (length xs) - 1) = last xs" if "?digit"
    using assms(2) [of "length xs - 1"] k [OF that] by (simp add: last_conv_nth of_nat_diff add_diff_eq)
  note run = gethostbyname_def [of inet_addr at name s, folded s1_def, unfolded Let_def s1(1) numeric_name_eq [OF assms(1)]]
  show ?thesis
  proof (cases "?digit \<and> last xs \<noteq> 46")
    case True
    let ?r = "if inet_addr name (lmem s) = INADDR_NONE then (0, s1) else (host_at at, fill_host at name (inet_addr name (lmem s)) s1)"
    have "gethostbyname inet_addr at name s = Some ?r" using True l by (simp add: run s1)
    moreover have "entropy (fill_host at name a s1) = entropy s" for a by (simp add: fill_host_def s1 Let_def)
    ultimately show ?thesis using True entry [of s1] s1 by (cases "inet_addr name (lmem s) = INADDR_NONE") auto
  next
    case False
    obtain n s2 where s2: "run_state (res_search (buf_at at) FC_QUERYBUF_SIZE) s1 = (n, s2)" "host s2 = host s1"
        "h_addr_ptrs s2 = h_addr_ptrs s1" "host_aliases s2 = host_aliases s1"
        "\<And>i. i \<le> length xs \<Longrightarrow> lmem s2 (name + of_nat i) = lmem s1 (name + of_nat i)"
      by (rule run_search [of s1 name xs at]) (use assms(1,3) s1 in simp_all)
    have e: "host_entry at xs a (fill_host at name a (after_draw s2))" for a using s2 s1 by (intro entry) simp_all
    let ?r = "if n < 0 then (0, s2) else if drawn s2 = 0 then (0, after_draw s2)
      else (host_at at, fill_host at name (inet_addr name (lmem s2)) (after_draw s2))"
    have "gethostbyname inet_addr at name s = Some ?r" using False l s2(1) by (auto simp: run s1)
    then show ?thesis using False e by (cases "n < 0"; cases "drawn s2 = 0") auto
  qed
qed

section \<open>Addresses\<close>

lemma run_set_field [simp]: "run_state (set_field k p v) s = ((), s\<lparr>lmem := store_le k (lmem s) p v\<rparr>)"
  by (simp add: set_field_def State_Monad.update_def State_Monad.get_def State_Monad.set_def)

definition struct_apart :: "u64 \<Rightarrow> nat \<Rightarrow> u64 \<Rightarrow> nat \<Rightarrow> bool" where
  "struct_apart p k q n \<longleftrightarrow> (\<forall>i<k. \<not> inside q n (p + of_nat i))"

lemma load_apart: "j \<le> 8 \<Longrightarrow> struct_apart p k q j \<Longrightarrow> load_le k (store_le j m q v) p = load_le k m p"
  by (rule load_le_cong) (simp add: struct_apart_def store_le_at inside_def)

lemma struct_apart_fields:
  assumes "a + k \<le> b \<or> b + j \<le> a" and "a + k \<le> 48" and "b + j \<le> 48"
  shows "struct_apart (p + of_nat a) k (p + of_nat b) j"
proof -
  have "unat (of_nat a + of_nat i - of_nat b :: u64) \<ge> j" if "i < k" for i
  proof (rule ccontr)
    define t where "t = unat (of_nat a + of_nat i - of_nat b :: u64)"
    assume "\<not> unat (of_nat a + of_nat i - of_nat b :: u64) \<ge> j"
    then have t: "t < j" by (simp add: t_def)
    have "(of_nat (a + i) :: u64) = of_nat (b + t)" by (simp add: t_def)
    then have "unat (of_nat (a + i) :: u64) = unat (of_nat (b + t) :: u64)" by simp
    moreover have "a + i < 2 ^ 64" "b + t < 2 ^ 64" using assms that t by simp_all
    ultimately have "a + i = b + t" by (simp only: unat_of_nat_64)
    then show False using assms(1) that t by linarith
  qed
  then show ?thesis unfolding struct_apart_def inside_def by (simp add: algebra_simps not_less)
qed

lemma struct_apart_part: "struct_apart p N q n \<Longrightarrow> a + k \<le> N \<Longrightarrow> struct_apart (p + of_nat a) k q n"
proof -
  assume "struct_apart p N q n" "a + k \<le> N"
  then have "\<not> inside q n (p + of_nat (a + i))" if "i < k" for i using that by (simp add: struct_apart_def del: of_nat_add)
  then show ?thesis by (simp add: struct_apart_def add.assoc)
qed

lemma struct_apart_within:
  assumes "struct_apart p k q n" and "b + j \<le> n" and "n < 2 ^ 64"
  shows "struct_apart p k (q + of_nat b) j"
proof -
  have "inside q n x" if "inside (q + of_nat b) j x" for x
  proof -
    have ub: "unat (of_nat b :: u64) = b" using assms(2,3) by (intro unat_of_nat_64) simp
    have t: "unat (x - (q + of_nat b)) < j" using that by (simp add: inside_def)
    have "x - q = (x - (q + of_nat b)) + of_nat b" by simp
    then have "unat (x - q) = unat (x - (q + of_nat b)) + b"
      using unat_add_64 [of "x - (q + of_nat b)" "of_nat b"] ub t assms(2,3) by simp
    then show ?thesis using t assms(2) by (simp add: inside_def)
  qed
  then show ?thesis using assms(1) unfolding struct_apart_def by blast
qed

text \<open>Fields of one structure, at offsets \<open>a\<close> and \<open>b\<close>.\<close>

lemma load_field:
  "a + k \<le> b \<or> b + j \<le> a \<Longrightarrow> a + k \<le> 48 \<Longrightarrow> b + j \<le> 48 \<Longrightarrow> j \<le> 8 \<Longrightarrow>
   load_le k (store_le j m (p + of_nat b) v) (p + of_nat a) = load_le k m (p + of_nat a)"
  by (rule load_apart) (simp_all add: struct_apart_fields)

lemmas load_fields =
  load_field [of "numeral a" k "numeral b" for a k b, simplified] load_field [of 0 k "numeral b" for k b, simplified]
  load_field [of "numeral a" k 0 for a k, simplified]

lemma sa_data_frame:
  "\<exists>e m. run_state (sa_data_loop sa k i) s = ((), s\<lparr>entropy := e, lmem := m\<rparr>) \<and>
     (\<forall>a. (\<forall>j<k. a \<noteq> sa + 2 + word_of_int (i + int j)) \<longrightarrow> m a = lmem s a)"
proof (induction k arbitrary: i s)
  case 0
  show ?case by (intro exI [of _ "entropy s"] exI [of _ "lmem s"]) simp
next
  case (Suc k)
  obtain c where c: "run_state (Frama_C_interval (- 128) 127) s = (c, after_draw s)" by (simp add: run_interval)
  let ?m = "(lmem s)(sa + 2 + word_of_int i := word_of_int c)"
  obtain e m where em: "run_state (sa_data_loop sa k (i + 1)) (s\<lparr>entropy := stl (stl (entropy s)), lmem := ?m\<rparr>) = ((), s\<lparr>entropy := e, lmem := m\<rparr>)"
      "\<forall>a. (\<forall>j<k. a \<noteq> sa + 2 + word_of_int (i + 1 + int j)) \<longrightarrow> m a = ?m a"
    using Suc.IH [of "i + 1" "s\<lparr>entropy := stl (stl (entropy s)), lmem := ?m\<rparr>"] by auto
  have "m a = lmem s a" if a: "\<forall>j<Suc k. a \<noteq> sa + 2 + word_of_int (i + int j)" for a
  proof -
    have "a \<noteq> sa + 2 + word_of_int (i + 1 + int j)" if "j < k" for j using a [rule_format, of "Suc j"] that by (simp add: add.assoc)
    moreover have "a \<noteq> sa + 2 + word_of_int i" using a [rule_format, of 0] by simp
    ultimately show ?thesis using em(2) by simp
  qed
  moreover have "run_state (sa_data_loop sa (Suc k) i) s = ((), s\<lparr>entropy := e, lmem := m\<rparr>)" using c em(1) by simp
  ultimately show ?case by blast
qed

text \<open>
  What \<^verbatim>\<open>getaddrinfo\<close> stores when it succeeds: a list of one \<^verbatim>\<open>struct addrinfo\<close> that points to the socket
  address, whose family it repeats; every field is in the range of its type of constants.
\<close>

definition addrinfo_list :: "u64 \<Rightarrow> u64 \<Rightarrow> u64 \<Rightarrow> u64 \<Rightarrow> mem \<Rightarrow> bool" where
  "addrinfo_list dummy res ai sa m \<longleftrightarrow>
     load64 m res = ai \<and> load_le 4 m ai = 0 \<and> load_le 4 m (ai + 4) = load_le 2 m sa \<and> load_le 2 m sa \<le> 43 \<and>
     load_le 4 m (ai + 8) \<le> 5 \<and> load_le 4 m (ai + 12) \<le> 256 \<and> load_le 4 m (ai + 16) = 16 \<and>
     load64 m (ai + 24) = sa \<and> load64 m (ai + 32) = dummy \<and> load64 m (ai + 40) = 0"

lemma small_word: "0 \<le> c \<Longrightarrow> c \<le> int n \<Longrightarrow> n < 65536 \<Longrightarrow> (word_of_int c :: u64) \<le> of_nat n \<and> take_bit 16 (word_of_int c :: u64) = word_of_int c"
proof -
  assume c: "0 \<le> c" "c \<le> int n" "n < 65536"
  then obtain k where k: "c = int k" "k \<le> n" by (metis nonneg_int_cases of_nat_le_iff)
  have u: "unat (of_nat k :: u64) = k" "unat (of_nat n :: u64) = n" using c k by (auto intro!: unat_of_nat_64)
  then have "(of_nat k :: u64) \<le> of_nat n" using k by (simp add: word_le_nat_alt)
  moreover have "take_bit 16 (of_nat k :: u64) = of_nat k"
    using u c k by (intro word_unat_eq_iff [THEN iffD2]) (simp add: unsigned_take_bit_eq take_bit_nat_eq_self)
  ultimately show ?thesis using k by simp
qed

lemma fill_addrinfo_list:
  assumes "struct_apart ai 48 res 8" and "struct_apart sa 16 ai 48" and "struct_apart sa 16 res 8"
  shows "\<exists>s'. run_state (fill_addrinfo dummy res ai sa) s = (0, s') \<and> addrinfo_list dummy res ai sa (lmem s')"
proof -
  obtain f where f: "run_state (Frama_C_interval 0 AF_MAX) s = (f, after_draw s)" "0 \<le> f" "f \<le> int 43"
    by (simp add: run_interval AF_MAX_def split: if_splits)
  define s1 where "s1 = (after_draw s)\<lparr>lmem := store_le 2 (lmem s) sa (word_of_int f)\<rparr>"
  obtain e m where em: "run_state (sa_data_loop sa 14 0) s1 = ((), s1\<lparr>entropy := e, lmem := m\<rparr>)"
      "\<forall>a. (\<forall>j<14. a \<noteq> sa + 2 + word_of_int (0 + int j)) \<longrightarrow> m a = lmem s1 a"
    using sa_data_frame [of sa 14 0 s1] by blast
  have "load_le 2 m sa = load_le 2 (lmem s1) sa"
  proof (rule load_le_cong)
    fix i :: nat
    assume i: "i < 2"
    have "sa + of_nat i \<noteq> sa + 2 + word_of_int (0 + int j)" if "j < 14" for j
    proof
      assume "sa + of_nat i = sa + 2 + word_of_int (0 + int j)"
      then have "unat (of_nat i :: u64) = unat (of_nat (2 + j) :: u64)" by (simp add: add.assoc)
      then show False using i that unat_of_nat_64 [of i] unat_of_nat_64 [of "2 + j"] by simp
    qed
    then show "m (sa + of_nat i) = lmem s1 (sa + of_nat i)" using em(2) by simp
  qed
  also have "\<dots> = word_of_int f" using small_word [OF f(2,3)] load_le_store_le_same [of 2] by (simp add: s1_def)
  finally have fam: "load_le 2 m sa = word_of_int f" .
  have fam': "load_le 2 (store_le 4 m ai 0) sa = word_of_int f"
    using load_apart [of 4 sa 2 ai m 0] struct_apart_within [of sa 2 ai 48 0 4] struct_apart_part [OF assms(2), of 0 2] fam by simp
  define d where "d hi e = (if 0 \<le> sint (shd (stl e)) \<and> sint (shd (stl e)) \<le> hi then sint (shd (stl e)) else 0)" for hi and e :: "u32 stream"
  have d: "run_state (Frama_C_interval 0 hi) u = (d hi (entropy u), after_draw u)" "0 \<le> d (int n) x" "d (int n) x \<le> int n"
    for hi n x and u :: "'a libc_state_scheme" by (simp_all add: run_interval d_def)
  let ?t = "word_of_int (d (int 5) e)" and ?p = "word_of_int (d (int 256) (stl (stl e)))"
  define M where "M = store64 (store64 (store64 (store_le 4 (store_le 4 (store_le 4 (store_le 4 (store_le 4 m ai 0) (ai + 4) (word_of_int f))
    (ai + 8) ?t) (ai + 12) ?p) (ai + 16) 16) (ai + 24) sa) (ai + 32) dummy) (ai + 40) 0"
  have "\<exists>s'. run_state (fill_addrinfo dummy res ai sa) s = (0, s') \<and> lmem s' = store64 M res ai"
    using f(1) em(1) [unfolded s1_def] fam' d(1)
    by (simp add: fill_addrinfo_def State_Monad.get_def SOCK_SEQPACKET_def IPPROTO_MAX_def M_def)
  moreover have "addrinfo_list dummy res ai sa (store64 M res ai)"
  proof -
    have r: "load_le k (store64 M res ai) (ai + of_nat a) = load_le k M (ai + of_nat a)" if "a + k \<le> 48" for a k
      using load_apart [of 8 "ai + of_nat a" k res] struct_apart_part [OF assms(1) that] by simp
    note at = r [of 0 4, simplified] r [of 4 4, simplified] r [of 8 4, simplified] r [of 12 4, simplified] r [of 16 4, simplified]
      r [of 24 8, simplified] r [of 32 8, simplified] r [of 40 8, simplified]
    have x: "load_le 2 (store_le j y (ai + of_nat b) v) sa = load_le 2 y sa" if "b + j \<le> 48" "j \<le> 8" for b j y v
      using load_apart [OF that(2)] struct_apart_within [OF _ that(1)] struct_apart_part [OF assms(2), of 0 2] by simp
    have "load_le 2 M sa = load_le 2 m sa" unfolding M_def
      using x [of 0] x [of "numeral b" for b] by simp
    then have sa: "load_le 2 (store64 M res ai) sa = word_of_int f"
      using fam load_apart [of 8 sa 2 res M ai] struct_apart_part [OF assms(3), of 0 2] by simp
    have tb: "take_bit 32 (v :: u64) = v" if "take_bit 16 v = v" for v
      using take_bit_take_bit [of 32 16 v] that by simp
    have w: "(word_of_int f :: u64) \<le> 43" "take_bit 32 (word_of_int f :: u64) = word_of_int f" "?t \<le> (5 :: u64)" "take_bit 32 ?t = (?t :: u64)"
        "?p \<le> (256 :: u64)" "take_bit 32 ?p = (?p :: u64)"
      using small_word [OF f(2,3)] small_word [OF d(2,3), of 5 e] small_word [OF d(2,3), of 256 "stl (stl e)"] tb by simp_all
    show ?thesis
      unfolding addrinfo_list_def at sa using w
      by (simp add: M_def load_fields load_le_store_le_same take_bit_word_eq_self)
  qed
  ultimately show ?thesis by auto
qed

text \<open>
  \<^verbatim>\<open>getaddrinfo\<close> returns an error for the seven failures it simulates, of a failed allocation, and of a call without names;
  otherwise it succeeds with a list of one element. When the second allocation fails the first block is
  not freed.
\<close>

theorem getaddrinfo_correct:
  assumes "mal 48 (lmem s) = (ai, m1)" and "mal 16 m1 = (sa, m2)" and "struct_apart ai 48 res 8" and "struct_apart sa 16 ai 48" and "struct_apart sa 16 res 8"
  shows "\<exists>r s'. getaddrinfo mal dummy v nodename servname res s = (r, s') \<and>
    (r = 0 \<longleftrightarrow> (nodename \<noteq> 0 \<or> servname \<noteq> 0) \<and> v \<notin> {0, 1, 2, 3, 5, 6, 7} \<and> ai \<noteq> 0 \<and> sa \<noteq> 0) \<and>
    (if r = 0 then addrinfo_list dummy res ai sa (lmem s') else lmem s' \<in> {lmem s, m1, m2})"
proof (cases "(nodename \<noteq> 0 \<or> servname \<noteq> 0) \<and> v \<notin> {0, 1, 2, 3, 5, 6, 7} \<and> ai \<noteq> 0 \<and> sa \<noteq> 0")
  case True
  obtain s' where s': "run_state (fill_addrinfo dummy res ai sa) (s\<lparr>lmem := m2\<rparr>) = (0, s')" "addrinfo_list dummy res ai sa (lmem s')"
    using fill_addrinfo_list [OF assms(3-5)] by blast
  have "getaddrinfo mal dummy v nodename servname res s = (0, s')" using True assms(1,2) s'(1) by (auto simp: getaddrinfo_def)
  then show ?thesis using True s'(2) by auto
next
  case False
  note codes = EAI_NONAME_def EAI_BADFLAGS_def EAI_AGAIN_def EAI_FAIL_def EAI_FAMILY_def EAI_SERVICE_def EAI_SOCKTYPE_def EAI_SYSTEM_def EAI_MEMORY_def
  have "fst (getaddrinfo mal dummy v nodename servname res s) \<noteq> 0 \<and>
      lmem (snd (getaddrinfo mal dummy v nodename servname res s)) \<in> {lmem s, m1, m2}"
    using False assms(1,2) by (auto simp: getaddrinfo_def codes Let_def)
  then show ?thesis using False by (cases "getaddrinfo mal dummy v nodename servname res s") simp
qed

section \<open>Examples\<close>

definition ex_addresses :: ghbn_addresses where
  "ex_addresses = \<lparr>host_at = 0x1000, host_addr = 0x1020, h_addr_ptrs_at = 0x1028, host_aliases_at = 0x1040, hostbuf = 0x1050, buf_at = 0x2000\<rparr>"

definition ex_ghbn :: ghbn_state where
  "ex_ghbn = \<lparr>entropy = sconst 0, lmem = (\<lambda>_. 0)(0x3000 := 52, 0x3001 := 117), host = \<lparr>h_name = 0, h_aliases = 0, h_addrtype = 0, h_length = 0, h_addr_list = 0\<rparr>,
     h_addr_ptrs = [0, 0, 0], host_aliases = [0, 0], net_errno = 0\<rparr>"

text \<open>The name \<^verbatim>\<open>4u\<close>, which is no numeric address, is not looked up.\<close>

theorem gethostbyname_correct_witness:
  "\<exists>s'. gethostbyname (\<lambda>_ _. INADDR_NONE) ex_addresses 0x3000 ex_ghbn = Some (0, s') \<and> entropy s' = sconst 0"
proof -
  have t: "terminated (lmem ex_ghbn) 0x3000 (length [52, 117 :: u8])" by (auto simp: terminated_def ex_ghbn_def less_Suc_eq)
  have l: "lmem ex_ghbn (0x3000 + of_nat i) = [52, 117] ! i" if "i < length [52, 117 :: u8]" for i
    using that by (auto simp: ex_ghbn_def less_Suc_eq)
  have far: "\<not> inside p 128 (0x3000 + of_nat i)" if "i \<le> 127" "p \<in> {0x1050, 0x1020, 0x2000}" for i and p :: u64
  proof -
    have "unat (of_nat i :: u64) = i" using that(1) by (intro unat_of_nat_64) simp
    then have "unat (c + of_nat i :: u64) = unat c + i" if "c \<in> {0x1fb0, 0x1fe0, 0x1000}" for c
      using that \<open>i \<le> 127\<close> by (subst unat_add_64) auto
    from this [of "0x1fb0"] this [of "0x1fe0"] this [of "0x1000"] show ?thesis using that(2) by (auto simp: inside_def)
  qed
  have near: "\<not> inside 0x1050 128 (0x1020 + of_nat i :: u64)" if "i < 4" for i
  proof -
    have "i = 0 \<or> i = 1 \<or> i = 2 \<or> i = 3" using that by linarith
    then show ?thesis by (elim disjE) (simp_all add: inside_def)
  qed
  have "name_apart ex_addresses 0x3000 (length [52, 117 :: u8])"
    unfolding name_apart_def
  proof (intro conjI allI impI)
    fix i :: nat
    assume i: "i \<le> max 127 (length [52, 117 :: u8])"
    then show "\<not> inside (hostbuf ex_addresses) 128 (0x3000 + of_nat i)" "\<not> inside (buf_at ex_addresses) 128 (0x3000 + of_nat i)"
      using far [of i "0x1050"] far [of i "0x2000"] by (simp_all add: ex_addresses_def)
    show "\<not> inside (host_addr ex_addresses) 4 (0x3000 + of_nat i)"
      using i far [of i "0x1020"] by (simp add: ex_addresses_def inside_def)
  next
    fix i :: nat
    assume "i < 4"
    then show "\<not> inside (hostbuf ex_addresses) 128 (host_addr ex_addresses + of_nat i)" using near by (simp add: ex_addresses_def)
  qed
  then show ?thesis
    using gethostbyname_correct [OF t l, of ex_addresses "\<lambda>_ _. INADDR_NONE"] by (auto simp: ex_ghbn_def)
qed

end
