(* ===== verification/Bittree_Temporal.thy ===== *)
theory Bittree_Temporal
  imports Bittree_Tracker Segment_MModel
begin

text \<open>
  The bittree model in the build with \<^verbatim>\<open>E_ACSL_TEMPORAL\<close> (\<^verbatim>\<open>bittree_model/e_acsl_bittree_mmodel.c\<close>, \<^verbatim>\<open>e_acsl_temporal.h\<close>). A
  block's record has two more fields: the time stamp of its creation and a pointer to an array as large as the
  block, where the referent of a pointer stored in the block is kept. The fields are maps from the locations of
  the records, the arrays are in the runtime's memory. \<^verbatim>\<open>private_malloc\<close> of an array is the parameter \<open>pmal\<close>.
\<close>

section \<open>Definitions\<close>

record bt_temporal = mm_state +
  timestamp :: "loc \<rightharpoonup> u32"
  temporal_shadow :: "loc \<rightharpoonup> u64"
  rt_mem :: mem
  bt_clock :: u32

definition new_timestamp_bt :: "'a bt_temporal_scheme \<Rightarrow> u32 \<times> 'a bt_temporal_scheme" where
  "new_timestamp_bt s = (bt_clock s + 1, s\<lparr>bt_clock := bt_clock s + 1\<rparr>)"

definition store_block_temporal ::
  "(loc set \<Rightarrow> loc) \<Rightarrow> (u64 \<Rightarrow> 'a bt_temporal_scheme \<Rightarrow> u64) \<Rightarrow> u64 \<Rightarrow> u64 \<Rightarrow> 'a bt_temporal_scheme \<Rightarrow> (loc \<times> 'a bt_temporal_scheme) option" where
  "store_block_temporal pm pmal ptr sz s = do {
     (tmp, s) \<leftarrow> store_block_bt pm ptr sz s;
     if ptr = 0 then Some (tmp, s)
     else do {
       let (t, s) = new_timestamp_bt s;
       let s = s\<lparr>timestamp := (timestamp s)(tmp \<mapsto> t)\<rparr>;
       Some (tmp, s\<lparr>temporal_shadow := (temporal_shadow s)(tmp \<mapsto> (if sz \<ge> 8 then pmal sz s else 0))\<rparr>) } }"

text \<open>With the record of a deleted block its two fields go.\<close>

definition delete_block_temporal :: "u64 \<Rightarrow> 'a bt_temporal_scheme \<Rightarrow> 'a bt_temporal_scheme option" where
  "delete_block_temporal ptr s =
     (if ptr \<noteq> 0 then do {
        tmp \<leftarrow> bt_lookup s ptr;
        s \<leftarrow> delete_block_bt ptr s;
        Some (s\<lparr>timestamp := (timestamp s)(tmp := None), temporal_shadow := (temporal_shadow s)(tmp := None)\<rparr>) }
      else Some s)"

definition origin_timestamp_bt :: "u64 \<Rightarrow> 'a bt_temporal_scheme \<Rightarrow> u32 option" where
  "origin_timestamp_bt ptr s = do {
     blk \<leftarrow> bt_find s ptr;
     if blk \<noteq> NULL then timestamp s blk else Some INVALID_TEMPORAL_TIMESTAMP }"

definition temporal_referent_shadow_bt :: "u64 \<Rightarrow> 'a bt_temporal_scheme \<Rightarrow> u64 outcome option" where
  "temporal_referent_shadow_bt ptr s = do {
     blk \<leftarrow> bt_find s ptr;
     if blk = NULL then Some (Inl ''referent timestamp on unallocated memory address'')
     else do {
       sh \<leftarrow> temporal_shadow s blk;
       if sh = 0 then Some (Inl ''no temporal shadow of block with base address'')
       else do {
         off \<leftarrow> offset_bt ptr s;
         Some (case off of Inl msg \<Rightarrow> Inl msg | Inr off \<Rightarrow> Inr (sh + off)) } } }"

definition referent_timestamp_bt :: "u64 \<Rightarrow> 'a bt_temporal_scheme \<Rightarrow> u32 outcome option" where
  "referent_timestamp_bt ptr s = do {
     blk \<leftarrow> bt_find s ptr;
     if blk \<noteq> NULL then andthen (temporal_referent_shadow_bt ptr s) (\<lambda>a. Some (Inr (ucast (load_le 4 (rt_mem s) a))))
     else Some (Inr INVALID_TEMPORAL_TIMESTAMP) }"

definition store_temporal_referent_bt :: "u64 \<Rightarrow> u32 \<Rightarrow> 'a bt_temporal_scheme \<Rightarrow> ('a bt_temporal_scheme) outcome option" where
  "store_temporal_referent_bt ptr ref s =
     andthen (temporal_referent_shadow_bt ptr s) (\<lambda>a. Some (Inr (s\<lparr>rt_mem := store_le 4 (rt_mem s) a (ucast ref)\<rparr>)))"

definition temporal_store_nblock_bt :: "u64 \<Rightarrow> u64 \<Rightarrow> 'a bt_temporal_scheme \<Rightarrow> ('a bt_temporal_scheme) outcome option" where
  "temporal_store_nblock_bt lhs rhs s = do { t \<leftarrow> origin_timestamp_bt rhs s; store_temporal_referent_bt lhs t s }"

definition temporal_store_nreferent_bt :: "u64 \<Rightarrow> u64 \<Rightarrow> 'a bt_temporal_scheme \<Rightarrow> ('a bt_temporal_scheme) outcome option" where
  "temporal_store_nreferent_bt lhs rhs s = andthen (referent_timestamp_bt rhs s) (\<lambda>t. store_temporal_referent_bt lhs t s)"

definition temporal_valid_bt :: "u64 \<Rightarrow> u64 \<Rightarrow> 'a bt_temporal_scheme \<Rightarrow> bool outcome option" where
  "temporal_valid_bt ptr addr_of_ptr s =
     (if addr_of_ptr \<noteq> 0 \<and> ptr \<noteq> addr_of_ptr then
        andthen (referent_timestamp_bt addr_of_ptr s) (\<lambda>stored. do {
          actual \<leftarrow> origin_timestamp_bt ptr s;
          Some (Inr (stored = actual)) })
      else Some (Inr True))"

definition valid_temporal_bt :: "bool \<Rightarrow> u64 \<Rightarrow> u64 \<Rightarrow> u64 \<Rightarrow> u64 \<Rightarrow> 'a bt_temporal_scheme \<Rightarrow> bool outcome option" where
  "valid_temporal_bt weak ptr sz ptr_base addrof_base s = do {
     v \<leftarrow> valid_bt weak ptr sz ptr_base s;
     if v then temporal_valid_bt ptr_base addrof_base s else Some (Inr False) }"

definition valid_read_temporal_bt :: "bool \<Rightarrow> u64 \<Rightarrow> u64 \<Rightarrow> u64 \<Rightarrow> u64 \<Rightarrow> 'a bt_temporal_scheme \<Rightarrow> bool outcome option" where
  "valid_read_temporal_bt weak ptr sz ptr_base addrof_base s = do {
     v \<leftarrow> valid_read_bt weak ptr sz ptr_base s;
     if v then temporal_valid_bt ptr_base addrof_base s else Some (Inr False) }"

section \<open>The state\<close>

text \<open>The bytes of a block's array.\<close>

definition shadow_byte :: "'a bt_temporal_scheme \<Rightarrow> loc \<Rightarrow> u64 \<Rightarrow> bool" where
  "shadow_byte s b a \<longleftrightarrow> (\<exists>k sh. blocks s b = Some k \<and> temporal_shadow s b = Some sh \<and> sh \<noteq> 0 \<and> inside sh (unat (b_size k)) a)"

text \<open>Every tracked block has its stamp, which was given before, and from 8 bytes on an array of its own.\<close>

definition tb_inv :: "'a bt_temporal_scheme \<Rightarrow> (u64 \<rightharpoonup> loc) \<Rightarrow> bool" where
  "tb_inv s M \<longleftrightarrow> mm_inv s M \<and>
     (\<forall>b\<in>ran M. \<exists>t. timestamp s b = Some t \<and> 0 < t \<and> t \<le> bt_clock s) \<and>
     (\<forall>b\<in>ran M. \<forall>k. blocks s b = Some k \<longrightarrow> (\<exists>sh. temporal_shadow s b = Some sh \<and> (sh = 0 \<longleftrightarrow> b_size k < 8))) \<and>
     (\<forall>b\<in>ran M. \<forall>c\<in>ran M. \<forall>a. b \<noteq> c \<longrightarrow> \<not> (shadow_byte s b a \<and> shadow_byte s c a))"

lemma tb_invD:
  assumes "tb_inv s M"
  shows "mm_inv s M" and "b \<in> ran M \<Longrightarrow> \<exists>t. timestamp s b = Some t \<and> 0 < t \<and> t \<le> bt_clock s"
    and "b \<in> ran M \<Longrightarrow> blocks s b = Some k \<Longrightarrow> \<exists>sh. temporal_shadow s b = Some sh \<and> (sh = 0 \<longleftrightarrow> b_size k < 8)"
    and "b \<in> ran M \<Longrightarrow> c \<in> ran M \<Longrightarrow> b \<noteq> c \<Longrightarrow> shadow_byte s b a \<Longrightarrow> \<not> shadow_byte s c a"
  using assms unfolding tb_inv_def by blast+

text \<open>The trie's operations leave the temporal fields alone.\<close>

lemma same_rest_temporal:
  fixes s :: "'a bt_temporal_scheme"
  assumes "same_rest s s'"
  shows "timestamp s' = timestamp s \<and> temporal_shadow s' = temporal_shadow s \<and> rt_mem s' = rt_mem s \<and> bt_clock s' = bt_clock s"
proof -
  have f: "timestamp t = timestamp s \<and> temporal_shadow t = temporal_shadow s \<and> rt_mem t = rt_mem s \<and> bt_clock t = bt_clock s"
    if "t = s\<lparr>nodes := x, bt_root := y\<rparr>" for t x y using that by simp
  show ?thesis using assms unfolding same_rest_def by (rule f)
qed

lemma insert_temporal:
  fixes s :: "'a bt_temporal_scheme"
  assumes "bt_index s M" and "fresh_alloc pm" and "M x = None" and "bt_base s b = Some x" and "bt_insert pm b s = Some s'"
  shows "timestamp s' = timestamp s \<and> temporal_shadow s' = temporal_shadow s \<and> rt_mem s' = rt_mem s \<and> bt_clock s' = bt_clock s"
proof -
  obtain T where T: "bt_rep s T" "M = map_of (content T)" using assms(1) by (auto simp: bt_index_def)
  show ?thesis using index_insert [OF T assms(2,4,3)] assms(5) same_rest_temporal by (metis option.inject)
qed

lemma remove_temporal:
  fixes s :: "'a bt_temporal_scheme"
  assumes "bt_index s M" and "M x = Some b" and "bt_remove b s = Some s'"
  shows "timestamp s' = timestamp s \<and> temporal_shadow s' = temporal_shadow s \<and> rt_mem s' = rt_mem s \<and> bt_clock s' = bt_clock s"
proof -
  obtain T where T: "bt_rep s T" "M = map_of (content T)" using assms(1) by (auto simp: bt_index_def)
  show ?thesis using index_remove [OF T assms(2)] assms(3) same_rest_temporal by (metis option.inject)
qed

section \<open>Tracking and untracking\<close>

text \<open>\<^verbatim>\<open>private_malloc\<close> returns an array apart from those of the tracked blocks.\<close>

definition private_fresh :: "(u64 \<Rightarrow> 'a bt_temporal_scheme \<Rightarrow> u64) \<Rightarrow> u64 \<Rightarrow> 'a bt_temporal_scheme \<Rightarrow> (u64 \<rightharpoonup> loc) \<Rightarrow> bool" where
  "private_fresh pmal n s M \<longleftrightarrow> (\<forall>x. temporal_shadow x = temporal_shadow s \<longrightarrow> pmal n x \<noteq> 0 \<and>
     (\<forall>b\<in>ran M. \<forall>a. shadow_byte s b a \<longrightarrow> \<not> inside (pmal n x) (unat n) a))"

lemma shadow_byte_cong:
  "blocks s' b = blocks s b \<Longrightarrow> temporal_shadow s' b = temporal_shadow s b \<Longrightarrow> shadow_byte s' b a = shadow_byte s b a"
  by (simp add: shadow_byte_def)

lemma store_block_frame:
  fixes s :: "'a bt_temporal_scheme"
  assumes inv: "mm_inv s M" and pm: "fresh_alloc pm" and fr: "region_free s M ptr sz" and st: "store_block_bt pm ptr sz s = Some (b, s')"
  shows "timestamp s' = timestamp s \<and> temporal_shadow s' = temporal_shadow s \<and> rt_mem s' = rt_mem s \<and> bt_clock s' = bt_clock s"
proof -
  define s1 where "s1 = s\<lparr>blocks := (blocks s)(pm (live s) \<mapsto> fresh_block ptr sz)\<rparr>"
  have n: "pm (live s) \<noteq> NULL" "pm (live s) \<notin> live s"
    using fresh_allocD [OF pm bt_index_live [OF mm_invD(1) [OF inv]]] by blast+
  have i1: "bt_index s1 M" unfolding s1_def
  proof (rule bt_index_blocks [OF mm_invD(1) [OF inv]])
    show "\<exists>blk. ((blocks s)(pm (live s) \<mapsto> fresh_block ptr sz)) c = Some blk \<and> b_ptr blk = x" if "M x = Some c" for x c
      using index_block(1) [OF mm_invD(1) [OF inv] that] n(2) by (auto simp: live_def)
    show "finite (dom ((blocks s)(pm (live s) \<mapsto> fresh_block ptr sz)))" "NULL \<notin> dom ((blocks s)(pm (live s) \<mapsto> fresh_block ptr sz))"
      using bt_index_finite [OF mm_invD(1) [OF inv]] n(1) by auto
  qed
  have "bt_insert pm (pm (live s)) s1 = Some s'"
    using st fr by (auto simp: store_block_bt_def Let_def s1_def fresh_block_def region_free_def bind_eq_Some_conv)
  from insert_temporal [OF i1 pm region_free_new [OF inv fr] _ this] show ?thesis
    by (simp add: s1_def bt_base_def)
qed

lemma delete_block_frame:
  fixes s :: "'a bt_temporal_scheme"
  assumes inv: "mm_inv s M" and x: "M ptr = Some b" and d: "delete_block_bt ptr s = Some s'"
  shows "timestamp s' = timestamp s \<and> temporal_shadow s' = temporal_shadow s \<and> rt_mem s' = rt_mem s \<and> bt_clock s' = bt_clock s"
proof -
  obtain blk where blk: "blocks s b = Some blk" and bn: "b \<noteq> NULL"
    using index_block [OF mm_invD(1) [OF inv] x] by blast
  define s1 where "s1 = s\<lparr>blocks := (blocks s)(b \<mapsto> blk\<lparr>b_init_ptr := None, b_init_bytes := 0\<rparr>)\<rparr>"
  have b: "b \<in> ran M" using x by (rule ranI)
  have "mm_inv s1 M"
    unfolding s1_def using mm_invD(4) [OF inv b blk] by (intro mm_inv_upd [OF inv b blk]) (simp_all add: init_ok_def)
  note i1 = mm_invD(1) [OF this]
  have p0: "ptr \<noteq> 0" using x mm_invD(3) [OF inv] by auto
  have l: "bt_lookup s ptr = Some b" using lookup_cases [OF inv, of ptr] x by auto
  have "bt_clean_block_init b s = Some s1" using blk by (simp add: bt_clean_block_init_def s1_def)
  then obtain s2 where s2: "bt_remove b s1 = Some s2" "s' = s2\<lparr>blocks := (blocks s2)(b := None)\<rparr>"
    using d p0 bn l by (auto simp: delete_block_bt_def bind_eq_Some_conv)
  from remove_temporal [OF i1 x s2(1)] show ?thesis by (simp add: s2(2) s1_def)
qed

lemma clock_next: "n \<noteq> - 1 \<Longrightarrow> n < n + 1 \<and> n + 1 \<noteq> 0" for n :: u32
proof -
  assume "n \<noteq> - 1"
  then have "1 + n \<noteq> 0" by (metis add.commute add_eq_0_iff)
  from unatSuc [OF this] this show ?thesis by (simp add: word_less_nat_alt add.commute)
qed

lemma store_temporal:
  fixes s :: "'a bt_temporal_scheme"
  assumes inv: "tb_inv s M" and pm: "fresh_alloc pm" and fr: "region_free s M ptr sz" and tr: "trackable sz"
    and pmal: "private_fresh pmal sz s M" and clk: "bt_clock s \<noteq> - 1"
  shows "\<exists>b s'. store_block_temporal pm pmal ptr sz s = Some (b, s') \<and> tb_inv s' (M(ptr \<mapsto> b)) \<and> b \<notin> ran M \<and>
    blocks s' = (blocks s)(b \<mapsto> fresh_block ptr sz) \<and> timestamp s' = (timestamp s)(b \<mapsto> bt_clock s + 1) \<and>
    (\<forall>c. c \<noteq> b \<longrightarrow> temporal_shadow s' c = temporal_shadow s c) \<and> rt_mem s' = rt_mem s \<and> bt_clock s' = bt_clock s + 1"
proof -
  note mm = tb_invD(1) [OF inv]
  obtain b s1 where s1: "store_block_bt pm ptr sz s = Some (b, s1)" "mm_inv s1 (M(ptr \<mapsto> b))" "b \<notin> dom (blocks s)"
      "blocks s1 = (blocks s)(b \<mapsto> fresh_block ptr sz)"
    using store_block_tracked [OF mm pm fr tr] by blast
  note f = store_block_frame [OF mm pm fr s1(1)]
  define s2 where "s2 = s1\<lparr>bt_clock := bt_clock s + 1, timestamp := (timestamp s)(b \<mapsto> bt_clock s + 1)\<rparr>"
  define sh where "sh = (if sz \<ge> 8 then pmal sz s2 else 0)"
  define s' where "s' = s2\<lparr>temporal_shadow := (temporal_shadow s)(b \<mapsto> sh)\<rparr>"
  have p0: "ptr \<noteq> 0" using fr by (simp add: region_free_def)
  have run: "store_block_temporal pm pmal ptr sz s = Some (b, s')"
    using s1(1) p0 f by (simp add: store_block_temporal_def new_timestamp_bt_def s'_def sh_def s2_def Let_def)
  have nb: "b \<notin> ran M" using s1(3) index_ran [OF mm_invD(1) [OF mm], of b] by auto
  have r: "ran (M(ptr \<mapsto> b)) = insert b (ran M)" using region_free_new [OF mm fr] by (rule ran_map_upd)
  have bs: "blocks s' = (blocks s)(b \<mapsto> fresh_block ptr sz)" using s1(4) by (simp add: s'_def s2_def)
  have old: "shadow_byte s' c a = shadow_byte s c a" if "c \<noteq> b" for c a
    using that by (intro shadow_byte_cong; (simp add: bs; fail)?) (simp add: s'_def s2_def)
  have ts: "temporal_shadow s' = (temporal_shadow s)(b \<mapsto> sh)" "temporal_shadow s2 = temporal_shadow s" using f by (simp_all add: s'_def s2_def)
  have fresh: "pmal sz s2 \<noteq> 0" "\<And>c a. c \<in> ran M \<Longrightarrow> shadow_byte s c a \<Longrightarrow> \<not> inside (pmal sz s2) (unat sz) a"
    using pmal ts(2) unfolding private_fresh_def by blast+
  have new: "\<not> shadow_byte s c a" if "c \<in> ran M" "shadow_byte s' b a" for c a
  proof -
    have "sh \<noteq> 0" "inside sh (unat sz) a" using that(2) unfolding shadow_byte_def bs ts(1) by simp_all
    then show ?thesis using fresh(2) [OF that(1)] by (auto simp: sh_def split: if_splits)
  qed
  have "mm_inv s' (M(ptr \<mapsto> b))" by (rule mm_inv_cong [OF s1(2)]) (simp_all add: s'_def s2_def)
  moreover have "\<exists>t. timestamp s' c = Some t \<and> 0 < t \<and> t \<le> bt_clock s'" if c: "c \<in> insert b (ran M)" for c
  proof (cases "c = b")
    case True
    have "bt_clock s + 1 \<noteq> 0" using clock_next [OF clk] by simp
    then show ?thesis using True by (simp add: s'_def s2_def word_gt_0)
  next
    case False
    then obtain t where t: "timestamp s c = Some t" "0 < t" "t \<le> bt_clock s" using tb_invD(2) [OF inv] c by blast
    have "bt_clock s \<le> bt_clock s + 1" using clock_next [OF clk] by (intro less_imp_le) simp
    then show ?thesis using t False by (simp add: s'_def s2_def)
  qed
  moreover have "\<exists>sh. temporal_shadow s' c = Some sh \<and> (sh = 0 \<longleftrightarrow> b_size k < 8)" if "c \<in> insert b (ran M)" "blocks s' c = Some k" for c k
    using that tb_invD(3) [OF inv, of c k] fresh(1) unfolding bs ts(1) by (cases "c = b") (auto simp: sh_def not_less)
  moreover have "\<not> (shadow_byte s' c a \<and> shadow_byte s' d a)" if cd: "c \<in> insert b (ran M)" "d \<in> insert b (ran M)" "c \<noteq> d" for c d a
  proof -
    consider "c = b" "d \<in> ran M" "d \<noteq> b" | "d = b" "c \<in> ran M" "c \<noteq> b" | "c \<in> ran M" "d \<in> ran M" "c \<noteq> b" "d \<noteq> b"
      using cd by blast
    then show ?thesis
    proof cases
      case 1
      then show ?thesis using new [of d a] old [of d a] by blast
    next
      case 2
      then show ?thesis using new [of c a] old [of c a] by blast
    next
      case 3
      then show ?thesis using tb_invD(4) [OF inv 3(1,2) cd(3), of a] old [of c a] old [of d a] by blast
    qed
  qed
  ultimately have "tb_inv s' (M(ptr \<mapsto> b))" unfolding tb_inv_def r by blast
  then show ?thesis using run nb bs f by (intro exI [of _ b] exI [of _ s']) (simp add: s'_def s2_def)
qed

lemma delete_temporal:
  fixes s :: "'a bt_temporal_scheme"
  assumes inv: "tb_inv s M" and x: "M ptr = Some b"
  shows "\<exists>s'. delete_block_temporal ptr s = Some s' \<and> tb_inv s' (M(ptr := None)) \<and> blocks s' = (blocks s)(b := None) \<and>
    timestamp s' = (timestamp s)(b := None) \<and> (\<forall>c. c \<noteq> b \<longrightarrow> temporal_shadow s' c = temporal_shadow s c) \<and>
    rt_mem s' = rt_mem s \<and> bt_clock s' = bt_clock s"
proof -
  note mm = tb_invD(1) [OF inv]
  obtain s1 where s1: "delete_block_bt ptr s = Some s1" "mm_inv s1 (M(ptr := None))" "blocks s1 = (blocks s)(b := None)"
    using delete_block_tracked [OF mm x] by blast
  note f = delete_block_frame [OF mm x s1(1)]
  define s' where "s' = s1\<lparr>timestamp := (timestamp s)(b := None), temporal_shadow := (temporal_shadow s)(b := None)\<rparr>"
  have p0: "ptr \<noteq> 0" using x mm_invD(3) [OF mm] by auto
  have "bt_lookup s ptr = Some b" using lookup_cases [OF mm, of ptr] x by auto
  then have run: "delete_block_temporal ptr s = Some s'" using s1(1) p0 f by (simp add: delete_block_temporal_def s'_def)
  have r: "ran (M(ptr := None)) = ran M - {b}" by (rule ran_remove [OF mm_invD(1) [OF mm] x])
  have bs: "blocks s' = (blocks s)(b := None)" using s1(3) by (simp add: s'_def)
  have old: "shadow_byte s' c a = shadow_byte s c a" if "c \<noteq> b" for c a
    using that by (intro shadow_byte_cong; (simp add: bs; fail)?) (simp add: s'_def)
  have "mm_inv s' (M(ptr := None))" by (rule mm_inv_cong [OF s1(2)]) (simp_all add: s'_def)
  moreover have "\<exists>t. timestamp s' c = Some t \<and> 0 < t \<and> t \<le> bt_clock s'" if "c \<in> ran M - {b}" for c
    using tb_invD(2) [OF inv, of c] that f by (auto simp: s'_def)
  moreover have "\<exists>sh. temporal_shadow s' c = Some sh \<and> (sh = 0 \<longleftrightarrow> b_size k < 8)" if "c \<in> ran M - {b}" "blocks s' c = Some k" for c k
    using tb_invD(3) [OF inv, of c k] that unfolding bs by (simp add: s'_def)
  moreover have "\<not> (shadow_byte s' c a \<and> shadow_byte s' d a)" if "c \<in> ran M - {b}" "d \<in> ran M - {b}" "c \<noteq> d" for c d a
    using that old tb_invD(4) [OF inv, of c d a] by blast
  ultimately have "tb_inv s' (M(ptr := None))" unfolding tb_inv_def r by blast
  then show ?thesis using run bs f by (intro exI [of _ s']) (simp add: s'_def)
qed

section \<open>Referents\<close>

text \<open>A variable for a pointer: the four bytes of its referent fit in the array of a tracked block.\<close>

definition tb_var :: "'a bt_temporal_scheme \<Rightarrow> (u64 \<rightharpoonup> loc) \<Rightarrow> loc \<Rightarrow> bt_block \<Rightarrow> u64 \<Rightarrow> bool" where
  "tb_var s M b k p \<longleftrightarrow> holds s M b k p \<and> 8 \<le> b_size k \<and> unat (p - b_ptr k) + 4 \<le> unat (b_size k)"

lemma referent_shadow:
  assumes "tb_inv s M" and "tb_var s M b k p"
  obtains sh where "temporal_shadow s b = Some sh" and "sh \<noteq> 0" and "temporal_referent_shadow_bt p s = Some (Inr (sh + (p - b_ptr k)))"
    and "referent_timestamp_bt p s = Some (Inr (ucast (load_le 4 (rt_mem s) (sh + (p - b_ptr k)))))"
proof -
  have h: "holds s M b k p" "\<not> b_size k < 8" using assms(2) by (simp_all add: tb_var_def not_less)
  then have b: "b \<in> ran M" "blocks s b = Some k" by (simp_all add: holds_def)
  obtain sh where sh: "temporal_shadow s b = Some sh" "sh \<noteq> 0" using tb_invD(3) [OF assms(1) b] h(2) by blast
  have f: "bt_find s p = Some b" "b \<noteq> NULL" using find_holds [OF tb_invD(1) [OF assms(1)] h(1)] by simp_all
  have "temporal_referent_shadow_bt p s = Some (Inr (sh + (p - b_ptr k)))"
    using f b sh by (simp add: temporal_referent_shadow_bt_def offset_bt_def with_block_def)
  then show thesis using that sh f by (simp add: referent_timestamp_bt_def andthen_def)
qed

lemma origin_tracked:
  assumes "mm_inv s M"
  shows "holds s M b k q \<Longrightarrow> origin_timestamp_bt q s = timestamp s b"
    and "(\<And>b k. \<not> holds s M b k q) \<Longrightarrow> origin_timestamp_bt q s = Some INVALID_TEMPORAL_TIMESTAMP"
proof -
  show "holds s M b k q \<Longrightarrow> origin_timestamp_bt q s = timestamp s b"
    using find_holds [OF assms, of b k q] by (auto simp: origin_timestamp_bt_def)
  assume "\<And>b k. \<not> holds s M b k q"
  then have "bt_find s q = Some NULL" using find_cases [OF assms, of q] by metis
  then show "origin_timestamp_bt q s = Some INVALID_TEMPORAL_TIMESTAMP" by (simp add: origin_timestamp_bt_def)
qed

lemma store_referent_tracked:
  assumes inv: "tb_inv s M" and v: "tb_var s M b k p"
  shows "\<exists>s'. store_temporal_referent_bt p t s = Some (Inr s') \<and> tb_inv s' M \<and> tb_var s' M b k p \<and>
    referent_timestamp_bt p s' = Some (Inr t) \<and> timestamp s' = timestamp s \<and> blocks s' = blocks s \<and> bt_clock s' = bt_clock s \<and>
    temporal_shadow s' = temporal_shadow s"
proof -
  obtain sh where sh: "temporal_shadow s b = Some sh" "temporal_referent_shadow_bt p s = Some (Inr (sh + (p - b_ptr k)))"
    using referent_shadow [OF inv v] by blast
  define s' where "s' = s\<lparr>rt_mem := store_le 4 (rt_mem s) (sh + (p - b_ptr k)) (ucast t)\<rparr>"
  have mm: "mm_inv s' M" by (rule mm_inv_cong [OF tb_invD(1) [OF inv]]) (simp_all add: s'_def)
  have "shadow_byte s' c a = shadow_byte s c a" for c a by (rule shadow_byte_cong) (simp_all add: s'_def)
  then have inv': "tb_inv s' M" using inv mm unfolding tb_inv_def by (simp add: s'_def)
  have v': "tb_var s' M b k p" using v by (simp add: tb_var_def holds_def s'_def)
  obtain sh' where r: "temporal_shadow s' b = Some sh'" "referent_timestamp_bt p s' = Some (Inr (ucast (load_le 4 (rt_mem s') (sh' + (p - b_ptr k)))))"
    using referent_shadow [OF inv' v'] by blast
  have "bit t n \<Longrightarrow> n < 32" for n using bit_imp_le_length [of t n] by simp
  then have "ucast (take_bit 32 (ucast t :: u64)) = t" by (intro bit_word_eqI) (auto simp: bit_simps)
  then have "referent_timestamp_bt p s' = Some (Inr t)"
    using r sh(1) load_le_store_le_same [of 4 "rt_mem s" "sh + (p - b_ptr k)" "ucast t"] by (simp add: s'_def)
  then show ?thesis using sh(2) inv' v' by (intro exI [of _ s']) (simp add: store_temporal_referent_bt_def andthen_def s'_def)
qed

text \<open>A referent stays when the block of the variable and its array do.\<close>

lemma referent_frame_bt:
  assumes "tb_inv s M" and "tb_var s M b k p" and "tb_inv s' M'" and "tb_var s' M' b k p"
    and "temporal_shadow s' b = temporal_shadow s b" and "rt_mem s' = rt_mem s"
  shows "referent_timestamp_bt p s' = referent_timestamp_bt p s"
proof -
  obtain sh where sh: "temporal_shadow s b = Some sh" "referent_timestamp_bt p s = Some (Inr (ucast (load_le 4 (rt_mem s) (sh + (p - b_ptr k)))))"
    using referent_shadow [OF assms(1,2)] by blast
  obtain sh' where sh': "temporal_shadow s' b = Some sh'" "referent_timestamp_bt p s' = Some (Inr (ucast (load_le 4 (rt_mem s') (sh' + (p - b_ptr k)))))"
    using referent_shadow [OF assms(3,4)] by blast
  show ?thesis using sh sh' assms(5,6) by simp
qed

lemma valid_iff_stamps:
  assumes "referent_timestamp_bt p s = Some (Inr t)" and "origin_timestamp_bt q s = Some u" and "p \<noteq> 0" and "p \<noteq> q"
  shows "temporal_valid_bt q p s = Some (Inr (t = u))"
  using assms by (simp add: temporal_valid_bt_def andthen_def)

text \<open>A block that is tracked later, wherever it is, does not have the stamp of a block that is gone.\<close>

lemma reused_not_valid:
  fixes s :: "'a bt_temporal_scheme"
  assumes inv: "tb_inv s M" and pm: "fresh_alloc pm" and v: "tb_var s M b k p" and f: "referent_timestamp_bt p s = Some (Inr t)"
    and gone: "\<And>d j. \<not> holds s M d j q" and t: "0 < t" "t \<le> bt_clock s" and clk: "bt_clock s \<noteq> - 1" and pq: "p \<noteq> 0" "p \<noteq> q"
    and h: "trackable sz" "region_free s M x sz" "private_fresh pmal sz s M"
  shows "\<exists>d s'. store_block_temporal pm pmal x sz s = Some (d, s') \<and> temporal_valid_bt q p s' = Some (Inr False)"
proof -
  obtain d s' where s': "store_block_temporal pm pmal x sz s = Some (d, s')" "tb_inv s' (M(x \<mapsto> d))" "d \<notin> ran M"
      "blocks s' = (blocks s)(d \<mapsto> fresh_block x sz)" "timestamp s' = (timestamp s)(d \<mapsto> bt_clock s + 1)"
      "\<And>c. c \<noteq> d \<Longrightarrow> temporal_shadow s' c = temporal_shadow s c" "rt_mem s' = rt_mem s"
    using store_temporal [OF inv pm h(2,1,3) clk] by auto
  have r: "ran (M(x \<mapsto> d)) = insert d (ran M)" using region_free_new [OF tb_invD(1) [OF inv] h(2)] by (rule ran_map_upd)
  have bd: "b \<noteq> d" using v s'(3) by (auto simp: tb_var_def holds_def)
  have v': "tb_var s' (M(x \<mapsto> d)) b k p" using v bd unfolding tb_var_def holds_def r s'(4) by simp
  have f': "referent_timestamp_bt p s' = Some (Inr t)"
    using referent_frame_bt [OF inv v s'(2) v' s'(6) [OF bd] s'(7)] f by simp
  have "\<exists>u. origin_timestamp_bt q s' = Some u \<and> t \<noteq> u"
  proof (cases "\<exists>e j. holds s' (M(x \<mapsto> d)) e j q")
    case True
    then obtain e j where e: "holds s' (M(x \<mapsto> d)) e j q" by blast
    have "e = d" using e gone [of e j] unfolding holds_def r s'(4) by (auto split: if_splits)
    then have "origin_timestamp_bt q s' = Some (bt_clock s + 1)"
      using origin_tracked(1) [OF tb_invD(1) [OF s'(2)] e] s'(5) by simp
    moreover have "t \<noteq> bt_clock s + 1" using t(2) clock_next [OF clk] by auto
    ultimately show ?thesis by simp
  next
    case False
    then have "origin_timestamp_bt q s' = Some 0"
      using origin_tracked(2) [OF tb_invD(1) [OF s'(2)], of q] by (simp add: INVALID_TEMPORAL_TIMESTAMP_def)
    then show ?thesis using t(1) by auto
  qed
  then obtain u where "origin_timestamp_bt q s' = Some u" "t \<noteq> u" by blast
  then have "temporal_valid_bt q p s' = Some (Inr False)" using valid_iff_stamps [OF f' _ pq] by simp
  then show ?thesis using s'(1) by blast
qed

text \<open>
  C40: the bittree model detects dangling pointers too. Let \<open>p\<close> be a pointer variable in one tracked block
  and \<open>q\<close> an address in another. After \<open>p\<close> is assigned \<open>q\<close> the pointer is temporally valid; after the block of \<open>q\<close>
  is deleted it is not; and when a new block is tracked at the same base address, of any size, it still is not, unless the
  32-bit counter of time stamps has wrapped around. No step fails.
\<close>

theorem bt_temporal_dangling:
  fixes s :: "'a bt_temporal_scheme"
  assumes inv: "tb_inv s M" and pm: "fresh_alloc pm" and v: "tb_var s M b k p" and q: "holds s M c l q" and bc: "b \<noteq> c"
    and clk: "bt_clock s \<noteq> - 1"
  shows "\<exists>s1 s2. temporal_store_nblock_bt p q s = Some (Inr s1) \<and> temporal_valid_bt q p s1 = Some (Inr True) \<and>
    delete_block_temporal (b_ptr l) s1 = Some s2 \<and> temporal_valid_bt q p s2 = Some (Inr False) \<and>
    (\<forall>pmal sz. trackable sz \<and> region_free s2 (M(b_ptr l := None)) (b_ptr l) sz \<and> private_fresh pmal sz s2 (M(b_ptr l := None)) \<longrightarrow>
      (\<exists>d s3. store_block_temporal pm pmal (b_ptr l) sz s2 = Some (d, s3) \<and> temporal_valid_bt q p s3 = Some (Inr False)))"
proof -
  note mm = tb_invD(1) [OF inv]
  have b: "b \<in> ran M" "blocks s b = Some k" "c \<in> ran M" "blocks s c = Some l" and hp: "holds s M b k p"
    using v q by (simp_all add: tb_var_def holds_def)
  have pq: "p \<noteq> 0" "p \<noteq> q" using holds_not_0 [OF mm hp] holds_unique(1) [OF mm hp, of c l] q bc by auto
  have x: "M (b_ptr l) = Some c" using index_ran [OF mm_invD(1) [OF mm] b(3)] b(4) by auto
  obtain t where t: "timestamp s c = Some t" "0 < t" "t \<le> bt_clock s" using tb_invD(2) [OF inv b(3)] by blast
  obtain s1 where s1: "store_temporal_referent_bt p t s = Some (Inr s1)" "tb_inv s1 M" "tb_var s1 M b k p"
      "referent_timestamp_bt p s1 = Some (Inr t)" "timestamp s1 = timestamp s" "blocks s1 = blocks s" "bt_clock s1 = bt_clock s"
    using store_referent_tracked [OF inv v, of t] by blast
  have q1: "holds s1 M c l q" using q s1(6) by (simp add: holds_def)
  have o1: "origin_timestamp_bt q s1 = Some t" using origin_tracked(1) [OF tb_invD(1) [OF s1(2)] q1] s1(5) t(1) by simp
  have n: "temporal_store_nblock_bt p q s = Some (Inr s1)"
    using origin_tracked(1) [OF mm q] t(1) s1(1) by (simp add: temporal_store_nblock_bt_def)
  let ?M = "M(b_ptr l := None)"
  obtain s2 where s2: "delete_block_temporal (b_ptr l) s1 = Some s2" "tb_inv s2 ?M" "blocks s2 = (blocks s1)(c := None)"
      "\<And>d. d \<noteq> c \<Longrightarrow> temporal_shadow s2 d = temporal_shadow s1 d" "rt_mem s2 = rt_mem s1" "bt_clock s2 = bt_clock s1"
    using delete_temporal [OF s1(2) x] by blast
  have r2: "ran ?M = ran M - {c}" by (rule ran_remove [OF mm_invD(1) [OF mm] x])
  have v2: "tb_var s2 ?M b k p" using s1(3) bc unfolding tb_var_def holds_def r2 s2(3) by simp
  have f2: "referent_timestamp_bt p s2 = Some (Inr t)"
    using referent_frame_bt [OF s1(2,3) s2(2) v2 s2(4) [OF bc] s2(5)] s1(4) by simp
  have gone: "\<not> holds s2 ?M d j q" for d j
  proof
    assume "holds s2 ?M d j q"
    then have "d \<noteq> c" "holds s1 M d j q" unfolding holds_def r2 s2(3) by (auto split: if_splits)
    then show False using holds_unique(1) [OF tb_invD(1) [OF s1(2)] q1] by blast
  qed
  have "origin_timestamp_bt q s2 = Some 0"
    using gone origin_tracked(2) [OF tb_invD(1) [OF s2(2)], of q] by (simp add: INVALID_TEMPORAL_TIMESTAMP_def)
  then have i2: "temporal_valid_bt q p s2 = Some (Inr False)" using valid_iff_stamps [OF f2 _ pq] t(2) by simp
  have s2': "t \<le> bt_clock s2" "bt_clock s2 \<noteq> - 1" using t(3) clk s1(7) s2(6) by simp_all
  have v1: "temporal_valid_bt q p s1 = Some (Inr True)" using valid_iff_stamps [OF s1(4) o1 pq] by simp
  note reuse = reused_not_valid [OF s2(2) pm v2 f2 gone t(2) s2' pq]
  show ?thesis
    by (intro exI [of _ s1] exI [of _ s2] conjI allI impI n v1 s2(1) i2) (rule reuse; simp)
qed

definition ex_tb0 :: bt_temporal where
  "ex_tb0 = \<lparr>nodes = Map.empty, blocks = Map.empty, bt_root = NULL, stats = \<lparr>heap_allocation_size = 0, heap_allocated_blocks = 0\<rparr>,
     timestamp = Map.empty, temporal_shadow = Map.empty, rt_mem = \<lambda>_. 0, bt_clock = 2\<rparr>"

lemma ex_tb0_inv: "tb_inv ex_tb0 Map.empty"
proof -
  have "bt_index ex_tb0 Map.empty"
    unfolding bt_index_def by (intro exI [of _ None]) (simp add: bt_rep_def ex_tb0_def)
  then have "mm_inv ex_tb0 Map.empty" by (simp add: mm_inv_def bt_apart_def blocks_apart_def)
  then show ?thesis by (simp add: tb_inv_def)
qed

lemma far_16: "inside p 16 a \<Longrightarrow> \<not> inside (p + 16) 16 a \<and> \<not> inside (p + 32) 16 a"
proof -
  define x where "x = a - p"
  assume "inside p 16 a"
  then have x: "unat x < 16" by (simp add: inside_def x_def)
  have "\<not> unat (x - 16) < 16" "\<not> unat (x - 32) < 16"
  proof -
    show "\<not> unat (x - 16) < 16" using x unat_add_64 [of "x - 16" 16] by auto
    show "\<not> unat (x - 32) < 16" using x unat_add_64 [of "x - 32" 32] by auto
  qed
  then show ?thesis by (simp add: inside_def x_def algebra_simps)
qed

text \<open>Two blocks of 16 bytes, the pointer at the start of the first.\<close>

lemma ex_tb_state:
  "\<exists>(s :: bt_temporal) M b c. tb_inv s M \<and> tb_var s M b (fresh_block 0x1000 16) 0x1000 \<and> holds s M c (fresh_block 0x2000 16) 0x2008 \<and> b \<noteq> c \<and>
     bt_clock s = 4"
proof -
  have tr: "trackable 16" by (simp add: trackable_def needed_bytes_def)
  have c0: "bt_clock ex_tb0 \<noteq> - 1" "blocks ex_tb0 = Map.empty" "bt_clock ex_tb0 + 1 = 3" by (simp_all add: ex_tb0_def)
  have f0: "region_free ex_tb0 Map.empty 0x1000 16" "private_fresh (\<lambda>_ _. 0x100000) 16 ex_tb0 Map.empty"
    by (simp_all add: region_free_def private_fresh_def)
  obtain b and s1 :: bt_temporal where s1: "tb_inv s1 [0x1000 \<mapsto> b]" "blocks s1 = [b \<mapsto> fresh_block 0x1000 16]" "bt_clock s1 = 3"
    using store_temporal [OF ex_tb0_inv fresh_next_loc f0(1) tr f0(2) c0(1)] unfolding c0(2,3) by blast
  obtain sh where sh: "temporal_shadow s1 b = Some sh" using tb_invD(3) [OF s1(1), of b] by (auto simp: s1(2))
  define y where "y = (if sh + 16 = 0 then sh + 32 else sh + 16)"
  have y: "y \<noteq> 0" "\<not> (inside sh 16 a \<and> inside y 16 a)" for a
  proof -
    have "sh + 32 \<noteq> 0" if "sh + 16 = 0"
    proof -
      have "sh + 32 = (sh + 16) + 16" by simp
      also have "\<dots> = 16" unfolding that by simp
      finally have e: "sh + 32 = 16" .
      show ?thesis unfolding e by simp
    qed
    then show "y \<noteq> 0" by (simp add: y_def)
    show "\<not> (inside sh 16 a \<and> inside y 16 a)" using far_16 [of sh a] by (auto simp: y_def)
  qed
  have f1: "private_fresh (\<lambda>_ _. y) 16 s1 [0x1000 \<mapsto> b]" "region_free s1 [0x1000 \<mapsto> b] 0x2000 16"
    using y by (auto simp: private_fresh_def shadow_byte_def sh s1(2) region_free_def)
  have c1: "bt_clock s1 \<noteq> - 1" "bt_clock s1 + 1 = 4" using s1(3) by simp_all
  obtain c and s2 :: bt_temporal where s2: "tb_inv s2 [0x1000 \<mapsto> b, 0x2000 \<mapsto> c]" "c \<notin> ran [0x1000 :: u64 \<mapsto> b]"
      "blocks s2 = [b \<mapsto> fresh_block 0x1000 16, c \<mapsto> fresh_block 0x2000 16]" "bt_clock s2 = 4"
    using store_temporal [OF s1(1) fresh_next_loc f1(2) tr f1(1) c1(1)] unfolding s1(2) c1(2) by blast
  have "c \<noteq> b" using s2(2) by simp
  moreover have "tb_var s2 [0x1000 \<mapsto> b, 0x2000 \<mapsto> c] b (fresh_block 0x1000 16) 0x1000" "holds s2 [0x1000 \<mapsto> b, 0x2000 \<mapsto> c] c (fresh_block 0x2000 16) 0x2008"
    using \<open>c \<noteq> b\<close> by (simp_all add: tb_var_def holds_def s2(3) block_has_def ran_map_upd)
  ultimately show ?thesis using s2(1,4) by blast
qed

theorem bt_temporal_dangling_witness:
  "\<exists>(s :: bt_temporal) s1 s2. temporal_store_nblock_bt 0x1000 0x2008 s = Some (Inr s1) \<and> temporal_valid_bt 0x2008 0x1000 s1 = Some (Inr True) \<and>
    delete_block_temporal 0x2000 s1 = Some s2 \<and> temporal_valid_bt 0x2008 0x1000 s2 = Some (Inr False)"
proof -
  obtain s :: bt_temporal and M b c where s: "tb_inv s M" "tb_var s M b (fresh_block 0x1000 16) 0x1000" "holds s M c (fresh_block 0x2000 16) 0x2008"
      "b \<noteq> c" "bt_clock s = 4"
    using ex_tb_state by blast
  have "bt_clock s \<noteq> - 1" using s(5) by simp
  from bt_temporal_dangling [OF s(1) fresh_next_loc s(2-4) this] show ?thesis by auto
qed

end
