(* ===== verification/Spec2Isabelle.thy ===== *)
theory Spec2Isabelle
  imports Bittree_Props Bittree_Tracker Segment_Heap_Props Libc_String_Props Libc_Replacements_Props Runtime_Assert Runtime_String
    Format_Props Wchar Libc_Stdlib Libc_Env Temporal_Props Libc_Math Libc_Stdio Libc_Glob Libc_Net Bittree_Temporal
begin

text \<open>
  \<^bold>\<open>The C code of Frama-C.\<close> The repository is the Frama-C platform; its C code is the run-time library
  of the E-ACSL plug-in (\<^verbatim>\<open>src/src/plugins/e-acsl/share/e-acsl\<close>), which is linked into an instrumented
  program and decides at run time whether annotations such as \<^verbatim>\<open>\valid(p)\<close> or \<^verbatim>\<open>\initialized(p)\<close> hold,
  and the C library of the analyzers (\<^verbatim>\<open>src/share/libc\<close>), headers with ACSL contracts and reference
  implementations. This development models both.

  \<^bold>\<open>How the parts interact.\<close> The instrumented program calls \<^verbatim>\<open>store_block\<close>, \<^verbatim>\<open>delete_block\<close>, \<^verbatim>\<open>malloc\<close>,
  \<^verbatim>\<open>free\<close>, \<^verbatim>\<open>initialize\<close> as its memory changes, and \<^verbatim>\<open>valid\<close>, \<^verbatim>\<open>valid_read\<close>, \<^verbatim>\<open>initialized\<close>, \<^verbatim>\<open>base_addr\<close>
  and the others where an annotation needs an answer. One of two memory models is linked in: the
  bittree model keeps a record per block in a Patricia trie, the segment model keeps shadow memory at
  fixed offsets from the application's memory. Both rest on the bit operations, both are used by the
  checked replacements of library functions, and all parts report through the printing functions.

  \<^bold>\<open>Theories.\<close>
  \<^item> \<open>Prelude\<close>: machine words, byte memory with little-endian accesses, outcomes of code that may abort.
  \<^item> \<open>Bits\<close> (\<^verbatim>\<open>e_acsl_bits.h\<close>): the bit macros and functions and their exact effect on memory.
  \<^item> \<open>Bittree_Mask\<close>, \<open>Bittree\<close> (\<^verbatim>\<open>bittree_model/e_acsl_bittree.h\<close>, \<^verbatim>\<open>e_acsl_bittree_api.h\<close>): the trie in an
    explicit store of nodes and blocks. \<open>Bittree_Trie\<close>, \<open>Bittree_Refine\<close>, \<open>Bittree_Insert\<close>,
    \<open>Bittree_Remove\<close>, \<open>Block_Index\<close>, \<open>Bittree_Index\<close>: tries as a datatype, the representation relation,
    and the refinement of a finite map from base addresses to blocks; \<open>Block_Index\<close> states the map's
    laws as locales.
  \<^item> \<open>Alloc\<close> (\<^verbatim>\<open>e_acsl_malloc.h\<close>, \<^verbatim>\<open>e_acsl_leak.h\<close>), \<open>Safe_Locations\<close> (\<^verbatim>\<open>e_acsl_safe_locations.h\<close>).
  \<^item> \<open>Bittree_MModel\<close> (\<^verbatim>\<open>bittree_model/e_acsl_bittree_mmodel.c\<close>) with \<open>Bittree_Init\<close>, \<open>Bittree_Correct\<close>,
    \<open>Bittree_Props\<close>: the public functions over the trie, the state invariant \<^const>\<open>mm_inv\<close>, and what every
    function does to it.
  \<^item> \<open>Shadow_Layout\<close> (\<^verbatim>\<open>segment_model/e_acsl_shadow_layout.h\<close>), \<open>Segment_Static\<close>, \<open>Segment_Heap\<close>
    (\<^verbatim>\<open>segment_model/e_acsl_segment_tracking.h\<close>), \<open>Segment_MModel\<close> (\<^verbatim>\<open>segment_model/e_acsl_segment_mmodel.c\<close>,
    \<^verbatim>\<open>e_acsl_temporal.h\<close>, \<^verbatim>\<open>e_acsl_temporal_timestamp.h\<close>): the segment model. \<open>Segment_Layout\<close>,
    \<open>Segment_Encoding\<close>, \<open>Segment_Masks\<close>, \<open>Segment_Static_Correct\<close>, \<open>Segment_Tracker\<close>, \<open>Segment_Props\<close> treat
    static memory, \<open>Segment_Heap_Correct\<close>, \<open>Segment_Heap_Init\<close>, \<open>Segment_Heap_Props\<close> the heap.
  \<^item> \<open>Segment_Temporal\<close>, \<open>Temporal_Tracker\<close>, \<open>Temporal_Props\<close>: the temporal analysis of the segment model on the heap, as
    the simulation of a machine of stamped blocks and referents (locale \<open>simulation\<close>). \<open>Bittree_Temporal\<close>: the fields and
    functions of the temporal build of the bittree model.
  \<^item> \<open>Memory_Model\<close>: what \<^verbatim>\<open>e_acsl.h\<close> promises of a memory model, as two locales over a map of blocks and a
    set of initialized bytes; \<open>Bittree_Tracker\<close> and \<open>Segment_Tracker\<close> interpret them for the two models.
  \<^item> \<open>Printf\<close> (\<^verbatim>\<open>e_acsl_printf.h\<close>) with \<open>Printf_Correct\<close>, \<open>Printf_Format\<close>, \<open>Printf_Props\<close>: number conversions,
    the format interpreter, and its refinement of a list of directives.
  \<^item> \<open>Runtime_String\<close> (\<^verbatim>\<open>e_acsl_string.h\<close>), \<open>Runtime_Assert\<close> (\<^verbatim>\<open>e_acsl_assert.h\<close>): string helpers and the reporting
    of violated annotations.
  \<^item> \<open>Libc_Replacements\<close> (\<^verbatim>\<open>e_acsl_libc_replacements.h\<close>) with \<open>Libc_Replacements_Correct\<close>,
    \<open>Libc_Replacements_Props\<close>: the checked functions over a record of queries. What they rely on is the
    locale \<open>checked_memory\<close>, interpreted for the bittree model, for the static memory of the segment model, and in
    \<open>Segment_Checked\<close> for its whole memory, static blocks and heap.
  \<^item> \<open>Libc_String\<close> (\<^verbatim>\<open>share/libc/string.c\<close>), \<open>Libc_String_Spec\<close> (\<^verbatim>\<open>__fc_string_axiomatic.h\<close>),
    \<open>Libc_String_Contracts\<close> (\<^verbatim>\<open>string.h\<close>) with \<open>Libc_String_Loops\<close>, \<open>Libc_String_Correct\<close>,
    \<open>Libc_String_Props\<close>: the string functions, the axioms and the contracts, and which of them hold.
  \<^item> \<open>Format_Parse\<close>, \<open>Format_Check\<close> (\<^verbatim>\<open>e_acsl_format.h\<close>) with \<open>Format_Grammar\<close>, \<open>Format_Roundtrip\<close>, \<open>Format_Correct\<close>, \<open>Format_Props\<close>:
    the parser of format strings, the checks of the arguments, and the checked printing functions.
  \<^item> \<open>Libc_Builtin\<close> (\<^verbatim>\<open>__fc_builtin.c\<close>): the nondeterministic functions, in a state monad over a stream of drawn values and the
    memory. \<open>Libc_Env\<close> (the environment of \<^verbatim>\<open>stdlib.c\<close>), \<open>Libc_Buffers\<close> (\<^verbatim>\<open>strerror\<close>, \<^verbatim>\<open>strsignal\<close>, \<^verbatim>\<open>time.c\<close>), \<open>Libc_Glob\<close> (\<^verbatim>\<open>glob.c\<close>)
    and \<open>Libc_Net\<close> (\<^verbatim>\<open>netdb.c\<close>) are written with it.
  \<^item> \<open>Ctype\<close> (\<^verbatim>\<open>ctype.c\<close>, \<^verbatim>\<open>ctype.h\<close>), \<open>Wchar\<close> (\<^verbatim>\<open>wchar.c\<close>), \<open>Libc_Stdlib\<close> (the rest of \<^verbatim>\<open>stdlib.c\<close>), \<open>Libc_Math\<close> (\<^verbatim>\<open>math.c\<close>,
    \<^verbatim>\<open>inttypes.c\<close>, \<^verbatim>\<open>fenv.c\<close>), \<open>Libc_Stdio\<close> (\<^verbatim>\<open>stdio.c\<close>).

  \<^bold>\<open>State and results.\<close> A state is a record, a function that changes it returns the new one. \<open>None\<close> is
  undefined behaviour of the C code (a dereference of an unallocated record, an array overrun, signed
  overflow) or a loop that never ends; \<open>Inl msg\<close> is a call of \<^verbatim>\<open>vabort\<close> or a failed \<^verbatim>\<open>vassert\<close>. Loops with a
  counter recurse on the count; the others are partial functions in the option type, and their
  theorems show that they return. No fuel is used.

  \<^bold>\<open>Configuration.\<close> 64-bit little-endian words, as \<^verbatim>\<open>e_acsl_bits.h\<close> requires; no debug code, except the
  check of the shadow layout. Weak validity, temporal analysis and the validity of freed null pointers
  are build flags of the model. The allocators (dlmalloc), \<^verbatim>\<open>getrlimit\<close>, the linker symbols, \<^verbatim>\<open>write\<close> and
  floating-point arithmetic are parameters.

  \<^bold>\<open>What is shown.\<close> The trie implements a finite map with search by containment, through every sequence
  of operations; both memory models refine the map of blocks and agree with each other; \<^verbatim>\<open>initialize\<close>
  and \<^verbatim>\<open>initialized\<close> are exact on static memory and in the bittree model; allocation and release are
  inverse; shadow bytes are distinct; a dangling pointer is never taken for a valid one until the time stamps wrap around; the string functions meet their contracts where the contracts
  can be met; formats are printed as written; format strings are parsed field by field, except for the index of the argument, and accepted exactly when the
  arguments fit, if the indices are right; the checked library functions touch tracked memory only; the functions of the C library return, and
  write exactly the bytes their theorems name.
  Several theorems state where the code departs from this: sizes that wrap around, read-only marks,
  initialization queries on the heap, referents lost by \<^verbatim>\<open>realloc\<close>, contracts that contradict each other or the code, character classes that are drawn, the mask of \<^verbatim>\<open>isfinite\<close>,
  the count of \<^verbatim>\<open>glob\<close>, numeric host names.

  \<^bold>\<open>Not modelled.\<close> The allocator \<^verbatim>\<open>dlmalloc.c\<close> is vendored; \<^verbatim>\<open>e_acsl_gmp_api.h\<close> declares an external
  library; \<^verbatim>\<open>e_acsl_debug.h\<close>, \<^verbatim>\<open>e_acsl_trace.h\<close> and \<^verbatim>\<open>e_acsl_shexec.h\<close> are debug output and process control;
  \<^verbatim>\<open>e_acsl.h\<close> and most headers of \<^verbatim>\<open>share/libc\<close> are declarations whose functions have no body here. Of the temporal
  builds, the assignments of \<^verbatim>\<open>argv_alloca\<close> and the malloc family of the bittree model; of the library, \<^verbatim>\<open>locale.c\<close> and \<^verbatim>\<open>assert.c\<close>,
  which hold a constant and an abort, the two copies of a volatile structure in \<^verbatim>\<open>fenv.c\<close>, and the two builtins on floating-point
  intervals. The plug-ins themselves are written in another language.
\<close>

section \<open>The two memory models\<close>

definition ex_mm0 :: mm_state where
  "ex_mm0 = \<lparr>nodes = Map.empty, blocks = Map.empty, bt_root = NULL,
     stats = \<lparr>heap_allocation_size = 0, heap_allocated_blocks = 0\<rparr>\<rparr>"

lemma ex_mm0_rep: "bt_mm_rep ex_mm0 Map.empty"
proof -
  have "bt_index ex_mm0 Map.empty"
    unfolding bt_index_def by (intro exI [of _ None]) (simp add: bt_rep_def ex_mm0_def)
  then have "mm_inv ex_mm0 Map.empty"
    by (simp add: mm_inv_def bt_apart_def blocks_apart_def)
  then show ?thesis unfolding bt_mm_rep_def by (intro exI [of _ Map.empty]) (simp add: bt_sizes_def)
qed



end
